(* ===== verification/Prelude.thy ===== *)
theory Prelude
  imports Main
begin

text \<open>
  What every component shares: the values a handler can return or throw, the database
  transaction, the printing of numbers in template strings, JavaScript's coercion of
  \<open>null\<close>, and the lemma collections of the development.

  A handler of the backend is a function from the state to an outcome and the new state.
  An exception does not undo the writes made before it, so the state is part of the result in
  both cases; only \<open>transaction\<close> restores it.
\<close>

named_theorems handler_defs \<open>definitions of handlers, for case analysis of one call\<close>

named_theorems frame_simps \<open>which tables an operation leaves alone\<close>

type_synonym uuid = string

type_synonym wallet = string

type_synonym time = int

text \<open>
  The exceptions of \<open>@nestjs/common\<close> the services throw, the query errors of the database
  driver (by PostgreSQL error code, \<open>23505\<close>, \<open>23502\<close> and \<open>23503\<close>) and JavaScript's own errors.
\<close>

datatype exn =
    NotFoundException string
  | UnauthorizedException string
  | BadRequestException string
  | ForbiddenException string
  | ConflictException string
  | GoneException string
  | ServiceUnavailableException string
  | InternalServerErrorException string
  | BadGatewayException string
  | TooManyRequestsException string
  | PayloadTooLargeException string
  | UnsupportedMediaTypeException string
  | UnprocessableEntityException string
  | UniqueViolation string
  | NotNullViolation string
  | ForeignKeyViolation
  | TypeError string
  | JsError string

text \<open>\<open>error.message\<close>\<close>

fun exn_message :: "exn \<Rightarrow> string" where
  "exn_message (NotFoundException s) = s"
| "exn_message (UnauthorizedException s) = s"
| "exn_message (BadRequestException s) = s"
| "exn_message (ForbiddenException s) = s"
| "exn_message (ConflictException s) = s"
| "exn_message (GoneException s) = s"
| "exn_message (ServiceUnavailableException s) = s"
| "exn_message (InternalServerErrorException s) = s"
| "exn_message (BadGatewayException s) = s"
| "exn_message (TooManyRequestsException s) = s"
| "exn_message (PayloadTooLargeException s) = s"
| "exn_message (UnsupportedMediaTypeException s) = s"
| "exn_message (UnprocessableEntityException s) = s"
| "exn_message (UniqueViolation s) = ''duplicate key value violates unique constraint'' @ s"
| "exn_message (NotNullViolation s) = ''null value in column '' @ s"
| "exn_message ForeignKeyViolation = ''violates foreign key constraint''"
| "exn_message (TypeError s) = s"
| "exn_message (JsError s) = s"

type_synonym 'a outcome = "exn + 'a"

fun is_ok :: "'a outcome \<Rightarrow> bool" where
  "is_ok (Inl e) = False"
| "is_ok (Inr x) = True"

lemma is_ok_iff: "is_ok r \<longleftrightarrow> (\<exists>x. r = Inr x)"
  by (cases r) auto

lemma outcome_run: "fst p = r \<Longrightarrow> p = (r, snd p)"
  by (cases p) simp

text \<open>\<open>dataSource.transaction\<close>: a body that throws leaves the database as it was.\<close>

definition transaction :: "('w \<Rightarrow> 'a outcome \<times> 'w) \<Rightarrow> 'w \<Rightarrow> 'a outcome \<times> 'w" where
  "transaction body w = (case body w of (Inl e, _) \<Rightarrow> (Inl e, w) | (Inr x, w') \<Rightarrow> (Inr x, w'))"

lemma transaction_rolls_back: "transaction body w = (Inl e, w') \<Longrightarrow> w' = w"
  by (auto simp: transaction_def split: prod.splits sum.splits)

lemma transaction_commits: "transaction body w = (Inr x, w') \<longleftrightarrow> body w = (Inr x, w')"
  by (auto simp: transaction_def split: prod.splits sum.splits)

lemma transaction_Inl: "transaction body w = (Inl e, w') \<longleftrightarrow> w' = w \<and> fst (body w) = Inl e"
  by (auto simp: transaction_def split: prod.splits sum.splits)

subsection \<open>Numbers in template strings\<close>

definition digit_char :: "nat \<Rightarrow> char" where
  "digit_char d = char_of (48 + d)"

fun show_nat :: "nat \<Rightarrow> string" where
  "show_nat n = (if n < 10 then [digit_char n] else show_nat (n div 10) @ [digit_char (n mod 10)])"

declare show_nat.simps [simp del]

lemma show_nat_small [simp]: "n < 10 \<Longrightarrow> show_nat n = [digit_char n]"
  by (simp add: show_nat.simps)

lemma show_nat_big [simp]: "10 \<le> n \<Longrightarrow> show_nat n = show_nat (n div 10) @ [digit_char (n mod 10)]"
  by (subst show_nat.simps) simp

definition show_int :: "int \<Rightarrow> string" where
  "show_int i = (if i < 0 then ''-'' @ show_nat (nat (- i)) else show_nat (nat i))"

definition read_nat :: "string \<Rightarrow> nat" where
  "read_nat s = foldl (\<lambda>a c. 10 * a + (of_char c - 48)) 0 s"

lemma of_char_digit: "d < 10 \<Longrightarrow> of_char (digit_char d) = 48 + d"
  by (simp add: digit_char_def)

lemma read_show_nat: "read_nat (show_nat n) = n"
proof (induction n rule: show_nat.induct)
  case (1 n)
  show ?case
  proof (cases "n < 10")
    case True
    then show ?thesis by (simp add: read_nat_def of_char_digit)
  next
    case False
    with 1 have "read_nat (show_nat (n div 10)) = n div 10" by simp
    with False show ?thesis by (simp add: read_nat_def of_char_digit)
  qed
qed

lemma show_nat_inj: "show_nat m = show_nat n \<longleftrightarrow> m = n"
  by (metis read_show_nat)

lemma digit_char_inj [simp]: "d < 10 \<Longrightarrow> e < 10 \<Longrightarrow> digit_char d = digit_char e \<longleftrightarrow> d = e"
  by (metis add_left_cancel of_char_digit)

lemma set_show_nat: "c \<in> set (show_nat n) \<Longrightarrow> \<exists>d < 10. c = digit_char d"
proof (induction n rule: show_nat.induct)
  case (1 n)
  show ?case
  proof (cases "n < 10")
    case True
    with "1.prems" show ?thesis by auto
  next
    case False
    with "1.prems" have "c \<in> set (show_nat (n div 10)) \<or> c = digit_char (n mod 10)" by auto
    with False "1.IH" show ?thesis by (metis mod_less_divisor zero_less_numeral)
  qed
qed

lemma digit_char_neq [simp]:
  assumes "d < 10"
  shows "digit_char d \<noteq> CHR '':''" and "digit_char d \<noteq> CHR ''-''"
proof -
  have "of_char (digit_char d) \<noteq> (of_char (CHR '':'') :: nat)"
    and "of_char (digit_char d) \<noteq> (of_char (CHR ''-'') :: nat)"
    using assms by (simp_all add: of_char_digit)
  then show "digit_char d \<noteq> CHR '':''" and "digit_char d \<noteq> CHR ''-''" by metis+
qed

lemma show_nat_no_minus: "CHR ''-'' \<notin> set (show_nat n)"
  and show_nat_no_colon: "CHR '':'' \<notin> set (show_nat n)"
  using set_show_nat digit_char_neq by metis+

lemma show_nat_nonempty [simp]: "show_nat n \<noteq> []"
  by (cases "n < 10") simp_all

lemma show_int_inj: "show_int i = show_int j \<longleftrightarrow> i = j"
proof -
  have neq: "show_nat m \<noteq> CHR ''-'' # s" "CHR ''-'' # s \<noteq> show_nat m" for m s
    by (metis list.set_intros(1) show_nat_no_minus)+
  show ?thesis
    by (auto simp: show_int_def show_nat_inj neq split: if_splits)
qed

lemma show_int_no_colon: "CHR '':'' \<notin> set (show_int i)"
  by (auto simp: show_int_def show_nat_no_colon)

text \<open>Two strings cut at their first separator, or at their last colon, agree on both sides.\<close>

lemma first_cut:
  "c \<notin> set r \<Longrightarrow> c \<notin> set s \<Longrightarrow> r @ c # a = s @ c # b \<Longrightarrow> r = s \<and> a = b"
proof (induction r arbitrary: s)
  case Nil
  then show ?case by (cases s) auto
next
  case (Cons x r)
  then show ?case by (cases s) auto
qed

lemma last_colon_cut:
  assumes "a @ '':'' @ r = b @ '':'' @ s"
    and "CHR '':'' \<notin> set r" and "CHR '':'' \<notin> set s"
  shows "a = b \<and> r = s"
proof -
  have "rev r @ CHR '':'' # rev a = rev s @ CHR '':'' # rev b"
    using arg_cong [OF assms(1), of rev] by simp
  from first_cut [OF _ _ this] assms(2,3) show ?thesis by simp
qed

subsection \<open>null in arithmetic\<close>

text \<open>A comparison or a subtraction on a nullable column coerces \<open>null\<close> to 0.\<close>

definition js_num :: "int option \<Rightarrow> int" where
  "js_num x = (case x of None \<Rightarrow> 0 | Some n \<Rightarrow> n)"

lemma js_num_simps [simp]: "js_num None = 0" "js_num (Some n) = n"
  by (simp_all add: js_num_def)

text \<open>A string is falsy when it is absent or empty.\<close>

definition truthy :: "string option \<Rightarrow> bool" where
  "truthy s = (case s of None \<Rightarrow> False | Some t \<Rightarrow> t \<noteq> [])"

lemma truthy_simps [simp]: "truthy None = False" "truthy (Some t) = (t \<noteq> [])"
  by (simp_all add: truthy_def)

text \<open>\<open>MAX(column)\<close> of SQL: NULL when no row has a value.\<close>

fun sql_max :: "int list \<Rightarrow> int option" where
  "sql_max [] = None"
| "sql_max (x # xs) = (case sql_max xs of None \<Rightarrow> Some x | Some y \<Rightarrow> Some (max x y))"

lemma sql_max_None [simp]: "sql_max xs = None \<longleftrightarrow> xs = []"
  by (cases xs) (auto split: option.splits)

lemma sql_max_ge: "sql_max xs = Some m \<Longrightarrow> x \<in> set xs \<Longrightarrow> x \<le> m"
  by (induction xs arbitrary: m) (auto split: option.splits)

lemma sql_max_mem: "sql_max xs = Some m \<Longrightarrow> m \<in> set xs"
  by (induction xs arbitrary: m) (auto simp: max_def split: option.splits if_splits)

text \<open>Sorting commutes with a change of the rows that is taken into account in the key.\<close>

lemma sort_key_map: "sort_key f (map h xs) = map h (sort_key (f \<circ> h) xs)"
proof -
  have "insort_key f (h x) (map h ys) = map h (insort_key (f \<circ> h) x ys)" for x ys
    by (induction ys) auto
  then show ?thesis by (induction xs) simp_all
qed

subsection \<open>Contracts of a state machine\<close>

text \<open>
  A component is a state machine whose operations are the calls of its handlers: \<open>exec op s\<close> is
  the state after the call \<open>op\<close>. Its contract is an invariant every call keeps; an extension
  adds an order in which the state only moves forward, another an effect that happens at most
  once for each key.
\<close>

locale machine =
  fixes exec :: "'op \<Rightarrow> 's \<Rightarrow> 's"
    and inv :: "'s \<Rightarrow> bool"
  assumes exec_inv: "inv s \<Longrightarrow> inv (exec op s)"
begin

lemma run_inv: "inv s \<Longrightarrow> inv (fold exec ops s)"
  by (induction ops arbitrary: s) (simp_all add: exec_inv)

lemma run_append_inv: "inv s \<Longrightarrow> inv (fold exec (ops @ ops') s)"
  by (rule run_inv)

end

locale monotone_machine = machine +
  fixes le :: "'s \<Rightarrow> 's \<Rightarrow> bool"
  assumes le_refl: "le s s"
    and le_trans: "le s t \<Longrightarrow> le t u \<Longrightarrow> le s u"
    and exec_le: "inv s \<Longrightarrow> le s (exec op s)"
begin

lemma run_le: "inv s \<Longrightarrow> le s (fold exec ops s)"
proof (induction ops arbitrary: s)
  case (Cons op ops)
  have "le (exec op s) (fold exec ops (exec op s))" by (rule Cons.IH) (rule exec_inv [OF Cons.prems])
  with exec_le [OF Cons.prems] show ?case by (auto intro: le_trans)
qed (simp add: le_refl)

end

text \<open>How often a run takes the calls that are due.\<close>

fun count_due :: "('op \<Rightarrow> 's \<Rightarrow> bool) \<Rightarrow> ('op \<Rightarrow> 's \<Rightarrow> 's) \<Rightarrow> 'op list \<Rightarrow> 's \<Rightarrow> nat" where
  "count_due due exec [] s = 0"
| "count_due due exec (op # ops) s = (if due op s then 1 else 0) + count_due due exec ops (exec op s)"

locale once_machine = machine +
  fixes due :: "'k \<Rightarrow> 'op \<Rightarrow> 's \<Rightarrow> bool"
    and marked :: "'k \<Rightarrow> 's \<Rightarrow> bool"
  assumes marked_stays: "inv s \<Longrightarrow> marked k s \<Longrightarrow> marked k (exec op s)"
    and due_marks: "inv s \<Longrightarrow> due k op s \<Longrightarrow> marked k (exec op s)"
    and due_unmarked: "inv s \<Longrightarrow> due k op s \<Longrightarrow> \<not> marked k s"
begin

lemma marked_never_due: "inv s \<Longrightarrow> marked k s \<Longrightarrow> count_due (due k) exec ops s = 0"
  by (induction ops arbitrary: s) (auto simp: exec_inv marked_stays dest: due_unmarked)

lemma at_most_once: "inv s \<Longrightarrow> count_due (due k) exec ops s \<le> 1"
proof (induction ops arbitrary: s)
  case (Cons op ops)
  show ?case
  proof (cases "due k op s")
    case True
    then have "count_due (due k) exec ops (exec op s) = 0"
      using Cons.prems by (intro marked_never_due) (simp_all add: exec_inv due_marks)
    with True show ?thesis by simp
  qed (use Cons exec_inv in simp)
qed simp

end

end
