(* ===== verification/Entities.thy ===== *)
theory Entities
  imports Prelude
begin

text \<open>
  The persistent entities of \<open>ahjoorxmr/src\<close>: one record per TypeORM entity (its columns, under
  a prefix, since record fields of different entities share names), one datatype per enum, and
  the record \<open>world\<close> of all tables with the message queues the handlers write to. A nullable
  column is an option; a timestamp is its milliseconds; a \<open>decimal(5,4)\<close> column is its value
  in ten-thousandths.
\<close>

subsection \<open>Enumerations\<close>

datatype group_status = GS_PENDING | GS_ACTIVE | GS_COMPLETED

datatype payout_order_strategy = SEQUENTIAL | RANDOM | ADMIN_DEFINED

datatype membership_status = MS_ACTIVE | MS_SUSPENDED | MS_REMOVED

datatype waitlist_status = WAITING | ADMITTED | CANCELLED

datatype contribution_status = CS_PENDING | CS_ON_CHAIN_SUBMITTED | CS_CONFIRMED | CS_FAILED

datatype payout_tx_status = PENDING_SUBMISSION | SUBMITTED | PT_CONFIRMED | PT_FAILED

datatype penalty_status = PS_PENDING | PS_PAID | PS_WAIVED | PS_DISPUTED | PS_REJECTED

datatype invite_status = IS_ACTIVE | IS_EXPIRED | IS_EXHAUSTED

datatype notification_type =
    ROUND_OPENED | CONTRIBUTION_REMINDER | PAYMENT_REMINDER | PAYOUT_RECEIVED
  | MEMBER_JOINED | MEMBER_LEFT | MEMBER_REMOVED | SYSTEM_ALERT
  | KYC_SUBMITTED | KYC_APPROVED | KYC_DECLINED | ADMIN_TRANSFERRED
  | PENALTY_DISPUTED | PENALTY_RESOLVED | MEMBER_SUSPENDED | MEMBER_REINSTATED
  | GROUP_ANNOUNCEMENT | IMPERSONATION_REQUEST | WAITLIST_ADMITTED
  | NT_undefined string  \<comment> \<open>a member of the enum that the code names and the enum lacks\<close>

fun defined_type :: "notification_type \<Rightarrow> bool" where
  "defined_type (NT_undefined x) = False"
| "defined_type _ = True"

fun show_group_status :: "group_status \<Rightarrow> string" where
  "show_group_status GS_PENDING = ''PENDING''"
| "show_group_status GS_ACTIVE = ''ACTIVE''"
| "show_group_status GS_COMPLETED = ''COMPLETED''"

subsection \<open>Entities\<close>

record user =
  u_id :: uuid
  u_walletAddress :: wallet

record rosca_group =
  g_id :: uuid
  g_name :: string
  g_contractAddress :: "string option"
  g_adminWallet :: wallet
  g_contributionAmount :: string
  g_token :: string
  g_assetCode :: "string"
  g_assetIssuer :: "string option"
  g_unitOfAccountAssetCode :: "string"
  g_unitOfAccountAssetIssuer :: "string option"
  g_fxRateExpirySeconds :: int
  g_fxToleranceBps :: int
  g_allowCrossAssetContributions :: bool
  g_roundDuration :: int
  g_status :: group_status
  g_currentRound :: int
  g_totalRounds :: int
  g_payoutOrderStrategy :: payout_order_strategy
  g_minMembers :: int
  g_maxMembers :: int
  g_staleAt :: "time option"
  g_startDate :: "time option"
  g_endDate :: "time option"
  g_timezone :: "string option"
  g_penaltyRate :: int
  g_gracePeriodHours :: int
  g_deletedAt :: "time option"
  g_createdAt :: time

record membership =
  m_id :: uuid
  m_groupId :: uuid
  m_userId :: uuid
  m_walletAddress :: wallet
  m_payoutOrder :: "int option"
  m_hasReceivedPayout :: bool
  m_hasPaidCurrentRound :: bool
  m_contributionsMade :: int
  m_transactionHash :: "string option"
  m_status :: membership_status

record waitlist_entry =
  wl_id :: uuid
  wl_groupId :: uuid
  wl_userId :: uuid
  wl_walletAddress :: wallet
  wl_position :: int
  wl_status :: waitlist_status
  wl_createdAt :: time

record contribution =
  c_id :: uuid
  c_groupId :: uuid
  c_userId :: uuid
  c_walletAddress :: wallet
  c_roundNumber :: int
  c_amount :: string
  c_transactionHash :: string
  c_timestamp :: time
  c_assetCode :: string
  c_assetIssuer :: "string option"
  c_unitOfAccountAssetCode :: string
  c_unitOfAccountAssetIssuer :: "string option"
  c_fxRate :: string
  c_fxRateCapturedAt :: "time option"
  c_fxRateExpiresAt :: "time option"
  c_fxToleranceBps :: int
  c_normalizedAmount :: "string option"
  c_status :: contribution_status
  c_idempotencyKey :: "string option"
  c_updatedAt :: time

record payout_tx =
  pt_id :: uuid
  pt_payoutOrderId :: string
  pt_status :: payout_tx_status
  pt_txHash :: "string option"
  pt_assetCode :: string
  pt_assetIssuer :: "string option"
  pt_requestedAmount :: "string option"
  pt_deliveredAmount :: "string option"
  pt_pathPaymentOutcome :: "string option"
  pt_fxRate :: "string option"
  pt_failureReason :: "string option"

record penalty =
  p_id :: uuid
  p_groupId :: uuid
  p_userId :: uuid
  p_roundNumber :: int
  p_amount :: string
  p_assetCode :: string
  p_dueAt :: time
  p_paidAt :: "time option"
  p_status :: penalty_status
  p_waiverReason :: "string option"
  p_waivedByUserId :: "uuid option"
  p_waivedAt :: "time option"
  p_disputeReason :: "string option"
  p_disputeTxHash :: "string option"
  p_disputedAt :: "time option"
  p_resolutionNotes :: "string option"
  p_resolvedByUserId :: "uuid option"
  p_resolvedAt :: "time option"

record group_invite =
  i_id :: uuid
  i_groupId :: uuid
  i_createdBy :: uuid
  i_code :: string
  i_maxUses :: int
  i_usedCount :: int
  i_expiresAt :: time
  i_status :: invite_status

text \<open>A group template: the reusable settings and their owner. An absent field is \<open>None\<close>.\<close>

record template_config =
  tc_contributionAmount :: string
  tc_roundDuration :: int
  tc_totalRounds :: int
  tc_maxMembers :: "int option"
  tc_minMembers :: int
  tc_assetCode :: "string option"
  tc_assetIssuer :: "string option"
  tc_payoutOrderStrategy :: "payout_order_strategy option"
  tc_penaltyRate :: "int option"
  tc_gracePeriodHours :: "int option"
  tc_timezone :: "string option"

record group_template =
  gt_id :: uuid
  gt_name :: string
  gt_description :: "string option"
  gt_isPublic :: bool
  gt_config :: template_config
  gt_ownerId :: uuid
  gt_usageCount :: int
  gt_deletedAt :: "time option"
  gt_createdAt :: time

record notification =
  n_id :: uuid
  n_userId :: uuid
  n_type :: notification_type
  n_title :: string
  n_body :: string
  n_isRead :: bool
  n_idempotencyKey :: "string option"
  n_createdAt :: time

record channel_preference =
  inApp :: bool
  cp_email :: bool
  push :: bool

subsection \<open>Messages to the rest of the system\<close>

datatype webhook_event =
    GROUP_ARCHIVED uuid
  | GROUP_ACTIVATED uuid int int
  | GROUP_COMPLETED uuid int
  | CONTRIBUTION_VERIFIED uuid

record audit_entry =
  a_userId :: uuid
  a_action :: string
  a_resource :: string

text \<open>A \<open>setImmediate\<close> callback: work that runs after the handler has returned.\<close>

datatype task =
    AdmitFromWaitlist uuid
  | NotifyAdmitted uuid uuid uuid string
  | SendEmail string notification_type string string

record tx_job =
  j_contributionId :: uuid
  j_transactionHash :: string
  j_userId :: uuid
  j_deadline :: time

subsection \<open>The state\<close>

record world =
  users :: "user list"
  groups :: "rosca_group list"
  memberships :: "membership list"
  waitlist :: "waitlist_entry list"
  contributions :: "contribution list"
  payout_txs :: "payout_tx list"
  penalties :: "penalty list"
  invites :: "group_invite list"
  templates :: "group_template list"
  notifications :: "notification list"
  notif_prefs :: "uuid \<Rightarrow> notification_type \<Rightarrow> channel_preference"
  webhook_log :: "webhook_event list"
  audit_log :: "audit_entry list"
  payout_jobs :: "uuid list"
  tx_jobs :: "tx_job list"
  deferred :: "task list"
  inflight_locks :: "string list"
  now :: time
  uuid_count :: nat

type_synonym 'a io = "world \<Rightarrow> 'a outcome \<times> world"

text \<open>
  The primary keys PostgreSQL generates: all the code uses of them is that a generated key is
  not one generated before, so the n-th key is the printed counter.
\<close>

definition fresh_uuid :: "world \<Rightarrow> uuid" where
  "fresh_uuid w = show_nat (uuid_count w)"

definition tick_uuid :: "world \<Rightarrow> world" where
  "tick_uuid w = w\<lparr>uuid_count := Suc (uuid_count w)\<rparr>"

definition used_uuid :: "world \<Rightarrow> uuid \<Rightarrow> bool" where
  "used_uuid w u \<longleftrightarrow> (\<exists>k < uuid_count w. u = show_nat k)"

lemma fresh_uuid_unused: "\<not> used_uuid w (fresh_uuid w)"
  by (auto simp: used_uuid_def fresh_uuid_def show_nat_inj)

lemma used_uuid_tick: "used_uuid (tick_uuid w) u \<longleftrightarrow> used_uuid w u \<or> u = fresh_uuid w"
  by (auto simp: used_uuid_def tick_uuid_def fresh_uuid_def less_Suc_eq)

end
