(* ===== verification/Tables.thy ===== *)
theory Tables
  imports Entities
begin

text \<open>
  The repositories of the entities. A table is the list of its rows in the order PostgreSQL
  returns them when a query has no ORDER BY. The locale \<open>row_store\<close> is the interface every
  service uses: \<open>rows\<close> and \<open>put\<close> address one table of the state and \<open>key\<close> is its primary key.
\<close>

subsection \<open>Operations on the rows of one table\<close>

definition save_row :: "('r \<Rightarrow> uuid) \<Rightarrow> 'r \<Rightarrow> 'r list \<Rightarrow> 'r list" where
  "save_row key r t =
     (if key r \<in> key ` set t then map (\<lambda>x. if key x = key r then r else x) t else t @ [r])"

definition update_rows :: "('r \<Rightarrow> bool) \<Rightarrow> ('r \<Rightarrow> 'r) \<Rightarrow> 'r list \<Rightarrow> 'r list" where
  "update_rows P f t = map (\<lambda>x. if P x then f x else x) t"

definition remove_row :: "('r \<Rightarrow> uuid) \<Rightarrow> 'r \<Rightarrow> 'r list \<Rightarrow> 'r list" where
  "remove_row key r t = filter (\<lambda>x. key x \<noteq> key r) t"

definition count_rows :: "('r \<Rightarrow> bool) \<Rightarrow> 'r list \<Rightarrow> int" where
  "count_rows P t = int (length (filter P t))"

lemma find_Some_mem: "List.find P t = Some r \<Longrightarrow> r \<in> set t \<and> P r"
  by (auto simp: find_Some_iff)

lemma find_None_all: "List.find P t = None \<longleftrightarrow> (\<forall>r \<in> set t. \<not> P r)"
  by (auto simp: find_None_iff)

lemma find_unique:
  assumes "r \<in> set t" "P r" "\<And>x. x \<in> set t \<Longrightarrow> P x \<Longrightarrow> x = r"
  shows "List.find P t = Some r"
proof -
  obtain x where x: "List.find P t = Some x"
    using assms(1,2) find_None_all [of P t] by (cases "List.find P t") blast+
  then have "x = r" using find_Some_mem [OF x] assms(3) by blast
  with x show ?thesis by simp
qed

lemma map_key_save_row [simp]:
  "key r \<in> key ` set t \<Longrightarrow> map key (save_row key r t) = map key t"
  by (auto simp: save_row_def)

lemma length_save_row:
  "length (save_row key r t) = (if key r \<in> key ` set t then length t else Suc (length t))"
  by (auto simp: save_row_def)

lemma set_save_row:
  "set (save_row key r t) = insert r {x \<in> set t. key x \<noteq> key r}"
  by (auto simp: save_row_def image_iff)

lemma image_key_save_row: "key ` set (save_row key r t) = insert (key r) (key ` set t)"
  by (auto simp: save_row_def)

lemma distinct_save_row:
  "distinct (map key t) \<Longrightarrow> distinct (map key (save_row key r t))"
  by (auto simp: save_row_def comp_def if_distrib [of key] cong: if_cong)

lemma distinct_remove_row:
  "distinct (map key t) \<Longrightarrow> distinct (map key (remove_row key r t))"
  by (auto simp: remove_row_def distinct_map_filter)

lemma set_remove_row: "set (remove_row key r t) = {x \<in> set t. key x \<noteq> key r}"
  by (auto simp: remove_row_def)

lemma set_update_rows: "set (update_rows P f t) = f ` {x \<in> set t. P x} \<union> {x \<in> set t. \<not> P x}"
  by (auto simp: update_rows_def image_iff)

lemma length_update_rows [simp]: "length (update_rows P f t) = length t"
  by (simp add: update_rows_def)

lemma update_rows_Nil [simp]: "update_rows P f [] = []"
  by (simp add: update_rows_def)

lemma map_update_rows: "(\<And>x. P x \<Longrightarrow> g (f x) = g x) \<Longrightarrow> map g (update_rows P f t) = map g t"
  by (simp add: update_rows_def)

lemma count_rows_nonneg [simp]: "0 \<le> count_rows P t"
  by (simp add: count_rows_def)

lemma count_rows_simps [simp]:
  "count_rows P [] = 0"
  "count_rows P (t @ u) = count_rows P t + count_rows P u"
  "count_rows P (r # t) = (if P r then 1 else 0) + count_rows P t"
  by (simp_all add: count_rows_def)

lemma count_rows_map_cong:
  "(\<And>x. x \<in> set t \<Longrightarrow> P (f x) = P x) \<Longrightarrow> count_rows P (map f t) = count_rows P t"
  by (induction t) auto

lemma count_rows_0_iff: "count_rows P t = 0 \<longleftrightarrow> (\<forall>r \<in> set t. \<not> P r)"
  by (auto simp: count_rows_def filter_empty_conv)

lemma count_rows_insert:
  "key r \<notin> key ` set t \<Longrightarrow> count_rows P (save_row key r t) = count_rows P t + (if P r then 1 else 0)"
  by (simp add: save_row_def)

lemma count_rows_save_same:
  assumes "r \<in> set t" "distinct (map key t)" "key r' = key r" "P r' = P r"
  shows "count_rows P (save_row key r' t) = count_rows P t"
proof -
  have mem: "key r' \<in> key ` set t" using assms by auto
  have "x = r" if "x \<in> set t" "key x = key r" for x
    using assms(1,2) that by (auto simp: distinct_map dest: inj_onD)
  then have "count_rows P (map (\<lambda>x. if key x = key r' then r' else x) t) = count_rows P t"
    using assms by (intro count_rows_map_cong) auto
  with mem show ?thesis by (simp add: save_row_def)
qed

lemma count_rows_remove_le: "count_rows P (remove_row key r t) \<le> count_rows P t"
  by (induction t) (auto simp: remove_row_def)

lemma remove_row_absent: "key r \<notin> key ` set t \<Longrightarrow> remove_row key r t = t"
  by (induction t) (auto simp: remove_row_def)

lemma count_rows_remove:
  "r \<in> set t \<Longrightarrow> distinct (map key t) \<Longrightarrow> P r \<Longrightarrow>
     count_rows P (remove_row key r t) = count_rows P t - 1"
proof (induction t)
  case (Cons x t)
  show ?case
  proof (cases "x = r")
    case True
    then have "remove_row key r (x # t) = t"
      using Cons.prems remove_row_absent [of key r t] by (simp add: remove_row_def)
    with True Cons.prems show ?thesis by simp
  next
    case False
    then have "remove_row key r (x # t) = x # remove_row key r t"
      using Cons.prems by (auto simp: remove_row_def)
    with False Cons show ?thesis by simp
  qed
qed simp

lemma count_rows_update_none: "(\<And>x. P x \<Longrightarrow> \<not> P (f x)) \<Longrightarrow> count_rows P (update_rows P f t) = 0"
  by (induction t) (auto simp: update_rows_def)

subsection \<open>The interface of a repository\<close>

locale row_store =
  fixes key :: "'r \<Rightarrow> uuid"
    and rows :: "'w \<Rightarrow> 'r list"
    and put :: "'r list \<Rightarrow> 'w \<Rightarrow> 'w"
  assumes rows_put: "rows (put t w) = t"
    and put_put: "put t (put u w) = put t w"
    and put_rows: "put (rows w) w = w"
begin

lemma saved_row_found:
  assumes "distinct (map key (rows w))"
  shows "List.find (\<lambda>x. key x = key r) (rows (put (save_row key r (rows w)) w)) = Some r"
  by (rule find_unique) (auto simp: rows_put set_save_row)

lemma other_row_found:
  assumes "k \<noteq> key r"
  shows "List.find (\<lambda>x. key x = k) (rows (put (save_row key r (rows w)) w))
    = List.find (\<lambda>x. key x = k) (rows w)"
proof -
  have "List.find (\<lambda>x. key x = k) (map (\<lambda>x. if key x = key r then r else x) t)
      = List.find (\<lambda>x. key x = k) t" for t
    using assms by (induction t) auto
  moreover have "List.find (\<lambda>x. key x = k) (t @ [r]) = List.find (\<lambda>x. key x = k) t" for t
    using assms by (induction t) auto
  ultimately show ?thesis by (simp add: rows_put save_row_def)
qed

lemma removed_row_not_found:
  "List.find (\<lambda>x. key x = key r) (rows (put (remove_row key r (rows w)) w)) = None"
  by (auto simp: rows_put find_None_all set_remove_row)

lemma keys_after_save:
  "distinct (map key (rows w)) \<Longrightarrow> distinct (map key (rows (put (save_row key r (rows w)) w)))"
  by (simp add: rows_put distinct_save_row)

lemma save_twice:
  assumes "key r' = key r"
  shows "put (save_row key r' (rows (put (save_row key r (rows w)) w)))
      (put (save_row key r (rows w)) w) = put (save_row key r' (rows w)) w"
proof -
  have "save_row key r' (save_row key r t) = save_row key r' t" for t
  proof (cases "key r \<in> key ` set t")
    case True
    then have "key r' \<in> key ` set (save_row key r t)" using assms by (auto simp: set_save_row)
    with True assms show ?thesis by (simp add: save_row_def)
  next
    case False
    then have "map (\<lambda>x. if key x = key r then r' else x) t = t"
      by (intro map_idI) (auto dest: sym)
    with False assms show ?thesis by (simp add: save_row_def)
  qed
  then show ?thesis by (simp add: rows_put put_put)
qed

end

text \<open>Every table of the state is such a store.\<close>

interpretation group_store: row_store g_id groups "\<lambda>t w. w\<lparr>groups := t\<rparr>"
  by unfold_locales simp_all

interpretation membership_store: row_store m_id memberships "\<lambda>t w. w\<lparr>memberships := t\<rparr>"
  by unfold_locales simp_all

interpretation waitlist_store: row_store wl_id waitlist "\<lambda>t w. w\<lparr>waitlist := t\<rparr>"
  by unfold_locales simp_all

interpretation contribution_store: row_store c_id contributions "\<lambda>t w. w\<lparr>contributions := t\<rparr>"
  by unfold_locales simp_all

interpretation payout_tx_store: row_store pt_id payout_txs "\<lambda>t w. w\<lparr>payout_txs := t\<rparr>"
  by unfold_locales simp_all

interpretation penalty_store: row_store p_id penalties "\<lambda>t w. w\<lparr>penalties := t\<rparr>"
  by unfold_locales simp_all

interpretation invite_store: row_store i_id invites "\<lambda>t w. w\<lparr>invites := t\<rparr>"
  by unfold_locales simp_all

interpretation template_store: row_store gt_id templates "\<lambda>t w. w\<lparr>templates := t\<rparr>"
  by unfold_locales simp_all

interpretation notification_store: row_store n_id notifications "\<lambda>t w. w\<lparr>notifications := t\<rparr>"
  by unfold_locales simp_all

subsection \<open>Queries and writes the services share\<close>

text \<open>
  \<open>groupRepository.findOne({ where: { id } })\<close>: TypeORM leaves soft-deleted groups out of every
  find, since \<open>deletedAt\<close> is a \<open>DeleteDateColumn\<close>.
\<close>

definition find_group :: "uuid \<Rightarrow> world \<Rightarrow> rosca_group option" where
  "find_group gid w = List.find (\<lambda>g. g_id g = gid \<and> g_deletedAt g = None) (groups w)"

definition find_membership :: "uuid \<Rightarrow> uuid \<Rightarrow> world \<Rightarrow> membership option" where
  "find_membership gid uid w =
     List.find (\<lambda>m. m_groupId m = gid \<and> m_userId m = uid) (memberships w)"

definition find_membership_by_wallet :: "uuid \<Rightarrow> wallet \<Rightarrow> world \<Rightarrow> membership option" where
  "find_membership_by_wallet gid a w =
     List.find (\<lambda>m. m_groupId m = gid \<and> m_walletAddress m = a) (memberships w)"

definition find_membership_by_order :: "uuid \<Rightarrow> int \<Rightarrow> world \<Rightarrow> membership option" where
  "find_membership_by_order gid k w =
     List.find (\<lambda>m. m_groupId m = gid \<and> m_payoutOrder m = Some k) (memberships w)"

definition group_members :: "uuid \<Rightarrow> world \<Rightarrow> membership list" where
  "group_members gid w = filter (\<lambda>m. m_groupId m = gid) (memberships w)"

definition member_count :: "uuid \<Rightarrow> world \<Rightarrow> int" where
  "member_count gid w = count_rows (\<lambda>m. m_groupId m = gid) (memberships w)"

text \<open>\<open>SELECT MAX(payoutOrder) ... WHERE groupId = :groupId\<close>\<close>

definition max_payout_order :: "uuid \<Rightarrow> world \<Rightarrow> int option" where
  "max_payout_order gid w = sql_max (List.map_filter m_payoutOrder (group_members gid w))"

definition save_group :: "rosca_group \<Rightarrow> world \<Rightarrow> world" where
  "save_group g w = w\<lparr>groups := save_row g_id g (groups w)\<rparr>"

definition save_membership :: "membership \<Rightarrow> world \<Rightarrow> world" where
  "save_membership m w = w\<lparr>memberships := save_row m_id m (memberships w)\<rparr>"

definition save_waitlist :: "waitlist_entry \<Rightarrow> world \<Rightarrow> world" where
  "save_waitlist e w = w\<lparr>waitlist := save_row wl_id e (waitlist w)\<rparr>"

definition remove_membership :: "membership \<Rightarrow> world \<Rightarrow> world" where
  "remove_membership m w = w\<lparr>memberships := remove_row m_id m (memberships w)\<rparr>"

text \<open>
  Saving a membership that was only created inserts a row with a generated key. The table has
  a unique constraint on group and user, and foreign keys to both; the unique index is checked
  when the row is inserted, the foreign keys at the end of the statement.
\<close>

definition insert_membership :: "membership \<Rightarrow> membership io" where
  "insert_membership m w =
     (if \<exists>x \<in> set (memberships w). m_groupId x = m_groupId m \<and> m_userId x = m_userId m
      then (Inl (UniqueViolation ''memberships_groupId_userId''), w)
      else if (\<forall>g \<in> set (groups w). g_id g \<noteq> m_groupId m) \<or> (\<forall>u \<in> set (users w). u_id u \<noteq> m_userId m)
      then (Inl ForeignKeyViolation, w)
      else (let m' = m\<lparr>m_id := fresh_uuid w\<rparr>
            in (Inr m', (tick_uuid w)\<lparr>memberships := memberships w @ [m']\<rparr>)))"

text \<open>What holds of the tables in every state of the system.\<close>

definition keys_ok :: "world \<Rightarrow> bool" where
  "keys_ok w \<longleftrightarrow>
     distinct (map g_id (groups w)) \<and>
     distinct (map m_id (memberships w)) \<and>
     (\<forall>m \<in> set (memberships w). used_uuid w (m_id m)) \<and>
     distinct (map (\<lambda>m. (m_groupId m, m_userId m)) (memberships w)) \<and>
     distinct (map wl_id (waitlist w)) \<and>
     (\<forall>e \<in> set (waitlist w). used_uuid w (wl_id e))"

lemma find_groupD: "find_group gid w = Some g \<Longrightarrow> g \<in> set (groups w) \<and> g_id g = gid \<and> g_deletedAt g = None"
  by (auto simp: find_group_def dest: find_Some_mem)

lemma find_membershipD:
  "find_membership gid uid w = Some m \<Longrightarrow> m \<in> set (memberships w) \<and> m_groupId m = gid \<and> m_userId m = uid"
  by (auto simp: find_membership_def dest: find_Some_mem)

lemma find_membership_by_orderD:
  "find_membership_by_order gid k w = Some m \<Longrightarrow>
     m \<in> set (memberships w) \<and> m_groupId m = gid \<and> m_payoutOrder m = Some k"
  by (auto simp: find_membership_by_order_def dest: find_Some_mem)

lemma find_membership_None:
  "find_membership gid uid w = None \<longleftrightarrow>
     (\<forall>m \<in> set (memberships w). \<not> (m_groupId m = gid \<and> m_userId m = uid))"
  by (auto simp: find_membership_def find_None_all)

lemma set_group_members [simp]:
  "m \<in> set (group_members gid w) \<longleftrightarrow> m \<in> set (memberships w) \<and> m_groupId m = gid"
  by (auto simp: group_members_def)

lemma member_count_length: "member_count gid w = int (length (group_members gid w))"
  by (simp add: member_count_def count_rows_def group_members_def)

lemma member_count_nonneg [simp]: "0 \<le> member_count gid w"
  by (simp add: member_count_def)

lemma insert_membership_Inr:
  "insert_membership m w = (Inr m', w') \<longleftrightarrow>
     \<not> (\<exists>x \<in> set (memberships w). m_groupId x = m_groupId m \<and> m_userId x = m_userId m) \<and>
     (\<exists>g \<in> set (groups w). g_id g = m_groupId m) \<and> (\<exists>u \<in> set (users w). u_id u = m_userId m) \<and>
     m' = m\<lparr>m_id := fresh_uuid w\<rparr> \<and> w' = (tick_uuid w)\<lparr>memberships := memberships w @ [m']\<rparr>"
  by (auto simp: insert_membership_def Let_def)

lemma insert_membership_Inl: "insert_membership m w = (Inl e, w') \<Longrightarrow> w' = w"
  by (auto simp: insert_membership_def Let_def split: if_splits)

lemma tick_uuid_frame [frame_simps]:
  "groups (tick_uuid w) = groups w" "memberships (tick_uuid w) = memberships w"
  "waitlist (tick_uuid w) = waitlist w" "users (tick_uuid w) = users w"
  "deferred (tick_uuid w) = deferred w" "now (tick_uuid w) = now w"
  by (simp_all add: tick_uuid_def)

lemma used_uuid_mono: "used_uuid w u \<Longrightarrow> uuid_count w \<le> uuid_count w' \<Longrightarrow> used_uuid w' u"
  by (auto simp: used_uuid_def intro: less_le_trans)

text \<open>Only the tables and the counter matter for \<open>keys_ok\<close>.\<close>

lemma keys_ok_cong:
  assumes "groups w' = groups w" "memberships w' = memberships w" "waitlist w' = waitlist w"
    and "uuid_count w \<le> uuid_count w'" "keys_ok w"
  shows "keys_ok w'"
  using assms unfolding keys_ok_def by (auto intro: used_uuid_mono)

lemma keys_ok_insert_membership:
  assumes "keys_ok w" "insert_membership m w = (Inr m', w')"
  shows "keys_ok w'"
proof -
  have "fresh_uuid w \<noteq> m_id x" if "x \<in> set (memberships w)" for x
    using that assms(1) fresh_uuid_unused unfolding keys_ok_def by metis
  moreover have "uuid_count w \<le> uuid_count w'" and "used_uuid w' (fresh_uuid w)"
    using assms(2) by (auto simp: insert_membership_Inr tick_uuid_def used_uuid_def fresh_uuid_def)
  ultimately show ?thesis
    using assms by (auto simp: insert_membership_Inr keys_ok_def frame_simps image_iff intro: used_uuid_mono)
qed

lemma keys_ok_save_membership:
  assumes "keys_ok w" "m \<in> set (memberships w)"
    and "m_id m' = m_id m" "m_groupId m' = m_groupId m" "m_userId m' = m_userId m"
  shows "keys_ok (save_membership m' w)"
proof -
  let ?t = "map (\<lambda>x. if m_id x = m_id m' then m' else x) (memberships w)"
  have same: "x = m" if "x \<in> set (memberships w)" "m_id x = m_id m" for x
    using assms(1,2) that by (auto simp: keys_ok_def distinct_map dest: inj_onD)
  have save: "save_row m_id m' (memberships w) = ?t"
    using assms(2,3) by (auto simp: save_row_def)
  have "map (\<lambda>x. (m_groupId x, m_userId x)) ?t = map (\<lambda>x. (m_groupId x, m_userId x)) (memberships w)"
    using same assms by auto
  moreover have "map m_id ?t = map m_id (memberships w)"
    by simp
  moreover have "used_uuid w (m_id m')" using assms by (auto simp: keys_ok_def)
  ultimately show ?thesis
    using assms(1) unfolding keys_ok_def save_membership_def
    by (auto simp: save used_uuid_def simp del: map_map)
qed

lemma keys_ok_remove_membership: "keys_ok w \<Longrightarrow> keys_ok (remove_membership m w)"
  by (auto simp: keys_ok_def remove_membership_def remove_row_def distinct_map_filter used_uuid_def)

lemma membership_by_id:
  "keys_ok w \<Longrightarrow> m \<in> set (memberships w) \<Longrightarrow> m' \<in> set (memberships w) \<Longrightarrow> m_id m = m_id m' \<Longrightarrow> m = m'"
  by (auto simp: keys_ok_def distinct_map dest: inj_onD)

lemma membership_by_user:
  assumes "keys_ok w" "m \<in> set (memberships w)" "m' \<in> set (memberships w)"
    and "m_groupId m = m_groupId m'" "m_userId m = m_userId m'"
  shows "m = m'"
proof -
  have "inj_on (\<lambda>m. (m_groupId m, m_userId m)) (set (memberships w))"
    using assms(1) by (simp add: keys_ok_def distinct_map)
  from inj_onD [OF this _ assms(2,3)] show ?thesis using assms(4,5) by simp
qed

lemma group_by_id:
  "keys_ok w \<Longrightarrow> g \<in> set (groups w) \<Longrightarrow> g' \<in> set (groups w) \<Longrightarrow> g_id g = g_id g' \<Longrightarrow> g = g'"
  by (auto simp: keys_ok_def distinct_map dest: inj_onD)

text \<open>A small state for the witnesses: no rows, every channel on.\<close>

definition empty_world :: world where
  "empty_world =
     \<lparr>users = [], groups = [], memberships = [], waitlist = [], contributions = [], payout_txs = [],
      penalties = [], invites = [], templates = [], notifications = [],
      notif_prefs = (\<lambda>_ _. \<lparr>inApp = True, cp_email = True, push = True\<rparr>),
      webhook_log = [], audit_log = [], payout_jobs = [], tx_jobs = [], deferred = [],
      inflight_locks = [], now = 0, uuid_count = 0\<rparr>"

text \<open>A group of three with the members' orders 0, 1 and 2, for the witnesses.\<close>

definition demo_group :: rosca_group where
  "demo_group =
     \<lparr>g_id = ''g'', g_name = ''Circle'', g_contractAddress = Some ''C1'', g_adminWallet = ''w0'',
      g_contributionAmount = ''100'', g_token = ''XLM'', g_assetCode = ''XLM'', g_assetIssuer = None,
      g_unitOfAccountAssetCode = ''XLM'', g_unitOfAccountAssetIssuer = None, g_fxRateExpirySeconds = 900,
      g_fxToleranceBps = 200, g_allowCrossAssetContributions = True,
      g_roundDuration = 7, g_status = GS_PENDING, g_currentRound = 0, g_totalRounds = 3,
      g_payoutOrderStrategy = SEQUENTIAL, g_minMembers = 2, g_maxMembers = 3, g_staleAt = None,
      g_startDate = None, g_endDate = None, g_timezone = None, g_penaltyRate = 500,
      g_gracePeriodHours = 24, g_deletedAt = None, g_createdAt = 0\<rparr>"

definition demo_member :: "nat \<Rightarrow> string \<Rightarrow> wallet \<Rightarrow> int option \<Rightarrow> membership" where
  "demo_member i u a ord =
     \<lparr>m_id = show_nat i, m_groupId = ''g'', m_userId = u, m_walletAddress = a, m_payoutOrder = ord,
      m_hasReceivedPayout = False, m_hasPaidCurrentRound = False, m_contributionsMade = 0,
      m_transactionHash = None, m_status = MS_ACTIVE\<rparr>"

definition demo_world :: "group_status \<Rightarrow> int \<Rightarrow> membership list \<Rightarrow> world" where
  "demo_world st round ms = empty_world
     \<lparr>users := [\<lparr>u_id = ''u0'', u_walletAddress = ''w0''\<rparr>, \<lparr>u_id = ''u1'', u_walletAddress = ''w1''\<rparr>,
                \<lparr>u_id = ''u2'', u_walletAddress = ''w2''\<rparr>, \<lparr>u_id = ''u3'', u_walletAddress = ''w3''\<rparr>,
                \<lparr>u_id = ''u4'', u_walletAddress = ''w4''\<rparr>],
      groups := [demo_group\<lparr>g_status := st, g_currentRound := round\<rparr>],
      memberships := ms, uuid_count := 10\<rparr>"

definition demo_members :: "membership list" where
  "demo_members = [demo_member 0 ''u0'' ''w0'' (Some 0), demo_member 1 ''u1'' ''w1'' (Some 1),
     demo_member 2 ''u2'' ''w2'' (Some 2)]"

lemmas demo_defs = demo_group_def demo_member_def demo_world_def demo_members_def empty_world_def

lemma used_uuid_small [simp]: "d < 10 \<Longrightarrow> uuid_count w = 10 \<Longrightarrow> used_uuid w [digit_char d]"
  unfolding used_uuid_def by (metis show_nat_small)

lemma keys_ok_demo: "keys_ok (demo_world st r demo_members)"
  by (simp add: keys_ok_def demo_defs)

end
