(* ===== verification/Notifications.thy ===== *)
theory Notifications
  imports Tables
begin

text \<open>
  \<open>NotificationsService\<close> (\<open>notification/notifications.service.ts\<close>): the in-app record of a
  notification, the batch insert with idempotency keys, and reading. The preference lookup
  (\<open>NotificationPreferenceService\<close>) is the total function \<open>notif_prefs\<close> of the state; the push
  over Redis and WebSocket leaves no state and is not modelled; a queued mail is a deferred task.
\<close>

record notify_dto =
  nd_userId :: uuid
  nd_type :: notification_type
  nd_title :: string
  nd_body :: string
  nd_idempotencyKey :: "string option"
  nd_sendEmail :: bool
  nd_emailTo :: "string option"

text \<open>A message without key and mail, as most callers send it.\<close>

definition plain_dto :: "uuid \<Rightarrow> notification_type \<Rightarrow> string \<Rightarrow> string \<Rightarrow> notify_dto" where
  "plain_dto u t title body =
     \<lparr>nd_userId = u, nd_type = t, nd_title = title, nd_body = body,
      nd_idempotencyKey = None, nd_sendEmail = False, nd_emailTo = None\<rparr>"

definition getChannelPreference :: "uuid \<Rightarrow> notification_type \<Rightarrow> world \<Rightarrow> channel_preference" where
  "getChannelPreference u t w = notif_prefs w u t"

text \<open>
  \<open>notificationRepo.save\<close> of a created notification; the partial unique index on the
  idempotency key rejects a key that is stored already, whatever its age. A type the enum lacks
  is \<open>undefined\<close> at run time, and its column is not nullable.
\<close>

definition insert_notification :: "notify_dto \<Rightarrow> notification io" where
  "insert_notification d w =
     (if \<not> defined_type (nd_type d) then (Inl (NotNullViolation ''type''), w)
      else if nd_idempotencyKey d \<noteq> None \<and>
         (\<exists>n \<in> set (notifications w). n_idempotencyKey n = nd_idempotencyKey d)
      then (Inl (UniqueViolation ''IDX_notifications_idempotencyKey''), w)
      else (let n = \<lparr>n_id = fresh_uuid w, n_userId = nd_userId d, n_type = nd_type d,
                     n_title = nd_title d, n_body = nd_body d, n_isRead = False,
                     n_idempotencyKey = nd_idempotencyKey d, n_createdAt = now w\<rparr>
            in (Inr n, (tick_uuid w)\<lparr>notifications := notifications w @ [n]\<rparr>)))"

fun email_template :: "notification_type \<Rightarrow> string option" where
  "email_template ROUND_OPENED = Some ''round-opened''"
| "email_template CONTRIBUTION_REMINDER = Some ''contribution-reminder''"
| "email_template PAYOUT_RECEIVED = Some ''payout-received''"
| "email_template _ = None"

definition queue_email :: "notify_dto \<Rightarrow> world \<Rightarrow> world" where
  "queue_email d w =
     (if cp_email (getChannelPreference (nd_userId d) (nd_type d) w) \<and> nd_sendEmail d
         \<and> truthy (nd_emailTo d)
      then w\<lparr>deferred := deferred w @
              [SendEmail (the (nd_emailTo d)) (nd_type d) (nd_title d) (nd_body d)]\<rparr>
      else w)"

definition notify :: "notify_dto \<Rightarrow> notification option io" where
  "notify d w =
     (if \<not> inApp (getChannelPreference (nd_userId d) (nd_type d) w)
      then (Inr None, queue_email d w)
      else case insert_notification d w of
             (Inl e, w') \<Rightarrow> (Inl e, w')
           | (Inr n, w') \<Rightarrow> (Inr (Some n), queue_email d w'))"

text \<open>\<open>deduplicateByKey\<close>: the set of keys seen so far is the accumulator.\<close>

fun deduplicateByKey :: "string set \<Rightarrow> notify_dto list \<Rightarrow> notify_dto list" where
  "deduplicateByKey seen [] = []"
| "deduplicateByKey seen (d # ds) =
     (if \<not> truthy (nd_idempotencyKey d) then d # deduplicateByKey seen ds
      else if the (nd_idempotencyKey d) \<in> seen then deduplicateByKey seen ds
      else d # deduplicateByKey (insert (the (nd_idempotencyKey d)) seen) ds)"

definition day_ms :: int where "day_ms = 24 * 60 * 60 * 1000"

definition getExistingKeys :: "string list \<Rightarrow> world \<Rightarrow> string set" where
  "getExistingKeys ks w =
     set (filter (\<lambda>k. \<exists>n \<in> set (notifications w).
        n_idempotencyKey n = Some k \<and> n_createdAt n > now w - day_ms) ks)"

fun insert_notifications :: "notify_dto list \<Rightarrow> notification list io" where
  "insert_notifications [] w = (Inr [], w)"
| "insert_notifications (d # ds) w =
     (case insert_notification d w of
        (Inl e, w1) \<Rightarrow> (Inl e, w1)
      | (Inr n, w1) \<Rightarrow> (case insert_notifications ds w1 of
            (Inl e, w2) \<Rightarrow> (Inl e, w2)
          | (Inr ns, w2) \<Rightarrow> (Inr (n # ns), w2)))"

definition batch_to_insert :: "notify_dto list \<Rightarrow> world \<Rightarrow> notify_dto list" where
  "batch_to_insert ds w =
     (let unique = deduplicateByKey {} ds;
          existing = getExistingKeys
            (List.map_filter (\<lambda>d. if truthy (nd_idempotencyKey d) then nd_idempotencyKey d else None) unique) w
      in filter (\<lambda>d. \<not> truthy (nd_idempotencyKey d) \<or> the (nd_idempotencyKey d) \<notin> existing) unique)"

definition notifyBatch :: "notify_dto list \<Rightarrow> notification list io" where
  "notifyBatch ds w =
     (if ds = [] then (Inr [], w)
      else let toInsert = batch_to_insert ds w in
      if toInsert = [] then (Inr [], w)
      else let allowed = filter (\<lambda>d. inApp (getChannelPreference (nd_userId d) (nd_type d) w)) toInsert in
      if allowed = [] then (Inr [], w)
      else transaction (insert_notifications allowed) w)"

definition markAsRead :: "uuid \<Rightarrow> uuid \<Rightarrow> notification io" where
  "markAsRead nid uid w =
     (case List.find (\<lambda>n. n_id n = nid) (notifications w) of
        None \<Rightarrow> (Inl (NotFoundException (''Notification '' @ nid @ '' not found'')), w)
      | Some n \<Rightarrow>
          if n_userId n \<noteq> uid then (Inl (ForbiddenException ''Cannot access this notification''), w)
          else (let n' = n\<lparr>n_isRead := True\<rparr>
                in (Inr n', w\<lparr>notifications := save_row n_id n' (notifications w)\<rparr>)))"

definition markAllAsRead :: "uuid \<Rightarrow> int io" where
  "markAllAsRead uid w =
     (Inr (count_rows (\<lambda>n. n_userId n = uid \<and> \<not> n_isRead n) (notifications w)),
      w\<lparr>notifications := update_rows (\<lambda>n. n_userId n = uid \<and> \<not> n_isRead n)
           (\<lambda>n. n\<lparr>n_isRead := True\<rparr>) (notifications w)\<rparr>)"

definition getUnreadCount :: "uuid \<Rightarrow> world \<Rightarrow> int" where
  "getUnreadCount uid w = count_rows (\<lambda>n. n_userId n = uid \<and> \<not> n_isRead n) (notifications w)"

subsection \<open>Frame: what a notification leaves alone\<close>

text \<open>Two states that differ in the notifications, the key counter and the deferred mails only.\<close>

definition same_tables :: "world \<Rightarrow> world \<Rightarrow> bool" where
  "same_tables w w' \<longleftrightarrow>
     users w' = users w \<and> groups w' = groups w \<and> memberships w' = memberships w \<and>
     waitlist w' = waitlist w \<and> contributions w' = contributions w \<and>
     payout_txs w' = payout_txs w \<and> penalties w' = penalties w \<and> invites w' = invites w \<and>
     templates w' = templates w \<and>
     payout_jobs w' = payout_jobs w \<and> tx_jobs w' = tx_jobs w \<and> now w' = now w \<and>
     inflight_locks w' = inflight_locks w \<and> uuid_count w \<le> uuid_count w'"

lemma same_tables_refl [simp]: "same_tables w w"
  by (simp add: same_tables_def)

lemma same_tables_trans: "same_tables w v \<Longrightarrow> same_tables v u \<Longrightarrow> same_tables w u"
  by (auto simp: same_tables_def)

lemma insert_notification_frame: "insert_notification d w = (r, w') \<Longrightarrow> same_tables w w'"
  by (auto simp: insert_notification_def same_tables_def tick_uuid_def Let_def split: if_splits)

lemma queue_email_frame: "same_tables w (queue_email d w)"
  by (simp add: queue_email_def same_tables_def)

lemma notify_frame: "notify d w = (r, w') \<Longrightarrow> same_tables w w'"
  by (auto simp: notify_def queue_email_frame split: if_splits prod.splits sum.splits
      dest!: insert_notification_frame intro: same_tables_trans queue_email_frame)

lemma insert_notifications_frame: "insert_notifications ds w = (r, w') \<Longrightarrow> same_tables w w'"
proof (induction ds arbitrary: w r w')
  case Nil
  then show ?case by simp
next
  case (Cons d ds)
  then show ?case
    by (auto split: prod.splits sum.splits
        dest!: insert_notification_frame intro: same_tables_trans)
qed

lemma notifyBatch_frame: "notifyBatch ds w = (r, w') \<Longrightarrow> same_tables w w'"
  by (auto simp: notifyBatch_def Let_def transaction_def split: if_splits prod.splits sum.splits
      dest: insert_notifications_frame)

lemma keys_ok_same_tables: "same_tables w w' \<Longrightarrow> keys_ok w \<Longrightarrow> keys_ok w'"
  by (rule keys_ok_cong) (auto simp: same_tables_def)

subsection \<open>Batches are idempotent\<close>

lemma deduplicateByKey_subset: "set (deduplicateByKey seen ds) \<subseteq> set ds"
  by (induction seen ds rule: deduplicateByKey.induct) auto

lemma deduplicateByKey_fresh:
  "d \<in> set (deduplicateByKey seen ds) \<Longrightarrow> truthy (nd_idempotencyKey d) \<Longrightarrow> the (nd_idempotencyKey d) \<notin> seen"
  by (induction seen ds rule: deduplicateByKey.induct) (auto split: if_splits)

lemma deduplicateByKey_distinct:
  "distinct (map (the \<circ> nd_idempotencyKey) (filter (\<lambda>d. truthy (nd_idempotencyKey d)) (deduplicateByKey seen ds)))"
  by (induction seen ds rule: deduplicateByKey.induct) (auto dest: deduplicateByKey_fresh)

lemma insert_notification_Inr:
  "insert_notification d w = (Inr n, w') \<Longrightarrow>
     notifications w' = notifications w @ [n] \<and> n_idempotencyKey n = nd_idempotencyKey d \<and>
     n_userId n = nd_userId d \<and> n_type n = nd_type d \<and>
     n_createdAt n = now w \<and> now w' = now w \<and> notif_prefs w' = notif_prefs w"
  by (auto simp: insert_notification_def Let_def tick_uuid_def split: if_splits)

lemma insert_notifications_Inr:
  assumes "insert_notifications ds w = (Inr ns, w')"
  shows "notifications w' = notifications w @ ns \<and>
    map n_idempotencyKey ns = map nd_idempotencyKey ds \<and> (\<forall>n \<in> set ns. n_createdAt n = now w) \<and>
    now w' = now w \<and> notif_prefs w' = notif_prefs w"
  using assms
proof (induction ds arbitrary: w ns w')
  case Nil
  then show ?case by simp
next
  case (Cons d ds)
  from Cons.prems obtain n w1 ms where
    one: "insert_notification d w = (Inr n, w1)" and
    rest: "insert_notifications ds w1 = (Inr ms, w')" and ns: "ns = n # ms"
    by (auto split: prod.splits sum.splits)
  from insert_notification_Inr [OF one] Cons.IH [OF rest] ns show ?case by simp
qed

lemma insert_notifications_duplicate:
  assumes "\<forall>d \<in> set ds. defined_type (nd_type d)" "d \<in> set ds" "nd_idempotencyKey d = Some k"
    and "n \<in> set (notifications w)" "n_idempotencyKey n = Some k"
  shows "\<exists>w'. insert_notifications ds w = (Inl (UniqueViolation ''IDX_notifications_idempotencyKey''), w')"
  using assms
proof (induction ds arbitrary: w)
  case Nil
  then show ?case by simp
next
  case (Cons x ds)
  show ?case
  proof (cases "insert_notification x w")
    case (Pair r w1)
    show ?thesis
    proof (cases r)
      case (Inl e)
      then have "e = UniqueViolation ''IDX_notifications_idempotencyKey''"
        using Pair Cons.prems(1) by (auto simp: insert_notification_def Let_def split: if_splits)
      with Pair Inl show ?thesis by simp
    next
      case (Inr m)
      with Pair have ins: "insert_notification x w = (Inr m, w1)" by simp
      then have "x \<noteq> d"
        using Cons.prems by (auto simp: insert_notification_def Let_def split: if_splits)
      moreover have "n \<in> set (notifications w1)"
        using insert_notification_Inr [OF ins] Cons.prems(4) by simp
      ultimately obtain w2 where
        "insert_notifications ds w1 = (Inl (UniqueViolation ''IDX_notifications_idempotencyKey''), w2)"
        using Cons.IH Cons.prems by auto
      with ins show ?thesis by simp
    qed
  qed
qed

lemma getExistingKeys_iff:
  "k \<in> getExistingKeys ks w \<longleftrightarrow> k \<in> set ks \<and>
     (\<exists>n \<in> set (notifications w). n_idempotencyKey n = Some k \<and> n_createdAt n > now w - day_ms)"
  by (auto simp: getExistingKeys_def)

lemma in_batch_to_insert:
  "d \<in> set (batch_to_insert ds w) \<longleftrightarrow> d \<in> set (deduplicateByKey {} ds) \<and>
     (truthy (nd_idempotencyKey d) \<longrightarrow>
       \<not> (\<exists>n \<in> set (notifications w).
            n_idempotencyKey n = nd_idempotencyKey d \<and> n_createdAt n > now w - day_ms))"
proof (cases "truthy (nd_idempotencyKey d)")
  case False
  then show ?thesis by (auto simp: batch_to_insert_def Let_def)
next
  case True
  then obtain k where k: "nd_idempotencyKey d = Some k" "k \<noteq> []"
    by (cases "nd_idempotencyKey d") auto
  let ?f = "\<lambda>d. if truthy (nd_idempotencyKey d) then nd_idempotencyKey d else None"
  have "k \<in> set (List.map_filter ?f ds')" if "d \<in> set ds'" for ds'
    using that k by (force simp: map_filter_def image_iff)
  then show ?thesis using k by (auto simp: batch_to_insert_def Let_def getExistingKeys_iff)
qed

text \<open>
  A batch of notifications is idempotent. When every message of the batch carries an
  idempotency key and the batch was accepted, sending the same batch again while the clock has
  not moved past the 24 hour window stores nothing and changes nothing.
\<close>

theorem notifyBatch_idempotent:
  assumes keyed: "\<forall>d \<in> set ds. truthy (nd_idempotencyKey d)"
    and ok: "notifyBatch ds w = (Inr ns, w')"
  shows "notifyBatch ds w' = (Inr [], w')"
proof (cases "w' = w \<and> (batch_to_insert ds w = [] \<or>
    filter (\<lambda>d. inApp (getChannelPreference (nd_userId d) (nd_type d) w)) (batch_to_insert ds w) = [])")
  case True
  then show ?thesis by (auto simp: notifyBatch_def Let_def)
next
  case False
  let ?allowed = "filter (\<lambda>d. inApp (getChannelPreference (nd_userId d) (nd_type d) w)) (batch_to_insert ds w)"
  show ?thesis
  proof (cases "ds = []")
    case True
    then show ?thesis by (simp add: notifyBatch_def)
  next
    case ne: False
    with False ok have ins: "insert_notifications ?allowed w = (Inr ns, w')"
      by (auto simp: notifyBatch_def Let_def transaction_commits split: if_splits)
    note stored = insert_notifications_Inr [OF ins]
    have "\<not> inApp (getChannelPreference (nd_userId d) (nd_type d) w')" if d: "d \<in> set (batch_to_insert ds w')" for d
    proof
      assume pref: "inApp (getChannelPreference (nd_userId d) (nd_type d) w')"
      have key: "truthy (nd_idempotencyKey d)"
        using d keyed deduplicateByKey_subset by (fastforce simp: in_batch_to_insert)
      have "d \<in> set ?allowed"
        using d key pref stored by (auto simp: in_batch_to_insert getChannelPreference_def)
      then have "nd_idempotencyKey d \<in> set (map nd_idempotencyKey ?allowed)" by simp
      then have "nd_idempotencyKey d \<in> set (map n_idempotencyKey ns)" using stored by simp
      then obtain n where n: "n \<in> set ns" "n_idempotencyKey n = nd_idempotencyKey d" by auto
      then have "n \<in> set (notifications w')" "n_createdAt n > now w' - day_ms"
        using stored by (simp_all add: day_ms_def)
      with n d key show False unfolding in_batch_to_insert by blast
    qed
    then show ?thesis by (auto simp: notifyBatch_def Let_def filter_empty_conv)
  qed
qed

definition keyed_dto :: "string \<Rightarrow> notify_dto" where
  "keyed_dto k = (plain_dto ''u1'' ROUND_OPENED ''t'' ''b'')\<lparr>nd_idempotencyKey := Some k\<rparr>"

theorem notifyBatch_idempotent_witness:
  "let w' = snd (notifyBatch [keyed_dto ''k'', keyed_dto ''k''] empty_world)
   in length (notifications w') = 1 \<and> notifyBatch [keyed_dto ''k'', keyed_dto ''k''] w' = (Inr [], w')"
proof -
  let ?ds = "[keyed_dto ''k'', keyed_dto ''k'']"
  have run: "\<exists>ns. notifyBatch ?ds empty_world = (Inr ns, snd (notifyBatch ?ds empty_world)) \<and>
      length (notifications (snd (notifyBatch ?ds empty_world))) = 1"
    by (simp add: notifyBatch_def Let_def batch_to_insert_def getExistingKeys_def keyed_dto_def
        plain_dto_def empty_world_def getChannelPreference_def transaction_def insert_notification_def
        map_filter_def tick_uuid_def)
  then obtain ns where
    "notifyBatch ?ds empty_world = (Inr ns, snd (notifyBatch ?ds empty_world))" by blast
  from notifyBatch_idempotent [OF _ this] run show ?thesis
    by (simp add: Let_def keyed_dto_def)
qed

text \<open>
  The 24 hour window of the duplicate check is narrower than the unique index. A batch that
  holds a message whose key was stored 24 hours ago or earlier is rejected as a whole with the
  index's error and stores nothing, although its comment promises that duplicates are dropped.
\<close>

theorem notifyBatch_old_key_rejected:
  assumes "d \<in> set ds" "nd_idempotencyKey d = Some k" "k \<noteq> []"
    and "distinct (map nd_idempotencyKey ds)"
    and "n \<in> set (notifications w)" "n_idempotencyKey n = Some k" "n_createdAt n \<le> now w - day_ms"
    and "\<forall>m \<in> set (notifications w). n_idempotencyKey m = Some k \<longrightarrow> m = n"
    and "inApp (getChannelPreference (nd_userId d) (nd_type d) w)"
    and "\<forall>d \<in> set ds. defined_type (nd_type d)"
  shows "notifyBatch ds w = (Inl (UniqueViolation ''IDX_notifications_idempotencyKey''), w)"
proof -
  have dedup: "e \<in> set xs \<Longrightarrow> distinct (map nd_idempotencyKey xs) \<Longrightarrow>
      (truthy (nd_idempotencyKey e) \<longrightarrow> the (nd_idempotencyKey e) \<notin> seen) \<Longrightarrow>
      e \<in> set (deduplicateByKey seen xs)" for e seen xs
  proof (induction seen xs rule: deduplicateByKey.induct)
    case (2 seen x xs)
    then show ?case by (cases "nd_idempotencyKey e"; cases "nd_idempotencyKey x") (auto simp: image_iff)
  qed simp
  let ?allowed = "filter (\<lambda>d. inApp (getChannelPreference (nd_userId d) (nd_type d) w)) (batch_to_insert ds w)"
  have "d \<in> set (deduplicateByKey {} ds)" using dedup [of d ds "{}"] assms(1,4) by simp
  moreover have "\<not> (\<exists>m \<in> set (notifications w).
      n_idempotencyKey m = nd_idempotencyKey d \<and> n_createdAt m > now w - day_ms)"
    using assms(2,7,8) by (metis linorder_not_less)
  ultimately have d: "d \<in> set ?allowed" using assms(9) by (simp add: in_batch_to_insert)
  have "set (batch_to_insert ds w) \<subseteq> set ds"
    using deduplicateByKey_subset [of "{}" ds] by (auto simp: in_batch_to_insert)
  with assms(10) have types: "\<forall>d \<in> set ?allowed. defined_type (nd_type d)" by auto
  from insert_notifications_duplicate [OF types d assms(2,5,6)]
  have err: "fst (insert_notifications ?allowed w) = Inl (UniqueViolation ''IDX_notifications_idempotencyKey'')"
    by auto
  have "ds \<noteq> []" "batch_to_insert ds w \<noteq> []" using assms(1) d by auto
  moreover have "?allowed \<noteq> []" using d by (metis empty_iff list.set(1))
  ultimately show ?thesis using err unfolding notifyBatch_def Let_def by (simp add: transaction_Inl)
qed

definition old_notification :: notification where
  "old_notification = \<lparr>n_id = ''0'', n_userId = ''u1'', n_type = ROUND_OPENED, n_title = ''t'', n_body = ''b'',
     n_isRead = False, n_idempotencyKey = Some ''k'', n_createdAt = 0\<rparr>"

theorem notifyBatch_old_key_rejected_witness:
  "notifyBatch [keyed_dto ''k''] (empty_world\<lparr>notifications := [old_notification], now := 2 * day_ms\<rparr>)
     = (Inl (UniqueViolation ''IDX_notifications_idempotencyKey''),
        empty_world\<lparr>notifications := [old_notification], now := 2 * day_ms\<rparr>)"
  by (rule notifyBatch_old_key_rejected
      [where d = "keyed_dto ''k''" and k = "''k''" and n = old_notification])
    (simp_all add: keyed_dto_def plain_dto_def empty_world_def getChannelPreference_def day_ms_def
      old_notification_def [THEN arg_cong, of n_idempotencyKey]
      old_notification_def [THEN arg_cong, of n_createdAt])

lemma markAllAsRead_unread: "markAllAsRead u w = (r, w') \<Longrightarrow> getUnreadCount u w' = 0"
  by (auto simp: markAllAsRead_def getUnreadCount_def count_rows_update_none)

lemma markAllAsRead_count: "markAllAsRead u w = (Inr k, w') \<Longrightarrow> k = getUnreadCount u w"
  by (simp add: markAllAsRead_def getUnreadCount_def)

end
