(* ===== verification/Memberships.thy ===== *)
theory Memberships
  imports Notifications
begin

text \<open>
  \<open>MembershipsService\<close> (\<open>memberships/memberships.service.ts\<close>): joining a group, leaving it, the
  payout order of its members, recording a payout, suspension and reinstatement. Joining runs in
  a transaction that holds the group's row lock, so it is one atomic step; the others read and
  write without a lock and are modelled as one step as well. A \<open>setImmediate\<close> callback is
  appended to \<open>deferred\<close>.
\<close>

definition set_immediate :: "task \<Rightarrow> world \<Rightarrow> world" where
  "set_immediate t w = w\<lparr>deferred := deferred w @ [t]\<rparr>"

definition validateGroupNotActive :: "uuid \<Rightarrow> rosca_group io" where
  "validateGroupNotActive gid w =
     (case find_group gid w of
        None \<Rightarrow> (Inl (NotFoundException ''Group not found''), w)
      | Some g \<Rightarrow>
          if g_status g = GS_ACTIVE
          then (Inl (BadRequestException ''Cannot modify memberships for an active group''), w)
          else (Inr g, w))"

definition getNextPayoutOrder :: "uuid \<Rightarrow> int option io" where
  "getNextPayoutOrder gid w =
     (case find_group gid w of
        None \<Rightarrow> (Inl (NotFoundException ''Group not found''), w)
      | Some g \<Rightarrow>
          if g_payoutOrderStrategy g = RANDOM \<or> g_payoutOrderStrategy g = ADMIN_DEFINED
          then (Inr None, w)
          else (Inr (Some (case max_payout_order gid w of Some k \<Rightarrow> k + 1 | None \<Rightarrow> 0)), w))"

definition new_membership :: "uuid \<Rightarrow> uuid \<Rightarrow> wallet \<Rightarrow> int option \<Rightarrow> membership" where
  "new_membership gid uid a ord =
     \<lparr>m_id = [], m_groupId = gid, m_userId = uid, m_walletAddress = a, m_payoutOrder = ord,
      m_hasReceivedPayout = False, m_hasPaidCurrentRound = False, m_contributionsMade = 0,
      m_transactionHash = None, m_status = MS_ACTIVE\<rparr>"

text \<open>The transaction of \<open>addMember\<close>, under the group's row lock.\<close>

definition addMember_tx :: "uuid \<Rightarrow> uuid \<Rightarrow> wallet \<Rightarrow> membership io" where
  "addMember_tx gid uid a w =
     (case find_group gid w of
        None \<Rightarrow> (Inl (NotFoundException ''Group not found''), w)
      | Some g \<Rightarrow>
          if g_status g = GS_ACTIVE
          then (Inl (BadRequestException ''Cannot modify memberships for an active group''), w)
          else if member_count gid w \<ge> g_maxMembers g
          then (Inl (BadRequestException (''Group has reached its maximum member capacity of ''
                  @ show_int (g_maxMembers g))), w)
          else if find_membership gid uid w \<noteq> None
          then (Inl (ConflictException ''User is already a member of this group''), w)
          else
            let payoutOrder =
                  (if g_payoutOrderStrategy g \<noteq> RANDOM \<and> g_payoutOrderStrategy g \<noteq> ADMIN_DEFINED
                   then Some (case max_payout_order gid w of Some k \<Rightarrow> k + 1 | None \<Rightarrow> 0)
                   else None)
            in insert_membership (new_membership gid uid a payoutOrder) w)"

definition addMember :: "uuid \<Rightarrow> uuid \<Rightarrow> wallet \<Rightarrow> membership io" where
  "addMember gid uid a w =
     (case transaction (addMember_tx gid uid a) w of
        (Inr m, w') \<Rightarrow> (Inr m, w')
      | (Inl (UniqueViolation c), w') \<Rightarrow>
          (Inl (ConflictException ''User is already a member of this group''), w')
      | (Inl ForeignKeyViolation, w') \<Rightarrow> (Inl (BadRequestException ''Invalid groupId or userId''), w')
      | (Inl e, w') \<Rightarrow> (Inl e, w'))"

definition removeMember :: "uuid \<Rightarrow> uuid \<Rightarrow> unit io" where
  "removeMember gid uid w =
     (case validateGroupNotActive gid w of
        (Inl e, w') \<Rightarrow> (Inl e, w')
      | (Inr g, w') \<Rightarrow>
          (case find_membership gid uid w' of
             None \<Rightarrow> (Inl (NotFoundException ''Membership not found''), w')
           | Some m \<Rightarrow> (Inr (), set_immediate (AdmitFromWaitlist gid) (remove_membership m w'))))"

text \<open>
  \<open>listMembers\<close>: ordered by \<open>payoutOrder\<close> ascending (PostgreSQL puts NULL last), one page, with
  the trust score of each member or null. \<open>scores\<close> stands for the \<open>MemberTrustScore\<close> table.
\<close>

definition order_key :: "membership \<Rightarrow> int \<times> int" where
  "order_key m = (case m_payoutOrder m of Some k \<Rightarrow> (0, k) | None \<Rightarrow> (1, 0))"

definition order_le :: "membership \<Rightarrow> membership \<Rightarrow> bool" where
  "order_le m m' \<longleftrightarrow>
     (let (a, b) = order_key m; (c, d) = order_key m' in a < c \<or> (a = c \<and> b \<le> d))"

fun insort_order :: "membership \<Rightarrow> membership list \<Rightarrow> membership list" where
  "insort_order m [] = [m]"
| "insort_order m (x # xs) = (if order_le m x then m # x # xs else x # insort_order m xs)"

definition order_by_payout :: "membership list \<Rightarrow> membership list" where
  "order_by_payout ms = foldr insort_order ms []"

definition page_of :: "int \<Rightarrow> int \<Rightarrow> 'a list \<Rightarrow> 'a list" where
  "page_of page limit xs = take (nat limit) (drop (nat ((page - 1) * limit)) xs)"

definition listMembers ::
  "(uuid \<rightharpoonup> int) \<Rightarrow> uuid \<Rightarrow> int \<Rightarrow> int \<Rightarrow> world \<Rightarrow> (membership \<times> int option) list \<times> int \<times> int \<times> int" where
  "listMembers scores gid page limit w =
     (let rows = page_of page limit (order_by_payout (group_members gid w))
      in (map (\<lambda>m. (m, scores (m_userId m))) rows, member_count gid w, page, limit))"

text \<open>The renumbering loop of \<open>leaveGroup\<close>: \<open>member.payoutOrder -= 1\<close>, saved one by one.\<close>

fun resequence :: "int option \<Rightarrow> membership list \<Rightarrow> world \<Rightarrow> world" where
  "resequence departing [] w = w"
| "resequence departing (m # ms) w =
     resequence departing ms
       (if js_num (m_payoutOrder m) > js_num departing
        then save_membership (m\<lparr>m_payoutOrder := Some (js_num (m_payoutOrder m) - 1)\<rparr>) w
        else w)"

definition leaveGroup :: "uuid \<Rightarrow> uuid \<Rightarrow> unit io" where
  "leaveGroup gid uid w =
     (case find_group gid w of
        None \<Rightarrow> (Inl (NotFoundException ''Group not found''), w)
      | Some g \<Rightarrow>
          if g_status g \<noteq> GS_PENDING
          then (Inl (BadRequestException ''Cannot leave a group that is ACTIVE or COMPLETED''), w)
          else (case find_membership gid uid w of
              None \<Rightarrow> (Inl (NotFoundException ''Membership not found''), w)
            | Some m \<Rightarrow>
                (let w1 = set_immediate (AdmitFromWaitlist gid) (remove_membership m w);
                     remaining = order_by_payout (group_members gid w1);
                     w2 = resequence (m_payoutOrder m) remaining w1
                 in case notify (plain_dto uid MEMBER_LEFT ''Left Group''
                          (''You have left the group \"'' @ g_name g @ ''\"'')) w2 of
                      (Inl e, w3) \<Rightarrow> (Inl e, w3)
                    | (Inr _, w3) \<Rightarrow> (Inr (), w3))))"

definition getCurrentRecipient :: "uuid \<Rightarrow> membership io" where
  "getCurrentRecipient gid w =
     (case find_group gid w of
        None \<Rightarrow> (Inl (NotFoundException ''Group not found''), w)
      | Some g \<Rightarrow>
          if g_status g \<noteq> GS_ACTIVE
          then (Inl (BadRequestException ''Group must be ACTIVE to query current recipient''), w)
          else (case find_membership_by_order gid (g_currentRound g - 1) w of
              None \<Rightarrow> (Inl (NotFoundException (''No member scheduled for payout in round ''
                        @ show_int (g_currentRound g))), w)
            | Some m \<Rightarrow> (Inr m, w)))"

definition show_order :: "int option \<Rightarrow> string" where
  "show_order x = (case x of None \<Rightarrow> ''null'' | Some k \<Rightarrow> show_int k)"

definition recordPayout :: "uuid \<Rightarrow> uuid \<Rightarrow> string \<Rightarrow> membership io" where
  "recordPayout gid recipient txHash w =
     (case find_group gid w of
        None \<Rightarrow> (Inl (NotFoundException ''Group not found''), w)
      | Some g \<Rightarrow>
          if g_status g \<noteq> GS_ACTIVE
          then (Inl (BadRequestException ''Group must be ACTIVE to record payouts''), w)
          else (case find_membership gid recipient w of
              None \<Rightarrow> (Inl (NotFoundException ''Membership not found''), w)
            | Some m \<Rightarrow>
                if m_hasReceivedPayout m
                then (Inl (ConflictException ''Member has already received payout''), w)
                else if m_payoutOrder m \<noteq> Some (g_currentRound g - 1)
                then (Inl (BadRequestException (''Payout order mismatch: member has payoutOrder ''
                        @ show_order (m_payoutOrder m) @ '' but current round ''
                        @ show_int (g_currentRound g) @ '' expects payoutOrder ''
                        @ show_int (g_currentRound g - 1))), w)
                else (let m' = m\<lparr>m_hasReceivedPayout := True, m_transactionHash := Some txHash\<rparr>;
                          w1 = save_membership m' w
                      in case notify (plain_dto recipient PAYOUT_RECEIVED ''Payout Received''
                               (''You have received your payout from group \"'' @ g_name g @ ''\"'')) w1 of
                           (Inl e, w2) \<Rightarrow> (Inl e, w2)
                         | (Inr _, w2) \<Rightarrow> (Inr m', w2))))"

text \<open>The admin check of \<open>suspendMember\<close> and \<open>reinstateMember\<close>; \<open>verb\<close> is the action in its message.\<close>

definition check_group_admin :: "string \<Rightarrow> uuid \<Rightarrow> uuid \<Rightarrow> world \<Rightarrow> rosca_group outcome" where
  "check_group_admin verb gid requester w =
     (case find_group gid w of
        None \<Rightarrow> Inl (NotFoundException ''Group not found'')
      | Some g \<Rightarrow>
          (case find_membership gid requester w of
             None \<Rightarrow> Inl (ForbiddenException ''Not a group member'')
           | Some rm \<Rightarrow>
               if g_adminWallet g \<noteq> m_walletAddress rm
               then Inl (ForbiddenException (''Only the group admin can '' @ verb @ '' members''))
               else Inr g))"

definition suspendMember :: "uuid \<Rightarrow> uuid \<Rightarrow> uuid \<Rightarrow> string \<Rightarrow> membership io" where
  "suspendMember gid target requester reason w =
     (if target = requester
      then (Inl (ForbiddenException ''Group admin cannot suspend themselves''), w)
      else case check_group_admin ''suspend'' gid requester w of
        Inl e \<Rightarrow> (Inl e, w)
      | Inr g \<Rightarrow>
          (case find_membership gid target w of
             None \<Rightarrow> (Inl (NotFoundException ''Membership not found''), w)
           | Some m \<Rightarrow>
               if m_status m = MS_SUSPENDED then (Inr m, w)
               else (let m' = m\<lparr>m_status := MS_SUSPENDED\<rparr>;
                         w1 = save_membership m' w
                     in case notify (plain_dto target MEMBER_SUSPENDED ''Your membership has been suspended''
                              (''Your membership in group \"'' @ g_name g
                               @ ''\" has been suspended. Reason: '' @ reason)) w1 of
                          (Inl e, w2) \<Rightarrow> (Inl e, w2)
                        | (Inr _, w2) \<Rightarrow> (Inr m', set_immediate (AdmitFromWaitlist gid) w2))))"

definition reinstateMember :: "uuid \<Rightarrow> uuid \<Rightarrow> uuid \<Rightarrow> membership io" where
  "reinstateMember gid target requester w =
     (case check_group_admin ''reinstate'' gid requester w of
        Inl e \<Rightarrow> (Inl e, w)
      | Inr g \<Rightarrow>
          (case find_membership gid target w of
             None \<Rightarrow> (Inl (NotFoundException ''Membership not found''), w)
           | Some m \<Rightarrow>
               (let m' = m\<lparr>m_status := MS_ACTIVE\<rparr>;
                    w1 = save_membership m' w
                in case notify (plain_dto target MEMBER_REINSTATED ''Your membership has been reinstated''
                         (''Your membership in group \"'' @ g_name g @ ''\" has been reinstated.'')) w1 of
                     (Inl e, w2) \<Rightarrow> (Inl e, w2)
                   | (Inr _, w2) \<Rightarrow> (Inr m', w2))))"

lemmas membership_handlers [handler_defs] =
  addMember_def removeMember_def leaveGroup_def recordPayout_def suspendMember_def reinstateMember_def

text \<open>A message without a key is always delivered, so it never makes a handler fail.\<close>

lemma notify_plain_ok: "defined_type t \<Longrightarrow> \<exists>n w'. notify (plain_dto u t x y) w = (Inr n, w')"
  by (simp add: notify_def insert_notification_def plain_dto_def Let_def)

lemma notify_plain_not_Inl [simp]: "defined_type t \<Longrightarrow> notify (plain_dto u t x y) w \<noteq> (Inl e, w')"
  by (simp add: notify_def insert_notification_def plain_dto_def Let_def)

lemma leaveGroup_succeeds:
  assumes "find_group gid w = Some g" "g_status g = GS_PENDING" "find_membership gid uid w = Some m"
  shows "\<exists>w'. leaveGroup gid uid w = (Inr (), w')"
  using assms by (simp add: leaveGroup_def Let_def split: prod.splits sum.splits)

subsection \<open>Joining\<close>

lemma addMember_tx_Inr:
  assumes "addMember_tx gid uid a w = (Inr m, w')"
  obtains g where "find_group gid w = Some g" "g_status g \<noteq> GS_ACTIVE"
    "member_count gid w < g_maxMembers g" "find_membership gid uid w = None"
    "m = (new_membership gid uid a
       (if g_payoutOrderStrategy g \<noteq> RANDOM \<and> g_payoutOrderStrategy g \<noteq> ADMIN_DEFINED
        then Some (case max_payout_order gid w of Some k \<Rightarrow> k + 1 | None \<Rightarrow> 0) else None))
       \<lparr>m_id := fresh_uuid w\<rparr>"
    "w' = (tick_uuid w)\<lparr>memberships := memberships w @ [m]\<rparr>"
  using assms
  by (auto simp: addMember_tx_def insert_membership_Inr split: option.splits if_splits)

lemma addMember_Inr: "addMember gid uid a w = (Inr m, w') \<longleftrightarrow> addMember_tx gid uid a w = (Inr m, w')"
  unfolding transaction_commits [of "addMember_tx gid uid a", symmetric]
  by (auto simp: addMember_def split: prod.splits sum.splits exn.splits)

lemma addMember_Inl_unchanged: "addMember gid uid a w = (Inl e, w') \<Longrightarrow> w' = w"
  by (auto simp: addMember_def dest: transaction_rolls_back split: prod.splits sum.splits exn.splits)

lemma addMember_member_count:
  "addMember gid uid a w = (Inr m, w') \<Longrightarrow>
     member_count k w' = member_count k w + (if k = gid then 1 else 0)"
  by (auto simp: addMember_Inr member_count_def new_membership_def elim!: addMember_tx_Inr)

lemma addMember_keys_ok:
  assumes "keys_ok w" "addMember gid uid a w = (r, w')" shows "keys_ok w'"
proof (cases r)
  case (Inl e)
  with assms addMember_Inl_unchanged show ?thesis by metis
next
  case (Inr m)
  with assms(2) obtain x where "insert_membership x w = (Inr m, w')"
    by (auto simp: addMember_Inr addMember_tx_def Let_def split: option.splits if_splits)
  with assms(1) show ?thesis by (rule keys_ok_insert_membership)
qed

subsection \<open>The payout order\<close>

text \<open>The orders of a group: the numbers of its members, NULLs left out.\<close>

definition orders :: "uuid \<Rightarrow> world \<Rightarrow> int list" where
  "orders gid w = List.map_filter m_payoutOrder (group_members gid w)"

text \<open>Every member has a number and the numbers are exactly 0, ..., n - 1.\<close>

definition contiguous_orders :: "uuid \<Rightarrow> world \<Rightarrow> bool" where
  "contiguous_orders gid w \<longleftrightarrow>
     (\<forall>m \<in> set (group_members gid w). m_payoutOrder m \<noteq> None) \<and>
     distinct (orders gid w) \<and> set (orders gid w) = {0 ..< member_count gid w}"

lemma set_orders: "set (orders gid w) = {k. \<exists>m \<in> set (group_members gid w). m_payoutOrder m = Some k}"
  by (force simp: orders_def map_filter_def)

lemma length_orders:
  "\<forall>m \<in> set (group_members gid w). m_payoutOrder m \<noteq> None \<Longrightarrow> int (length (orders gid w)) = member_count gid w"
  by (auto simp: orders_def map_filter_def member_count_length filter_id_conv)

lemma max_payout_order_contiguous:
  assumes "contiguous_orders gid w"
  shows "(case max_payout_order gid w of Some k \<Rightarrow> k + 1 | None \<Rightarrow> 0) = member_count gid w"
proof (cases "max_payout_order gid w")
  case None
  then have "orders gid w = []" by (simp add: max_payout_order_def orders_def)
  with assms have "{0 ..< member_count gid w} = {}" by (simp add: contiguous_orders_def)
  with None show ?thesis using member_count_nonneg [of gid w] by simp
next
  case (Some k)
  then have "sql_max (orders gid w) = Some k" by (simp add: max_payout_order_def orders_def)
  then have "k \<in> {0 ..< member_count gid w}" "\<forall>x \<in> {0 ..< member_count gid w}. x \<le> k"
    using assms sql_max_ge sql_max_mem unfolding contiguous_orders_def by fast+
  with Some show ?thesis by (force dest: bspec [of _ _ "member_count gid w - 1"])
qed

lemma addMember_contiguous:
  assumes "contiguous_orders gid w" "addMember gid uid a w = (Inr m, w')"
    and "find_group gid w = Some g" "g_payoutOrderStrategy g = SEQUENTIAL"
  shows "m_payoutOrder m = Some (member_count gid w) \<and> contiguous_orders gid w'"
proof -
  from assms(2) obtain m0 where m: "m = (new_membership gid uid a (Some (member_count gid w)))\<lparr>m_id := m0\<rparr>"
    and w': "w' = (tick_uuid w)\<lparr>memberships := memberships w @ [m]\<rparr>"
    using assms(3,4) max_payout_order_contiguous [OF assms(1)]
    by (auto simp: addMember_Inr elim!: addMember_tx_Inr)
  then have members: "group_members gid w' = group_members gid w @ [m]"
    by (simp add: group_members_def new_membership_def)
  then have "orders gid w' = orders gid w @ [member_count gid w]"
    using m by (simp add: orders_def map_filter_def new_membership_def)
  moreover have "member_count gid w' = member_count gid w + 1"
    using addMember_member_count [OF assms(2), of gid] by simp
  ultimately show ?thesis
    using assms(1) m members by (auto simp: contiguous_orders_def new_membership_def)
qed

text \<open>
  The renumbering loop writes each remaining member at most once, so it has the effect of one
  \<open>map\<close> over the table.
\<close>

definition shift_after :: "int option \<Rightarrow> membership \<Rightarrow> membership" where
  "shift_after departing m =
     (if js_num (m_payoutOrder m) > js_num departing
      then m\<lparr>m_payoutOrder := Some (js_num (m_payoutOrder m) - 1)\<rparr> else m)"

lemma shift_after_frame [simp]:
  "m_id (shift_after d m) = m_id m" "m_groupId (shift_after d m) = m_groupId m"
  "m_userId (shift_after d m) = m_userId m" "m_walletAddress (shift_after d m) = m_walletAddress m"
  by (simp_all add: shift_after_def)

lemma resequence_map:
  assumes "distinct (map m_id ms)" "distinct (map m_id (memberships w))" "set ms \<subseteq> set (memberships w)"
  shows "resequence d ms w = w\<lparr>memberships := map (\<lambda>x. if x \<in> set ms then shift_after d x else x) (memberships w)\<rparr>"
  using assms
proof (induction ms arbitrary: w)
  case Nil
  then show ?case by simp
next
  case (Cons m ms)
  let ?f = "\<lambda>x. if x = m then shift_after d m else x"
  let ?w1 = "w\<lparr>memberships := map ?f (memberships w)\<rparr>"
  have id_eq: "m_id x = m_id m \<longleftrightarrow> x = m" if "x \<in> set (memberships w)" for x
    using Cons.prems that by (auto simp: distinct_map dest: inj_onD)
  have mem: "m_id m \<in> m_id ` set (memberships w)" using Cons.prems by auto
  have save: "save_membership (shift_after d m) w = ?w1"
    using id_eq mem by (simp add: save_membership_def save_row_def cong: map_cong)
  have same: "map ?f (memberships w) = memberships w" if "shift_after d m = m"
    using that by (simp add: map_idI)
  have step: "(if js_num (m_payoutOrder m) > js_num d
      then save_membership (m\<lparr>m_payoutOrder := Some (js_num (m_payoutOrder m) - 1)\<rparr>) w else w) = ?w1"
    using save same by (auto simp: shift_after_def)
  have notin: "m \<notin> set ms" "shift_after d m \<notin> set ms"
    using Cons.prems(1) by (auto simp: image_iff)
  have "map m_id (map ?f (memberships w)) = map m_id (memberships w)" by simp
  moreover have "memberships ?w1 = map ?f (memberships w)" by simp
  ultimately have "distinct (map m_id (memberships ?w1))" using Cons.prems(2) by (simp only:)
  moreover have "set ms \<subseteq> set (memberships ?w1)"
    using Cons.prems(3) notin by (auto simp: image_iff)
  ultimately have "resequence d ms ?w1 = ?w1\<lparr>memberships :=
      map (\<lambda>x. if x \<in> set ms then shift_after d x else x) (memberships ?w1)\<rparr>"
    using Cons.prems(1) by (intro Cons.IH) auto
  then show ?case
    using step notin by (simp add: comp_def)
qed

lemma set_order_by_payout: "set (order_by_payout ms) = set ms"
proof -
  have ins: "set (insort_order m xs) = insert m (set xs)" for m xs
    by (induction xs) auto
  show ?thesis by (induction ms) (simp_all add: order_by_payout_def ins)
qed

lemma distinct_order_by_payout: "distinct (map m_id ms) \<Longrightarrow> distinct (map m_id (order_by_payout ms))"
proof -
  have ins: "distinct (map m_id (insort_order m xs)) \<longleftrightarrow> distinct (map m_id (m # xs))" for m xs
  proof (induction xs)
    case (Cons x xs)
    have "set (insort_order m xs) = insert m (set xs)" by (induction xs) auto
    with Cons show ?case by auto
  qed simp
  assume "distinct (map m_id ms)"
  then show ?thesis
  proof (induction ms)
    case (Cons m ms)
    then show ?case
      using ins [of m "order_by_payout ms"] set_order_by_payout [of ms]
      by (simp add: order_by_payout_def)
  qed (simp add: order_by_payout_def)
qed

definition after_leave :: "uuid \<Rightarrow> membership \<Rightarrow> world \<Rightarrow> membership list" where
  "after_leave gid m w = map (\<lambda>x. if m_groupId x = gid then shift_after (m_payoutOrder m) x else x)
     (remove_row m_id m (memberships w))"

lemma after_leave_mem:
  "x \<in> set (after_leave gid m w) \<longleftrightarrow> (\<exists>y \<in> set (memberships w). m_id y \<noteq> m_id m \<and>
     x = (if m_groupId y = gid then shift_after (m_payoutOrder m) y else y))"
  unfolding after_leave_def set_map set_remove_row by blast

lemma leaveGroup_memberships:
  assumes "keys_ok w" "leaveGroup gid uid w = (r, w')"
    and "find_group gid w = Some g" "g_status g = GS_PENDING" "find_membership gid uid w = Some m"
  shows "memberships w' = after_leave gid m w \<and> uuid_count w \<le> uuid_count w' \<and>
    groups w' = groups w \<and> waitlist w' = waitlist w \<and> users w' = users w"
proof -
  let ?w1 = "set_immediate (AdmitFromWaitlist gid) (remove_membership m w)"
  let ?ms = "order_by_payout (group_members gid ?w1)"
  have ok: "distinct (map m_id (memberships ?w1))"
    using keys_ok_remove_membership [OF assms(1), of m] by (simp add: keys_ok_def set_immediate_def)
  then have "resequence (m_payoutOrder m) ?ms ?w1 = ?w1\<lparr>memberships :=
      map (\<lambda>x. if x \<in> set ?ms then shift_after (m_payoutOrder m) x else x) (memberships ?w1)\<rparr>"
    by (intro resequence_map)
      (auto simp: set_order_by_payout group_members_def distinct_map_filter intro: distinct_order_by_payout)
  moreover have "map (\<lambda>x. if x \<in> set ?ms then shift_after (m_payoutOrder m) x else x) (memberships ?w1)
      = after_leave gid m w"
    by (auto simp: set_order_by_payout after_leave_def set_immediate_def remove_membership_def)
  ultimately show ?thesis
    using assms(2-5)
    by (auto simp: leaveGroup_def Let_def same_tables_def set_immediate_def remove_membership_def
        split: prod.splits sum.splits dest!: notify_frame)
qed

lemma remove_membership_count:
  "keys_ok w \<Longrightarrow> m \<in> set (memberships w) \<Longrightarrow>
     member_count k (remove_membership m w) = member_count k w - (if m_groupId m = k then 1 else 0)"
proof -
  assume ok: "keys_ok w" and m: "m \<in> set (memberships w)"
  then have d: "distinct (map m_id (memberships w))" by (simp add: keys_ok_def)
  have other: "count_rows P (remove_row m_id m t) = count_rows P t"
    if "\<And>x. x \<in> set t \<Longrightarrow> m_id x = m_id m \<Longrightarrow> \<not> P x" for P t
    using that by (induction t) (auto simp: remove_row_def)
  show ?thesis
  proof (cases "m_groupId m = k")
    case True
    with count_rows_remove [OF m d] show ?thesis
      by (simp add: member_count_def remove_membership_def)
  next
    case False
    with membership_by_id [OF ok _ m] have "count_rows (\<lambda>x. m_groupId x = k) (remove_row m_id m (memberships w))
        = count_rows (\<lambda>x. m_groupId x = k) (memberships w)"
      by (intro other) metis
    with False show ?thesis by (simp add: member_count_def remove_membership_def)
  qed
qed

text \<open>Closing the gap after number \<open>d\<close> maps 0, ..., n - 1 without d onto 0, ..., n - 2.\<close>

lemma close_gap:
  fixes d n :: int
  assumes "0 \<le> d" "d < n"
  shows "(\<lambda>k. if d < k then k - 1 else k) ` ({0 ..< n} - {d}) = {0 ..< n - 1}"
proof (intro set_eqI iffI)
  fix x assume "x \<in> {0 ..< n - 1}"
  then have "x = (if d < (if x < d then x else x + 1) then (if x < d then x else x + 1) - 1
      else (if x < d then x else x + 1))" and "(if x < d then x else x + 1) \<in> {0 ..< n} - {d}" by auto
  then show "x \<in> (\<lambda>k. if d < k then k - 1 else k) ` ({0 ..< n} - {d})" by blast
qed (use assms in auto)

lemma close_gap_inj: "inj_on (\<lambda>k :: int. if d < k then k - 1 else k) (S - {d})"
  by (auto simp: inj_on_def split: if_splits)

lemma orders_unique:
  assumes "contiguous_orders gid w" "x \<in> set (group_members gid w)" "y \<in> set (group_members gid w)"
    and "m_payoutOrder x = m_payoutOrder y"
  shows "x = y"
proof -
  have "inj_on (the \<circ> m_payoutOrder) (set (group_members gid w))"
    using assms(1) by (auto simp: contiguous_orders_def orders_def map_filter_def distinct_map
        filter_id_conv [THEN iffD2] inj_on_def)
  from inj_onD [OF this _ assms(2,3)] assms(4) show ?thesis by simp
qed

lemma orders_after_leave:
  assumes "keys_ok w" "contiguous_orders gid w" "m \<in> set (group_members gid w)" "m_payoutOrder m = Some d"
    and w': "memberships w' = after_leave gid m w"
  shows "orders gid w' = map (\<lambda>k. if d < k then k - 1 else k) (filter (\<lambda>k. k \<noteq> d) (orders gid w))"
proof -
  let ?s = "\<lambda>k. if d < k then k - 1 else k"
  have ids: "m_id x = m_id m \<longleftrightarrow> m_payoutOrder x = Some d" if "x \<in> set (group_members gid w)" for x
    using that assms(1-4) orders_unique [OF assms(2) that assms(3)] membership_by_id [OF assms(1)] by auto
  have some: "\<forall>x \<in> set (group_members gid w). m_payoutOrder x \<noteq> None"
    using assms(2) by (simp add: contiguous_orders_def)
  have gen: "List.map_filter m_payoutOrder (filter (\<lambda>x. m_groupId x = gid)
      (map (\<lambda>x. if m_groupId x = gid then shift_after (Some d) x else x) (filter (\<lambda>x. m_id x \<noteq> m_id m) t)))
    = map ?s (filter (\<lambda>k. k \<noteq> d) (List.map_filter m_payoutOrder (filter (\<lambda>x. m_groupId x = gid) t)))"
    if "\<forall>x \<in> set t. m_groupId x = gid \<longrightarrow> m_payoutOrder x \<noteq> None \<and> (m_id x = m_id m \<longleftrightarrow> m_payoutOrder x = Some d)" for t
    using that by (induction t) (auto simp: map_filter_simps shift_after_def split: option.splits)
  have "\<forall>x \<in> set (memberships w). m_groupId x = gid \<longrightarrow>
      m_payoutOrder x \<noteq> None \<and> (m_id x = m_id m \<longleftrightarrow> m_payoutOrder x = Some d)"
    using ids some by auto
  from gen [OF this] show ?thesis
    unfolding orders_def group_members_def w' after_leave_def remove_row_def assms(4) .
qed

text \<open>
  C28: Leaving a PENDING group keeps the payout order a gap-free numbering. If the members of the
  group hold exactly the numbers 0, ..., n - 1 and a member leaves, the others hold exactly
  0, ..., n - 2 afterwards. The rows are those from before without the leaver: the members of the group behind the
  leaver move up by one, which keeps their order, and no other row and no other column changes.
\<close>

theorem leaveGroup_keeps_orders_contiguous:
  assumes "keys_ok w" "contiguous_orders gid w" "leaveGroup gid uid w = (Inr u, w')"
  shows "contiguous_orders gid w' \<and> member_count gid w' = member_count gid w - 1 \<and>
    find_membership gid uid w' = None \<and>
    (\<exists>m d. find_membership gid uid w = Some m \<and> m_payoutOrder m = Some d \<and>
       memberships w' = map (\<lambda>x. if m_groupId x = gid \<and> the (m_payoutOrder x) > d
           then x\<lparr>m_payoutOrder := Some (the (m_payoutOrder x) - 1)\<rparr> else x) (filter (\<lambda>x. m_id x \<noteq> m_id m) (memberships w)))"
proof -
  from assms(3) obtain g m where g: "find_group gid w = Some g" "g_status g = GS_PENDING"
    and m: "find_membership gid uid w = Some m"
    by (auto simp: leaveGroup_def split: option.splits if_splits)
  have mem: "m \<in> set (memberships w)" "m_groupId m = gid" "m_userId m = uid"
    using find_membershipD [OF m] by auto
  then have in_grp: "m \<in> set (group_members gid w)" by simp
  with assms(2) have "m_payoutOrder m \<noteq> None" unfolding contiguous_orders_def by blast
  then obtain d where d: "m_payoutOrder m = Some d" by blast
  have ms: "memberships w' = after_leave gid m w"
    using leaveGroup_memberships [OF assms(1,3) g m] by simp
  have "d \<in> set (orders gid w)" using in_grp d by (auto simp: set_orders)
  then have dn: "0 \<le> d" "d < member_count gid w"
    using assms(2) by (auto simp: contiguous_orders_def)
  note ord = orders_after_leave [OF assms(1,2) in_grp d ms]
  have count: "member_count gid w' = member_count gid w - 1"
    using remove_membership_count [OF assms(1) mem(1), of gid] mem
    by (simp add: member_count_def ms after_leave_def remove_membership_def count_rows_map_cong)
  have "set (orders gid w') = {0 ..< member_count gid w'}"
    using ord assms(2) close_gap [OF dn] count by (simp add: contiguous_orders_def set_diff_eq)
  moreover have "distinct (orders gid w')"
    using ord assms(2) close_gap_inj [of d "set (orders gid w)"]
    by (auto simp: contiguous_orders_def distinct_map set_diff_eq)
  moreover have "m_payoutOrder x \<noteq> None" if x: "x \<in> set (group_members gid w')" for x
  proof -
    from x obtain y where y: "y \<in> set (group_members gid w)" "x = shift_after (m_payoutOrder m) y"
      unfolding set_group_members ms after_leave_mem by (auto split: if_splits)
    moreover from y(1) have "m_payoutOrder y \<noteq> None"
      using assms(2) unfolding contiguous_orders_def by blast
    ultimately show ?thesis by (simp add: shift_after_def)
  qed
  moreover have "\<not> (m_groupId x = gid \<and> m_userId x = uid)" if "x \<in> set (memberships w')" for x
  proof
    assume x: "m_groupId x = gid \<and> m_userId x = uid"
    from that obtain y where y: "y \<in> set (memberships w)" "m_id y \<noteq> m_id m"
      "m_groupId y = m_groupId x" "m_userId y = m_userId x"
      unfolding ms after_leave_mem by (auto split: if_splits)
    with x mem have "m = y" by (intro membership_by_user [OF assms(1)]) simp_all
    with y show False by simp
  qed
  ultimately have rest: "contiguous_orders gid w' \<and> member_count gid w' = member_count gid w - 1 \<and> find_membership gid uid w' = None"
    using count by (simp add: contiguous_orders_def find_membership_None)
  have "memberships w' = map (\<lambda>x. if m_groupId x = gid \<and> the (m_payoutOrder x) > d
      then x\<lparr>m_payoutOrder := Some (the (m_payoutOrder x) - 1)\<rparr> else x) (filter (\<lambda>x. m_id x \<noteq> m_id m) (memberships w))"
  proof -
    have "(if m_groupId x = gid then shift_after (m_payoutOrder m) x else x) = (if m_groupId x = gid \<and> the (m_payoutOrder x) > d
        then x\<lparr>m_payoutOrder := Some (the (m_payoutOrder x) - 1)\<rparr> else x)" if "x \<in> set (memberships w)" for x
    proof (cases "m_groupId x = gid")
      case True
      then have "m_payoutOrder x \<noteq> None" using that assms(2) unfolding contiguous_orders_def by simp
      then show ?thesis using True d by (auto simp: shift_after_def)
    qed simp
    then show ?thesis unfolding ms after_leave_def remove_row_def by (intro map_cong) auto
  qed
  with rest m d show ?thesis by blast
qed

theorem leaveGroup_keeps_orders_contiguous_witness:
  "\<exists>w'. leaveGroup ''g'' ''u0'' (demo_world GS_PENDING 0 demo_members) = (Inr (), w') \<and>
     contiguous_orders ''g'' w' \<and> member_count ''g'' w' = 2"
proof -
  let ?w = "demo_world GS_PENDING 0 demo_members"
  have g: "find_group ''g'' ?w = Some (demo_group\<lparr>g_status := GS_PENDING, g_currentRound := 0\<rparr>)"
    by (simp add: find_group_def demo_world_def demo_group_def)
  have m: "find_membership ''g'' ''u0'' ?w = Some (demo_member 0 ''u0'' ''w0'' (Some 0))"
    by (simp add: find_membership_def demo_world_def demo_members_def demo_member_def)
  have "g_status (demo_group\<lparr>g_status := GS_PENDING, g_currentRound := 0\<rparr>) = GS_PENDING" by simp
  from leaveGroup_succeeds [OF g this m] obtain w' where
    run': "leaveGroup ''g'' ''u0'' ?w = (Inr (), w')" by blast
  have "contiguous_orders ''g'' ?w"
    by (auto simp: contiguous_orders_def orders_def map_filter_def group_members_def demo_world_def
        demo_members_def demo_member_def member_count_def)
  from leaveGroup_keeps_orders_contiguous [OF keys_ok_demo this run'] run'
  show ?thesis by (simp add: member_count_def demo_world_def demo_members_def demo_member_def)
qed

text \<open>
  A departing member without a payout order corrupts the order of the others. When such a
  member leaves a PENDING group, the comparison with null counts as a comparison with 0, so the
  members numbered 0 and 1 both hold number 0 afterwards.
\<close>

theorem leaveGroup_null_order_collides:
  assumes "keys_ok w" "leaveGroup gid uid w = (Inr u, w')"
    and "find_membership gid uid w = Some m" "m_payoutOrder m = None"
    and "x \<in> set (group_members gid w)" "m_payoutOrder x = Some 0"
    and "y \<in> set (group_members gid w)" "m_payoutOrder y = Some 1"
  shows "\<exists>x' y'. x' \<in> set (group_members gid w') \<and> y' \<in> set (group_members gid w') \<and>
    m_id x' = m_id x \<and> m_id y' = m_id y \<and> m_id x \<noteq> m_id y \<and>
    m_payoutOrder x' = Some 0 \<and> m_payoutOrder y' = Some 0"
proof -
  from assms(2,3) obtain g where "find_group gid w = Some g" "g_status g = GS_PENDING"
    by (auto simp: leaveGroup_def split: option.splits if_splits)
  then have ms: "memberships w' = after_leave gid m w"
    using leaveGroup_memberships [OF assms(1,2)] assms(3) by blast
  have mem: "m \<in> set (memberships w)" using find_membershipD [OF assms(3)] by simp
  have neq: "m_id z \<noteq> m_id m" if "z \<in> set (group_members gid w)" "m_payoutOrder z \<noteq> None" for z
  proof
    assume "m_id z = m_id m"
    moreover have "z \<in> set (memberships w)" using that(1) by simp
    ultimately have "z = m" by (intro membership_by_id [OF assms(1) _ mem])
    with that(2) assms(4) show False by simp
  qed
  have after: "shift_after None z \<in> set (group_members gid w')"
    if "z \<in> set (group_members gid w)" "m_payoutOrder z \<noteq> None" for z
    using that neq [OF that] unfolding set_group_members ms after_leave_mem assms(4) by auto
  have "m_id x \<noteq> m_id y"
  proof
    assume eq: "m_id x = m_id y"
    have "x \<in> set (memberships w)" "y \<in> set (memberships w)" using assms(5,7) by simp_all
    then have "x = y" by (intro membership_by_id [OF assms(1)] eq)
    with assms(6,8) show False by simp
  qed
  moreover have "m_payoutOrder (shift_after None x) = Some 0" "m_payoutOrder (shift_after None y) = Some 0"
    using assms(6,8) by (simp_all add: shift_after_def)
  ultimately show ?thesis
    using after [of x] after [of y] assms(5-8) by (metis shift_after_frame(1) option.distinct(1))
qed

theorem leaveGroup_null_order_collides_witness:
  "\<exists>w' x' y'. leaveGroup ''g'' ''u3'' (demo_world GS_PENDING 0 (demo_members @ [demo_member 3 ''u3'' ''w3'' None]))
       = (Inr (), w') \<and> x' \<in> set (group_members ''g'' w') \<and> y' \<in> set (group_members ''g'' w') \<and>
     m_id x' \<noteq> m_id y' \<and> m_payoutOrder x' = Some 0 \<and> m_payoutOrder y' = Some 0"
proof -
  let ?w = "demo_world GS_PENDING 0 (demo_members @ [demo_member 3 ''u3'' ''w3'' None])"
  have ok: "keys_ok ?w" by (simp add: keys_ok_def demo_defs)
  have g: "find_group ''g'' ?w = Some (demo_group\<lparr>g_status := GS_PENDING, g_currentRound := 0\<rparr>)"
    by (simp add: find_group_def demo_world_def demo_group_def)
  have m: "find_membership ''g'' ''u3'' ?w = Some (demo_member 3 ''u3'' ''w3'' None)"
    by (simp add: find_membership_def demo_world_def demo_members_def demo_member_def)
  have "g_status (demo_group\<lparr>g_status := GS_PENDING, g_currentRound := 0\<rparr>) = GS_PENDING" by simp
  from leaveGroup_succeeds [OF g this m] obtain w' where
    run': "leaveGroup ''g'' ''u3'' ?w = (Inr (), w')" by blast
  have mem: "demo_member 0 ''u0'' ''w0'' (Some 0) \<in> set (group_members ''g'' ?w)"
    "demo_member 1 ''u1'' ''w1'' (Some 1) \<in> set (group_members ''g'' ?w)"
    by (simp_all add: demo_world_def demo_members_def demo_member_def)
  have ord: "m_payoutOrder (demo_member i u a k) = k" for i u a k by (simp add: demo_member_def)
  from leaveGroup_null_order_collides [OF ok run' m ord mem(1) ord mem(2) ord]
  obtain x' y' where "x' \<in> set (group_members ''g'' w')" "y' \<in> set (group_members ''g'' w')"
    "m_id x' \<noteq> m_id y'" "m_payoutOrder x' = Some 0" "m_payoutOrder y' = Some 0" by metis
  with run' show ?thesis by (intro exI conjI)
qed

text \<open>A payout is recorded at most once.\<close>

lemma recordPayout_Inr:
  assumes "recordPayout gid uid h w = (Inr m', w')"
  obtains g m where "find_group gid w = Some g" "g_status g = GS_ACTIVE"
    "find_membership gid uid w = Some m" "\<not> m_hasReceivedPayout m"
    "m_payoutOrder m = Some (g_currentRound g - 1)"
    "m' = m\<lparr>m_hasReceivedPayout := True, m_transactionHash := Some h\<rparr>"
    "same_tables (save_membership m' w) w'"
  using assms
  by (auto simp: recordPayout_def Let_def split: option.splits if_splits prod.splits sum.splits
      dest!: notify_frame)

lemma find_membership_save:
  assumes "keys_ok w" "find_membership gid uid w = Some m"
    and "m_id m' = m_id m" "m_groupId m' = gid" "m_userId m' = uid"
  shows "find_membership gid uid (save_membership m' w) = Some m'"
  unfolding find_membership_def
proof (rule find_unique)
  note mem = find_membershipD [OF assms(2)]
  show "m' \<in> set (memberships (save_membership m' w))"
    by (simp add: save_membership_def set_save_row)
  fix z assume z: "z \<in> set (memberships (save_membership m' w))" "m_groupId z = gid \<and> m_userId z = uid"
  show "z = m'"
  proof (rule ccontr)
    assume "z \<noteq> m'"
    with z have "z \<in> set (memberships w)" "m_id z \<noteq> m_id m"
      using assms(3) by (simp_all add: save_membership_def set_save_row)
    moreover from this z mem have "m = z" by (intro membership_by_user [OF assms(1)]) simp_all
    ultimately show False by simp
  qed
qed (use assms in simp)

text \<open>
  A payout is recorded only for the member whose turn it is, and at most once: a recorded
  payout belongs to the member with payout order currentRound - 1 of an ACTIVE group, marks that
  member as paid with the given hash, and any further attempt for that member in the same round
  is a Conflict that changes nothing.
\<close>

theorem recordPayout_at_most_once:
  assumes "keys_ok w" "recordPayout gid uid h w = (Inr m', w')"
  shows "(\<exists>g. find_group gid w = Some g \<and> g_status g = GS_ACTIVE \<and>
            m_payoutOrder m' = Some (g_currentRound g - 1)) \<and>
    find_membership gid uid w' = Some m' \<and> m_hasReceivedPayout m' \<and> m_transactionHash m' = Some h \<and>
    recordPayout gid uid h2 w' = (Inl (ConflictException ''Member has already received payout''), w')"
proof -
  from assms(2) obtain g m where g: "find_group gid w = Some g" "g_status g = GS_ACTIVE"
    and m: "find_membership gid uid w = Some m" "m_payoutOrder m = Some (g_currentRound g - 1)"
    and m': "m' = m\<lparr>m_hasReceivedPayout := True, m_transactionHash := Some h\<rparr>"
    and same: "same_tables (save_membership m' w) w'"
    by (rule recordPayout_Inr)
  have "find_membership gid uid (save_membership m' w) = Some m'"
    using find_membershipD [OF m(1)] m' by (intro find_membership_save [OF assms(1) m(1)]) simp_all
  then have found: "find_membership gid uid w' = Some m'"
    using same by (simp add: find_membership_def same_tables_def)
  have "find_group gid w' = Some g"
    using same g by (simp add: find_group_def same_tables_def save_membership_def)
  then show ?thesis
    using found g m m' by (simp add: recordPayout_def)
qed

theorem recordPayout_at_most_once_witness:
  "\<exists>m' w'. recordPayout ''g'' ''u0'' ''tx1'' (demo_world GS_ACTIVE 1 demo_members) = (Inr m', w') \<and>
     m_hasReceivedPayout m' \<and> recordPayout ''g'' ''u0'' ''tx2'' w'
       = (Inl (ConflictException ''Member has already received payout''), w')"
proof -
  let ?w = "demo_world GS_ACTIVE 1 demo_members"
  obtain r w' where run: "recordPayout ''g'' ''u0'' ''tx1'' ?w = (r, w')"
    by (cases "recordPayout ''g'' ''u0'' ''tx1'' ?w")
  have "is_ok r"
    using run by (auto simp: recordPayout_def find_group_def find_membership_def demo_defs Let_def
        notify_def insert_notification_def plain_dto_def getChannelPreference_def save_membership_def
        tick_uuid_def)
  then obtain m' where "recordPayout ''g'' ''u0'' ''tx1'' ?w = (Inr m', w')"
    using run by (auto simp: is_ok_iff)
  with recordPayout_at_most_once [OF keys_ok_demo this] show ?thesis by blast
qed

end
