(* ===== verification/Waitlist.thy ===== *)
theory Waitlist
  imports Memberships
begin

text \<open>
  \<open>WaitlistService\<close> (\<open>waitlist/waitlist.service.ts\<close>): the queue of users who wait for a place in
  a full group. \<open>admitFromWaitlist\<close> runs in a transaction under the group's row lock and is one
  atomic step; the notification of an admitted user runs later and is a deferred task. Rows with
  the same position come in the order of the table. \<open>maxWaitlist\<close> is the configured
  \<open>GROUP_MAX_WAITLIST\<close>.
\<close>

definition waiting :: "uuid \<Rightarrow> world \<Rightarrow> waitlist_entry list" where
  "waiting gid w = filter (\<lambda>e. wl_groupId e = gid \<and> wl_status e = WAITING) (waitlist w)"

text \<open>The unique constraint on group and user covers the rows of every status.\<close>

definition insert_waitlist :: "waitlist_entry \<Rightarrow> waitlist_entry io" where
  "insert_waitlist e w =
     (if \<exists>x \<in> set (waitlist w). wl_groupId x = wl_groupId e \<and> wl_userId x = wl_userId e
      then (Inl (UniqueViolation ''group_waitlist_groupId_userId''), w)
      else if (\<forall>g \<in> set (groups w). g_id g \<noteq> wl_groupId e) \<or> (\<forall>u \<in> set (users w). u_id u \<noteq> wl_userId e)
      then (Inl ForeignKeyViolation, w)
      else (let e' = e\<lparr>wl_id := fresh_uuid w, wl_createdAt := now w\<rparr>
            in (Inr e', (tick_uuid w)\<lparr>waitlist := waitlist w @ [e']\<rparr>)))"

definition joinWaitlist :: "int \<Rightarrow> uuid \<Rightarrow> uuid \<Rightarrow> wallet \<Rightarrow> int io" where
  "joinWaitlist maxWaitlist gid uid a w =
     (case find_group gid w of
        None \<Rightarrow> (Inl (NotFoundException ''Group not found''), w)
      | Some g \<Rightarrow>
          if find_membership gid uid w \<noteq> None
          then (Inl (ConflictException ''User is already a member of this group''), w)
          else if \<exists>e \<in> set (waiting gid w). wl_userId e = uid
          then (Inl (ConflictException ''User is already on the waitlist''), w)
          else if member_count gid w < g_maxMembers g
          then (Inl (BadRequestException ''Group is not full; join directly as a member''), w)
          else let waitlistCount = int (length (waiting gid w)) in
          if waitlistCount \<ge> maxWaitlist
          then (Inl (BadRequestException (''Waitlist is full (max '' @ show_int maxWaitlist @ '' users)'')), w)
          else let position = waitlistCount + 1 in
          (case insert_waitlist \<lparr>wl_id = [], wl_groupId = gid, wl_userId = uid, wl_walletAddress = a,
                  wl_position = position, wl_status = WAITING, wl_createdAt = 0\<rparr> w of
             (Inl e, w') \<Rightarrow> (Inl e, w')
           | (Inr _, w') \<Rightarrow> (Inr position, w')))"

definition leaveWaitlist :: "uuid \<Rightarrow> uuid \<Rightarrow> unit io" where
  "leaveWaitlist gid uid w =
     (case List.find (\<lambda>e. wl_userId e = uid) (waiting gid w) of
        None \<Rightarrow> (Inl (NotFoundException ''Waitlist entry not found''), w)
      | Some entry \<Rightarrow>
          (let cancelledPosition = wl_position entry;
               w1 = save_waitlist (entry\<lparr>wl_status := CANCELLED\<rparr>) w
           in (Inr (), w1\<lparr>waitlist := update_rows
                 (\<lambda>e. wl_groupId e = gid \<and> wl_status e = WAITING \<and> wl_position e > cancelledPosition)
                 (\<lambda>e. e\<lparr>wl_position := wl_position e - 1\<rparr>) (waitlist w1)\<rparr>)))"

text \<open>The newest row of the user, whatever its status.\<close>

fun newest :: "waitlist_entry list \<Rightarrow> waitlist_entry option" where
  "newest [] = None"
| "newest (e # es) = (case newest es of None \<Rightarrow> Some e
     | Some e' \<Rightarrow> if wl_createdAt e < wl_createdAt e' then Some e' else Some e)"

definition getMyPosition :: "uuid \<Rightarrow> uuid \<Rightarrow> (int \<times> waitlist_status) io" where
  "getMyPosition gid uid w =
     (case newest (filter (\<lambda>e. wl_groupId e = gid \<and> wl_userId e = uid) (waitlist w)) of
        None \<Rightarrow> (Inl (NotFoundException ''No waitlist entry found for this user''), w)
      | Some e \<Rightarrow> (Inr (wl_position e, wl_status e), w))"

definition getWaitlist :: "uuid \<Rightarrow> uuid \<Rightarrow> waitlist_entry list io" where
  "getWaitlist gid requester w =
     (case find_group gid w of
        None \<Rightarrow> (Inl (NotFoundException ''Group not found''), w)
      | Some g \<Rightarrow>
          (case find_membership gid requester w of
             None \<Rightarrow> (Inl (ForbiddenException ''Not a group member''), w)
           | Some m \<Rightarrow>
               if g_adminWallet g \<noteq> m_walletAddress m
               then (Inl (ForbiddenException ''Only the group admin can view the waitlist''), w)
               else (Inr (sort_key wl_position (waiting gid w)), w)))"

record admitted_user =
  ad_userId :: uuid
  ad_waitlistEntryId :: uuid
  ad_groupName :: string

text \<open>The loop over the entries to admit; \<open>next\<close> is the variable \<open>nextPayoutOrder\<close>.\<close>

fun admit_entries :: "rosca_group \<Rightarrow> int \<Rightarrow> waitlist_entry list \<Rightarrow> admitted_user list io" where
  "admit_entries g next [] w = (Inr [], w)"
| "admit_entries g next (e # es) w =
     (case insert_membership (new_membership (g_id g) (wl_userId e) (wl_walletAddress e) (Some next)) w of
        (Inl x, w1) \<Rightarrow> (Inl x, w1)
      | (Inr m, w1) \<Rightarrow>
          (case admit_entries g (next + 1) es (save_waitlist (e\<lparr>wl_status := ADMITTED\<rparr>) w1) of
             (Inl x, w2) \<Rightarrow> (Inl x, w2)
           | (Inr as, w2) \<Rightarrow>
               (Inr (\<lparr>ad_userId = wl_userId e, ad_waitlistEntryId = wl_id e, ad_groupName = g_name g\<rparr> # as), w2)))"

definition admission_limit :: "int \<Rightarrow> int option \<Rightarrow> int" where
  "admission_limit freeSlots maxToAdmit =
     (case maxToAdmit of None \<Rightarrow> freeSlots | Some k \<Rightarrow> min freeSlots (max 0 k))"

definition admitFromWaitlistInTransaction :: "uuid \<Rightarrow> int option \<Rightarrow> admitted_user list io" where
  "admitFromWaitlistInTransaction gid maxToAdmit w =
     (case find_group gid w of
        None \<Rightarrow> (Inr [], w)
      | Some g \<Rightarrow>
          let freeSlots = g_maxMembers g - member_count gid w in
          if freeSlots \<le> 0 then (Inr [], w)
          else let limit = admission_limit freeSlots maxToAdmit in
          if limit = 0 then (Inr [], w)
          else let entries = take (nat limit) (sort_key wl_position (waiting gid w)) in
          if entries = [] then (Inr [], w)
          else admit_entries g (case max_payout_order gid w of Some k \<Rightarrow> k + 1 | None \<Rightarrow> 0) entries w)"

definition scheduleAdmissionNotification :: "admitted_user \<Rightarrow> uuid \<Rightarrow> world \<Rightarrow> world" where
  "scheduleAdmissionNotification a gid =
     set_immediate (NotifyAdmitted gid (ad_userId a) (ad_waitlistEntryId a) (ad_groupName a))"

definition admitFromWaitlist :: "uuid \<Rightarrow> int option \<Rightarrow> uuid list io" where
  "admitFromWaitlist gid maxToAdmit w =
     (case transaction (admitFromWaitlistInTransaction gid maxToAdmit) w of
        (Inl e, w1) \<Rightarrow> (Inl e, w1)
      | (Inr as, w1) \<Rightarrow>
          (Inr (map ad_userId as), foldl (\<lambda>v a. scheduleAdmissionNotification a gid v) w1 as))"

definition admitNextFromWaitlist :: "uuid \<Rightarrow> unit io" where
  "admitNextFromWaitlist gid w =
     (case admitFromWaitlist gid (Some 1) w of
        (Inl e, w1) \<Rightarrow> (Inl e, w1) | (Inr _, w1) \<Rightarrow> (Inr (), w1))"

text \<open>The deferred callbacks: admission after a place is freed, and the notice to an admitted user.
  Their errors are logged and dropped.\<close>

definition admission_dto :: "uuid \<Rightarrow> uuid \<Rightarrow> uuid \<Rightarrow> string \<Rightarrow> notify_dto" where
  "admission_dto gid uid eid name =
     (plain_dto uid WAITLIST_ADMITTED ''You have been admitted to the group''
        (''A spot opened up in \"'' @ name @ ''\" and you have been admitted.''))
     \<lparr>nd_idempotencyKey := Some (''waitlist_admitted:'' @ gid @ '':'' @ uid @ '':'' @ eid)\<rparr>"

fun run_task :: "task \<Rightarrow> world \<Rightarrow> world" where
  "run_task (AdmitFromWaitlist gid) w = snd (admitFromWaitlist gid None w)"
| "run_task (NotifyAdmitted gid uid eid name) w = snd (notify (admission_dto gid uid eid name) w)"
| "run_task (SendEmail to t title body) w = w"

definition run_deferred :: "world \<Rightarrow> world" where
  "run_deferred w = (case deferred w of [] \<Rightarrow> w | t # ts \<Rightarrow> run_task t (w\<lparr>deferred := ts\<rparr>))"

lemmas waitlist_handlers [handler_defs] =
  joinWaitlist_def leaveWaitlist_def admitFromWaitlist_def admitNextFromWaitlist_def

subsection \<open>Admission\<close>

text \<open>What a successful run of the loop leaves: one new member per entry, in the order of the
  entries and with consecutive payout orders, and nothing else changed among the memberships.\<close>

lemma admit_entries_members:
  assumes "admit_entries g k es w = (Inr as, w')"
  shows "map ad_userId as = map wl_userId es \<and> (\<exists>new. memberships w' = memberships w @ new \<and>
    map m_userId new = map wl_userId es \<and>
    map m_payoutOrder new = map (\<lambda>i. Some (k + int i)) [0..<length es] \<and>
    (\<forall>m \<in> set new. m_groupId m = g_id g \<and> m_status m = MS_ACTIVE))"
  using assms
proof (induction es arbitrary: k w as w')
  case Nil
  then show ?case by simp
next
  case (Cons e es)
  from Cons.prems obtain m w1 as' where
    ins: "insert_membership (new_membership (g_id g) (wl_userId e) (wl_walletAddress e) (Some k)) w = (Inr m, w1)"
    and rest: "admit_entries g (k + 1) es (save_waitlist (e\<lparr>wl_status := ADMITTED\<rparr>) w1) = (Inr as', w')"
    and as: "as = \<lparr>ad_userId = wl_userId e, ad_waitlistEntryId = wl_id e, ad_groupName = g_name g\<rparr> # as'"
    by (auto split: prod.splits sum.splits)
  from ins have w1: "memberships w1 = memberships w @ [m]"
    and m: "m_userId m = wl_userId e" "m_groupId m = g_id g" "m_status m = MS_ACTIVE" "m_payoutOrder m = Some k"
    by (auto simp: insert_membership_Inr new_membership_def)
  from Cons.IH [OF rest] obtain new where new:
    "memberships w' = memberships (save_waitlist (e\<lparr>wl_status := ADMITTED\<rparr>) w1) @ new"
    "map m_userId new = map wl_userId es"
    "map m_payoutOrder new = map (\<lambda>i. Some (k + 1 + int i)) [0..<length es]"
    "\<forall>m \<in> set new. m_groupId m = g_id g \<and> m_status m = MS_ACTIVE"
    and ids: "map ad_userId as' = map wl_userId es" by blast
  have shift: "map (\<lambda>i. Some (k + int i)) [0..<length (e # es)]
      = Some k # map (\<lambda>i. Some (k + 1 + int i)) [0..<length es]"
    by (simp add: upt_conv_Cons map_Suc_upt [symmetric] comp_def add.assoc del: upt_Suc)
  show ?case
    using new ids as w1 m shift
    by (intro conjI exI [of _ "m # new"]) (simp_all add: save_waitlist_def)
qed

lemma insert_membership_frame:
  "insert_membership m w = (r, w') \<Longrightarrow>
     groups w' = groups w \<and> users w' = users w \<and> waitlist w' = waitlist w \<and> deferred w' = deferred w"
  by (auto simp: insert_membership_def Let_def tick_uuid_def split: if_splits)

lemma save_waitlist_frame [simp]:
  "groups (save_waitlist e w) = groups w" "users (save_waitlist e w) = users w"
  "memberships (save_waitlist e w) = memberships w" "deferred (save_waitlist e w) = deferred w"
  by (simp_all add: save_waitlist_def)

lemma admit_entries_frame:
  "admit_entries g k es w = (r, w') \<Longrightarrow> groups w' = groups w \<and> users w' = users w \<and> deferred w' = deferred w"
proof (induction es arbitrary: k w r w')
  case (Cons e es)
  obtain x w1 where ins:
    "insert_membership (new_membership (g_id g) (wl_userId e) (wl_walletAddress e) (Some k)) w = (x, w1)"
    by (metis surj_pair)
  obtain y w2 where rest: "admit_entries g (k + 1) es (save_waitlist (e\<lparr>wl_status := ADMITTED\<rparr>) w1) = (y, w2)"
    by (metis surj_pair)
  have "w' = w1 \<or> w' = w2"
    using Cons.prems ins rest by (auto split: sum.splits)
  with insert_membership_frame [OF ins] Cons.IH [OF rest] show ?case by auto
qed simp

lemma save_waitlist_row:
  assumes "distinct (map wl_id (waitlist w))" "e \<in> set (waitlist w)"
  shows "waitlist (save_waitlist (e\<lparr>wl_status := s\<rparr>) w) =
    map (\<lambda>x. if wl_id x = wl_id e then x\<lparr>wl_status := s\<rparr> else x) (waitlist w)"
proof -
  have "x = e" if "x \<in> set (waitlist w)" "wl_id x = wl_id e" for x
    using assms that by (auto simp: distinct_map dest: inj_onD)
  then show ?thesis using assms(2) by (auto simp: save_waitlist_def save_row_def)
qed

lemma admit_entries_waitlist:
  assumes "admit_entries g k es w = (Inr as, w')" "distinct (map wl_id (waitlist w))"
    and "distinct (map wl_id es)" "set es \<subseteq> set (waitlist w)"
  shows "waitlist w' = map (\<lambda>x. if wl_id x \<in> wl_id ` set es then x\<lparr>wl_status := ADMITTED\<rparr> else x) (waitlist w)"
  using assms
proof (induction es arbitrary: k w as w')
  case Nil
  then show ?case by simp
next
  case (Cons e es)
  from Cons.prems(1) obtain m w1 as' where
    ins: "insert_membership (new_membership (g_id g) (wl_userId e) (wl_walletAddress e) (Some k)) w = (Inr m, w1)"
    and rest: "admit_entries g (k + 1) es (save_waitlist (e\<lparr>wl_status := ADMITTED\<rparr>) w1) = (Inr as', w')"
    by (auto split: prod.splits sum.splits)
  let ?f = "\<lambda>x. if wl_id x = wl_id e then x\<lparr>wl_status := ADMITTED\<rparr> else x"
  have w1: "waitlist w1 = waitlist w" using insert_membership_frame [OF ins] by simp
  have row: "waitlist (save_waitlist (e\<lparr>wl_status := ADMITTED\<rparr>) w1) = map ?f (waitlist w)"
    using Cons.prems(2,4) by (subst save_waitlist_row) (simp_all add: w1)
  have "distinct (map wl_id (map ?f (waitlist w)))"
    using Cons.prems(2) by (simp add: comp_def if_distrib [of wl_id] cong: if_cong)
  moreover have "set es \<subseteq> set (map ?f (waitlist w))"
  proof
    fix x assume x: "x \<in> set es"
    then have "wl_id x \<in> wl_id ` set es" by (rule imageI)
    then have "wl_id x \<noteq> wl_id e" using Cons.prems(3) by auto
    then have "x = ?f x" by simp
    with x Cons.prems(4) show "x \<in> set (map ?f (waitlist w))" by auto
  qed
  ultimately have "waitlist w' = map (\<lambda>x. if wl_id x \<in> wl_id ` set es then x\<lparr>wl_status := ADMITTED\<rparr> else x)
      (map ?f (waitlist w))"
    using Cons.IH [OF rest] Cons.prems(3) row by simp
  then show ?case using Cons.prems(3) by auto
qed

text \<open>The queue of a group: its waiting entries in the order they are admitted.\<close>

definition queue :: "uuid \<Rightarrow> world \<Rightarrow> waitlist_entry list" where
  "queue gid w = sort_key wl_position (waiting gid w)"

definition admitted_number :: "rosca_group \<Rightarrow> int option \<Rightarrow> world \<Rightarrow> nat" where
  "admitted_number g k w = nat (admission_limit (max 0 (g_maxMembers g - member_count (g_id g) w)) k)"

lemma admitFromWaitlistInTransaction_eq:
  assumes "find_group gid w = Some g"
  shows "admitFromWaitlistInTransaction gid k w =
    admit_entries g (case max_payout_order gid w of Some k \<Rightarrow> k + 1 | None \<Rightarrow> 0)
      (take (admitted_number g k w) (queue gid w)) w"
proof -
  have "g_id g = gid" using find_groupD [OF assms] by simp
  then show ?thesis
    using assms by (auto simp: admitFromWaitlistInTransaction_def admitted_number_def queue_def Let_def
        admission_limit_def max_def min_def split: option.splits)
qed

lemma set_queue [simp]: "set (queue gid w) = {e \<in> set (waitlist w). wl_groupId e = gid \<and> wl_status e = WAITING}"
  by (simp add: queue_def waiting_def)

lemma length_queue: "length (queue gid w) = length (waiting gid w)"
  by (simp add: queue_def)

lemma distinct_queue:
  assumes "keys_ok w" shows "distinct (map wl_id (queue gid w))"
proof -
  have "distinct (map wl_id (waiting gid w))"
    using assms by (simp add: keys_ok_def waiting_def distinct_map_filter)
  then have "distinct (waiting gid w)" "inj_on wl_id (set (waiting gid w))"
    by (simp_all add: distinct_map)
  then show ?thesis by (simp add: queue_def distinct_map)
qed

lemma filter_not_taken:
  assumes "distinct (map f xs)"
  shows "filter (\<lambda>x. f x \<notin> f ` set (take n xs)) xs = drop n xs"
  using assms
proof (induction xs arbitrary: n)
  case (Cons x xs)
  show ?case
  proof (cases n)
    case (Suc k)
    have "filter (\<lambda>y. f y \<notin> f ` set (take n (x # xs))) xs = filter (\<lambda>y. f y \<notin> f ` set (take k xs)) xs"
      using Cons.prems Suc by (intro filter_cong refl) (auto simp: image_iff)
    with Suc Cons show ?thesis by simp
  qed simp
qed simp

lemma schedule_frame:
  "groups (foldl (\<lambda>v a. scheduleAdmissionNotification a gid v) w as) = groups w"
  "users (foldl (\<lambda>v a. scheduleAdmissionNotification a gid v) w as) = users w"
  "memberships (foldl (\<lambda>v a. scheduleAdmissionNotification a gid v) w as) = memberships w"
  "waitlist (foldl (\<lambda>v a. scheduleAdmissionNotification a gid v) w as) = waitlist w"
  "uuid_count (foldl (\<lambda>v a. scheduleAdmissionNotification a gid v) w as) = uuid_count w"
  by (induction as arbitrary: w) (simp_all add: scheduleAdmissionNotification_def set_immediate_def)

lemma admitFromWaitlist_Inr:
  assumes "keys_ok w" "find_group gid w = Some g" "admitFromWaitlist gid k w = (Inr us, w')"
  obtains new where
    "us = map wl_userId (take (admitted_number g k w) (queue gid w))"
    "memberships w' = memberships w @ new" "map m_userId new = us"
    "map m_payoutOrder new = map (\<lambda>i. Some
       ((case max_payout_order gid w of Some k \<Rightarrow> k + 1 | None \<Rightarrow> 0) + int i)) [0..<length us]"
    "\<forall>m \<in> set new. m_groupId m = gid \<and> m_status m = MS_ACTIVE"
    "queue gid w' = drop (admitted_number g k w) (queue gid w)"
    "groups w' = groups w" "users w' = users w"
proof -
  let ?es = "take (admitted_number g k w) (queue gid w)"
  let ?k = "case max_payout_order gid w of Some k \<Rightarrow> k + 1 | None \<Rightarrow> 0"
  have gid: "g_id g = gid" using find_groupD [OF assms(2)] by simp
  from assms(3) obtain as w1 where "transaction (admitFromWaitlistInTransaction gid k) w = (Inr as, w1)"
    and us: "us = map ad_userId as" and w': "w' = foldl (\<lambda>v a. scheduleAdmissionNotification a gid v) w1 as"
    by (auto simp: admitFromWaitlist_def split: prod.splits sum.splits)
  then have run: "admit_entries g ?k ?es w = (Inr as, w1)"
    by (simp add: transaction_commits admitFromWaitlistInTransaction_eq [OF assms(2)])
  from admit_entries_members [OF run] obtain new where
    ids: "map ad_userId as = map wl_userId ?es" and new: "memberships w1 = memberships w @ new"
    "map m_userId new = map wl_userId ?es"
    "map m_payoutOrder new = map (\<lambda>i. Some (?k + int i)) [0..<length ?es]"
    "\<forall>m \<in> set new. m_groupId m = g_id g \<and> m_status m = MS_ACTIVE" by blast
  have dist: "distinct (map wl_id (queue gid w))" by (rule distinct_queue [OF assms(1)])
  then have "distinct (map wl_id ?es)" by (simp add: take_map [symmetric])
  moreover have "set ?es \<subseteq> set (waitlist w)" using set_take_subset [of "admitted_number g k w" "queue gid w"] by auto
  moreover have "distinct (map wl_id (waitlist w))" using assms(1) by (simp add: keys_ok_def)
  ultimately have wl: "waitlist w1 = map (\<lambda>x. if wl_id x \<in> wl_id ` set ?es then x\<lparr>wl_status := ADMITTED\<rparr> else x) (waitlist w)"
    by (intro admit_entries_waitlist [OF run]) auto
  have move: "filter P (map (\<lambda>x. if wl_id x \<in> S then x\<lparr>wl_status := ADMITTED\<rparr> else x) t)
      = filter (\<lambda>x. wl_id x \<notin> S) (filter P t)"
    if "\<And>x. P (x\<lparr>wl_status := ADMITTED\<rparr>) = False" for P S t
    using that by (induction t) auto
  then have "waiting gid w1 = filter (\<lambda>x. wl_id x \<notin> wl_id ` set ?es) (waiting gid w)"
    unfolding waiting_def wl by (intro move) simp
  then have "queue gid w1 = filter (\<lambda>x. wl_id x \<notin> wl_id ` set ?es) (queue gid w)"
    by (simp add: queue_def filter_sort)
  then have "queue gid w1 = drop (admitted_number g k w) (queue gid w)"
    by (simp add: filter_not_taken [OF dist])
  then have q: "queue gid w' = drop (admitted_number g k w) (queue gid w)"
    by (simp add: queue_def waiting_def w' schedule_frame)
  have len: "length us = length ?es" using us ids by (metis length_map)
  show thesis
    by (rule that [of new])
      (use us ids new gid q len admit_entries_frame [OF run] in \<open>simp_all add: w' schedule_frame\<close>)
qed

lemma keys_ok_save_waitlist:
  "keys_ok w \<Longrightarrow> e \<in> set (waitlist w) \<Longrightarrow> wl_id e' = wl_id e \<Longrightarrow> keys_ok (save_waitlist e' w)"
  by (auto simp: keys_ok_def save_waitlist_def distinct_save_row set_save_row used_uuid_def)

lemma admit_entries_keys_ok:
  assumes "admit_entries g k es w = (Inr as, w')" "keys_ok w" "wl_id ` set es \<subseteq> wl_id ` set (waitlist w)"
  shows "keys_ok w'"
  using assms
proof (induction es arbitrary: k w as w')
  case (Cons e es)
  from Cons.prems(1) obtain m w1 as' where
    ins: "insert_membership (new_membership (g_id g) (wl_userId e) (wl_walletAddress e) (Some k)) w = (Inr m, w1)"
    and rest: "admit_entries g (k + 1) es (save_waitlist (e\<lparr>wl_status := ADMITTED\<rparr>) w1) = (Inr as', w')"
    by (auto split: prod.splits sum.splits)
  have w1: "waitlist w1 = waitlist w" using insert_membership_frame [OF ins] by simp
  obtain x where x: "x \<in> set (waitlist w)" "wl_id x = wl_id e" using Cons.prems(3) by auto
  have "keys_ok (save_waitlist (e\<lparr>wl_status := ADMITTED\<rparr>) w1)"
    by (rule keys_ok_save_waitlist [OF keys_ok_insert_membership [OF Cons.prems(2) ins], of x])
      (simp_all add: x w1)
  moreover have "wl_id ` set es \<subseteq> wl_id ` set (waitlist (save_waitlist (e\<lparr>wl_status := ADMITTED\<rparr>) w1))"
    using Cons.prems(3) by (auto simp: save_waitlist_def image_key_save_row w1)
  ultimately show ?case by (intro Cons.IH [OF rest])
qed simp

lemma admitFromWaitlist_Inl: "admitFromWaitlist gid k w = (Inl e, w') \<Longrightarrow> w' = w"
  by (auto simp: admitFromWaitlist_def dest: transaction_rolls_back split: prod.splits sum.splits)

lemma admitFromWaitlist_no_group: "find_group gid w = None \<Longrightarrow> admitFromWaitlist gid k w = (Inr [], w)"
  by (simp add: admitFromWaitlist_def transaction_def admitFromWaitlistInTransaction_def)

lemma admitFromWaitlist_keys_ok:
  assumes "keys_ok w" "admitFromWaitlist gid k w = (r, w')"
  shows "keys_ok w'"
proof (cases r)
  case (Inl e)
  then have "w' = w" using assms(2) admitFromWaitlist_Inl by blast
  with assms(1) show ?thesis by simp
next
  case (Inr us)
  show ?thesis
  proof (cases "find_group gid w")
    case None
    then show ?thesis using assms admitFromWaitlist_no_group by simp
  next
    case (Some g)
    from assms(2) Inr obtain as w1 where "transaction (admitFromWaitlistInTransaction gid k) w = (Inr as, w1)"
      and w': "w' = foldl (\<lambda>v a. scheduleAdmissionNotification a gid v) w1 as"
      by (auto simp: admitFromWaitlist_def split: prod.splits sum.splits)
    then have run: "admit_entries g (case max_payout_order gid w of Some k \<Rightarrow> k + 1 | None \<Rightarrow> 0)
        (take (admitted_number g k w) (queue gid w)) w = (Inr as, w1)"
      by (simp add: transaction_commits admitFromWaitlistInTransaction_eq [OF Some])
    have "set (take (admitted_number g k w) (queue gid w)) \<subseteq> set (waitlist w)"
      using set_take_subset [of "admitted_number g k w" "queue gid w"] by auto
    then have "keys_ok w1"
      using assms(1) by (intro admit_entries_keys_ok [OF run] image_mono)
    then show ?thesis
      by (rule keys_ok_cong [rotated -1]) (simp_all add: w' schedule_frame)
  qed
qed

lemma admitFromWaitlist_contiguous:
  assumes "keys_ok w" "find_group gid w = Some g" "contiguous_orders gid w"
    and "admitFromWaitlist gid k w = (Inr us, w')"
  shows "contiguous_orders gid w'"
proof -
  from admitFromWaitlist_Inr [OF assms(1,2,4)] obtain new where
    ms: "memberships w' = memberships w @ new" "map m_userId new = us"
    and ord: "map m_payoutOrder new = map (\<lambda>i. Some
       ((case max_payout_order gid w of Some k \<Rightarrow> k + 1 | None \<Rightarrow> 0) + int i)) [0..<length us]"
    and grp: "\<forall>m \<in> set new. m_groupId m = gid \<and> m_status m = MS_ACTIVE" by metis
  let ?n = "member_count gid w"
  have ord': "map m_payoutOrder new = map (\<lambda>i. Some (?n + int i)) [0..<length us]"
    using ord max_payout_order_contiguous [OF assms(3)] by simp
  have "filter (\<lambda>m. m_groupId m = gid) new = new" using grp by (simp add: filter_id_conv)
  then have members: "group_members gid w' = group_members gid w @ new" by (simp add: group_members_def ms(1))
  have "length new = length us" using ms(2) by (metis length_map)
  then have count: "member_count gid w' = ?n + int (length us)"
    using members by (simp add: member_count_length)
  have mf: "List.map_filter m_payoutOrder new = map the (map m_payoutOrder new)"
    if "\<forall>m \<in> set new. m_payoutOrder m \<noteq> None" for new
    using that by (simp add: map_filter_def filter_id_conv)
  have some: "\<forall>m \<in> set new. m_payoutOrder m \<noteq> None"
  proof
    fix m assume "m \<in> set new"
    then have "m_payoutOrder m \<in> set (map m_payoutOrder new)" by simp
    then show "m_payoutOrder m \<noteq> None" unfolding ord' by auto
  qed
  have "List.map_filter m_payoutOrder new = map (\<lambda>i. ?n + int i) [0..<length us]"
    unfolding mf [OF some] ord' by (simp add: comp_def)
  then have app: "orders gid w' = orders gid w @ map (\<lambda>i. ?n + int i) [0..<length us]"
    by (simp add: orders_def members map_filter_def)
  have "(\<lambda>i. ?n + int i) ` {0..<length us} = {?n ..< ?n + int (length us)}"
  proof (intro set_eqI iffI)
    fix x assume "x \<in> {?n ..< ?n + int (length us)}"
    then have "x = ?n + int (nat (x - ?n))" "nat (x - ?n) \<in> {0..<length us}" by auto
    then show "x \<in> (\<lambda>i. ?n + int i) ` {0..<length us}" by blast
  qed auto
  moreover have "{0 ..< ?n} \<union> {?n ..< ?n + int (length us)} = {0 ..< ?n + int (length us)}"
    by (rule ivl_disj_un) simp_all
  ultimately have "set (orders gid w') = {0 ..< member_count gid w'}"
    using assms(3) by (simp add: app count contiguous_orders_def)
  moreover have "distinct (orders gid w')"
    using assms(3) by (auto simp: app contiguous_orders_def distinct_map inj_on_def)
  ultimately show ?thesis using assms(3) some members by (auto simp: contiguous_orders_def)
qed

text \<open>
  C10: Admission fills free places first come first served and never beyond capacity. A run that
  succeeds admits the users at the front of the group's queue in queue order, as many as there
  are free places, waiting users and (when given) \<open>maxToAdmit\<close> allows; they become members and
  leave the queue, the others stay in it in their order, and the group ends with at most
  \<open>maxMembers\<close> members if anybody was admitted. The rows of the new members are added behind the others, in
  queue order, with the payout orders that follow the largest one of the group, and orders that were
  0, ..., n - 1 go on without a gap.
\<close>

theorem admitFromWaitlist_fifo_within_capacity:
  assumes "keys_ok w" "find_group gid w = Some g" "admitFromWaitlist gid k w = (Inr us, w')"
  shows "us = map wl_userId (take (length us) (queue gid w)) \<and>
    queue gid w' = drop (length us) (queue gid w) \<and>
    length us = min (nat (admission_limit (max 0 (g_maxMembers g - member_count gid w)) k)) (length (queue gid w)) \<and>
    member_count gid w' = member_count gid w + int (length us) \<and>
    (us \<noteq> [] \<longrightarrow> member_count gid w' \<le> g_maxMembers g) \<and>
    (\<forall>u \<in> set us. find_membership gid u w' \<noteq> None) \<and>
    (\<exists>new. memberships w' = memberships w @ new \<and> map m_userId new = us \<and>
       (\<forall>m \<in> set new. m_groupId m = gid \<and> m_status m = MS_ACTIVE) \<and>
       map m_payoutOrder new = map (\<lambda>i. Some ((case max_payout_order gid w of Some k \<Rightarrow> k + 1 | None \<Rightarrow> 0) + int i)) [0..<length us]) \<and>
    (contiguous_orders gid w \<longrightarrow> contiguous_orders gid w')"
proof -
  from admitFromWaitlist_Inr [OF assms] obtain new where
    us: "us = map wl_userId (take (admitted_number g k w) (queue gid w))"
    and ms: "memberships w' = memberships w @ new" "map m_userId new = us"
      "\<forall>m \<in> set new. m_groupId m = gid \<and> m_status m = MS_ACTIVE"
    and ord: "map m_payoutOrder new = map (\<lambda>i. Some
       ((case max_payout_order gid w of Some k \<Rightarrow> k + 1 | None \<Rightarrow> 0) + int i)) [0..<length us]"
    and q: "queue gid w' = drop (admitted_number g k w) (queue gid w)" by blast
  have gid: "g_id g = gid" using find_groupD [OF assms(2)] by simp
  have len: "length us = min (admitted_number g k w) (length (queue gid w))" using us by simp
  have "take (admitted_number g k w) (queue gid w) = take (length us) (queue gid w)"
    and "drop (admitted_number g k w) (queue gid w) = drop (length us) (queue gid w)"
    unfolding len by (simp_all add: min_def)
  with us q have us': "us = map wl_userId (take (length us) (queue gid w))"
    and q': "queue gid w' = drop (length us) (queue gid w)" by (simp_all only:)
  have "count_rows (\<lambda>m. m_groupId m = gid) new = int (length new)"
    using ms(3) by (induction new) auto
  moreover have "length new = length us" using ms(2) by (metis length_map)
  ultimately have count: "member_count gid w' = member_count gid w + int (length us)"
    using ms(1) by (simp add: member_count_def)
  have "int (length us) \<le> admission_limit (max 0 (g_maxMembers g - member_count gid w)) k \<or> us = []"
    using len gid by (auto simp: admitted_number_def min_def split: if_splits)
  then have few: "us \<noteq> [] \<Longrightarrow> int (length us) \<le> g_maxMembers g - member_count gid w"
    by (auto simp: admission_limit_def max_def min_def split: option.splits if_splits)
  have cap: "us \<noteq> [] \<longrightarrow> member_count gid w' \<le> g_maxMembers g"
  proof
    assume "us \<noteq> []"
    from few [OF this] count show "member_count gid w' \<le> g_maxMembers g" by linarith
  qed
  have found: "find_membership gid u w' \<noteq> None" if "u \<in> set us" for u
    using that ms(3) unfolding find_membership_None ms(1) ms(2) [symmetric] by auto
  show ?thesis
    by (intro conjI ballI impI us' q' len [unfolded admitted_number_def gid] count cap found exI [of _ new] ms(1,2) ord
        admitFromWaitlist_contiguous [OF assms(1,2) _ assms(3)]) (use ms(3) in auto)
qed

subsection \<open>Positions in the queue\<close>

text \<open>The waiting users of a group hold the positions 1, ..., n.\<close>

definition contiguous_positions :: "uuid \<Rightarrow> world \<Rightarrow> bool" where
  "contiguous_positions gid w \<longleftrightarrow>
     map wl_position (queue gid w) = map int [1..<Suc (length (queue gid w))]"

lemma insort_key_cong:
  "(\<And>y. y \<in> set ys \<Longrightarrow> (f x \<le> f y) = (g x \<le> g y)) \<Longrightarrow> insort_key f x ys = insort_key g x ys"
  by (induction ys) auto

lemma sort_key_cong_le:
  "(\<And>x y. x \<in> set xs \<Longrightarrow> y \<in> set xs \<Longrightarrow> (f x \<le> f y) = (g x \<le> g y)) \<Longrightarrow> sort_key f xs = sort_key g xs"
proof (induction xs)
  case (Cons x xs)
  then have "insort_key f x (sort_key g xs) = insort_key g x (sort_key g xs)"
    by (intro insort_key_cong) simp
  with Cons show ?case by simp
qed simp

lemma sort_key_snoc: "(\<And>y. y \<in> set xs \<Longrightarrow> f y \<le> f x) \<Longrightarrow> sort_key f (xs @ [x]) = sort_key f xs @ [x]"
proof (induction xs)
  case (Cons y xs)
  have "insort_key f y (ys @ [x]) = insort_key f y ys @ [x]" for ys
    using Cons.prems by (induction ys) auto
  with Cons show ?case by simp
qed simp

text \<open>Closing the gap after position \<open>p\<close>.\<close>

lemma close_position_gap:
  "1 \<le> p \<Longrightarrow> p \<le> int n \<Longrightarrow>
     map (\<lambda>k. if p < k then k - 1 else k) (filter (\<lambda>k. k \<noteq> p) (map int [1..<Suc n])) = map int [1..<n]"
proof (induction n)
  case (Suc n)
  show ?case
  proof (cases "p = int (Suc n)")
    case True
    then have "filter (\<lambda>k. k \<noteq> p) (map int [1..<Suc n]) = map int [1..<Suc n]"
      by (intro filter_True) auto
    moreover have "map (\<lambda>k. if p < k then k - 1 else k) (map int [1..<Suc n]) = map int [1..<Suc n]"
      using True by auto
    ultimately show ?thesis using True by (simp del: map_map)
  next
    case False
    with Suc show ?thesis by auto
  qed
qed simp

lemma contiguous_positions_bounds:
  assumes "contiguous_positions gid w" "e \<in> set (queue gid w)"
  shows "1 \<le> wl_position e \<and> wl_position e \<le> int (length (queue gid w))"
proof -
  have "wl_position e \<in> set (map wl_position (queue gid w))" using assms(2) by simp
  then show ?thesis using assms(1) unfolding contiguous_positions_def by auto
qed

lemma contiguous_positions_inj:
  assumes "contiguous_positions gid w" "e \<in> set (queue gid w)" "x \<in> set (queue gid w)"
    and "wl_position x = wl_position e"
  shows "x = e"
proof -
  have "distinct (map wl_position (queue gid w))"
    using assms(1) unfolding contiguous_positions_def by (simp add: distinct_map inj_on_def)
  then have "inj_on wl_position (set (queue gid w))" by (simp add: distinct_map)
  from inj_onD [OF this assms(4,3,2)] show ?thesis .
qed

definition move_up :: "int \<Rightarrow> waitlist_entry \<Rightarrow> waitlist_entry" where
  "move_up p e = (if wl_position e > p then e\<lparr>wl_position := wl_position e - 1\<rparr> else e)"

lemma move_up_frame [simp]:
  "wl_id (move_up p e) = wl_id e" "wl_groupId (move_up p e) = wl_groupId e"
  "wl_userId (move_up p e) = wl_userId e" "wl_status (move_up p e) = wl_status e"
  "wl_position (move_up p e) = (if p < wl_position e then wl_position e - 1 else wl_position e)"
  by (simp_all add: move_up_def)

lemma leaveWaitlist_Inr:
  assumes "keys_ok w" "leaveWaitlist gid uid w = (Inr u, w')"
  obtains e where "e \<in> set (queue gid w)" "wl_userId e = uid"
    "waiting gid w' = map (move_up (wl_position e)) (filter (\<lambda>x. wl_id x \<noteq> wl_id e) (waiting gid w))"
    "memberships w' = memberships w" "groups w' = groups w" "map wl_id (waitlist w') = map wl_id (waitlist w)"
    "uuid_count w' = uuid_count w"
proof -
  from assms(2) obtain e where e: "List.find (\<lambda>e. wl_userId e = uid) (waiting gid w) = Some e"
    and w': "w' = (save_waitlist (e\<lparr>wl_status := CANCELLED\<rparr>) w)\<lparr>waitlist := update_rows
      (\<lambda>x. wl_groupId x = gid \<and> wl_status x = WAITING \<and> wl_position x > wl_position e)
      (\<lambda>x. x\<lparr>wl_position := wl_position x - 1\<rparr>) (waitlist (save_waitlist (e\<lparr>wl_status := CANCELLED\<rparr>) w))\<rparr>"
    by (auto simp: leaveWaitlist_def Let_def split: option.splits)
  from find_Some_mem [OF e] have mem: "e \<in> set (queue gid w)" "wl_userId e = uid"
    and in_table: "e \<in> set (waitlist w)" by (auto simp: waiting_def)
  have dist: "distinct (map wl_id (waitlist w))" using assms(1) by (simp add: keys_ok_def)
  note row = save_waitlist_row [OF dist in_table, of CANCELLED]
  have "filter (\<lambda>x. wl_groupId x = gid \<and> wl_status x = WAITING)
      (update_rows (\<lambda>x. wl_groupId x = gid \<and> wl_status x = WAITING \<and> wl_position x > p)
        (\<lambda>x. x\<lparr>wl_position := wl_position x - 1\<rparr>)
        (map (\<lambda>x. if wl_id x = i then x\<lparr>wl_status := CANCELLED\<rparr> else x) t))
    = map (move_up p) (filter (\<lambda>x. wl_id x \<noteq> i) (filter (\<lambda>x. wl_groupId x = gid \<and> wl_status x = WAITING) t))"
    for p i t by (induction t) (auto simp: update_rows_def move_up_def)
  then have wait: "waiting gid w' = map (move_up (wl_position e)) (filter (\<lambda>x. wl_id x \<noteq> wl_id e) (waiting gid w))"
    unfolding waiting_def w' by (simp add: row)
  have ids: "map wl_id (waitlist w') = map wl_id (waitlist w)"
    by (simp add: w' row map_update_rows comp_def if_distrib [of wl_id] cong: if_cong)
  have cnt: "uuid_count w' = uuid_count w" by (simp add: w' save_waitlist_def)
  show thesis by (rule that [OF mem wait _ _ ids cnt]) (simp_all add: w')
qed

text \<open>
  C27: Leaving the waitlist keeps it a gap-free FIFO queue. If the waiting users of a group hold
  positions 1, ..., n and one of them leaves, the others keep their order and hold positions
  1, ..., n - 1; the memberships of the group do not change.
\<close>

theorem leaveWaitlist_keeps_queue:
  assumes "keys_ok w" "contiguous_positions gid w" "leaveWaitlist gid uid w = (Inr u, w')"
  shows "contiguous_positions gid w' \<and> memberships w' = memberships w \<and>
    (\<exists>e \<in> set (queue gid w). wl_userId e = uid \<and>
       map wl_id (queue gid w') = filter (\<lambda>i. i \<noteq> wl_id e) (map wl_id (queue gid w)))"
proof -
  from leaveWaitlist_Inr [OF assms(1,3)] obtain e where e: "e \<in> set (queue gid w)" "wl_userId e = uid"
    and wait: "waiting gid w' = map (move_up (wl_position e)) (filter (\<lambda>x. wl_id x \<noteq> wl_id e) (waiting gid w))"
    and ms: "memberships w' = memberships w" by blast
  let ?p = "wl_position e" and ?rest = "filter (\<lambda>x. wl_id x \<noteq> wl_id e) (waiting gid w)"
  let ?n = "length (queue gid w)"
  have in_queue: "x \<in> set (queue gid w)" if "x \<in> set ?rest" for x
    using that by (auto simp: waiting_def)
  have other: "wl_position x \<noteq> ?p" if "x \<in> set ?rest" for x
    using contiguous_positions_inj [OF assms(2) e(1) in_queue [OF that]] that by auto
  have "(wl_position (move_up ?p x) \<le> wl_position (move_up ?p y)) = (wl_position x \<le> wl_position y)"
    if "x \<in> set ?rest" "y \<in> set ?rest" for x y
    using other [OF that(1)] other [OF that(2)] by simp linarith
  then have "sort_key (wl_position \<circ> move_up ?p) ?rest = sort_key wl_position ?rest"
    by (intro sort_key_cong_le) simp
  then have q: "queue gid w' = map (move_up ?p) (filter (\<lambda>x. wl_id x \<noteq> wl_id e) (queue gid w))"
    by (simp add: queue_def wait sort_key_map filter_sort)
  have same: "wl_id x \<noteq> wl_id e \<longleftrightarrow> wl_position x \<noteq> ?p" if "x \<in> set (queue gid w)" for x
  proof -
    have "distinct (map wl_id (queue gid w))" by (rule distinct_queue [OF assms(1)])
    then have "inj_on wl_id (set (queue gid w))" by (simp add: distinct_map)
    from inj_on_eq_iff [OF this that e(1)] contiguous_positions_inj [OF assms(2) e(1) that]
    show ?thesis by metis
  qed
  have "map wl_position (queue gid w')
      = map (\<lambda>k. if ?p < k then k - 1 else k) (map wl_position (filter (\<lambda>x. wl_id x \<noteq> wl_id e) (queue gid w)))"
    by (simp add: q comp_def)
  also have "filter (\<lambda>x. wl_id x \<noteq> wl_id e) (queue gid w) = filter (\<lambda>x. wl_position x \<noteq> ?p) (queue gid w)"
    by (intro filter_cong refl same)
  also have "map wl_position \<dots> = filter (\<lambda>k. k \<noteq> ?p) (map wl_position (queue gid w))"
    by (simp add: filter_map comp_def)
  also have "\<dots> = filter (\<lambda>k. k \<noteq> ?p) (map int [1..<Suc ?n])"
    using assms(2) by (simp add: contiguous_positions_def)
  also have "map (\<lambda>k. if ?p < k then k - 1 else k) \<dots> = map int [1..<?n]"
    using contiguous_positions_bounds [OF assms(2) e(1)] by (intro close_position_gap) simp_all
  finally have pos: "map wl_position (queue gid w') = map int [1..<?n]" .
  have "0 < ?n" using e(1) by (cases "queue gid w") auto
  moreover have "length (queue gid w') = ?n - 1" using arg_cong [OF pos, of length] by simp
  ultimately have "contiguous_positions gid w'" using pos by (simp add: contiguous_positions_def)
  moreover have "map wl_id (queue gid w') = filter (\<lambda>i. i \<noteq> wl_id e) (map wl_id (queue gid w))"
    by (simp add: q filter_map comp_def)
  ultimately show ?thesis using ms e by blast
qed

lemma joinWaitlist_Inr:
  assumes "joinWaitlist mx gid uid a w = (Inr p, w')"
  obtains g e where "find_group gid w = Some g" "find_membership gid uid w = None"
    "g_maxMembers g \<le> member_count gid w" "int (length (waiting gid w)) < mx"
    "\<forall>x \<in> set (waitlist w). \<not> (wl_groupId x = gid \<and> wl_userId x = uid)"
    "wl_groupId e = gid" "wl_userId e = uid" "wl_status e = WAITING" "wl_id e = fresh_uuid w"
    "wl_position e = int (length (waiting gid w)) + 1" "p = wl_position e"
    "w' = (tick_uuid w)\<lparr>waitlist := waitlist w @ [e]\<rparr>"
proof -
  let ?n = "int (length (waiting gid w))"
  let ?e0 = "\<lparr>wl_id = [], wl_groupId = gid, wl_userId = uid, wl_walletAddress = a,
    wl_position = ?n + 1, wl_status = WAITING, wl_createdAt = 0\<rparr>"
  from assms obtain g e where g: "find_group gid w = Some g" "find_membership gid uid w = None"
    "g_maxMembers g \<le> member_count gid w" "?n < mx" "p = ?n + 1"
    and ins: "insert_waitlist ?e0 w = (Inr e, w')"
    by (auto simp: joinWaitlist_def Let_def split: option.splits if_splits prod.splits sum.splits)
  from ins have "\<forall>x \<in> set (waitlist w). \<not> (wl_groupId x = gid \<and> wl_userId x = uid)"
    and "e = ?e0\<lparr>wl_id := fresh_uuid w, wl_createdAt := now w\<rparr>"
    and "w' = (tick_uuid w)\<lparr>waitlist := waitlist w @ [e]\<rparr>"
    by (auto simp: insert_waitlist_def Let_def split: if_splits)
  then show thesis using g by (intro that [of g e]) simp_all
qed

text \<open>Joining a gap-free queue appends to it.\<close>

lemma joinWaitlist_appends:
  assumes "contiguous_positions gid w" "joinWaitlist mx gid uid a w = (Inr p, w')"
  shows "contiguous_positions gid w' \<and> p = int (length (queue gid w')) \<and> p \<le> mx \<and>
    map wl_userId (queue gid w') = map wl_userId (queue gid w) @ [uid]"
proof -
  from assms(2) obtain e where e: "wl_groupId e = gid" "wl_userId e = uid" "wl_status e = WAITING"
    "wl_position e = int (length (waiting gid w)) + 1" "p = wl_position e"
    and w': "w' = (tick_uuid w)\<lparr>waitlist := waitlist w @ [e]\<rparr>" and lt: "int (length (waiting gid w)) < mx"
    by (rule joinWaitlist_Inr)
  have "waiting gid w' = waiting gid w @ [e]" using e by (simp add: waiting_def w' tick_uuid_def)
  moreover have "wl_position x \<le> wl_position e" if "x \<in> set (waiting gid w)" for x
    using contiguous_positions_bounds [OF assms(1), of x] that e
    by (auto simp: length_queue waiting_def)
  ultimately have q: "queue gid w' = queue gid w @ [e]"
    by (simp add: queue_def sort_key_snoc del: sort_key_simps)
  then show ?thesis
    using assms(1) e lt by (simp add: contiguous_positions_def length_queue)
qed

lemma joinWaitlist_keys_ok:
  assumes "keys_ok w" "joinWaitlist mx gid uid a w = (r, w')"
  shows "keys_ok w'"
proof (cases r)
  case (Inl e)
  then have "w' = w"
    using assms(2) by (auto simp: joinWaitlist_def insert_waitlist_def Let_def split: option.splits if_splits)
  with assms(1) show ?thesis by simp
next
  case (Inr p)
  with assms(2) obtain e where e: "wl_id e = fresh_uuid w"
    and w': "w' = (tick_uuid w)\<lparr>waitlist := waitlist w @ [e]\<rparr>" by (auto elim: joinWaitlist_Inr)
  have "\<forall>x \<in> set (waitlist w). used_uuid w (wl_id x)" using assms(1) by (simp add: keys_ok_def)
  then have "fresh_uuid w \<notin> wl_id ` set (waitlist w)"
    using fresh_uuid_unused [of w] by (metis imageE)
  moreover have "used_uuid w' u" if "used_uuid w u \<or> u = fresh_uuid w" for u
    using that used_uuid_tick [of w u] by (simp add: w' used_uuid_def)
  ultimately show ?thesis
    using assms(1) e unfolding keys_ok_def by (simp add: w' frame_simps)
qed

lemma leaveWaitlist_keys_ok:
  assumes "keys_ok w" "leaveWaitlist gid uid w = (r, w')"
  shows "keys_ok w'"
proof (cases r)
  case (Inl e)
  then have "w' = w"
    using assms(2) by (auto simp: leaveWaitlist_def Let_def split: option.splits)
  with assms(1) show ?thesis by simp
next
  case (Inr u)
  with assms(2) have "leaveWaitlist gid uid w = (Inr u, w')" by simp
  from leaveWaitlist_Inr [OF assms(1) this] have eq: "memberships w' = memberships w" "groups w' = groups w"
    "map wl_id (waitlist w') = map wl_id (waitlist w)" "uuid_count w' = uuid_count w" by blast+
  then have "wl_id ` set (waitlist w') = wl_id ` set (waitlist w)" by (metis list.set_map)
  moreover have "(\<forall>e \<in> set (waitlist w'). used_uuid w' (wl_id e)) \<longleftrightarrow> (\<forall>i \<in> wl_id ` set (waitlist w'). used_uuid w i)"
    using eq(4) by (auto simp: used_uuid_def)
  ultimately show ?thesis
    using assms(1) eq unfolding keys_ok_def by (simp add: used_uuid_def)
qed

text \<open>
  After an admission the positions are not renumbered, so a later newcomer does not go to the
  end of the queue. If positions were 1, ..., n and some users but not all were admitted, the next
  user to join gets a position that a waiting user already holds or has passed; and if more users
  were admitted than still wait, the newcomer is first in the queue.
\<close>

theorem newcomer_overtakes_after_admission:
  assumes "keys_ok w" "find_group gid w = Some g" "contiguous_positions gid w"
    and "admitFromWaitlist gid k w = (Inr us, w1)" "us \<noteq> []" "queue gid w1 \<noteq> []"
    and "joinWaitlist mx gid uid a w1 = (Inr p, w2)"
  shows "p \<le> wl_position (last (queue gid w1)) \<and>
    (length (queue gid w1) < length us \<longrightarrow> wl_userId (hd (queue gid w2)) = uid)"
proof -
  note fifo = admitFromWaitlist_Inr [OF assms(1,2,4)]
  obtain n where q: "queue gid w1 = drop n (queue gid w)" and us: "us = map wl_userId (take n (queue gid w))"
    by (rule fifo) blast
  let ?q = "queue gid w1"
  have n: "length us = n" "n < length (queue gid w)"
    using assms(6) q us by (simp_all add: min_def)
  then have len: "length ?q = length (queue gid w) - length us" using q by simp
  have "map wl_position ?q = drop n (map int [1..<Suc (length (queue gid w))])"
    using assms(3) by (simp only: contiguous_positions_def q drop_map [symmetric])
  then have pos: "map wl_position ?q = map int [Suc n..<Suc (length (queue gid w))]"
    by (simp add: drop_map del: upt_Suc)
  from assms(7) obtain e where e: "wl_groupId e = gid" "wl_userId e = uid" "wl_status e = WAITING"
    "wl_position e = int (length (waiting gid w1)) + 1" "p = wl_position e"
    and w2: "w2 = (tick_uuid w1)\<lparr>waitlist := waitlist w1 @ [e]\<rparr>" by (rule joinWaitlist_Inr)
  have p: "p = int (length ?q) + 1" using e by (simp add: length_queue)
  have "wl_position (last ?q) = last (map wl_position ?q)" using assms(6) by (simp add: last_map)
  also have "\<dots> = int (length (queue gid w))" using n by (simp add: pos)
  finally have "p \<le> wl_position (last ?q)" using p len n assms(5) by (cases us) simp_all
  moreover have "wl_userId (hd (queue gid w2)) = uid" if more: "length ?q < length us"
  proof -
    have app: "waiting gid w2 = waiting gid w1 @ [e]" using e by (simp add: waiting_def w2 tick_uuid_def)
    have early: "p < wl_position x" if "x \<in> set ?q" for x
    proof -
      have "wl_position x \<in> set (map wl_position ?q)" using that by simp
      then have "int (Suc n) \<le> wl_position x" unfolding pos by auto
      with p more n show ?thesis by simp
    qed
    have members: "set (queue gid w2) = insert e (set ?q)" by (simp add: queue_def app del: set_queue)
    then have mem: "e \<in> set (queue gid w2)" by simp
    have rest: "x = e \<or> p < wl_position x" if "x \<in> set (queue gid w2)" for x
      using that early members by (simp only: insert_iff) blast
    have "sorted (map wl_position (queue gid w2))" by (simp add: queue_def)
    moreover have ne: "queue gid w2 \<noteq> []" using mem by (auto simp del: set_queue)
    ultimately have "wl_position (hd (queue gid w2)) \<le> wl_position e"
      using mem by (cases "queue gid w2") (auto simp del: set_queue)
    with rest [OF hd_in_set [OF ne]] e(5) have "hd (queue gid w2) = e" by auto
    with e(2) show ?thesis by simp
  qed
  ultimately show ?thesis by blast
qed

text \<open>
  A waiting user who becomes a member directly blocks the waitlist. If the first user of the
  queue joins the group through \<open>addMember\<close> (which does not look at the waitlist), then as long
  as the group has a free place every admission fails on the unique constraint of the
  memberships, rolls back and admits nobody.
\<close>

theorem direct_join_blocks_admission:
  assumes "keys_ok w" "queue gid w \<noteq> []"
    and "addMember gid (wl_userId (hd (queue gid w))) a w = (Inr m, w1)"
    and "find_group gid w1 = Some g" "member_count gid w1 < g_maxMembers g"
  shows "admitFromWaitlist gid None w1 = (Inl (UniqueViolation ''memberships_groupId_userId''), w1)"
proof -
  let ?e = "hd (queue gid w)"
  have add: "memberships w1 = memberships w @ [m]" "waitlist w1 = waitlist w"
    "m_groupId m = gid" "m_userId m = wl_userId ?e"
    using assms(3) by (auto simp: addMember_Inr new_membership_def frame_simps elim!: addMember_tx_Inr)
  have gid: "g_id g = gid" using find_groupD [OF assms(4)] by simp
  have q: "queue gid w1 = queue gid w" by (simp add: queue_def waiting_def add(2))
  have "0 < admitted_number g None w1"
    using assms(5) gid by (simp add: admitted_number_def admission_limit_def)
  with assms(2) obtain es where es: "take (admitted_number g None w1) (queue gid w1) = ?e # es"
    unfolding q by (cases "queue gid w"; cases "admitted_number g None w1") auto
  have "insert_membership (new_membership gid (wl_userId ?e) (wl_walletAddress ?e) (Some k)) w1
      = (Inl (UniqueViolation ''memberships_groupId_userId''), w1)" for k
    using add by (auto simp: insert_membership_def new_membership_def)
  then have "admitFromWaitlistInTransaction gid None w1 = (Inl (UniqueViolation ''memberships_groupId_userId''), w1)"
    by (simp add: admitFromWaitlistInTransaction_eq [OF assms(4)] es gid)
  then show ?thesis by (simp add: admitFromWaitlist_def transaction_def)
qed

text \<open>A user who has left the waitlist of a group cannot join it again: the row stays.\<close>

lemma leaveWaitlist_no_return:
  assumes "keys_ok w" "leaveWaitlist gid uid w = (Inr u, w')"
  shows "\<exists>x. joinWaitlist mx gid uid a w' = (Inl x, w')"
proof -
  from assms(2) obtain e where e: "List.find (\<lambda>e. wl_userId e = uid) (waiting gid w) = Some e"
    and w': "w' = (save_waitlist (e\<lparr>wl_status := CANCELLED\<rparr>) w)\<lparr>waitlist := update_rows
      (\<lambda>x. wl_groupId x = gid \<and> wl_status x = WAITING \<and> wl_position x > wl_position e)
      (\<lambda>x. x\<lparr>wl_position := wl_position x - 1\<rparr>) (waitlist (save_waitlist (e\<lparr>wl_status := CANCELLED\<rparr>) w))\<rparr>"
    by (auto simp: leaveWaitlist_def Let_def split: option.splits)
  have "wl_groupId e = gid" "wl_userId e = uid" using find_Some_mem [OF e] by (auto simp: waiting_def)
  then have "e\<lparr>wl_status := CANCELLED\<rparr> \<in> set (waitlist w')"
    by (simp add: w' set_update_rows save_waitlist_def set_save_row)
  with \<open>wl_groupId e = gid\<close> \<open>wl_userId e = uid\<close>
  have "\<exists>x \<in> set (waitlist w'). wl_groupId x = gid \<and> wl_userId x = uid"
    by (intro bexI [of _ "e\<lparr>wl_status := CANCELLED\<rparr>"]) simp_all
  then have "fst (joinWaitlist mx gid uid a w') \<noteq> Inr p" for p
    by (cases "joinWaitlist mx gid uid a w'") (auto elim!: joinWaitlist_Inr)
  then show ?thesis
    by (cases "joinWaitlist mx gid uid a w'"; cases "fst (joinWaitlist mx gid uid a w')")
      (auto simp: joinWaitlist_def insert_waitlist_def Let_def split: option.splits if_splits)
qed

subsection \<open>Witnesses\<close>

definition demo_entry :: "nat \<Rightarrow> string \<Rightarrow> wallet \<Rightarrow> int \<Rightarrow> waitlist_entry" where
  "demo_entry i u a pos = \<lparr>wl_id = show_nat i, wl_groupId = ''g'', wl_userId = u, wl_walletAddress = a,
     wl_position = pos, wl_status = WAITING, wl_createdAt = 0\<rparr>"

text \<open>A group of three places with \<open>n\<close> members, and the users 1, 2 and 3 waiting in this order.\<close>

definition demo_wait :: "membership list \<Rightarrow> world" where
  "demo_wait ms = (demo_world GS_PENDING 0 ms)
     \<lparr>waitlist := [demo_entry 5 ''u1'' ''w1'' 1, demo_entry 6 ''u2'' ''w2'' 2, demo_entry 7 ''u3'' ''w3'' 3]\<rparr>"

lemmas demo_wait_defs = demo_wait_def demo_entry_def demo_defs

lemma keys_ok_demo_wait: "keys_ok (demo_wait [demo_member 0 ''u0'' ''w0'' (Some 0)])"
  by (simp add: keys_ok_def demo_wait_defs)

abbreviation demo_one_member :: world where
  "demo_one_member \<equiv> demo_wait [demo_member 0 ''u0'' ''w0'' (Some 0)]"

lemma demo_admission: "fst (admitFromWaitlist ''g'' None demo_one_member) = Inr [''u1'', ''u2'']"
  by code_simp

lemma demo_newcomer:
  "fst (joinWaitlist 50 ''g'' ''u4'' ''w4'' (snd (admitFromWaitlist ''g'' None demo_one_member))) = Inr 2"
  by code_simp

abbreviation demo_admitted :: world where
  "demo_admitted \<equiv> snd (admitFromWaitlist ''g'' None demo_one_member)"

lemma demo_wait_group: "find_group ''g'' (demo_wait ms) = Some (demo_group\<lparr>g_status := GS_PENDING, g_currentRound := 0\<rparr>)"
  by (simp add: find_group_def demo_wait_def demo_world_def demo_group_def)

lemma demo_wait_queue: "contiguous_positions ''g'' demo_one_member"
  by code_simp

lemma demo_leave: "fst (leaveWaitlist ''g'' ''u2'' demo_one_member) = Inr ()"
  by code_simp

theorem admitFromWaitlist_fifo_within_capacity_witness:
  "fst (admitFromWaitlist ''g'' None demo_one_member) = Inr [''u1'', ''u2''] \<and>
   member_count ''g'' demo_admitted = 3 \<and> map wl_userId (queue ''g'' demo_admitted) = [''u3'']"
proof -
  have "member_count ''g'' demo_one_member = 1" by code_simp
  moreover have "map wl_userId (drop (length [''u1'', ''u2'']) (queue ''g'' demo_one_member)) = [''u3'']" by code_simp
  moreover have "queue ''g'' demo_admitted = drop (length [''u1'', ''u2'']) (queue ''g'' demo_one_member)"
    "member_count ''g'' demo_admitted = member_count ''g'' demo_one_member + int (length [''u1'', ''u2''])"
    using admitFromWaitlist_fifo_within_capacity
      [OF keys_ok_demo_wait demo_wait_group outcome_run [OF demo_admission]] by blast+
  ultimately show ?thesis using demo_admission by simp
qed

theorem leaveWaitlist_keeps_queue_witness:
  "contiguous_positions ''g'' (snd (leaveWaitlist ''g'' ''u2'' demo_one_member))"
  using leaveWaitlist_keeps_queue [OF keys_ok_demo_wait demo_wait_queue outcome_run [OF demo_leave]]
  by blast

theorem newcomer_overtakes_after_admission_witness:
  "map wl_userId (queue ''g'' demo_admitted) = [''u3''] \<and>
   wl_userId (hd (queue ''g'' (snd (joinWaitlist 50 ''g'' ''u4'' ''w4'' demo_admitted)))) = ''u4''"
proof -
  have q: "map wl_userId (queue ''g'' demo_admitted) = [''u3'']" by code_simp
  then have "queue ''g'' demo_admitted \<noteq> []" "length (queue ''g'' demo_admitted) = 1" by auto
  then show ?thesis
    using newcomer_overtakes_after_admission [OF keys_ok_demo_wait demo_wait_group demo_wait_queue
        outcome_run [OF demo_admission] _ _ outcome_run [OF demo_newcomer]] q
    by simp
qed

theorem direct_join_blocks_admission_witness:
  "admitFromWaitlist ''g'' None (snd (addMember ''g'' ''u1'' ''w1'' demo_one_member))
     = (Inl (UniqueViolation ''memberships_groupId_userId''),
        snd (addMember ''g'' ''u1'' ''w1'' demo_one_member))"
proof -
  let ?w1 = "snd (addMember ''g'' ''u1'' ''w1'' demo_one_member)"
  have "is_ok (fst (addMember ''g'' ''u1'' ''w1'' demo_one_member))" by code_simp
  then obtain m where "fst (addMember ''g'' ''u1'' ''w1'' demo_one_member) = Inr m" by (auto simp: is_ok_iff)
  note run = outcome_run [OF this]
  have hd: "wl_userId (hd (queue ''g'' demo_one_member)) = ''u1''" by code_simp
  have ne: "queue ''g'' demo_one_member \<noteq> []" by code_simp
  have g: "find_group ''g'' ?w1 = Some (demo_group\<lparr>g_status := GS_PENDING, g_currentRound := 0\<rparr>)" by code_simp
  have "member_count ''g'' ?w1 < 3" by code_simp
  then have "member_count ''g'' ?w1 < g_maxMembers (demo_group\<lparr>g_status := GS_PENDING, g_currentRound := 0\<rparr>)"
    by (simp add: demo_group_def)
  from direct_join_blocks_admission [OF keys_ok_demo_wait ne _ g this] run hd show ?thesis by simp
qed

end
