(* ===== verification/Invites.thy ===== *)
theory Invites
  imports Memberships
begin

text \<open>
  \<open>GroupInviteService\<close> (\<open>groups/invites/group-invite.service.ts\<close>): invite links. The random code
  of a new invite is the argument \<open>code\<close>, the base of the link the argument \<open>appUrl\<close>; the mail to
  the invited person leaves no state. \<open>joinByCode\<close> locks the invite's row in its transaction and is
  one atomic step. Server time is UTC, so an hour is 3600000 ms.
\<close>

definition save_invite :: "group_invite \<Rightarrow> world \<Rightarrow> world" where
  "save_invite i w = w\<lparr>invites := save_row i_id i (invites w)\<rparr>"

definition find_user :: "uuid \<Rightarrow> world \<Rightarrow> user option" where
  "find_user uid w = List.find (\<lambda>u. u_id u = uid) (users w)"

definition find_invite :: "string \<Rightarrow> world \<Rightarrow> group_invite option" where
  "find_invite code w = List.find (\<lambda>i. i_code i = code) (invites w)"

definition is_group_admin :: "rosca_group \<Rightarrow> uuid \<Rightarrow> world \<Rightarrow> bool" where
  "is_group_admin g requester w =
     (if find_membership (g_id g) requester w = None \<or> g_adminWallet g \<noteq> requester
      then (case find_user requester w of None \<Rightarrow> False | Some u \<Rightarrow> g_adminWallet g = u_walletAddress u)
      else True)"

definition createInvite ::
  "string \<Rightarrow> string \<Rightarrow> uuid \<Rightarrow> uuid \<Rightarrow> int \<Rightarrow> int option \<Rightarrow> (group_invite \<times> string) io" where
  "createInvite appUrl code gid requester expiryHours maxUses w =
     (case find_group gid w of
        None \<Rightarrow> (Inl (NotFoundException ''Group not found''), w)
      | Some g \<Rightarrow>
          if \<not> is_group_admin g requester w
          then (Inl (ForbiddenException ''Only the group admin can create invites''), w)
          else if find_invite code w \<noteq> None
          then (Inl (UniqueViolation ''group_invites_code''), w)
          else let i = \<lparr>i_id = fresh_uuid w, i_groupId = gid, i_createdBy = requester, i_code = code,
                        i_maxUses = (case maxUses of None \<Rightarrow> 1 | Some k \<Rightarrow> k), i_usedCount = 0,
                        i_expiresAt = now w + expiryHours * 3600000, i_status = IS_ACTIVE\<rparr>
               in (Inr (i, appUrl @ ''/groups/join/'' @ code),
                   (tick_uuid w)\<lparr>invites := invites w @ [i]\<rparr>))"

text \<open>\<open>manager.increment\<close> and, with the last use, the status; then the membership is inserted.\<close>

definition use_invite :: "group_invite \<Rightarrow> world \<Rightarrow> world" where
  "use_invite i w =
     (let w1 = save_invite (i\<lparr>i_usedCount := i_usedCount i + 1\<rparr>) w
      in if i_usedCount i + 1 \<ge> i_maxUses i
         then save_invite (i\<lparr>i_usedCount := i_usedCount i + 1, i_status := IS_EXHAUSTED\<rparr>) w1
         else w1)"

definition joinByCode_tx :: "string \<Rightarrow> uuid \<Rightarrow> wallet \<Rightarrow> membership io" where
  "joinByCode_tx code uid a w =
     (case find_invite code w of
        None \<Rightarrow> (Inl (NotFoundException ''Invite not found''), w)
      | Some i \<Rightarrow>
          if i_status i \<noteq> IS_ACTIVE \<or> i_expiresAt i < now w
          then (Inl (GoneException ''Invite has expired''), w)
          else if i_usedCount i \<ge> i_maxUses i
          then (Inl (GoneException ''Invite has reached maximum uses''), w)
          else (case find_membership (i_groupId i) uid w of
              Some m \<Rightarrow> (Inr m, w)
            | None \<Rightarrow> insert_membership (new_membership (i_groupId i) uid a None) (use_invite i w)))"

definition joinByCode :: "string \<Rightarrow> uuid \<Rightarrow> wallet \<Rightarrow> membership io" where
  "joinByCode code uid a = transaction (joinByCode_tx code uid a)"

definition expireStaleInvites :: "int io" where
  "expireStaleInvites w =
     (let stale = (\<lambda>i. i_status i = IS_ACTIVE \<and> i_expiresAt i < now w)
      in (Inr (count_rows stale (invites w)),
          w\<lparr>invites := update_rows stale (\<lambda>i. i\<lparr>i_status := IS_EXPIRED\<rparr>) (invites w)\<rparr>))"

lemmas invite_handlers [handler_defs] = createInvite_def joinByCode_def expireStaleInvites_def

subsection \<open>An invite is never used more often than it allows\<close>

definition invite_ok :: "group_invite \<Rightarrow> bool" where
  "invite_ok i \<longleftrightarrow> 0 \<le> i_usedCount i \<and> i_usedCount i \<le> i_maxUses i \<and>
     (i_usedCount i = i_maxUses i \<longrightarrow> i_status i \<noteq> IS_ACTIVE)"

definition invites_ok :: "world \<Rightarrow> bool" where
  "invites_ok w \<longleftrightarrow> (\<forall>i \<in> set (invites w). invite_ok i)"

lemma find_inviteD: "find_invite code w = Some i \<Longrightarrow> i \<in> set (invites w) \<and> i_code i = code"
  by (auto simp: find_invite_def dest: find_Some_mem)

lemma use_invite_frame:
  "users (use_invite i w) = users w" "groups (use_invite i w) = groups w"
  "memberships (use_invite i w) = memberships w" "waitlist (use_invite i w) = waitlist w"
  "uuid_count (use_invite i w) = uuid_count w" "now (use_invite i w) = now w"
  by (simp_all add: use_invite_def save_invite_def Let_def)

lemma set_use_invite:
  "set (invites (use_invite i w)) =
     insert (i\<lparr>i_usedCount := i_usedCount i + 1,
               i_status := (if i_usedCount i + 1 \<ge> i_maxUses i then IS_EXHAUSTED else i_status i)\<rparr>)
       {x \<in> set (invites w). i_id x \<noteq> i_id i}"
  by (auto simp: use_invite_def save_invite_def set_save_row Let_def)

lemma joinByCode_Inr:
  assumes "joinByCode code uid a w = (Inr m, w')"
  obtains i where "find_invite code w = Some i" "i_status i = IS_ACTIVE" "now w \<le> i_expiresAt i"
    "i_usedCount i < i_maxUses i"
    "find_membership (i_groupId i) uid w = Some m \<and> w' = w \<or>
     find_membership (i_groupId i) uid w = None \<and>
     insert_membership (new_membership (i_groupId i) uid a None) (use_invite i w) = (Inr m, w')"
  using assms
  by (auto simp: joinByCode_def transaction_commits joinByCode_tx_def split: option.splits if_splits)

lemma joinByCode_Inl: "joinByCode code uid a w = (Inl e, w') \<Longrightarrow> w' = w"
  by (simp add: joinByCode_def transaction_rolls_back)

lemma insert_membership_invites: "insert_membership m w = (r, w') \<Longrightarrow> invites w' = invites w"
  by (auto simp: insert_membership_def Let_def tick_uuid_def split: if_splits)

lemma joinByCode_invites_ok:
  assumes "invites_ok w" "joinByCode code uid a w = (r, w')"
  shows "invites_ok w'"
proof (cases r)
  case (Inl e)
  then show ?thesis using assms joinByCode_Inl by metis
next
  case (Inr m)
  with assms(2) obtain i where i: "find_invite code w = Some i" "i_usedCount i < i_maxUses i"
    and or: "w' = w \<or> insert_membership (new_membership (i_groupId i) uid a None) (use_invite i w) = (Inr m, w')"
    by (auto elim!: joinByCode_Inr)
  from or show ?thesis
  proof
    assume "w' = w"
    with assms(1) show ?thesis by simp
  next
    assume ins: "insert_membership (new_membership (i_groupId i) uid a None) (use_invite i w) = (Inr m, w')"
    have "invite_ok i" using assms(1) find_inviteD [OF i(1)] by (simp add: invites_ok_def)
    then show ?thesis
      using assms(1) i(2) unfolding invites_ok_def insert_membership_invites [OF ins] set_use_invite
      by (auto simp: invite_ok_def)
  qed
qed

lemma createInvite_invites_ok:
  assumes "invites_ok w" "createInvite url code gid requester h k w = (r, w')"
    and "k = None \<or> 1 \<le> the k"
  shows "invites_ok w'"
  using assms
  by (auto simp: createInvite_def invites_ok_def invite_ok_def Let_def tick_uuid_def
      split: option.splits if_splits)

lemma expireStaleInvites_ok: "invites_ok w \<Longrightarrow> invites_ok (snd (expireStaleInvites w))"
  by (auto simp: expireStaleInvites_def invites_ok_def invite_ok_def set_update_rows Let_def)

lemma joinByCode_keys_ok:
  assumes "keys_ok w" "joinByCode code uid a w = (r, w')"
  shows "keys_ok w'"
proof (cases r)
  case (Inl e)
  then show ?thesis using assms joinByCode_Inl by metis
next
  case (Inr m)
  with assms(2) obtain i where or: "w' = w \<or>
      insert_membership (new_membership (i_groupId i) uid a None) (use_invite i w) = (Inr m, w')"
    by (auto elim!: joinByCode_Inr)
  have "keys_ok (use_invite i w)"
    by (rule keys_ok_cong [OF _ _ _ _ assms(1)]) (simp_all add: use_invite_frame)
  with or assms(1) show ?thesis by (auto dest: keys_ok_insert_membership)
qed

text \<open>
  Joining by an invite code looks neither at the capacity nor at the status of the group. A
  valid code lets a user into a group that is full, and into one that is ACTIVE: the join
  succeeds, the group then has more than \<open>maxMembers\<close> members, and the new member has no payout
  order.
\<close>

theorem joinByCode_exceeds_capacity:
  assumes "find_invite code w = Some i" "i_status i = IS_ACTIVE" "now w \<le> i_expiresAt i"
    and "i_usedCount i < i_maxUses i"
    and "find_group (i_groupId i) w = Some g" "find_user uid w \<noteq> None"
    and "find_membership (i_groupId i) uid w = None"
    and "member_count (i_groupId i) w \<ge> g_maxMembers g"
  shows "\<exists>m w'. joinByCode code uid a w = (Inr m, w') \<and> m_payoutOrder m = None \<and>
    member_count (i_groupId i) w' > g_maxMembers g"
proof -
  have "\<exists>u \<in> set (users w). u_id u = uid"
    using assms(6) by (auto simp: find_user_def find_None_all)
  moreover have "\<exists>g \<in> set (groups w). g_id g = i_groupId i" using find_groupD [OF assms(5)] by auto
  moreover have "\<forall>x \<in> set (memberships w). \<not> (m_groupId x = i_groupId i \<and> m_userId x = uid)"
    using assms(7) by (simp add: find_membership_None)
  ultimately have "\<exists>m w'. insert_membership (new_membership (i_groupId i) uid a None) (use_invite i w) = (Inr m, w') \<and>
      m_payoutOrder m = None \<and> member_count (i_groupId i) w' = member_count (i_groupId i) w + 1"
    by (simp add: insert_membership_Inr use_invite_frame new_membership_def member_count_def)
  then obtain m w' where ins: "insert_membership (new_membership (i_groupId i) uid a None) (use_invite i w) = (Inr m, w')"
    and ord: "m_payoutOrder m = None" and "member_count (i_groupId i) w' = member_count (i_groupId i) w + 1" by blast
  then have "g_maxMembers g < member_count (i_groupId i) w'" using assms(8) by linarith
  moreover have "joinByCode code uid a w = (Inr m, w')"
    using assms(1-4,7) ins by (simp add: joinByCode_def transaction_commits joinByCode_tx_def)
  ultimately show ?thesis using ord by blast
qed

text \<open>
  Joining by a code is safe to retry except for the user who took the last place of the
  invite. After a first join the same call returns the same membership and changes nothing while
  the invite has uses left; if the join used the invite up, the retry is answered with "Invite
  has expired", although the code says that a user who has joined already gets the membership.
\<close>

theorem joinByCode_retry:
  assumes "keys_ok w" "distinct (map i_id (invites w))" "find_invite code w = Some i"
    and "\<forall>x \<in> set (invites w). i_code x = code \<longrightarrow> x = i"
    and "find_membership (i_groupId i) uid w = None" "joinByCode code uid a w = (Inr m, w')"
  shows "joinByCode code uid a w' =
    (if i_usedCount i + 1 < i_maxUses i then Inr m else Inl (GoneException ''Invite has expired''), w')"
proof -
  from assms(3,5,6) have act: "i_status i = IS_ACTIVE" "now w \<le> i_expiresAt i" "i_usedCount i < i_maxUses i"
    and ins: "insert_membership (new_membership (i_groupId i) uid a None) (use_invite i w) = (Inr m, w')"
    by (auto elim!: joinByCode_Inr)
  let ?i = "i\<lparr>i_usedCount := i_usedCount i + 1,
    i_status := (if i_usedCount i + 1 \<ge> i_maxUses i then IS_EXHAUSTED else i_status i)\<rparr>"
  have code: "i_code i = code" using find_inviteD [OF assms(3)] by simp
  have inv: "set (invites w') = insert ?i {x \<in> set (invites w). i_id x \<noteq> i_id i}"
    unfolding insert_membership_invites [OF ins] by (rule set_use_invite)
  have found: "find_invite code w' = Some ?i"
    unfolding find_invite_def
  proof (rule find_unique)
    fix x assume "x \<in> set (invites w')" "i_code x = code"
    with assms(4) show "x = ?i" unfolding inv by auto
  qed (simp_all add: inv code)
  have now: "now w' = now w" and m: "m \<in> set (memberships w')" "m_groupId m = i_groupId i" "m_userId m = uid"
    using ins by (auto simp: insert_membership_Inr use_invite_frame new_membership_def tick_uuid_def)
  have "keys_ok w'" using assms(1,6) by (rule joinByCode_keys_ok)
  have mem: "find_membership (i_groupId i) uid w' = Some m"
    unfolding find_membership_def
  proof (rule find_unique)
    fix x assume "x \<in> set (memberships w')" "m_groupId x = i_groupId i \<and> m_userId x = uid"
    with m show "x = m" by (intro membership_by_user [OF \<open>keys_ok w'\<close>]) simp_all
  qed (use m in simp_all)
  have gid: "i_groupId ?i = i_groupId i" by simp
  show ?thesis
    using act by (simp add: joinByCode_def transaction_def joinByCode_tx_def found now mem)
qed

definition demo_invite :: "int \<Rightarrow> group_invite" where
  "demo_invite k = \<lparr>i_id = ''i1'', i_groupId = ''g'', i_createdBy = ''u0'', i_code = ''code'', i_maxUses = k,
     i_usedCount = 0, i_expiresAt = 1000, i_status = IS_ACTIVE\<rparr>"

abbreviation demo_full :: "int \<Rightarrow> world" where
  "demo_full k \<equiv> (demo_world GS_ACTIVE 1 demo_members)\<lparr>invites := [demo_invite k]\<rparr>"

theorem joinByCode_exceeds_capacity_witness:
  "\<exists>m w'. joinByCode ''code'' ''u3'' ''w3'' (demo_full 1) = (Inr m, w') \<and> m_payoutOrder m = None \<and>
     member_count ''g'' w' > 3"
proof -
  have i: "find_invite ''code'' (demo_full 1) = Some (demo_invite 1)"
    by (simp add: find_invite_def demo_invite_def)
  have g: "find_group (i_groupId (demo_invite 1)) (demo_full 1) = Some (demo_group\<lparr>g_status := GS_ACTIVE, g_currentRound := 1\<rparr>)"
    by code_simp
  have "find_user ''u3'' (demo_full 1) \<noteq> None" "find_membership (i_groupId (demo_invite 1)) ''u3'' (demo_full 1) = None"
    "i_status (demo_invite 1) = IS_ACTIVE" "now (demo_full 1) \<le> i_expiresAt (demo_invite 1)"
    "i_usedCount (demo_invite 1) < i_maxUses (demo_invite 1)"
    "member_count (i_groupId (demo_invite 1)) (demo_full 1) \<ge> g_maxMembers (demo_group\<lparr>g_status := GS_ACTIVE, g_currentRound := 1\<rparr>)"
    by code_simp+
  from joinByCode_exceeds_capacity [OF i this(3,4,5) g this(1,2,6)]
  show ?thesis by (simp add: demo_invite_def demo_group_def)
qed

theorem joinByCode_retry_witness:
  "fst (joinByCode ''code'' ''u3'' ''w3'' (snd (joinByCode ''code'' ''u3'' ''w3'' (demo_full 1))))
     = Inl (GoneException ''Invite has expired'')"
proof -
  have "keys_ok (demo_full 1)"
    by (rule keys_ok_cong [OF _ _ _ _ keys_ok_demo [of GS_ACTIVE 1]]) simp_all
  moreover have "distinct (map i_id (invites (demo_full 1)))" by simp
  moreover have "find_invite ''code'' (demo_full 1) = Some (demo_invite 1)"
    by (simp add: find_invite_def demo_invite_def)
  moreover have "\<forall>x \<in> set (invites (demo_full 1)). i_code x = ''code'' \<longrightarrow> x = demo_invite 1" by simp
  moreover have "find_membership (i_groupId (demo_invite 1)) ''u3'' (demo_full 1) = None" by code_simp
  moreover have "is_ok (fst (joinByCode ''code'' ''u3'' ''w3'' (demo_full 1)))" by code_simp
  then obtain m where "fst (joinByCode ''code'' ''u3'' ''w3'' (demo_full 1)) = Inr m" by (auto simp: is_ok_iff)
  note run = outcome_run [OF this]
  ultimately have "joinByCode ''code'' ''u3'' ''w3'' (snd (joinByCode ''code'' ''u3'' ''w3'' (demo_full 1))) =
    (if i_usedCount (demo_invite 1) + 1 < i_maxUses (demo_invite 1) then Inr m
     else Inl (GoneException ''Invite has expired''), snd (joinByCode ''code'' ''u3'' ''w3'' (demo_full 1)))"
    by (intro joinByCode_retry [OF _ _ _ _ _ run])
  then show ?thesis by (simp add: demo_invite_def)
qed

end
