(* ===== verification/Templates.thy ===== *)
theory Templates
  imports Memberships
begin

text \<open>
  \<open>GroupTemplatesService\<close> (\<open>groups/group-templates.service.ts\<close>): reusable group settings. A
  private template is visible to its owner only, and the settings of a template are defaults for
  the creation of a group. \<open>ilike\<close> stands for PostgreSQL's pattern match. A strategy string that
  the enum lacks is left out of the model: the database rejects it.
\<close>

record group_dto =
  d_name :: string
  d_contributionAmount :: string
  d_token :: string
  d_assetCode :: "string option"
  d_assetIssuer :: "string option"
  d_roundDuration :: int
  d_totalRounds :: int
  d_minMembers :: int
  d_maxMembers :: "int option"
  d_contractAddress :: "string option"
  d_timezone :: "string option"
  d_startDate :: "time option"
  d_endDate :: "time option"
  d_payoutOrderStrategy :: "payout_order_strategy option"
  d_penaltyRate :: "int option"
  d_gracePeriodHours :: "int option"
  d_templateId :: "uuid option"

text \<open>A number is falsy when it is absent or 0.\<close>

definition truthy_num :: "int option \<Rightarrow> bool" where
  "truthy_num x = (case x of None \<Rightarrow> False | Some n \<Rightarrow> n \<noteq> 0)"

lemma truthy_num_simps [simp]: "truthy_num None = False" "truthy_num (Some n) = (n \<noteq> 0)"
  by (simp_all add: truthy_num_def)

definition find_template :: "uuid \<Rightarrow> world \<Rightarrow> group_template option" where
  "find_template tid w = List.find (\<lambda>t. gt_id t = tid \<and> gt_deletedAt t = None) (templates w)"

definition save_template :: "group_template \<Rightarrow> world \<Rightarrow> world" where
  "save_template t w = w\<lparr>templates := save_row gt_id t (templates w)\<rparr>"

definition extractGroupConfig :: "rosca_group \<Rightarrow> template_config" where
  "extractGroupConfig g =
     \<lparr>tc_contributionAmount = g_contributionAmount g, tc_roundDuration = g_roundDuration g,
      tc_totalRounds = g_totalRounds g, tc_maxMembers = Some (g_maxMembers g),
      tc_minMembers = g_minMembers g, tc_assetCode = Some (g_assetCode g),
      tc_assetIssuer = g_assetIssuer g, tc_payoutOrderStrategy = Some (g_payoutOrderStrategy g),
      tc_penaltyRate = Some (g_penaltyRate g), tc_gracePeriodHours = Some (g_gracePeriodHours g),
      tc_timezone = g_timezone g\<rparr>"

definition createTemplate ::
  "string \<Rightarrow> string option \<Rightarrow> bool option \<Rightarrow> template_config option \<Rightarrow> uuid option \<Rightarrow> uuid \<Rightarrow> group_template io" where
  "createTemplate name desc isPublic config fromGroupId uid w =
     (let insert_template = (\<lambda>c. (let t = \<lparr>gt_id = fresh_uuid w, gt_name = name, gt_description = desc,
              gt_isPublic = (case isPublic of None \<Rightarrow> False | Some b \<Rightarrow> b), gt_config = c, gt_ownerId = uid,
              gt_usageCount = 0, gt_deletedAt = None, gt_createdAt = now w\<rparr>
            in (Inr t, (tick_uuid w)\<lparr>templates := templates w @ [t]\<rparr>)))
      in if truthy fromGroupId
         then (case find_group (the fromGroupId) w of
                 None \<Rightarrow> (Inl (BadRequestException (''Source group '' @ the fromGroupId @ '' not found'')), w)
               | Some g \<Rightarrow> insert_template (extractGroupConfig g))
         else (case config of
                 Some c \<Rightarrow> insert_template c
               | None \<Rightarrow> (Inl (BadRequestException ''Either config or fromGroupId must be provided''), w)))"

definition visible :: "uuid \<Rightarrow> group_template \<Rightarrow> bool" where
  "visible uid t \<longleftrightarrow> gt_ownerId t = uid \<or> gt_isPublic t"

definition findTemplates ::
  "(string \<Rightarrow> string \<Rightarrow> bool) \<Rightarrow> uuid \<Rightarrow> int \<Rightarrow> int \<Rightarrow> string option \<Rightarrow> world
     \<Rightarrow> group_template list \<times> int \<times> int \<times> int" where
  "findTemplates ilike uid page limit search w =
     (let rows = filter (\<lambda>t. gt_deletedAt t = None \<and> visible uid t \<and>
             (truthy search \<longrightarrow> ilike (gt_name t) (''%'' @ the search @ ''%'') \<or>
                (case gt_description t of None \<Rightarrow> False | Some d \<Rightarrow> ilike d (''%'' @ the search @ ''%''))))
           (templates w)
      in (page_of page limit (sort_key (\<lambda>t. - gt_createdAt t) rows), int (length rows), page, limit))"

definition findTemplateById :: "uuid \<Rightarrow> uuid \<Rightarrow> group_template io" where
  "findTemplateById tid uid w =
     (case find_template tid w of
        None \<Rightarrow> (Inl (NotFoundException (''Template '' @ tid @ '' not found'')), w)
      | Some t \<Rightarrow>
          if gt_ownerId t \<noteq> uid \<and> \<not> gt_isPublic t
          then (Inl (ForbiddenException ''You do not have permission to view this template''), w)
          else (Inr t, w))"

text \<open>\<open>updateTemplate\<close>: absent fields of the DTO keep their value; \<open>patch\<close> is the spread
  \<open>{ ...template.config, ...updateDto.config }\<close> for the given partial config.\<close>

definition updateTemplate ::
  "uuid \<Rightarrow> string option \<Rightarrow> string option \<Rightarrow> bool option \<Rightarrow> (template_config \<Rightarrow> template_config) option
     \<Rightarrow> uuid \<Rightarrow> group_template io" where
  "updateTemplate tid name desc isPublic patch uid w =
     (case find_template tid w of
        None \<Rightarrow> (Inl (NotFoundException (''Template '' @ tid @ '' not found'')), w)
      | Some t \<Rightarrow>
          if gt_ownerId t \<noteq> uid
          then (Inl (ForbiddenException ''You can only update your own templates''), w)
          else let t1 = (case name of None \<Rightarrow> t | Some n \<Rightarrow> t\<lparr>gt_name := n\<rparr>);
                   t2 = (case desc of None \<Rightarrow> t1 | Some d \<Rightarrow> t1\<lparr>gt_description := Some d\<rparr>);
                   t3 = (case isPublic of None \<Rightarrow> t2 | Some b \<Rightarrow> t2\<lparr>gt_isPublic := b\<rparr>);
                   t4 = (case patch of None \<Rightarrow> t3 | Some f \<Rightarrow> t3\<lparr>gt_config := f (gt_config t3)\<rparr>)
               in (Inr t4, save_template t4 w))"

definition deleteTemplate :: "uuid \<Rightarrow> uuid \<Rightarrow> unit io" where
  "deleteTemplate tid uid w =
     (case find_template tid w of
        None \<Rightarrow> (Inl (NotFoundException (''Template '' @ tid @ '' not found'')), w)
      | Some t \<Rightarrow>
          if gt_ownerId t \<noteq> uid
          then (Inl (ForbiddenException ''You can only delete your own templates''), w)
          else (Inr (), save_template (t\<lparr>gt_deletedAt := Some (now w)\<rparr>) w))"

definition incrementUsageCount :: "uuid \<Rightarrow> world \<Rightarrow> world" where
  "incrementUsageCount tid w =
     w\<lparr>templates := update_rows (\<lambda>t. gt_id t = tid) (\<lambda>t. t\<lparr>gt_usageCount := gt_usageCount t + 1\<rparr>) (templates w)\<rparr>"

definition mergeTemplateConfig :: "group_template \<Rightarrow> group_dto \<Rightarrow> group_dto" where
  "mergeTemplateConfig t d =
     (let c = gt_config t in d
      \<lparr>d_contributionAmount := (if d_contributionAmount d = [] then tc_contributionAmount c else d_contributionAmount d),
       d_roundDuration := (if d_roundDuration d = 0 then tc_roundDuration c else d_roundDuration d),
       d_totalRounds := (if d_totalRounds d = 0 then tc_totalRounds c else d_totalRounds d),
       d_maxMembers := (if \<not> truthy_num (d_maxMembers d) then tc_maxMembers c else d_maxMembers d),
       d_minMembers := (if d_minMembers d = 0 then tc_minMembers c else d_minMembers d),
       d_assetCode := (if \<not> truthy (d_assetCode d) \<and> truthy (tc_assetCode c) then tc_assetCode c else d_assetCode d),
       d_assetIssuer := (if \<not> truthy (d_assetIssuer d) \<and> truthy (tc_assetIssuer c) then tc_assetIssuer c else d_assetIssuer d),
       d_payoutOrderStrategy := (if d_payoutOrderStrategy d = None \<and> tc_payoutOrderStrategy c \<noteq> None
          then tc_payoutOrderStrategy c else d_payoutOrderStrategy d),
       d_penaltyRate := (if \<not> truthy_num (d_penaltyRate d) \<and> truthy_num (tc_penaltyRate c)
          then tc_penaltyRate c else d_penaltyRate d),
       d_gracePeriodHours := (if \<not> truthy_num (d_gracePeriodHours d) \<and> truthy_num (tc_gracePeriodHours c)
          then tc_gracePeriodHours c else d_gracePeriodHours d),
       d_timezone := (if \<not> truthy (d_timezone d) \<and> truthy (tc_timezone c) then tc_timezone c else d_timezone d)\<rparr>)"

lemmas template_handlers [handler_defs] =
  createTemplate_def findTemplateById_def updateTemplate_def deleteTemplate_def

subsection \<open>Who sees and who changes a template\<close>

lemma find_templateD: "find_template tid w = Some t \<Longrightarrow> t \<in> set (templates w) \<and> gt_id t = tid \<and> gt_deletedAt t = None"
  by (auto simp: find_template_def dest: find_Some_mem)

text \<open>
  Templates are private to their owner unless published, and only the owner changes them. A
  template that a user reads by id, or that a listing returns to the user, is public or the
  user's own; a change or a deletion by anybody but the owner is refused and changes nothing.
\<close>

theorem template_access:
  "(findTemplateById tid uid w = (Inr t, w') \<longrightarrow> gt_ownerId t = uid \<or> gt_isPublic t) \<and>
   (\<forall>t \<in> set (fst (findTemplates ilike uid page limit search w)). gt_ownerId t = uid \<or> gt_isPublic t) \<and>
   (find_template tid w = Some t \<and> gt_ownerId t \<noteq> uid \<longrightarrow>
      updateTemplate tid n d p f uid w = (Inl (ForbiddenException ''You can only update your own templates''), w) \<and>
      deleteTemplate tid uid w = (Inl (ForbiddenException ''You can only delete your own templates''), w))"
  by (auto simp: findTemplateById_def findTemplates_def updateTemplate_def deleteTemplate_def page_of_def
      visible_def Let_def split: option.splits if_splits dest!: in_set_takeD in_set_dropD)

text \<open>A deleted template is not found any more.\<close>

lemma deleteTemplate_hides:
  assumes "distinct (map gt_id (templates w))" "deleteTemplate tid uid w = (Inr (), w')"
  shows "find_template tid w' = None"
proof -
  from assms(2) obtain t where t: "find_template tid w = Some t"
    and w': "w' = save_template (t\<lparr>gt_deletedAt := Some (now w)\<rparr>) w"
    by (auto simp: deleteTemplate_def split: option.splits if_splits)
  have "x \<noteq> y \<or> x = t\<lparr>gt_deletedAt := Some (now w)\<rparr>"
    if "x \<in> set (templates w')" "gt_id x = tid" "y = x" for x y
    using that find_templateD [OF t] by (auto simp: w' save_template_def set_save_row)
  then show ?thesis
    unfolding find_template_def find_None_all by fastforce
qed

text \<open>
  Cloning a group into a template and creating from it restores the group's settings. When a
  creation DTO leaves the settings open, merging the template that \<open>extractGroupConfig\<close> makes of a
  group yields exactly that group's amount, durations, member limits, asset, strategy, penalty
  rate, grace period and time zone, for the settings that are not 0 or empty.
\<close>

theorem template_roundtrip:
  assumes "gt_config t = extractGroupConfig g"
    and "d_contributionAmount d = []" "d_roundDuration d = 0" "d_totalRounds d = 0" "d_minMembers d = 0"
    and "d_maxMembers d = None" "d_assetCode d = None" "d_assetIssuer d = None"
    and "d_payoutOrderStrategy d = None" "d_penaltyRate d = None" "d_gracePeriodHours d = None" "d_timezone d = None"
    and "g_assetCode g \<noteq> []" "g_assetIssuer g \<noteq> Some []" "g_timezone g \<noteq> Some []"
    and "g_penaltyRate g \<noteq> 0" "g_gracePeriodHours g \<noteq> 0"
  shows "mergeTemplateConfig t d = d
    \<lparr>d_contributionAmount := g_contributionAmount g, d_roundDuration := g_roundDuration g,
     d_totalRounds := g_totalRounds g, d_maxMembers := Some (g_maxMembers g), d_minMembers := g_minMembers g,
     d_assetCode := Some (g_assetCode g), d_assetIssuer := g_assetIssuer g,
     d_payoutOrderStrategy := Some (g_payoutOrderStrategy g), d_penaltyRate := Some (g_penaltyRate g),
     d_gracePeriodHours := Some (g_gracePeriodHours g), d_timezone := g_timezone g\<rparr>"
  using assms
  by (cases "g_assetIssuer g"; cases "g_timezone g")
    (simp_all add: mergeTemplateConfig_def extractGroupConfig_def Let_def)

text \<open>
  An explicit 0 in the creation DTO does not override the template. A grace period of 0 hours
  (which the DTO allows) or a penalty rate of 0 is replaced by the template's value, although the
  method promises that explicit DTO fields always win; every other explicit value does win.
\<close>

theorem explicit_zero_overridden:
  assumes "tc_gracePeriodHours (gt_config t) = Some k" "k \<noteq> 0"
  shows "d_gracePeriodHours (mergeTemplateConfig t (d\<lparr>d_gracePeriodHours := Some 0\<rparr>)) = Some k \<and>
    (\<forall>h. h \<noteq> 0 \<longrightarrow> d_gracePeriodHours (mergeTemplateConfig t (d\<lparr>d_gracePeriodHours := Some h\<rparr>)) = Some h)"
  using assms by (simp add: mergeTemplateConfig_def Let_def)

definition demo_template :: group_template where
  "demo_template = \<lparr>gt_id = ''t1'', gt_name = ''Circle'', gt_description = None, gt_isPublic = False,
     gt_config = extractGroupConfig demo_group, gt_ownerId = ''u0'', gt_usageCount = 0,
     gt_deletedAt = None, gt_createdAt = 0\<rparr>"

definition demo_dto :: group_dto where
  "demo_dto = \<lparr>d_name = ''New'', d_contributionAmount = [], d_token = ''XLM'', d_assetCode = None,
     d_assetIssuer = None, d_roundDuration = 0, d_totalRounds = 0, d_minMembers = 0, d_maxMembers = None,
     d_contractAddress = None, d_timezone = None, d_startDate = None, d_endDate = None,
     d_payoutOrderStrategy = None, d_penaltyRate = None, d_gracePeriodHours = None, d_templateId = Some ''t1''\<rparr>"

theorem template_roundtrip_witness:
  "d_totalRounds (mergeTemplateConfig demo_template demo_dto) = 3 \<and>
   d_gracePeriodHours (mergeTemplateConfig demo_template demo_dto) = Some 24"
  by (subst (1 2) template_roundtrip [of demo_template demo_group demo_dto])
    (simp_all add: demo_template_def demo_dto_def demo_group_def)

theorem explicit_zero_overridden_witness:
  "d_gracePeriodHours (mergeTemplateConfig demo_template (demo_dto\<lparr>d_gracePeriodHours := Some 0\<rparr>)) = Some 24"
  using explicit_zero_overridden [of demo_template 24 demo_dto]
  by (simp add: demo_template_def extractGroupConfig_def demo_group_def)

theorem template_access_witness:
  "updateTemplate ''t1'' (Some ''x'') None None None ''u9'' (empty_world\<lparr>templates := [demo_template]\<rparr>)
     = (Inl (ForbiddenException ''You can only update your own templates''), empty_world\<lparr>templates := [demo_template]\<rparr>)"
proof -
  have "find_template ''t1'' (empty_world\<lparr>templates := [demo_template]\<rparr>) = Some demo_template"
    "gt_ownerId demo_template \<noteq> ''u9''"
    by (simp_all add: find_template_def demo_template_def)
  then show ?thesis
    using template_access [of "''t1''" "''u9''" "empty_world\<lparr>templates := [demo_template]\<rparr>" demo_template] by blast
qed

end
