(* ===== verification/GroupsService.thy ===== *)
theory GroupsService
  imports Templates "HOL-Library.Multiset"
begin

text \<open>
  \<open>GroupsService\<close> (\<open>groups/groups.service.ts\<close>): the life of a group from its creation over its
  activation to the advance of its rounds. The outcome of a call to the Stellar network is an
  argument: \<open>deploy\<close> for \<open>deployRoscaContract\<close> and \<open>disburse\<close> for \<open>disbursePayout\<close>. The random
  numbers of the shuffle are the argument \<open>rnd\<close>: \<open>Math.floor(Math.random() * (i + 1))\<close> is some
  number up to i, here \<open>rnd i mod Suc i\<close>. Callers ignore the outcome of a webhook; \<open>webhook_log\<close>
  records the events handed over.
\<close>

definition dispatchEvent :: "webhook_event \<Rightarrow> world \<Rightarrow> world" where
  "dispatchEvent e w = w\<lparr>webhook_log := webhook_log w @ [e]\<rparr>"

record maintenance_mode =
  mm_enabled :: bool
  mm_message :: string
  mm_retryAfterSeconds :: int
  mm_allowedIps :: "string list"

definition upper_char :: "char \<Rightarrow> char" where
  "upper_char c = (let n = of_char c :: nat in if 97 \<le> n \<and> n \<le> 122 then char_of (n - 32) else c)"

definition toUpperCase :: "string \<Rightarrow> string" where
  "toUpperCase = map upper_char"

text \<open>The settings of a group as \<open>createGroup\<close> fills them in. Columns the DTO leaves out get
  their defaults.\<close>

definition new_group :: "group_dto \<Rightarrow> int \<Rightarrow> wallet \<Rightarrow> string \<Rightarrow> world \<Rightarrow> rosca_group" where
  "new_group d maxMembers adminWallet assetCode w =
     \<lparr>g_id = fresh_uuid w, g_name = d_name d, g_contractAddress = d_contractAddress d,
      g_adminWallet = adminWallet, g_contributionAmount = d_contributionAmount d, g_token = d_token d,
      g_assetCode = toUpperCase assetCode,
      g_assetIssuer = (if toUpperCase assetCode = ''XLM'' then None else d_assetIssuer d),
      g_unitOfAccountAssetCode = ''XLM'', g_unitOfAccountAssetIssuer = None,
      g_fxRateExpirySeconds = 900, g_fxToleranceBps = 200, g_allowCrossAssetContributions = True,
      g_roundDuration = d_roundDuration d, g_status = GS_PENDING, g_currentRound = 0,
      g_totalRounds = d_totalRounds d,
      g_payoutOrderStrategy = (case d_payoutOrderStrategy d of Some s \<Rightarrow> s | None \<Rightarrow> SEQUENTIAL),
      g_minMembers = d_minMembers d, g_maxMembers = maxMembers, g_staleAt = None,
      g_startDate = d_startDate d, g_endDate = d_endDate d,
      g_timezone = (case d_timezone d of Some t \<Rightarrow> Some t | None \<Rightarrow> Some ''UTC''),
      g_penaltyRate = (case d_penaltyRate d of Some r \<Rightarrow> r | None \<Rightarrow> 500),
      g_gracePeriodHours = (case d_gracePeriodHours d of Some h \<Rightarrow> h | None \<Rightarrow> 24),
      g_deletedAt = None, g_createdAt = now w\<rparr>"

text \<open>The part of \<open>createGroup\<close> after the maintenance check; \<open>allowed\<close> are the upper-case codes of
  \<open>ALLOWED_ASSET_CODES\<close>.\<close>

definition resolve_template :: "group_dto \<Rightarrow> uuid option \<Rightarrow> world \<Rightarrow> group_dto outcome" where
  "resolve_template dto uid w =
     (if truthy (d_templateId dto) \<and> truthy uid
      then (case findTemplateById (the (d_templateId dto)) (the uid) w of
              (Inl e, _) \<Rightarrow> Inl e
            | (Inr t, _) \<Rightarrow> Inr (mergeTemplateConfig t dto))
      else Inr dto)"

definition createGroup_body :: "string list \<Rightarrow> group_dto \<Rightarrow> wallet \<Rightarrow> uuid option \<Rightarrow> rosca_group io" where
  "createGroup_body allowed dto adminWallet uid w =
     (case resolve_template dto uid w of
        Inl e \<Rightarrow> (Inl e, w)
      | Inr d \<Rightarrow>
          let maxMembers = (case d_maxMembers d of Some k \<Rightarrow> k | None \<Rightarrow> d_totalRounds d) in
          if maxMembers \<noteq> d_totalRounds d
          then (Inl (BadRequestException ''maxMembers must equal totalRounds''), w)
          else if d_minMembers d > maxMembers
          then (Inl (BadRequestException ''minMembers must be less than or equal to maxMembers''), w)
          else let assetCode = (case d_assetCode d of Some c \<Rightarrow> c | None \<Rightarrow> ''XLM'') in
          if toUpperCase assetCode \<notin> set allowed
          then (Inl (BadRequestException (''Asset code \"'' @ assetCode @ ''\" is not supported. Allowed: ''
                  @ concat (map (\<lambda>c. c @ '', '') (butlast allowed)) @ (if allowed = [] then [] else last allowed))), w)
          else let g = new_group d maxMembers adminWallet assetCode w;
                   w1 = (tick_uuid w)\<lparr>groups := groups w @ [g]\<rparr>
               in (Inr g, if truthy (d_templateId dto) then incrementUsageCount (the (d_templateId dto)) w1 else w1))"

text \<open>
  \<open>createGroup\<close>. The class has no member \<open>maintenanceModeService\<close>: reading the method off
  \<open>undefined\<close> throws. \<open>maintenanceModeService\<close> below is that member's value, the configuration
  the service would return.
\<close>

definition createGroup_with ::
  "maintenance_mode option option \<Rightarrow> string list \<Rightarrow> group_dto \<Rightarrow> wallet \<Rightarrow> uuid option \<Rightarrow> rosca_group io" where
  "createGroup_with maintenanceModeService allowed dto adminWallet uid w =
     (case maintenanceModeService of
        None \<Rightarrow> (Inl (TypeError ''Cannot read properties of undefined (reading 'getGlobalMaintenanceMode')''), w)
      | Some (Some mm) \<Rightarrow>
          if mm_enabled mm then (Inl (ServiceUnavailableException (mm_message mm)), w)
          else createGroup_body allowed dto adminWallet uid w
      | Some None \<Rightarrow> createGroup_body allowed dto adminWallet uid w)"

definition createGroup :: "string list \<Rightarrow> group_dto \<Rightarrow> wallet \<Rightarrow> uuid option \<Rightarrow> rosca_group io" where
  "createGroup = createGroup_with None"

definition findAll :: "int \<Rightarrow> int \<Rightarrow> bool \<Rightarrow> string option \<Rightarrow> world \<Rightarrow> rosca_group list \<times> int \<times> int \<times> int" where
  "findAll page limit includeArchived filt w =
     (let rows = filter (\<lambda>g. (includeArchived \<or> g_deletedAt g = None)
             \<and> (filt = Some ''stale'' \<longrightarrow> g_staleAt g \<noteq> None)) (groups w)
      in (page_of page limit (sort_key (\<lambda>g. - g_createdAt g) rows), int (length rows), page, limit))"

definition findOne :: "uuid \<Rightarrow> (rosca_group \<times> membership list) io" where
  "findOne gid w =
     (case find_group gid w of
        None \<Rightarrow> (Inl (NotFoundException (''Group with id '' @ gid @ '' not found'')), w)
      | Some g \<Rightarrow> (Inr (g, group_members gid w), w))"

record group_patch =
  gp_name :: "string option"
  gp_adminWallet :: "wallet option"
  gp_contributionAmount :: "string option"
  gp_token :: "string option"
  gp_roundDuration :: "int option"
  gp_totalRounds :: "int option"
  gp_contractAddress :: "string option"

definition patched :: "'a option \<Rightarrow> 'a \<Rightarrow> 'a" where
  "patched p x = (case p of None \<Rightarrow> x | Some y \<Rightarrow> y)"

definition apply_patch :: "group_patch \<Rightarrow> rosca_group \<Rightarrow> rosca_group" where
  "apply_patch p g = g
     \<lparr>g_name := patched (gp_name p) (g_name g), g_adminWallet := patched (gp_adminWallet p) (g_adminWallet g),
      g_contributionAmount := patched (gp_contributionAmount p) (g_contributionAmount g),
      g_token := patched (gp_token p) (g_token g),
      g_roundDuration := patched (gp_roundDuration p) (g_roundDuration g),
      g_totalRounds := patched (gp_totalRounds p) (g_totalRounds g),
      g_contractAddress := (case gp_contractAddress p of None \<Rightarrow> g_contractAddress g | Some c \<Rightarrow> Some c)\<rparr>"

definition update :: "uuid \<Rightarrow> group_patch \<Rightarrow> wallet \<Rightarrow> rosca_group io" where
  "update gid p requestingAdminWallet w =
     (case find_group gid w of
        None \<Rightarrow> (Inl (NotFoundException (''Group with id '' @ gid @ '' not found'')), w)
      | Some g \<Rightarrow>
          if g_adminWallet g \<noteq> requestingAdminWallet
          then (Inl (ForbiddenException ''Only the group admin can update this group''), w)
          else if g_status g \<noteq> GS_PENDING
          then (Inl (BadRequestException (''Cannot update group metadata after it becomes ''
                  @ show_group_status (g_status g) @ ''. Only PENDING groups can be updated.'')), w)
          else (Inr (apply_patch p g), save_group (apply_patch p g) w))"

definition findMyGroups :: "uuid \<Rightarrow> world \<Rightarrow> rosca_group list" where
  "findMyGroups uid w =
     List.map_filter (\<lambda>m. find_group (m_groupId m) w) (filter (\<lambda>m. m_userId m = uid) (memberships w))"

definition softDelete :: "uuid \<Rightarrow> wallet \<Rightarrow> unit io" where
  "softDelete gid adminWallet w =
     (case find_group gid w of
        None \<Rightarrow> (Inl (NotFoundException (''Group with id '' @ gid @ '' not found'')), w)
      | Some g \<Rightarrow>
          if g_adminWallet g \<noteq> adminWallet
          then (Inl (ForbiddenException ''Only the group admin can delete this group''), w)
          else (Inr (), dispatchEvent (GROUP_ARCHIVED gid)
                  (save_group (g\<lparr>g_deletedAt := Some (now w)\<rparr>) w)))"

text \<open>The Fisher-Yates loop: \<open>i\<close> runs from the last index down to 1.\<close>

definition swap :: "nat \<Rightarrow> nat \<Rightarrow> 'a list \<Rightarrow> 'a list" where
  "swap i j xs = xs[i := xs ! j, j := xs ! i]"

fun shuffle_from :: "(nat \<Rightarrow> nat) \<Rightarrow> nat \<Rightarrow> nat list \<Rightarrow> nat list" where
  "shuffle_from rnd 0 xs = xs"
| "shuffle_from rnd (Suc i) xs = shuffle_from rnd i (swap (Suc i) (rnd (Suc i) mod Suc (Suc i)) xs)"

definition random_indices :: "(nat \<Rightarrow> nat) \<Rightarrow> nat \<Rightarrow> nat list" where
  "random_indices rnd n = shuffle_from rnd (n - 1) [0..<n]"

fun assign_orders :: "membership list \<Rightarrow> nat list \<Rightarrow> world \<Rightarrow> world" where
  "assign_orders (m # ms) (i # is) w =
     assign_orders ms is (save_membership (m\<lparr>m_payoutOrder := Some (int i)\<rparr>) w)"
| "assign_orders _ _ w = w"

text \<open>The check of \<open>ADMIN_DEFINED\<close> orders: sorted, they are 0, 1, 2, ...\<close>

definition check_admin_orders :: "membership list \<Rightarrow> unit outcome" where
  "check_admin_orders ms =
     (if \<exists>m \<in> set ms. m_payoutOrder m = None
      then Inl (BadRequestException ''All members must have a payout order for ADMIN_DEFINED strategy'')
      else if sort (map (\<lambda>m. the (m_payoutOrder m)) ms) \<noteq> map int [0..<length ms]
      then Inl (BadRequestException ''Payout orders must be a continuous sequence starting from 0'')
      else Inr ())"

definition arrange_payout_order :: "(nat \<Rightarrow> nat) \<Rightarrow> rosca_group \<Rightarrow> unit io" where
  "arrange_payout_order rnd g w =
     (let members = group_members (g_id g) w
      in case g_payoutOrderStrategy g of
           RANDOM \<Rightarrow> (Inr (), assign_orders members (random_indices rnd (length members)) w)
         | ADMIN_DEFINED \<Rightarrow> (check_admin_orders members, w)
         | SEQUENTIAL \<Rightarrow> (Inr (), w))"

definition activateGroup :: "(rosca_group \<Rightarrow> string outcome) \<Rightarrow> (nat \<Rightarrow> nat) \<Rightarrow> uuid \<Rightarrow> wallet \<Rightarrow> rosca_group io" where
  "activateGroup deploy rnd gid adminWallet w =
     (case find_group gid w of
        None \<Rightarrow> (Inl (NotFoundException ''Group not found''), w)
      | Some g \<Rightarrow>
          if g_adminWallet g \<noteq> adminWallet
          then (Inl (ForbiddenException ''Only the group admin can activate this group''), w)
          else if g_status g \<noteq> GS_PENDING
          then (Inl (BadRequestException ''Group is not in a pending state''), w)
          else if member_count gid w < g_minMembers g
          then (Inl (BadRequestException ''Group does not have enough members''), w)
          else case arrange_payout_order rnd g w of
            (Inl e, w1) \<Rightarrow> (Inl e, w1)
          | (Inr _, w1) \<Rightarrow>
              let g1 = g\<lparr>g_status := GS_ACTIVE, g_currentRound := 1\<rparr>;
                  w2 = save_group g1 w1
              in case deploy g1 of
                   Inr addr \<Rightarrow>
                     let g2 = g1\<lparr>g_contractAddress := Some addr\<rparr>
                     in (Inr g2, dispatchEvent (GROUP_ACTIVATED gid (g_totalRounds g) (member_count gid w))
                           (save_group g2 w2))
                 | Inl _ \<Rightarrow>
                     (Inl (BadRequestException ''Failed to deploy on-chain contract; activation rolled back''),
                      save_group (g1\<lparr>g_status := GS_PENDING, g_currentRound := 0\<rparr>) w2))"

definition transferAdmin :: "uuid \<Rightarrow> wallet \<Rightarrow> uuid \<Rightarrow> rosca_group io" where
  "transferAdmin gid adminWallet newAdminUserId w =
     (case find_group gid w of
        None \<Rightarrow> (Inl (NotFoundException ''Group not found''), w)
      | Some g \<Rightarrow>
          if g_adminWallet g \<noteq> adminWallet
          then (Inl (ForbiddenException ''Only the current admin can transfer ownership''), w)
          else case List.find (\<lambda>m. m_groupId m = gid \<and> m_userId m = newAdminUserId \<and> m_status m = MS_ACTIVE)
                      (memberships w) of
            None \<Rightarrow> (Inl (BadRequestException ''Target user must be an active member of the group''), w)
          | Some m \<Rightarrow>
              let g1 = g\<lparr>g_adminWallet := m_walletAddress m\<rparr>;
                  w1 = save_group g1 w;
                  w2 = w1\<lparr>audit_log := audit_log w1 @ [\<lparr>a_userId = gid, a_action = ''GROUP_ADMIN_TRANSFER'',
                         a_resource = ''Group''\<rparr>]\<rparr>;
                  to_new = plain_dto newAdminUserId ADMIN_TRANSFERRED ''Group Admin Ownership Transferred''
                             (''You are now the admin of group \"'' @ g_name g @ ''\"'');
                  to_old = (case find_membership_by_wallet gid (g_adminWallet g) w2 of
                              None \<Rightarrow> []
                            | Some old \<Rightarrow> [plain_dto (m_userId old) ADMIN_TRANSFERRED
                                ''Group Admin Ownership Transferred''
                                (''You have transferred admin ownership of group \"'' @ g_name g
                                 @ ''\" to another member'')])
              in case notifyBatch (to_new # to_old) w2 of
                   (Inl e, w3) \<Rightarrow> (Inl e, w3)
                 | (Inr _, w3) \<Rightarrow> (Inr g1, w3))"

text \<open>The loop that resets the payment flags, one \<open>save\<close> per member.\<close>

fun reset_paid :: "membership list \<Rightarrow> world \<Rightarrow> world" where
  "reset_paid [] w = w"
| "reset_paid (m # ms) w = reset_paid ms (save_membership (m\<lparr>m_hasPaidCurrentRound := False\<rparr>) w)"

text \<open>The transaction of \<open>advanceRound\<close>; \<open>recipient\<close> and \<open>txHash\<close> come from before it.\<close>

definition advanceRound_tx :: "uuid \<Rightarrow> membership option \<Rightarrow> string option \<Rightarrow> rosca_group io" where
  "advanceRound_tx gid recipient txHash w =
     (case find_group gid w of
        None \<Rightarrow> (Inl (NotFoundException ''Group not found''), w)
      | Some g \<Rightarrow>
          let w1 = (if recipient \<noteq> None \<and> truthy txHash
                    then (case List.find (\<lambda>m. m_id m = m_id (the recipient)) (group_members gid w) of
                            None \<Rightarrow> w
                          | Some m \<Rightarrow> save_membership (m\<lparr>m_transactionHash := txHash\<rparr>) w)
                    else w);
              g1 = g\<lparr>g_currentRound := g_currentRound g + 1, g_staleAt := None\<rparr>
          in if g_currentRound g1 > g_totalRounds g1
             then let g2 = g1\<lparr>g_status := GS_COMPLETED\<rparr> in (Inr g2, save_group g2 w1)
             else (Inr g1, save_group g1 (reset_paid (group_members gid w1) w1)))"

definition round_opened_dto :: "rosca_group \<Rightarrow> int \<Rightarrow> membership \<Rightarrow> notify_dto" where
  "round_opened_dto g round m =
     (plain_dto (m_userId m) ROUND_OPENED ''New Round Started''
        (''Round '' @ show_int round @ '' has started for group \"'' @ g_name g @ ''\"''))
     \<lparr>nd_idempotencyKey := Some (g_id g @ ''-'' @ show_int round @ ''-'' @ m_userId m @ ''-ROUND_OPENED'')\<rparr>"

definition advanceRound ::
  "(string \<Rightarrow> wallet \<Rightarrow> string \<Rightarrow> string outcome) \<Rightarrow> uuid \<Rightarrow> wallet \<Rightarrow> rosca_group io" where
  "advanceRound disburse gid adminWallet w =
     (case find_group gid w of
        None \<Rightarrow> (Inl (NotFoundException ''Group not found''), w)
      | Some g \<Rightarrow>
          if g_adminWallet g \<noteq> adminWallet
          then (Inl (ForbiddenException ''Only the group admin can advance rounds''), w)
          else if g_status g \<noteq> GS_ACTIVE
          then (Inl (BadRequestException ''Group must be ACTIVE to advance rounds''), w)
          else if \<exists>m \<in> set (group_members gid w). \<not> m_hasPaidCurrentRound m
          then (Inl (BadRequestException ''All members must pay before advancing to the next round''), w)
          else let recipient = find_membership_by_order gid (g_currentRound g - 1) w in
          case (if recipient \<noteq> None \<and> truthy (g_contractAddress g)
                then (case disburse (the (g_contractAddress g)) (m_walletAddress (the recipient)) (g_contributionAmount g) of
                        Inl _ \<Rightarrow> Inl (InternalServerErrorException ''On-chain payout failed; round not advanced'')
                      | Inr h \<Rightarrow> Inr (Some h))
                else Inr None) of
            Inl e \<Rightarrow> (Inl e, w)
          | Inr txHash \<Rightarrow>
              (case transaction (advanceRound_tx gid recipient txHash) w of
                 (Inl e, w1) \<Rightarrow> (Inl e, w1)
               | (Inr g1, w1) \<Rightarrow>
                   if g_status g1 \<noteq> GS_COMPLETED
                   then (case notifyBatch (map (round_opened_dto g (g_currentRound g1)) (group_members gid w)) w1 of
                           (Inl e, w2) \<Rightarrow> (Inl e, w2)
                         | (Inr _, w2) \<Rightarrow> (Inr g1, w2))
                   else (Inr g1, w1)))"

definition getContractState :: "(string \<Rightarrow> 's outcome) \<Rightarrow> uuid \<Rightarrow> world \<Rightarrow> 's outcome" where
  "getContractState fetch gid w =
     (case find_group gid w of
        None \<Rightarrow> Inl (NotFoundException ''Group not found'')
      | Some g \<Rightarrow>
          if \<not> truthy (g_contractAddress g)
          then Inl (BadRequestException ''Group has no contract address. Contract may not be deployed yet.'')
          else fetch (the (g_contractAddress g)))"

lemmas group_handlers [handler_defs] =
  createGroup_def update_def softDelete_def activateGroup_def transferAdmin_def advanceRound_def

subsection \<open>Saving the members of a group one by one\<close>

lemma fold_save_membership:
  assumes "distinct (map m_id (memberships w))" "distinct (map m_id ms)"
    and "m_id ` set ms \<subseteq> m_id ` set (memberships w)"
  shows "fold save_membership ms w = w\<lparr>memberships :=
    map (\<lambda>x. case List.find (\<lambda>m. m_id m = m_id x) ms of Some m \<Rightarrow> m | None \<Rightarrow> x) (memberships w)\<rparr>"
  using assms
proof (induction ms arbitrary: w)
  case Nil
  then show ?case by simp
next
  case (Cons m ms)
  let ?t = "map (\<lambda>x. if m_id x = m_id m then m else x) (memberships w)"
  have mem: "m_id m \<in> m_id ` set (memberships w)" using Cons.prems(3) by simp
  then have save: "save_membership m w = w\<lparr>memberships := ?t\<rparr>"
    by (simp add: save_membership_def save_row_def)
  have ids: "map m_id ?t = map m_id (memberships w)" by simp
  then have "m_id ` set ?t = m_id ` set (memberships w)" by (metis list.set_map)
  moreover have "List.find (\<lambda>x. m_id x = m_id m) ms = None"
    using Cons.prems(2) by (simp add: find_None_all) (metis image_eqI)
  ultimately have pt: "(case List.find (\<lambda>y. m_id y = m_id (if m_id x = m_id m then m else x)) ms of
      Some y \<Rightarrow> y | None \<Rightarrow> (if m_id x = m_id m then m else x))
    = (case List.find (\<lambda>y. m_id y = m_id x) (m # ms) of Some y \<Rightarrow> y | None \<Rightarrow> x)" for x
    by simp
  define w1 where "w1 = w\<lparr>memberships := ?t\<rparr>"
  have t: "memberships w1 = ?t" by (simp add: w1_def)
  have "distinct (map m_id (memberships w1))" unfolding t ids by (rule Cons.prems(1))
  moreover have "distinct (map m_id ms)" using Cons.prems(2) by simp
  moreover have "m_id ` set ms \<subseteq> m_id ` set (memberships w1)"
    unfolding t \<open>m_id ` set ?t = m_id ` set (memberships w)\<close> using Cons.prems(3) by simp
  ultimately have IH: "fold save_membership ms w1 = w1\<lparr>memberships :=
      map (\<lambda>x. case List.find (\<lambda>y. m_id y = m_id x) ms of Some y \<Rightarrow> y | None \<Rightarrow> x) (memberships w1)\<rparr>"
    by (rule Cons.IH)
  have "fold save_membership (m # ms) w = fold save_membership ms w1"
    by (simp add: save w1_def)
  then show ?case unfolding IH t map_map comp_def pt by (simp add: w1_def)
qed

lemma find_map_same_ids:
  assumes "distinct (map m_id ms')" "map m_id ms = map m_id ms'"
  shows "map (\<lambda>x. case List.find (\<lambda>m. m_id m = m_id x) ms' of Some m \<Rightarrow> m | None \<Rightarrow> x) ms = ms'"
proof (rule nth_equalityI)
  have len: "length ms = length ms'" using assms(2) by (metis length_map)
  then show "length (map (\<lambda>x. case List.find (\<lambda>m. m_id m = m_id x) ms' of Some m \<Rightarrow> m | None \<Rightarrow> x) ms) = length ms'"
    by simp
  fix i assume "i < length (map (\<lambda>x. case List.find (\<lambda>m. m_id m = m_id x) ms' of Some m \<Rightarrow> m | None \<Rightarrow> x) ms)"
  then have i: "i < length ms" "i < length ms'" using len by simp_all
  have id: "m_id (ms ! i) = m_id (ms' ! i)" using assms(2) i by (metis nth_map)
  have "List.find (\<lambda>m. m_id m = m_id (ms ! i)) ms' = Some (ms' ! i)"
  proof (rule find_unique)
    fix x assume "x \<in> set ms'" "m_id x = m_id (ms ! i)"
    then show "x = ms' ! i"
      using assms(1) id i(2) by (metis distinct_map inj_on_eq_iff nth_mem)
  qed (use i id in simp_all)
  then show "map (\<lambda>x. case List.find (\<lambda>m. m_id m = m_id x) ms' of Some m \<Rightarrow> m | None \<Rightarrow> x) ms ! i = ms' ! i"
    using i by simp
qed

text \<open>Saving a new version of every member of a group replaces the group's members and leaves
  the other groups alone.\<close>

lemma save_all_members:
  assumes "keys_ok w" "map m_id ms' = map m_id (group_members gid w)" "\<forall>m \<in> set ms'. m_groupId m = gid"
  shows "group_members gid (fold save_membership ms' w) = ms'"
    and "k \<noteq> gid \<Longrightarrow> group_members k (fold save_membership ms' w) = group_members k w"
    and "fold save_membership ms' w = w\<lparr>memberships := memberships (fold save_membership ms' w)\<rparr>"
proof -
  let ?f = "\<lambda>x. case List.find (\<lambda>m. m_id m = m_id x) ms' of Some m \<Rightarrow> m | None \<Rightarrow> x"
  have dt: "distinct (map m_id (memberships w))" using assms(1) by (simp add: keys_ok_def)
  then have dist: "distinct (map m_id ms')" unfolding assms(2) group_members_def by (rule distinct_map_filter)
  have "m_id ` set ms' = m_id ` set (group_members gid w)" using assms(2) by (metis list.set_map)
  then have "m_id ` set ms' \<subseteq> m_id ` set (memberships w)" by auto
  note eq = fold_save_membership [OF dt dist this]
  show "fold save_membership ms' w = w\<lparr>memberships := memberships (fold save_membership ms' w)\<rparr>"
    unfolding eq by simp
  have grp: "m_groupId (?f x) = m_groupId x" if x: "x \<in> set (memberships w)" for x
  proof (cases "List.find (\<lambda>m. m_id m = m_id x) ms'")
    case (Some m)
    then have m: "m \<in> set ms'" "m_id m = m_id x" by (auto dest: find_Some_mem)
    then have "m_id x \<in> set (map m_id (group_members gid w))"
      unfolding assms(2) [symmetric] by (metis imageI list.set_map)
    then obtain y where "y \<in> set (memberships w)" "m_groupId y = gid" "m_id y = m_id x" by auto
    moreover from this(1,3) x have "y = x" by (intro membership_by_id [OF assms(1)])
    ultimately show ?thesis using Some m assms(3) by simp
  qed simp
  have fm: "group_members k (fold save_membership ms' w) = map ?f (group_members k w)" for k
    unfolding eq group_members_def using grp by (simp add: filter_map comp_def cong: filter_cong)
  show "group_members gid (fold save_membership ms' w) = ms'"
    unfolding fm by (rule find_map_same_ids [OF dist]) (simp add: assms(2))
  show "group_members k (fold save_membership ms' w) = group_members k w" if k: "k \<noteq> gid"
    unfolding fm
  proof (rule map_idI)
    fix x assume "x \<in> set (group_members k w)"
    then have "x \<in> set (memberships w)" "m_groupId x = k" by simp_all
    then have "List.find (\<lambda>m. m_id m = m_id x) ms' = None"
      using grp [of x] k assms(3) by (cases "List.find (\<lambda>m. m_id m = m_id x) ms'") (auto dest: find_Some_mem)
    then show "?f x = x" by simp
  qed
qed

lemma reset_paid_fold: "reset_paid ms w = fold save_membership (map (\<lambda>m. m\<lparr>m_hasPaidCurrentRound := False\<rparr>) ms) w"
  by (induction ms arbitrary: w) simp_all

lemma assign_orders_fold:
  "assign_orders ms is w = fold save_membership (map2 (\<lambda>m i. m\<lparr>m_payoutOrder := Some (int i)\<rparr>) ms is) w"
  by (induction ms "is" w rule: assign_orders.induct) simp_all

lemma keys_ok_fold_save:
  assumes "keys_ok w" "\<forall>m \<in> set ms. \<exists>x \<in> set (memberships w). m_id m = m_id x \<and> m_groupId m = m_groupId x \<and> m_userId m = m_userId x"
  shows "keys_ok (fold save_membership ms w)"
  using assms
proof (induction ms arbitrary: w)
  case (Cons m ms)
  obtain x where x: "x \<in> set (memberships w)" "m_id m = m_id x" "m_groupId m = m_groupId x" "m_userId m = m_userId x"
    using Cons.prems(2) by auto
  have "\<exists>y \<in> set (memberships (save_membership m w)). m_id k = m_id y \<and> m_groupId k = m_groupId y \<and> m_userId k = m_userId y"
    if k: "k \<in> set ms" for k
  proof -
    obtain z where z: "z \<in> set (memberships w)" "m_id k = m_id z" "m_groupId k = m_groupId z" "m_userId k = m_userId z"
      using Cons.prems(2) k by auto
    show ?thesis
    proof (cases "m_id z = m_id m")
      case True
      then have "z = x" using x z by (intro membership_by_id [OF Cons.prems(1)]) simp_all
      with x z show ?thesis by (intro bexI [of _ m]) (simp_all add: save_membership_def set_save_row)
    next
      case False
      with z show ?thesis by (intro bexI [of _ z]) (simp_all add: save_membership_def set_save_row)
    qed
  qed
  moreover have "keys_ok (save_membership m w)"
    using keys_ok_save_membership [OF Cons.prems(1) x] .
  ultimately show ?case using Cons.IH by simp
qed simp

subsection \<open>The stored group\<close>

lemma save_group_frame [simp]:
  "users (save_group g w) = users w" "memberships (save_group g w) = memberships w"
  "waitlist (save_group g w) = waitlist w" "uuid_count (save_group g w) = uuid_count w"
  "payout_txs (save_group g w) = payout_txs w" "penalties (save_group g w) = penalties w"
  "now (save_group g w) = now w" "contributions (save_group g w) = contributions w"
  by (simp_all add: save_group_def)

lemma group_members_save_group [simp]: "group_members gid (save_group g w) = group_members gid w"
  by (simp add: group_members_def)

lemma member_count_save_group [simp]: "member_count gid (save_group g w) = member_count gid w"
  by (simp add: member_count_def)

lemma dispatchEvent_frame [simp]:
  "users (dispatchEvent e w) = users w" "memberships (dispatchEvent e w) = memberships w"
  "groups (dispatchEvent e w) = groups w" "waitlist (dispatchEvent e w) = waitlist w"
  "uuid_count (dispatchEvent e w) = uuid_count w" "payout_txs (dispatchEvent e w) = payout_txs w"
  "penalties (dispatchEvent e w) = penalties w" "now (dispatchEvent e w) = now w"
  "contributions (dispatchEvent e w) = contributions w"
  by (simp_all add: dispatchEvent_def)

lemma keys_ok_dispatchEvent [simp]: "keys_ok (dispatchEvent e w) = keys_ok w"
  by (simp add: keys_ok_def used_uuid_def)

lemma keys_ok_save_group:
  assumes "keys_ok w" shows "keys_ok (save_group g w)"
proof -
  have "distinct (map g_id (save_row g_id g (groups w)))"
    by (rule distinct_save_row) (use assms in \<open>simp add: keys_ok_def\<close>)
  with assms show ?thesis unfolding keys_ok_def by (simp add: save_group_def used_uuid_def)
qed

lemma set_groups_save: "set (groups (save_group g w)) = insert g {x \<in> set (groups w). g_id x \<noteq> g_id g}"
  by (simp add: save_group_def set_save_row)

lemma find_group_save: "g_deletedAt g = None \<Longrightarrow> find_group (g_id g) (save_group g w) = Some g"
  unfolding find_group_def by (rule find_unique) (auto simp: set_groups_save)

lemma find_group_save_other:
  assumes "gid \<noteq> g_id g" shows "find_group gid (save_group g w) = find_group gid w"
proof -
  have "List.find (\<lambda>x. g_id x = gid \<and> g_deletedAt x = None) (map (\<lambda>x. if g_id x = g_id g then g else x) t)
      = List.find (\<lambda>x. g_id x = gid \<and> g_deletedAt x = None) t" for t
    using assms by (induction t) auto
  moreover have "List.find (\<lambda>x. g_id x = gid \<and> g_deletedAt x = None) (t @ [g])
      = List.find (\<lambda>x. g_id x = gid \<and> g_deletedAt x = None) t" for t
    using assms by (induction t) auto
  ultimately show ?thesis by (simp add: find_group_def save_group_def save_row_def)
qed

lemma save_group_twice: "g_id g' = g_id g \<Longrightarrow> save_group g' (save_group g w) = save_group g' w"
  unfolding save_group_def by (rule group_store.save_twice)

lemma save_group_same: 
  assumes "keys_ok w" "g \<in> set (groups w)" shows "save_group g w = w"
proof -
  have "x = g" if "x \<in> set (groups w)" "g_id x = g_id g" for x
    using that by (intro group_by_id [OF assms(1) _ assms(2)])
  then have "map (\<lambda>x. if g_id x = g_id g then g else x) (groups w) = groups w"
    by (intro map_idI) auto
  with assms(2) show ?thesis by (simp add: save_group_def save_row_def)
qed

text \<open>The life of a group: PENDING in round 0, ACTIVE in rounds 1, ..., \<open>totalRounds\<close>, COMPLETED
  one past the last round.\<close>

definition lifecycle :: "rosca_group \<Rightarrow> bool" where
  "lifecycle g \<longleftrightarrow> 1 \<le> g_totalRounds g \<and>
     (case g_status g of
        GS_PENDING \<Rightarrow> g_currentRound g = 0
      | GS_ACTIVE \<Rightarrow> 1 \<le> g_currentRound g \<and> g_currentRound g \<le> g_totalRounds g
      | GS_COMPLETED \<Rightarrow> g_currentRound g = g_totalRounds g + 1)"

definition groups_ok :: "world \<Rightarrow> bool" where
  "groups_ok w \<longleftrightarrow> (\<forall>g \<in> set (groups w). lifecycle g)"

lemma groups_okD: "groups_ok w \<Longrightarrow> find_group gid w = Some g \<Longrightarrow> lifecycle g"
  using find_groupD by (auto simp: groups_ok_def)

lemma groups_ok_save: "groups_ok w \<Longrightarrow> lifecycle g \<Longrightarrow> groups_ok (save_group g w)"
  by (auto simp: groups_ok_def set_groups_save)

lemma groups_ok_cong: "groups w' = groups w \<Longrightarrow> groups_ok w' = groups_ok w"
  by (simp add: groups_ok_def)

subsection \<open>Activation\<close>

lemma length_shuffle [simp]: "length (shuffle_from rnd i xs) = length xs"
  by (induction rnd i xs rule: shuffle_from.induct) (simp_all add: swap_def)

lemma mset_shuffle: "i < length xs \<Longrightarrow> mset (shuffle_from rnd i xs) = mset xs"
proof (induction rnd i xs rule: shuffle_from.induct)
  case (2 rnd i xs)
  have "rnd (Suc i) mod Suc (Suc i) < Suc (Suc i)" by (rule mod_less_divisor) simp
  with 2(2) have "rnd (Suc i) mod Suc (Suc i) < length xs" by linarith
  then have "mset (swap (Suc i) (rnd (Suc i) mod Suc (Suc i)) xs) = mset xs"
    unfolding swap_def using 2(2) by (rule mset_swap)
  moreover have "i < length (swap (Suc i) (rnd (Suc i) mod Suc (Suc i)) xs)"
    using 2 by (simp add: swap_def)
  ultimately show ?case using 2(1) by simp
qed simp

lemma mset_random_indices: "mset (random_indices rnd n) = mset [0..<n]"
proof (cases "n = 0")
  case False
  then show ?thesis unfolding random_indices_def by (intro mset_shuffle) simp
qed (simp add: random_indices_def)

lemma random_indices_permutation:
  "length (random_indices rnd n) = n" "distinct (random_indices rnd n)" "set (random_indices rnd n) = {..<n}"
  using mset_eq_length [OF mset_random_indices [of rnd n]] mset_eq_setD [OF mset_random_indices [of rnd n]]
    mset_eq_imp_distinct_iff [OF mset_random_indices [of rnd n]]
  by (simp_all add: atLeast0LessThan)

lemma contiguous_ordersI:
  assumes "\<forall>m \<in> set (group_members gid w). m_payoutOrder m \<noteq> None"
    and "mset (map (\<lambda>m. the (m_payoutOrder m)) (group_members gid w)) = mset (map int [0..<length (group_members gid w)])"
  shows "contiguous_orders gid w"
proof -
  let ?ms = "group_members gid w"
  have ord: "orders gid w = map (\<lambda>m. the (m_payoutOrder m)) ?ms"
    using assms(1) by (simp add: orders_def map_filter_def filter_id_conv comp_def)
  then have "mset (orders gid w) = mset (map int [0..<length ?ms])" using assms(2) by simp
  then have "set (orders gid w) = set (map int [0..<length ?ms])"
    and "distinct (orders gid w) = distinct (map int [0..<length ?ms])"
    by (rule mset_eq_setD, rule mset_eq_imp_distinct_iff)
  moreover have "set (map int [0..<length ?ms]) = {0 ..< member_count gid w}"
    using image_int_atLeastLessThan [of 0 "length ?ms"] by (simp add: member_count_length)
  moreover have "distinct (map int [0..<length ?ms])" by (simp add: distinct_map inj_on_def)
  ultimately show ?thesis using assms(1) by (simp add: contiguous_orders_def)
qed

lemma arrange_contiguous:
  assumes "keys_ok w" "arrange_payout_order rnd g w = (Inr u, w1)" "g_payoutOrderStrategy g \<noteq> SEQUENTIAL"
  shows "contiguous_orders (g_id g) w1"
proof (cases "g_payoutOrderStrategy g")
  case SEQUENTIAL
  with assms(3) show ?thesis by simp
next
  case RANDOM
  let ?ms = "group_members (g_id g) w" and ?is = "random_indices rnd (length (group_members (g_id g) w))"
  let ?ms' = "map2 (\<lambda>m i. m\<lparr>m_payoutOrder := Some (int i)\<rparr>) ?ms ?is"
  have len: "length ?is = length ?ms" by (rule random_indices_permutation)
  have w1: "w1 = fold save_membership ?ms' w"
    using assms(2) RANDOM by (simp add: arrange_payout_order_def assign_orders_fold Let_def)
  have ids: "map m_id ?ms' = map m_id ?ms"
    by (rule nth_equalityI) (simp_all add: len)
  have grp: "\<forall>m \<in> set ?ms'. m_groupId m = g_id g" by (auto dest!: set_zip_leftD)
  have mem: "group_members (g_id g) w1 = ?ms'"
    unfolding w1 by (rule save_all_members [OF assms(1) ids grp])
  have "map (\<lambda>m. the (m_payoutOrder m)) ?ms' = map int ?is"
    by (rule nth_equalityI) (simp_all add: len)
  then have "mset (map (\<lambda>m. the (m_payoutOrder m)) ?ms') = mset (map int [0..<length ?ms])"
    using mset_random_indices by simp
  then show ?thesis
    by (intro contiguous_ordersI) (auto simp: mem len)
next
  case ADMIN_DEFINED
  then have w1: "w1 = w" and ok: "check_admin_orders (group_members (g_id g) w) = Inr u"
    using assms(2) by (auto simp: arrange_payout_order_def)
  then have "sort (map (\<lambda>m. the (m_payoutOrder m)) (group_members (g_id g) w))
      = map int [0..<length (group_members (g_id g) w)]"
    by (simp add: check_admin_orders_def split: if_splits)
  then have "mset (map (\<lambda>m. the (m_payoutOrder m)) (group_members (g_id g) w))
      = mset (map int [0..<length (group_members (g_id g) w)])" by (metis mset_sort)
  moreover have "\<forall>m \<in> set (group_members (g_id g) w). m_payoutOrder m \<noteq> None"
    using ok unfolding check_admin_orders_def by (metis Inl_Inr_False)
  ultimately show ?thesis unfolding w1 by (intro contiguous_ordersI)
qed

lemma arrange_frame:
  assumes "keys_ok w" "arrange_payout_order rnd g w = (r, w1)"
  shows "w1 = w\<lparr>memberships := memberships w1\<rparr> \<and> keys_ok w1 \<and> member_count k w1 = member_count k w"
proof (cases "g_payoutOrderStrategy g = RANDOM")
  case True
  let ?ms = "group_members (g_id g) w" and ?is = "random_indices rnd (length (group_members (g_id g) w))"
  let ?ms' = "map2 (\<lambda>m i. m\<lparr>m_payoutOrder := Some (int i)\<rparr>) ?ms ?is"
  have len: "length ?is = length ?ms" by (rule random_indices_permutation)
  have w1: "w1 = fold save_membership ?ms' w"
    using assms(2) True by (simp add: arrange_payout_order_def assign_orders_fold Let_def)
  have ids: "map m_id ?ms' = map m_id ?ms" by (rule nth_equalityI) (simp_all add: len)
  have grp: "\<forall>m \<in> set ?ms'. m_groupId m = g_id g" by (auto dest!: set_zip_leftD)
  note all = save_all_members [OF assms(1) ids grp]
  have "keys_ok w1" unfolding w1
    by (rule keys_ok_fold_save [OF assms(1)]) (auto dest!: set_zip_leftD)
  moreover have "member_count k w1 = member_count k w"
    using all(1,2) len by (cases "k = g_id g") (simp_all add: w1 member_count_length)
  ultimately show ?thesis using all(3) by (simp only: w1)
next
  case False
  then show ?thesis
    using assms by (cases "g_payoutOrderStrategy g") (auto simp: arrange_payout_order_def Let_def)
qed

lemma arrange_Inr_or_same: "arrange_payout_order rnd g w = (Inl e, w1) \<Longrightarrow> w1 = w"
  by (cases "g_payoutOrderStrategy g") (auto simp: arrange_payout_order_def Let_def)

lemma activateGroup_cases:
  assumes "activateGroup deploy rnd gid a w = (r, w')"
  obtains (refused) e where "r = Inl e" "w' = w"
  | (deployed) g w1 addr where "find_group gid w = Some g" "g_adminWallet g = a" "g_status g = GS_PENDING"
      "g_minMembers g \<le> member_count gid w" "arrange_payout_order rnd g w = (Inr (), w1)"
      "r = Inr (g\<lparr>g_status := GS_ACTIVE, g_currentRound := 1, g_contractAddress := Some addr\<rparr>)"
      "w' = dispatchEvent (GROUP_ACTIVATED gid (g_totalRounds g) (member_count gid w))
        (save_group (g\<lparr>g_status := GS_ACTIVE, g_currentRound := 1, g_contractAddress := Some addr\<rparr>) w1)"
      "deploy (g\<lparr>g_status := GS_ACTIVE, g_currentRound := 1\<rparr>) = Inr addr"
  | (failed) g w1 where "find_group gid w = Some g" "g_status g = GS_PENDING"
      "arrange_payout_order rnd g w = (Inr (), w1)"
      "r = Inl (BadRequestException ''Failed to deploy on-chain contract; activation rolled back'')"
      "w' = save_group (g\<lparr>g_status := GS_PENDING, g_currentRound := 0\<rparr>) w1"
proof (cases "find_group gid w")
  case None
  then show thesis using assms refused by (auto simp: activateGroup_def)
next
  case (Some g)
  show thesis
  proof (cases "g_adminWallet g = a \<and> g_status g = GS_PENDING \<and> g_minMembers g \<le> member_count gid w")
    case False
    then show thesis using assms Some refused by (auto simp: activateGroup_def split: if_splits)
  next
    case ok: True
    obtain x w1 where arr: "arrange_payout_order rnd g w = (x, w1)" by (cases "arrange_payout_order rnd g w")
    let ?g1 = "g\<lparr>g_status := GS_ACTIVE, g_currentRound := 1\<rparr>"
    show thesis
    proof (cases x)
      case (Inl e)
      then have "r = Inl e" "w' = w"
        using assms Some ok arr arrange_Inr_or_same [of rnd g w e w1] by (simp_all add: activateGroup_def)
      then show thesis by (rule refused)
    next
      case (Inr u)
      show thesis
      proof (cases "deploy ?g1")
        case (Inl e)
        then show thesis
          using assms Some ok arr Inr by (intro failed) (auto simp: activateGroup_def Let_def save_group_twice)
      next
        case (Inr addr)
        then show thesis
          using assms Some ok arr \<open>x = Inr u\<close>
          by (intro deployed [of g w1 addr]) (auto simp: activateGroup_def Let_def save_group_twice)
      qed
    qed
  qed
qed

text \<open>
  C8: A group becomes ACTIVE only with its contract deployed, enough members and, for the RANDOM
  and ADMIN_DEFINED strategies, a payout order that numbers the members 0, ..., n - 1. The stored
  group is the PENDING one from before, now ACTIVE in round 1 with the address the deployment answered,
  and only its admin could activate it.
\<close>

theorem activateGroup_correct:
  assumes "keys_ok w" "activateGroup deploy rnd gid a w = (Inr g', w')"
  shows "find_group gid w' = Some g' \<and> g_status g' = GS_ACTIVE \<and> g_currentRound g' = 1 \<and>
    g_minMembers g' \<le> member_count gid w' \<and>
    (\<exists>g addr. find_group gid w = Some g \<and> g_status g = GS_PENDING \<and> g_adminWallet g = a \<and>
       deploy (g\<lparr>g_status := GS_ACTIVE, g_currentRound := 1\<rparr>) = Inr addr \<and>
       g' = g\<lparr>g_status := GS_ACTIVE, g_currentRound := 1, g_contractAddress := Some addr\<rparr>) \<and>
    (g_payoutOrderStrategy g' \<noteq> SEQUENTIAL \<longrightarrow> contiguous_orders gid w')"
  using assms(2)
proof (cases rule: activateGroup_cases)
  case (deployed g w1 addr)
  have g: "g_id g = gid" "g_deletedAt g = None" using find_groupD [OF deployed(1)] by simp_all
  note frame = arrange_frame [OF assms(1) deployed(5), of gid]
  have "find_group (g_id g') (save_group g' w1) = Some g'"
    using deployed(6) g by (intro find_group_save) simp
  then have "find_group gid w' = Some g'"
    using deployed(6,7) g by (simp add: find_group_def)
  moreover have "member_count gid w' = member_count gid w"
    using frame by (simp add: deployed(7) member_count_def)
  moreover have "contiguous_orders gid w'" if "g_payoutOrderStrategy g' \<noteq> SEQUENTIAL"
  proof -
    have "contiguous_orders (g_id g) w1"
      using that deployed(6) by (intro arrange_contiguous [OF assms(1) deployed(5)]) simp
    then show ?thesis
      by (simp add: g deployed(7) contiguous_orders_def orders_def group_members_def member_count_def)
  qed
  ultimately show ?thesis using deployed by simp
qed simp_all

text \<open>
  A failed activation leaves every group as it was: whatever the reason of the failure (a
  missing group, the wrong admin, a wrong status, too few members, a bad payout order or a failed
  deployment), the groups table and the number of members are unchanged.
\<close>

theorem activateGroup_failure_rolls_back:
  assumes "keys_ok w" "groups_ok w" "activateGroup deploy rnd gid a w = (Inl e, w')"
  shows "groups w' = groups w \<and> member_count k w' = member_count k w"
  using assms(3)
proof (cases rule: activateGroup_cases)
  case (failed g w1)
  note frame = arrange_frame [OF assms(1) failed(3), of k]
  have "g_currentRound g = 0"
    using groups_okD [OF assms(2) failed(1)] failed(2) by (simp add: lifecycle_def)
  then have "g\<lparr>g_status := GS_PENDING, g_currentRound := 0\<rparr> = g" using failed(2) by (cases g) simp
  then have "w' = save_group g w1" using failed(5) by simp
  moreover have "groups w1 = groups w" using arg_cong [OF conjunct1 [OF frame], of groups] by simp
  moreover have "g \<in> set (groups w)" using find_groupD [OF failed(1)] by simp
  ultimately have "w' = w1" using frame by (simp add: save_group_same)
  with frame \<open>groups w1 = groups w\<close> show ?thesis by simp
qed simp_all

subsection \<open>Advancing a round\<close>

text \<open>Two versions of a membership that differ in the payment flag and the transaction hash only.\<close>

definition same_member :: "membership \<Rightarrow> membership \<Rightarrow> bool" where
  "same_member m m' \<longleftrightarrow>
     m_id m' = m_id m \<and> m_groupId m' = m_groupId m \<and> m_userId m' = m_userId m \<and>
     m_walletAddress m' = m_walletAddress m \<and> m_payoutOrder m' = m_payoutOrder m \<and>
     m_hasReceivedPayout m' = m_hasReceivedPayout m \<and> m_status m' = m_status m \<and>
     m_contributionsMade m' = m_contributionsMade m"

definition members_kept :: "world \<Rightarrow> world \<Rightarrow> bool" where
  "members_kept w w' \<longleftrightarrow> list_all2 same_member (memberships w) (memberships w')"

lemma same_member_refl [simp]: "same_member m m" by (simp add: same_member_def)

lemma same_member_trans: "same_member x y \<Longrightarrow> same_member y z \<Longrightarrow> same_member x z"
  by (simp add: same_member_def)

lemma members_kept_refl: "memberships w' = memberships w \<Longrightarrow> members_kept w w'"
  by (simp add: members_kept_def list_all2_same)

lemma members_kept_trans: "members_kept w v \<Longrightarrow> members_kept v u \<Longrightarrow> members_kept w u"
  unfolding members_kept_def by (rule list_all2_trans [OF same_member_trans])

lemma members_kept_save:
  assumes "keys_ok w" "m \<in> set (memberships w)" "same_member m m'"
  shows "members_kept w (save_membership m' w)"
proof -
  have unique: "x = m" if "x \<in> set (memberships w)" "m_id x = m_id m'" for x
    using that assms(3) by (intro membership_by_id [OF assms(1) _ assms(2)]) (simp_all add: same_member_def)
  have "same_member x (if m_id x = m_id m' then m' else x)" if "x \<in> set (memberships w)" for x
  proof (cases "m_id x = m_id m'")
    case True
    from unique [OF that True] assms(3) True show ?thesis by simp
  qed simp
  moreover have "m_id m' \<in> m_id ` set (memberships w)" using assms(2,3) by (simp add: same_member_def)
  ultimately show ?thesis
    by (simp add: members_kept_def save_membership_def save_row_def list_all2_conv_all_nth)
qed

text \<open>The members of every other group are the same rows.\<close>

definition foreign_kept :: "uuid \<Rightarrow> world \<Rightarrow> world \<Rightarrow> bool" where
  "foreign_kept gid w w' \<longleftrightarrow>
     list_all2 (\<lambda>m m'. m_groupId m' = m_groupId m \<and> (m_groupId m \<noteq> gid \<longrightarrow> m' = m)) (memberships w) (memberships w')"

lemma foreign_kept_refl: "memberships w' = memberships w \<Longrightarrow> foreign_kept gid w w'"
  by (simp add: foreign_kept_def list_all2_same)

lemma foreign_kept_trans: "foreign_kept gid w v \<Longrightarrow> foreign_kept gid v u \<Longrightarrow> foreign_kept gid w u"
  unfolding foreign_kept_def by (erule (1) list_all2_trans [rotated]) auto

lemma foreign_kept_save:
  assumes "keys_ok w" "m \<in> set (memberships w)" "m_id m' = m_id m" "m_groupId m = gid" "m_groupId m' = gid"
  shows "foreign_kept gid w (save_membership m' w)"
proof -
  have unique: "x = m" if "x \<in> set (memberships w)" "m_id x = m_id m'" for x
    using that assms(3) by (intro membership_by_id [OF assms(1) _ assms(2)]) simp_all
  have "m_groupId (if m_id x = m_id m' then m' else x) = m_groupId x \<and>
      (m_groupId x \<noteq> gid \<longrightarrow> (if m_id x = m_id m' then m' else x) = x)" if "x \<in> set (memberships w)" for x
    using unique [OF that] assms(4,5) by auto
  moreover have "m_id m' \<in> m_id ` set (memberships w)" using assms(2,3) by simp
  ultimately show ?thesis by (simp add: foreign_kept_def save_membership_def save_row_def list_all2_conv_all_nth)
qed

lemma members_kept_order:
  "members_kept w w' \<Longrightarrow> find_membership_by_order gid k w = Some m \<Longrightarrow>
     \<exists>m'. find_membership_by_order gid k w' = Some m' \<and> same_member m m'"
  unfolding members_kept_def find_membership_by_order_def
  by (induction rule: list_all2_induct) (auto simp: same_member_def split: if_splits)

lemma members_kept_order_None:
  "members_kept w w' \<Longrightarrow> find_membership_by_order gid k w = None \<Longrightarrow> find_membership_by_order gid k w' = None"
  unfolding members_kept_def find_membership_by_order_def
  by (induction rule: list_all2_induct) (auto simp: same_member_def split: if_splits)

lemma members_kept_count: "members_kept w w' \<Longrightarrow> member_count gid w' = member_count gid w"
  unfolding members_kept_def member_count_def
  by (induction rule: list_all2_induct) (auto simp: same_member_def)

lemma reset_paid_members:
  assumes "keys_ok w"
  shows "group_members gid (reset_paid (group_members gid w) w)
      = map (\<lambda>m. m\<lparr>m_hasPaidCurrentRound := False\<rparr>) (group_members gid w)"
    and "members_kept w (reset_paid (group_members gid w) w)"
    and "reset_paid (group_members gid w) w
      = w\<lparr>memberships := memberships (reset_paid (group_members gid w) w)\<rparr>"
    and "keys_ok (reset_paid (group_members gid w) w)"
    and "foreign_kept gid w (reset_paid (group_members gid w) w)"
proof -
  let ?ms = "map (\<lambda>m. m\<lparr>m_hasPaidCurrentRound := False\<rparr>) (group_members gid w)"
  have ids: "map m_id ?ms = map m_id (group_members gid w)" by simp
  have grp: "\<forall>m \<in> set ?ms. m_groupId m = gid" by auto
  note all = save_all_members [OF assms ids grp]
  show "group_members gid (reset_paid (group_members gid w) w) = ?ms"
    and "reset_paid (group_members gid w) w = w\<lparr>memberships := memberships (reset_paid (group_members gid w) w)\<rparr>"
    unfolding reset_paid_fold by (rule all(1), rule all(3))
  show "keys_ok (reset_paid (group_members gid w) w)"
    unfolding reset_paid_fold by (rule keys_ok_fold_save [OF assms]) auto
  have dt: "distinct (map m_id (memberships w))" using assms by (simp add: keys_ok_def)
  then have "distinct (map m_id (group_members gid w))" unfolding group_members_def by (rule distinct_map_filter)
  then have "distinct (map m_id ?ms)" using ids by (simp only:)
  moreover have "m_id ` set ?ms \<subseteq> m_id ` set (memberships w)" by auto
  ultimately have eq: "fold save_membership ?ms w = w\<lparr>memberships :=
      map (\<lambda>x. case List.find (\<lambda>m. m_id m = m_id x) ?ms of Some m \<Rightarrow> m | None \<Rightarrow> x) (memberships w)\<rparr>"
    by (intro fold_save_membership [OF dt])
  have "same_member x (case List.find (\<lambda>m. m_id m = m_id x) ?ms of Some m \<Rightarrow> m | None \<Rightarrow> x)"
    if x: "x \<in> set (memberships w)" for x
  proof (cases "List.find (\<lambda>m. m_id m = m_id x) ?ms")
    case (Some m)
    then obtain y where y: "y \<in> set (memberships w)" "m = y\<lparr>m_hasPaidCurrentRound := False\<rparr>" "m_id m = m_id x"
      by (auto dest!: find_Some_mem)
    then have "y = x" using x by (intro membership_by_id [OF assms]) simp_all
    with Some y show ?thesis by (simp add: same_member_def)
  qed simp
  then show "members_kept w (reset_paid (group_members gid w) w)"
    unfolding reset_paid_fold eq members_kept_def by (simp add: list_all2_conv_all_nth)
  have "m_groupId (case List.find (\<lambda>m. m_id m = m_id x) ?ms of Some m \<Rightarrow> m | None \<Rightarrow> x) = m_groupId x \<and>
      (m_groupId x \<noteq> gid \<longrightarrow> (case List.find (\<lambda>m. m_id m = m_id x) ?ms of Some m \<Rightarrow> m | None \<Rightarrow> x) = x)"
    if x: "x \<in> set (memberships w)" for x
  proof (cases "List.find (\<lambda>m. m_id m = m_id x) ?ms")
    case (Some m)
    then obtain y where y: "y \<in> set (memberships w)" "m = y\<lparr>m_hasPaidCurrentRound := False\<rparr>" "m_id m = m_id x" "m_groupId y = gid"
      by (auto dest!: find_Some_mem)
    then have "y = x" using x by (intro membership_by_id [OF assms]) simp_all
    with Some y show ?thesis by simp
  qed simp
  then show "foreign_kept gid w (reset_paid (group_members gid w) w)"
    unfolding reset_paid_fold eq foreign_kept_def by (simp add: list_all2_conv_all_nth)
qed

text \<open>The transaction keeps the members, moves the round on by one and resets the flags unless the
  group is complete.\<close>

definition next_round :: "rosca_group \<Rightarrow> rosca_group" where
  "next_round g = g\<lparr>g_currentRound := g_currentRound g + 1, g_staleAt := None,
     g_status := (if g_currentRound g + 1 > g_totalRounds g then GS_COMPLETED else g_status g)\<rparr>"

lemma next_round_simps [simp]:
  "g_id (next_round g) = g_id g" "g_deletedAt (next_round g) = g_deletedAt g"
  "g_currentRound (next_round g) = g_currentRound g + 1" "g_totalRounds (next_round g) = g_totalRounds g"
  "g_contractAddress (next_round g) = g_contractAddress g" "g_adminWallet (next_round g) = g_adminWallet g"
  by (simp_all add: next_round_def)

lemma lifecycle_next_round: "lifecycle g \<Longrightarrow> g_status g = GS_ACTIVE \<Longrightarrow> lifecycle (next_round g)"
  by (auto simp: lifecycle_def next_round_def)

lemma advanceRound_tx_Inr:
  assumes "keys_ok w" "find_group gid w = Some g" "advanceRound_tx gid r h w = (Inr g', w')"
  shows "g' = next_round g" "members_kept w w'" "groups w' = groups (save_group g' w)" "keys_ok w'"
    "g_currentRound g < g_totalRounds g \<Longrightarrow> \<forall>m \<in> set (group_members gid w'). \<not> m_hasPaidCurrentRound m"
    "payout_txs w' = payout_txs w" "penalties w' = penalties w" "contributions w' = contributions w"
    "foreign_kept gid w w'"
proof -
  define w1 where "w1 = (if r \<noteq> None \<and> truthy h
      then (case List.find (\<lambda>m. m_id m = m_id (the r)) (group_members gid w) of
              None \<Rightarrow> w | Some m \<Rightarrow> save_membership (m\<lparr>m_transactionHash := h\<rparr>) w)
      else w)"
  have eq: "next_round g = g\<lparr>g_currentRound := g_currentRound g + 1, g_staleAt := None\<rparr>"
    if "\<not> g_currentRound g + 1 > g_totalRounds g" using that by (simp add: next_round_def)
  have eq': "next_round g = g\<lparr>g_currentRound := g_currentRound g + 1, g_staleAt := None, g_status := GS_COMPLETED\<rparr>"
    if "g_currentRound g + 1 > g_totalRounds g" using that by (simp add: next_round_def)
  have run: "g' = next_round g \<and> w' = (if g_currentRound g + 1 > g_totalRounds g then save_group (next_round g) w1
      else save_group (next_round g) (reset_paid (group_members gid w1) w1))"
  proof (cases "g_currentRound g + 1 > g_totalRounds g")
    case True
    have "advanceRound_tx gid r h w =
      (Inr (g\<lparr>g_currentRound := g_currentRound g + 1, g_staleAt := None, g_status := GS_COMPLETED\<rparr>),
       save_group (g\<lparr>g_currentRound := g_currentRound g + 1, g_staleAt := None, g_status := GS_COMPLETED\<rparr>) w1)"
      unfolding advanceRound_tx_def assms(2) option.case Let_def w1_def [symmetric] using True by simp
    from trans [OF this [symmetric] assms(3)] show ?thesis
      unfolding eq' [OF True] if_P [OF True] prod.inject sum.inject by blast
  next
    case False
    have "advanceRound_tx gid r h w =
      (Inr (g\<lparr>g_currentRound := g_currentRound g + 1, g_staleAt := None\<rparr>),
       save_group (g\<lparr>g_currentRound := g_currentRound g + 1, g_staleAt := None\<rparr>)
         (reset_paid (group_members gid w1) w1))"
      unfolding advanceRound_tx_def assms(2) option.case Let_def w1_def [symmetric] using False by simp
    from trans [OF this [symmetric] assms(3)] show ?thesis
      unfolding eq [OF False] if_not_P [OF False] prod.inject sum.inject by blast
  qed
  have foreign1: "foreign_kept gid w w1"
  proof (cases "List.find (\<lambda>m. m_id m = m_id (the r)) (group_members gid w)")
    case (Some m)
    then have "m \<in> set (memberships w)" "m_groupId m = gid" by (auto dest!: find_Some_mem)
    then show ?thesis using Some foreign_kept_save [OF assms(1), of m "m\<lparr>m_transactionHash := h\<rparr>" gid]
      by (simp add: w1_def foreign_kept_refl)
  qed (simp add: w1_def foreign_kept_refl)
  have w1: "members_kept w w1 \<and> keys_ok w1 \<and> w1 = w\<lparr>memberships := memberships w1\<rparr>"
  proof (cases "List.find (\<lambda>m. m_id m = m_id (the r)) (group_members gid w)")
    case (Some m)
    then have m: "m \<in> set (memberships w)" by (auto dest!: find_Some_mem)
    have "same_member m (m\<lparr>m_transactionHash := h\<rparr>)" by (simp add: same_member_def)
    with m show ?thesis
      using Some members_kept_save [OF assms(1) m] keys_ok_save_membership [OF assms(1) m] assms(1)
      by (simp add: w1_def members_kept_refl) (simp add: save_membership_def)
  qed (simp add: w1_def members_kept_refl assms(1))
  have grp: "groups w1 = groups w" "payout_txs w1 = payout_txs w" "penalties w1 = penalties w"
    "contributions w1 = contributions w"
    using arg_cong [OF conjunct2 [OF conjunct2 [OF w1]], of groups]
      arg_cong [OF conjunct2 [OF conjunct2 [OF w1]], of payout_txs]
      arg_cong [OF conjunct2 [OF conjunct2 [OF w1]], of penalties]
      arg_cong [OF conjunct2 [OF conjunct2 [OF w1]], of contributions] by simp_all
  have ok1: "keys_ok w1" using w1 by simp
  note reset = reset_paid_members [OF ok1, of gid]
  have grp2: "groups (reset_paid (group_members gid w1) w1) = groups w"
    "payout_txs (reset_paid (group_members gid w1) w1) = payout_txs w"
    "penalties (reset_paid (group_members gid w1) w1) = penalties w"
    "contributions (reset_paid (group_members gid w1) w1) = contributions w"
    using arg_cong [OF reset(3), of groups] arg_cong [OF reset(3), of payout_txs]
      arg_cong [OF reset(3), of penalties] arg_cong [OF reset(3), of contributions] grp by simp_all
  have kept2: "members_kept w (reset_paid (group_members gid w1) w1)"
    using w1 reset(2) members_kept_trans by blast
  show "g' = next_round g" using run by simp
  show "members_kept w w'" using run w1 kept2 by (auto simp: members_kept_def)
  show "foreign_kept gid w w'" using run foreign1 foreign_kept_trans [OF foreign1 reset(5)] by (auto simp: foreign_kept_def)
  show "groups w' = groups (save_group g' w)" using run grp grp2 by (auto simp: save_group_def)
  show "keys_ok w'" using run ok1 reset(4) by (auto intro: keys_ok_save_group)
  show "\<forall>m \<in> set (group_members gid w'). \<not> m_hasPaidCurrentRound m" if "g_currentRound g < g_totalRounds g"
    using run that by (simp add: reset(1) del: set_group_members)
  show "payout_txs w' = payout_txs w" "penalties w' = penalties w" "contributions w' = contributions w"
    using run grp grp2 by auto
qed

lemma same_tables_groups: "same_tables w w' \<Longrightarrow> groups w' = groups w"
  and same_tables_members: "same_tables w w' \<Longrightarrow> memberships w' = memberships w"
  and same_tables_payouts: "same_tables w w' \<Longrightarrow>
    payout_txs w' = payout_txs w \<and> penalties w' = penalties w \<and> contributions w' = contributions w"
  by (simp_all add: same_tables_def)

lemma advanceRound_Inr:
  assumes "keys_ok w" "advanceRound disburse gid a w = (Inr g', w')"
  obtains g where "find_group gid w = Some g" "g_adminWallet g = a" "g_status g = GS_ACTIVE"
    "\<forall>m \<in> set (group_members gid w). m_hasPaidCurrentRound m"
    "g' = next_round g" "members_kept w w'" "find_group gid w' = Some g'" "keys_ok w'"
    "groups w' = groups (save_group g' w)"
    "g_currentRound g < g_totalRounds g \<Longrightarrow> \<forall>m \<in> set (group_members gid w'). \<not> m_hasPaidCurrentRound m"
    "payout_txs w' = payout_txs w" "penalties w' = penalties w" "contributions w' = contributions w"
    "\<And>r c. find_membership_by_order gid (g_currentRound g - 1) w = Some r \<Longrightarrow> truthy (g_contractAddress g) \<Longrightarrow>
       \<exists>h. disburse (the (g_contractAddress g)) (m_walletAddress r) (g_contributionAmount g) = Inr h"
    "foreign_kept gid w w'"
proof -
  from assms(2) obtain g where g: "find_group gid w = Some g" "g_adminWallet g = a" "g_status g = GS_ACTIVE"
    and paid: "\<forall>m \<in> set (group_members gid w). m_hasPaidCurrentRound m"
    unfolding advanceRound_def by (auto split: option.splits if_splits)
  let ?r = "find_membership_by_order gid (g_currentRound g - 1) w"
  define chain :: "string option outcome" where "chain =
    (if ?r \<noteq> None \<and> truthy (g_contractAddress g)
     then (case disburse (the (g_contractAddress g)) (m_walletAddress (the ?r)) (g_contributionAmount g) of
             Inl _ \<Rightarrow> Inl (InternalServerErrorException ''On-chain payout failed; round not advanced'')
           | Inr h \<Rightarrow> Inr (Some h))
     else Inr None)"
  have "\<not> (\<exists>m \<in> set (group_members gid w). \<not> m_hasPaidCurrentRound m)" using paid by blast
  then have eq: "advanceRound disburse gid a w = (case chain of
      Inl e \<Rightarrow> (Inl e, w)
    | Inr txHash \<Rightarrow> (case transaction (advanceRound_tx gid ?r txHash) w of
         (Inl e, w1) \<Rightarrow> (Inl e, w1)
       | (Inr g1, w1) \<Rightarrow>
           if g_status g1 \<noteq> GS_COMPLETED
           then (case notifyBatch (map (round_opened_dto g (g_currentRound g1)) (group_members gid w)) w1 of
                   (Inl e, w2) \<Rightarrow> (Inl e, w2) | (Inr _, w2) \<Rightarrow> (Inr g1, w2))
           else (Inr g1, w1)))"
    unfolding advanceRound_def Let_def g option.case chain_def by simp
  from assms(2) obtain h where h: "chain = Inr h" unfolding eq by (auto split: sum.splits)
  from assms(2) obtain w1 where tx: "advanceRound_tx gid ?r h w = (Inr g', w1)" and w': "same_tables w1 w'"
    unfolding eq h sum.case
    by (auto simp: transaction_commits split: prod.splits sum.splits if_splits dest!: notifyBatch_frame)
  note t = advanceRound_tx_Inr [OF assms(1) g(1) tx]
  have gs: "groups w' = groups (save_group g' w)" using t(3) same_tables_groups [OF w'] by simp
  have gd: "g_id g = gid" "g_deletedAt g = None" using find_groupD [OF g(1)] by simp_all
  have "find_group (g_id g') (save_group g' w) = Some g'" using gd t(1) by (intro find_group_save) simp
  then have found: "find_group gid w' = Some g'" using gs gd t(1) by (simp add: find_group_def)
  have ms: "memberships w' = memberships w1" by (rule same_tables_members [OF w'])
  have kept: "members_kept w w'" using t(2) ms by (simp add: members_kept_def)
  have ok: "keys_ok w'" using keys_ok_same_tables [OF w' t(4)] .
  have reset: "\<forall>m \<in> set (group_members gid w'). \<not> m_hasPaidCurrentRound m" if "g_currentRound g < g_totalRounds g"
    using t(5) [OF that] ms by simp
  have dis: "\<exists>h. disburse (the (g_contractAddress g)) (m_walletAddress r) (g_contributionAmount g) = Inr h"
    if "?r = Some r" "truthy (g_contractAddress g)" for r
    using h that unfolding chain_def by (auto split: sum.splits)
  have pay: "payout_txs w' = payout_txs w" "penalties w' = penalties w" "contributions w' = contributions w"
    using same_tables_payouts [OF w'] t(6-8) by simp_all
  have foreign: "foreign_kept gid w w'" using t(9) ms by (simp add: foreign_kept_def)
  show thesis by (rule that [OF g paid t(1) kept found ok gs reset pay dis foreign])
qed

lemma advanceRound_result:
  assumes "keys_ok w" "groups_ok w" "advanceRound disburse gid a w = (Inr g', w')" "find_group gid w = Some g"
  shows "g_adminWallet g = a \<and> g_status g = GS_ACTIVE \<and>
    (\<forall>m \<in> set (group_members gid w). m_hasPaidCurrentRound m) \<and>
    find_group gid w' = Some g' \<and> g_currentRound g' = g_currentRound g + 1 \<and>
    (g_currentRound g < g_totalRounds g \<longrightarrow>
       g_status g' = GS_ACTIVE \<and> (\<forall>m \<in> set (group_members gid w'). \<not> m_hasPaidCurrentRound m)) \<and>
    (g_currentRound g = g_totalRounds g \<longrightarrow> g_status g' = GS_COMPLETED) \<and>
    lifecycle g' \<and> members_kept w w' \<and> foreign_kept gid w w' \<and> groups w' = save_row g_id g' (groups w) \<and>
    payout_txs w' = payout_txs w \<and> penalties w' = penalties w \<and> contributions w' = contributions w \<and>
    (\<forall>r. find_membership_by_order gid (g_currentRound g - 1) w = Some r \<and> truthy (g_contractAddress g) \<longrightarrow>
       is_ok (disburse (the (g_contractAddress g)) (m_walletAddress r) (g_contributionAmount g)))"
proof -
  from advanceRound_Inr [OF assms(1,3)] obtain g0 where adv: "find_group gid w = Some g0" "g_adminWallet g0 = a"
    "g_status g0 = GS_ACTIVE" "\<forall>m \<in> set (group_members gid w). m_hasPaidCurrentRound m" "g' = next_round g0"
    "members_kept w w'" "find_group gid w' = Some g'" "foreign_kept gid w w'" "groups w' = groups (save_group g' w)"
    "payout_txs w' = payout_txs w" "penalties w' = penalties w" "contributions w' = contributions w"
    and reset: "g_currentRound g0 < g_totalRounds g0 \<Longrightarrow> \<forall>m \<in> set (group_members gid w'). \<not> m_hasPaidCurrentRound m"
    and dis: "\<And>r. find_membership_by_order gid (g_currentRound g0 - 1) w = Some r \<Longrightarrow> truthy (g_contractAddress g0) \<Longrightarrow>
       \<exists>h. disburse (the (g_contractAddress g0)) (m_walletAddress r) (g_contributionAmount g0) = Inr h"
    by metis
  have g0: "g0 = g" using adv(1) assms(4) by simp
  have "lifecycle g" by (rule groups_okD [OF assms(2,4)])
  then have "lifecycle g'" using adv(3,5) unfolding g0 by (simp add: lifecycle_next_round)
  moreover have "g_currentRound g < g_totalRounds g \<Longrightarrow> g_status g' = GS_ACTIVE"
    "g_currentRound g = g_totalRounds g \<Longrightarrow> g_status g' = GS_COMPLETED"
    using adv(3,5) unfolding g0 by (simp_all add: next_round_def)
  ultimately show ?thesis using adv reset dis unfolding g0 by (simp add: is_ok_iff save_group_def)
qed

text \<open>
  C5: A round advances only for the admin of an ACTIVE group whose members have all paid, and by
  exactly one. Before the last round the group stays ACTIVE and every payment flag is cleared;
  after the last round it is COMPLETED. Of the members of the group only the payment flag and the transaction
  hash may change; the members of other groups, every other group, the payouts, the penalties and the
  contributions are the same rows as before, and if the round has a recipient and the group a contract, the on-chain
  payout of the recipient has succeeded.
\<close>

theorem advanceRound_correct:
  assumes "keys_ok w" "groups_ok w" "advanceRound disburse gid a w = (Inr g', w')" "find_group gid w = Some g"
  shows "g_adminWallet g = a \<and> g_status g = GS_ACTIVE \<and>
    (\<forall>m \<in> set (group_members gid w). m_hasPaidCurrentRound m) \<and>
    find_group gid w' = Some g' \<and> g_currentRound g' = g_currentRound g + 1 \<and>
    (g_currentRound g < g_totalRounds g \<longrightarrow>
       g_status g' = GS_ACTIVE \<and> (\<forall>m \<in> set (group_members gid w'). \<not> m_hasPaidCurrentRound m)) \<and>
    (g_currentRound g = g_totalRounds g \<longrightarrow> g_status g' = GS_COMPLETED) \<and>
    lifecycle g' \<and> members_kept w w' \<and> foreign_kept gid w w' \<and> groups w' = save_row g_id g' (groups w) \<and>
    payout_txs w' = payout_txs w \<and> penalties w' = penalties w \<and> contributions w' = contributions w \<and>
    (\<forall>r. find_membership_by_order gid (g_currentRound g - 1) w = Some r \<and> truthy (g_contractAddress g) \<longrightarrow>
       is_ok (disburse (the (g_contractAddress g)) (m_walletAddress r) (g_contributionAmount g)))"
  by (rule advanceRound_result [OF assms])

subsection \<open>Creation and update\<close>

lemma createGroup_body_Inr:
  assumes "createGroup_body allowed dto a uid w = (Inr g, w')"
  shows "g_maxMembers g = g_totalRounds g \<and> g_minMembers g \<le> g_maxMembers g \<and> g_status g = GS_PENDING \<and>
    g_currentRound g = 0 \<and> g_adminWallet g = a \<and> g_assetCode g \<in> set allowed \<and>
    (g_assetCode g = ''XLM'' \<longrightarrow> g_assetIssuer g = None) \<and> g_unitOfAccountAssetCode g = ''XLM'' \<and>
    g_id g = fresh_uuid w \<and> g_deletedAt g = None \<and> groups w' = groups w @ [g] \<and> memberships w' = memberships w"
proof -
  from assms obtain d where d: "resolve_template dto uid w = Inr d"
    by (auto simp: createGroup_body_def split: sum.splits)
  let ?m = "case d_maxMembers d of Some k \<Rightarrow> k | None \<Rightarrow> d_totalRounds d"
  let ?c = "case d_assetCode d of Some c \<Rightarrow> c | None \<Rightarrow> ''XLM''"
  have checks: "?m = d_totalRounds d" "d_minMembers d \<le> ?m" "toUpperCase ?c \<in> set allowed"
    using assms unfolding createGroup_body_def d sum.case Let_def by (metis Inl_Inr_False prod.inject not_le)+
  then have g: "g = new_group d ?m a ?c w"
    and w': "w' = (if truthy (d_templateId dto) then incrementUsageCount (the (d_templateId dto))
        ((tick_uuid w)\<lparr>groups := groups w @ [new_group d ?m a ?c w]\<rparr>)
      else (tick_uuid w)\<lparr>groups := groups w @ [new_group d ?m a ?c w]\<rparr>)"
    using assms unfolding createGroup_body_def d sum.case Let_def by simp_all
  have "groups w' = groups w @ [g]" "memberships w' = memberships w"
    unfolding w' g by (simp_all add: tick_uuid_def incrementUsageCount_def)
  then show ?thesis using checks unfolding g by (simp add: new_group_def)
qed

text \<open>
  A created group is well-formed: its member limit equals its number of rounds and is at
  least the minimum, its asset is on the allow-list (in upper case), a native asset has no
  issuer, and it starts PENDING in round 0 under the creator's wallet. The group row is the only
  one added.
\<close>

theorem createGroup_wellformed:
  assumes "createGroup_with (Some mm) allowed dto a uid w = (Inr g, w')"
  shows "g_maxMembers g = g_totalRounds g \<and> g_minMembers g \<le> g_maxMembers g \<and> g_status g = GS_PENDING \<and>
    g_currentRound g = 0 \<and> g_adminWallet g = a \<and> g_assetCode g \<in> set allowed \<and>
    (g_assetCode g = ''XLM'' \<longrightarrow> g_assetIssuer g = None) \<and> (1 \<le> g_totalRounds g \<longrightarrow> lifecycle g) \<and>
    groups w' = groups w @ [g] \<and> memberships w' = memberships w \<and>
    (mm = None \<or> \<not> mm_enabled (the mm))"
proof -
  from assms have body: "createGroup_body allowed dto a uid w = (Inr g, w')" and "mm = None \<or> \<not> mm_enabled (the mm)"
    by (auto simp: createGroup_with_def split: option.splits if_splits)
  with createGroup_body_Inr [OF body] show ?thesis by (simp add: lifecycle_def)
qed

text \<open>
  As the class is written no group can be created: \<open>createGroup\<close> asks a member the class does
  not have for the maintenance mode, so every call throws and leaves the state unchanged.
\<close>

theorem createGroup_always_throws:
  "\<exists>msg. createGroup allowed dto a uid w = (Inl (TypeError msg), w)"
  by (simp add: createGroup_def createGroup_with_def)

lemma update_Inr:
  assumes "update gid p a w = (Inr g', w')"
  obtains g where "find_group gid w = Some g" "g_adminWallet g = a" "g_status g = GS_PENDING"
    "g' = apply_patch p g" "w' = save_group g' w"
  using assms by (auto simp: update_def split: option.splits if_splits)

lemma apply_patch_frame [simp]:
  "g_id (apply_patch p g) = g_id g" "g_status (apply_patch p g) = g_status g"
  "g_currentRound (apply_patch p g) = g_currentRound g" "g_deletedAt (apply_patch p g) = g_deletedAt g"
  "g_maxMembers (apply_patch p g) = g_maxMembers g" "g_minMembers (apply_patch p g) = g_minMembers g"
  "g_totalRounds (apply_patch p g) = patched (gp_totalRounds p) (g_totalRounds g)"
  by (simp_all add: apply_patch_def)

lemma no_recipient_beyond_members:
  assumes "contiguous_orders gid w" "member_count gid w < r"
  shows "find_membership_by_order gid (r - 1) w = None"
proof (cases "find_membership_by_order gid (r - 1) w")
  case (Some m)
  then have "r - 1 \<in> set (orders gid w)" by (auto simp: set_orders dest!: find_membership_by_orderD)
  then show ?thesis using assms by (simp add: contiguous_orders_def)
qed

text \<open>
  Updating the number of rounds of a PENDING group breaks the link between rounds and
  members. A group is created with as many rounds as places; \<open>update\<close> accepts another number of
  rounds. If it is larger, then even with every place taken and the payout order gap-free, each
  round after the last member's has no recipient.
\<close>

theorem update_leaves_rounds_without_recipient:
  assumes "find_group gid w = Some g" "g_maxMembers g = g_totalRounds g" "g_status g = GS_PENDING"
    and "gp_totalRounds p = Some t" "g_totalRounds g < t"
    and "contiguous_orders gid w" "member_count gid w \<le> g_maxMembers g"
  shows "\<exists>g' w'. update gid p (g_adminWallet g) w = (Inr g', w') \<and> g_maxMembers g' < g_totalRounds g' \<and>
    (\<forall>r. g_maxMembers g' < r \<and> r \<le> g_totalRounds g' \<longrightarrow> find_membership_by_order gid (r - 1) w' = None)"
proof -
  let ?g = "apply_patch p g"
  have "update gid p (g_adminWallet g) w = (Inr ?g, save_group ?g w)"
    using assms(1,3) by (simp add: update_def)
  moreover have "g_maxMembers ?g < g_totalRounds ?g" using assms(2,4,5) by (simp add: patched_def)
  moreover have "find_membership_by_order gid (r - 1) (save_group ?g w) = None" if "g_maxMembers ?g < r" for r
  proof -
    have "find_membership_by_order gid (r - 1) w = None"
      using that assms(7) by (intro no_recipient_beyond_members [OF assms(6)]) simp
    then show ?thesis by (simp add: find_membership_by_order_def)
  qed
  ultimately show ?thesis by blast
qed

text \<open>
  A round without a recipient advances without a payout. When the members hold the payout
  orders 0, ..., n - 1 and the current round is past the n-th, \<open>advanceRound\<close> does not call the
  chain at all: its result and effect do not depend on what the chain would answer.
\<close>

theorem advanceRound_without_recipient:
  assumes "contiguous_orders gid w" "find_group gid w = Some g" "member_count gid w < g_currentRound g"
  shows "advanceRound d1 gid a w = advanceRound d2 gid a w"
  using no_recipient_beyond_members [OF assms(1,3)] assms(2) by (simp add: advanceRound_def Let_def)

subsection \<open>Every operation keeps the keys and the life cycle\<close>

lemma advanceRound_effect:
  assumes "keys_ok w" "advanceRound disburse gid a w = (r, w')"
  shows "w' = w \<or> (\<exists>g. find_group gid w = Some g \<and> g_status g = GS_ACTIVE \<and> members_kept w w' \<and>
    groups w' = groups (save_group (next_round g) w) \<and> keys_ok w')"
proof (cases "find_group gid w")
  case None
  then show ?thesis using assms(2) by (simp add: advanceRound_def)
next
  case (Some g)
  let ?r = "find_membership_by_order gid (g_currentRound g - 1) w"
  show ?thesis
  proof (cases "g_adminWallet g = a \<and> g_status g = GS_ACTIVE \<and> \<not> (\<exists>m \<in> set (group_members gid w). \<not> m_hasPaidCurrentRound m)")
    case False
    then have "w' = w" using assms(2) Some by (auto simp: advanceRound_def split: if_splits)
    then show ?thesis ..
  next
    case True
    define chain :: "string option outcome" where "chain =
      (if ?r \<noteq> None \<and> truthy (g_contractAddress g)
       then (case disburse (the (g_contractAddress g)) (m_walletAddress (the ?r)) (g_contributionAmount g) of
               Inl _ \<Rightarrow> Inl (InternalServerErrorException ''On-chain payout failed; round not advanced'')
             | Inr h \<Rightarrow> Inr (Some h))
       else Inr None)"
    have eq: "advanceRound disburse gid a w = (case chain of
        Inl e \<Rightarrow> (Inl e, w)
      | Inr txHash \<Rightarrow> (case transaction (advanceRound_tx gid ?r txHash) w of
           (Inl e, w1) \<Rightarrow> (Inl e, w1)
         | (Inr g1, w1) \<Rightarrow>
             if g_status g1 \<noteq> GS_COMPLETED
             then (case notifyBatch (map (round_opened_dto g (g_currentRound g1)) (group_members gid w)) w1 of
                     (Inl e, w2) \<Rightarrow> (Inl e, w2) | (Inr _, w2) \<Rightarrow> (Inr g1, w2))
             else (Inr g1, w1)))"
      using True unfolding advanceRound_def Let_def Some option.case chain_def by simp
    show ?thesis
    proof (cases chain)
      case (Inl e)
      then show ?thesis using assms(2) unfolding eq by simp
    next
      case (Inr h)
      obtain x w1 where tx: "transaction (advanceRound_tx gid ?r h) w = (x, w1)" by (metis surj_pair)
      show ?thesis
      proof (cases x)
        case (Inl e)
        then have "w1 = w" using tx by (simp add: transaction_rolls_back)
        then show ?thesis using assms(2) Inl tx unfolding eq \<open>chain = Inr h\<close> sum.case by simp
      next
        case (Inr g')
        then have tx': "advanceRound_tx gid ?r h w = (Inr g', w1)" using tx by (simp add: transaction_commits)
        note t = advanceRound_tx_Inr [OF assms(1) Some tx']
        have "same_tables w1 w'"
          using assms(2) tx Inr unfolding eq \<open>chain = Inr h\<close> sum.case
          by (auto split: prod.splits sum.splits if_splits dest!: notifyBatch_frame)
        note same = same_tables_groups [OF this] same_tables_members [OF this] keys_ok_same_tables [OF this t(4)]
        have "members_kept w w'" using t(2) same(2) by (simp add: members_kept_def)
        then show ?thesis using Some True t(1,3) same by auto
      qed
    qed
  qed
qed

lemma groups_ok_save_next:
  assumes "groups_ok w" "find_group gid w = Some g" "g_status g = GS_ACTIVE"
    and "groups w' = groups (save_group (next_round g) w)"
  shows "groups_ok w'"
proof -
  have "lifecycle (next_round g)" using groups_okD [OF assms(1,2)] assms(3) by (rule lifecycle_next_round)
  with groups_ok_save [OF assms(1)] groups_ok_cong [OF assms(4)] show ?thesis by simp
qed

lemma advanceRound_keeps:
  assumes "keys_ok w" "groups_ok w" "advanceRound d gid a w = (r, w')"
  shows "keys_ok w' \<and> groups_ok w'"
  using advanceRound_effect [OF assms(1,3)] assms(1,2) groups_ok_save_next [OF assms(2)] by auto

lemma activateGroup_keeps:
  assumes "keys_ok w" "groups_ok w" "activateGroup deploy rnd gid a w = (r, w')"
  shows "keys_ok w' \<and> groups_ok w'"
  using assms(3)
proof (cases rule: activateGroup_cases)
  case (deployed g w1 addr)
  note frame = arrange_frame [OF assms(1) deployed(5)]
  have "groups w1 = groups w" using arg_cong [OF conjunct1 [OF frame], of groups] by simp
  then have "groups_ok w1" using assms(2) by (simp add: groups_ok_def)
  moreover have "lifecycle (g\<lparr>g_status := GS_ACTIVE, g_currentRound := 1, g_contractAddress := Some addr\<rparr>)"
    using groups_okD [OF assms(2) deployed(1)] by (simp add: lifecycle_def)
  ultimately have "groups_ok (save_group (g\<lparr>g_status := GS_ACTIVE, g_currentRound := 1, g_contractAddress := Some addr\<rparr>) w1)"
    by (rule groups_ok_save)
  moreover have "keys_ok w'" using frame by (simp add: deployed(7) keys_ok_save_group)
  ultimately show ?thesis by (simp add: deployed(7) groups_ok_def)
next
  case (failed g w1)
  note frame = arrange_frame [OF assms(1) failed(3)]
  have "groups w1 = groups w" using arg_cong [OF conjunct1 [OF frame], of groups] by simp
  then have "groups_ok w1" using assms(2) by (simp add: groups_ok_def)
  moreover have "lifecycle (g\<lparr>g_status := GS_PENDING, g_currentRound := 0\<rparr>)"
    using groups_okD [OF assms(2) failed(1)] by (simp add: lifecycle_def)
  ultimately show ?thesis using frame by (simp add: failed(5) keys_ok_save_group groups_ok_save)
qed (use assms in simp_all)

lemma update_keeps:
  assumes "keys_ok w" "groups_ok w" "update gid p a w = (r, w')"
    and "gp_totalRounds p = None \<or> 1 \<le> the (gp_totalRounds p)"
  shows "keys_ok w' \<and> groups_ok w'"
proof (cases r)
  case (Inl e)
  then have "w' = w" using assms(3) by (auto simp: update_def split: option.splits if_splits)
  with assms show ?thesis by simp
next
  case (Inr g')
  with assms(3) obtain g where g: "find_group gid w = Some g" "g_status g = GS_PENDING"
    and w': "w' = save_group (apply_patch p g) w" by (auto elim: update_Inr)
  have "lifecycle (apply_patch p g)"
    using groups_okD [OF assms(2) g(1)] g(2) assms(4) by (auto simp: lifecycle_def patched_def split: option.splits)
  with assms(1,2) show ?thesis by (simp add: w' keys_ok_save_group groups_ok_save)
qed

lemma softDelete_keeps:
  assumes "keys_ok w" "groups_ok w" "softDelete gid a w = (r, w')"
  shows "keys_ok w' \<and> groups_ok w'"
proof (cases r)
  case (Inl e)
  then have "w' = w" using assms(3) by (auto simp: softDelete_def split: option.splits if_splits)
  with assms show ?thesis by simp
next
  case (Inr u)
  with assms(3) obtain g where g: "find_group gid w = Some g"
    and w': "w' = dispatchEvent (GROUP_ARCHIVED gid) (save_group (g\<lparr>g_deletedAt := Some (now w)\<rparr>) w)"
    by (auto simp: softDelete_def split: option.splits if_splits)
  have "lifecycle (g\<lparr>g_deletedAt := Some (now w)\<rparr>)"
    using groups_okD [OF assms(2) g] by (auto simp: lifecycle_def split: group_status.splits)
  then have "groups_ok (save_group (g\<lparr>g_deletedAt := Some (now w)\<rparr>) w)" by (rule groups_ok_save [OF assms(2)])
  then show ?thesis using assms(1) by (simp add: w' keys_ok_save_group) (simp add: groups_ok_def)
qed

lemma transferAdmin_cases:
  assumes "transferAdmin gid a uid w = (r, w')"
  obtains (refused) "w' = w" "\<not> is_ok r"
  | (saved) g m w2 where "find_group gid w = Some g" "g_adminWallet g = a" "m \<in> set (memberships w)"
      "m_groupId m = gid" "m_userId m = uid" "m_status m = MS_ACTIVE"
      "same_tables w2 w'" "groups w2 = groups (save_group (g\<lparr>g_adminWallet := m_walletAddress m\<rparr>) w)"
      "memberships w2 = memberships w" "waitlist w2 = waitlist w" "uuid_count w2 = uuid_count w"
      "\<And>g'. r = Inr g' \<Longrightarrow> g' = g\<lparr>g_adminWallet := m_walletAddress m\<rparr>"
proof (cases "find_group gid w")
  case None
  then have "w' = w" "\<not> is_ok r" using assms by (auto simp: transferAdmin_def)
  then show thesis by (rule refused)
next
  case (Some g)
  show thesis
  proof (cases "g_adminWallet g = a \<and>
      List.find (\<lambda>m. m_groupId m = gid \<and> m_userId m = uid \<and> m_status m = MS_ACTIVE) (memberships w) \<noteq> None")
    case False
    then show thesis using assms Some refused by (auto simp: transferAdmin_def split: if_splits)
  next
    case True
    then obtain m where m: "List.find (\<lambda>m. m_groupId m = gid \<and> m_userId m = uid \<and> m_status m = MS_ACTIVE)
        (memberships w) = Some m" by auto
    let ?g1 = "g\<lparr>g_adminWallet := m_walletAddress m\<rparr>"
    let ?w2 = "(save_group ?g1 w)\<lparr>audit_log := audit_log (save_group ?g1 w) @ [\<lparr>a_userId = gid,
      a_action = ''GROUP_ADMIN_TRANSFER'', a_resource = ''Group''\<rparr>]\<rparr>"
    from assms True Some m obtain ds x where nb: "notifyBatch ds ?w2 = (x, w')"
      and r: "r = (case x of Inl e \<Rightarrow> Inl e | Inr _ \<Rightarrow> Inr ?g1)"
      unfolding transferAdmin_def Let_def by (auto split: prod.splits sum.splits)
    show thesis
      by (rule saved [OF Some _ _ _ _ _ notifyBatch_frame [OF nb]])
        (use True find_Some_mem [OF m] r in \<open>auto split: sum.splits\<close>)
  qed
qed

lemma transferAdmin_keeps:
  assumes "keys_ok w" "groups_ok w" "transferAdmin gid a uid w = (r, w')"
  shows "keys_ok w' \<and> groups_ok w'"
  using assms(3)
proof (cases rule: transferAdmin_cases)
  case (saved g m w2)
  let ?g1 = "g\<lparr>g_adminWallet := m_walletAddress m\<rparr>"
  have "keys_ok w2"
    by (rule keys_ok_cong [OF saved(8) _ _ _ keys_ok_save_group [OF assms(1), of ?g1]]) (simp_all add: saved)
  moreover have "lifecycle ?g1" using groups_okD [OF assms(2) saved(1)]
    by (auto simp: lifecycle_def split: group_status.splits)
  then have "groups_ok (save_group ?g1 w)" by (rule groups_ok_save [OF assms(2)])
  ultimately show ?thesis
    using keys_ok_same_tables [OF saved(7)] same_tables_groups [OF saved(7)] saved(8) by (simp add: groups_ok_def)
qed (use assms in simp_all)

text \<open>
  Admin rights move to an active member and leave the old admin. After a transfer the stored
  group's admin wallet is that of an ACTIVE member of the group with the requested user id, and
  the old admin, unless the same wallet, can no longer activate the group, advance a round,
  update, delete or transfer it: each of these calls is refused and changes nothing.
\<close>

theorem transferAdmin_moves_rights:
  assumes "keys_ok w" "transferAdmin gid a uid w = (Inr g', w')"
  shows "find_group gid w' = Some g' \<and>
    (\<exists>m \<in> set (memberships w'). m_groupId m = gid \<and> m_userId m = uid \<and> m_status m = MS_ACTIVE \<and>
       g_adminWallet g' = m_walletAddress m) \<and>
    (g_adminWallet g' \<noteq> a \<longrightarrow>
       activateGroup d rnd gid a w' = (Inl (ForbiddenException ''Only the group admin can activate this group''), w') \<and>
       advanceRound p gid a w' = (Inl (ForbiddenException ''Only the group admin can advance rounds''), w') \<and>
       update gid pt a w' = (Inl (ForbiddenException ''Only the group admin can update this group''), w') \<and>
       softDelete gid a w' = (Inl (ForbiddenException ''Only the group admin can delete this group''), w') \<and>
       transferAdmin gid a v w' = (Inl (ForbiddenException ''Only the current admin can transfer ownership''), w'))"
  using assms(2)
proof (cases rule: transferAdmin_cases)
  case (saved g m w2)
  have g: "g_id g = gid" "g_deletedAt g = None" using find_groupD [OF saved(1)] by simp_all
  have g': "g' = g\<lparr>g_adminWallet := m_walletAddress m\<rparr>" using saved(12) by simp
  then have "find_group (g_id g') (save_group g' w) = Some g'" using g by (intro find_group_save) simp
  then have found: "find_group gid w' = Some g'"
    using g g' same_tables_groups [OF saved(7)] saved(8) by (simp add: find_group_def)
  have "memberships w' = memberships w" using same_tables_members [OF saved(7)] saved(9) by simp
  with found saved(3-6) g' show ?thesis
    by (auto simp: activateGroup_def advanceRound_def update_def softDelete_def transferAdmin_def)
qed simp

subsection \<open>Witnesses\<close>

text \<open>The demo group with the RANDOM strategy, and with every member paid.\<close>

definition demo_random :: world where
  "demo_random = (demo_world GS_PENDING 0 demo_members)
     \<lparr>groups := [demo_group\<lparr>g_payoutOrderStrategy := RANDOM\<rparr>]\<rparr>"

definition demo_paid :: "int \<Rightarrow> membership list \<Rightarrow> world" where
  "demo_paid r ms = demo_world GS_ACTIVE r (map (\<lambda>m. m\<lparr>m_hasPaidCurrentRound := True\<rparr>) ms)"

lemma demo_random_ok: "keys_ok demo_random" "groups_ok demo_random"
  by code_simp+

lemma demo_paid_ok: "keys_ok (demo_paid 1 demo_members)" "groups_ok (demo_paid 1 demo_members)"
  by code_simp+

abbreviation demo_deploy :: "rosca_group \<Rightarrow> string outcome" where
  "demo_deploy \<equiv> \<lambda>g. Inr ''C9''"

abbreviation demo_disburse :: "string \<Rightarrow> wallet \<Rightarrow> string \<Rightarrow> string outcome" where
  "demo_disburse \<equiv> \<lambda>c a x. Inr ''h1''"

lemma demo_activate: "is_ok (fst (activateGroup demo_deploy (\<lambda>i. 0) ''g'' ''w0'' demo_random))"
  by code_simp

lemma demo_advance: "is_ok (fst (advanceRound demo_disburse ''g'' ''w0'' (demo_paid 1 demo_members)))"
  by code_simp

theorem activateGroup_correct_witness:
  "contiguous_orders ''g'' (snd (activateGroup demo_deploy (\<lambda>i. 0) ''g'' ''w0'' demo_random)) \<and>
   (\<exists>g. find_group ''g'' (snd (activateGroup demo_deploy (\<lambda>i. 0) ''g'' ''w0'' demo_random)) = Some g \<and> g_status g = GS_ACTIVE)"
proof -
  let ?w' = "snd (activateGroup demo_deploy (\<lambda>i. 0) ''g'' ''w0'' demo_random)"
  from demo_activate obtain g' where "fst (activateGroup demo_deploy (\<lambda>i. 0) ''g'' ''w0'' demo_random) = Inr g'"
    by (auto simp only: is_ok_iff)
  note act = activateGroup_correct [OF demo_random_ok(1) outcome_run [OF this]]
  have "map_option g_payoutOrderStrategy (find_group ''g'' ?w') = Some RANDOM" by code_simp
  with act show ?thesis by simp
qed

theorem activateGroup_failure_rolls_back_witness:
  "groups (snd (activateGroup (\<lambda>g. Inl (JsError ''rpc'')) (\<lambda>i. 0) ''g'' ''w0'' demo_random)) = groups demo_random"
proof -
  have "fst (activateGroup (\<lambda>g. Inl (JsError ''rpc'')) (\<lambda>i. 0) ''g'' ''w0'' demo_random)
      = Inl (BadRequestException ''Failed to deploy on-chain contract; activation rolled back'')" by code_simp
  from activateGroup_failure_rolls_back [OF demo_random_ok outcome_run [OF this]] show ?thesis by blast
qed

theorem advanceRound_correct_witness:
  "\<exists>g'. find_group ''g'' (snd (advanceRound demo_disburse ''g'' ''w0'' (demo_paid 1 demo_members))) = Some g' \<and>
     g_currentRound g' = 2 \<and> g_status g' = GS_ACTIVE"
proof -
  let ?w = "demo_paid 1 demo_members"
  from demo_advance obtain g' where "fst (advanceRound demo_disburse ''g'' ''w0'' ?w) = Inr g'"
    by (auto simp only: is_ok_iff)
  note run = outcome_run [OF this]
  have "find_group ''g'' ?w = Some (demo_group\<lparr>g_status := GS_ACTIVE, g_currentRound := 1\<rparr>)" by code_simp
  from advanceRound_correct [OF demo_paid_ok run this] show ?thesis by (simp add: demo_group_def)
qed

definition demo_new_dto :: group_dto where
  "demo_new_dto = demo_dto\<lparr>d_contributionAmount := ''50'', d_roundDuration := 7, d_totalRounds := 5,
     d_minMembers := 2, d_assetCode := Some ''usdc'', d_templateId := None\<rparr>"

theorem createGroup_wellformed_witness:
  "\<exists>g w'. createGroup_with (Some None) [''XLM'', ''USDC''] demo_new_dto ''w0'' None empty_world = (Inr g, w') \<and>
     g_maxMembers g = 5 \<and> g_assetCode g = ''USDC'' \<and> lifecycle g \<and> groups w' = [g]"
proof -
  have "is_ok (fst (createGroup_with (Some None) [''XLM'', ''USDC''] demo_new_dto ''w0'' None empty_world))"
    by code_simp
  then obtain g where g: "fst (createGroup_with (Some None) [''XLM'', ''USDC''] demo_new_dto ''w0'' None empty_world) = Inr g"
    by (auto simp only: is_ok_iff)
  note run = outcome_run [OF g]
  have "map_sum id (\<lambda>g. (g_totalRounds g, g_assetCode g))
      (fst (createGroup_with (Some None) [''XLM'', ''USDC''] demo_new_dto ''w0'' None empty_world))
      = Inr (5, ''USDC'')" by code_simp
  then have "g_totalRounds g = 5" "g_assetCode g = ''USDC''" by (simp_all add: g)
  moreover have "groups empty_world = []" by code_simp
  ultimately show ?thesis using createGroup_wellformed [OF run] run by (intro exI conjI) (assumption | simp)+
qed

definition demo_patch :: group_patch where
  "demo_patch = \<lparr>gp_name = None, gp_adminWallet = None, gp_contributionAmount = None, gp_token = None,
     gp_roundDuration = None, gp_totalRounds = Some 5, gp_contractAddress = None\<rparr>"

theorem update_leaves_rounds_without_recipient_witness:
  "\<exists>g' w'. update ''g'' demo_patch ''w0'' (demo_world GS_PENDING 0 demo_members) = (Inr g', w') \<and>
     find_membership_by_order ''g'' 3 w' = None"
proof -
  let ?w = "demo_world GS_PENDING 0 demo_members" and ?g = "demo_group\<lparr>g_status := GS_PENDING, g_currentRound := 0\<rparr>"
  have g: "find_group ''g'' ?w = Some ?g" "contiguous_orders ''g'' ?w" "member_count ''g'' ?w \<le> g_maxMembers ?g"
    "g_maxMembers ?g = g_totalRounds ?g" "g_status ?g = GS_PENDING" "gp_totalRounds demo_patch = Some 5" "g_totalRounds ?g < 5"
    by code_simp+
  from update_leaves_rounds_without_recipient [OF g(1,4,5,6,7,2,3)] obtain g' w' where
    run: "update ''g'' demo_patch (g_adminWallet ?g) ?w = (Inr g', w')" and
    none: "\<And>r. g_maxMembers g' < r \<Longrightarrow> r \<le> g_totalRounds g' \<Longrightarrow> find_membership_by_order ''g'' (r - 1) w' = None" by blast
  have g': "g' = apply_patch demo_patch ?g" using run g(1) by (auto elim!: update_Inr)
  have "find_membership_by_order ''g'' (4 - 1) w' = None"
    by (rule none) (simp_all add: g' demo_patch_def demo_group_def patched_def)
  then show ?thesis using run by (simp add: demo_group_def)
qed

theorem advanceRound_without_recipient_witness:
  "advanceRound demo_disburse ''g'' ''w0'' (demo_paid 3 [demo_member 0 ''u0'' ''w0'' (Some 0)])
     = advanceRound (\<lambda>c a x. Inl (JsError ''rpc'')) ''g'' ''w0'' (demo_paid 3 [demo_member 0 ''u0'' ''w0'' (Some 0)])"
proof -
  have w: "contiguous_orders ''g'' (demo_paid 3 [demo_member 0 ''u0'' ''w0'' (Some 0)])"
    "find_group ''g'' (demo_paid 3 [demo_member 0 ''u0'' ''w0'' (Some 0)])
      = Some (demo_group\<lparr>g_status := GS_ACTIVE, g_currentRound := 3\<rparr>)"
    "member_count ''g'' (demo_paid 3 [demo_member 0 ''u0'' ''w0'' (Some 0)])
      < g_currentRound (demo_group\<lparr>g_status := GS_ACTIVE, g_currentRound := 3\<rparr>)" by code_simp+
  show ?thesis by (rule advanceRound_without_recipient [OF w])
qed

theorem transferAdmin_moves_rights_witness:
  "activateGroup demo_deploy (\<lambda>i. 0) ''g'' ''w0'' (snd (transferAdmin ''g'' ''w0'' ''u1'' demo_random))
     = (Inl (ForbiddenException ''Only the group admin can activate this group''),
        snd (transferAdmin ''g'' ''w0'' ''u1'' demo_random))"
proof -
  have "is_ok (fst (transferAdmin ''g'' ''w0'' ''u1'' demo_random))" by code_simp
  then obtain g' where g: "fst (transferAdmin ''g'' ''w0'' ''u1'' demo_random) = Inr g'" by (auto simp only: is_ok_iff)
  note run = outcome_run [OF g]
  have "map_sum id g_adminWallet (fst (transferAdmin ''g'' ''w0'' ''u1'' demo_random)) = Inr ''w1''" by code_simp
  then have "g_adminWallet g' \<noteq> ''w0''" by (simp add: g)
  with transferAdmin_moves_rights [OF demo_random_ok(1) run] show ?thesis by blast
qed

end
