(* ===== verification/Payouts.thy ===== *)
theory Payouts
  imports GroupsService
begin

text \<open>
  \<open>PayoutService\<close> (\<open>groups/payout.service.ts\<close>) and \<open>PayoutReconciliationProcessor\<close>
  (\<open>bullmq/payout-reconciliation.processor.ts\<close>): the payout of a round to its recipient and its
  confirmation. The Stellar network answers through arguments. \<open>pay\<close> is \<open>disbursePayout\<close>: it may
  hand the hash of the signed transaction to the callback before it submits, and then returns a
  hash or throws. \<open>path_pay\<close> is \<open>submitPathPayment\<close>. \<open>decimal.js\<close> is the record \<open>decimal_ops\<close>.
\<close>

record 'd decimal_ops =
  dec_of :: "string \<Rightarrow> 'd"
  dec_plus :: "'d \<Rightarrow> 'd \<Rightarrow> 'd"
  dec_times :: "'d \<Rightarrow> 'd \<Rightarrow> 'd"
  dec_toFixed7 :: "'d \<Rightarrow> string"

datatype path_outcome = FULL_FILL | PARTIAL_FILL | SLIPPAGE_EXCEEDED | PP_FAILED

fun show_path_outcome :: "path_outcome \<Rightarrow> string" where
  "show_path_outcome FULL_FILL = ''FULL_FILL''"
| "show_path_outcome PARTIAL_FILL = ''PARTIAL_FILL''"
| "show_path_outcome SLIPPAGE_EXCEEDED = ''SLIPPAGE_EXCEEDED''"
| "show_path_outcome PP_FAILED = ''FAILED''"

record path_result =
  pr_outcome :: path_outcome
  pr_deliveredAmount :: string
  pr_lockedRate :: string
  pr_txHash :: "string option"
  pr_reason :: "string option"

type_synonym pay_fun = "string \<Rightarrow> wallet \<Rightarrow> string \<Rightarrow> string \<Rightarrow> string option \<Rightarrow> string option \<times> string outcome"

type_synonym path_fun = "string \<Rightarrow> string option \<Rightarrow> string \<Rightarrow> string option \<Rightarrow> string \<Rightarrow> int \<Rightarrow> wallet \<Rightarrow> path_result outcome"

fun show_payout_status :: "payout_tx_status \<Rightarrow> string" where
  "show_payout_status PENDING_SUBMISSION = ''PENDING_SUBMISSION''"
| "show_payout_status SUBMITTED = ''SUBMITTED''"
| "show_payout_status PT_CONFIRMED = ''CONFIRMED''"
| "show_payout_status PT_FAILED = ''FAILED''"

definition lower_char :: "char \<Rightarrow> char" where
  "lower_char c = (let n = of_char c :: nat in if 65 \<le> n \<and> n \<le> 90 then char_of (n + 32) else c)"

definition toLowerCase :: "string \<Rightarrow> string" where
  "toLowerCase = map lower_char"

definition save_payout_tx :: "payout_tx \<Rightarrow> world \<Rightarrow> world" where
  "save_payout_tx t w = w\<lparr>payout_txs := save_row pt_id t (payout_txs w)\<rparr>"

definition find_payout_tx :: "string \<Rightarrow> world \<Rightarrow> payout_tx option" where
  "find_payout_tx k w = List.find (\<lambda>t. pt_payoutOrderId t = k) (payout_txs w)"

text \<open>\<open>queueService.addPayoutReconciliation\<close>: the job id is the transaction's id, and BullMQ drops
  a job whose id is queued already.\<close>

definition addPayoutReconciliation :: "uuid \<Rightarrow> world \<Rightarrow> world" where
  "addPayoutReconciliation i w =
     (if i \<in> set (payout_jobs w) then w else w\<lparr>payout_jobs := payout_jobs w @ [i]\<rparr>)"

definition buildPayoutOrderId :: "uuid \<Rightarrow> int \<Rightarrow> string" where
  "buildPayoutOrderId gid round = gid @ '':'' @ show_int round"

definition contribution_value :: "'d decimal_ops \<Rightarrow> contribution \<Rightarrow> 'd" where
  "contribution_value D c =
     (if truthy (c_normalizedAmount c) then dec_of D (the (c_normalizedAmount c))
      else dec_times D (dec_of D (c_amount c)) (dec_of D (c_fxRate c)))"

definition computePayoutAmount :: "'d decimal_ops \<Rightarrow> uuid \<Rightarrow> int \<Rightarrow> rosca_group \<Rightarrow> world \<Rightarrow> string" where
  "computePayoutAmount D gid round g w =
     (let cs = filter (\<lambda>c. c_groupId c = gid \<and> c_roundNumber c = round \<and> c_status c = CS_CONFIRMED) (contributions w)
      in if cs = [] then g_contributionAmount g
         else dec_toFixed7 D (foldl (\<lambda>total c. dec_plus D total (contribution_value D c)) (dec_of D ''0'') cs))"

definition outstanding_penalties :: "uuid \<Rightarrow> uuid \<Rightarrow> world \<Rightarrow> int" where
  "outstanding_penalties gid uid w =
     count_rows (\<lambda>p. p_userId p = uid \<and> p_groupId p = gid \<and> p_status p = PS_PENDING) (penalties w)"

text \<open>The \<open>try\<close> block: the in-memory transaction afterwards (which the \<open>catch\<close> block reads), the
  hash or the error, and the state.\<close>

definition finish_payout :: "bool \<Rightarrow> payout_tx \<Rightarrow> string \<Rightarrow> world \<Rightarrow> payout_tx \<times> string outcome \<times> world" where
  "finish_payout crash t h w =
     (if crash
      then (t, Inl (JsError ''Simulated crash after submitTransaction and before status update''), w)
      else let t' = t\<lparr>pt_status := SUBMITTED\<rparr>
           in (t', Inr h, addPayoutReconciliation (pt_id t') (save_payout_tx t' w)))"

definition submit_payout ::
  "pay_fun \<Rightarrow> path_fun \<Rightarrow> bool \<Rightarrow> rosca_group \<Rightarrow> membership \<Rightarrow> string \<Rightarrow> payout_tx \<Rightarrow> world
     \<Rightarrow> payout_tx \<times> string outcome \<times> world" where
  "submit_payout pay path_pay crash g r amount t w =
     (let contributionAssetCode = toUpperCase (g_assetCode g)
      in if contributionAssetCode \<noteq> toUpperCase (pt_assetCode t)
         then (case path_pay contributionAssetCode (g_assetIssuer g) (pt_assetCode t) (pt_assetIssuer t)
                      amount (g_fxToleranceBps g) (m_walletAddress r) of
                 Inl e \<Rightarrow> (t, Inl e, w)
               | Inr p \<Rightarrow>
                   if pr_outcome p = SLIPPAGE_EXCEEDED \<or> pr_outcome p = PP_FAILED
                   then let t1 = t\<lparr>pt_status := PT_FAILED,
                                  pt_failureReason := Some (case pr_reason p of Some s \<Rightarrow> s
                                     | None \<Rightarrow> show_path_outcome (pr_outcome p)),
                                  pt_pathPaymentOutcome := Some (show_path_outcome (pr_outcome p))\<rparr>
                        in (t1, Inl (BadGatewayException (''Payout conversion '' @ show_path_outcome (pr_outcome p)
                              @ '': '' @ (case pr_reason p of Some s \<Rightarrow> s | None \<Rightarrow> ''Path payment failed''))),
                            save_payout_tx t1 w)
                   else let h = (case pr_txHash p of Some h \<Rightarrow> h | None \<Rightarrow> ''payout_'' @ pt_payoutOrderId t)
                        in finish_payout crash (t\<lparr>pt_txHash := Some h, pt_deliveredAmount := Some (pr_deliveredAmount p),
                                     pt_pathPaymentOutcome := Some (show_path_outcome (pr_outcome p)),
                                     pt_fxRate := Some (pr_lockedRate p)\<rparr>) h w)
         else (case pay (the (g_contractAddress g)) (m_walletAddress r) amount (pt_assetCode t) (pt_assetIssuer t) of
                 (calculated, answer) \<Rightarrow>
                   let t1 = (case calculated of None \<Rightarrow> t | Some h \<Rightarrow> t\<lparr>pt_txHash := Some h\<rparr>);
                       w1 = (case calculated of None \<Rightarrow> w | Some h \<Rightarrow> save_payout_tx t1 w)
                   in case answer of
                        Inl e \<Rightarrow> (t1, Inl e, w1)
                      | Inr h \<Rightarrow> finish_payout crash (t1\<lparr>pt_txHash := Some h, pt_deliveredAmount := Some amount,
                                            pt_pathPaymentOutcome := Some (show_path_outcome FULL_FILL)\<rparr>) h w1))"

definition new_payout_tx :: "rosca_group \<Rightarrow> string \<Rightarrow> string \<Rightarrow> world \<Rightarrow> payout_tx" where
  "new_payout_tx g key amount w =
     \<lparr>pt_id = fresh_uuid w, pt_payoutOrderId = key, pt_status = PENDING_SUBMISSION, pt_txHash = None,
      pt_assetCode = g_unitOfAccountAssetCode g,
      pt_assetIssuer = (case g_unitOfAccountAssetIssuer g of Some i \<Rightarrow> Some i | None \<Rightarrow> g_assetIssuer g),
      pt_requestedAmount = Some amount, pt_deliveredAmount = None, pt_pathPaymentOutcome = None,
      pt_fxRate = None, pt_failureReason = None\<rparr>"

text \<open>From the insertion of the transaction row to the end of the handler.\<close>

definition execute_payout ::
  "pay_fun \<Rightarrow> path_fun \<Rightarrow> bool \<Rightarrow> rosca_group \<Rightarrow> membership \<Rightarrow> int \<Rightarrow> string \<Rightarrow> string io" where
  "execute_payout pay path_pay crash g r round amount w =
     (let t = new_payout_tx g (buildPayoutOrderId (g_id g) round) amount w;
          w1 = (tick_uuid w)\<lparr>payout_txs := payout_txs w @ [t]\<rparr>
      in case submit_payout pay path_pay crash g r amount t w1 of
           (t', Inl e, w2) \<Rightarrow>
             (Inl (BadGatewayException (''Contract invocation failed: '' @ exn_message e)),
              if \<not> truthy (pt_txHash t') then save_payout_tx (t'\<lparr>pt_status := PT_FAILED\<rparr>) w2 else w2)
         | (t', Inr h, w2) \<Rightarrow>
             let w3 = save_membership (r\<lparr>m_hasReceivedPayout := True, m_transactionHash := Some h\<rparr>) w2
             in (Inr h, snd (notify (plain_dto (m_userId r) PAYOUT_RECEIVED ''Payout Received''
                   (''You have received your payout for round '' @ show_int round @ '' in group \"''
                    @ g_name g @ ''\".'')) w3)))"

definition distributePayout ::
  "'d decimal_ops \<Rightarrow> pay_fun \<Rightarrow> path_fun \<Rightarrow> bool \<Rightarrow> uuid \<Rightarrow> int \<Rightarrow> string io" where
  "distributePayout D pay path_pay crash gid round w =
     (case find_group gid w of
        None \<Rightarrow> (Inl (NotFoundException ''Group not found''), w)
      | Some g \<Rightarrow>
          if g_status g \<noteq> GS_ACTIVE
          then (Inl (BadRequestException ''Group must be ACTIVE to distribute payout''), w)
          else if \<not> truthy (g_contractAddress g)
          then (Inl (BadRequestException ''Group has no contract address''), w)
          else case find_membership_by_order gid (round - 1) w of
            None \<Rightarrow> (Inl (NotFoundException (''No member scheduled for payout in round '' @ show_int round
                      @ '' (payoutOrder '' @ show_int (round - 1) @ '')'')), w)
          | Some r \<Rightarrow>
              if m_hasReceivedPayout r
              then (Inl (ConflictException ''Member has already received payout''), w)
              else let outstanding = outstanding_penalties gid (m_userId r) w in
              if outstanding > 0
              then (case notify (plain_dto (m_userId r) (NT_undefined ''PAYOUT_BLOCKED_PENDING_PENALTY'') ''Payout Blocked''
                        (''Your payout for group \"'' @ g_name g @ ''\" is blocked due to '' @ show_int outstanding
                         @ '' outstanding penalty(ies). Please settle them first.'')) w of
                      (Inl e, w1) \<Rightarrow> (Inl e, w1)
                    | (Inr _, w1) \<Rightarrow> (Inl (BadRequestException (''Payout blocked: recipient has ''
                        @ show_int outstanding @ '' outstanding penalty(ies) in this group'')), w1))
              else case find_payout_tx (buildPayoutOrderId gid round) w of
                Some t \<Rightarrow>
                  (Inr (case pt_txHash t of Some h \<Rightarrow> h
                        | None \<Rightarrow> ''payout_'' @ toLowerCase (show_payout_status (pt_status t)) @ ''_'' @ pt_id t),
                   if pt_status t = SUBMITTED then addPayoutReconciliation (pt_id t) w else w)
              | None \<Rightarrow> execute_payout pay path_pay crash g r round (computePayoutAmount D gid round g w) w)"

definition pollUnconfirmedPayouts :: "world \<Rightarrow> world" where
  "pollUnconfirmedPayouts w =
     fold (\<lambda>t. addPayoutReconciliation (pt_id t))
       (filter (\<lambda>t. (pt_status t = SUBMITTED \<or> pt_status t = PENDING_SUBMISSION) \<and> pt_txHash t \<noteq> None) (payout_txs w)) w"

definition onApplicationBootstrap :: "world \<Rightarrow> world" where
  "onApplicationBootstrap = pollUnconfirmedPayouts"

text \<open>One run of the reconciliation job; \<open>chain_status\<close> is \<open>getTransactionStatus\<close>. A thrown error
  makes the queue run the job again.\<close>

datatype chain_status = ST_PENDING | ST_CONFIRMED | ST_FAILED

definition process_payout_reconciliation :: "(string \<Rightarrow> chain_status) \<Rightarrow> uuid \<Rightarrow> string io" where
  "process_payout_reconciliation chain_status i w =
     (case List.find (\<lambda>t. pt_id t = i) (payout_txs w) of
        None \<Rightarrow> (Inr ''SKIPPED'', w)
      | Some t \<Rightarrow>
          if pt_status t \<noteq> SUBMITTED \<and> \<not> (pt_status t = PENDING_SUBMISSION \<and> truthy (pt_txHash t))
          then (Inr ''NOOP'', w)
          else if \<not> truthy (pt_txHash t)
          then (Inl (JsError (''Payout transaction '' @ pt_id t @ '' is ''
                  @ show_payout_status (pt_status t) @ '' but has no txHash'')), w)
          else (case chain_status (the (pt_txHash t)) of
                  ST_CONFIRMED \<Rightarrow> (Inr ''CONFIRMED'', save_payout_tx (t\<lparr>pt_status := PT_CONFIRMED\<rparr>) w)
                | ST_FAILED \<Rightarrow> (Inr ''FAILED'', save_payout_tx (t\<lparr>pt_status := PT_FAILED\<rparr>) w)
                | ST_PENDING \<Rightarrow> (Inl (JsError (''Transaction '' @ the (pt_txHash t)
                    @ '' is still pending on-chain and will be retried'')), w)))"

lemmas payout_handlers [handler_defs] = distributePayout_def process_payout_reconciliation_def

subsection \<open>The order id\<close>

lemma buildPayoutOrderId_inj: "buildPayoutOrderId g r = buildPayoutOrderId h s \<longleftrightarrow> g = h \<and> r = s"
proof
  assume "buildPayoutOrderId g r = buildPayoutOrderId h s"
  then have "g = h \<and> show_int r = show_int s"
    unfolding buildPayoutOrderId_def by (rule last_colon_cut) (rule show_int_no_colon)+
  then show "g = h \<and> r = s" by (simp add: show_int_inj)
qed simp

subsection \<open>Rows of the payout table\<close>

definition payouts_ok :: "world \<Rightarrow> bool" where
  "payouts_ok w \<longleftrightarrow> distinct (map pt_id (payout_txs w)) \<and> (\<forall>t \<in> set (payout_txs w). used_uuid w (pt_id t)) \<and>
     distinct (map pt_payoutOrderId (payout_txs w))"

text \<open>What a payout may change besides the payout rows and the queue: nothing.\<close>

definition same_but_payouts :: "world \<Rightarrow> world \<Rightarrow> bool" where
  "same_but_payouts w w' \<longleftrightarrow>
     users w' = users w \<and> groups w' = groups w \<and> memberships w' = memberships w \<and>
     waitlist w' = waitlist w \<and> contributions w' = contributions w \<and> penalties w' = penalties w \<and>
     invites w' = invites w \<and> notifications w' = notifications w \<and> uuid_count w' = uuid_count w \<and> now w' = now w \<and>
     tx_jobs w' = tx_jobs w \<and> inflight_locks w' = inflight_locks w"

lemma same_but_payouts_refl [simp]: "same_but_payouts w w" by (simp add: same_but_payouts_def)

lemma same_but_payouts_save [simp]: "same_but_payouts w (save_payout_tx t w)"
  by (simp add: same_but_payouts_def save_payout_tx_def)

lemma same_but_payouts_job [simp]: "same_but_payouts w (addPayoutReconciliation i w)"
  by (simp add: same_but_payouts_def addPayoutReconciliation_def)

lemma same_but_payouts_trans: "same_but_payouts w v \<Longrightarrow> same_but_payouts v u \<Longrightarrow> same_but_payouts w u"
  by (simp add: same_but_payouts_def)

lemma payout_txs_job [simp]: "payout_txs (addPayoutReconciliation i w) = payout_txs w"
  by (simp add: addPayoutReconciliation_def)

text \<open>Two payout tables with the same rows up to the progress of each transaction.\<close>

definition same_rows :: "world \<Rightarrow> world \<Rightarrow> bool" where
  "same_rows w w' \<longleftrightarrow> map (\<lambda>t. (pt_id t, pt_payoutOrderId t)) (payout_txs w') = map (\<lambda>t. (pt_id t, pt_payoutOrderId t)) (payout_txs w)"

lemma same_rows_refl: "payout_txs w' = payout_txs w \<Longrightarrow> same_rows w w'" by (simp add: same_rows_def)

lemma same_rows_trans: "same_rows w v \<Longrightarrow> same_rows v u \<Longrightarrow> same_rows w u" by (simp add: same_rows_def)

lemma same_rows_ids:
  assumes "same_rows w w'"
  shows "map pt_id (payout_txs w') = map pt_id (payout_txs w)"
    and "map pt_payoutOrderId (payout_txs w') = map pt_payoutOrderId (payout_txs w)"
  using arg_cong [OF assms [unfolded same_rows_def], of "map fst"]
    arg_cong [OF assms [unfolded same_rows_def], of "map snd"] by (simp_all add: comp_def)

lemma save_payout_same_rows:
  assumes "distinct (map pt_id (payout_txs w))" "t \<in> set (payout_txs w)"
    and "pt_id t' = pt_id t" "pt_payoutOrderId t' = pt_payoutOrderId t"
  shows "same_rows w (save_payout_tx t' w)"
proof -
  have "x = t" if "x \<in> set (payout_txs w)" "pt_id x = pt_id t" for x
    using assms(1,2) that by (auto simp: distinct_map dest: inj_onD)
  then show ?thesis
    using assms(2-4) by (auto simp: same_rows_def save_payout_tx_def save_row_def)
qed

lemma payouts_ok_same_rows:
  assumes "payouts_ok w" "same_rows w w'" "uuid_count w \<le> uuid_count w'"
  shows "payouts_ok w'"
proof -
  have "pt_id ` set (payout_txs w') = pt_id ` set (payout_txs w)"
    using same_rows_ids(1) [OF assms(2)] by (metis list.set_map)
  then have "used_uuid w (pt_id t)" if "t \<in> set (payout_txs w')" for t
    using that assms(1) unfolding payouts_ok_def by (metis image_iff)
  then show ?thesis
    using assms(1,3) same_rows_ids [OF assms(2)] unfolding payouts_ok_def by (auto intro: used_uuid_mono)
qed

lemma find_payout_same_rows:
  assumes "same_rows w w'"
  shows "find_payout_tx k w' = None \<longleftrightarrow> find_payout_tx k w = None"
proof -
  have "pt_payoutOrderId ` set (payout_txs w') = pt_payoutOrderId ` set (payout_txs w)"
    using same_rows_ids(2) [OF assms] by (metis list.set_map)
  then show ?thesis unfolding find_payout_tx_def find_None_all by (metis image_iff)
qed

text \<open>The submission keeps the row of its transaction, under the same id and order id.\<close>

definition stored :: "payout_tx \<Rightarrow> world \<Rightarrow> bool" where
  "stored t w \<longleftrightarrow> distinct (map pt_id (payout_txs w)) \<and>
     (\<exists>x \<in> set (payout_txs w). pt_id x = pt_id t \<and> pt_payoutOrderId x = pt_payoutOrderId t)"

lemma stored_save:
  assumes "stored t w" "pt_id t' = pt_id t" "pt_payoutOrderId t' = pt_payoutOrderId t"
  shows "stored t' (save_payout_tx t' w)" "same_rows w (save_payout_tx t' w)"
proof -
  obtain x where x: "x \<in> set (payout_txs w)" "pt_id x = pt_id t" "pt_payoutOrderId x = pt_payoutOrderId t"
    and d: "distinct (map pt_id (payout_txs w))" using assms(1) by (auto simp: stored_def)
  show rows: "same_rows w (save_payout_tx t' w)"
    using x assms(2,3) by (intro save_payout_same_rows [OF d x(1)]) simp_all
  have "t' \<in> set (payout_txs (save_payout_tx t' w))" by (simp add: save_payout_tx_def set_save_row)
  with d show "stored t' (save_payout_tx t' w)"
    by (simp add: stored_def same_rows_ids(1) [OF rows]) blast
qed

lemma finish_payout_stored:
  assumes "finish_payout crash t h w = (t', ans, w')" "stored t w" "pt_txHash t = Some h"
  shows "stored t' w' \<and> same_rows w w' \<and> same_but_payouts w w' \<and> pt_id t' = pt_id t \<and>
    pt_payoutOrderId t' = pt_payoutOrderId t \<and>
    (\<forall>h'. ans = Inr h' \<longrightarrow> pt_txHash t' = Some h' \<and> t' \<in> set (payout_txs w') \<and> pt_status t' = SUBMITTED \<and> pt_id t' \<in> set (payout_jobs w'))"
proof (cases crash)
  case True
  then show ?thesis using assms by (auto simp: finish_payout_def same_rows_refl)
next
  case False
  let ?t = "t\<lparr>pt_status := SUBMITTED\<rparr>"
  have t': "t' = ?t" "ans = Inr h" "w' = addPayoutReconciliation (pt_id t) (save_payout_tx ?t w)"
    using assms(1) False by (auto simp: finish_payout_def Let_def)
  note st = stored_save [OF assms(2), of ?t]
  have "same_rows w w'" "stored ?t w'"
    using st by (simp_all add: t' same_rows_def stored_def)
  moreover have "?t \<in> set (payout_txs w')" by (simp add: t' save_payout_tx_def set_save_row)
  moreover have "pt_id t \<in> set (payout_jobs w')" by (simp add: t' addPayoutReconciliation_def)
  moreover have "same_but_payouts w w'"
    using same_but_payouts_trans [OF same_but_payouts_save same_but_payouts_job] by (simp add: t')
  ultimately show ?thesis using assms(3) by (simp add: t')
qed

lemma submit_payout_stored:
  assumes "submit_payout pay path_pay crash g r amount t w = (t', ans, w')" "stored t w"
  shows "stored t' w' \<and> same_rows w w' \<and> same_but_payouts w w' \<and> pt_id t' = pt_id t \<and>
    pt_payoutOrderId t' = pt_payoutOrderId t \<and>
    (\<forall>h. ans = Inr h \<longrightarrow> pt_txHash t' = Some h \<and> t' \<in> set (payout_txs w') \<and> pt_status t' = SUBMITTED \<and>
       pt_id t' \<in> set (payout_jobs w'))"
proof (cases "toUpperCase (g_assetCode g) \<noteq> toUpperCase (pt_assetCode t)")
  case True
  show ?thesis
  proof (cases "path_pay (toUpperCase (g_assetCode g)) (g_assetIssuer g) (pt_assetCode t) (pt_assetIssuer t)
      amount (g_fxToleranceBps g) (m_walletAddress r)")
    case (Inl e)
    then show ?thesis using assms True by (auto simp: submit_payout_def Let_def same_rows_refl)
  next
    case (Inr p)
    show ?thesis
    proof (cases "pr_outcome p = SLIPPAGE_EXCEEDED \<or> pr_outcome p = PP_FAILED")
      case bad: True
      let ?t = "t\<lparr>pt_status := PT_FAILED, pt_failureReason := Some (case pr_reason p of Some s \<Rightarrow> s
          | None \<Rightarrow> show_path_outcome (pr_outcome p)),
        pt_pathPaymentOutcome := Some (show_path_outcome (pr_outcome p))\<rparr>"
      have t': "t' = ?t" "w' = save_payout_tx ?t w" "\<not> is_ok ans"
        using assms(1) True Inr bad by (auto simp: submit_payout_def Let_def)
      then show ?thesis using stored_save [OF assms(2), of ?t] by (auto simp: is_ok_iff)
    next
      case good: False
      let ?h = "case pr_txHash p of Some h \<Rightarrow> h | None \<Rightarrow> ''payout_'' @ pt_payoutOrderId t"
      let ?t = "t\<lparr>pt_txHash := Some ?h, pt_deliveredAmount := Some (pr_deliveredAmount p),
        pt_pathPaymentOutcome := Some (show_path_outcome (pr_outcome p)), pt_fxRate := Some (pr_lockedRate p)\<rparr>"
      have fin: "finish_payout crash ?t ?h w = (t', ans, w')"
        using assms(1) True Inr good by (simp add: submit_payout_def Let_def)
      have "stored ?t w" "pt_txHash ?t = Some ?h" using assms(2) by (simp_all add: stored_def)
      note F = finish_payout_stored [OF fin this]
      have ids: "pt_id ?t = pt_id t" "pt_payoutOrderId ?t = pt_payoutOrderId t" by simp_all
      from F show ?thesis unfolding ids .
    qed
  qed
next
  case False
  obtain calc answer where pay: "pay (the (g_contractAddress g)) (m_walletAddress r) amount (pt_assetCode t)
      (pt_assetIssuer t) = (calc, answer)" by (metis surj_pair)
  let ?t1 = "case calc of None \<Rightarrow> t | Some h \<Rightarrow> t\<lparr>pt_txHash := Some h\<rparr>"
  let ?w1 = "case calc of None \<Rightarrow> w | Some h \<Rightarrow> save_payout_tx ?t1 w"
  have ids: "pt_id ?t1 = pt_id t" "pt_payoutOrderId ?t1 = pt_payoutOrderId t" by (simp_all split: option.splits)
  have w1: "stored ?t1 ?w1" "same_rows w ?w1" "same_but_payouts w ?w1"
    using stored_save [OF assms(2) ids] assms(2) by (auto simp: same_rows_refl split: option.splits)
  show ?thesis
  proof (cases answer)
    case (Inl e)
    then have "t' = ?t1" "ans = Inl e" "w' = ?w1"
      using assms(1) False pay by (simp_all add: submit_payout_def Let_def)
    then show ?thesis using w1 ids by simp
  next
    case (Inr h)
    let ?t2 = "?t1\<lparr>pt_txHash := Some h, pt_deliveredAmount := Some amount,
      pt_pathPaymentOutcome := Some (show_path_outcome FULL_FILL)\<rparr>"
    have fin: "finish_payout crash ?t2 h ?w1 = (t', ans, w')"
      using assms(1) False pay Inr by (simp add: submit_payout_def Let_def)
    have "stored ?t2 ?w1" "pt_txHash ?t2 = Some h" using w1(1) by (simp_all add: stored_def)
    from finish_payout_stored [OF fin this] have F: "stored t' w'" "same_rows ?w1 w'" "same_but_payouts ?w1 w'"
      "pt_id t' = pt_id ?t1" "pt_payoutOrderId t' = pt_payoutOrderId ?t1"
      "\<forall>h. ans = Inr h \<longrightarrow> pt_txHash t' = Some h \<and> t' \<in> set (payout_txs w') \<and> pt_status t' = SUBMITTED \<and>
         pt_id t' \<in> set (payout_jobs w')" by (elim conjE, simp)+
    have "same_rows w w'" "same_but_payouts w w'"
      using same_rows_trans [OF w1(2) F(2)] same_but_payouts_trans [OF w1(3) F(3)] .
    with F(1,4,5,6) show ?thesis unfolding ids by (intro conjI)
  qed
qed

text \<open>The row exists from before the chain is called until the end, whatever happens.\<close>

lemma execute_payout_row:
  assumes "payouts_ok w" "find_payout_tx (buildPayoutOrderId (g_id g) round) w = None"
    and "execute_payout pay path_pay crash g r round amount w = (res, w')"
  shows "payouts_ok w'" "groups w' = groups w" "penalties w' = penalties w" "users w' = users w"
    "waitlist w' = waitlist w" "contributions w' = contributions w" "uuid_count w \<le> uuid_count w'"
    "map pt_payoutOrderId (payout_txs w') = map pt_payoutOrderId (payout_txs w) @ [buildPayoutOrderId (g_id g) round]"
    "\<And>e. res = Inl e \<Longrightarrow> memberships w' = memberships w"
    "\<And>h. res = Inr h \<Longrightarrow> memberships w' = memberships (save_membership (r\<lparr>m_hasReceivedPayout := True, m_transactionHash := Some h\<rparr>) w)
       \<and> (\<exists>t \<in> set (payout_txs w'). pt_payoutOrderId t = buildPayoutOrderId (g_id g) round \<and> pt_txHash t = Some h \<and>
            pt_status t = SUBMITTED \<and> pt_id t \<in> set (payout_jobs w'))"
proof -
  define t where "t = new_payout_tx g (buildPayoutOrderId (g_id g) round) amount w"
  define w1 where "w1 = (tick_uuid w)\<lparr>payout_txs := payout_txs w @ [t]\<rparr>"
  have t: "pt_id t = fresh_uuid w" "pt_payoutOrderId t = buildPayoutOrderId (g_id g) round"
    by (simp_all add: t_def new_payout_tx_def)
  have w1: "payout_txs w1 = payout_txs w @ [t]" "groups w1 = groups w" "penalties w1 = penalties w"
    "users w1 = users w" "waitlist w1 = waitlist w" "contributions w1 = contributions w"
    "memberships w1 = memberships w" "uuid_count w1 = Suc (uuid_count w)"
    by (simp_all add: w1_def tick_uuid_def)
  have "fresh_uuid w \<notin> pt_id ` set (payout_txs w)"
    using assms(1) fresh_uuid_unused [of w] unfolding payouts_ok_def by (metis imageE)
  moreover have "buildPayoutOrderId (g_id g) round \<notin> pt_payoutOrderId ` set (payout_txs w)"
    using assms(2) unfolding find_payout_tx_def find_None_all by auto
  moreover have "used_uuid w1 u" if "used_uuid w u \<or> u = fresh_uuid w" for u
    using that used_uuid_tick [of w u] by (simp add: used_uuid_def w1(8) tick_uuid_def)
  ultimately have ok1: "payouts_ok w1"
    using assms(1) t unfolding payouts_ok_def by (auto simp: w1(1))
  obtain t' ans w2 where sub: "submit_payout pay path_pay crash g r amount t w1 = (t', ans, w2)"
    by (metis prod_cases3)
  have "stored t w1" using ok1 by (simp add: stored_def payouts_ok_def w1(1))
  note S = submit_payout_stored [OF sub this]
  have st: "stored t' w2" "same_rows w1 w2" "same_but_payouts w1 w2" using S by simp_all
  have fields: "groups w2 = groups w" "penalties w2 = penalties w" "users w2 = users w" "waitlist w2 = waitlist w"
    "contributions w2 = contributions w" "memberships w2 = memberships w" "uuid_count w2 = Suc (uuid_count w)"
    using st(3) w1 by (simp_all add: same_but_payouts_def)
  define w3 where "w3 = (case ans of
      Inl e \<Rightarrow> if \<not> truthy (pt_txHash t') then save_payout_tx (t'\<lparr>pt_status := PT_FAILED\<rparr>) w2 else w2
    | Inr h \<Rightarrow> save_membership (r\<lparr>m_hasReceivedPayout := True, m_transactionHash := Some h\<rparr>) w2)"
  have rows3: "same_rows w1 w3"
  proof (cases ans)
    case (Inl e)
    have "same_rows w2 (save_payout_tx (t'\<lparr>pt_status := PT_FAILED\<rparr>) w2)" by (rule stored_save [OF st(1)]) simp_all
    then show ?thesis using Inl same_rows_trans [OF st(2)] st(2) by (simp add: w3_def)
  next
    case (Inr h)
    then show ?thesis using st(2) by (simp add: w3_def same_rows_def save_membership_def)
  qed
  have exec: "execute_payout pay path_pay crash g r round amount w = (case ans of
      Inl e \<Rightarrow> (Inl (BadGatewayException (''Contract invocation failed: '' @ exn_message e)), w3)
    | Inr h \<Rightarrow> (Inr h, snd (notify (plain_dto (m_userId r) PAYOUT_RECEIVED ''Payout Received''
        (''You have received your payout for round '' @ show_int round @ '' in group \"'' @ g_name g @ ''\".'')) w3)))"
    unfolding execute_payout_def Let_def t_def [symmetric] w1_def [symmetric] sub w3_def
    by (simp split: sum.splits)
  have same: "same_tables w3 w'" and jobs: "ans = Inr h \<Longrightarrow> res = Inr h" and err: "ans = Inl e \<Longrightarrow> \<not> is_ok res" for h e
    using assms(3) notify_frame [OF prod.collapse [symmetric]] unfolding exec
    by (auto split: sum.splits)
  have w3: "groups w3 = groups w" "penalties w3 = penalties w" "users w3 = users w" "waitlist w3 = waitlist w"
    "contributions w3 = contributions w" "uuid_count w3 = Suc (uuid_count w)"
    by (simp_all add: w3_def fields save_payout_tx_def save_membership_def split: sum.splits)
  have ok3: "payouts_ok w3" by (rule payouts_ok_same_rows [OF ok1 rows3]) (simp add: w1(8) w3(6))
  have pt: "payout_txs w' = payout_txs w3" "payout_jobs w' = payout_jobs w3" "memberships w' = memberships w3"
    "uuid_count w3 \<le> uuid_count w'"
    using same by (simp_all add: same_tables_def)
  show "payouts_ok w'"
    by (rule payouts_ok_same_rows [OF ok3]) (simp_all add: same_rows_def pt)
  show "groups w' = groups w" "penalties w' = penalties w" "users w' = users w" "waitlist w' = waitlist w"
    "contributions w' = contributions w"
    using same w3 by (simp_all add: same_tables_def)
  show "uuid_count w \<le> uuid_count w'" using pt(4) w3(6) by simp
  show "map pt_payoutOrderId (payout_txs w') = map pt_payoutOrderId (payout_txs w) @ [buildPayoutOrderId (g_id g) round]"
    unfolding pt using same_rows_ids(2) [OF rows3] by (simp add: w1(1) t)
  show "memberships w' = memberships w" if "res = Inl e" for e
  proof (cases ans)
    case (Inl x)
    then show ?thesis by (simp add: pt w3_def fields save_payout_tx_def)
  next
    case (Inr h)
    then show ?thesis using jobs that by simp
  qed
  show "memberships w' = memberships (save_membership (r\<lparr>m_hasReceivedPayout := True, m_transactionHash := Some h\<rparr>) w)
      \<and> (\<exists>t \<in> set (payout_txs w'). pt_payoutOrderId t = buildPayoutOrderId (g_id g) round \<and> pt_txHash t = Some h \<and>
            pt_status t = SUBMITTED \<and> pt_id t \<in> set (payout_jobs w'))" if "res = Inr h" for h
  proof (cases ans)
    case (Inl x)
    then show ?thesis using err that by simp
  next
    case (Inr h')
    then have "ans = Inr h" using jobs that by simp
    moreover from this S have "pt_txHash t' = Some h" "t' \<in> set (payout_txs w2)" "pt_status t' = SUBMITTED"
      "pt_id t' \<in> set (payout_jobs w2)" "pt_payoutOrderId t' = pt_payoutOrderId t" by blast+
    ultimately show ?thesis
      using t by (auto simp: pt w3_def fields save_membership_def intro!: bexI [of _ t'])
  qed
qed

subsection \<open>At most one payout per round\<close>

text \<open>The states in which \<open>distributePayout\<close> reaches the chain.\<close>

definition payout_due :: "uuid \<Rightarrow> int \<Rightarrow> world \<Rightarrow> bool" where
  "payout_due gid round w \<longleftrightarrow>
     (case find_group gid w of None \<Rightarrow> False | Some g \<Rightarrow>
        g_status g = GS_ACTIVE \<and> truthy (g_contractAddress g) \<and>
        (case find_membership_by_order gid (round - 1) w of None \<Rightarrow> False | Some r \<Rightarrow>
           \<not> m_hasReceivedPayout r \<and> outstanding_penalties gid (m_userId r) w \<le> 0) \<and>
        find_payout_tx (buildPayoutOrderId gid round) w = None)"

lemma distributePayout_due:
  assumes "payout_due gid round w"
  obtains g r where "find_group gid w = Some g" "g_status g = GS_ACTIVE" "g_id g = gid"
    "find_membership_by_order gid (round - 1) w = Some r" "\<not> m_hasReceivedPayout r"
    "outstanding_penalties gid (m_userId r) w \<le> 0"
    "find_payout_tx (buildPayoutOrderId (g_id g) round) w = None"
    "distributePayout D pay path_pay crash gid round w =
       execute_payout pay path_pay crash g r round (computePayoutAmount D gid round g w) w"
proof -
  from assms obtain g r where g: "find_group gid w = Some g" "g_status g = GS_ACTIVE" "truthy (g_contractAddress g)"
    and r: "find_membership_by_order gid (round - 1) w = Some r" "\<not> m_hasReceivedPayout r"
      "outstanding_penalties gid (m_userId r) w \<le> 0"
    and n: "find_payout_tx (buildPayoutOrderId gid round) w = None"
    unfolding payout_due_def by (auto split: option.splits)
  have "g_id g = gid" using find_groupD [OF g(1)] by simp
  with g r n show thesis by (intro that [of g r]) (simp_all add: distributePayout_def)
qed

lemma distributePayout_not_due:
  assumes "\<not> payout_due gid round w"
  shows "distributePayout D pay path_pay crash gid round w = distributePayout D pay2 path2 crash2 gid round w"
    and "distributePayout D pay path_pay crash gid round w = (r, w') \<Longrightarrow> payout_txs w' = payout_txs w"
    and "distributePayout D pay path_pay crash gid round w = (r, w') \<Longrightarrow> uuid_count w \<le> uuid_count w' \<and>
      groups w' = groups w \<and> memberships w' = memberships w \<and> penalties w' = penalties w \<and> users w' = users w \<and> waitlist w' = waitlist w"
proof -
  have frame: "payout_txs w1 = payout_txs w \<and> uuid_count w \<le> uuid_count w1 \<and> groups w1 = groups w \<and>
      memberships w1 = memberships w \<and> penalties w1 = penalties w \<and> users w1 = users w \<and> waitlist w1 = waitlist w"
    if "notify d w = (x, w1)" for d x w1
    using notify_frame [OF that] by (simp add: same_tables_def)
  show "distributePayout D pay path_pay crash gid round w = distributePayout D pay2 path2 crash2 gid round w"
    using assms unfolding payout_due_def distributePayout_def Let_def
    by (simp split: option.splits) (auto split: option.splits)
  show "payout_txs w' = payout_txs w" if "distributePayout D pay path_pay crash gid round w = (r, w')"
    using that assms frame unfolding payout_due_def distributePayout_def Let_def
    by (auto split: option.splits if_splits prod.splits sum.splits)
  show "uuid_count w \<le> uuid_count w' \<and> groups w' = groups w \<and> memberships w' = memberships w \<and>
      penalties w' = penalties w \<and> users w' = users w \<and> waitlist w' = waitlist w"
    if "distributePayout D pay path_pay crash gid round w = (r, w')"
    using that assms frame unfolding payout_due_def distributePayout_def Let_def
    by (auto simp: addPayoutReconciliation_def split: option.splits if_splits prod.splits sum.splits)
qed

lemma distributePayout_row:
  assumes "payouts_ok w" "distributePayout D pay path_pay crash gid round w = (r, w')"
  shows "payouts_ok w' \<and> (\<forall>k. find_payout_tx k w \<noteq> None \<longrightarrow> find_payout_tx k w' \<noteq> None) \<and>
    (payout_due gid round w \<longrightarrow> find_payout_tx (buildPayoutOrderId gid round) w' \<noteq> None) \<and> groups w' = groups w"
proof (cases "payout_due gid round w")
  case False
  note keep = distributePayout_not_due(2,3) [OF False assms(2)]
  have "payouts_ok w'" by (rule payouts_ok_same_rows [OF assms(1)]) (use keep in \<open>simp_all add: same_rows_def\<close>)
  with keep False show ?thesis by (simp add: find_payout_tx_def)
next
  case True
  then obtain g m where "g_id g = gid" and none: "find_payout_tx (buildPayoutOrderId (g_id g) round) w = None"
    and run: "execute_payout pay path_pay crash g m round (computePayoutAmount D gid round g w) w = (r, w')"
    using assms(2) by (metis distributePayout_due)
  note row = execute_payout_row [OF assms(1) none run]
  have "pt_payoutOrderId ` set (payout_txs w')
      = insert (buildPayoutOrderId gid round) (pt_payoutOrderId ` set (payout_txs w))"
    using arg_cong [OF row(8), of set] \<open>g_id g = gid\<close> by simp
  then have "find_payout_tx k w' \<noteq> None" if "find_payout_tx k w \<noteq> None \<or> k = buildPayoutOrderId gid round" for k
    using that unfolding find_payout_tx_def find_None_all by (metis image_iff insert_iff)
  with row(1,2) show ?thesis by blast
qed

lemma process_payout_reconciliation_row:
  assumes "payouts_ok w" "process_payout_reconciliation st i w = (r, w')"
  shows "payouts_ok w' \<and> same_rows w w' \<and> same_but_payouts w w'"
proof (cases "w' = w")
  case True
  with assms(1) show ?thesis by (simp add: same_rows_refl)
next
  case False
  with assms(2) obtain t s where t: "t \<in> set (payout_txs w)" and w': "w' = save_payout_tx (t\<lparr>pt_status := s\<rparr>) w"
    by (auto simp: process_payout_reconciliation_def split: option.splits if_splits chain_status.splits dest!: find_Some_mem)
  have "distinct (map pt_id (payout_txs w))" using assms(1) by (simp add: payouts_ok_def)
  then have rows: "same_rows w w'" unfolding w' by (rule save_payout_same_rows [OF _ t]) simp_all
  moreover have "uuid_count w \<le> uuid_count w'" by (simp add: w' save_payout_tx_def)
  ultimately show ?thesis using payouts_ok_same_rows [OF assms(1)] by (simp add: w')
qed

lemma pollUnconfirmedPayouts_rows: "payout_txs (pollUnconfirmedPayouts w) = payout_txs w \<and>
    uuid_count (pollUnconfirmedPayouts w) = uuid_count w"
proof -
  have "payout_txs (fold (\<lambda>t. addPayoutReconciliation (pt_id t)) ts w) = payout_txs w \<and>
      uuid_count (fold (\<lambda>t. addPayoutReconciliation (pt_id t)) ts w) = uuid_count w" for ts
    by (induction ts arbitrary: w) (simp_all add: addPayoutReconciliation_def)
  then show ?thesis by (simp add: pollUnconfirmedPayouts_def)
qed

text \<open>The payout service as a machine: any calls in any order, with any answers of the network.\<close>

datatype payout_op =
    Distribute uuid int pay_fun path_fun bool
  | Reconcile "string \<Rightarrow> chain_status" uuid
  | Poll

definition payout_exec :: "'d decimal_ops \<Rightarrow> payout_op \<Rightarrow> world \<Rightarrow> world" where
  "payout_exec D op w = (case op of
     Distribute gid round pay path_pay crash \<Rightarrow> snd (distributePayout D pay path_pay crash gid round w)
   | Reconcile st i \<Rightarrow> snd (process_payout_reconciliation st i w)
   | Poll \<Rightarrow> pollUnconfirmedPayouts w)"

definition reaches_chain :: "uuid \<times> int \<Rightarrow> payout_op \<Rightarrow> world \<Rightarrow> bool" where
  "reaches_chain k op w = (case op of
     Distribute gid round pay path_pay crash \<Rightarrow> k = (gid, round) \<and> payout_due gid round w
   | _ \<Rightarrow> False)"

definition has_row :: "uuid \<times> int \<Rightarrow> world \<Rightarrow> bool" where
  "has_row k w \<longleftrightarrow> find_payout_tx (buildPayoutOrderId (fst k) (snd k)) w \<noteq> None"

lemma payout_exec_row:
  assumes "payouts_ok w"
  shows "payouts_ok (payout_exec D op w) \<and> (\<forall>k. find_payout_tx k w \<noteq> None \<longrightarrow> find_payout_tx k (payout_exec D op w) \<noteq> None)"
proof (cases op)
  case (Distribute gid round pay path_pay crash)
  note row = distributePayout_row [OF assms, of D pay path_pay crash gid round, OF surjective_pairing]
  then show ?thesis by (simp add: payout_exec_def Distribute)
next
  case (Reconcile st i)
  note row = process_payout_reconciliation_row [OF assms, of st i, OF surjective_pairing]
  then have "same_rows w (snd (process_payout_reconciliation st i w))" by blast
  note keep = find_payout_same_rows [OF this]
  show ?thesis using row by (simp add: payout_exec_def Reconcile keep del: not_None_eq)
next
  case Poll
  have "payouts_ok (pollUnconfirmedPayouts w)"
    by (rule payouts_ok_same_rows [OF assms]) (simp_all add: same_rows_def pollUnconfirmedPayouts_rows)
  with Poll show ?thesis by (simp add: payout_exec_def find_payout_tx_def pollUnconfirmedPayouts_rows)
qed

text \<open>The payout service leaves groups alone, and of the memberships it marks one recipient at most.\<close>

definition mark_received :: "membership \<Rightarrow> string \<Rightarrow> membership" where
  "mark_received r h = r\<lparr>m_hasReceivedPayout := True, m_transactionHash := Some h\<rparr>"

lemma payout_exec_frame:
  assumes "payouts_ok w"
  shows "groups (payout_exec D op w) = groups w \<and>
    (memberships (payout_exec D op w) = memberships w \<or>
     (\<exists>r \<in> set (memberships w). \<exists>h. memberships (payout_exec D op w) = save_row m_id (mark_received r h) (memberships w)))"
proof (cases op)
  case (Distribute gid round pay path_pay crash)
  obtain r w' where run: "distributePayout D pay path_pay crash gid round w = (r, w')" by fastforce
  show ?thesis
  proof (cases "payout_due gid round w")
    case False
    with distributePayout_not_due(3) [OF False run] run show ?thesis by (simp add: payout_exec_def Distribute)
  next
    case True
    then obtain g m where none: "find_payout_tx (buildPayoutOrderId (g_id g) round) w = None"
      and m: "find_membership_by_order gid (round - 1) w = Some m"
      and exec: "execute_payout pay path_pay crash g m round (computePayoutAmount D gid round g w) w = (r, w')"
      using run by (metis distributePayout_due)
    note row = execute_payout_row [OF assms none exec]
    have "m \<in> set (memberships w)" using m by (auto dest: find_membership_by_orderD)
    then show ?thesis using row(2,9,10) run
      by (cases r) (auto simp: payout_exec_def Distribute save_membership_def mark_received_def)
  qed
next
  case (Reconcile st i)
  with process_payout_reconciliation_row [OF assms, of st i, OF surjective_pairing] show ?thesis
    by (simp add: payout_exec_def same_but_payouts_def)
next
  case Poll
  have "groups (fold (\<lambda>t. addPayoutReconciliation (pt_id t)) ts w) = groups w \<and>
      memberships (fold (\<lambda>t. addPayoutReconciliation (pt_id t)) ts w) = memberships w" for ts
    by (induction ts arbitrary: w) (simp_all add: addPayoutReconciliation_def)
  then show ?thesis unfolding Poll payout_exec_def payout_op.case pollUnconfirmedPayouts_def by blast
qed

lemma payout_exec_groups: "payouts_ok w \<Longrightarrow> groups (payout_exec D op w) = groups w"
  using payout_exec_frame by blast

lemma payout_exec_ok: "payouts_ok w \<Longrightarrow> payouts_ok (payout_exec D op w)"
  using payout_exec_row by blast

text \<open>The member scheduled in place \<open>k\<close> counts as paid out.\<close>

definition recipient_received :: "uuid \<Rightarrow> int \<Rightarrow> world \<Rightarrow> bool" where
  "recipient_received gid k w \<longleftrightarrow> distinct (map m_id (memberships w)) \<and>
     (\<exists>m. find_membership_by_order gid k w = Some m \<and> m_hasReceivedPayout m)"

lemma find_mark_received:
  assumes "distinct (map m_id ms)" "r \<in> set ms"
  shows "List.find (\<lambda>x. m_groupId x = gid \<and> m_payoutOrder x = Some k) (save_row m_id (mark_received r h) ms) =
    map_option (\<lambda>x. if x = r then mark_received r h else x) (List.find (\<lambda>x. m_groupId x = gid \<and> m_payoutOrder x = Some k) ms)"
proof -
  have "m_id x = m_id r \<longleftrightarrow> x = r" if "x \<in> set ms" for x using assms that by (auto simp: distinct_map dest: inj_onD)
  then have rows: "save_row m_id (mark_received r h) ms = map (\<lambda>x. if x = r then mark_received r h else x) ms"
    using assms(2) by (force simp: save_row_def mark_received_def)
  have "List.find (\<lambda>x. m_groupId x = gid \<and> m_payoutOrder x = Some k) (map (\<lambda>x. if x = r then mark_received r h else x) t) =
    map_option (\<lambda>x. if x = r then mark_received r h else x) (List.find (\<lambda>x. m_groupId x = gid \<and> m_payoutOrder x = Some k) t)" for t
    by (induction t) (auto simp: mark_received_def)
  then show ?thesis by (simp add: rows)
qed

lemma payout_exec_received:
  assumes "payouts_ok w" "recipient_received gid k w"
  shows "recipient_received gid k (payout_exec D op w)"
proof (cases "memberships (payout_exec D op w) = memberships w")
  case True
  with assms(2) show ?thesis by (simp add: recipient_received_def find_membership_by_order_def)
next
  case False
  then obtain r h where r: "r \<in> set (memberships w)"
    and ms: "memberships (payout_exec D op w) = save_row m_id (mark_received r h) (memberships w)"
    using payout_exec_frame [OF assms(1), of D op] by blast
  have d: "distinct (map m_id (memberships w))" using assms(2) by (simp add: recipient_received_def)
  obtain m where m: "find_membership_by_order gid k w = Some m" "m_hasReceivedPayout m"
    using assms(2) by (auto simp: recipient_received_def)
  have "find_membership_by_order gid k (payout_exec D op w) = Some (if m = r then mark_received r h else m)"
    using m(1) find_mark_received [OF d r] by (simp add: find_membership_by_order_def ms)
  moreover have "m_hasReceivedPayout (if m = r then mark_received r h else m)" using m(2) by (simp add: mark_received_def)
  moreover have "distinct (map m_id (memberships (payout_exec D op w)))" unfolding ms by (rule distinct_save_row [OF d])
  ultimately show ?thesis by (simp add: recipient_received_def)
qed

definition payout_closed :: "uuid \<Rightarrow> int \<Rightarrow> rosca_group list \<Rightarrow> world \<Rightarrow> bool" where
  "payout_closed gid k gs w \<longleftrightarrow> payouts_ok w \<and> recipient_received gid k w \<and> groups w = gs"

interpretation received: machine "payout_exec D" "payout_closed gid k gs" for D gid k gs
  by unfold_locales (auto simp: payout_closed_def payout_exec_ok payout_exec_received payout_exec_groups)

interpretation payout_groups: machine "payout_exec D" "\<lambda>w. payouts_ok w \<and> groups w = gs" for D gs
  by unfold_locales (auto simp: payout_exec_ok payout_exec_groups)

interpretation payouts: once_machine "payout_exec D" payouts_ok reaches_chain has_row for D
proof
  fix s op k
  assume ok: "payouts_ok s"
  show "payouts_ok (payout_exec D op s)" using payout_exec_row [OF ok] by blast
  show "has_row k (payout_exec D op s)" if "has_row k s"
    using that payout_exec_row [OF ok, of D op] by (auto simp: has_row_def)
  show "has_row k (payout_exec D op s)" if "reaches_chain k op s"
  proof (cases op)
    case (Distribute gid round pay path_pay crash)
    with that distributePayout_row [OF ok, of D pay path_pay crash gid round, OF surjective_pairing] show ?thesis
      by (simp add: reaches_chain_def has_row_def payout_exec_def)
  qed (use that in \<open>simp_all add: reaches_chain_def\<close>)
next
  fix k op s
  assume "reaches_chain k op s"
  then show "\<not> has_row k s"
    by (auto simp: reaches_chain_def has_row_def payout_due_def split: payout_op.splits option.splits)
qed

text \<open>
  C2: The chain is asked to pay out a round at most once. In any sequence of payout calls (for any
  groups and rounds, whatever the network answers, with or without a crash after the submission),
  reconciliations and polls, at most one call for a given group and round reaches the network;
  and a call that does not reach it does not depend on what the network would answer.
\<close>

theorem payout_at_most_once:
  assumes "payouts_ok w"
  shows "count_due (reaches_chain (gid, round)) (payout_exec D) ops w \<le> 1 \<and>
    (\<not> reaches_chain (gid, round) (Distribute gid round pay path_pay crash) w \<longrightarrow>
      distributePayout D pay path_pay crash gid round w = distributePayout D pay2 path2 crash2 gid round w)"
proof
  show "count_due (reaches_chain (gid, round)) (payout_exec D) ops w \<le> 1"
    by (rule payouts.at_most_once [OF assms])
  show "\<not> reaches_chain (gid, round) (Distribute gid round pay path_pay crash) w \<longrightarrow>
      distributePayout D pay path_pay crash gid round w = distributePayout D pay2 path2 crash2 gid round w"
    by (intro impI distributePayout_not_due(1)) (simp add: reaches_chain_def)
qed

lemma distributePayout_result:
  assumes "keys_ok w" "payouts_ok w" "payout_due gid round w"
    and "distributePayout D pay path_pay crash gid round w = (Inr h, w')"
  shows "\<exists>r. find_membership_by_order gid (round - 1) w = Some r \<and> \<not> m_hasReceivedPayout r \<and>
    memberships w' = map (\<lambda>m. if m_id m = m_id r then r\<lparr>m_hasReceivedPayout := True, m_transactionHash := Some h\<rparr> else m) (memberships w) \<and>
    (\<exists>t \<in> set (payout_txs w'). pt_payoutOrderId t = buildPayoutOrderId gid round \<and> pt_txHash t = Some h \<and>
       pt_status t = SUBMITTED \<and> pt_id t \<in> set (payout_jobs w')) \<and>
    distributePayout D pay2 path2 crash2 gid round w' = (Inl (ConflictException ''Member has already received payout''), w')"
proof -
  from assms(3) obtain g r where g: "find_group gid w = Some g" "g_status g = GS_ACTIVE" "g_id g = gid"
    and r: "find_membership_by_order gid (round - 1) w = Some r" "\<not> m_hasReceivedPayout r"
    and none: "find_payout_tx (buildPayoutOrderId (g_id g) round) w = None"
    and run: "execute_payout pay path_pay crash g r round (computePayoutAmount D gid round g w) w = (Inr h, w')"
    using assms(4) by (metis distributePayout_due)
  have contract: "truthy (g_contractAddress g)" using assms(3) g(1) by (simp add: payout_due_def)
  note row = execute_payout_row [OF assms(2) none run]
  let ?r = "r\<lparr>m_hasReceivedPayout := True, m_transactionHash := Some h\<rparr>"
  have mem: "r \<in> set (memberships w)" using find_membership_by_orderD [OF r(1)] by simp
  then have ms: "memberships w' = map (\<lambda>m. if m_id m = m_id r then ?r else m) (memberships w)"
    using row(10) by (auto simp: save_membership_def save_row_def)
  have "List.find P (map (\<lambda>m. if m_id m = m_id r then ?r else m) t) = Some ?r"
    if "List.find P t = Some r" "P ?r" "\<And>m. m \<in> set t \<Longrightarrow> m_id m = m_id r \<Longrightarrow> m = r" for P t
    using that by (induction t) (auto split: if_splits)
  moreover have "m = r" if "m \<in> set (memberships w)" "m_id m = m_id r" for m
    using that by (intro membership_by_id [OF assms(1) _ mem])
  ultimately have found: "find_membership_by_order gid (round - 1) w' = Some ?r"
    using r(1) find_membership_by_orderD [OF r(1)] unfolding find_membership_by_order_def ms by simp
  have "find_group gid w' = Some g" using g(1) row(2) by (simp add: find_group_def)
  then have "distributePayout D pay2 path2 crash2 gid round w'
      = (Inl (ConflictException ''Member has already received payout''), w')"
    using found g contract by (simp add: distributePayout_def)
  with r ms row(10) g(3) show ?thesis by blast
qed

text \<open>
  C9: A payout that succeeds is recorded. The recipient is the member whose payout order is the
  round less one and who had not been paid; afterwards the member is marked as paid with the
  returned hash, a payout row with that hash is SUBMITTED and queued for reconciliation, no other
  member changes, and a further call for the round is a Conflict that changes nothing.
\<close>

theorem distributePayout_records:
  assumes "keys_ok w" "payouts_ok w" "payout_due gid round w"
    and "distributePayout D pay path_pay crash gid round w = (Inr h, w')"
  shows "\<exists>r. find_membership_by_order gid (round - 1) w = Some r \<and> \<not> m_hasReceivedPayout r \<and>
    memberships w' = map (\<lambda>m. if m_id m = m_id r then r\<lparr>m_hasReceivedPayout := True, m_transactionHash := Some h\<rparr> else m) (memberships w) \<and>
    (\<exists>t \<in> set (payout_txs w'). pt_payoutOrderId t = buildPayoutOrderId gid round \<and> pt_txHash t = Some h \<and>
       pt_status t = SUBMITTED \<and> pt_id t \<in> set (payout_jobs w')) \<and>
    distributePayout D pay2 path2 crash2 gid round w' = (Inl (ConflictException ''Member has already received payout''), w')"
  by (rule distributePayout_result [OF assms])

subsection \<open>What goes wrong\<close>

text \<open>
  A payout attempt that fails is never made good. When the attempt for a round reaches the
  chain and fails, nobody is marked as paid, and every later call for that round reports success
  (it returns the state of the stored row) without asking the chain and without paying the
  member.
\<close>

theorem failed_payout_never_retried:
  assumes "payouts_ok w" "payout_due gid round w" "distributePayout D pay path_pay crash gid round w = (Inl e, w')"
  shows "memberships w' = memberships w \<and>
    (\<forall>pay2 path2 crash2. \<exists>s w''. distributePayout D pay2 path2 crash2 gid round w' = (Inr s, w'') \<and>
       memberships w'' = memberships w)"
proof -
  from assms(2) obtain g r where g: "find_group gid w = Some g" "g_status g = GS_ACTIVE" "g_id g = gid"
    and r: "find_membership_by_order gid (round - 1) w = Some r" "\<not> m_hasReceivedPayout r"
      "outstanding_penalties gid (m_userId r) w \<le> 0"
    and none: "find_payout_tx (buildPayoutOrderId (g_id g) round) w = None"
    and run: "execute_payout pay path_pay crash g r round (computePayoutAmount D gid round g w) w = (Inl e, w')"
    using assms(3) by (metis distributePayout_due)
  note row = execute_payout_row [OF assms(1) none run]
  have ms: "memberships w' = memberships w" by (rule row(9)) simp
  have g': "find_group gid w' = Some g" "truthy (g_contractAddress g)"
    using g(1) row(2) assms(2) by (simp_all add: find_group_def payout_due_def)
  have r': "find_membership_by_order gid (round - 1) w' = Some r"
    "outstanding_penalties gid (m_userId r) w' \<le> 0"
    using r ms row(3) by (simp_all add: find_membership_by_order_def outstanding_penalties_def)
  have "find_payout_tx (buildPayoutOrderId gid round) w' \<noteq> None"
    using distributePayout_row [OF assms(1,3)] assms(2) by blast
  then obtain t where "find_payout_tx (buildPayoutOrderId gid round) w' = Some t" by blast
  then have "\<exists>s w''. distributePayout D pay2 path2 crash2 gid round w' = (Inr s, w'') \<and> memberships w'' = memberships w'"
    for pay2 path2 crash2
    using g' g(2) r' r(2) by (simp add: distributePayout_def Let_def addPayoutReconciliation_def)
  with ms show ?thesis by simp
qed

text \<open>
  A payout that fails on chain after its submission leaves the member marked as paid. When the
  reconciliation of a recorded payout finds it FAILED, the row is marked but the membership is
  not: any further call for the round is refused with "Member has already received payout".
\<close>

theorem failed_on_chain_stays_paid:
  assumes "keys_ok w" "payouts_ok w" "payout_due gid round w"
    and "distributePayout D pay path_pay crash gid round w = (Inr h, w1)"
    and "process_payout_reconciliation st i w1 = (Inr ''FAILED'', w2)"
  shows "(\<exists>t \<in> set (payout_txs w2). pt_id t = i \<and> pt_status t = PT_FAILED) \<and>
    distributePayout D pay2 path2 crash2 gid round w2 = (Inl (ConflictException ''Member has already received payout''), w2)"
proof -
  have ok1: "payouts_ok w1" using distributePayout_row [OF assms(2,4)] by blast
  have same: "same_but_payouts w1 w2" using process_payout_reconciliation_row [OF ok1 assms(5)] by blast
  have ms: "memberships w2 = memberships w1" and gs: "groups w2 = groups w1"
    using same by (simp_all add: same_but_payouts_def)
  have conflict: "distributePayout D pay2 path2 crash2 gid round w1 = (Inl (ConflictException ''Member has already received payout''), w1)"
    using distributePayout_result [OF assms(1-4)] by blast
  have fg: "find_group gid w2 = find_group gid w1"
    "find_membership_by_order gid (round - 1) w2 = find_membership_by_order gid (round - 1) w1"
    using ms gs by (simp_all add: find_group_def find_membership_by_order_def)
  have fst_eq: "fst (distributePayout D pay2 path2 crash2 gid round w1) = Inl (ConflictException ''Member has already received payout'')"
    using conflict by simp
  then obtain g r where g: "find_group gid w1 = Some g" "g_status g = GS_ACTIVE" "truthy (g_contractAddress g)"
    "find_membership_by_order gid (round - 1) w1 = Some r"
    using assms(3) conflict unfolding distributePayout_def by (auto split: option.splits if_splits)
  have "m_hasReceivedPayout r"
  proof (rule ccontr)
    assume "\<not> m_hasReceivedPayout r"
    then have "fst (distributePayout D pay2 path2 crash2 gid round w1) \<noteq> Inl (ConflictException ''Member has already received payout'')"
      using g unfolding distributePayout_def
      by (auto simp: execute_payout_def Let_def notify_def insert_notification_def plain_dto_def
          split: option.splits prod.splits sum.splits if_splits)
    with fst_eq show False by simp
  qed
  then have "distributePayout D pay2 path2 crash2 gid round w2 = (Inl (ConflictException ''Member has already received payout''), w2)"
    using g fg by (simp add: distributePayout_def)
  moreover have "\<exists>t \<in> set (payout_txs w2). pt_id t = i \<and> pt_status t = PT_FAILED"
    using assms(5) by (auto simp: process_payout_reconciliation_def save_payout_tx_def set_save_row
        split: option.splits if_splits chain_status.splits dest!: find_Some_mem)
  ultimately show ?thesis by blast
qed

text \<open>
  The two ways to finish a round do not know of each other: after \<open>advanceRound\<close> has paid the
  recipient on chain, \<open>distributePayout\<close> for the same round is still due. The recipient is not
  marked as paid and no payout row exists, so a call would ask the chain to pay the member again.
\<close>

theorem advanceRound_leaves_payout_due:
  assumes "keys_ok w" "groups_ok w" "advanceRound disburse gid a w = (Inr g', w')"
    and "find_group gid w = Some g" "g_currentRound g < g_totalRounds g" "truthy (g_contractAddress g)"
    and "find_membership_by_order gid (g_currentRound g - 1) w = Some r" "\<not> m_hasReceivedPayout r"
    and "outstanding_penalties gid (m_userId r) w \<le> 0"
    and "find_payout_tx (buildPayoutOrderId gid (g_currentRound g)) w = None"
  shows "is_ok (disburse (the (g_contractAddress g)) (m_walletAddress r) (g_contributionAmount g)) \<and>
    payout_due gid (g_currentRound g) w'"
proof -
  from advanceRound_Inr [OF assms(1,3)] obtain g0 where adv: "find_group gid w = Some g0"
    "g' = next_round g0" "members_kept w w'" "find_group gid w' = Some g'"
    "payout_txs w' = payout_txs w" "penalties w' = penalties w" by metis
  have g0: "g0 = g" using adv(1) assms(4) by simp
  from members_kept_order [OF adv(3) assms(7)] obtain r' where
    r': "find_membership_by_order gid (g_currentRound g - 1) w' = Some r'" "same_member r r'" by blast
  note cor = advanceRound_result [OF assms(1-4)]
  have "g_status g' = GS_ACTIVE" using cor assms(5) by blast
  moreover have "truthy (g_contractAddress g')" using adv(2) assms(6) unfolding g0 by simp
  moreover have "\<not> m_hasReceivedPayout r'" "outstanding_penalties gid (m_userId r') w' \<le> 0"
    using r'(2) assms(8,9) adv(6) by (simp_all add: same_member_def outstanding_penalties_def)
  moreover have "find_payout_tx (buildPayoutOrderId gid (g_currentRound g)) w' = None"
    using assms(10) adv(5) by (simp add: find_payout_tx_def)
  ultimately have "payout_due gid (g_currentRound g) w'"
    using adv(4) r'(1) by (simp add: payout_due_def)
  then show ?thesis using cor assms(6,7) by blast
qed

text \<open>
  Open penalties block a payout. While the recipient of a round has a PENDING penalty in the
  group, the chain is not asked, nobody is marked as paid and no payout row is written; but the
  announced "Payout blocked" error is never seen by a member who receives in-app notifications,
  because the notification has a type the enum lacks and its insert fails first.
\<close>

theorem penalties_block_payout:
  assumes "find_group gid w = Some g" "g_status g = GS_ACTIVE" "truthy (g_contractAddress g)"
    and "find_membership_by_order gid (round - 1) w = Some r" "\<not> m_hasReceivedPayout r"
    and "p \<in> set (penalties w)" "p_userId p = m_userId r" "p_groupId p = gid" "p_status p = PS_PENDING"
  shows "\<not> payout_due gid round w \<and>
    (\<exists>e w'. distributePayout D pay path_pay crash gid round w = (Inl e, w') \<and>
       payout_txs w' = payout_txs w \<and> memberships w' = memberships w) \<and>
    (inApp (getChannelPreference (m_userId r) (NT_undefined ''PAYOUT_BLOCKED_PENDING_PENALTY'') w) \<longrightarrow>
       distributePayout D pay path_pay crash gid round w = (Inl (NotNullViolation ''type''), w))"
proof -
  have "outstanding_penalties gid (m_userId r) w \<noteq> 0"
    using assms(6-9) unfolding outstanding_penalties_def count_rows_0_iff by blast
  moreover have "0 \<le> outstanding_penalties gid (m_userId r) w" by (simp add: outstanding_penalties_def)
  ultimately have pos: "outstanding_penalties gid (m_userId r) w > 0" by linarith
  then have due: "\<not> payout_due gid round w" using assms(1,4) by (simp add: payout_due_def)
  have "\<exists>e w'. distributePayout D pay path_pay crash gid round w = (Inl e, w')"
    using assms(1-5) pos by (simp add: distributePayout_def Let_def split: prod.splits sum.splits)
  moreover have "inApp (getChannelPreference (m_userId r) (NT_undefined ''PAYOUT_BLOCKED_PENDING_PENALTY'') w) \<longrightarrow>
      distributePayout D pay path_pay crash gid round w = (Inl (NotNullViolation ''type''), w)"
    using assms(1-5) pos by (simp add: distributePayout_def Let_def notify_def insert_notification_def plain_dto_def)
  ultimately show ?thesis using due distributePayout_not_due(2,3) [OF due] by blast
qed

subsection \<open>Witnesses\<close>

definition demo_decimals :: "int decimal_ops" where
  "demo_decimals = \<lparr>dec_of = (\<lambda>s. int (read_nat s)), dec_plus = (+), dec_times = (*),
     dec_toFixed7 = (\<lambda>n. show_int n @ ''.0000000'')\<rparr>"

definition demo_pay :: pay_fun where
  "demo_pay c a x k i = (Some ''h1'', Inr ''h1'')"

definition demo_pay_down :: pay_fun where
  "demo_pay_down c a x k i = (None, Inl (JsError ''rpc down''))"

definition demo_path :: path_fun where
  "demo_path a i b j x t r = Inl (JsError ''no path'')"

abbreviation demo_active :: world where
  "demo_active \<equiv> demo_world GS_ACTIVE 1 demo_members"

abbreviation demo_run_payout :: "pay_fun \<Rightarrow> world \<Rightarrow> string outcome \<times> world" where
  "demo_run_payout p w \<equiv> distributePayout demo_decimals p demo_path False ''g'' 1 w"

lemma demo_payouts_ok: "payouts_ok demo_active" "payout_due ''g'' 1 demo_active"
  by code_simp+

lemma demo_payout_ok: "fst (demo_run_payout demo_pay demo_active) = Inr ''h1''"
  by code_simp

theorem payout_at_most_once_witness:
  "count_due (reaches_chain (''g'', 1)) (payout_exec demo_decimals)
     [Distribute ''g'' 1 demo_pay_down demo_path False, Distribute ''g'' 1 demo_pay demo_path False, Poll] demo_active = 1"
proof -
  have "count_due (reaches_chain (''g'', 1)) (payout_exec demo_decimals)
     [Distribute ''g'' 1 demo_pay_down demo_path False, Distribute ''g'' 1 demo_pay demo_path False, Poll] demo_active \<le> 1"
    using payout_at_most_once [OF demo_payouts_ok(1)] by blast
  moreover have "reaches_chain (''g'', 1) (Distribute ''g'' 1 demo_pay_down demo_path False) demo_active" by code_simp
  ultimately show ?thesis by simp
qed

theorem distributePayout_records_witness:
  "demo_run_payout demo_pay (snd (demo_run_payout demo_pay demo_active))
     = (Inl (ConflictException ''Member has already received payout''), snd (demo_run_payout demo_pay demo_active))"
  using distributePayout_records [OF keys_ok_demo demo_payouts_ok outcome_run [OF demo_payout_ok]] by blast

theorem failed_payout_never_retried_witness:
  "\<exists>s w''. demo_run_payout demo_pay (snd (demo_run_payout demo_pay_down demo_active)) = (Inr s, w'') \<and>
     memberships w'' = memberships demo_active"
proof -
  have "fst (demo_run_payout demo_pay_down demo_active)
      = Inl (BadGatewayException ''Contract invocation failed: rpc down'')" by code_simp
  from failed_payout_never_retried [OF demo_payouts_ok outcome_run [OF this]] show ?thesis by blast
qed

theorem failed_on_chain_stays_paid_witness:
  "demo_run_payout demo_pay (snd (process_payout_reconciliation (\<lambda>h. ST_FAILED) ''10'' (snd (demo_run_payout demo_pay demo_active))))
     = (Inl (ConflictException ''Member has already received payout''),
        snd (process_payout_reconciliation (\<lambda>h. ST_FAILED) ''10'' (snd (demo_run_payout demo_pay demo_active))))"
proof -
  have "fst (process_payout_reconciliation (\<lambda>h. ST_FAILED) ''10'' (snd (demo_run_payout demo_pay demo_active))) = Inr ''FAILED''"
    by code_simp
  from failed_on_chain_stays_paid [OF keys_ok_demo demo_payouts_ok outcome_run [OF demo_payout_ok] outcome_run [OF this]]
  show ?thesis by blast
qed

theorem advanceRound_leaves_payout_due_witness:
  "payout_due ''g'' 1 (snd (advanceRound demo_disburse ''g'' ''w0'' (demo_paid 1 demo_members)))"
proof -
  let ?w = "demo_paid 1 demo_members" and ?g = "demo_group\<lparr>g_status := GS_ACTIVE, g_currentRound := 1\<rparr>"
  let ?r = "(demo_member 0 ''u0'' ''w0'' (Some 0))\<lparr>m_hasPaidCurrentRound := True\<rparr>"
  from demo_advance obtain g' where "fst (advanceRound demo_disburse ''g'' ''w0'' ?w) = Inr g'"
    by (auto simp only: is_ok_iff)
  note run = outcome_run [OF this]
  have w: "find_group ''g'' ?w = Some ?g" "g_currentRound ?g < g_totalRounds ?g" "truthy (g_contractAddress ?g)"
    "find_membership_by_order ''g'' (g_currentRound ?g - 1) ?w = Some ?r" "\<not> m_hasReceivedPayout ?r"
    "outstanding_penalties ''g'' (m_userId ?r) ?w \<le> 0"
    "find_payout_tx (buildPayoutOrderId ''g'' (g_currentRound ?g)) ?w = None" by code_simp+
  from advanceRound_leaves_payout_due [OF demo_paid_ok run w] show ?thesis by simp
qed

definition demo_penalty :: "penalty_status \<Rightarrow> penalty" where
  "demo_penalty st = \<lparr>p_id = ''5'', p_groupId = ''g'', p_userId = ''u0'', p_roundNumber = 1, p_amount = ''5'',
     p_assetCode = ''XLM'', p_dueAt = 0, p_paidAt = None, p_status = st, p_waiverReason = None,
     p_waivedByUserId = None, p_waivedAt = None, p_disputeReason = None, p_disputeTxHash = None,
     p_disputedAt = None, p_resolutionNotes = None, p_resolvedByUserId = None, p_resolvedAt = None\<rparr>"

theorem penalties_block_payout_witness:
  "\<not> payout_due ''g'' 1 (demo_active\<lparr>penalties := [demo_penalty PS_PENDING]\<rparr>) \<and>
   demo_run_payout demo_pay (demo_active\<lparr>penalties := [demo_penalty PS_PENDING]\<rparr>)
     = (Inl (NotNullViolation ''type''), demo_active\<lparr>penalties := [demo_penalty PS_PENDING]\<rparr>)"
proof -
  let ?w = "demo_active\<lparr>penalties := [demo_penalty PS_PENDING]\<rparr>" and ?r = "demo_member 0 ''u0'' ''w0'' (Some 0)"
  have w: "find_group ''g'' ?w = Some (demo_group\<lparr>g_status := GS_ACTIVE, g_currentRound := 1\<rparr>)"
    "g_status (demo_group\<lparr>g_status := GS_ACTIVE, g_currentRound := 1\<rparr>) = GS_ACTIVE"
    "truthy (g_contractAddress (demo_group\<lparr>g_status := GS_ACTIVE, g_currentRound := 1\<rparr>))"
    "find_membership_by_order ''g'' (1 - 1) ?w = Some ?r" "\<not> m_hasReceivedPayout ?r"
    "p_userId (demo_penalty PS_PENDING) = m_userId ?r" "p_groupId (demo_penalty PS_PENDING) = ''g''"
    "p_status (demo_penalty PS_PENDING) = PS_PENDING" by code_simp+
  have p: "demo_penalty PS_PENDING \<in> set (penalties ?w)" by simp
  have "inApp (getChannelPreference (m_userId ?r) (NT_undefined ''PAYOUT_BLOCKED_PENDING_PENALTY'') ?w)" by code_simp
  with penalties_block_payout [OF w(1-5) p w(6-8)] show ?thesis by blast
qed

end
