(* ===== verification/Rounds.thy ===== *)
theory Rounds
  imports Payouts
begin

text \<open>
  \<open>RoundService\<close> (\<open>groups/round.service.ts\<close>): the automatic advance of a group when every active
  member has paid, with the payout of the round that has just ended. Errors of the payout and of
  the notifications are logged and dropped, so the result is a boolean. The arguments are those
  of \<open>distributePayout\<close>.
\<close>

definition active_members :: "uuid \<Rightarrow> world \<Rightarrow> membership list" where
  "active_members gid w = filter (\<lambda>m. m_groupId m = gid \<and> m_status m = MS_ACTIVE) (memberships w)"

definition reset_active_flags :: "uuid \<Rightarrow> world \<Rightarrow> world" where
  "reset_active_flags gid w = w\<lparr>memberships := update_rows
     (\<lambda>m. m_groupId m = gid \<and> m_status m = MS_ACTIVE) (\<lambda>m. m\<lparr>m_hasPaidCurrentRound := False\<rparr>) (memberships w)\<rparr>"

definition tryAdvanceRound ::
  "'d decimal_ops \<Rightarrow> pay_fun \<Rightarrow> path_fun \<Rightarrow> bool \<Rightarrow> uuid \<Rightarrow> world \<Rightarrow> bool \<times> world" where
  "tryAdvanceRound D pay path_pay crash gid w =
     (case find_group gid w of
        None \<Rightarrow> (False, w)
      | Some g \<Rightarrow>
          if g_status g \<noteq> GS_ACTIVE then (False, w)
          else let ms = active_members gid w in
          if ms = [] then (False, w)
          else if \<exists>m \<in> set ms. \<not> m_hasPaidCurrentRound m then (False, w)
          else let g1 = g\<lparr>g_currentRound := g_currentRound g + 1, g_staleAt := None\<rparr>;
                   roundToPayout = g_currentRound g1 - 1 in
          if g_currentRound g1 > g_totalRounds g1
          then let w1 = save_group (g1\<lparr>g_status := GS_COMPLETED\<rparr>) w;
                   w2 = dispatchEvent (GROUP_COMPLETED gid (g_totalRounds g1)) w1
               in (True, snd (distributePayout D pay path_pay crash gid roundToPayout w2))
          else let w1 = reset_active_flags gid w;
                   w2 = save_group g1 w1;
                   w3 = snd (distributePayout D pay path_pay crash gid roundToPayout w2)
               in (True, snd (notifyBatch (map (round_opened_dto g1 (g_currentRound g1)) ms) w3)))"

lemmas round_handlers [handler_defs] = tryAdvanceRound_def

lemma active_members_subset: "m \<in> set (active_members gid w) \<longleftrightarrow>
    m \<in> set (memberships w) \<and> m_groupId m = gid \<and> m_status m = MS_ACTIVE"
  by (auto simp: active_members_def)

lemma tryAdvanceRound_False: "tryAdvanceRound D pay path_pay crash gid w = (False, w') \<Longrightarrow> w' = w"
  unfolding tryAdvanceRound_def Let_def by (auto split: option.splits if_splits)

lemma next_round_last: "g_currentRound g \<ge> g_totalRounds g \<Longrightarrow>
    next_round g = g\<lparr>g_currentRound := g_currentRound g + 1, g_staleAt := None, g_status := GS_COMPLETED\<rparr>"
  and next_round_middle: "g_currentRound g < g_totalRounds g \<Longrightarrow>
    next_round g = g\<lparr>g_currentRound := g_currentRound g + 1, g_staleAt := None\<rparr>"
  by (simp_all add: next_round_def)

text \<open>The two successful courses of the handler.\<close>

lemma tryAdvanceRound_True:
  assumes "tryAdvanceRound D pay path_pay crash gid w = (True, w')"
  obtains (last) g where "find_group gid w = Some g" "g_status g = GS_ACTIVE"
      "active_members gid w \<noteq> []" "\<forall>m \<in> set (active_members gid w). m_hasPaidCurrentRound m"
      "g_totalRounds g \<le> g_currentRound g"
      "w' = snd (distributePayout D pay path_pay crash gid (g_currentRound g)
         (dispatchEvent (GROUP_COMPLETED gid (g_totalRounds g)) (save_group (next_round g) w)))"
  | (middle) g where "find_group gid w = Some g" "g_status g = GS_ACTIVE"
      "active_members gid w \<noteq> []" "\<forall>m \<in> set (active_members gid w). m_hasPaidCurrentRound m"
      "g_currentRound g < g_totalRounds g"
      "w' = snd (notifyBatch (map (round_opened_dto (next_round g) (g_currentRound g + 1)) (active_members gid w))
         (snd (distributePayout D pay path_pay crash gid (g_currentRound g)
           (save_group (next_round g) (reset_active_flags gid w)))))"
proof -
  from assms obtain g where g: "find_group gid w = Some g" "g_status g = GS_ACTIVE" "active_members gid w \<noteq> []"
    "\<forall>m \<in> set (active_members gid w). m_hasPaidCurrentRound m"
    unfolding tryAdvanceRound_def Let_def by (auto split: option.splits if_splits)
  then have no: "\<not> (\<exists>m \<in> set (active_members gid w). \<not> m_hasPaidCurrentRound m)" by blast
  show thesis
  proof (cases "g_totalRounds g \<le> g_currentRound g")
    case True
    from assms have "w' = snd (distributePayout D pay path_pay crash gid (g_currentRound g)
         (dispatchEvent (GROUP_COMPLETED gid (g_totalRounds g)) (save_group (next_round g) w)))"
      using g no True unfolding tryAdvanceRound_def Let_def next_round_last [OF True] by simp
    with g True show thesis by (intro last)
  next
    case False
    then have lt: "g_currentRound g < g_totalRounds g" by simp
    from assms have "w' = snd (notifyBatch (map (round_opened_dto (next_round g) (g_currentRound g + 1)) (active_members gid w))
         (snd (distributePayout D pay path_pay crash gid (g_currentRound g)
           (save_group (next_round g) (reset_active_flags gid w)))))"
      using g no lt unfolding tryAdvanceRound_def Let_def next_round_middle [OF lt] by simp
    with g lt show thesis by (intro middle)
  qed
qed

subsection \<open>What a payout does to the members\<close>

lemma distributePayout_members:
  assumes "keys_ok w" "payouts_ok w" "distributePayout D pay path_pay crash gid round w = (x, w')"
  shows "keys_ok w' \<and> payouts_ok w' \<and> groups w' = groups w \<and> penalties w' = penalties w \<and>
    (memberships w' = memberships w \<or>
      (\<exists>r h. r \<in> set (memberships w) \<and> find_membership_by_order gid (round - 1) w = Some r \<and>
         memberships w' = memberships (save_membership (r\<lparr>m_hasReceivedPayout := True, m_transactionHash := Some h\<rparr>) w)))"
proof (cases "payout_due gid round w")
  case False
  note keep = distributePayout_not_due(3) [OF False assms(3)]
  have "keys_ok w'" by (rule keys_ok_cong [OF _ _ _ _ assms(1)]) (use keep in simp_all)
  then show ?thesis using keep distributePayout_row [OF assms(2,3)] by simp
next
  case True
  then obtain g r where "g_id g = gid" and r: "find_membership_by_order gid (round - 1) w = Some r"
    and none: "find_payout_tx (buildPayoutOrderId (g_id g) round) w = None"
    and run: "execute_payout pay path_pay crash g r round (computePayoutAmount D gid round g w) w = (x, w')"
    using assms(3) by (metis distributePayout_due)
  note row = execute_payout_row [OF assms(2) none run]
  have mem: "r \<in> set (memberships w)" using find_membership_by_orderD [OF r] by simp
  have ms: "memberships w' = memberships w \<or>
      (\<exists>h. memberships w' = memberships (save_membership (r\<lparr>m_hasReceivedPayout := True, m_transactionHash := Some h\<rparr>) w))"
    using row(9,10) by (cases x) blast+
  have "keys_ok w'"
    using ms
  proof
    assume "memberships w' = memberships w"
    then show ?thesis by (rule keys_ok_cong [OF row(2) _ row(5) row(7) assms(1)])
  next
    assume "\<exists>h. memberships w' = memberships (save_membership (r\<lparr>m_hasReceivedPayout := True, m_transactionHash := Some h\<rparr>) w)"
    then obtain h where h: "memberships w' = memberships (save_membership (r\<lparr>m_hasReceivedPayout := True, m_transactionHash := Some h\<rparr>) w)" ..
    have "keys_ok (save_membership (r\<lparr>m_hasReceivedPayout := True, m_transactionHash := Some h\<rparr>) w)"
      by (rule keys_ok_save_membership [OF assms(1) mem]) simp_all
    then show ?thesis
      by (rule keys_ok_cong [OF _ h, rotated -1]) (use row in \<open>simp_all add: save_membership_def\<close>)
  qed
  then show ?thesis using row(1,2,3) ms mem r by blast
qed

lemma memberships_reset_active: "memberships (reset_active_flags gid w) =
    update_rows (\<lambda>m. m_groupId m = gid \<and> m_status m = MS_ACTIVE) (\<lambda>m. m\<lparr>m_hasPaidCurrentRound := False\<rparr>) (memberships w)"
  by (simp add: reset_active_flags_def)

lemma reset_active_flag:
  "x \<in> set (memberships (reset_active_flags gid w)) \<Longrightarrow> m_groupId x = gid \<Longrightarrow> m_status x = MS_ACTIVE \<Longrightarrow>
     \<not> m_hasPaidCurrentRound x"
  unfolding memberships_reset_active set_update_rows by (elim UnE imageE) simp_all

lemma memberships_save_membership: "memberships (save_membership x w) = save_row m_id x (memberships w)"
  by (simp add: save_membership_def)

lemma keys_ok_reset_active: "keys_ok w \<Longrightarrow> keys_ok (reset_active_flags gid w)"
  by (simp add: keys_ok_def reset_active_flags_def map_update_rows set_update_rows used_uuid_def)
    (auto simp: used_uuid_def)

lemma payouts_ok_cong:
  "payout_txs w' = payout_txs w \<Longrightarrow> uuid_count w \<le> uuid_count w' \<Longrightarrow> payouts_ok w \<Longrightarrow> payouts_ok w'"
  by (rule payouts_ok_same_rows) (simp_all add: same_rows_def)

lemma tryAdvanceRound_keeps:
  assumes "keys_ok w" "groups_ok w" "payouts_ok w" "tryAdvanceRound D pay path_pay crash gid w = (b, w')"
  shows "keys_ok w' \<and> groups_ok w' \<and> payouts_ok w' \<and> (b \<longrightarrow> (\<exists>g. find_group gid w = Some g \<and>
    g_status g = GS_ACTIVE \<and> groups w' = groups (save_group (next_round g) w)))"
proof (cases b)
  case False
  then have "w' = w" using assms(4) by (intro tryAdvanceRound_False) simp
  then show ?thesis using assms(1-3) False by simp
next
  case True
  with assms(4) have "tryAdvanceRound D pay path_pay crash gid w = (True, w')" by simp
  then show ?thesis
  proof (cases rule: tryAdvanceRound_True)
    case (last g)
    let ?w1 = "dispatchEvent (GROUP_COMPLETED gid (g_totalRounds g)) (save_group (next_round g) w)"
    have "keys_ok ?w1" using assms(1) by (simp add: keys_ok_save_group)
    moreover have "payouts_ok ?w1" by (rule payouts_ok_cong [OF _ _ assms(3)]) simp_all
    ultimately have "keys_ok w' \<and> payouts_ok w' \<and> groups w' = groups ?w1"
      using distributePayout_members [of ?w1 D pay path_pay crash gid "g_currentRound g", OF _ _ prod.collapse [symmetric]]
        last(6) by simp
    with last(1,2) groups_ok_save_next [OF assms(2) last(1,2)] show ?thesis by simp
  next
    case (middle g)
    let ?w1 = "save_group (next_round g) (reset_active_flags gid w)"
    let ?w2 = "snd (distributePayout D pay path_pay crash gid (g_currentRound g) ?w1)"
    have "keys_ok ?w1" using assms(1) by (simp add: keys_ok_save_group keys_ok_reset_active)
    moreover have "payouts_ok ?w1"
      by (rule payouts_ok_cong [OF _ _ assms(3)]) (simp_all add: reset_active_flags_def)
    ultimately have w2: "keys_ok ?w2 \<and> payouts_ok ?w2 \<and> groups ?w2 = groups ?w1"
      using distributePayout_members [of ?w1 D pay path_pay crash gid "g_currentRound g", OF _ _ prod.collapse [symmetric]]
      by simp
    have same: "same_tables ?w2 w'"
      unfolding middle(6) by (rule notifyBatch_frame [OF prod.collapse [symmetric]])
    have "groups w' = groups (save_group (next_round g) w)"
      using same_tables_groups [OF same] w2 by (simp add: save_group_def reset_active_flags_def)
    moreover have "payouts_ok w'"
      by (rule payouts_ok_cong [of _ ?w2]) (use same w2 in \<open>simp_all add: same_tables_def\<close>)
    ultimately show ?thesis
      using middle(1,2) groups_ok_save_next [OF assms(2) middle(1,2)] keys_ok_same_tables [OF same] w2 by auto
  qed
qed

text \<open>A payout marks its recipient as having received it; nobody becomes a member who has paid.\<close>

definition nobody_paid :: "uuid \<Rightarrow> world \<Rightarrow> bool" where
  "nobody_paid gid w \<longleftrightarrow>
     (\<forall>m \<in> set (memberships w). m_groupId m = gid \<and> m_status m = MS_ACTIVE \<longrightarrow> \<not> m_hasPaidCurrentRound m)"

lemma distributePayout_nobody_paid:
  assumes "keys_ok w" "payouts_ok w" "nobody_paid gid w"
  shows "nobody_paid gid (snd (distributePayout D pay path_pay crash gid' round w))"
proof -
  let ?w' = "snd (distributePayout D pay path_pay crash gid' round w)"
  from distributePayout_members [OF assms(1,2) prod.collapse [symmetric]]
  consider "memberships ?w' = memberships w"
    | r h where "r \<in> set (memberships w)"
        "memberships ?w' = memberships (save_membership (r\<lparr>m_hasReceivedPayout := True, m_transactionHash := Some h\<rparr>) w)"
    by blast
  then show ?thesis
  proof cases
    case 1
    with assms(3) show ?thesis by (simp add: nobody_paid_def)
  next
    case 2
    with assms(3) show ?thesis unfolding nobody_paid_def 2(2) memberships_save_membership set_save_row by auto
  qed
qed

lemma nobody_paid_active: "nobody_paid gid w \<Longrightarrow> m \<in> set (active_members gid w) \<Longrightarrow> \<not> m_hasPaidCurrentRound m"
  by (auto simp: nobody_paid_def active_members_subset)

lemma tryAdvanceRound_result:
  assumes "keys_ok w" "groups_ok w" "payouts_ok w" "find_group gid w = Some g"
    and "tryAdvanceRound D pay path_pay crash gid w = (b, w')"
  shows "(b \<longleftrightarrow> g_status g = GS_ACTIVE \<and> active_members gid w \<noteq> [] \<and>
           (\<forall>m \<in> set (active_members gid w). m_hasPaidCurrentRound m)) \<and>
    (\<not> b \<longrightarrow> w' = w) \<and>
    (b \<longrightarrow> find_group gid w' = Some (next_round g) \<and> lifecycle (next_round g) \<and>
       groups w' = groups (save_group (next_round g) w) \<and>
       (g_currentRound g < g_totalRounds g \<longrightarrow> (\<forall>m \<in> set (active_members gid w'). \<not> m_hasPaidCurrentRound m)))"
proof (cases b)
  case False
  with assms(4,5) have "\<not> (g_status g = GS_ACTIVE \<and> active_members gid w \<noteq> [] \<and>
      (\<forall>m \<in> set (active_members gid w). m_hasPaidCurrentRound m))"
    unfolding tryAdvanceRound_def Let_def by (auto split: if_splits)
  moreover have "w' = w" using assms(5) False by (intro tryAdvanceRound_False) simp
  ultimately show ?thesis using False by blast
next
  case True
  with assms(5) have run: "tryAdvanceRound D pay path_pay crash gid w = (True, w')" by simp
  have cond: "g_status g = GS_ACTIVE" "active_members gid w \<noteq> []" "\<forall>m \<in> set (active_members gid w). m_hasPaidCurrentRound m"
    using run assms(4) by (cases rule: tryAdvanceRound_True; simp)+
  have gs: "groups w' = groups (save_group (next_round g) w)"
    using tryAdvanceRound_keeps [OF assms(1-3,5)] True assms(4) by auto
  have gd: "g_id g = gid" "g_deletedAt g = None" using find_groupD [OF assms(4)] by simp_all
  have "find_group (g_id (next_round g)) (save_group (next_round g) w) = Some (next_round g)"
    using gd by (intro find_group_save) simp
  then have found: "find_group gid w' = Some (next_round g)" using gs gd by (simp add: find_group_def)
  have life: "lifecycle (next_round g)" using groups_okD [OF assms(2,4)] cond(1) by (rule lifecycle_next_round)
  have flags: "\<not> m_hasPaidCurrentRound m" if lt: "g_currentRound g < g_totalRounds g" and m: "m \<in> set (active_members gid w')" for m
    using run
  proof (cases rule: tryAdvanceRound_True)
    case (last g')
    with assms(4) lt show ?thesis by simp
  next
    case (middle g')
    then have g': "g' = g" using assms(4) by simp
    let ?w1 = "save_group (next_round g) (reset_active_flags gid w)"
    let ?w2 = "snd (distributePayout D pay path_pay crash gid (g_currentRound g) ?w1)"
    have "keys_ok ?w1" using assms(1) by (simp add: keys_ok_save_group keys_ok_reset_active)
    moreover have "payouts_ok ?w1"
      by (rule payouts_ok_cong [OF _ _ assms(3)]) (simp_all add: reset_active_flags_def)
    moreover have "nobody_paid gid ?w1" using reset_active_flag by (auto simp: nobody_paid_def)
    ultimately have "nobody_paid gid ?w2" by (rule distributePayout_nobody_paid)
    moreover have "memberships w' = memberships ?w2"
      unfolding middle(6) g' by (rule same_tables_members [OF notifyBatch_frame [OF prod.collapse [symmetric]]])
    ultimately have "nobody_paid gid w'" by (simp add: nobody_paid_def)
    then show ?thesis using m by (rule nobody_paid_active)
  qed
  show ?thesis using True cond found life gs flags by blast
qed

text \<open>
  C6: A group advances by itself exactly when it is ACTIVE, has active members and all of them
  have paid; then its round grows by one, it is COMPLETED after its last round and ACTIVE before,
  and before the last round every active member's payment flag is cleared. Otherwise the call
  changes nothing. No other group changes.
\<close>

theorem tryAdvanceRound_correct:
  assumes "keys_ok w" "groups_ok w" "payouts_ok w" "find_group gid w = Some g"
    and "tryAdvanceRound D pay path_pay crash gid w = (b, w')"
  shows "(b \<longleftrightarrow> g_status g = GS_ACTIVE \<and> active_members gid w \<noteq> [] \<and>
           (\<forall>m \<in> set (active_members gid w). m_hasPaidCurrentRound m)) \<and>
    (\<not> b \<longrightarrow> w' = w) \<and>
    (b \<longrightarrow> find_group gid w' = Some (next_round g) \<and> lifecycle (next_round g) \<and>
       groups w' = groups (save_group (next_round g) w) \<and>
       (g_currentRound g < g_totalRounds g \<longrightarrow> (\<forall>m \<in> set (active_members gid w'). \<not> m_hasPaidCurrentRound m)))"
  by (rule tryAdvanceRound_result [OF assms])

text \<open>
  C38: The automatic advance leaves the recipient of the last round unpaid for good. When a group in its
  last round advances by itself, it is saved as COMPLETED before the payout is tried, and the payout
  requires an ACTIVE group: the advance reports success, no membership and no payout row changes, and
  in every run of the payout service from then on every payout for the group is refused and changes
  nothing. (Before the advance the manual trigger can still pay the round.)
\<close>

theorem last_round_left_unpaid:
  assumes "find_group gid w = Some g" "g_totalRounds g \<le> g_currentRound g" "payouts_ok w"
    and "tryAdvanceRound D pay path_pay crash gid w = (True, w')" and "w2 = fold (payout_exec D) ops w'"
  shows "memberships w' = memberships w \<and> payout_txs w' = payout_txs w \<and>
    find_group gid w2 = Some (next_round g) \<and> g_status (next_round g) = GS_COMPLETED \<and>
    distributePayout D pay2 path2 crash2 gid round w2
      = (Inl (BadRequestException ''Group must be ACTIVE to distribute payout''), w2)"
  using assms(4)
proof (cases rule: tryAdvanceRound_True)
  case (last g0)
  then have g0: "g0 = g" using assms(1) by simp
  let ?w1 = "dispatchEvent (GROUP_COMPLETED gid (g_totalRounds g)) (save_group (next_round g) w)"
  have gd: "g_id g = gid" "g_deletedAt g = None" using find_groupD [OF assms(1)] by simp_all
  then have "find_group (g_id (next_round g)) (save_group (next_round g) w) = Some (next_round g)"
    by (intro find_group_save) simp
  then have found: "find_group gid ?w1 = Some (next_round g)" using gd by (simp add: find_group_def)
  have finished: "g_status (next_round g) = GS_COMPLETED" using assms(2) by (simp add: next_round_def)
  have refused: "distributePayout D p q c gid k v = (Inl (BadRequestException ''Group must be ACTIVE to distribute payout''), v)"
    if "find_group gid v = Some (next_round g)" for p q c k v
    using that finished by (simp add: distributePayout_def)
  have w': "w' = ?w1" using last(6) g0 refused [OF found] by simp
  have "payouts_ok ?w1" by (rule payouts_ok_cong [OF _ _ assms(3)]) simp_all
  then have "groups w2 = groups ?w1" using payout_groups.run_inv [of ?w1 "groups ?w1" D ops] assms(5) w' by simp
  then have "find_group gid w2 = Some (next_round g)" using found by (simp add: find_group_def)
  then show ?thesis using refused finished w' by simp
next
  case (middle g0)
  with assms(1,2) show ?thesis by simp
qed

text \<open>
  A round advances even when its payout fails. If the network refuses the payout of the round
  that has ended, the group still moves to the next round and the call reports success; the
  recipient is not marked as paid and, once the row is written, cannot be paid any more.
\<close>

theorem round_advances_despite_failed_payout:
  assumes "keys_ok w" "groups_ok w" "payouts_ok w" "find_group gid w = Some g"
    and "g_currentRound g < g_totalRounds g"
    and "tryAdvanceRound D (\<lambda>c a x k i. (None, Inl e)) (\<lambda>a i b j x t r. Inl e) crash gid w = (True, w')"
  shows "find_group gid w' = Some (next_round g) \<and>
    map (\<lambda>m. (m_id m, m_hasReceivedPayout m)) (memberships w') = map (\<lambda>m. (m_id m, m_hasReceivedPayout m)) (memberships w)"
proof
  let ?pay = "\<lambda>c a x k i. (None, Inl e)" and ?path = "\<lambda>a i b j x t r. Inl e"
  show "find_group gid w' = Some (next_round g)"
    using tryAdvanceRound_result [OF assms(1-4,6)] by blast
  from assms(6) show "map (\<lambda>m. (m_id m, m_hasReceivedPayout m)) (memberships w') = map (\<lambda>m. (m_id m, m_hasReceivedPayout m)) (memberships w)"
  proof (cases rule: tryAdvanceRound_True)
    case (last g0)
    with assms(4,5) show ?thesis by simp
  next
    case (middle g0)
    let ?w1 = "save_group (next_round g0) (reset_active_flags gid w)"
    let ?w2 = "snd (distributePayout D ?pay ?path crash gid (g_currentRound g0) ?w1)"
    have ms: "memberships w' = memberships ?w2"
      unfolding middle(6) by (rule same_tables_members [OF notifyBatch_frame [OF prod.collapse [symmetric]]])
    have "payouts_ok ?w1"
      by (rule payouts_ok_cong [OF _ _ assms(3)]) (simp_all add: reset_active_flags_def)
    have "memberships ?w2 = memberships ?w1"
    proof (cases "payout_due gid (g_currentRound g0) ?w1")
      case False
      from distributePayout_not_due(3) [OF False, of D ?pay ?path crash, OF prod.collapse [symmetric]]
      show ?thesis by simp
    next
      case True
      then obtain g1 r where none: "find_payout_tx (buildPayoutOrderId (g_id g1) (g_currentRound g0)) ?w1 = None"
        and run: "distributePayout D ?pay ?path crash gid (g_currentRound g0) ?w1 = execute_payout ?pay ?path crash g1 r
          (g_currentRound g0) (computePayoutAmount D gid (g_currentRound g0) g1 ?w1) ?w1"
        by (metis distributePayout_due)
      have "\<exists>x v. execute_payout ?pay ?path crash g1 r k a v1 = (Inl x, v)" for k a v1
        by (auto simp: execute_payout_def submit_payout_def Let_def)
      then obtain x v where ex: "execute_payout ?pay ?path crash g1 r (g_currentRound g0)
          (computePayoutAmount D gid (g_currentRound g0) g1 ?w1) ?w1 = (Inl x, v)" by blast
      from execute_payout_row(9) [OF \<open>payouts_ok ?w1\<close> none ex] run ex show ?thesis by simp
    qed
    then show ?thesis by (simp add: ms reset_active_flags_def update_rows_def)
  qed
qed

subsection \<open>Witnesses\<close>

lemma demo_round_ok: "keys_ok (demo_paid 1 demo_members)" "groups_ok (demo_paid 1 demo_members)" "payouts_ok (demo_paid 1 demo_members)"
  by code_simp+

abbreviation demo_try :: "pay_fun \<Rightarrow> world \<Rightarrow> bool \<times> world" where
  "demo_try p w \<equiv> tryAdvanceRound demo_decimals p (\<lambda>a i b j x t r. Inl (JsError ''rpc'')) False ''g'' w"

theorem tryAdvanceRound_correct_witness:
  "fst (demo_try demo_pay (demo_paid 1 demo_members)) \<and>
   map_option g_currentRound (find_group ''g'' (snd (demo_try demo_pay (demo_paid 1 demo_members)))) = Some 2"
proof -
  have w: "find_group ''g'' (demo_paid 1 demo_members) = Some (demo_group\<lparr>g_status := GS_ACTIVE, g_currentRound := 1\<rparr>)"
    by code_simp
  have "fst (demo_try demo_pay (demo_paid 1 demo_members))" by code_simp
  note cor = tryAdvanceRound_correct [OF demo_round_ok w, of demo_decimals demo_pay
      "\<lambda>a i b j x t r. Inl (JsError ''rpc'')" False, OF prod.collapse [symmetric]]
  have "find_group ''g'' (snd (demo_try demo_pay (demo_paid 1 demo_members)))
      = Some (next_round (demo_group\<lparr>g_status := GS_ACTIVE, g_currentRound := 1\<rparr>))"
    using cor \<open>fst (demo_try demo_pay (demo_paid 1 demo_members))\<close> by blast
  with \<open>fst (demo_try demo_pay (demo_paid 1 demo_members))\<close> show ?thesis by simp
qed

theorem last_round_left_unpaid_witness:
  "memberships (snd (demo_try demo_pay (demo_paid 3 demo_members))) = memberships (demo_paid 3 demo_members)"
proof -
  have w: "find_group ''g'' (demo_paid 3 demo_members) = Some (demo_group\<lparr>g_status := GS_ACTIVE, g_currentRound := 3\<rparr>)"
    "g_totalRounds (demo_group\<lparr>g_status := GS_ACTIVE, g_currentRound := 3\<rparr>) \<le> g_currentRound (demo_group\<lparr>g_status := GS_ACTIVE, g_currentRound := 3\<rparr>)"
    "payouts_ok (demo_paid 3 demo_members)"
    by code_simp+
  have "fst (demo_try demo_pay (demo_paid 3 demo_members)) = True" by code_simp
  from last_round_left_unpaid [OF w outcome_run [OF this] refl] show ?thesis by blast
qed

theorem round_advances_despite_failed_payout_witness:
  "map m_hasReceivedPayout (memberships (snd (demo_try (\<lambda>c a x k i. (None, Inl (JsError ''rpc''))) (demo_paid 1 demo_members))))
     = [False, False, False]"
proof -
  let ?t = "demo_try (\<lambda>c a x k i. (None, Inl (JsError ''rpc''))) (demo_paid 1 demo_members)"
  have w: "find_group ''g'' (demo_paid 1 demo_members) = Some (demo_group\<lparr>g_status := GS_ACTIVE, g_currentRound := 1\<rparr>)"
    "g_currentRound (demo_group\<lparr>g_status := GS_ACTIVE, g_currentRound := 1\<rparr>) < g_totalRounds (demo_group\<lparr>g_status := GS_ACTIVE, g_currentRound := 1\<rparr>)"
    by code_simp+
  have "fst ?t = True" by code_simp
  from round_advances_despite_failed_payout [OF demo_round_ok w outcome_run [OF this]]
  have "map (\<lambda>m. (m_id m, m_hasReceivedPayout m)) (memberships (snd ?t))
    = map (\<lambda>m. (m_id m, m_hasReceivedPayout m)) (memberships (demo_paid 1 demo_members))" by blast
  from arg_cong [OF this, of "map snd"] show ?thesis
    by (simp add: comp_def demo_paid_def demo_world_def demo_members_def demo_member_def)
qed

end
