(* ===== verification/Fx.thy ===== *)
theory Fx
  imports Rounds
begin

text \<open>
  JavaScript's reading and printing of numbers and dates where the services need them, and
  \<open>FxService\<close> (\<open>fx/fx.service.ts\<close>): the unit of account of a group, the rate that is locked when
  a contribution is submitted, and the conversion. The configuration and the rate oracle are the
  record \<open>fx_config\<close>; an ISO date string is the time it denotes.
\<close>

subsection \<open>Number and toISOString\<close>

text \<open>
  \<open>Number(s)\<close> of a decimal literal: its exact value as mantissa and power of ten (a double holds
  it exactly up to 15 digits). The literals \<open>Infinity\<close>, \<open>0x\<close>, \<open>0o\<close> and \<open>0b\<close> are not read.
\<close>

datatype js_number = NaN | Dec int int

definition is_digit :: "char \<Rightarrow> bool" where
  "is_digit c = (let n = of_char c :: nat in 48 \<le> n \<and> n \<le> 57)"

definition is_space :: "char \<Rightarrow> bool" where
  "is_space c = (let n = of_char c :: nat in n = 32 \<or> 9 \<le> n \<and> n \<le> 13)"

definition js_trim :: "string \<Rightarrow> string" where
  "js_trim s = rev (dropWhile is_space (rev (dropWhile is_space s)))"

definition digits_value :: "string \<Rightarrow> int" where
  "digits_value s = foldl (\<lambda>a c. 10 * a + (of_char c - 48)) 0 s"

fun js_exponent :: "string \<Rightarrow> int option" where
  "js_exponent [] = None"
| "js_exponent (c # ds) =
     (let neg = (c = CHR ''-''); digits = (if c = CHR ''-'' \<or> c = CHR ''+'' then ds else c # ds)
      in if digits = [] \<or> \<not> list_all is_digit digits then None
         else Some ((if neg then -1 else 1) * digits_value digits))"

definition js_unsigned :: "string \<Rightarrow> js_number" where
  "js_unsigned s =
     (let whole = takeWhile is_digit s;
          rest = dropWhile is_digit s;
          dot = (rest \<noteq> [] \<and> hd rest = CHR ''.'');
          frac = (if dot then takeWhile is_digit (tl rest) else []);
          rest' = (if dot then dropWhile is_digit (tl rest) else rest);
          mantissa = digits_value (whole @ frac)
      in if whole @ frac = [] then NaN
         else case rest' of
                [] \<Rightarrow> Dec mantissa (- int (length frac))
              | c # r \<Rightarrow>
                  if c \<noteq> CHR ''e'' \<and> c \<noteq> CHR ''E'' then NaN
                  else case js_exponent r of None \<Rightarrow> NaN | Some x \<Rightarrow> Dec mantissa (x - int (length frac)))"

definition js_Number :: "string \<Rightarrow> js_number" where
  "js_Number s =
     (case js_trim s of
        [] \<Rightarrow> Dec 0 0
      | c # r \<Rightarrow>
          if c = CHR ''-'' then (case js_unsigned r of NaN \<Rightarrow> NaN | Dec m e \<Rightarrow> Dec (- m) e)
          else js_unsigned (if c = CHR ''+'' then r else c # r))"

text \<open>\<open>a < b\<close>; a comparison with NaN is false.\<close>

fun js_less :: "js_number \<Rightarrow> js_number \<Rightarrow> bool" where
  "js_less (Dec m e) (Dec n f) = (m * 10 ^ nat (e - min e f) < n * 10 ^ nat (f - min e f))"
| "js_less _ _ = False"

text \<open>A number below \<open>10 ^ k\<close> in k digits.\<close>

fun pad_digits :: "nat \<Rightarrow> int \<Rightarrow> string" where
  "pad_digits 0 n = []"
| "pad_digits (Suc k) n = pad_digits k (n div 10) @ [digit_char (nat (n mod 10))]"

text \<open>The proleptic Gregorian date of a day counted from 1970-01-01, as (year, month, day).\<close>

definition civil_date :: "int \<Rightarrow> int \<times> int \<times> int" where
  "civil_date days =
     (let z = days + 719468;
          era = z div 146097;
          doe = z mod 146097;
          yoe = (doe - doe div 1460 + doe div 36524 - doe div 146096) div 365;
          doy = doe - (365 * yoe + yoe div 4 - yoe div 100);
          mp = (5 * doy + 2) div 153;
          d = doy - (153 * mp + 2) div 5 + 1;
          m = (if mp < 10 then mp + 3 else mp - 9)
      in (yoe + era * 400 + (if m \<le> 2 then 1 else 0), m, d))"

text \<open>\<open>toISOString\<close>, for the years 0 to 9999.\<close>

definition toISOString :: "time \<Rightarrow> string" where
  "toISOString t =
     (case civil_date (t div 86400000) of (y, m, d) \<Rightarrow>
        let r = t mod 86400000 in
        pad_digits 4 y @ ''-'' @ pad_digits 2 m @ ''-'' @ pad_digits 2 d @ ''T'' @ pad_digits 2 (r div 3600000) @ '':''
        @ pad_digits 2 (r div 60000 mod 60) @ '':'' @ pad_digits 2 (r div 1000 mod 60) @ ''.''
        @ pad_digits 3 (r mod 1000) @ ''Z'')"

lemma toISOString_epoch: "toISOString 0 = ''1970-01-01T00:00:00.000Z''"
  by code_simp

lemma toISOString_leap_day: "toISOString 1709251199999 = ''2024-02-29T23:59:59.999Z''"
  by code_simp

lemma js_Number_examples:
  "js_Number '' 100.5 '' = Dec 1005 (- 1)" "js_Number '''' = Dec 0 0" "js_Number ''1e3'' = Dec 1 3"
  "js_Number ''12a'' = NaN" "js_less (js_Number ''99.9999999'') (js_Number ''100'')"
  by code_simp+

subsection \<open>Rates\<close>

record asset_ref =
  ar_code :: string
  ar_issuer :: "string option"

record locked_rate =
  lr_source :: asset_ref
  lr_destination :: asset_ref
  lr_rate :: string
  lr_capturedAt :: time
  lr_expiresAt :: time
  lr_toleranceBps :: int

record fx_policy =
  rateExpirySeconds :: int
  toleranceBps :: int
  allowCrossAssetContributions :: bool

text \<open>
  \<open>fx_provider\<close> is \<open>FX_PROVIDER\<close>, \<open>oracle\<close> when it is not set; \<open>fx_oracle\<close> fetches the URL for two
  asset codes and reads the rate of the answer, or throws.
\<close>

record fx_config =
  fx_provider :: string
  fx_static_rate :: "string option"
  fx_oracle_url :: "string option"
  fx_oracle :: "string \<Rightarrow> string \<Rightarrow> string \<Rightarrow> string outcome"

definition getPolicy :: "rosca_group \<Rightarrow> fx_policy" where
  "getPolicy g = \<lparr>rateExpirySeconds = g_fxRateExpirySeconds g, toleranceBps = g_fxToleranceBps g,
     allowCrossAssetContributions = g_allowCrossAssetContributions g\<rparr>"

definition orElse :: "'a option \<Rightarrow> 'a option \<Rightarrow> 'a option" where
  "orElse a b = (case a of None \<Rightarrow> b | Some x \<Rightarrow> Some x)"

definition getUnitOfAccount :: "rosca_group \<Rightarrow> asset_ref" where
  "getUnitOfAccount g = \<lparr>ar_code = toUpperCase (g_unitOfAccountAssetCode g),
     ar_issuer = orElse (g_unitOfAccountAssetIssuer g) (g_assetIssuer g)\<rparr>"

definition getContributionAsset :: "rosca_group \<Rightarrow> string option \<Rightarrow> string option \<Rightarrow> asset_ref" where
  "getContributionAsset g code issuer =
     \<lparr>ar_code = toUpperCase (case code of None \<Rightarrow> g_unitOfAccountAssetCode g | Some c \<Rightarrow> c),
      ar_issuer = orElse issuer (orElse (g_unitOfAccountAssetIssuer g) (g_assetIssuer g))\<rparr>"

definition assetsEqual :: "asset_ref \<Rightarrow> asset_ref \<Rightarrow> bool" where
  "assetsEqual a b \<longleftrightarrow> toUpperCase (ar_code a) = toUpperCase (ar_code b) \<and> ar_issuer a = ar_issuer b"

text \<open>The arrow of the messages, in UTF-8.\<close>

definition arrow :: string where
  "arrow = [CHR 0x20, CHR 0xE2, CHR 0x86, CHR 0x92, CHR 0x20]"

definition fetchRate :: "fx_config \<Rightarrow> asset_ref \<Rightarrow> asset_ref \<Rightarrow> string outcome" where
  "fetchRate F source destination =
     (if fx_provider F = ''static''
      then (if \<not> truthy (fx_static_rate F)
            then Inl (BadRequestException ''FX_STATIC_RATE must be set when FX_PROVIDER=static'')
            else Inr (the (fx_static_rate F)))
      else if \<not> truthy (fx_oracle_url F)
      then Inl (BadRequestException ''FX_ORACLE_URL must be set when FX_PROVIDER=oracle'')
      else case fx_oracle F (the (fx_oracle_url F)) (ar_code source) (ar_code destination) of
             Inl e \<Rightarrow> Inl (BadRequestException (''Failed to fetch FX rate '' @ ar_code source @ arrow
                      @ ar_code destination @ '': '' @ exn_message e))
           | Inr r \<Rightarrow> Inr r)"

definition lockRate :: "fx_config \<Rightarrow> rosca_group \<Rightarrow> asset_ref \<Rightarrow> time \<Rightarrow> locked_rate outcome" where
  "lockRate F g source t =
     (let destination = getUnitOfAccount g; policy = getPolicy g;
          lock = (\<lambda>r. \<lparr>lr_source = source, lr_destination = destination, lr_rate = r, lr_capturedAt = t,
             lr_expiresAt = t + rateExpirySeconds policy * 1000, lr_toleranceBps = toleranceBps policy\<rparr>)
      in if \<not> allowCrossAssetContributions policy \<and> \<not> assetsEqual source destination
         then Inl (BadRequestException (''Cross-asset contributions are disabled for this group. ''
                @ ''Contributions must be in '' @ ar_code destination @ ''.''))
         else if assetsEqual source destination then Inr (lock ''1'')
         else case fetchRate F source destination of Inl e \<Rightarrow> Inl e | Inr r \<Rightarrow> Inr (lock r))"

definition isRateValid :: "locked_rate \<Rightarrow> time \<Rightarrow> bool" where
  "isRateValid r t \<longleftrightarrow> lr_expiresAt r > t"

text \<open>The normalized amount and the rate used.\<close>

definition normalizeToUnitOfAccount ::
  "'d decimal_ops \<Rightarrow> fx_config \<Rightarrow> rosca_group \<Rightarrow> string \<Rightarrow> asset_ref \<Rightarrow> locked_rate option \<Rightarrow> time
     \<Rightarrow> (string \<times> string) outcome" where
  "normalizeToUnitOfAccount D F g amount source locked t =
     (let destination = getUnitOfAccount g
      in if assetsEqual source destination then Inr (amount, ''1'')
         else case (case locked of Some r \<Rightarrow> Inr r | None \<Rightarrow> lockRate F g source t) of
                Inl e \<Rightarrow> Inl e
              | Inr r \<Rightarrow>
                  if \<not> isRateValid r t
                  then Inl (BadRequestException (''Locked FX rate for '' @ ar_code source @ arrow
                         @ ar_code destination @ '' has expired. ''
                         @ ''Please re-submit the contribution to capture a fresh rate.''))
                  else Inr (dec_toFixed7 D (dec_times D (dec_of D amount) (dec_of D (lr_rate r))), lr_rate r))"

text \<open>Nothing is converted at a rate other than 1 unless the group allows it.\<close>

lemma lockRate_Inr:
  assumes "lockRate F g source t = Inr r"
  shows "lr_source r = source \<and> lr_destination r = getUnitOfAccount g \<and> lr_capturedAt r = t \<and>
    lr_expiresAt r = t + g_fxRateExpirySeconds g * 1000 \<and> lr_toleranceBps r = g_fxToleranceBps g \<and>
    (if assetsEqual source (getUnitOfAccount g) then lr_rate r = ''1''
     else g_allowCrossAssetContributions g \<and> fetchRate F source (getUnitOfAccount g) = Inr (lr_rate r))"
  using assms unfolding lockRate_def Let_def getPolicy_def
  by (auto split: if_splits sum.splits)

lemma toUpperCase_idem: "toUpperCase (toUpperCase s) = toUpperCase s"
  unfolding toUpperCase_def by (induction s) (auto simp: upper_char_def Let_def)

text \<open>
  The rate a contribution is locked at is honoured: converting at a rate that was just locked
  succeeds at that rate until it expires, and is refused afterwards unless no conversion is
  needed; a group that forbids other assets never converts.
\<close>

theorem locked_rate_honoured:
  assumes "lockRate F g source t = Inr r"
  shows "(if assetsEqual source (getUnitOfAccount g)
     then normalizeToUnitOfAccount D F g amount source (Some r) t' = Inr (amount, ''1'')
     else g_allowCrossAssetContributions g \<and>
       (t' < t + g_fxRateExpirySeconds g * 1000 \<longleftrightarrow>
          normalizeToUnitOfAccount D F g amount source (Some r) t'
            = Inr (dec_toFixed7 D (dec_times D (dec_of D amount) (dec_of D (lr_rate r))), lr_rate r)))"
  using lockRate_Inr [OF assms]
  by (auto simp: normalizeToUnitOfAccount_def isRateValid_def)

text \<open>
  The default unit of account is not the asset of the group. In a group of any asset with an
  issuer whose unit of account was left at its default, \<open>XLM\<close>, a native payment counts one to one
  against the contribution amount, while a payment in the asset of the group itself is refused
  when other assets are forbidden.
\<close>

theorem default_unit_of_account_is_native:
  assumes "g_unitOfAccountAssetCode g = ''XLM''" "g_unitOfAccountAssetIssuer g = None"
    and "toUpperCase (g_assetCode g) \<noteq> ''XLM''"
  shows "lockRate F g (getContributionAsset g (Some ''XLM'') None) t
      = Inr \<lparr>lr_source = getContributionAsset g (Some ''XLM'') None, lr_destination = getUnitOfAccount g,
          lr_rate = ''1'', lr_capturedAt = t, lr_expiresAt = t + g_fxRateExpirySeconds g * 1000,
          lr_toleranceBps = g_fxToleranceBps g\<rparr> \<and>
    normalizeToUnitOfAccount D F g amount (getContributionAsset g (Some ''XLM'') None) r t = Inr (amount, ''1'') \<and>
    (\<not> g_allowCrossAssetContributions g \<longrightarrow>
       \<not> is_ok (lockRate F g (getContributionAsset g (Some (g_assetCode g)) (g_assetIssuer g)) t))"
proof -
  have up: "toUpperCase ''XLM'' = ''XLM''" by code_simp
  have eq: "assetsEqual (getContributionAsset g (Some ''XLM'') None) (getUnitOfAccount g)"
    using assms by (simp add: assetsEqual_def getContributionAsset_def getUnitOfAccount_def orElse_def up)
  have neq: "\<not> assetsEqual (getContributionAsset g (Some (g_assetCode g)) (g_assetIssuer g)) (getUnitOfAccount g)"
    using assms by (simp add: assetsEqual_def getContributionAsset_def getUnitOfAccount_def toUpperCase_idem up)
  show ?thesis
    using eq neq by (simp add: lockRate_def normalizeToUnitOfAccount_def getPolicy_def Let_def)
qed

definition demo_fx :: fx_config where
  "demo_fx = \<lparr>fx_provider = ''static'', fx_static_rate = Some ''2'', fx_oracle_url = None,
     fx_oracle = (\<lambda>_ _ _. Inl (JsError ''down''))\<rparr>"

definition usdc_group :: rosca_group where
  "usdc_group = demo_group\<lparr>g_assetCode := ''USDC'', g_assetIssuer := Some ''I'', g_allowCrossAssetContributions := False\<rparr>"

definition demo_usdc :: asset_ref where
  "demo_usdc = \<lparr>ar_code = ''USDC'', ar_issuer = Some ''I''\<rparr>"

definition demo_rate :: locked_rate where
  "demo_rate = \<lparr>lr_source = demo_usdc, lr_destination = getUnitOfAccount demo_group, lr_rate = ''2'',
     lr_capturedAt = 0, lr_expiresAt = 900000, lr_toleranceBps = 200\<rparr>"

theorem locked_rate_honoured_witness:
  "normalizeToUnitOfAccount demo_decimals demo_fx demo_group ''100'' demo_usdc (Some demo_rate) 5
   = Inr (dec_toFixed7 demo_decimals (dec_times demo_decimals (dec_of demo_decimals ''100'')
       (dec_of demo_decimals (lr_rate demo_rate))), lr_rate demo_rate)"
proof -
  have lock: "lockRate demo_fx demo_group demo_usdc 0 = Inr demo_rate" by code_simp
  have neq: "\<not> assetsEqual demo_usdc (getUnitOfAccount demo_group)" by code_simp
  have time: "(5::int) < 0 + g_fxRateExpirySeconds demo_group * 1000" by code_simp
  from locked_rate_honoured [OF lock, of demo_decimals "''100''" 5] neq time show ?thesis by argo
qed

theorem default_unit_of_account_is_native_witness:
  "lr_rate (projr (lockRate demo_fx usdc_group (getContributionAsset usdc_group (Some ''XLM'') None) 0)) = ''1'' \<and>
   \<not> is_ok (lockRate demo_fx usdc_group (getContributionAsset usdc_group (Some (g_assetCode usdc_group)) (g_assetIssuer usdc_group)) 0)"
proof -
  have hyps: "g_unitOfAccountAssetCode usdc_group = ''XLM''" "g_unitOfAccountAssetIssuer usdc_group = None"
    "toUpperCase (g_assetCode usdc_group) \<noteq> ''XLM''" "\<not> g_allowCrossAssetContributions usdc_group"
    by code_simp+
  have "lockRate demo_fx usdc_group (getContributionAsset usdc_group (Some ''XLM'') None) 0
      = Inr \<lparr>lr_source = getContributionAsset usdc_group (Some ''XLM'') None, lr_destination = getUnitOfAccount usdc_group,
          lr_rate = ''1'', lr_capturedAt = 0, lr_expiresAt = 0 + g_fxRateExpirySeconds usdc_group * 1000,
          lr_toleranceBps = g_fxToleranceBps usdc_group\<rparr>"
    and "\<not> is_ok (lockRate demo_fx usdc_group (getContributionAsset usdc_group (Some (g_assetCode usdc_group)) (g_assetIssuer usdc_group)) 0)"
    using default_unit_of_account_is_native [OF hyps(1-3), of demo_fx 0 demo_decimals] hyps(4) by blast+
  then show ?thesis by simp
qed

end
