(* ===== verification/Contributions.thy ===== *)
theory Contributions
  imports Fx
begin

text \<open>
  \<open>ContributionsService\<close> (\<open>contributions/contributions.service.ts\<close>) and
  \<open>TxConfirmationProcessor\<close> (\<open>bullmq/tx-confirmation.processor.ts\<close>): recording a contribution
  exactly once and settling it. What is not code of the repository is the record
  \<open>contribution_env\<close>: the verdict of the chain, the rate oracle, \<open>decimal.js\<close>, the payout network,
  what the query builder returns as identifiers of an ignored insert, whether the job queue takes the
  confirmation job (\<open>ce_queue\<close>), and \<open>ce_others\<close>, everything
  other requests do to the state while this one sleeps. Redis locks are the keys in
  \<open>inflight_locks\<close>; their expiry is not modelled.
\<close>

record create_contribution_dto =
  cd_groupId :: uuid
  cd_userId :: uuid
  cd_walletAddress :: wallet
  cd_roundNumber :: int
  cd_amount :: string
  cd_transactionHash :: string
  cd_timestamp :: time

record tx_details =
  td_amount :: string
  td_assetCode :: string
  td_assetIssuer :: "string option"

record 'd contribution_env =
  ce_maintenance :: "uuid \<Rightarrow> maintenance_mode option"
  ce_verify :: bool
  ce_isContribution :: "string \<Rightarrow> string option \<Rightarrow> bool outcome"
  ce_txAmount :: "string \<Rightarrow> tx_details outcome"
  ce_fx :: fx_config
  ce_decimals :: "'d decimal_ops"
  ce_pay :: pay_fun
  ce_path :: path_fun
  ce_crash :: bool
  ce_confirmationTimeout :: int
  ce_ignored :: "uuid option list"
  ce_queue :: bool
  ce_others :: "world \<Rightarrow> world"

definition find_contribution :: "uuid \<Rightarrow> world \<Rightarrow> contribution option" where
  "find_contribution i w = List.find (\<lambda>c. c_id c = i) (contributions w)"

definition find_contribution_by_key :: "string \<Rightarrow> world \<Rightarrow> contribution option" where
  "find_contribution_by_key k w = List.find (\<lambda>c. c_idempotencyKey c = Some k) (contributions w)"

text \<open>\<open>repository.update(id, { status })\<close>, which also sets the update date.\<close>

definition set_contribution_status :: "uuid \<Rightarrow> contribution_status \<Rightarrow> world \<Rightarrow> world" where
  "set_contribution_status i s w =
     w\<lparr>contributions := update_rows (\<lambda>c. c_id c = i) (\<lambda>c. c\<lparr>c_status := s, c_updatedAt := now w\<rparr>) (contributions w)\<rparr>"

definition terminal :: "contribution \<Rightarrow> bool" where
  "terminal c \<longleftrightarrow> c_status c = CS_CONFIRMED \<or> c_status c = CS_FAILED"

text \<open>A timer: at least \<open>ms\<close> milliseconds pass, and the others go on.\<close>

definition sleep :: "(world \<Rightarrow> world) \<Rightarrow> int \<Rightarrow> world \<Rightarrow> world" where
  "sleep others ms w = (let w1 = others w in w1\<lparr>now := max (now w1) (now w + ms)\<rparr>)"

lemma now_sleep: "now w + ms \<le> now (sleep others ms w)"
  by (simp add: sleep_def Let_def)

definition IN_FLIGHT_POLL_TIMEOUT_MS :: int where "IN_FLIGHT_POLL_TIMEOUT_MS = 55000"

definition IN_FLIGHT_POLL_INTERVAL_MS :: int where "IN_FLIGHT_POLL_INTERVAL_MS = 500"

function poll_in_flight :: "(world \<Rightarrow> world) \<Rightarrow> time \<Rightarrow> uuid \<Rightarrow> contribution io" where
  "poll_in_flight others deadline i w =
     (if now w < deadline
      then let w1 = sleep others IN_FLIGHT_POLL_INTERVAL_MS w in
        case find_contribution i w1 of
          None \<Rightarrow> (Inl (ConflictException ''In-flight contribution disappeared unexpectedly''), w1)
        | Some c \<Rightarrow> if terminal c then (Inr c, w1) else poll_in_flight others deadline i w1
      else case find_contribution i w of
          None \<Rightarrow> (Inl (JsError ''EntityNotFoundError''), w)
        | Some c \<Rightarrow> (Inr c, w))"
  by pat_completeness auto

termination
proof (relation "measure (\<lambda>(others, deadline, i, w). nat (deadline - now w))", goal_cases)
  case (2 others deadline i w w1 c)
  then show ?case
    using now_sleep [of w IN_FLIGHT_POLL_INTERVAL_MS others] by (simp add: IN_FLIGHT_POLL_INTERVAL_MS_def)
qed simp

declare poll_in_flight.simps [simp del]

definition waitForInFlight :: "(world \<Rightarrow> world) \<Rightarrow> uuid \<Rightarrow> contribution io" where
  "waitForInFlight others i w = poll_in_flight others (now w + IN_FLIGHT_POLL_TIMEOUT_MS) i w"

text \<open>Step 3 of \<open>createContribution\<close>: group, maintenance, membership, window and round.\<close>

definition tz_of :: "rosca_group \<Rightarrow> string" where
  "tz_of g = (case g_timezone g of None \<Rightarrow> ''UTC'' | Some t \<Rightarrow> t)"

definition validate_window ::
  "create_contribution_dto \<Rightarrow> rosca_group \<Rightarrow> world \<Rightarrow> rosca_group outcome" where
  "validate_window d g w =
     (if (case find_membership (cd_groupId d) (cd_userId d) w of None \<Rightarrow> False | Some m \<Rightarrow> m_status m = MS_SUSPENDED)
      then Inl (ForbiddenException ''Suspended members cannot submit contributions'')
      else if g_status g \<noteq> GS_ACTIVE
      then Inl (BadRequestException ''Contributions can only be made to ACTIVE groups'')
      else if (case g_startDate g of None \<Rightarrow> False | Some t \<Rightarrow> now w < t)
      then Inl (BadRequestException (''Contribution window has not opened yet (opens at ''
             @ toISOString (the (g_startDate g)) @ '' in timezone '' @ tz_of g @ '')''))
      else if (case g_endDate g of None \<Rightarrow> False | Some t \<Rightarrow> now w > t)
      then Inl (BadRequestException (''Contribution window has closed (closed at ''
             @ toISOString (the (g_endDate g)) @ '' in timezone '' @ tz_of g @ '')''))
      else if cd_roundNumber d \<noteq> g_currentRound g
      then Inl (BadRequestException ''Contributions can only be made for the current round'')
      else Inr g)"

definition validate_contribution ::
  "'d contribution_env \<Rightarrow> create_contribution_dto \<Rightarrow> world \<Rightarrow> rosca_group outcome" where
  "validate_contribution E d w =
     (case find_group (cd_groupId d) w of
        None \<Rightarrow> Inl (BadRequestException ''Invalid groupId or userId'')
      | Some g \<Rightarrow>
          if (case ce_maintenance E (cd_groupId d) of None \<Rightarrow> False | Some mm \<Rightarrow> mm_enabled mm)
          then Inl (ServiceUnavailableException (mm_message (the (ce_maintenance E (cd_groupId d)))))
          else validate_window d g w)"

text \<open>Step 4: the transaction on the chain and the rate; the locked rate and the normalized amount.\<close>

definition check_amount ::
  "'d contribution_env \<Rightarrow> create_contribution_dto \<Rightarrow> rosca_group \<Rightarrow> time \<Rightarrow> (locked_rate \<times> string) outcome" where
  "check_amount E d g t =
     (case ce_txAmount E (cd_transactionHash d) of
        Inl e \<Rightarrow> Inl e
      | Inr tx \<Rightarrow>
          let asset = getContributionAsset g (Some (toUpperCase (td_assetCode tx))) (td_assetIssuer tx) in
          case lockRate (ce_fx E) g asset t of
            Inl e \<Rightarrow> Inl e
          | Inr lock \<Rightarrow>
              (case normalizeToUnitOfAccount (ce_decimals E) (ce_fx E) g (td_amount tx) asset (Some lock) t of
                 Inl e \<Rightarrow> Inl e
               | Inr (normalized, _) \<Rightarrow>
                   if js_Number normalized = NaN \<or> js_Number (g_contributionAmount g) = NaN
                   then Inl (BadRequestException ''Unable to parse transaction amount for verification'')
                   else if js_less (js_Number normalized) (js_Number (g_contributionAmount g))
                   then Inl (BadRequestException (''Contribution value ('' @ normalized @ '' ''
                          @ g_unitOfAccountAssetCode g @ '') is less than required contribution amount (''
                          @ g_contributionAmount g @ '')''))
                   else Inr (lock, normalized)))"

definition verify_contribution ::
  "'d contribution_env \<Rightarrow> create_contribution_dto \<Rightarrow> rosca_group \<Rightarrow> time \<Rightarrow> (locked_rate \<times> string) option outcome" where
  "verify_contribution E d g t =
     (if \<not> ce_verify E then Inr None
      else case ce_isContribution E (cd_transactionHash d) (g_contractAddress g) of
        Inl e \<Rightarrow> Inl e
      | Inr False \<Rightarrow> Inl (BadRequestException ''Transaction hash does not correspond to a valid contribution'')
      | Inr True \<Rightarrow>
          (case check_amount E d g t of
             Inl (BadRequestException s) \<Rightarrow> Inl (BadRequestException s)
           | Inl e \<Rightarrow> Inl (BadRequestException (''Failed to verify transaction amount: '' @ exn_message e))
           | Inr r \<Rightarrow> Inr (Some r)))"

text \<open>
  Step 5: \<open>INSERT ... ON CONFLICT DO NOTHING\<close>. The identifiers of the inserted row, or those an
  ignored insert reports.
\<close>

definition new_contribution ::
  "create_contribution_dto \<Rightarrow> string option \<Rightarrow> rosca_group \<Rightarrow> (locked_rate \<times> string) option \<Rightarrow> world \<Rightarrow> contribution" where
  "new_contribution d key g locked w =
     \<lparr>c_id = fresh_uuid w, c_groupId = cd_groupId d, c_userId = cd_userId d,
      c_walletAddress = cd_walletAddress d, c_roundNumber = cd_roundNumber d, c_amount = cd_amount d,
      c_transactionHash = cd_transactionHash d, c_timestamp = cd_timestamp d, c_assetCode = g_assetCode g,
      c_assetIssuer = g_assetIssuer g, c_unitOfAccountAssetCode = g_unitOfAccountAssetCode g,
      c_unitOfAccountAssetIssuer = orElse (g_unitOfAccountAssetIssuer g) (g_assetIssuer g),
      c_fxRate = (case locked of None \<Rightarrow> ''1'' | Some (r, _) \<Rightarrow> lr_rate r),
      c_fxRateCapturedAt = map_option (\<lambda>(r, _). lr_capturedAt r) locked,
      c_fxRateExpiresAt = map_option (\<lambda>(r, _). lr_expiresAt r) locked,
      c_fxToleranceBps = (case locked of None \<Rightarrow> g_fxToleranceBps g | Some (r, _) \<Rightarrow> lr_toleranceBps r),
      c_normalizedAmount = map_option snd locked, c_status = CS_PENDING, c_idempotencyKey = key,
      c_updatedAt = now w\<rparr>"

definition conflicts :: "contribution \<Rightarrow> contribution \<Rightarrow> bool" where
  "conflicts c x \<longleftrightarrow> c_transactionHash x = c_transactionHash c \<or>
     (c_userId x = c_userId c \<and> c_groupId x = c_groupId c \<and> c_roundNumber x = c_roundNumber c) \<or>
     (c_idempotencyKey c \<noteq> None \<and> c_idempotencyKey x = c_idempotencyKey c)"

definition insert_or_ignore :: "uuid option list \<Rightarrow> contribution \<Rightarrow> uuid option list io" where
  "insert_or_ignore ignored c w =
     (if \<exists>x \<in> set (contributions w). conflicts c x then (Inr ignored, w)
      else if (\<forall>g \<in> set (groups w). g_id g \<noteq> c_groupId c) \<or> (\<forall>u \<in> set (users w). u_id u \<noteq> c_userId c)
      then (Inl ForeignKeyViolation, w)
      else (Inr [Some (c_id c)], (tick_uuid w)\<lparr>contributions := contributions w @ [c]\<rparr>))"

text \<open>\<open>queueService.addTxConfirmation\<close>: one job per transaction hash. When the queue does not take it,
  the failure is logged and the request goes on.\<close>

definition addTxConfirmation :: "bool \<Rightarrow> tx_job \<Rightarrow> world \<Rightarrow> world" where
  "addTxConfirmation queue j w =
     (if \<not> queue then w
      else if \<exists>x \<in> set (tx_jobs w). j_transactionHash x = j_transactionHash j then w
      else w\<lparr>tx_jobs := tx_jobs w @ [j]\<rparr>)"

definition already_exists :: exn where
  "already_exists = ConflictException
     ''A contribution for this user and round already exists in this group, or this transaction was already recorded''"

text \<open>Steps 5 to 8, from the insert to the advance of the round.\<close>

definition persist_contribution ::
  "'d contribution_env \<Rightarrow> contribution \<Rightarrow> contribution io" where
  "persist_contribution E c w =
     (case insert_or_ignore (ce_ignored E) c w of
        (Inl e, w1) \<Rightarrow> (Inl e, w1)
      | (Inr [], w1) \<Rightarrow> (Inl already_exists, w1)
      | (Inr (None # _), w1) \<Rightarrow> (Inl (TypeError ''Cannot read properties of undefined (reading 'id')''), w1)
      | (Inr (Some newId # _), w1) \<Rightarrow>
          (case find_contribution newId w1 of
             None \<Rightarrow> (Inl already_exists, w1)
           | Some saved \<Rightarrow>
               let w2 = set_contribution_status (c_id saved) CS_ON_CHAIN_SUBMITTED w1;
                   saved' = saved\<lparr>c_status := CS_ON_CHAIN_SUBMITTED\<rparr>;
                   w3 = addTxConfirmation (ce_queue E) \<lparr>j_contributionId = c_id saved, j_transactionHash = c_transactionHash saved,
                          j_userId = c_userId saved, j_deadline = now w2 + ce_confirmationTimeout E\<rparr> w2;
                   w4 = dispatchEvent (CONTRIBUTION_VERIFIED (c_id saved)) w3
               in (Inr saved', snd (tryAdvanceRound (ce_decimals E) (ce_pay E) (ce_path E) (ce_crash E) (c_groupId c) w4))))"

text \<open>The \<open>catch\<close> block.\<close>

fun contribution_error :: "exn \<Rightarrow> exn" where
  "contribution_error (UniqueViolation c) =
     (if c = ''UQ_contributions_userId_groupId_roundNumber''
      then ConflictException ''A contribution for this user and round already exists in this group''
      else ConflictException ''Contribution with this transaction hash already exists'')"
| "contribution_error ForeignKeyViolation = BadRequestException ''Invalid groupId or userId''"
| "contribution_error e = e"

definition record_contribution ::
  "'d contribution_env \<Rightarrow> create_contribution_dto \<Rightarrow> string option \<Rightarrow> contribution io" where
  "record_contribution E d key w =
     (case validate_contribution E d w of
        Inl e \<Rightarrow> (Inl e, w)
      | Inr g \<Rightarrow>
          (case verify_contribution E d g (now w) of
             Inl e \<Rightarrow> (Inl e, w)
           | Inr locked \<Rightarrow> persist_contribution E (new_contribution d key g locked w) w))"

definition acquire :: "string \<Rightarrow> world \<Rightarrow> world" where
  "acquire k w = w\<lparr>inflight_locks := k # inflight_locks w\<rparr>"

definition release :: "string \<Rightarrow> world \<Rightarrow> world" where
  "release k w = w\<lparr>inflight_locks := filter (\<lambda>x. x \<noteq> k) (inflight_locks w)\<rparr>"

definition lock_key :: "string \<Rightarrow> string" where
  "lock_key k = ''contrib:inflight:'' @ k"

definition guarded_contribution ::
  "'d contribution_env \<Rightarrow> create_contribution_dto \<Rightarrow> string option \<Rightarrow> contribution io" where
  "guarded_contribution E d key w =
     (case record_contribution E d key w of
        (Inl e, w1) \<Rightarrow> (Inl (contribution_error e), w1) | (Inr c, w1) \<Rightarrow> (Inr c, w1))"

definition createContribution ::
  "'d contribution_env \<Rightarrow> create_contribution_dto \<Rightarrow> string option \<Rightarrow> contribution io" where
  "createContribution E d key w =
     (if \<not> truthy key then guarded_contribution E d key w
      else let k = the key in
        case find_contribution_by_key k w of
          Some existing \<Rightarrow> if terminal existing then (Inr existing, w) else waitForInFlight (ce_others E) (c_id existing) w
        | None \<Rightarrow>
            if lock_key k \<in> set (inflight_locks w)
            then let w1 = sleep (ce_others E) IN_FLIGHT_POLL_INTERVAL_MS w in
              (case find_contribution_by_key k w1 of
                 Some existing \<Rightarrow> waitForInFlight (ce_others E) (c_id existing) w1
               | None \<Rightarrow> (Inl (ConflictException ''Concurrent request with same idempotency key is in progress''), w1))
            else (case guarded_contribution E d key (acquire (lock_key k) w) of
                    (r, w1) \<Rightarrow> (r, release (lock_key k) w1)))"

text \<open>Reconciliation: one answer of the chain for each stuck row; an error leaves the row alone.\<close>

definition chain_verdict :: "chain_status outcome \<Rightarrow> contribution_status option" where
  "chain_verdict a = (case a of Inr ST_CONFIRMED \<Rightarrow> Some CS_CONFIRMED | Inr ST_FAILED \<Rightarrow> Some CS_FAILED | _ \<Rightarrow> None)"

fun reconcile_each :: "(string \<Rightarrow> chain_status outcome) \<Rightarrow> contribution list \<Rightarrow> world \<Rightarrow> world" where
  "reconcile_each chain [] w = w"
| "reconcile_each chain (c # cs) w =
     reconcile_each chain cs
       (case chain_verdict (chain (c_transactionHash c)) of
          Some s \<Rightarrow> set_contribution_status (c_id c) s w | None \<Rightarrow> w)"

definition stuck :: "int \<Rightarrow> world \<Rightarrow> contribution \<Rightarrow> bool" where
  "stuck staleAfterMs w c \<longleftrightarrow> c_status c = CS_ON_CHAIN_SUBMITTED \<and> c_updatedAt c < now w - staleAfterMs"

definition reconcileStuckContributions :: "(string \<Rightarrow> chain_status outcome) \<Rightarrow> int \<Rightarrow> world \<Rightarrow> world" where
  "reconcileStuckContributions chain staleAfterMs w =
     reconcile_each chain (filter (stuck staleAfterMs w) (contributions w)) w"

text \<open>The confirmation job. \<open>chain t h\<close> is the status the network reports for \<open>h\<close> at the time \<open>t\<close>.\<close>

fun show_settled :: "contribution_status \<Rightarrow> string" where
  "show_settled CS_CONFIRMED = ''CONFIRMED''"
| "show_settled _ = ''FAILED''"

definition settle :: "uuid \<Rightarrow> uuid \<Rightarrow> contribution_status \<Rightarrow> string \<Rightarrow> bool \<Rightarrow> unit io" where
  "settle i uid s h timedOut w =
     (let w1 = set_contribution_status i s w;
          confirmed = (s = CS_CONFIRMED);
          title = (if confirmed then ''Contribution Confirmed'' else ''Contribution Failed'');
          body = ''Your contribution (tx: '' @ h @ (if confirmed then '') has been confirmed on-chain.''
                   else if timedOut then '') timed out waiting for confirmation.'' else '') failed on-chain.'');
          dto = (plain_dto uid (if confirmed then PAYOUT_RECEIVED else SYSTEM_ALERT) title body)
                  \<lparr>nd_idempotencyKey := Some (''tx_confirm:'' @ h @ '':'' @ show_settled s)\<rparr>
      in case notify dto w1 of (Inl e, w2) \<Rightarrow> (Inl e, w2) | (Inr _, w2) \<Rightarrow> (Inr (), w2))"

definition POLL_INTERVAL_MS :: int where "POLL_INTERVAL_MS = 5000"

function pollUntilTerminal ::
  "(time \<Rightarrow> string \<Rightarrow> chain_status outcome) \<Rightarrow> (world \<Rightarrow> world) \<Rightarrow> uuid \<Rightarrow> string \<Rightarrow> uuid \<Rightarrow> time \<Rightarrow> unit io" where
  "pollUntilTerminal chain others i h uid deadline w =
     (if now w < deadline
      then (case chain_verdict (chain (now w) h) of
              Some s \<Rightarrow> settle i uid s h False w
            | None \<Rightarrow> pollUntilTerminal chain others i h uid deadline (sleep others POLL_INTERVAL_MS w))
      else settle i uid CS_FAILED h True w)"
  by pat_completeness auto

termination
proof (relation "measure (\<lambda>(chain, others, i, h, uid, deadline, w). nat (deadline - now w))", goal_cases)
  case (2 chain others i h uid deadline w)
  then show ?case using now_sleep [of w POLL_INTERVAL_MS others] by (simp add: POLL_INTERVAL_MS_def)
qed simp

declare pollUntilTerminal.simps [simp del]

definition process_tx_confirmation ::
  "(time \<Rightarrow> string \<Rightarrow> chain_status outcome) \<Rightarrow> (world \<Rightarrow> world) \<Rightarrow> tx_job \<Rightarrow> unit io" where
  "process_tx_confirmation chain others j w =
     (let k = ''tx_confirm:'' @ j_transactionHash j
      in if k \<in> set (inflight_locks w) then (Inr (), w)
         else case pollUntilTerminal chain others (j_contributionId j) (j_transactionHash j) (j_userId j)
                     (j_deadline j) (acquire k w) of
                (r, w1) \<Rightarrow> (r, release k w1))"

text \<open>Listings.\<close>

definition getRoundContributions :: "uuid \<Rightarrow> int \<Rightarrow> world \<Rightarrow> contribution list" where
  "getRoundContributions gid round w =
     sort_key (\<lambda>c. - c_timestamp c) (filter (\<lambda>c. c_groupId c = gid \<and> c_roundNumber c = round) (contributions w))"

definition getUserContributions :: "uuid \<Rightarrow> world \<Rightarrow> contribution list" where
  "getUserContributions uid w = sort_key (\<lambda>c. - c_timestamp c) (filter (\<lambda>c. c_userId c = uid) (contributions w))"

definition ceil_div :: "int \<Rightarrow> int \<Rightarrow> int" where
  "ceil_div a b = - ((- a) div b)"

text \<open>\<open>order\<close> is the requested order, by default the timestamp descending.\<close>

definition getGroupContributions ::
  "(contribution list \<Rightarrow> contribution list) \<Rightarrow> uuid \<Rightarrow> int option \<Rightarrow> wallet option \<Rightarrow> int \<Rightarrow> int \<Rightarrow> world
     \<Rightarrow> contribution list \<times> int \<times> int \<times> int \<times> int" where
  "getGroupContributions order gid round walletAddress page limit w =
     (let rows = filter (\<lambda>c. c_groupId c = gid \<and> (case round of None \<Rightarrow> True | Some r \<Rightarrow> c_roundNumber c = r) \<and>
              (truthy walletAddress \<longrightarrow> c_walletAddress c = the walletAddress)) (contributions w);
          total = int (length rows)
      in (page_of page limit (order rows), total, page, limit, ceil_div total limit))"

lemmas contribution_handlers [handler_defs] =
  createContribution_def reconcileStuckContributions_def process_tx_confirmation_def

subsection \<open>What the rest of the system leaves alone\<close>

text \<open>The tables of the deposits: advancing a round and paying it out do not touch them.\<close>

definition same_deposits :: "world \<Rightarrow> world \<Rightarrow> bool" where
  "same_deposits w w' \<longleftrightarrow> contributions w' = contributions w \<and> penalties w' = penalties w \<and> tx_jobs w' = tx_jobs w \<and>
     inflight_locks w' = inflight_locks w \<and> users w' = users w \<and> now w' = now w \<and> uuid_count w \<le> uuid_count w'"

lemma same_deposits_refl [simp]: "same_deposits w w"
  by (simp add: same_deposits_def)

lemma same_deposits_trans: "same_deposits w v \<Longrightarrow> same_deposits v u \<Longrightarrow> same_deposits w u"
  by (simp add: same_deposits_def)

lemma same_deposits_tables: "same_tables w w' \<Longrightarrow> same_deposits w w'"
  by (simp add: same_tables_def same_deposits_def)

lemma same_deposits_payouts: "same_but_payouts w w' \<Longrightarrow> same_deposits w w'"
  by (simp add: same_but_payouts_def same_deposits_def)

lemma same_deposits_writes [simp]:
  "same_deposits w (save_group g w)" "same_deposits w (save_membership m w)"
  "same_deposits w (reset_active_flags gid w)" "same_deposits w (dispatchEvent e w)"
  by (simp_all add: same_deposits_def save_group_def save_membership_def reset_active_flags_def dispatchEvent_def)

lemma same_deposits_finish: "finish_payout crash t h w = (t', r, w') \<Longrightarrow> same_but_payouts w w'"
  using same_but_payouts_trans [OF same_but_payouts_save same_but_payouts_job]
  by (auto simp: finish_payout_def Let_def split: if_splits)

lemma submit_payout_frame:
  assumes "submit_payout pay path_pay crash g r amount t w = (t', ans, w')"
  shows "same_but_payouts w w'"
proof -
  have fin: "same_but_payouts w (snd (snd (finish_payout crash x h (save_payout_tx y w))))"
    "same_but_payouts w (snd (snd (finish_payout crash x h w)))" for x h y
    using same_deposits_finish [of crash x h "save_payout_tx y w"] same_deposits_finish [of crash x h w]
      same_but_payouts_trans [OF same_but_payouts_save] by (metis prod.collapse)+
  have "same_but_payouts w (snd (snd (submit_payout pay path_pay crash g r amount t w)))"
    unfolding submit_payout_def Let_def by (auto simp: fin split: sum.splits prod.splits option.splits)
  then show ?thesis by (simp add: assms)
qed

lemma execute_payout_deposits: "same_deposits w (snd (execute_payout pay path_pay crash g r round amount w))"
proof -
  define t where "t = new_payout_tx g (buildPayoutOrderId (g_id g) round) amount w"
  define w1 where "w1 = (tick_uuid w)\<lparr>payout_txs := payout_txs w @ [t]\<rparr>"
  obtain t' ans w2 where sub: "submit_payout pay path_pay crash g r amount t w1 = (t', ans, w2)"
    by (metis prod_cases3)
  have "same_deposits w w1" by (simp add: w1_def tick_uuid_def same_deposits_def)
  with same_deposits_payouts [OF submit_payout_frame [OF sub]] have w2: "same_deposits w w2"
    by (rule same_deposits_trans [rotated])
  have notified: "same_deposits w v \<Longrightarrow> same_deposits w (snd (notify d v))" for d v
    using same_deposits_tables [OF notify_frame [OF prod.collapse [symmetric]]] same_deposits_trans by blast
  have save: "same_deposits w (save_payout_tx x w2)" "same_deposits w (save_membership m w2)" for x m
    using same_deposits_trans [OF w2] same_deposits_payouts [OF same_but_payouts_save] by simp_all
  show ?thesis
    unfolding execute_payout_def Let_def t_def [symmetric] w1_def [symmetric] sub
    using w2 by (cases ans) (simp_all add: save notified)
qed

lemma distributePayout_deposits: "same_deposits w (snd (distributePayout D pay path_pay crash gid round w))"
proof -
  have notified: "notify d w = (x, v) \<Longrightarrow> same_deposits w v" for d x v
    by (rule same_deposits_tables [OF notify_frame])
  have job: "same_deposits w (addPayoutReconciliation i w)" for i
    by (rule same_deposits_payouts) simp
  show ?thesis
    unfolding distributePayout_def Let_def
    by (auto simp: job execute_payout_deposits notified split: option.splits prod.splits sum.splits)
qed

lemma tryAdvanceRound_deposits: "same_deposits w (snd (tryAdvanceRound D pay path_pay crash gid w))"
proof -
  have batch: "same_deposits w v \<Longrightarrow> same_deposits w (snd (notifyBatch ds v))" for ds v
    using same_deposits_tables [OF notifyBatch_frame [OF prod.collapse [symmetric]]] same_deposits_trans by blast
  have pay: "same_deposits w v \<Longrightarrow> same_deposits w (snd (distributePayout D pay path_pay crash i k v))" for i k v
    using distributePayout_deposits same_deposits_trans by blast
  have step: "same_deposits w v \<Longrightarrow> same_deposits w (save_group g v)"
    "same_deposits w v \<Longrightarrow> same_deposits w (dispatchEvent e v)" for g e v
    using same_deposits_writes same_deposits_trans by blast+
  show ?thesis
    unfolding tryAdvanceRound_def Let_def by (simp add: batch pay step split: option.split)
qed


subsection \<open>The rows of the contribution table\<close>

definition contributions_ok :: "world \<Rightarrow> bool" where
  "contributions_ok w \<longleftrightarrow> distinct (map c_id (contributions w)) \<and> (\<forall>c \<in> set (contributions w). used_uuid w (c_id c)) \<and>
     distinct (map c_transactionHash (contributions w)) \<and>
     distinct (map (\<lambda>c. (c_userId c, c_groupId c, c_roundNumber c)) (contributions w)) \<and>
     distinct (List.map_filter c_idempotencyKey (contributions w))"

text \<open>An ignored insert reports no key of a row.\<close>

definition quiet :: "'d contribution_env \<Rightarrow> bool" where
  "quiet E \<longleftrightarrow> list_all (\<lambda>x. x = None) (ce_ignored E)"

text \<open>What an update of the status keeps of a row.\<close>

definition static_part :: "contribution \<Rightarrow> contribution" where
  "static_part c = c\<lparr>c_status := CS_PENDING, c_updatedAt := 0\<rparr>"

lemma static_part_simps [simp]:
  "static_part (c\<lparr>c_status := s\<rparr>) = static_part c" "static_part (c\<lparr>c_updatedAt := t\<rparr>) = static_part c"
  "static_part (c\<lparr>c_status := s, c_updatedAt := t\<rparr>) = static_part c"
  "c_id (static_part c) = c_id c" "c_transactionHash (static_part c) = c_transactionHash c"
  "c_userId (static_part c) = c_userId c" "c_groupId (static_part c) = c_groupId c"
  "c_roundNumber (static_part c) = c_roundNumber c" "c_idempotencyKey (static_part c) = c_idempotencyKey c"
  by (simp_all add: static_part_def)

lemma map_filter_options: "List.map_filter f xs = map the (filter (\<lambda>x. x \<noteq> None) (map f xs))"
  by (simp add: List.map_filter_def filter_map comp_def)

lemma map_static:
  assumes "map static_part xs = map static_part ys" "\<And>c. f (static_part c) = f c"
  shows "map f xs = map f ys"
  using arg_cong [OF assms(1), of "map f"] by (simp add: comp_def assms(2))

text \<open>Only the static parts of the rows and the key counter matter for \<open>contributions_ok\<close>.\<close>

lemma contributions_ok_cong:
  assumes "map static_part (contributions w') = map static_part (contributions w)"
    and "uuid_count w \<le> uuid_count w'" "contributions_ok w"
  shows "contributions_ok w'"
proof -
  note same = map_static [OF assms(1)]
  have ids: "map c_id (contributions w') = map c_id (contributions w)" by (rule same) simp
  have keys: "List.map_filter c_idempotencyKey (contributions w') = List.map_filter c_idempotencyKey (contributions w)"
    using same [of c_idempotencyKey] by (simp add: map_filter_options)
  have "used_uuid w' (c_id c)" if "c \<in> set (contributions w')" for c
  proof -
    have "c_id c \<in> c_id ` set (contributions w)" using that arg_cong [OF ids, of set] by auto
    with assms(3) have "used_uuid w (c_id c)" by (auto simp: contributions_ok_def)
    then show ?thesis using assms(2) by (rule used_uuid_mono)
  qed
  then show ?thesis
    using assms(3) ids keys same [of c_transactionHash] same [of "\<lambda>c. (c_userId c, c_groupId c, c_roundNumber c)"]
    by (simp add: contributions_ok_def)
qed

lemma set_status_static [simp]:
  "map static_part (contributions (set_contribution_status i s w)) = map static_part (contributions w)"
  by (simp add: set_contribution_status_def map_update_rows)

lemma set_status_frame [simp]:
  "uuid_count (set_contribution_status i s w) = uuid_count w" "now (set_contribution_status i s w) = now w"
  "inflight_locks (set_contribution_status i s w) = inflight_locks w" "users (set_contribution_status i s w) = users w"
  "tx_jobs (set_contribution_status i s w) = tx_jobs w" "groups (set_contribution_status i s w) = groups w"
  by (simp_all add: set_contribution_status_def)

lemma addTxConfirmation_frame [simp]:
  "contributions (addTxConfirmation q j w) = contributions w" "inflight_locks (addTxConfirmation q j w) = inflight_locks w"
  "users (addTxConfirmation q j w) = users w" "now (addTxConfirmation q j w) = now w"
  "uuid_count (addTxConfirmation q j w) = uuid_count w" "groups (addTxConfirmation q j w) = groups w"
  by (simp_all add: addTxConfirmation_def)

lemma contributions_ok_append:
  assumes "contributions_ok w" "\<forall>x \<in> set (contributions w). \<not> conflicts c x" "c_id c = fresh_uuid w"
    and "contributions w' = contributions w @ [c]" "Suc (uuid_count w) \<le> uuid_count w'"
  shows "contributions_ok w'"
proof -
  have "fresh_uuid w \<noteq> c_id x" if "x \<in> set (contributions w)" for x
    using that assms(1) fresh_uuid_unused unfolding contributions_ok_def by metis
  moreover have "used_uuid w' (fresh_uuid w)"
    using assms(5) unfolding used_uuid_def fresh_uuid_def by (intro exI [of _ "uuid_count w"]) simp
  moreover have "used_uuid w' u" if "used_uuid w u" for u
    using that assms(5) by (auto intro: used_uuid_mono)
  ultimately show ?thesis
    using assms unfolding contributions_ok_def
    by (auto simp: conflicts_def map_filter_simps List.map_filter_def image_iff split: option.splits)
qed

text \<open>The course of a successful insert, and that an unsuccessful one changes nothing.\<close>

lemma persist_contribution_result:
  assumes "contributions_ok w" "quiet E" "c_id c = fresh_uuid w"
    and "persist_contribution E c w = (r, w')"
  shows "\<And>e. r = Inl e \<Longrightarrow> w' = w"
    and "\<And>s. r = Inr s \<Longrightarrow> s = c\<lparr>c_status := CS_ON_CHAIN_SUBMITTED\<rparr> \<and>
      (\<forall>x \<in> set (contributions w). \<not> conflicts c x) \<and> (\<exists>u \<in> set (users w). u_id u = c_userId c) \<and>
      contributions w' = contributions w @ [c\<lparr>c_status := CS_ON_CHAIN_SUBMITTED, c_updatedAt := now w\<rparr>] \<and>
      (if ce_queue E then \<exists>j \<in> set (tx_jobs w'). j_transactionHash j = c_transactionHash c else tx_jobs w' = tx_jobs w) \<and>
      inflight_locks w' = inflight_locks w \<and> users w' = users w \<and> now w' = now w \<and> Suc (uuid_count w) \<le> uuid_count w'"
proof -
  define w1 where "w1 = (tick_uuid w)\<lparr>contributions := contributions w @ [c]\<rparr>"
  define w2 where "w2 = set_contribution_status (c_id c) CS_ON_CHAIN_SUBMITTED w1"
  define w3 where "w3 = addTxConfirmation (ce_queue E) \<lparr>j_contributionId = c_id c, j_transactionHash = c_transactionHash c,
                          j_userId = c_userId c, j_deadline = now w2 + ce_confirmationTimeout E\<rparr> w2"
  define w4 where "w4 = dispatchEvent (CONTRIBUTION_VERIFIED (c_id c)) w3"
  define w5 where "w5 = snd (tryAdvanceRound (ce_decimals E) (ce_pay E) (ce_path E) (ce_crash E) (c_groupId c) w4)"
  have fresh: "c_id x \<noteq> c_id c" if "x \<in> set (contributions w)" for x
    using that assms(1,3) fresh_uuid_unused unfolding contributions_ok_def by metis
  have found: "find_contribution (c_id c) w1 = Some c"
    unfolding find_contribution_def by (rule find_unique) (auto simp: w1_def dest: fresh)
  have rows: "contributions w2 = contributions w @ [c\<lparr>c_status := CS_ON_CHAIN_SUBMITTED, c_updatedAt := now w\<rparr>]"
    using fresh by (auto simp: w2_def w1_def set_contribution_status_def update_rows_def tick_uuid_def intro: map_idI)
  have ignored: "ce_ignored E = [] \<or> (\<exists>xs. ce_ignored E = None # xs)"
    using assms(2) unfolding quiet_def by (cases "ce_ignored E") auto
  have course: "persist_contribution E c w =
    (if \<exists>x \<in> set (contributions w). conflicts c x
     then (Inl (if ce_ignored E = [] then already_exists else TypeError ''Cannot read properties of undefined (reading 'id')''), w)
     else if (\<forall>g \<in> set (groups w). g_id g \<noteq> c_groupId c) \<or> (\<forall>u \<in> set (users w). u_id u \<noteq> c_userId c)
     then (Inl ForeignKeyViolation, w)
     else (Inr (c\<lparr>c_status := CS_ON_CHAIN_SUBMITTED\<rparr>), w5))"
    using ignored
    by (auto simp: persist_contribution_def insert_or_ignore_def w1_def [symmetric] found Let_def
        w2_def [symmetric] w3_def [symmetric] w4_def [symmetric] w5_def [symmetric])
  show "w' = w" if "r = Inl e" for e
    using assms(4) that unfolding course by (auto split: if_splits)
  have "same_deposits w4 w5" unfolding w5_def by (rule tryAdvanceRound_deposits)
  then have w5: "contributions w5 = contributions w2" "tx_jobs w5 = tx_jobs w3" "inflight_locks w5 = inflight_locks w"
    "users w5 = users w" "now w5 = now w" "Suc (uuid_count w) \<le> uuid_count w5"
    by (simp_all add: same_deposits_def w4_def w3_def dispatchEvent_def) (simp_all add: w2_def w1_def tick_uuid_def)
  have job: "if ce_queue E then \<exists>j \<in> set (tx_jobs w3). j_transactionHash j = c_transactionHash c else tx_jobs w3 = tx_jobs w"
    by (simp add: w3_def addTxConfirmation_def) (simp add: w2_def w1_def tick_uuid_def)
  show "s = c\<lparr>c_status := CS_ON_CHAIN_SUBMITTED\<rparr> \<and>
      (\<forall>x \<in> set (contributions w). \<not> conflicts c x) \<and> (\<exists>u \<in> set (users w). u_id u = c_userId c) \<and>
      contributions w' = contributions w @ [c\<lparr>c_status := CS_ON_CHAIN_SUBMITTED, c_updatedAt := now w\<rparr>] \<and>
      (if ce_queue E then \<exists>j \<in> set (tx_jobs w'). j_transactionHash j = c_transactionHash c else tx_jobs w' = tx_jobs w) \<and>
      inflight_locks w' = inflight_locks w \<and> users w' = users w \<and> now w' = now w \<and> Suc (uuid_count w) \<le> uuid_count w'"
    if "r = Inr s" for s
  proof -
    have ok: "w' = w5" "s = c\<lparr>c_status := CS_ON_CHAIN_SUBMITTED\<rparr>" "\<forall>x \<in> set (contributions w). \<not> conflicts c x"
      "\<exists>u \<in> set (users w). u_id u = c_userId c"
      using assms(4) that unfolding course by (auto split: if_splits)
    show ?thesis unfolding ok(1) w5 rows using ok(2-4) job w5(6) by simp
  qed
qed


subsection \<open>Recording a contribution\<close>

lemma validate_contribution_Inr:
  assumes "validate_contribution E d w = Inr g"
  shows "find_group (cd_groupId d) w = Some g \<and> g_status g = GS_ACTIVE \<and> cd_roundNumber d = g_currentRound g \<and>
    (\<forall>m. find_membership (cd_groupId d) (cd_userId d) w = Some m \<longrightarrow> m_status m \<noteq> MS_SUSPENDED) \<and>
    (\<forall>t. g_startDate g = Some t \<longrightarrow> t \<le> now w) \<and> (\<forall>t. g_endDate g = Some t \<longrightarrow> now w \<le> t)"
proof -
  obtain g' where g': "find_group (cd_groupId d) w = Some g'" and win: "validate_window d g' w = Inr g"
    using assms unfolding validate_contribution_def by (auto split: option.splits if_splits)
  from win have "g' = g" unfolding validate_window_def by (simp split: if_splits)
  with g' win show ?thesis unfolding validate_window_def by (auto split: if_splits option.splits)
qed

lemma verify_contribution_Inr:
  assumes "verify_contribution E d g t = Inr locked"
  shows "if ce_verify E then \<exists>l n. locked = Some (l, n) \<and> \<not> js_less (js_Number n) (js_Number (g_contributionAmount g)) \<and>
      js_Number n \<noteq> NaN \<and> ce_isContribution E (cd_transactionHash d) (g_contractAddress g) = Inr True
    else locked = None"
proof (cases "ce_verify E")
  case True
  with assms have "\<exists>r. locked = Some r \<and> check_amount E d g t = Inr r \<and>
      ce_isContribution E (cd_transactionHash d) (g_contractAddress g) = Inr True"
    unfolding verify_contribution_def by (auto split: sum.splits bool.splits exn.splits)
  with True show ?thesis
    unfolding check_amount_def Let_def by (auto split: sum.splits prod.splits if_splits)
qed (use assms in \<open>simp add: verify_contribution_def\<close>)

lemma acquire_simps [simp]:
  "contributions (acquire k w) = contributions w" "users (acquire k w) = users w" "now (acquire k w) = now w"
  "uuid_count (acquire k w) = uuid_count w" "groups (acquire k w) = groups w" "memberships (acquire k w) = memberships w"
  "inflight_locks (acquire k w) = k # inflight_locks w" "tx_jobs (acquire k w) = tx_jobs w"
  by (simp_all add: acquire_def)

lemma release_simps [simp]:
  "contributions (release k w) = contributions w" "users (release k w) = users w" "now (release k w) = now w"
  "uuid_count (release k w) = uuid_count w" "groups (release k w) = groups w" "tx_jobs (release k w) = tx_jobs w"
  "memberships (release k w) = memberships w" "payout_txs (release k w) = payout_txs w"
  "inflight_locks (release k w) = filter (\<lambda>x. x \<noteq> k) (inflight_locks w)"
  by (simp_all add: release_def)

lemma acquire_queries [simp]:
  "fresh_uuid (acquire k w) = fresh_uuid w" "find_group i (acquire k w) = find_group i w"
  "find_membership i u (acquire k w) = find_membership i u w" "contributions_ok (acquire k w) = contributions_ok w"
  by (simp_all add: acquire_def fresh_uuid_def find_group_def find_membership_def contributions_ok_def used_uuid_def)

lemma validate_contribution_acquire [simp]: "validate_contribution E d (acquire k w) = validate_contribution E d w"
proof -
  have window: "validate_window d g (acquire k w) = validate_window d g w" for g
    unfolding validate_window_def acquire_simps acquire_queries ..
  show ?thesis unfolding validate_contribution_def acquire_queries window ..
qed

lemma new_contribution_simps [simp]:
  "c_id (new_contribution d key g l w) = fresh_uuid w" "c_userId (new_contribution d key g l w) = cd_userId d"
  "c_groupId (new_contribution d key g l w) = cd_groupId d" "c_roundNumber (new_contribution d key g l w) = cd_roundNumber d"
  "c_transactionHash (new_contribution d key g l w) = cd_transactionHash d"
  "c_idempotencyKey (new_contribution d key g l w) = key" "c_updatedAt (new_contribution d key g l w) = now w"
  "c_normalizedAmount (new_contribution d key g l w) = map_option snd l"
  by (simp_all add: new_contribution_def)

text \<open>One call that is not a repetition: what was checked and what is stored.\<close>

definition recorded :: "'d contribution_env \<Rightarrow> create_contribution_dto \<Rightarrow> string option \<Rightarrow> world \<Rightarrow> contribution \<Rightarrow> world \<Rightarrow> bool" where
  "recorded E d key w c w' \<longleftrightarrow> (\<exists>g locked. validate_contribution E d w = Inr g \<and> verify_contribution E d g (now w) = Inr locked \<and>
     c = (new_contribution d key g locked w)\<lparr>c_status := CS_ON_CHAIN_SUBMITTED\<rparr> \<and>
     (\<forall>x \<in> set (contributions w). \<not> conflicts c x) \<and> (\<exists>u \<in> set (users w). u_id u = cd_userId d) \<and>
     contributions w' = contributions w @ [c] \<and>
     (if ce_queue E then \<exists>j \<in> set (tx_jobs w'). j_transactionHash j = cd_transactionHash d else tx_jobs w' = tx_jobs w) \<and>
     users w' = users w \<and> now w' = now w \<and> Suc (uuid_count w) \<le> uuid_count w')"

lemma conflicts_status [simp]: "conflicts (c\<lparr>c_status := s\<rparr>) x = conflicts c x"
  by (simp add: conflicts_def)

lemma guarded_contribution_result:
  assumes "contributions_ok w" "quiet E" "guarded_contribution E d key w = (r, w')"
  shows "\<And>e. r = Inl e \<Longrightarrow> w' = w" and "\<And>c. r = Inr c \<Longrightarrow> recorded E d key w c w'"
    and "inflight_locks w' = inflight_locks w"
proof -
  have all: "(\<forall>e. r = Inl e \<longrightarrow> w' = w) \<and> (\<forall>c. r = Inr c \<longrightarrow> recorded E d key w c w') \<and> inflight_locks w' = inflight_locks w"
  proof (cases "validate_contribution E d w")
    case (Inr g)
    note valid = this
    show ?thesis
    proof (cases "verify_contribution E d g (now w)")
      case (Inr locked)
      let ?c = "new_contribution d key g locked w"
      obtain r0 v where run: "persist_contribution E ?c w = (r0, v)" by fastforce
      note res = persist_contribution_result [OF assms(1,2) _ run, simplified]
      have upd: "?c\<lparr>c_status := CS_ON_CHAIN_SUBMITTED, c_updatedAt := now w\<rparr> = ?c\<lparr>c_status := CS_ON_CHAIN_SUBMITTED\<rparr>"
        by (simp add: new_contribution_def)
      show ?thesis
      proof (cases r0)
        case (Inl e)
        then have "r = Inl (contribution_error e)" "w' = v"
          using assms(3) valid Inr run by (simp_all add: guarded_contribution_def record_contribution_def)
        with res(1) [OF Inl] show ?thesis by simp
      next
        case (Inr s)
        then have r: "r = Inr s" "w' = v"
          using assms(3) valid \<open>verify_contribution E d g (now w) = Inr locked\<close> run
          by (simp_all add: guarded_contribution_def record_contribution_def)
        have "recorded E d key w s v"
          unfolding recorded_def using res(2) [OF Inr] valid \<open>verify_contribution E d g (now w) = Inr locked\<close>
          by (intro exI [of _ g] exI [of _ locked]) (auto simp: upd)
        with r res(2) [OF Inr] show ?thesis by simp
      qed
    qed (use valid assms(3) in \<open>auto simp: guarded_contribution_def record_contribution_def\<close>)
  qed (use assms(3) in \<open>auto simp: guarded_contribution_def record_contribution_def\<close>)
  then show "\<And>e. r = Inl e \<Longrightarrow> w' = w" and "\<And>c. r = Inr c \<Longrightarrow> recorded E d key w c w'"
    and "inflight_locks w' = inflight_locks w" by blast+
qed

lemma recorded_ok:
  assumes "contributions_ok w" "recorded E d key w c w'"
  shows "contributions_ok w'"
proof -
  from assms(2) obtain g l where c: "c = (new_contribution d key g l w)\<lparr>c_status := CS_ON_CHAIN_SUBMITTED\<rparr>"
    and rest: "\<forall>x \<in> set (contributions w). \<not> conflicts c x" "contributions w' = contributions w @ [c]"
      "Suc (uuid_count w) \<le> uuid_count w'" unfolding recorded_def by blast
  show ?thesis by (rule contributions_ok_append [OF assms(1) rest(1) _ rest(2,3)]) (simp add: c)
qed

text \<open>The first request with a key, or one without: it takes the lock and records.\<close>

definition first_request :: "string option \<Rightarrow> world \<Rightarrow> bool" where
  "first_request key w \<longleftrightarrow> \<not> truthy key \<or>
     (find_contribution_by_key (the key) w = None \<and> lock_key (the key) \<notin> set (inflight_locks w))"

lemma createContribution_first:
  assumes "first_request key w" "createContribution E d key w = (r, w')"
  shows "\<exists>v. guarded_contribution E d key (if truthy key then acquire (lock_key (the key)) w else w) = (r, v) \<and>
    w' = (if truthy key then release (lock_key (the key)) v else v)"
  using assms unfolding createContribution_def first_request_def Let_def by (auto split: prod.splits)

lemma createContribution_Inr:
  assumes "contributions_ok w" "quiet E" "first_request key w" "createContribution E d key w = (Inr c, w')"
  shows "recorded E d key w c w'"
proof -
  let ?w0 = "if truthy key then acquire (lock_key (the key)) w else w"
  obtain v where run: "guarded_contribution E d key ?w0 = (Inr c, v)"
    and w': "w' = (if truthy key then release (lock_key (the key)) v else v)"
    using createContribution_first [OF assms(3,4)] by blast
  have "contributions_ok ?w0" using assms(1) by simp
  from guarded_contribution_result(2) [OF this assms(2) run refl] have rec: "recorded E d key ?w0 c v" .
  have new: "new_contribution d key g l ?w0 = new_contribution d key g l w" for g l
    by (simp add: new_contribution_def)
  have jobs: "tx_jobs ?w0 = tx_jobs w" by simp
  show ?thesis using rec unfolding recorded_def new w' jobs by (cases "truthy key"; cases "ce_queue E") simp_all
qed


text \<open>
  C3: A contribution that the service accepts was due: the group is ACTIVE and in the round the
  contribution names, its window is open, the member is not suspended, and, when verification is
  on, the chain confirmed the call and its value in the unit of account is not below the amount
  of the group. Exactly one row is stored, as ON_CHAIN_SUBMITTED, no earlier row has its
  transaction, its user and round, or its key. A confirmation job for its transaction is queued when the
  queue takes it; otherwise the request still succeeds, and no job is added.
\<close>

theorem createContribution_records:
  assumes "contributions_ok w" "quiet E" "first_request key w"
    and "createContribution E d key w = (Inr c, w')"
  shows "(\<exists>g. find_group (cd_groupId d) w = Some g \<and> g_status g = GS_ACTIVE \<and> c_roundNumber c = g_currentRound g \<and>
      (\<forall>t. g_startDate g = Some t \<longrightarrow> t \<le> now w) \<and> (\<forall>t. g_endDate g = Some t \<longrightarrow> now w \<le> t) \<and>
      (\<forall>m. find_membership (cd_groupId d) (cd_userId d) w = Some m \<longrightarrow> m_status m \<noteq> MS_SUSPENDED) \<and>
      (ce_verify E \<longrightarrow> ce_isContribution E (cd_transactionHash d) (g_contractAddress g) = Inr True \<and>
         (\<exists>n. c_normalizedAmount c = Some n \<and> \<not> js_less (js_Number n) (js_Number (g_contributionAmount g))))) \<and>
    contributions w' = contributions w @ [c] \<and> c_status c = CS_ON_CHAIN_SUBMITTED \<and> c_userId c = cd_userId d \<and>
    (\<forall>x \<in> set (contributions w). \<not> conflicts c x) \<and>
    (if ce_queue E then \<exists>j \<in> set (tx_jobs w'). j_transactionHash j = c_transactionHash c else tx_jobs w' = tx_jobs w)"
proof -
  from createContribution_Inr [OF assms] obtain g l where valid: "validate_contribution E d w = Inr g"
    and ver: "verify_contribution E d g (now w) = Inr l"
    and c: "c = (new_contribution d key g l w)\<lparr>c_status := CS_ON_CHAIN_SUBMITTED\<rparr>"
    and rest: "\<forall>x \<in> set (contributions w). \<not> conflicts c x" "contributions w' = contributions w @ [c]"
      "if ce_queue E then \<exists>j \<in> set (tx_jobs w'). j_transactionHash j = cd_transactionHash d else tx_jobs w' = tx_jobs w" unfolding recorded_def by blast
  have amount: "ce_isContribution E (cd_transactionHash d) (g_contractAddress g) = Inr True \<and>
      (\<exists>n. c_normalizedAmount c = Some n \<and> \<not> js_less (js_Number n) (js_Number (g_contributionAmount g)))" if "ce_verify E"
    using verify_contribution_Inr [OF ver] that by (auto simp: c)
  have "c_roundNumber c = g_currentRound g" using validate_contribution_Inr [OF valid] by (simp add: c)
  moreover have "c_status c = CS_ON_CHAIN_SUBMITTED" "c_userId c = cd_userId d" "c_transactionHash c = cd_transactionHash d"
    by (simp_all add: c)
  ultimately show ?thesis using validate_contribution_Inr [OF valid] rest amount by auto
qed

text \<open>
  A contribution counts for the payout only once it is confirmed. Right after it is accepted
  the payout amount of its round is what it was before, so a round that advances in the same
  request is paid without the contribution that completed it.
\<close>

theorem new_contribution_not_in_payout:
  assumes "contributions_ok w" "quiet E" "first_request key w"
    and "createContribution E d key w = (Inr c, w')"
  shows "computePayoutAmount D gid round g w' = computePayoutAmount D gid round g w"
proof -
  from createContribution_Inr [OF assms] have "contributions w' = contributions w @ [c]" "c_status c \<noteq> CS_CONFIRMED"
    unfolding recorded_def by auto
  then show ?thesis by (simp add: computePayoutAmount_def)
qed

subsection \<open>Waiting for a request in flight\<close>

abbreviation nap :: "(world \<Rightarrow> world) \<Rightarrow> world \<Rightarrow> world" where
  "nap others \<equiv> sleep others IN_FLIGHT_POLL_INTERVAL_MS"

text \<open>The wait only sleeps; it ends with the row as it is then, settled or at the deadline.\<close>

lemma poll_in_flight_result:
  assumes "poll_in_flight others deadline i w = (r, w')"
  shows "\<exists>n. w' = (nap others ^^ n) w \<and> int n * 500 < max 0 (deadline - now w) + 500 \<and>
    (case r of Inl e \<Rightarrow> find_contribution i w' = None
     | Inr c \<Rightarrow> find_contribution i w' = Some c \<and> (terminal c \<or> deadline \<le> now w'))"
  using assms
proof (induction others deadline i w arbitrary: r w' rule: poll_in_flight.induct)
  case (1 others deadline i w)
  show ?case
  proof (cases "now w < deadline")
    case False
    then have "(case find_contribution i w of None \<Rightarrow> (Inl (JsError ''EntityNotFoundError''), w) | Some c \<Rightarrow> (Inr c, w)) = (r, w')"
      using "1.prems" by (subst (asm) poll_in_flight.simps) simp
    with False show ?thesis by (intro exI [of _ 0]) (auto split: option.splits)
  next
    case True
    let ?w1 = "nap others w"
    have step: "now w + 500 \<le> now ?w1"
      using now_sleep [of w IN_FLIGHT_POLL_INTERVAL_MS others] by (simp add: IN_FLIGHT_POLL_INTERVAL_MS_def)
    have run: "(case find_contribution i ?w1 of
          None \<Rightarrow> (Inl (ConflictException ''In-flight contribution disappeared unexpectedly''), ?w1)
        | Some c \<Rightarrow> if terminal c then (Inr c, ?w1) else poll_in_flight others deadline i ?w1) = (r, w')"
      using "1.prems" True by (subst (asm) poll_in_flight.simps) (simp add: Let_def)
    show ?thesis
    proof (cases "\<exists>c. find_contribution i ?w1 = Some c \<and> \<not> terminal c")
      case False
      then show ?thesis using run True by (intro exI [of _ 1]) (auto split: option.splits if_splits)
    next
      case wait: True
      then obtain c where c: "find_contribution i ?w1 = Some c" "\<not> terminal c" by blast
      then have "poll_in_flight others deadline i ?w1 = (r, w')" using run by simp
      from "1.IH" [OF True refl c this] obtain n where n: "w' = (nap others ^^ n) ?w1"
        "int n * 500 < max 0 (deadline - now ?w1) + 500"
        "case r of Inl e \<Rightarrow> find_contribution i w' = None
         | Inr c \<Rightarrow> find_contribution i w' = Some c \<and> (terminal c \<or> deadline \<le> now w')" by blast
      have "int (Suc n) * 500 < max 0 (deadline - now w) + 500" using n(2) step True
        by (cases "deadline \<le> now ?w1") simp_all
      moreover have "w' = (nap others ^^ Suc n) w" using n(1) by (simp add: funpow_swap1)
      ultimately show ?thesis using n(3) by blast
    qed
  qed
qed

lemma waitForInFlight_naps:
  "\<exists>n \<le> 110. snd (waitForInFlight others i w) = (nap others ^^ n) w \<and>
    (case fst (waitForInFlight others i w) of
       Inl e \<Rightarrow> find_contribution i (snd (waitForInFlight others i w)) = None
     | Inr c \<Rightarrow> find_contribution i (snd (waitForInFlight others i w)) = Some c \<and>
         (terminal c \<or> now w + 55000 \<le> now (snd (waitForInFlight others i w))))"
proof -
  obtain r w' where run: "waitForInFlight others i w = (r, w')" by fastforce
  then have "poll_in_flight others (now w + 55000) i w = (r, w')"
    by (simp add: waitForInFlight_def IN_FLIGHT_POLL_TIMEOUT_MS_def)
  from poll_in_flight_result [OF this] obtain n where n: "w' = (nap others ^^ n) w" "int n * 500 < 55000 + 500"
    "case r of Inl e \<Rightarrow> find_contribution i w' = None
     | Inr c \<Rightarrow> find_contribution i w' = Some c \<and> (terminal c \<or> now w + 55000 \<le> now w')" by auto
  from n(2) have "n \<le> 110" by simp
  with n(1,3) show ?thesis unfolding run fst_conv snd_conv by blast
qed

text \<open>
  The wait for a request in flight ends after at most 110 polls, whatever the other requests
  do meanwhile, and itself changes nothing. It returns the row as it is at that moment, settled
  unless the 55 seconds are over, and fails only if the row is gone.
\<close>

theorem waitForInFlight_bounded:
  "\<exists>n \<le> 110. snd (waitForInFlight others i w) = (nap others ^^ n) w \<and>
    (case fst (waitForInFlight others i w) of
       Inl e \<Rightarrow> find_contribution i (snd (waitForInFlight others i w)) = None
     | Inr c \<Rightarrow> find_contribution i (snd (waitForInFlight others i w)) = Some c \<and>
         (terminal c \<or> now w + 55000 \<le> now (snd (waitForInFlight others i w))))"
  by (rule waitForInFlight_naps)


text \<open>
  Every call gives its lock back. Whether the request succeeds, is refused, fails on the chain
  or in the database, or only waited, the Redis locks are the same before and after it, as long
  as the requests that ran while it slept did the same.
\<close>

theorem createContribution_releases_lock:
  assumes "contributions_ok w" "quiet E" "\<forall>v. inflight_locks (ce_others E v) = inflight_locks v"
  shows "inflight_locks (snd (createContribution E d key w)) = inflight_locks w"
proof -
  have nap: "inflight_locks ((nap (ce_others E) ^^ n) v) = inflight_locks v" for n v
    by (induction n) (simp_all add: sleep_def Let_def assms(3))
  have wait: "inflight_locks (snd (waitForInFlight (ce_others E) i v)) = inflight_locks v" for i v
    using waitForInFlight_naps [of "ce_others E" i v] nap by metis
  show ?thesis
  proof (cases "first_request key w")
    case True
    let ?w0 = "if truthy key then acquire (lock_key (the key)) w else w"
    obtain r w' where run: "createContribution E d key w = (r, w')" by fastforce
    then obtain v where v: "guarded_contribution E d key ?w0 = (r, v)"
      and w': "w' = (if truthy key then release (lock_key (the key)) v else v)"
      using createContribution_first [OF True] by blast
    have "inflight_locks v = inflight_locks ?w0"
      by (rule guarded_contribution_result(3) [OF _ assms(2) v]) (use assms(1) in simp)
    then show ?thesis using True w' run by (auto simp: first_request_def intro: filter_True)
  next
    case False
    then have "truthy key" by (simp add: first_request_def)
    with False nap [of 1] show ?thesis
      by (auto simp: createContribution_def first_request_def Let_def wait split: option.splits)
  qed
qed


subsection \<open>Settling contributions\<close>

definition settled_row :: "(string \<Rightarrow> chain_status outcome) \<Rightarrow> time \<Rightarrow> contribution \<Rightarrow> contribution" where
  "settled_row chain t c = (case chain_verdict (chain (c_transactionHash c)) of
     Some s \<Rightarrow> c\<lparr>c_status := s, c_updatedAt := t\<rparr> | None \<Rightarrow> c)"

lemma settled_row_static [simp]: "static_part (settled_row chain t c) = static_part c" "c_id (settled_row chain t c) = c_id c"
  by (simp_all add: settled_row_def split: option.split)

lemma reconcile_each_rows:
  assumes "distinct (map c_id cs)"
    and "\<forall>c \<in> set cs. \<forall>x \<in> set (contributions w). c_id x = c_id c \<longrightarrow> c_transactionHash x = c_transactionHash c"
  shows "contributions (reconcile_each chain cs w) =
    map (\<lambda>x. if c_id x \<in> c_id ` set cs then settled_row chain (now w) x else x) (contributions w)
    \<and> uuid_count (reconcile_each chain cs w) = uuid_count w"
  using assms
proof (induction cs arbitrary: w)
  case (Cons c cs)
  define w1 where "w1 = (case chain_verdict (chain (c_transactionHash c)) of
      Some s \<Rightarrow> set_contribution_status (c_id c) s w | None \<Rightarrow> w)"
  have w1: "contributions w1 = map (\<lambda>x. if c_id x = c_id c then settled_row chain (now w) x else x) (contributions w)"
    "now w1 = now w" "uuid_count w1 = uuid_count w"
    using Cons.prems(2)
    by (auto simp: w1_def settled_row_def set_contribution_status_def update_rows_def split: option.split intro!: map_idI [symmetric])
  have hash: "c_transactionHash (settled_row chain t x) = c_transactionHash x" for t x
    by (simp add: settled_row_def split: option.split)
  have "distinct (map c_id cs)" using Cons.prems(1) by simp
  moreover have "\<forall>c' \<in> set cs. \<forall>x \<in> set (contributions w1). c_id x = c_id c' \<longrightarrow> c_transactionHash x = c_transactionHash c'"
    using Cons.prems(2) by (auto simp: w1 hash)
  moreover have "reconcile_each chain (c # cs) w = reconcile_each chain cs w1" by (simp add: w1_def)
  ultimately show ?case
    using Cons.IH [of w1] Cons.prems(1) by (auto simp: w1)
qed simp

lemma reconcile_rows:
  assumes "contributions_ok w"
  shows "contributions (reconcileStuckContributions chain ms w) =
    map (\<lambda>c. if stuck ms w c then settled_row chain (now w) c else c) (contributions w)"
proof -
  let ?cs = "filter (stuck ms w) (contributions w)"
  have "distinct (map c_id (contributions w))" using assms by (simp add: contributions_ok_def)
  then have inj: "inj_on c_id (set (contributions w))" and "distinct (map c_id ?cs)"
    by (simp_all add: distinct_map_filter) (simp add: distinct_map)
  then have "contributions (reconcileStuckContributions chain ms w) =
      map (\<lambda>x. if c_id x \<in> c_id ` set ?cs then settled_row chain (now w) x else x) (contributions w)"
    unfolding reconcileStuckContributions_def
    by (intro reconcile_each_rows [THEN conjunct1]) (auto dest: inj_onD)
  also have "\<dots> = map (\<lambda>c. if stuck ms w c then settled_row chain (now w) c else c) (contributions w)"
    using inj by (auto dest: inj_onD)
  finally show ?thesis .
qed

text \<open>
  Reconciliation does what the chain says, to the stuck rows only: every row submitted and
  older than the limit gets the status of its transaction if that is final, a transaction that
  is pending or cannot be read leaves its row alone, and all other rows stay as they are.
\<close>

theorem reconcile_correct:
  assumes "contributions_ok w"
  shows "contributions (reconcileStuckContributions chain ms w) =
    map (\<lambda>c. if stuck ms w c then settled_row chain (now w) c else c) (contributions w)"
  by (rule reconcile_rows [OF assms])

definition grows :: "world \<Rightarrow> world \<Rightarrow> bool" where
  "grows w w' \<longleftrightarrow> (\<exists>t. map static_part (contributions w') = map static_part (contributions w) @ t)"

lemma grows_same: "map static_part (contributions w') = map static_part (contributions w) \<Longrightarrow> grows w w'"
  by (simp add: grows_def)

lemma settle_frame:
  assumes "settle i uid s h b w = (r, w')"
  shows "map static_part (contributions w') = map static_part (contributions w) \<and> uuid_count w \<le> uuid_count w' \<and>
    inflight_locks w' = inflight_locks w \<and> contributions w' = contributions (set_contribution_status i s w)"
proof -
  define d where "d = (plain_dto uid (if s = CS_CONFIRMED then PAYOUT_RECEIVED else SYSTEM_ALERT)
      (if s = CS_CONFIRMED then ''Contribution Confirmed'' else ''Contribution Failed'')
      (''Your contribution (tx: '' @ h @ (if s = CS_CONFIRMED then '') has been confirmed on-chain.''
                   else if b then '') timed out waiting for confirmation.'' else '') failed on-chain.''))
      \<lparr>nd_idempotencyKey := Some (''tx_confirm:'' @ h @ '':'' @ show_settled s)\<rparr>)"
  have "w' = snd (notify d (set_contribution_status i s w))"
    using assms unfolding settle_def Let_def d_def [symmetric] by (auto split: prod.splits sum.splits)
  then have "same_tables (set_contribution_status i s w) w'"
    using notify_frame [OF prod.collapse [symmetric]] by blast
  then show ?thesis by (simp add: same_tables_def)
qed

lemma pollUntilTerminal_frame:
  assumes "pollUntilTerminal chain others i h uid deadline w = (r, w')" "others = id"
  shows "map static_part (contributions w') = map static_part (contributions w) \<and> uuid_count w \<le> uuid_count w' \<and>
    inflight_locks w' = inflight_locks w"
  using assms
proof (induction chain others i h uid deadline w rule: pollUntilTerminal.induct)
  case (1 chain others i h uid deadline w)
  show ?case
  proof (cases "now w < deadline \<and> chain_verdict (chain (now w) h) = None")
    case False
    then obtain s b where "settle i uid s h b w = (r, w')"
      using "1.prems"(1) by (subst (asm) pollUntilTerminal.simps) (auto split: if_splits option.splits)
    from settle_frame [OF this] show ?thesis by blast
  next
    case True
    then have "pollUntilTerminal chain others i h uid deadline (sleep others POLL_INTERVAL_MS w) = (r, w')"
      using "1.prems"(1) by (subst (asm) pollUntilTerminal.simps) simp
    with "1.IH" True "1.prems"(2) show ?thesis by (simp add: sleep_def Let_def)
  qed
qed

text \<open>
  A confirmed contribution can become failed, and then stays so. A confirmation job that
  starts after its deadline marks its contribution FAILED without asking the chain, even when it
  has been confirmed before; no reconciliation, whatever the chain answers, changes it back.
\<close>

theorem late_confirmation_job_fails_contribution:
  assumes "contributions_ok w" "c \<in> set (contributions w)" "j_contributionId j = c_id c" "j_deadline j \<le> now w"
    and "''tx_confirm:'' @ j_transactionHash j \<notin> set (inflight_locks w)"
  shows "\<exists>c' \<in> set (contributions (snd (process_tx_confirmation chain others j w))).
    static_part c' = static_part c \<and> c_status c' = CS_FAILED \<and>
    (\<forall>verdicts ms. c' \<in> set (contributions (reconcileStuckContributions verdicts ms
        (snd (process_tx_confirmation chain others j w)))))"
proof -
  let ?k = "''tx_confirm:'' @ j_transactionHash j"
  obtain r v where run: "settle (j_contributionId j) (j_userId j) CS_FAILED (j_transactionHash j) True (acquire ?k w) = (r, v)"
    by fastforce
  have w': "snd (process_tx_confirmation chain others j w) = release ?k v"
    using assms(4,5) run by (simp add: process_tx_confirmation_def Let_def pollUntilTerminal.simps)
  have v: "contributions v = contributions (set_contribution_status (c_id c) CS_FAILED w)" "uuid_count w \<le> uuid_count v"
    using settle_frame [OF run] by (simp_all add: assms(3) set_contribution_status_def)
  let ?c = "c\<lparr>c_status := CS_FAILED, c_updatedAt := now w\<rparr>"
  have mem: "?c \<in> set (contributions (release ?k v))"
    using assms(2) by (auto simp: v set_contribution_status_def set_update_rows)
  have "contributions_ok (release ?k v)"
    by (rule contributions_ok_cong [OF _ _ assms(1)]) (simp_all add: v)
  note rows = reconcile_rows [OF this]
  have "?c \<in> set (contributions (reconcileStuckContributions verdicts ms (release ?k v)))" for verdicts ms
    unfolding rows set_map by (rule image_eqI [OF _ mem]) (simp add: stuck_def)
  then show ?thesis using mem unfolding w' by (intro bexI [of _ ?c]) simp_all
qed

subsection \<open>The deposits as a machine\<close>

text \<open>Any requests, jobs and sweeps one after the other, with time passing between them.\<close>

datatype 'd deposit_op =
    Create "'d contribution_env" create_contribution_dto "string option"
  | Confirm "time \<Rightarrow> string \<Rightarrow> chain_status outcome" tx_job
  | Sweep "string \<Rightarrow> chain_status outcome" int
  | Elapse nat

definition deposit_exec :: "'d deposit_op \<Rightarrow> world \<Rightarrow> world" where
  "deposit_exec op w = (case op of
     Create E d key \<Rightarrow> snd (createContribution (E\<lparr>ce_ignored := [], ce_others := id\<rparr>) d key w)
   | Confirm chain j \<Rightarrow> snd (process_tx_confirmation chain id j w)
   | Sweep chain ms \<Rightarrow> reconcileStuckContributions chain ms w
   | Elapse n \<Rightarrow> w\<lparr>now := now w + int n\<rparr>)"

lemma createContribution_grows:
  assumes "contributions_ok w" "quiet E" "ce_others E = id"
  shows "contributions_ok (snd (createContribution E d key w)) \<and> grows w (snd (createContribution E d key w))"
proof (cases "first_request key w")
  case True
  obtain r w' where run: "createContribution E d key w = (r, w')" by fastforce
  show ?thesis
  proof (cases r)
    case (Inl e)
    let ?w0 = "if truthy key then acquire (lock_key (the key)) w else w"
    obtain v where v: "guarded_contribution E d key ?w0 = (r, v)"
      and w': "w' = (if truthy key then release (lock_key (the key)) v else v)"
      using createContribution_first [OF True run] by blast
    have "v = ?w0" by (rule guarded_contribution_result(1) [OF _ assms(2) v Inl]) (use assms(1) in simp)
    then have "contributions w' = contributions w" "uuid_count w' = uuid_count w" using w' by simp_all
    then show ?thesis using run assms(1) contributions_ok_cong [of w' w] by (simp add: grows_def)
  next
    case (Inr c)
    from createContribution_Inr [OF assms(1,2) True] run Inr have rec: "recorded E d key w c w'" by simp
    then have "contributions w' = contributions w @ [c]" unfolding recorded_def by blast
    with recorded_ok [OF assms(1) rec] run show ?thesis by (simp add: grows_def)
  qed
next
  case False
  have nap: "contributions ((nap id ^^ n) v) = contributions v \<and> uuid_count ((nap id ^^ n) v) = uuid_count v" for n v
    by (induction n) (simp_all add: sleep_def Let_def)
  have wait: "contributions (snd (waitForInFlight id i v)) = contributions v \<and>
      uuid_count (snd (waitForInFlight id i v)) = uuid_count v" for i v
    using waitForInFlight_naps [of id i v] nap by metis
  have "contributions (snd (createContribution E d key w)) = contributions w \<and>
      uuid_count (snd (createContribution E d key w)) = uuid_count w"
    using False nap [of 1 w]
    by (auto simp: createContribution_def first_request_def Let_def assms(3) wait split: option.splits)
  then show ?thesis using assms(1) contributions_ok_cong by (simp add: grows_def)
qed

lemma deposit_exec_step:
  assumes "contributions_ok w"
  shows "contributions_ok (deposit_exec op w) \<and> grows w (deposit_exec op w)"
proof -
  have same: ?thesis if "map static_part (contributions (deposit_exec op w)) = map static_part (contributions w)"
    "uuid_count w \<le> uuid_count (deposit_exec op w)"
    using that contributions_ok_cong [OF that assms] grows_same by blast
  show ?thesis
  proof (cases op)
    case (Create E d key)
    then show ?thesis
      using createContribution_grows [OF assms, of "E\<lparr>ce_ignored := [], ce_others := id\<rparr>"] by (simp add: deposit_exec_def quiet_def)
  next
    case (Confirm chain j)
    let ?k = "''tx_confirm:'' @ j_transactionHash j"
    obtain r v where run: "pollUntilTerminal chain id (j_contributionId j) (j_transactionHash j) (j_userId j) (j_deadline j)
        (acquire ?k w) = (r, v)" by fastforce
    from pollUntilTerminal_frame [OF this refl] run Confirm show ?thesis
      by (intro same) (auto simp: deposit_exec_def process_tx_confirmation_def Let_def)
  next
    case (Sweep chain ms)
    have "map static_part (contributions (reconcileStuckContributions chain ms w)) = map static_part (contributions w)"
      by (simp add: reconcile_rows [OF assms])
    moreover have "uuid_count (reconcile_each chain cs w) = uuid_count w" for cs
      by (induction cs arbitrary: w) (simp_all split: option.split)
    ultimately show ?thesis using Sweep
      by (intro same) (simp_all add: deposit_exec_def reconcileStuckContributions_def)
  next
    case (Elapse n)
    then show ?thesis by (intro same) (simp_all add: deposit_exec_def)
  qed
qed

interpretation deposits: monotone_machine deposit_exec contributions_ok grows
proof unfold_locales
  show "grows s s" for s by (simp add: grows_def)
  show "grows s t \<Longrightarrow> grows t u \<Longrightarrow> grows s u" for s t u by (auto simp: grows_def)
qed (use deposit_exec_step in blast)+

text \<open>
  C4: Deposits are append-only and never counted twice. In every run of requests (repeated or
  concurrent keys included), confirmation jobs and reconciliations, a stored contribution keeps
  everything but its status and update date and is never removed, and no two contributions ever
  have the same transaction, the same key, or the same user, group and round.
\<close>

theorem contributions_append_only:
  assumes "contributions_ok w"
  shows "contributions_ok (fold deposit_exec ops w) \<and>
    (\<exists>new. map static_part (contributions (fold deposit_exec ops w)) = map static_part (contributions w) @ new)"
  using deposits.run_inv [OF assms] deposits.run_le [OF assms] unfolding grows_def by blast

text \<open>
  Anybody may contribute. A user without a membership in the group, when the verification is
  switched off, can record a contribution for the current round; only a suspended membership is
  refused.
\<close>

theorem outsider_can_contribute:
  assumes "contributions_ok w" "quiet E" "find_group (cd_groupId d) w = Some g" "g_status g = GS_ACTIVE"
    and "g_startDate g = None" "g_endDate g = None" "cd_roundNumber d = g_currentRound g"
    and "find_membership (cd_groupId d) (cd_userId d) w = None" "\<not> ce_verify E" "ce_maintenance E (cd_groupId d) = None"
    and "\<exists>u \<in> set (users w). u_id u = cd_userId d"
    and "\<forall>x \<in> set (contributions w). \<not> conflicts (new_contribution d None g None w) x"
  shows "is_ok (fst (createContribution E d None w))"
proof -
  have valid: "validate_contribution E d w = Inr g"
    using assms by (simp add: validate_contribution_def validate_window_def)
  let ?c = "new_contribution d None g None w"
  have group: "g \<in> set (groups w)" "g_id g = cd_groupId d" using find_groupD [OF assms(3)] by simp_all
  have ins: "insert_or_ignore (ce_ignored E) ?c w = (Inr [Some (c_id ?c)], (tick_uuid w)\<lparr>contributions := contributions w @ [?c]\<rparr>)"
    using group assms(11,12) by (auto simp: insert_or_ignore_def)
  have "find_contribution (c_id ?c) ((tick_uuid w)\<lparr>contributions := contributions w @ [?c]\<rparr>) \<noteq> None"
    by (simp add: find_contribution_def find_None_all)
  then have "is_ok (fst (persist_contribution E ?c w))"
    by (auto simp: persist_contribution_def ins Let_def simp del: new_contribution_simps)
  then show ?thesis
    using valid assms(9)
    by (auto simp: createContribution_def guarded_contribution_def record_contribution_def verify_contribution_def
        split: prod.splits sum.splits)
qed


subsection \<open>Witnesses\<close>

definition demo_env :: "int contribution_env" where
  "demo_env = \<lparr>ce_maintenance = (\<lambda>_. None), ce_verify = True, ce_isContribution = (\<lambda>_ _. Inr True),
     ce_txAmount = (\<lambda>_. Inr \<lparr>td_amount = ''100.5'', td_assetCode = ''xlm'', td_assetIssuer = None\<rparr>), ce_fx = demo_fx,
     ce_decimals = demo_decimals, ce_pay = demo_pay, ce_path = demo_path, ce_crash = False,
     ce_confirmationTimeout = 120000, ce_ignored = [], ce_queue = True, ce_others = id\<rparr>"

definition demo_deposit :: create_contribution_dto where
  "demo_deposit = \<lparr>cd_groupId = ''g'', cd_userId = ''u1'', cd_walletAddress = ''w1'', cd_roundNumber = 1,
     cd_amount = ''100.5'', cd_transactionHash = ''tx1'', cd_timestamp = 0\<rparr>"


definition demo_stored :: "contribution_status \<Rightarrow> world" where
  "demo_stored s = demo_active\<lparr>contributions := [(new_contribution demo_deposit (Some ''k1'') demo_group None demo_active)
     \<lparr>c_id := ''1'', c_status := s\<rparr>], now := 200000\<rparr>"

lemma demo_deposit_ok: "contributions_ok demo_active" "quiet demo_env" "first_request (Some ''k1'') demo_active"
  by (simp add: contributions_ok_def demo_defs, simp add: quiet_def demo_env_def,
      simp add: first_request_def find_contribution_by_key_def demo_defs)

lemma demo_deposit_accepted:
  "\<exists>c. createContribution demo_env demo_deposit (Some ''k1'') demo_active
     = (Inr c, snd (createContribution demo_env demo_deposit (Some ''k1'') demo_active))"
proof -
  have "is_ok (fst (createContribution demo_env demo_deposit (Some ''k1'') demo_active))" by code_simp
  then obtain c where "fst (createContribution demo_env demo_deposit (Some ''k1'') demo_active) = Inr c"
    by (auto simp only: is_ok_iff)
  from outcome_run [OF this] show ?thesis by blast
qed

theorem createContribution_records_witness:
  "\<exists>c. contributions (snd (createContribution demo_env demo_deposit (Some ''k1'') demo_active)) = contributions demo_active @ [c] \<and>
     c_status c = CS_ON_CHAIN_SUBMITTED"
  using demo_deposit_accepted createContribution_records [OF demo_deposit_ok] by blast

theorem new_contribution_not_in_payout_witness:
  "computePayoutAmount demo_decimals ''g'' 1 demo_group (snd (createContribution demo_env demo_deposit (Some ''k1'') demo_active))
     = computePayoutAmount demo_decimals ''g'' 1 demo_group demo_active"
  using demo_deposit_accepted new_contribution_not_in_payout [OF demo_deposit_ok] by blast



theorem createContribution_releases_lock_witness:
  "inflight_locks (snd (createContribution demo_env demo_deposit (Some ''k1'') demo_active)) = []"
proof -
  have "\<forall>v. inflight_locks (ce_others demo_env v) = inflight_locks v" by (simp add: demo_env_def)
  from createContribution_releases_lock [OF demo_deposit_ok(1,2) this] show ?thesis by (simp add: demo_defs)
qed

lemma demo_stored_ok: "contributions_ok (demo_stored s)"
  by (cases s; simp only:; code_simp)

theorem reconcile_correct_witness:
  "map c_status (contributions (reconcileStuckContributions (\<lambda>_. Inr ST_CONFIRMED) 60000 (demo_stored CS_ON_CHAIN_SUBMITTED)))
     = [CS_CONFIRMED]"
  unfolding reconcile_correct [OF demo_stored_ok] by code_simp

theorem late_confirmation_job_fails_contribution_witness:
  "\<exists>c \<in> set (contributions (snd (process_tx_confirmation (\<lambda>_ _. Inr ST_CONFIRMED) id
      \<lparr>j_contributionId = ''1'', j_transactionHash = ''tx1'', j_userId = ''u1'', j_deadline = 120000\<rparr> (demo_stored CS_CONFIRMED)))).
     c_status c = CS_FAILED"
proof -
  let ?j = "\<lparr>j_contributionId = ''1'', j_transactionHash = ''tx1'', j_userId = ''u1'', j_deadline = 120000\<rparr>"
  let ?c = "(new_contribution demo_deposit (Some ''k1'') demo_group None demo_active)\<lparr>c_id := ''1'', c_status := CS_CONFIRMED\<rparr>"
  have "?c \<in> set (contributions (demo_stored CS_CONFIRMED))" by (simp add: demo_stored_def)
  from late_confirmation_job_fails_contribution [OF demo_stored_ok this, of ?j "\<lambda>_ _. Inr ST_CONFIRMED" id]
  show ?thesis by (auto simp: demo_stored_def demo_defs)
qed

theorem contributions_append_only_witness:
  "contributions_ok (fold deposit_exec [Create demo_env demo_deposit (Some ''k1''), Elapse 500,
     Create demo_env demo_deposit (Some ''k1''), Sweep (\<lambda>_. Inr ST_CONFIRMED) 60000] demo_active)"
  using contributions_append_only [OF demo_deposit_ok(1)] by blast

theorem outsider_can_contribute_witness:
  "is_ok (fst (createContribution (demo_env\<lparr>ce_verify := False\<rparr>) (demo_deposit\<lparr>cd_userId := ''u4''\<rparr>) None demo_active))"
proof (rule outsider_can_contribute)
  show "find_group (cd_groupId (demo_deposit\<lparr>cd_userId := ''u4''\<rparr>)) demo_active
      = Some (demo_group\<lparr>g_status := GS_ACTIVE, g_currentRound := 1\<rparr>)" by code_simp
  show "find_membership (cd_groupId (demo_deposit\<lparr>cd_userId := ''u4''\<rparr>)) (cd_userId (demo_deposit\<lparr>cd_userId := ''u4''\<rparr>)) demo_active = None"
    by code_simp
qed (use demo_deposit_ok in \<open>simp_all add: quiet_def demo_env_def demo_deposit_def demo_defs\<close>)


end
