(* ===== verification/Penalties.thy ===== *)
theory Penalties
  imports Payouts
begin

text \<open>
  \<open>PenaltyService\<close> (\<open>penalties/services/penalty.service.ts\<close>) and \<open>PenaltyAssessmentJob\<close>
  (\<open>penalties/services/penalty-assessment.job.ts\<close>): assessing, waiving, paying and disputing the
  penalties for missed contributions. The service calls \<open>notificationsService.sendNotification\<close>,
  a method the class \<open>NotificationsService\<close> does not have, so the call throws a TypeError.
  \<open>decimal.js\<close> is the record \<open>penalty_ops\<close>, where \<open>dec_rate\<close> is the decimal of a rate in
  ten-thousandths and \<open>dec_int\<close> that of an integer.
\<close>

record 'd penalty_ops = "'d decimal_ops" +
  dec_rate :: "int \<Rightarrow> 'd"
  dec_int :: "int \<Rightarrow> 'd"

definition find_penalty :: "uuid \<Rightarrow> world \<Rightarrow> penalty option" where
  "find_penalty i w = List.find (\<lambda>p. p_id p = i) (penalties w)"

definition save_penalty :: "penalty \<Rightarrow> world \<Rightarrow> world" where
  "save_penalty p w = w\<lparr>penalties := save_row p_id p (penalties w)\<rparr>"

definition createLog :: "uuid \<Rightarrow> string \<Rightarrow> string \<Rightarrow> world \<Rightarrow> world" where
  "createLog uid action resource w =
     w\<lparr>audit_log := audit_log w @ [\<lparr>a_userId = uid, a_action = action, a_resource = resource\<rparr>]\<rparr>"

definition sendNotification_missing :: exn where
  "sendNotification_missing = TypeError ''this.notificationsService.sendNotification is not a function''"

definition calculatePenaltyAmount :: "'d penalty_ops \<Rightarrow> string \<Rightarrow> int \<Rightarrow> int \<Rightarrow> string" where
  "calculatePenaltyAmount D contributionAmount penaltyRate daysLate =
     dec_toFixed7 D (dec_times D (dec_times D (dec_of D contributionAmount) (dec_rate D penaltyRate)) (dec_int D daysLate))"

definition calculateDaysLate :: "rosca_group \<Rightarrow> int \<Rightarrow> int" where
  "calculateDaysLate g roundNumber = 1"

definition contributed :: "uuid \<Rightarrow> int \<Rightarrow> uuid \<Rightarrow> world \<Rightarrow> bool" where
  "contributed gid round uid w \<longleftrightarrow>
     (\<exists>c \<in> set (contributions w). c_userId c = uid \<and> c_groupId c = gid \<and> c_roundNumber c = round)"

definition penalized :: "uuid \<Rightarrow> int \<Rightarrow> uuid \<Rightarrow> world \<Rightarrow> bool" where
  "penalized gid round uid w \<longleftrightarrow>
     (\<exists>p \<in> set (penalties w). p_userId p = uid \<and> p_groupId p = gid \<and> p_roundNumber p = round)"

definition new_penalty :: "'d penalty_ops \<Rightarrow> rosca_group \<Rightarrow> int \<Rightarrow> uuid \<Rightarrow> world \<Rightarrow> penalty" where
  "new_penalty D g round uid w =
     \<lparr>p_id = fresh_uuid w, p_groupId = g_id g, p_userId = uid, p_roundNumber = round,
      p_amount = calculatePenaltyAmount D (g_contributionAmount g) (g_penaltyRate g) (calculateDaysLate g round),
      p_assetCode = g_assetCode g, p_dueAt = now w + 7 * 24 * 60 * 60 * 1000, p_paidAt = None,
      p_status = PS_PENDING, p_waiverReason = None, p_waivedByUserId = None, p_waivedAt = None,
      p_disputeReason = None, p_disputeTxHash = None, p_disputedAt = None, p_resolutionNotes = None,
      p_resolvedByUserId = None, p_resolvedAt = None\<rparr>"

text \<open>The loop over the members. The notification throws right after the first new penalty.\<close>

fun assess_members :: "'d penalty_ops \<Rightarrow> rosca_group \<Rightarrow> int \<Rightarrow> int \<Rightarrow> membership list \<Rightarrow> int io" where
  "assess_members D g round n [] w = (Inr n, w)"
| "assess_members D g round n (m # ms) w =
     (if contributed (g_id g) round (m_userId m) w then assess_members D g round n ms w
      else if penalized (g_id g) round (m_userId m) w then assess_members D g round n ms w
      else (Inl sendNotification_missing,
            (tick_uuid w)\<lparr>penalties := penalties w @ [new_penalty D g round (m_userId m) w]\<rparr>))"

definition assessPenaltiesForRound :: "'d penalty_ops \<Rightarrow> uuid \<Rightarrow> int \<Rightarrow> int io" where
  "assessPenaltiesForRound D gid round w =
     (case find_group gid w of
        None \<Rightarrow> (Inl (JsError (''Group '' @ gid @ '' not found'')), w)
      | Some g \<Rightarrow> assess_members D g round 0 (group_members gid w) w)"

text \<open>The job: one group after the other; an error is logged and the group not counted.\<close>

fun assess_groups :: "'d penalty_ops \<Rightarrow> rosca_group list \<Rightarrow> int \<Rightarrow> int \<Rightarrow> world \<Rightarrow> (int \<times> int) \<times> world" where
  "assess_groups D [] processed totalPenalties w = ((processed, totalPenalties), w)"
| "assess_groups D (g # gs) processed totalPenalties w =
     (case assessPenaltiesForRound D (g_id g) (g_currentRound g) w of
        (Inl e, w1) \<Rightarrow> assess_groups D gs processed totalPenalties w1
      | (Inr n, w1) \<Rightarrow> assess_groups D gs (processed + 1) (totalPenalties + n) w1)"

definition assessPenalties :: "'d penalty_ops \<Rightarrow> world \<Rightarrow> (int \<times> int) \<times> world" where
  "assessPenalties D w =
     assess_groups D (filter (\<lambda>g. g_status g = GS_ACTIVE \<and> g_deletedAt g = None) (groups w)) 0 0 w"

fun show_penalty_status :: "penalty_status \<Rightarrow> string" where
  "show_penalty_status PS_PENDING = ''PENDING''"
| "show_penalty_status PS_PAID = ''PAID''"
| "show_penalty_status PS_WAIVED = ''WAIVED''"
| "show_penalty_status PS_DISPUTED = ''DISPUTED''"
| "show_penalty_status PS_REJECTED = ''REJECTED''"

definition waivePenalty :: "uuid \<Rightarrow> string \<Rightarrow> uuid \<Rightarrow> penalty io" where
  "waivePenalty i waiverReason adminUserId w =
     (case find_penalty i w of
        None \<Rightarrow> (Inl (BadRequestException (''Penalty '' @ i @ '' not found'')), w)
      | Some p \<Rightarrow>
          if p_status p \<noteq> PS_PENDING
          then (Inl (BadRequestException (''Cannot waive penalty with status '' @ show_penalty_status (p_status p)
                  @ ''. Only PENDING penalties can be waived.'')), w)
          else (Inl sendNotification_missing,
                save_penalty (p\<lparr>p_status := PS_WAIVED, p_waiverReason := Some waiverReason,
                  p_waivedByUserId := Some adminUserId, p_waivedAt := Some (now w)\<rparr>) w))"

definition getPendingPenalties :: "uuid \<Rightarrow> uuid \<Rightarrow> world \<Rightarrow> penalty list" where
  "getPendingPenalties uid gid w =
     sort_key p_dueAt (filter (\<lambda>p. p_userId p = uid \<and> p_groupId p = gid \<and> p_status p = PS_PENDING) (penalties w))"

fun pay_each :: "'d penalty_ops \<Rightarrow> 'd \<Rightarrow> penalty list \<Rightarrow> world \<Rightarrow> 'd \<times> penalty list \<times> world" where
  "pay_each D totalDeduction [] w = (totalDeduction, [], w)"
| "pay_each D totalDeduction (p # ps) w =
     (let p' = p\<lparr>p_status := PS_PAID, p_paidAt := Some (now w)\<rparr>
      in case pay_each D (dec_plus D totalDeduction (dec_of D (p_amount p))) ps (save_penalty p' w) of
           (t, applied, w1) \<Rightarrow> (t, p' # applied, w1))"

definition deductPenaltiesFromContribution ::
  "'d penalty_ops \<Rightarrow> uuid \<Rightarrow> uuid \<Rightarrow> world \<Rightarrow> (string \<times> penalty list) \<times> world" where
  "deductPenaltiesFromContribution D uid gid w =
     (let pending = getPendingPenalties uid gid w
      in if pending = [] then ((''0'', []), w)
         else case pay_each D (dec_int D 0) pending w of
                (totalDeduction, applied, w1) \<Rightarrow> ((dec_toFixed7 D totalDeduction, applied), w1))"

definition disputePenalty :: "uuid \<Rightarrow> uuid \<Rightarrow> string \<Rightarrow> string option \<Rightarrow> penalty io" where
  "disputePenalty i uid reason txHash w =
     (case find_penalty i w of
        None \<Rightarrow> (Inl (NotFoundException (''Penalty '' @ i @ '' not found'')), w)
      | Some p \<Rightarrow>
          if p_userId p \<noteq> uid
          then (Inl (ForbiddenException ''You can only dispute your own penalties''), w)
          else if p_status p \<noteq> PS_PENDING
          then (Inl (BadRequestException (''Cannot dispute penalty with status '' @ show_penalty_status (p_status p))), w)
          else let p' = p\<lparr>p_status := PS_DISPUTED, p_disputeReason := Some reason, p_disputeTxHash := txHash,
                          p_disputedAt := Some (now w)\<rparr>;
                   w2 = createLog uid ''PENALTY_DISPUTE_SUBMITTED'' ''Penalty'' (save_penalty p' w);
                   admin = (case find_group (p_groupId p) w2 of None \<Rightarrow> None
                            | Some g \<Rightarrow> map_option (Pair g) (find_membership_by_wallet (g_id g) (g_adminWallet g) w2))
               in case admin of
                    None \<Rightarrow> (Inr p', w2)
                  | Some (g, a) \<Rightarrow>
                      (case notifyBatch [plain_dto (m_userId a) PENALTY_DISPUTED ''Penalty Disputed''
                               (''Member has disputed a penalty in group '' @ g_name g)] w2 of
                         (Inl e, w3) \<Rightarrow> (Inl e, w3)
                       | (Inr _, w3) \<Rightarrow> (Inr p', w3)))"

datatype penalty_resolution = WAIVE | REJECT

fun show_resolution :: "penalty_resolution \<Rightarrow> string" where
  "show_resolution WAIVE = ''WAIVE''"
| "show_resolution REJECT = ''REJECT''"

text \<open>The membership of \<open>adminUserId\<close> is read and compared, but the branch of a stranger is empty.\<close>

definition resolveDispute :: "uuid \<Rightarrow> uuid \<Rightarrow> penalty_resolution \<Rightarrow> string \<Rightarrow> penalty io" where
  "resolveDispute i adminUserId resolution notes w =
     (case find_penalty i w of
        None \<Rightarrow> (Inl (NotFoundException (''Penalty '' @ i @ '' not found'')), w)
      | Some p \<Rightarrow>
          if p_status p \<noteq> PS_DISPUTED
          then (Inl (BadRequestException ''Penalty is not in DISPUTED status''), w)
          else (case find_group (p_groupId p) w of
              None \<Rightarrow> (Inl (NotFoundException ''Group not found''), w)
            | Some g \<Rightarrow>
                let p' = p\<lparr>p_status := (case resolution of WAIVE \<Rightarrow> PS_WAIVED | REJECT \<Rightarrow> PS_REJECTED),
                           p_resolutionNotes := Some notes, p_resolvedByUserId := Some adminUserId,
                           p_resolvedAt := Some (now w)\<rparr>;
                    w2 = createLog adminUserId ''PENALTY_DISPUTE_RESOLVED'' ''Penalty'' (save_penalty p' w)
                in case notifyBatch [plain_dto (p_userId p) PENALTY_RESOLVED ''Penalty Dispute Resolved''
                          (''Your penalty dispute in group '' @ g_name g @ '' has been ''
                           @ toLowerCase (show_resolution resolution) @ ''d'')] w2 of
                     (Inl e, w3) \<Rightarrow> (Inl e, w3)
                   | (Inr _, w3) \<Rightarrow> (Inr p', w3)))"

lemmas penalty_handlers [handler_defs] =
  assessPenaltiesForRound_def waivePenalty_def deductPenaltiesFromContribution_def disputePenalty_def resolveDispute_def

subsection \<open>Assessing\<close>

definition penalties_ok :: "world \<Rightarrow> bool" where
  "penalties_ok w \<longleftrightarrow> distinct (map p_id (penalties w)) \<and> (\<forall>p \<in> set (penalties w). used_uuid w (p_id p)) \<and>
     distinct (map (\<lambda>p. (p_userId p, p_groupId p, p_roundNumber p)) (penalties w))"

text \<open>The members of a group that owe a penalty for a round and have none yet.\<close>

definition owing :: "uuid \<Rightarrow> int \<Rightarrow> world \<Rightarrow> membership list" where
  "owing gid round w =
     filter (\<lambda>m. \<not> contributed gid round (m_userId m) w \<and> \<not> penalized gid round (m_userId m) w) (group_members gid w)"

lemma assess_members_result:
  "assess_members D g round n ms w =
    (case filter (\<lambda>m. \<not> contributed (g_id g) round (m_userId m) w \<and> \<not> penalized (g_id g) round (m_userId m) w) ms of
       [] \<Rightarrow> (Inr n, w)
     | m # _ \<Rightarrow> (Inl sendNotification_missing,
          (tick_uuid w)\<lparr>penalties := penalties w @ [new_penalty D g round (m_userId m) w]\<rparr>))"
  by (induction ms) simp_all

lemma assess_result:
  assumes "find_group gid w = Some g"
  shows "assessPenaltiesForRound D gid round w =
    (case owing gid round w of
       [] \<Rightarrow> (Inr 0, w)
     | m # _ \<Rightarrow> (Inl sendNotification_missing,
          (tick_uuid w)\<lparr>penalties := penalties w @ [new_penalty D g round (m_userId m) w]\<rparr>))"
  using assms find_groupD [OF assms]
  by (simp add: assessPenaltiesForRound_def assess_members_result owing_def)

lemma new_penalty_simps [simp]:
  "p_id (new_penalty D g round uid w) = fresh_uuid w" "p_userId (new_penalty D g round uid w) = uid"
  "p_groupId (new_penalty D g round uid w) = g_id g" "p_roundNumber (new_penalty D g round uid w) = round"
  "p_status (new_penalty D g round uid w) = PS_PENDING"
  by (simp_all add: new_penalty_def)

lemma owing_after:
  assumes "keys_ok w" "find_group gid w = Some g" "owing gid round w = m # ms"
  shows "owing gid round (snd (assessPenaltiesForRound D gid round w)) = ms"
proof -
  let ?w1 = "(tick_uuid w)\<lparr>penalties := penalties w @ [new_penalty D g round (m_userId m) w]\<rparr>"
  have w1: "snd (assessPenaltiesForRound D gid round w) = ?w1" by (simp add: assess_result [OF assms(2)] assms(3))
  have gid: "g_id g = gid" using find_groupD [OF assms(2)] by simp
  have mem: "m \<in> set (memberships w)" "m_groupId m = gid"
    using arg_cong [OF assms(3), of set] by (auto simp: owing_def)
  have "distinct (owing gid round w)"
    using assms(1) by (simp add: keys_ok_def owing_def group_members_def distinct_map)
  then have notin: "m \<notin> set ms" using assms(3) by simp
  have same: "x = m" if "x \<in> set (group_members gid w)" "m_userId x = m_userId m" for x
    using membership_by_user [OF assms(1) _ mem(1), of x] that mem by simp
  have "owing gid round ?w1 = filter (\<lambda>x. m_userId x \<noteq> m_userId m) (owing gid round w)"
    unfolding owing_def filter_filter
    by (rule filter_cong)
      (auto simp: contributed_def penalized_def group_members_def tick_uuid_def gid)
  also have "\<dots> = filter (\<lambda>x. x \<noteq> m) (m # ms)"
    using same unfolding assms(3) [symmetric] by (intro filter_cong) (auto simp: owing_def)
  also have "\<dots> = ms" using notin by (auto intro: filter_True)
  finally show ?thesis by (simp add: w1)
qed

text \<open>
  One run of the assessment penalizes at most one member. When somebody owes a penalty, the
  first such member in the table gets a PENDING one and the call then throws, because the method
  it notifies with does not exist; otherwise it returns 0 and changes nothing.
\<close>

theorem assess_one_per_call:
  assumes "find_group gid w = Some g" "assessPenaltiesForRound D gid round w = (r, w')"
  shows "(owing gid round w = [] \<longrightarrow> r = Inr 0 \<and> w' = w) \<and>
    (\<forall>m ms. owing gid round w = m # ms \<longrightarrow> r = Inl sendNotification_missing \<and>
       penalties w' = penalties w @ [new_penalty D g round (m_userId m) w])"
  using assms(2) unfolding assess_result [OF assms(1)] by (auto split: list.splits)

text \<open>
  Repeating the assessment reaches everybody. After as many runs as there are members that
  owe a penalty, nobody owes one, and every one of them has a penalty for the round.
\<close>

theorem assess_reaches_all:
  assumes "keys_ok w" "find_group gid w = Some g"
  shows "owing gid round (((\<lambda>v. snd (assessPenaltiesForRound D gid round v)) ^^ length (owing gid round w)) w) = []"
  using assms
proof (induction "length (owing gid round w)" arbitrary: w g)
  case 0
  then show ?case by simp
next
  case (Suc n)
  then obtain m ms where own: "owing gid round w = m # ms" by (cases "owing gid round w") auto
  let ?w1 = "snd (assessPenaltiesForRound D gid round w)"
  have w1: "?w1 = (tick_uuid w)\<lparr>penalties := penalties w @ [new_penalty D g round (m_userId m) w]\<rparr>"
    by (simp add: assess_result [OF Suc.prems(2)] own)
  have "owing gid round ?w1 = ms" by (rule owing_after [OF Suc.prems own])
  moreover have "keys_ok ?w1" unfolding w1 by (rule keys_ok_cong [OF _ _ _ _ Suc.prems(1)]) (simp_all add: tick_uuid_def)
  moreover have "find_group gid ?w1 = Some g" using Suc.prems(2) by (simp add: w1 find_group_def tick_uuid_def)
  ultimately have "owing gid round (((\<lambda>v. snd (assessPenaltiesForRound D gid round v)) ^^ length ms) ?w1) = []"
    using Suc.hyps(1) [of ?w1 g] Suc.hyps(2) own by simp
  then show ?case by (simp add: own funpow_Suc_right del: funpow.simps)
qed

subsection \<open>The life of a penalty\<close>

inductive penalty_step :: "penalty_status \<Rightarrow> penalty_status \<Rightarrow> bool" where
  pay: "penalty_step PS_PENDING PS_PAID"
| waive: "penalty_step PS_PENDING PS_WAIVED"
| dispute: "penalty_step PS_PENDING PS_DISPUTED"
| accept: "penalty_step PS_DISPUTED PS_WAIVED"
| reject: "penalty_step PS_DISPUTED PS_REJECTED"

inductive_cases from_paid [elim!]: "penalty_step PS_PAID s"
inductive_cases from_waived [elim!]: "penalty_step PS_WAIVED s"
inductive_cases from_rejected [elim!]: "penalty_step PS_REJECTED s"
inductive_simps penalty_step_iff: "penalty_step s t"

lemma closed_is_final:
  assumes "penalty_step\<^sup>*\<^sup>* s t" "s = PS_PAID \<or> s = PS_WAIVED \<or> s = PS_REJECTED"
  shows "t = s"
  using assms by (induction rule: converse_rtranclp_induct) auto

text \<open>The same debt: everything that makes it up is the same in both rows.\<close>

definition debt :: "penalty \<Rightarrow> uuid \<times> uuid \<times> uuid \<times> int \<times> string \<times> string \<times> time" where
  "debt p = (p_id p, p_userId p, p_groupId p, p_roundNumber p, p_amount p, p_assetCode p, p_dueAt p)"

lemma debt_eq: "debt p' = debt p \<Longrightarrow> p_id p' = p_id p \<and> p_userId p' = p_userId p \<and> p_groupId p' = p_groupId p \<and>
    p_roundNumber p' = p_roundNumber p"
  by (simp add: debt_def)

definition progress :: "world \<Rightarrow> world \<Rightarrow> bool" where
  "progress w w' \<longleftrightarrow> (\<forall>p \<in> set (penalties w). \<exists>p' \<in> set (penalties w').
     debt p' = debt p \<and> penalty_step\<^sup>*\<^sup>* (p_status p) (p_status p'))"

lemma progress_refl [simp]: "progress w w"
  by (auto simp: progress_def)

lemma progress_trans:
  assumes "progress w v" "progress v u"
  shows "progress w u"
  unfolding progress_def
proof
  fix p assume "p \<in> set (penalties w)"
  then obtain q where q: "q \<in> set (penalties v)" "debt q = debt p" "penalty_step\<^sup>*\<^sup>* (p_status p) (p_status q)"
    using assms(1) unfolding progress_def by blast
  then obtain r where "r \<in> set (penalties u)" "debt r = debt q" "penalty_step\<^sup>*\<^sup>* (p_status q) (p_status r)"
    using assms(2) unfolding progress_def by blast
  with q show "\<exists>p' \<in> set (penalties u). debt p' = debt p \<and> penalty_step\<^sup>*\<^sup>* (p_status p) (p_status p')"
    by (intro bexI [of _ r]) auto
qed

lemma penalties_ok_cong:
  assumes "map debt (penalties w') = map debt (penalties w)" "uuid_count w \<le> uuid_count w'" "penalties_ok w"
  shows "penalties_ok w'"
proof -
  have same: "map f (penalties w') = map f (penalties w)" if "\<And>p. f p = g (debt p)" for f :: "penalty \<Rightarrow> 'z" and g
  proof -
    have "f = g \<circ> debt" using that by (simp add: fun_eq_iff)
    with arg_cong [OF assms(1), of "map g"] show ?thesis by (simp add: comp_def)
  qed
  have ids: "map p_id (penalties w') = map p_id (penalties w)"
    by (rule same [of _ fst]) (simp add: debt_def)
  have keys: "map (\<lambda>p. (p_userId p, p_groupId p, p_roundNumber p)) (penalties w') =
      map (\<lambda>p. (p_userId p, p_groupId p, p_roundNumber p)) (penalties w)"
    by (rule same [of _ "\<lambda>(i, u, g, r, x). (u, g, r)"]) (simp add: debt_def)
  have "used_uuid w' (p_id p)" if "p \<in> set (penalties w')" for p
  proof -
    have "p_id p \<in> p_id ` set (penalties w)" using that arg_cong [OF ids, of set] by auto
    with assms(3) have "used_uuid w (p_id p)" by (auto simp: penalties_ok_def)
    then show ?thesis using assms(2) by (rule used_uuid_mono)
  qed
  with ids keys assms(3) show ?thesis by (simp add: penalties_ok_def)
qed

text \<open>Saving a stored penalty with another status.\<close>

lemma save_penalty_step:
  assumes "penalties_ok w" "p \<in> set (penalties w)" "debt p' = debt p"
  shows "penalties_ok (save_penalty p' w)"
    and "penalty_step\<^sup>*\<^sup>* (p_status p) (p_status p') \<Longrightarrow> progress w (save_penalty p' w)"
proof -
  have key: "p_id p' = p_id p" using debt_eq [OF assms(3)] by simp
  have same: "x = p" if "x \<in> set (penalties w)" "p_id x = p_id p" for x
    using assms(1,2) that by (auto simp: penalties_ok_def distinct_map dest: inj_onD)
  have rows: "penalties (save_penalty p' w) = map (\<lambda>x. if p_id x = p_id p then p' else x) (penalties w)"
    using assms(2) by (simp add: save_penalty_def save_row_def key)
  have "map debt (penalties (save_penalty p' w)) = map debt (penalties w)"
    using same by (auto simp: rows assms(3))
  then show "penalties_ok (save_penalty p' w)"
    by (rule penalties_ok_cong [OF _ _ assms(1)]) (simp add: save_penalty_def)
  show "progress w (save_penalty p' w)" if "penalty_step\<^sup>*\<^sup>* (p_status p) (p_status p')"
    unfolding progress_def
  proof
    fix x assume x: "x \<in> set (penalties w)"
    show "\<exists>y \<in> set (penalties (save_penalty p' w)). debt y = debt x \<and> penalty_step\<^sup>*\<^sup>* (p_status x) (p_status y)"
    proof (cases "p_id x = p_id p")
      case True
      have "p' \<in> set (penalties (save_penalty p' w))" using assms(2) by (auto simp: rows)
      with same [OF x True] that assms(3) show ?thesis by blast
    next
      case False
      then have "x \<in> set (penalties (save_penalty p' w))" using x by (auto simp: rows)
      then show ?thesis by blast
    qed
  qed
qed

lemma penalties_same:
  assumes "penalties w' = penalties w" "uuid_count w \<le> uuid_count w'"
  shows "penalties_ok w \<Longrightarrow> penalties_ok w'" and "progress w w'" and "progress v w \<Longrightarrow> progress v w'"
  using penalties_ok_cong [of w' w] assms by (auto simp: progress_def)

lemma find_penaltyD: "find_penalty i w = Some p \<Longrightarrow> p \<in> set (penalties w) \<and> p_id p = i"
  by (auto simp: find_penalty_def dest: find_Some_mem)

lemma createLog_frame [simp]:
  "penalties (createLog u a r w) = penalties w" "uuid_count (createLog u a r w) = uuid_count w"
  "groups (createLog u a r w) = groups w" "memberships (createLog u a r w) = memberships w" "now (createLog u a r w) = now w"
  by (simp_all add: createLog_def)

definition good_step :: "world \<Rightarrow> world \<Rightarrow> bool" where
  "good_step w w' \<longleftrightarrow> penalties_ok w' \<and> progress w w'"

lemma good_step_refl: "penalties_ok w \<Longrightarrow> good_step w w"
  by (simp add: good_step_def)

lemma good_step_trans: "good_step w v \<Longrightarrow> good_step v u \<Longrightarrow> good_step w u"
  by (auto simp: good_step_def intro: progress_trans)

lemma good_step_batch:
  assumes "penalties_ok w" "good_step w (save_penalty p w)"
  shows "good_step w (snd (notifyBatch ds (createLog u a r (save_penalty p w))))" "good_step w (createLog u a r (save_penalty p w))"
proof -
  have "same_tables (createLog u a r (save_penalty p w)) (snd (notifyBatch ds (createLog u a r (save_penalty p w))))"
    by (rule notifyBatch_frame [OF prod.collapse [symmetric]])
  then have same: "penalties (snd (notifyBatch ds (createLog u a r (save_penalty p w)))) = penalties (save_penalty p w)"
    "uuid_count (save_penalty p w) \<le> uuid_count (snd (notifyBatch ds (createLog u a r (save_penalty p w))))"
    by (simp_all add: same_tables_def)
  show "good_step w (snd (notifyBatch ds (createLog u a r (save_penalty p w))))"
    using penalties_same [OF same] assms by (auto simp: good_step_def)
  show "good_step w (createLog u a r (save_penalty p w))"
    using penalties_same [of "createLog u a r (save_penalty p w)" "save_penalty p w"] assms by (auto simp: good_step_def)
qed

lemma save_good_step:
  assumes "penalties_ok w" "find_penalty i w = Some p" "debt p' = debt p" "penalty_step (p_status p) (p_status p')"
  shows "good_step w (save_penalty p' w)"
  using save_penalty_step [OF assms(1) _ assms(3)] find_penaltyD [OF assms(2)] assms(4)
  by (simp add: good_step_def r_into_rtranclp)

lemma waivePenalty_step:
  assumes "penalties_ok w"
  shows "good_step w (snd (waivePenalty i reason adm w))"
proof (cases "find_penalty i w")
  case None
  then show ?thesis by (simp add: waivePenalty_def good_step_refl assms)
next
  case (Some p)
  show ?thesis
  proof (cases "p_status p = PS_PENDING")
    case True
    with Some show ?thesis
      using save_good_step [OF assms Some, of "p\<lparr>p_status := PS_WAIVED, p_waiverReason := Some reason,
                  p_waivedByUserId := Some adm, p_waivedAt := Some (now w)\<rparr>"]
      by (simp add: waivePenalty_def debt_def penalty_step_iff)
  qed (simp add: waivePenalty_def Some good_step_refl assms)
qed

lemma disputePenalty_step:
  assumes "penalties_ok w"
  shows "good_step w (snd (disputePenalty i uid reason tx w))"
proof (cases "find_penalty i w")
  case None
  then show ?thesis by (simp add: disputePenalty_def good_step_refl assms)
next
  case (Some p)
  let ?p = "p\<lparr>p_status := PS_DISPUTED, p_disputeReason := Some reason, p_disputeTxHash := tx, p_disputedAt := Some (now w)\<rparr>"
  show ?thesis
  proof (cases "p_userId p = uid \<and> p_status p = PS_PENDING")
    case True
    then have "good_step w (save_penalty ?p w)"
      by (intro save_good_step [OF assms Some]) (simp_all add: debt_def penalty_step_iff)
    note saved = good_step_batch [OF assms this]
    have batch: "good_step w v" if "notifyBatch ds (createLog uid a r (save_penalty ?p w)) = (x, v)" for ds a r x v
      using saved(1) [of ds uid a r] that by simp
    show ?thesis
      using Some True batch unfolding disputePenalty_def Let_def
      by (auto simp: saved(2) split: option.split prod.split sum.split)
  qed (use Some in \<open>auto simp: disputePenalty_def good_step_refl assms\<close>)
qed

lemma resolveDispute_step:
  assumes "penalties_ok w"
  shows "good_step w (snd (resolveDispute i adm res notes w))"
proof (cases "find_penalty i w")
  case None
  then show ?thesis by (simp add: resolveDispute_def good_step_refl assms)
next
  case (Some p)
  let ?p = "p\<lparr>p_status := (case res of WAIVE \<Rightarrow> PS_WAIVED | REJECT \<Rightarrow> PS_REJECTED), p_resolutionNotes := Some notes,
      p_resolvedByUserId := Some adm, p_resolvedAt := Some (now w)\<rparr>"
  show ?thesis
  proof (cases "p_status p = PS_DISPUTED")
    case True
    then have "good_step w (save_penalty ?p w)"
      by (intro save_good_step [OF assms Some]) (simp_all add: debt_def penalty_step_iff split: penalty_resolution.split)
    note saved = good_step_batch(1) [OF assms this]
    have batch: "good_step w v" if "notifyBatch ds (createLog adm a r (save_penalty ?p w)) = (x, v)" for ds a r x v
      using saved [of ds adm a r] that by simp
    show ?thesis
      using Some True batch unfolding resolveDispute_def Let_def
      by (auto simp: good_step_refl assms split: option.split prod.split sum.split)
  qed (use Some in \<open>auto simp: resolveDispute_def good_step_refl assms\<close>)
qed


text \<open>Paying all pending penalties of a member in a group.\<close>

lemma pay_each_step:
  assumes "penalties_ok w" "\<forall>p \<in> set ps. p \<in> set (penalties w) \<and> p_status p = PS_PENDING" "distinct (map p_id ps)"
    and "pay_each D total' ps w = (t, applied, w')"
  shows "good_step w w' \<and> applied = map (\<lambda>p. p\<lparr>p_status := PS_PAID, p_paidAt := Some (now w)\<rparr>) ps \<and>
    t = foldl (\<lambda>s p. dec_plus D s (dec_of D (p_amount p))) total' ps \<and> set applied \<subseteq> set (penalties w') \<and>
    (\<forall>x \<in> set (penalties w). p_id x \<notin> p_id ` set ps \<longrightarrow> x \<in> set (penalties w'))"
  using assms
proof (induction ps arbitrary: w total' t applied w')
  case Nil
  then show ?case by (simp add: good_step_refl)
next
  case (Cons p ps)
  let ?p = "p\<lparr>p_status := PS_PAID, p_paidAt := Some (now w)\<rparr>"
  obtain t1 app v where run: "pay_each D (dec_plus D total' (dec_of D (p_amount p))) ps (save_penalty ?p w) = (t1, app, v)"
    by (metis prod_cases3)
  have out: "t = t1" "applied = ?p # app" "w' = v" using Cons.prems(4) run by (simp_all add: Let_def)
  have mem: "p \<in> set (penalties w)" "p_status p = PS_PENDING" using Cons.prems(2) by simp_all
  have "penalty_step\<^sup>*\<^sup>* (p_status p) (p_status ?p)" using mem(2) by (simp add: r_into_rtranclp pay)
  then have step: "good_step w (save_penalty ?p w)"
    using save_penalty_step [OF Cons.prems(1) mem(1), of ?p] by (simp add: good_step_def debt_def)
  have kept: "x \<in> set (penalties (save_penalty ?p w))" if "x \<in> set (penalties w)" "p_id x \<noteq> p_id p" for x
    using that by (auto simp: save_penalty_def set_save_row)
  have rest: "\<forall>q \<in> set ps. q \<in> set (penalties (save_penalty ?p w)) \<and> p_status q = PS_PENDING"
    using Cons.prems(2,3) kept by (force simp: image_iff)
  have dist: "distinct (map p_id ps)" using Cons.prems(3) by simp
  have ok: "penalties_ok (save_penalty ?p w)" using step by (simp add: good_step_def)
  have time: "now (save_penalty ?p w) = now w" by (simp add: save_penalty_def)
  from Cons.IH [OF ok rest dist run, unfolded time]
  have IH: "good_step (save_penalty ?p w) v"
    "app = map (\<lambda>p. p\<lparr>p_status := PS_PAID, p_paidAt := Some (now w)\<rparr>) ps"
    "t1 = foldl (\<lambda>s p. dec_plus D s (dec_of D (p_amount p))) (dec_plus D total' (dec_of D (p_amount p))) ps"
    "set app \<subseteq> set (penalties v)"
    "\<forall>x \<in> set (penalties (save_penalty ?p w)). p_id x \<notin> p_id ` set ps \<longrightarrow> x \<in> set (penalties v)"
    by blast+
  have "?p \<in> set (penalties (save_penalty ?p w))" by (simp add: save_penalty_def set_save_row)
  moreover have "p_id ?p \<notin> p_id ` set ps" using Cons.prems(3) by simp
  ultimately have "?p \<in> set (penalties v)" using IH(5) by blast
  then show ?case
    using good_step_trans [OF step IH(1)] IH out kept by auto
qed

lemma pending_facts:
  assumes "penalties_ok w"
  shows "\<forall>p \<in> set (getPendingPenalties uid gid w). p \<in> set (penalties w) \<and> p_status p = PS_PENDING"
    and "distinct (map p_id (getPendingPenalties uid gid w))"
proof -
  show "\<forall>p \<in> set (getPendingPenalties uid gid w). p \<in> set (penalties w) \<and> p_status p = PS_PENDING"
    by (simp add: getPendingPenalties_def)
  have "distinct (penalties w)" "inj_on p_id (set (penalties w))"
    using assms by (simp_all add: penalties_ok_def distinct_map)
  then show "distinct (map p_id (getPendingPenalties uid gid w))"
    by (auto simp: getPendingPenalties_def distinct_map intro: inj_on_subset)
qed

lemma deduct_result:
  assumes "penalties_ok w" "deductPenaltiesFromContribution D uid gid w = ((amount, applied), w')"
  shows "penalties_ok w' \<and> progress w w' \<and>
    applied = map (\<lambda>p. p\<lparr>p_status := PS_PAID, p_paidAt := Some (now w)\<rparr>) (getPendingPenalties uid gid w) \<and>
    (applied \<noteq> [] \<longrightarrow> amount = dec_toFixed7 D (foldl (\<lambda>s p. dec_plus D s (dec_of D (p_amount p))) (dec_int D 0)
        (getPendingPenalties uid gid w))) \<and>
    set applied \<subseteq> set (penalties w') \<and>
    (\<forall>x \<in> set (penalties w). x \<notin> set (getPendingPenalties uid gid w) \<longrightarrow> x \<in> set (penalties w'))"
proof (cases "getPendingPenalties uid gid w = []")
  case True
  then show ?thesis using assms by (auto simp: deductPenaltiesFromContribution_def)
next
  case False
  then obtain t where run: "pay_each D (dec_int D 0) (getPendingPenalties uid gid w) w = (t, applied, w')"
    and amount: "amount = dec_toFixed7 D t"
    using assms(2) by (auto simp: deductPenaltiesFromContribution_def Let_def split: prod.splits)
  note res = pay_each_step [OF assms(1) pending_facts [OF assms(1)] run]
  have "x \<in> set (getPendingPenalties uid gid w)"
    if "x \<in> set (penalties w)" "p_id x \<in> p_id ` set (getPendingPenalties uid gid w)" for x
    using that pending_facts(1) [OF assms(1), of uid gid] assms(1)
    by (auto simp: penalties_ok_def distinct_map dest: inj_onD)
  then have "\<forall>x \<in> set (penalties w). x \<notin> set (getPendingPenalties uid gid w) \<longrightarrow> x \<in> set (penalties w')"
    using res by blast
  with res amount show ?thesis unfolding good_step_def by blast
qed

text \<open>
  A deduction settles exactly what is pending. Every PENDING penalty of the user in the group
  becomes PAID with the same debt, the deducted amount is the sum of their amounts, and every
  other penalty stays as it is.
\<close>

theorem deduct_settles_pending:
  assumes "penalties_ok w" "deductPenaltiesFromContribution D uid gid w = ((amount, applied), w')"
  shows "penalties_ok w' \<and> progress w w' \<and>
    applied = map (\<lambda>p. p\<lparr>p_status := PS_PAID, p_paidAt := Some (now w)\<rparr>) (getPendingPenalties uid gid w) \<and>
    (applied \<noteq> [] \<longrightarrow> amount = dec_toFixed7 D (foldl (\<lambda>s p. dec_plus D s (dec_of D (p_amount p))) (dec_int D 0)
        (getPendingPenalties uid gid w))) \<and>
    set applied \<subseteq> set (penalties w') \<and>
    (\<forall>x \<in> set (penalties w). x \<notin> set (getPendingPenalties uid gid w) \<longrightarrow> x \<in> set (penalties w'))"
  using deduct_result [OF assms] .

lemma deduct_step:
  "penalties_ok w \<Longrightarrow> good_step w (snd (deductPenaltiesFromContribution D uid gid w))"
  using deduct_result [of w D uid gid] unfolding good_step_def by (metis prod.collapse)

lemma assess_step:
  assumes "penalties_ok w"
  shows "good_step w (snd (assessPenaltiesForRound D gid round w))"
proof (cases "find_group gid w")
  case None
  then show ?thesis by (simp add: assessPenaltiesForRound_def good_step_refl assms)
next
  case (Some g)
  show ?thesis
  proof (cases "owing gid round w")
    case Nil
    then show ?thesis by (simp add: assess_result [OF Some] good_step_refl assms)
  next
    case (Cons m ms)
    let ?p = "new_penalty D g round (m_userId m) w"
    let ?w1 = "(tick_uuid w)\<lparr>penalties := penalties w @ [?p]\<rparr>"
    have gid: "g_id g = gid" using find_groupD [OF Some] by simp
    have "\<not> penalized gid round (m_userId m) w" using arg_cong [OF Cons, of set] by (auto simp: owing_def)
    moreover have "fresh_uuid w \<notin> p_id ` set (penalties w)"
      using assms fresh_uuid_unused [of w] unfolding penalties_ok_def by (metis imageE)
    moreover have "used_uuid ?w1 u" if "used_uuid w u \<or> u = fresh_uuid w" for u
      using that used_uuid_tick [of w u] by (simp add: used_uuid_def tick_uuid_def)
    ultimately have "penalties_ok ?w1"
      using assms unfolding penalties_ok_def by (auto simp: penalized_def gid image_iff)
    moreover have "progress w ?w1" by (auto simp: progress_def)
    ultimately show ?thesis by (simp add: good_step_def assess_result [OF Some] Cons)
  qed
qed

lemma assess_groups_step:
  "penalties_ok w \<Longrightarrow> good_step w (snd (assess_groups D gs n k w))"
proof (induction gs arbitrary: n k w)
  case (Cons g gs)
  obtain r w1 where run: "assessPenaltiesForRound D (g_id g) (g_currentRound g) w = (r, w1)" by fastforce
  have step: "good_step w w1" using assess_step [OF Cons.prems, of D "g_id g" "g_currentRound g"] run by simp
  then have "good_step w1 (snd (assess_groups D gs n' k' w1))" for n' k'
    using Cons.IH by (simp add: good_step_def)
  then show ?case using run good_step_trans [OF step] by (auto split: sum.split)
qed (simp add: good_step_refl)

subsection \<open>The penalties as a machine\<close>

datatype 'd penalty_op =
    Assess "'d penalty_ops" uuid int
  | AssessAll "'d penalty_ops"
  | Waive uuid string uuid
  | Deduct "'d penalty_ops" uuid uuid
  | Dispute uuid uuid string "string option"
  | Resolve uuid uuid penalty_resolution string

fun penalty_exec :: "'d penalty_op \<Rightarrow> world \<Rightarrow> world" where
  "penalty_exec (Assess D gid round) w = snd (assessPenaltiesForRound D gid round w)"
| "penalty_exec (AssessAll D) w = snd (assessPenalties D w)"
| "penalty_exec (Waive i reason adm) w = snd (waivePenalty i reason adm w)"
| "penalty_exec (Deduct D uid gid) w = snd (deductPenaltiesFromContribution D uid gid w)"
| "penalty_exec (Dispute i uid reason tx) w = snd (disputePenalty i uid reason tx w)"
| "penalty_exec (Resolve i adm res notes) w = snd (resolveDispute i adm res notes w)"

lemma penalty_exec_step: "penalties_ok w \<Longrightarrow> good_step w (penalty_exec op w)"
  by (cases op)
    (simp_all add: assess_step assess_groups_step assessPenalties_def waivePenalty_step deduct_step
      disputePenalty_step resolveDispute_step)

interpretation penalties: monotone_machine penalty_exec penalties_ok progress
  by unfold_locales (use penalty_exec_step progress_trans in \<open>auto simp: good_step_def\<close>)

text \<open>
  C7: A penalty only moves forward. In every run of the service each penalty keeps its user,
  group, round and amount and its status follows the steps PENDING to PAID, WAIVED or DISPUTED
  and DISPUTED to WAIVED or REJECTED; a paid, waived or rejected penalty never changes again, and
  nobody is penalized twice for a round.
\<close>

theorem penalty_lifecycle:
  assumes "penalties_ok w" "p \<in> set (penalties w)"
  shows "\<exists>p' \<in> set (penalties (fold penalty_exec ops w)). debt p' = debt p \<and>
    penalty_step\<^sup>*\<^sup>* (p_status p) (p_status p') \<and>
    (p_status p = PS_PAID \<or> p_status p = PS_WAIVED \<or> p_status p = PS_REJECTED \<longrightarrow> p_status p' = p_status p) \<and>
    penalties_ok (fold penalty_exec ops w)"
proof -
  obtain p' where "p' \<in> set (penalties (fold penalty_exec ops w))" "debt p' = debt p"
    "penalty_step\<^sup>*\<^sup>* (p_status p) (p_status p')"
    using penalties.run_le [OF assms(1), of ops] assms(2) unfolding progress_def by blast
  with closed_is_final penalties.run_inv [OF assms(1), of ops] show ?thesis by blast
qed


subsection \<open>Disputes and the payout\<close>

lemma outstanding_save:
  assumes "penalties_ok w" "p \<in> set (penalties w)" "debt p' = debt p" "p_status p = PS_PENDING" "p_status p' \<noteq> PS_PENDING"
  shows "outstanding_penalties (p_groupId p) (p_userId p) (save_penalty p' w)
    = outstanding_penalties (p_groupId p) (p_userId p) w - 1"
proof -
  let ?P = "\<lambda>x. p_userId x = p_userId p \<and> p_groupId x = p_groupId p \<and> p_status x = PS_PENDING"
  have key: "p_id p' = p_id p" using debt_eq [OF assms(3)] by simp
  have gone: "count_rows ?P (map (\<lambda>x. if p_id x = p_id p then p' else x) t) = count_rows ?P t - 1"
    if "distinct (map p_id t)" "p \<in> set t" for t
    using that
  proof (induction t)
    case (Cons y t)
    show ?case
    proof (cases "y = p")
      case True
      then have "map (\<lambda>x. if p_id x = p_id p then p' else x) t = t"
        using Cons.prems(1) by (intro map_idI) (auto simp: image_iff)
      with True assms(4,5) show ?thesis by simp
    next
      case False
      then have "p \<in> set t" "p_id y \<noteq> p_id p" using Cons.prems by auto
      with Cons show ?thesis by simp
    qed
  qed simp
  have "penalties (save_penalty p' w) = map (\<lambda>x. if p_id x = p_id p then p' else x) (penalties w)"
    using assms(2) by (simp add: save_penalty_def save_row_def key)
  then show ?thesis using gone assms(1,2) by (simp add: outstanding_penalties_def penalties_ok_def)
qed

text \<open>
  Disputing a penalty frees the payout. A member who disputes a pending penalty has one
  outstanding penalty less at once, whatever comes of the dispute: a rejected penalty is not
  pending either and is never collected, in any later run of the service.
\<close>

theorem dispute_frees_payout:
  assumes "penalties_ok w" "find_penalty i w = Some p" "disputePenalty i uid reason tx w = (Inr p', w')"
  shows "outstanding_penalties (p_groupId p) uid w' = outstanding_penalties (p_groupId p) uid w - 1 \<and>
    p_status p' = PS_DISPUTED \<and> p_userId p = uid \<and>
    (\<forall>q ops. q \<in> set (penalties w') \<and> p_status q = PS_REJECTED \<longrightarrow>
       (\<exists>q' \<in> set (penalties (fold penalty_exec ops w')). debt q' = debt q \<and> p_status q' = PS_REJECTED))"
proof -
  let ?p = "p\<lparr>p_status := PS_DISPUTED, p_disputeReason := Some reason, p_disputeTxHash := tx, p_disputedAt := Some (now w)\<rparr>"
  have uid: "p_userId p = uid" and pend: "p_status p = PS_PENDING"
    using assms(2,3) by (auto simp: disputePenalty_def split: if_splits)
  have p': "p' = ?p" and same: "penalties w' = penalties (save_penalty ?p w)"
    using assms(2,3) uid pend notifyBatch_frame
    unfolding disputePenalty_def Let_def by (auto simp: same_tables_def split: option.splits prod.splits sum.splits)
  have ok: "penalties_ok w'"
    using disputePenalty_step [OF assms(1), of i uid reason tx] assms(3) by (simp add: good_step_def)
  have "outstanding_penalties (p_groupId p) (p_userId p) (save_penalty ?p w)
      = outstanding_penalties (p_groupId p) (p_userId p) w - 1"
    using find_penaltyD [OF assms(2)] pend by (intro outstanding_save [OF assms(1)]) (simp_all add: debt_def)
  moreover have "outstanding_penalties (p_groupId p) uid w' = outstanding_penalties (p_groupId p) uid (save_penalty ?p w)"
    using same by (simp add: outstanding_penalties_def)
  moreover have "\<exists>q' \<in> set (penalties (fold penalty_exec ops w')). debt q' = debt q \<and> p_status q' = PS_REJECTED"
    if "q \<in> set (penalties w')" "p_status q = PS_REJECTED" for q ops
    using penalties.run_le [OF ok, of ops] that closed_is_final unfolding progress_def by metis
  ultimately show ?thesis using uid p' by auto
qed

text \<open>
  Any user can resolve a dispute. The service reads the membership of the acting user but
  ignores it: whoever calls, the dispute is closed as asked, also by the disputing member.
\<close>

theorem resolveDispute_needs_no_admin:
  assumes "find_penalty i w = Some p" "p_status p = PS_DISPUTED" "find_group (p_groupId p) w = Some g"
  shows "\<exists>p' w'. resolveDispute i anybody resolution notes w = (Inr p', w') \<and>
    p_status p' = (case resolution of WAIVE \<Rightarrow> PS_WAIVED | REJECT \<Rightarrow> PS_REJECTED) \<and> p' \<in> set (penalties w')"
proof -
  let ?p = "p\<lparr>p_status := (case resolution of WAIVE \<Rightarrow> PS_WAIVED | REJECT \<Rightarrow> PS_REJECTED), p_resolutionNotes := Some notes,
      p_resolvedByUserId := Some anybody, p_resolvedAt := Some (now w)\<rparr>"
  let ?w2 = "createLog anybody ''PENALTY_DISPUTE_RESOLVED'' ''Penalty'' (save_penalty ?p w)"
  let ?ds = "[plain_dto (p_userId p) PENALTY_RESOLVED ''Penalty Dispute Resolved''
      (''Your penalty dispute in group '' @ g_name g @ '' has been '' @ toLowerCase (show_resolution resolution) @ ''d'')]"
  obtain x w3 where run: "notifyBatch ?ds ?w2 = (x, w3)" by fastforce
  have "is_ok (fst (notifyBatch ?ds ?w2))"
    by (simp add: notifyBatch_def batch_to_insert_def plain_dto_def transaction_def insert_notification_def Let_def)
  then obtain ns where "x = Inr ns" using run by (auto simp: is_ok_iff)
  then have "resolveDispute i anybody resolution notes w = (Inr ?p, w3)"
    using assms run by (simp add: resolveDispute_def Let_def)
  moreover have "?p \<in> set (penalties w3)"
    using notifyBatch_frame [OF run] by (simp add: same_tables_def save_penalty_def set_save_row)
  ultimately show ?thesis by (intro exI [of _ ?p] exI [of _ w3]) simp
qed

text \<open>
  A waiver takes effect although the call fails. Waiving a pending penalty stores it as
  WAIVED and then throws a TypeError, so the caller is told that it did not work; repeating the
  call is refused.
\<close>

theorem waivePenalty_stores_and_throws:
  assumes "find_penalty i w = Some p" "p_status p = PS_PENDING" "penalties_ok w"
  shows "fst (waivePenalty i reason adm w) = Inl sendNotification_missing \<and>
    (\<exists>p'. find_penalty i (snd (waivePenalty i reason adm w)) = Some p' \<and> p_status p' = PS_WAIVED \<and>
       p_waiverReason p' = Some reason) \<and>
    fst (waivePenalty i reason2 adm2 (snd (waivePenalty i reason adm w)))
      = Inl (BadRequestException ''Cannot waive penalty with status WAIVED. Only PENDING penalties can be waived.'')"
proof -
  let ?p = "p\<lparr>p_status := PS_WAIVED, p_waiverReason := Some reason, p_waivedByUserId := Some adm, p_waivedAt := Some (now w)\<rparr>"
  have run: "waivePenalty i reason adm w = (Inl sendNotification_missing, save_penalty ?p w)"
    using assms(1,2) by (simp add: waivePenalty_def)
  have "p_id ?p = i" using find_penaltyD [OF assms(1)] by simp
  then have "find_penalty i (save_penalty ?p w) = Some ?p"
    using penalty_store.saved_row_found [of w ?p] assms(3) by (simp add: find_penalty_def save_penalty_def penalties_ok_def)
  then show ?thesis unfolding run by (simp add: waivePenalty_def)
qed

subsection \<open>Witnesses\<close>

definition demo_penalty_ops :: "int penalty_ops" where
  "demo_penalty_ops = \<lparr>dec_of = (\<lambda>s. int (read_nat s)), dec_plus = (+), dec_times = (\<lambda>a b. b),
     dec_toFixed7 = (\<lambda>n. show_int n @ ''.0000000''), dec_rate = id, dec_int = id\<rparr>"

definition demo_owed :: "penalty_status \<Rightarrow> world" where
  "demo_owed s = demo_active\<lparr>penalties := [(new_penalty demo_penalty_ops demo_group 1 ''u1'' demo_active)\<lparr>p_id := ''1'', p_status := s\<rparr>]\<rparr>"

lemma demo_owed_ok: "penalties_ok (demo_owed s)"
  by (cases s; simp only:; code_simp)

lemma demo_owed_find: "find_penalty ''1'' (demo_owed s)
    = Some ((new_penalty demo_penalty_ops demo_group 1 ''u1'' demo_active)\<lparr>p_id := ''1'', p_status := s\<rparr>)"
  by (simp add: find_penalty_def demo_owed_def)

lemma demo_active_group: "find_group ''g'' demo_active = Some (demo_group\<lparr>g_status := GS_ACTIVE, g_currentRound := 1\<rparr>)"
  by code_simp

theorem assess_one_per_call_witness:
  "fst (assessPenaltiesForRound demo_penalty_ops ''g'' 1 demo_active) = Inl sendNotification_missing"
proof -
  have "owing ''g'' 1 demo_active = hd (owing ''g'' 1 demo_active) # tl (owing ''g'' 1 demo_active)" by code_simp
  with assess_one_per_call [OF demo_active_group prod.collapse [symmetric], of 1 demo_penalty_ops] show ?thesis by blast
qed

theorem assess_reaches_all_witness:
  "owing ''g'' 1 (((\<lambda>v. snd (assessPenaltiesForRound demo_penalty_ops ''g'' 1 v)) ^^ 3) demo_active) = []"
proof -
  have "length (owing ''g'' 1 demo_active) = 3" by code_simp
  with assess_reaches_all [OF keys_ok_demo demo_active_group, of 1 demo_penalty_ops] show ?thesis by simp
qed

theorem deduct_settles_pending_witness:
  "map p_status (snd (fst (deductPenaltiesFromContribution demo_penalty_ops ''u1'' ''g'' (demo_owed PS_PENDING)))) = [PS_PAID]"
proof -
  have "map p_status (map (\<lambda>p. p\<lparr>p_status := PS_PAID, p_paidAt := Some (now (demo_owed PS_PENDING))\<rparr>)
      (getPendingPenalties ''u1'' ''g'' (demo_owed PS_PENDING))) = [PS_PAID]" by code_simp
  moreover have "snd (fst (deductPenaltiesFromContribution demo_penalty_ops ''u1'' ''g'' (demo_owed PS_PENDING)))
    = map (\<lambda>p. p\<lparr>p_status := PS_PAID, p_paidAt := Some (now (demo_owed PS_PENDING))\<rparr>)
        (getPendingPenalties ''u1'' ''g'' (demo_owed PS_PENDING))"
    using deduct_settles_pending [OF demo_owed_ok, of demo_penalty_ops "''u1''" "''g''" PS_PENDING] by (metis prod.collapse)
  ultimately show ?thesis by simp
qed

theorem penalty_lifecycle_witness:
  "\<exists>p \<in> set (penalties (fold penalty_exec [Waive ''1'' ''late train'' ''u0'', Dispute ''1'' ''u1'' ''no'' None] (demo_owed PS_REJECTED))).
     p_status p = PS_REJECTED"
proof -
  let ?p = "(new_penalty demo_penalty_ops demo_group 1 ''u1'' demo_active)\<lparr>p_id := ''1'', p_status := PS_REJECTED\<rparr>"
  have "?p \<in> set (penalties (demo_owed PS_REJECTED))" by (simp add: demo_owed_def)
  moreover have "p_status ?p = PS_REJECTED" by simp
  ultimately show ?thesis using penalty_lifecycle [OF demo_owed_ok] by metis
qed

theorem dispute_frees_payout_witness:
  "outstanding_penalties ''g'' ''u1'' (snd (disputePenalty ''1'' ''u1'' ''paid in time'' None (demo_owed PS_PENDING))) = 0"
proof -
  have "is_ok (fst (disputePenalty ''1'' ''u1'' ''paid in time'' None (demo_owed PS_PENDING)))" by code_simp
  then obtain p' where "fst (disputePenalty ''1'' ''u1'' ''paid in time'' None (demo_owed PS_PENDING)) = Inr p'"
    by (auto simp only: is_ok_iff)
  from dispute_frees_payout [OF demo_owed_ok demo_owed_find outcome_run [OF this], THEN conjunct1]
  have "outstanding_penalties ''g'' ''u1'' (snd (disputePenalty ''1'' ''u1'' ''paid in time'' None (demo_owed PS_PENDING)))
      = outstanding_penalties ''g'' ''u1'' (demo_owed PS_PENDING) - 1" by (simp add: demo_group_def)
  moreover have "outstanding_penalties ''g'' ''u1'' (demo_owed PS_PENDING) = 1" by code_simp
  ultimately show ?thesis by simp
qed

theorem resolveDispute_needs_no_admin_witness:
  "\<exists>p w'. resolveDispute ''1'' ''u1'' WAIVE ''me'' (demo_owed PS_DISPUTED) = (Inr p, w') \<and> p_status p = PS_WAIVED"
proof -
  have "find_group ''g'' (demo_owed PS_DISPUTED) = Some (demo_group\<lparr>g_status := GS_ACTIVE, g_currentRound := 1\<rparr>)" by code_simp
  then show ?thesis
    using resolveDispute_needs_no_admin [OF demo_owed_find [of PS_DISPUTED], of _ "''u1''" WAIVE "''me''"]
    by (auto simp: demo_group_def)
qed

theorem waivePenalty_stores_and_throws_witness:
  "fst (waivePenalty ''1'' ''late train'' ''u0'' (demo_owed PS_PENDING)) = Inl sendNotification_missing"
  using waivePenalty_stores_and_throws [OF demo_owed_find [of PS_PENDING] _ demo_owed_ok] by simp


end
