(* ===== verification/System.thy ===== *)
theory System
  imports Waitlist Invites Contributions Penalties
begin

text \<open>
  The components of the savings circle together. Every handler that writes the shared tables is an
  operation of one machine, and any sequence of calls is one of its runs: the invariants of the
  components hold in every state, and what one component stores no other component loses.
\<close>

subsection \<open>Frames\<close>

text \<open>The tables the components share, and a step that changes at most the tables of a set.\<close>

datatype table = T_groups | T_members | T_waitlist | T_contributions | T_payouts | T_penalties

fun same_table :: "table \<Rightarrow> world \<Rightarrow> world \<Rightarrow> bool" where
  "same_table T_groups w w' \<longleftrightarrow> groups w' = groups w"
| "same_table T_members w w' \<longleftrightarrow> memberships w' = memberships w"
| "same_table T_waitlist w w' \<longleftrightarrow> waitlist w' = waitlist w"
| "same_table T_contributions w w' \<longleftrightarrow> contributions w' = contributions w"
| "same_table T_payouts w w' \<longleftrightarrow> payout_txs w' = payout_txs w"
| "same_table T_penalties w w' \<longleftrightarrow> penalties w' = penalties w"

definition only :: "table set \<Rightarrow> world \<Rightarrow> world \<Rightarrow> bool" where
  "only S w w' \<longleftrightarrow> (\<forall>t. t \<notin> S \<longrightarrow> same_table t w w') \<and> uuid_count w \<le> uuid_count w'"

lemma same_table_trans: "same_table t w v \<Longrightarrow> same_table t v u \<Longrightarrow> same_table t w u"
  by (cases t) simp_all

lemma onlyD:
  assumes "only S w w'"
  shows "T_groups \<notin> S \<Longrightarrow> groups w' = groups w" "T_members \<notin> S \<Longrightarrow> memberships w' = memberships w"
    "T_waitlist \<notin> S \<Longrightarrow> waitlist w' = waitlist w" "T_contributions \<notin> S \<Longrightarrow> contributions w' = contributions w"
    "T_payouts \<notin> S \<Longrightarrow> payout_txs w' = payout_txs w" "T_penalties \<notin> S \<Longrightarrow> penalties w' = penalties w"
    "uuid_count w \<le> uuid_count w'"
  using assms same_table.simps unfolding only_def by blast+

named_theorems frames \<open>what a step leaves alone\<close>

lemma same_table_refl [simp]: "same_table t w w"
  by (cases t) simp_all

lemma only_refl [frames]: "only S w w"
  by (simp add: only_def)

lemma only_trans: "only S w v \<Longrightarrow> only T v u \<Longrightarrow> T \<subseteq> S \<Longrightarrow> only S w u"
  unfolding only_def by (meson order_trans same_table_trans subsetD)

lemma only_nothing: "only S w v \<Longrightarrow> only {} v u \<Longrightarrow> only S w u"
  by (rule only_trans [of S w v "{}" u]) simp_all

lemma only_same_tables: "same_tables w w' \<Longrightarrow> only {} w w'"
  unfolding only_def
proof (intro conjI allI impI)
  fix t assume "same_tables w w'"
  then show "same_table t w w'" by (cases t) (simp_all add: same_tables_def)
qed (simp add: same_tables_def)

lemma only_notify [frames]: "only S w v \<Longrightarrow> only S w (snd (notify d v))"
  using notify_frame [OF prod.collapse [symmetric]] by (blast intro: only_nothing only_same_tables)

lemma only_notifyBatch [frames]: "only S w v \<Longrightarrow> only S w (snd (notifyBatch ds v))"
  using notifyBatch_frame [OF prod.collapse [symmetric]] by (blast intro: only_nothing only_same_tables)

lemma only_write: "only S w v \<Longrightarrow> (\<And>t. t \<notin> S \<Longrightarrow> same_table t v u) \<Longrightarrow> uuid_count v \<le> uuid_count u \<Longrightarrow> only S w u"
  unfolding only_def by (meson order_trans same_table_trans)

lemma same_table_fields [simp]:
  "t \<noteq> T_groups \<Longrightarrow> same_table t v (v\<lparr>groups := gs\<rparr>)" "t \<noteq> T_members \<Longrightarrow> same_table t v (v\<lparr>memberships := ms\<rparr>)"
  "t \<noteq> T_waitlist \<Longrightarrow> same_table t v (v\<lparr>waitlist := q\<rparr>)"
  "t \<noteq> T_contributions \<Longrightarrow> same_table t v (v\<lparr>contributions := cs\<rparr>)"
  "t \<noteq> T_payouts \<Longrightarrow> same_table t v (v\<lparr>payout_txs := ts\<rparr>)" "t \<noteq> T_penalties \<Longrightarrow> same_table t v (v\<lparr>penalties := ps\<rparr>)"
  "same_table t v (v\<lparr>invites := k\<rparr>)" "same_table t v (v\<lparr>audit_log := a\<rparr>)" "same_table t v (v\<lparr>webhook_log := h\<rparr>)"
  "same_table t v (v\<lparr>deferred := d\<rparr>)" "same_table t v (v\<lparr>templates := x\<rparr>)" "same_table t v (v\<lparr>payout_jobs := y\<rparr>)"
  "same_table t v (v\<lparr>tx_jobs := z\<rparr>)" "same_table t v (v\<lparr>inflight_locks := l\<rparr>)" "same_table t v (v\<lparr>now := n\<rparr>)"
  "same_table t v (tick_uuid v)"
  by (cases t; simp add: tick_uuid_def)+

lemma only_fields [frames]:
  "only S w v \<Longrightarrow> T_groups \<in> S \<Longrightarrow> only S w (v\<lparr>groups := gs\<rparr>)"
  "only S w v \<Longrightarrow> T_members \<in> S \<Longrightarrow> only S w (v\<lparr>memberships := ms\<rparr>)"
  "only S w v \<Longrightarrow> T_waitlist \<in> S \<Longrightarrow> only S w (v\<lparr>waitlist := q\<rparr>)"
  "only S w v \<Longrightarrow> T_contributions \<in> S \<Longrightarrow> only S w (v\<lparr>contributions := cs\<rparr>)"
  "only S w v \<Longrightarrow> T_payouts \<in> S \<Longrightarrow> only S w (v\<lparr>payout_txs := ts\<rparr>)"
  "only S w v \<Longrightarrow> T_penalties \<in> S \<Longrightarrow> only S w (v\<lparr>penalties := ps\<rparr>)"
  "only S w v \<Longrightarrow> only S w (v\<lparr>invites := k\<rparr>)" "only S w v \<Longrightarrow> only S w (v\<lparr>audit_log := a\<rparr>)"
  "only S w v \<Longrightarrow> only S w (v\<lparr>webhook_log := h\<rparr>)" "only S w v \<Longrightarrow> only S w (v\<lparr>deferred := d\<rparr>)"
  "only S w v \<Longrightarrow> only S w (v\<lparr>templates := x\<rparr>)" "only S w v \<Longrightarrow> only S w (v\<lparr>payout_jobs := y\<rparr>)"
  "only S w v \<Longrightarrow> only S w (v\<lparr>tx_jobs := z\<rparr>)" "only S w v \<Longrightarrow> only S w (v\<lparr>inflight_locks := l\<rparr>)"
  "only S w v \<Longrightarrow> only S w (v\<lparr>now := n\<rparr>)" "only S w v \<Longrightarrow> only S w (tick_uuid v)"
  by (erule only_write; (rule same_table_fields)?; force simp: tick_uuid_def)+

lemma only_transaction [frames]: "only S w (snd (body w)) \<Longrightarrow> only S w (snd (transaction body w))"
  by (auto simp: transaction_def split_beta frames split: sum.split)

text \<open>A call is unfolded to the writes of its fields, one branch at a time.\<close>

lemmas writes = save_group_def save_membership_def remove_membership_def dispatchEvent_def set_immediate_def
  save_waitlist_def use_invite_def save_invite_def insert_membership_def insert_waitlist_def
  save_penalty_def set_contribution_status_def acquire_def release_def

lemmas call_simps = writes split_beta Let_def

lemmas call_split = option.split sum.split if_split

lemma only_resequence [frames]: "only S w v \<Longrightarrow> T_members \<in> S \<Longrightarrow> only S w (resequence k ms v)"
  by (induction ms arbitrary: v) (simp_all add: frames call_simps)

lemma only_reset_paid [frames]: "only S w v \<Longrightarrow> T_members \<in> S \<Longrightarrow> only S w (reset_paid ms v)"
  by (induction ms arbitrary: v) (simp_all add: frames call_simps)

lemma only_schedule [frames]: "only S w v \<Longrightarrow> only S w (foldl (\<lambda>v a. scheduleAdmissionNotification a gid v) v as)"
  by (induction as arbitrary: v) (simp_all add: frames call_simps scheduleAdmissionNotification_def)

lemma only_assign_orders [frames]: "only S w v \<Longrightarrow> T_members \<in> S \<Longrightarrow> only S w (assign_orders ms is v)"
  by (induction ms "is" v rule: assign_orders.induct) (simp_all add: frames call_simps)

lemma only_admit_entries [frames]:
  "only S w v \<Longrightarrow> T_members \<in> S \<Longrightarrow> T_waitlist \<in> S \<Longrightarrow> only S w (snd (admit_entries g k es v))"
  by (induction es arbitrary: v k) (simp_all add: frames call_simps split: call_split)

subsection \<open>What each handler writes\<close>

lemma addMember_only: "only {T_members} w (snd (addMember gid uid a w))"
proof -
  have "only {T_members} w (snd (transaction (addMember_tx gid uid a) w))"
    by (simp add: addMember_tx_def frames call_simps split: call_split)
  then show ?thesis by (auto simp: addMember_def split_beta split: sum.split exn.split)
qed

lemma removeMember_only: "only {T_members} w (snd (removeMember gid uid w))"
  by (simp add: removeMember_def validateGroupNotActive_def frames call_simps split: call_split)

lemma leaveGroup_only: "only {T_members} w (snd (leaveGroup gid uid w))"
  by (simp add: leaveGroup_def frames call_simps split: call_split)

lemma recordPayout_only: "only {T_members} w (snd (recordPayout gid uid h w))"
  by (simp add: recordPayout_def frames call_simps split: call_split)

lemma suspendMember_only: "only {T_members} w (snd (suspendMember gid u uid x w))"
  by (simp add: suspendMember_def frames call_simps split: call_split)

lemma reinstateMember_only: "only {T_members} w (snd (reinstateMember gid u uid w))"
  by (simp add: reinstateMember_def frames call_simps split: call_split)

lemma joinWaitlist_only: "only {T_waitlist} w (snd (joinWaitlist k gid uid a w))"
  by (simp add: joinWaitlist_def frames call_simps split: call_split)

lemma leaveWaitlist_only: "only {T_waitlist} w (snd (leaveWaitlist gid uid w))"
  by (simp add: leaveWaitlist_def frames call_simps split: call_split)

lemma admitFromWaitlist_only: "only {T_members, T_waitlist} w (snd (admitFromWaitlist gid k w))"
  by (simp add: admitFromWaitlist_def admitFromWaitlistInTransaction_def frames call_simps split: call_split)

lemma run_deferred_only: "only {T_members, T_waitlist} w (run_deferred w)"
proof -
  have "only {T_members, T_waitlist} w v \<Longrightarrow> only {T_members, T_waitlist} w (run_task t v)" for t v
    using admitFromWaitlist_only [of v] by (cases t) (auto simp: frames intro: only_trans)
  then show ?thesis by (simp add: run_deferred_def frames split: list.split)
qed

lemma createInvite_only: "only {} w (snd (createInvite u c gid r h k w))"
  by (simp add: createInvite_def frames call_simps split: call_split)

lemma joinByCode_only: "only {T_members} w (snd (joinByCode c uid a w))"
  by (simp add: joinByCode_def joinByCode_tx_def frames call_simps split: call_split)

lemma update_only: "only {T_groups} w (snd (update gid p a w))"
  by (simp add: update_def frames call_simps split: call_split)

lemma softDelete_only: "only {T_groups} w (snd (softDelete gid a w))"
  by (simp add: softDelete_def frames call_simps split: call_split)

lemma transferAdmin_only: "only {T_groups} w (snd (transferAdmin gid a uid w))"
  by (simp add: transferAdmin_def frames call_simps split: call_split)

lemma activateGroup_only: "only {T_groups, T_members} w (snd (activateGroup deploy rnd gid a w))"
  by (simp add: activateGroup_def arrange_payout_order_def frames call_simps split: call_split payout_order_strategy.split)

lemma advanceRound_only: "only {T_groups, T_members} w (snd (advanceRound pay gid a w))"
proof -
  have "only {T_groups, T_members} w (snd (transaction (advanceRound_tx gid r h) w))" for r h
    by (simp add: advanceRound_tx_def frames call_simps split: call_split)
  then show ?thesis by (simp add: advanceRound_def frames split_beta Let_def split: call_split)
qed

lemmas payout_writes = save_payout_tx_def addPayoutReconciliation_def

lemma finish_payout_only: "only S w v \<Longrightarrow> T_payouts \<in> S \<Longrightarrow> only S w (snd (snd (finish_payout crash t h v)))"
  by (simp add: finish_payout_def frames call_simps payout_writes)

lemma submit_payout_only: "only S w v \<Longrightarrow> T_payouts \<in> S \<Longrightarrow> only S w (snd (snd (submit_payout pay path_pay crash g r a t v)))"
  by (simp add: submit_payout_def finish_payout_only frames call_simps payout_writes split: call_split)

lemma execute_payout_only:
  "only S w v \<Longrightarrow> {T_payouts, T_members} \<subseteq> S \<Longrightarrow> only S w (snd (execute_payout pay path_pay crash g r n a v))"
  by (simp add: execute_payout_def submit_payout_only frames call_simps payout_writes split: call_split)

lemma distributePayout_only [frames]:
  "only S w v \<Longrightarrow> T_payouts \<in> S \<Longrightarrow> T_members \<in> S \<Longrightarrow> only S w (snd (distributePayout D pay path_pay crash gid n v))"
  by (simp add: distributePayout_def execute_payout_only frames call_simps payout_writes split: call_split)

lemma process_payout_reconciliation_only: "only {T_payouts} w (snd (process_payout_reconciliation st i w))"
  by (simp add: process_payout_reconciliation_def frames call_simps payout_writes split: call_split chain_status.split)

lemma pollUnconfirmedPayouts_only: "only {} w (pollUnconfirmedPayouts w)"
proof -
  have "only {} w v \<Longrightarrow> only {} w (fold (\<lambda>t. addPayoutReconciliation (pt_id t)) ts v)" for ts v
    by (induction ts arbitrary: v) (simp_all add: frames payout_writes)
  from this [OF only_refl] show ?thesis unfolding pollUnconfirmedPayouts_def .
qed

lemma tryAdvanceRound_only [frames]:
  "only S w v \<Longrightarrow> T_payouts \<in> S \<Longrightarrow> T_members \<in> S \<Longrightarrow> T_groups \<in> S \<Longrightarrow>
     only S w (snd (tryAdvanceRound D pay path_pay crash gid v))"
  by (simp add: tryAdvanceRound_def reset_active_flags_def frames call_simps split: call_split)

lemma persist_contribution_only [frames]:
  "only S w v \<Longrightarrow> {T_payouts, T_members, T_groups, T_contributions} \<subseteq> S \<Longrightarrow> only S w (snd (persist_contribution E c v))"
  by (simp add: persist_contribution_def insert_or_ignore_def addTxConfirmation_def frames call_simps
      split: call_split list.split)

lemma poll_in_flight_only [frames]:
  "others = id \<Longrightarrow> only S w v \<Longrightarrow> only S w (snd (poll_in_flight others deadline i v))"
proof (induction others deadline i v rule: poll_in_flight.induct)
  case (1 others deadline i v)
  have "only S w (sleep others IN_FLIGHT_POLL_INTERVAL_MS v)"
    using "1.prems" by (simp add: sleep_def frames Let_def)
  with 1 show ?case by (subst poll_in_flight.simps) (simp add: frames Let_def split: option.split)
qed

lemma createContribution_only:
  assumes "ce_others E = id"
  shows "only {T_groups, T_members, T_payouts, T_contributions} w (snd (createContribution E d key w))"
  using assms
  by (simp add: createContribution_def guarded_contribution_def record_contribution_def waitForInFlight_def sleep_def
      frames call_simps split: call_split)

lemma process_tx_confirmation_only: "only {T_contributions} w (snd (process_tx_confirmation chain id j w))"
proof -
  have "others = id \<Longrightarrow> only S w v \<Longrightarrow> T_contributions \<in> S \<Longrightarrow> only S w (snd (pollUntilTerminal chain others i h u deadline v))"
    for S chain others i h u deadline v
  proof (induction chain others i h u deadline v rule: pollUntilTerminal.induct)
    case (1 chain others i h u deadline v)
    have "only S w (sleep others POLL_INTERVAL_MS v)" using "1.prems" by (simp add: sleep_def frames Let_def)
    with 1 show ?case
      by (subst pollUntilTerminal.simps) (simp add: settle_def frames call_simps split: call_split)
  qed
  then show ?thesis by (simp add: process_tx_confirmation_def frames call_simps)
qed

lemma reconcileStuckContributions_only: "only {T_contributions} w (reconcileStuckContributions chain ms w)"
proof -
  have "only {T_contributions} w v \<Longrightarrow> only {T_contributions} w (reconcile_each chain cs v)" for cs v
    by (induction cs arbitrary: v) (simp_all add: frames call_simps split: option.split)
  then show ?thesis by (simp add: reconcileStuckContributions_def frames)
qed

lemma assess_members_only: "only S w v \<Longrightarrow> T_penalties \<in> S \<Longrightarrow> only S w (snd (assess_members D g round n ms v))"
  by (induction D g round n ms v rule: assess_members.induct) (simp_all add: frames)

lemma assessPenaltiesForRound_only:
  "only S w v \<Longrightarrow> T_penalties \<in> S \<Longrightarrow> only S w (snd (assessPenaltiesForRound D gid round v))"
  by (simp add: assessPenaltiesForRound_def assess_members_only frames split: option.split)

lemma assess_groups_only: "only S w v \<Longrightarrow> T_penalties \<in> S \<Longrightarrow> only S w (snd (assess_groups D gs n k v))"
  by (induction gs arbitrary: n k v) (simp_all add: assessPenaltiesForRound_only split_beta split: sum.split)

lemma pay_each_only: "only S w v \<Longrightarrow> T_penalties \<in> S \<Longrightarrow> only S w (snd (snd (pay_each D a ps v)))"
  by (induction ps arbitrary: a v) (simp_all add: frames call_simps)

lemma penalty_exec_only: "only {T_penalties} w (penalty_exec op w)"
proof (cases op)
  case (Deduct D uid gid)
  then show ?thesis by (simp add: deductPenaltiesFromContribution_def pay_each_only frames call_simps)
next
  case (Dispute i uid reason tx)
  then show ?thesis by (simp add: disputePenalty_def createLog_def frames call_simps split: call_split)
next
  case (Resolve i adm res text_given)
  then show ?thesis by (simp add: resolveDispute_def createLog_def frames call_simps split: call_split)
qed (simp_all add: assessPenaltiesForRound_only assess_groups_only assessPenalties_def waivePenalty_def frames call_simps
  split: option.split)

subsection \<open>The keys of the members\<close>

lemma keys_ok_map:
  assumes "keys_ok w" "\<And>x. m_id (f x) = m_id x \<and> m_groupId (f x) = m_groupId x \<and> m_userId (f x) = m_userId x"
  shows "keys_ok (w\<lparr>memberships := map f (memberships w)\<rparr>)"
  using assms by (auto simp: keys_ok_def used_uuid_def comp_def)

lemma resequence_keys:
  assumes "keys_ok w" "set ms \<subseteq> set (memberships w)" "distinct (map m_id ms)"
  shows "keys_ok (resequence d ms w)"
proof -
  have "distinct (map m_id (memberships w))" using assms(1) by (simp add: keys_ok_def)
  with assms show ?thesis by (auto simp: resequence_map intro: keys_ok_map)
qed

lemma keys_ok_only_nothing: "keys_ok w \<Longrightarrow> only {} w w' \<Longrightarrow> keys_ok w'"
  using onlyD [of "{}" w w'] by (intro keys_ok_cong [of w' w]) auto

lemma remove_later_keys: "keys_ok w \<Longrightarrow> keys_ok (set_immediate k (remove_membership m w))"
  by (rule keys_ok_only_nothing [OF keys_ok_remove_membership [of w m]]) (simp_all add: set_immediate_def frames)

lemma removeMember_keys: "keys_ok w \<Longrightarrow> keys_ok (snd (removeMember gid uid w))"
  by (auto simp: removeMember_def validateGroupNotActive_def remove_later_keys split: call_split)

lemma recordPayout_keys:
  assumes "keys_ok w"
  shows "keys_ok (snd (recordPayout gid uid h w))"
proof -
  have "keys_ok (save_membership (m\<lparr>m_hasReceivedPayout := True, m_transactionHash := Some h\<rparr>) w)"
    if "find_membership gid uid w = Some m" for m
    using that by (intro keys_ok_save_membership [OF assms]) (auto dest: find_membershipD)
  note saved = keys_ok_only_nothing [OF this only_notify [OF only_refl]]
  show ?thesis using assms by (auto simp: recordPayout_def split_beta Let_def intro: saved split: call_split)
qed

lemma suspendMember_keys:
  assumes "keys_ok w"
  shows "keys_ok (snd (suspendMember gid uid adm reason w))"
proof -
  have "keys_ok (save_membership (m\<lparr>m_status := MS_SUSPENDED\<rparr>) w)" if "find_membership gid uid w = Some m" for m
    using that by (intro keys_ok_save_membership [OF assms]) (auto dest: find_membershipD)
  note saved = keys_ok_only_nothing [OF this]
  show ?thesis using assms
    by (auto simp: suspendMember_def split_beta Let_def set_immediate_def frames intro!: saved split: call_split)
qed

lemma reinstateMember_keys:
  assumes "keys_ok w"
  shows "keys_ok (snd (reinstateMember gid uid adm w))"
proof -
  have "keys_ok (save_membership (m\<lparr>m_status := MS_ACTIVE\<rparr>) w)" if "find_membership gid uid w = Some m" for m
    using that by (intro keys_ok_save_membership [OF assms]) (auto dest: find_membershipD)
  note saved = keys_ok_only_nothing [OF this]
  show ?thesis using assms
    by (auto simp: reinstateMember_def split_beta Let_def frames intro!: saved split: call_split)
qed

lemma leaveGroup_keys:
  assumes "keys_ok w"
  shows "keys_ok (snd (leaveGroup gid uid w))"
proof -
  have "keys_ok (resequence d (order_by_payout (group_members gid (set_immediate k (remove_membership m w))))
      (set_immediate k (remove_membership m w)))" (is "keys_ok (resequence d ?ms ?v)") for d k m
  proof -
    have v: "keys_ok ?v" by (rule remove_later_keys [OF assms])
    show ?thesis
      by (rule resequence_keys [OF v])
        (use v in \<open>auto simp: set_order_by_payout keys_ok_def group_members_def distinct_map_filter intro: distinct_order_by_payout\<close>)
  qed
  note saved = keys_ok_only_nothing [OF this only_notify [OF only_refl]]
  show ?thesis using assms by (auto simp: leaveGroup_def split_beta Let_def saved split: call_split)
qed

subsection \<open>Members and groups\<close>

datatype member_op =
    AddMember uuid uuid wallet
  | RemoveMember uuid uuid
  | LeaveGroup uuid uuid
  | RecordPayout uuid uuid string
  | SuspendMember uuid uuid uuid string
  | ReinstateMember uuid uuid uuid
  | JoinWaitlist int uuid uuid wallet
  | LeaveWaitlist uuid uuid
  | AdmitMembers uuid "int option"
  | RunDeferred
  | CreateInvite string string uuid uuid int "int option"
  | JoinByCode string uuid wallet

fun member_exec :: "member_op \<Rightarrow> world \<Rightarrow> world" where
  "member_exec (AddMember gid uid a) w = snd (addMember gid uid a w)"
| "member_exec (RemoveMember gid uid) w = snd (removeMember gid uid w)"
| "member_exec (LeaveGroup gid uid) w = snd (leaveGroup gid uid w)"
| "member_exec (RecordPayout gid uid h) w = snd (recordPayout gid uid h w)"
| "member_exec (SuspendMember gid uid adm reason) w = snd (suspendMember gid uid adm reason w)"
| "member_exec (ReinstateMember gid uid adm) w = snd (reinstateMember gid uid adm w)"
| "member_exec (JoinWaitlist k gid uid a) w = snd (joinWaitlist k gid uid a w)"
| "member_exec (LeaveWaitlist gid uid) w = snd (leaveWaitlist gid uid w)"
| "member_exec (AdmitMembers gid k) w = snd (admitFromWaitlist gid k w)"
| "member_exec RunDeferred w = run_deferred w"
| "member_exec (CreateInvite url code gid uid hours k) w = snd (createInvite url code gid uid hours k w)"
| "member_exec (JoinByCode code uid a) w = snd (joinByCode code uid a w)"

lemma member_exec_only: "only {T_members, T_waitlist} w (member_exec op w)"
proof -
  have "only S w v \<Longrightarrow> S \<subseteq> {T_members, T_waitlist} \<Longrightarrow> only {T_members, T_waitlist} w v" for S v
    by (rule only_trans [OF only_refl])
  note widen = this [OF addMember_only] this [OF removeMember_only] this [OF leaveGroup_only] this [OF recordPayout_only]
    this [OF suspendMember_only] this [OF reinstateMember_only] this [OF joinWaitlist_only] this [OF leaveWaitlist_only]
    this [OF createInvite_only] this [OF joinByCode_only]
  show ?thesis by (cases op) (simp_all add: widen admitFromWaitlist_only run_deferred_only)
qed

lemma run_deferred_keys:
  assumes "keys_ok w"
  shows "keys_ok (run_deferred w)"
proof -
  have "keys_ok (run_task t v)" if "keys_ok v" for t v
    using that admitFromWaitlist_keys_ok [OF that prod.collapse [symmetric]]
      keys_ok_only_nothing [OF that only_notify [OF only_refl]] by (cases t) simp_all
  moreover have "keys_ok (w\<lparr>deferred := ts\<rparr>)" for ts
    by (rule keys_ok_only_nothing [OF assms]) (simp add: frames)
  ultimately show ?thesis using assms by (simp add: run_deferred_def split: list.split)
qed

lemma member_exec_keys:
  assumes "keys_ok w"
  shows "keys_ok (member_exec op w)"
proof (cases op)
  case (AddMember gid uid a)
  then show ?thesis using addMember_keys_ok [OF assms prod.collapse [symmetric]] by simp
next
  case (JoinWaitlist k gid uid a)
  then show ?thesis using joinWaitlist_keys_ok [OF assms prod.collapse [symmetric]] by simp
next
  case (LeaveWaitlist gid uid)
  then show ?thesis using leaveWaitlist_keys_ok [OF assms prod.collapse [symmetric]] by simp
next
  case (AdmitMembers gid k)
  then show ?thesis using admitFromWaitlist_keys_ok [OF assms prod.collapse [symmetric]] by simp
next
  case (CreateInvite url code gid uid hours k)
  then show ?thesis using keys_ok_only_nothing [OF assms createInvite_only] by simp
next
  case (JoinByCode code uid a)
  then show ?thesis using joinByCode_keys_ok [OF assms prod.collapse [symmetric]] by simp
qed (simp_all add: assms removeMember_keys leaveGroup_keys recordPayout_keys suspendMember_keys reinstateMember_keys
  run_deferred_keys)

text \<open>\<open>UpdateGroupDto\<close> requires at least one round.\<close>

datatype group_op =
    CreateGroup "string list" group_dto wallet "uuid option"
  | UpdateGroup uuid group_patch wallet
  | DeleteGroup uuid wallet
  | ActivateGroup "rosca_group \<Rightarrow> string outcome" "nat \<Rightarrow> nat" uuid wallet
  | TransferAdmin uuid wallet uuid
  | AdvanceRound "string \<Rightarrow> wallet \<Rightarrow> string \<Rightarrow> string outcome" uuid wallet

fun group_exec :: "group_op \<Rightarrow> world \<Rightarrow> world" where
  "group_exec (CreateGroup allowed d a uid) w = snd (createGroup allowed d a uid w)"
| "group_exec (UpdateGroup gid p a) w =
     (if case gp_totalRounds p of None \<Rightarrow> True | Some n \<Rightarrow> 1 \<le> n then snd (update gid p a w) else w)"
| "group_exec (DeleteGroup gid a) w = snd (softDelete gid a w)"
| "group_exec (ActivateGroup deploy rnd gid a) w = snd (activateGroup deploy rnd gid a w)"
| "group_exec (TransferAdmin gid a uid) w = snd (transferAdmin gid a uid w)"
| "group_exec (AdvanceRound pay gid a) w = snd (advanceRound pay gid a w)"

lemma group_exec_only: "only {T_groups, T_members} w (group_exec op w)"
proof -
  have "only S w v \<Longrightarrow> S \<subseteq> {T_groups, T_members} \<Longrightarrow> only {T_groups, T_members} w v" for S v
    by (rule only_trans [OF only_refl])
  note widen = this [OF update_only] this [OF softDelete_only] this [OF transferAdmin_only]
  show ?thesis
    by (cases op) (simp_all add: widen activateGroup_only advanceRound_only createGroup_def createGroup_with_def only_refl)
qed

lemma group_exec_ok:
  assumes "keys_ok w" "groups_ok w"
  shows "keys_ok (group_exec op w) \<and> groups_ok (group_exec op w)"
proof (cases op)
  case (UpdateGroup gid p a)
  then show ?thesis using update_keeps [OF assms prod.collapse [symmetric], of p] assms by (auto split: option.splits)
next
  case (DeleteGroup gid a)
  then show ?thesis using softDelete_keeps [OF assms prod.collapse [symmetric]] by simp
next
  case (ActivateGroup deploy rnd gid a)
  then show ?thesis using activateGroup_keeps [OF assms prod.collapse [symmetric]] by simp
next
  case (TransferAdmin gid a uid)
  then show ?thesis using transferAdmin_keeps [OF assms prod.collapse [symmetric]] by simp
next
  case (AdvanceRound pay gid a)
  then show ?thesis using advanceRound_keeps [OF assms prod.collapse [symmetric]] by simp
qed (use assms in \<open>simp add: createGroup_def createGroup_with_def\<close>)

subsection \<open>The whole system\<close>

definition core_ok :: "world \<Rightarrow> bool" where
  "core_ok w \<longleftrightarrow> keys_ok w \<and> groups_ok w \<and> payouts_ok w"

definition payouts_kept :: "world \<Rightarrow> world \<Rightarrow> bool" where
  "payouts_kept w w' \<longleftrightarrow> (\<forall>k. find_payout_tx k w \<noteq> None \<longrightarrow> find_payout_tx k w' \<noteq> None)"

lemma payouts_kept_refl [simp]: "payouts_kept w w"
  by (simp add: payouts_kept_def)

lemma payouts_kept_trans: "payouts_kept w v \<Longrightarrow> payouts_kept v u \<Longrightarrow> payouts_kept w u"
  by (simp add: payouts_kept_def)

lemma payouts_kept_only: "only S w w' \<Longrightarrow> T_payouts \<notin> S \<Longrightarrow> payouts_kept w w'"
  by (simp add: payouts_kept_def find_payout_tx_def onlyD)

lemma core_ok_only:
  assumes "core_ok w" "only S w w'" "S \<inter> {T_groups, T_members, T_waitlist, T_payouts} = {}"
  shows "core_ok w'"
  using assms onlyD [OF assms(2)] keys_ok_cong [of w' w] payouts_ok_cong [of w' w] groups_ok_cong [of w' w]
  by (auto simp: core_ok_def)

text \<open>The stages of a group in the order of its life, and that no group goes back.\<close>

fun stage :: "group_status \<Rightarrow> nat" where
  "stage GS_PENDING = 0"
| "stage GS_ACTIVE = 1"
| "stage GS_COMPLETED = 2"

instantiation group_status :: linorder
begin

definition less_eq_group_status :: "group_status \<Rightarrow> group_status \<Rightarrow> bool" where
  "s \<le> t \<longleftrightarrow> stage s \<le> stage t"

definition less_group_status :: "group_status \<Rightarrow> group_status \<Rightarrow> bool" where
  "s < t \<longleftrightarrow> stage s < stage t"

instance
proof
  fix s t :: group_status
  show "s \<le> t \<Longrightarrow> t \<le> s \<Longrightarrow> s = t"
    by (cases s; cases t) (simp_all add: less_eq_group_status_def)
qed (auto simp: less_eq_group_status_def less_group_status_def)

end

definition ahead :: "rosca_group \<Rightarrow> rosca_group \<Rightarrow> bool" where
  "ahead g g' \<longleftrightarrow> g_id g' = g_id g \<and> g_status g \<le> g_status g' \<and> g_currentRound g \<le> g_currentRound g'"

definition rounds_le :: "world \<Rightarrow> world \<Rightarrow> bool" where
  "rounds_le w w' \<longleftrightarrow> (\<forall>g \<in> set (groups w). \<exists>g' \<in> set (groups w'). ahead g g')"

lemma ahead_refl [simp]: "ahead g g"
  by (simp add: ahead_def)

lemma rounds_le_refl [simp]: "rounds_le w w"
  by (auto simp: rounds_le_def intro: ahead_refl)

lemma rounds_le_trans: "rounds_le w v \<Longrightarrow> rounds_le v u \<Longrightarrow> rounds_le w u"
  unfolding rounds_le_def ahead_def by (metis order_trans)

lemma rounds_le_groups: "groups w' = groups w \<Longrightarrow> rounds_le w w'"
  by (auto simp: rounds_le_def intro: ahead_refl)

lemma ahead_next_round: "g_status g = GS_ACTIVE \<Longrightarrow> ahead g (next_round g)"
  by (simp add: ahead_def next_round_def less_eq_group_status_def)

lemma rounds_le_save:
  assumes "keys_ok w" "find_group gid w = Some g" "ahead g g'" "groups w' = groups (save_group g' w)"
  shows "rounds_le w w'"
  unfolding rounds_le_def
proof
  fix x assume x: "x \<in> set (groups w)"
  show "\<exists>y \<in> set (groups w'). ahead x y"
  proof (cases "g_id x = g_id g")
    case True
    then have "x = g" using group_by_id [OF assms(1) x] find_groupD [OF assms(2)] by blast
    with assms(3,4) show ?thesis by (auto simp: set_groups_save)
  next
    case False
    with assms(3,4) x show ?thesis by (auto simp: set_groups_save ahead_def)
  qed
qed

text \<open>The state reached from \<open>w\<close> is in order and has the payouts of \<open>w\<close>.\<close>

definition core_from :: "world \<Rightarrow> world \<Rightarrow> bool" where
  "core_from w v \<longleftrightarrow> core_ok v \<and> payouts_kept w v \<and> rounds_le w v"

named_theorems core \<open>steps that keep the core in order\<close>

lemma core_from_refl: "core_ok w \<Longrightarrow> core_from w w"
  by (simp add: core_from_def)

lemma core_from_trans: "core_from w v \<Longrightarrow> core_from v u \<Longrightarrow> core_from w u"
  by (auto simp: core_from_def elim: payouts_kept_trans rounds_le_trans)

lemma core_from_only:
  "core_from w v \<Longrightarrow> only S v u \<Longrightarrow> S \<inter> {T_groups, T_members, T_waitlist, T_payouts} = {} \<Longrightarrow> core_from w u"
  using core_ok_only [of v S u] payouts_kept_only [of S v u] onlyD(1) [of S v u] rounds_le_groups [of u v]
  by (auto simp: core_from_def elim: payouts_kept_trans rounds_le_trans)

lemma core_from_writes [core]:
  "core_from w v \<Longrightarrow> core_from w (v\<lparr>contributions := cs\<rparr>)" "core_from w v \<Longrightarrow> core_from w (v\<lparr>penalties := ps\<rparr>)"
  "core_from w v \<Longrightarrow> core_from w (v\<lparr>webhook_log := h\<rparr>)" "core_from w v \<Longrightarrow> core_from w (v\<lparr>tx_jobs := z\<rparr>)"
  "core_from w v \<Longrightarrow> core_from w (v\<lparr>inflight_locks := l\<rparr>)" "core_from w v \<Longrightarrow> core_from w (v\<lparr>now := n\<rparr>)"
  "core_from w v \<Longrightarrow> core_from w (tick_uuid v)" "core_from w v \<Longrightarrow> core_from w (snd (notifyBatch ds v))"
  by (erule core_from_only [where S = "{T_contributions, T_penalties}"]; simp add: frames)+

lemma distributePayout_core [core]:
  assumes "core_from w v"
  shows "core_from w (snd (distributePayout D pay path_pay crash gid n v))"
proof (rule core_from_trans [OF assms])
  obtain r u where run: "distributePayout D pay path_pay crash gid n v = (r, u)" by fastforce
  have "keys_ok v" "payouts_ok v" "groups_ok v" using assms by (simp_all add: core_from_def core_ok_def)
  with distributePayout_members [OF _ _ run] distributePayout_row [OF _ run]
  show "core_from v (snd (distributePayout D pay path_pay crash gid n v))"
    by (auto simp: core_from_def core_ok_def payouts_kept_def run groups_ok_def intro: rounds_le_groups)
qed

lemma core_from_next_round:
  assumes "core_from w v" "find_group gid v = Some g" "g_status g = GS_ACTIVE"
  shows "core_from w (save_group (next_round g) v)"
proof (rule core_from_trans [OF assms(1)])
  have ok: "keys_ok v" "groups_ok v" "payouts_ok v" using assms(1) by (simp_all add: core_from_def core_ok_def)
  have "only {T_groups} v (save_group (next_round g) v)" by (simp add: frames call_simps)
  with ok show "core_from v (save_group (next_round g) v)"
    using groups_ok_save_next [OF ok(2) assms(2,3) refl] keys_ok_save_group [OF ok(1)]
      payouts_ok_cong [of "save_group (next_round g) v" v] payouts_kept_only [of "{T_groups}"]
      rounds_le_save [OF ok(1) assms(2) ahead_next_round [OF assms(3)] refl]
    by (simp add: core_from_def core_ok_def)
qed

lemma core_from_reset_active:
  assumes "core_from w v"
  shows "core_from w (reset_active_flags gid v)"
proof (rule core_from_trans [OF assms])
  have ok: "keys_ok v" "groups_ok v" "payouts_ok v" using assms by (simp_all add: core_from_def core_ok_def)
  have only: "only {T_members} v (reset_active_flags gid v)" by (simp add: reset_active_flags_def frames)
  show "core_from v (reset_active_flags gid v)"
    using ok keys_ok_reset_active payouts_kept_only [OF only] onlyD [OF only] rounds_le_groups [OF onlyD(1) [OF only]]
      payouts_ok_cong [of "reset_active_flags gid v" v] groups_ok_cong [of "reset_active_flags gid v" v]
    by (simp add: core_from_def core_ok_def)
qed

lemma tryAdvanceRound_core [core]:
  assumes "core_from w v"
  shows "core_from w (snd (tryAdvanceRound D pay path_pay crash gid v))"
proof (cases "fst (tryAdvanceRound D pay path_pay crash gid v)")
  case False
  then show ?thesis using assms tryAdvanceRound_False by (metis prod.collapse)
next
  case True
  then have "tryAdvanceRound D pay path_pay crash gid v = (True, snd (tryAdvanceRound D pay path_pay crash gid v))"
    by (metis prod.collapse)
  then show ?thesis
  proof (cases rule: tryAdvanceRound_True)
    case (last g)
    note moved = core_from_next_round [OF assms last(1,2)]
    show ?thesis unfolding last(6) by (simp add: core dispatchEvent_def moved)
  next
    case (middle g)
    have "find_group gid (reset_active_flags gid v) = Some g" using middle(1) by (simp add: find_group_def reset_active_flags_def)
    note moved = core_from_next_round [OF core_from_reset_active [OF assms] this middle(2)]
    show ?thesis unfolding middle(6) by (simp add: core moved)
  qed
qed

lemma createContribution_core:
  assumes "core_ok w" "ce_others E = id"
  shows "core_from w (snd (createContribution E d key w))"
proof -
  have persist: "core_from w v \<Longrightarrow> core_from w (snd (persist_contribution E c v))" for c v
    by (simp add: persist_contribution_def insert_or_ignore_def addTxConfirmation_def core call_simps split: call_split list.split)
  have wait: "core_from w v \<Longrightarrow> core_from w (snd (poll_in_flight id n i v))" for n i v
    by (rule core_from_only [where S = "{}", OF _ poll_in_flight_only [OF refl only_refl]]) simp_all
  show ?thesis using core_from_refl [OF assms(1)] assms(2)
    by (simp add: createContribution_def guarded_contribution_def record_contribution_def waitForInFlight_def sleep_def
      persist wait core call_simps split: call_split)
qed

text \<open>
  The handlers the users and the workers of the savings core call: memberships, waitlist and invites;
  \<open>GroupsService\<close>; contributions with their confirmation and sweep jobs; payouts with their
  reconciliation; \<open>RoundService\<close>; penalties. The events of the contract (EventListener), the copies of
  its state (ChainSync) and the timed jobs on groups (Scheduler) write the same tables and are no steps
  here: they follow the chain or the clock, and may move a group back.
\<close>

datatype 'd system_op =
    Member member_op
  | Group group_op
  | Deposit "'d deposit_op"
  | Payout "'d decimal_ops" payout_op
  | Round "'d decimal_ops" pay_fun path_fun bool uuid
  | Penalty "'d penalty_op"

fun system_exec :: "'d system_op \<Rightarrow> world \<Rightarrow> world" where
  "system_exec (Member op) w = member_exec op w"
| "system_exec (Group op) w = group_exec op w"
| "system_exec (Deposit op) w = deposit_exec op w"
| "system_exec (Payout D op) w = payout_exec D op w"
| "system_exec (Round D pay path_pay crash gid) w = snd (tryAdvanceRound D pay path_pay crash gid w)"
| "system_exec (Penalty op) w = penalty_exec op w"

definition system_ok :: "world \<Rightarrow> bool" where
  "system_ok w \<longleftrightarrow> core_ok w \<and> contributions_ok w \<and> penalties_ok w"

definition system_le :: "world \<Rightarrow> world \<Rightarrow> bool" where
  "system_le w w' \<longleftrightarrow> grows w w' \<and> payouts_kept w w' \<and> rounds_le w w' \<and> progress w w'"

lemma contributions_step:
  assumes "contributions_ok w" "only S w v" "T_contributions \<notin> S"
  shows "contributions_ok v \<and> grows w v"
  using assms onlyD [OF assms(2)] contributions_ok_cong [of v w] by (simp add: grows_def)

lemma penalties_step:
  assumes "penalties_ok w" "only S w v" "T_penalties \<notin> S"
  shows "penalties_ok v \<and> progress w v"
  using assms onlyD [OF assms(2)] penalties_ok_cong [of v w] by (auto simp: progress_def)

lemma deposit_exec_only: "only {T_groups, T_members, T_payouts, T_contributions} w (deposit_exec op w)"
proof (cases op)
  case (Create E d key)
  then show ?thesis by (simp add: deposit_exec_def createContribution_only)
next
  case (Confirm chain j)
  have "only {T_groups, T_members, T_payouts, T_contributions} w (snd (process_tx_confirmation chain id j w))"
    by (rule only_trans [OF only_refl process_tx_confirmation_only]) simp
  with Confirm show ?thesis by (simp add: deposit_exec_def)
next
  case (Sweep chain ms)
  have "only {T_groups, T_members, T_payouts, T_contributions} w (reconcileStuckContributions chain ms w)"
    by (rule only_trans [OF only_refl reconcileStuckContributions_only]) simp
  with Sweep show ?thesis by (simp add: deposit_exec_def)
qed (simp add: deposit_exec_def frames)

lemma deposit_exec_core:
  assumes "core_ok w"
  shows "core_from w (deposit_exec op w)"
proof -
  note stay = core_from_only [OF core_from_refl [OF assms], where S = "{T_contributions}"]
  show ?thesis
    by (cases op) (simp_all add: deposit_exec_def createContribution_core assms stay process_tx_confirmation_only
        reconcileStuckContributions_only frames)
qed

lemma payout_exec_only: "only {T_members, T_payouts} w (payout_exec D op w)"
proof (cases op)
  case (Distribute gid n pay path_pay crash)
  then show ?thesis by (simp add: payout_exec_def frames)
next
  case (Reconcile st i)
  have "only {T_members, T_payouts} w (snd (process_payout_reconciliation st i w))"
    by (rule only_trans [OF only_refl process_payout_reconciliation_only]) simp
  with Reconcile show ?thesis by (simp add: payout_exec_def)
next
  case Poll
  then show ?thesis using only_nothing [OF only_refl pollUnconfirmedPayouts_only] by (simp add: payout_exec_def)
qed

lemma payout_exec_core:
  assumes "core_ok w"
  shows "core_from w (payout_exec D op w)"
proof (cases op)
  case (Distribute gid n pay path_pay crash)
  then show ?thesis using distributePayout_core [OF core_from_refl [OF assms]] by (simp add: payout_exec_def)
next
  case (Reconcile st i)
  have only: "only {T_payouts} w (payout_exec D op w)"
    using process_payout_reconciliation_only Reconcile by (simp add: payout_exec_def)
  with assms payout_exec_row [of w D op] show ?thesis
    using onlyD [OF only] keys_ok_cong [of "payout_exec D op w" w] groups_ok_cong [of "payout_exec D op w" w]
      rounds_le_groups [OF onlyD(1) [OF only]]
    by (simp add: core_from_def core_ok_def payouts_kept_def)
next
  case Poll
  then show ?thesis
    using core_from_only [OF core_from_refl [OF assms] pollUnconfirmedPayouts_only] by (simp add: payout_exec_def)
qed

lemma member_exec_core:
  assumes "core_ok w"
  shows "core_from w (member_exec op w)"
proof -
  have only: "only {T_members, T_waitlist} w (member_exec op w)" by (rule member_exec_only)
  from assms have "keys_ok (member_exec op w)" by (simp add: core_ok_def member_exec_keys)
  with assms show ?thesis
    using onlyD [OF only] payouts_ok_cong [of "member_exec op w" w] groups_ok_cong [of "member_exec op w" w]
      payouts_kept_only [OF only] rounds_le_groups [OF onlyD(1) [OF only]] by (simp add: core_from_def core_ok_def)
qed

lemma group_exec_rounds:
  assumes "keys_ok w" "groups_ok w"
  shows "rounds_le w (group_exec op w)"
proof -
  note save = rounds_le_save [OF assms(1)]
  show ?thesis
  proof (cases op)
    case (CreateGroup allowed d a uid)
    then show ?thesis by (simp add: createGroup_def createGroup_with_def)
  next
    case (UpdateGroup gid p a)
    have "ahead g (apply_patch p g)" for g by (simp add: ahead_def apply_patch_def)
    with UpdateGroup show ?thesis by (auto simp: update_def intro: save split: option.splits)
  next
    case (DeleteGroup gid a)
    have later: "ahead g (g\<lparr>g_deletedAt := t\<rparr>)" for g t by (simp add: ahead_def)
    with DeleteGroup show ?thesis by (auto simp: softDelete_def intro: save [OF _ later] split: option.splits)
  next
    case (ActivateGroup deploy rnd gid a)
    have "rounds_le w w'" if "activateGroup deploy rnd gid a w = (r, w')" for r w'
      using that
    proof (cases rule: activateGroup_cases)
      case (deployed g w1 addr)
      have "groups w1 = groups w" using arg_cong [OF conjunct1 [OF arrange_frame [OF assms(1) deployed(5)]], of groups] by simp
      then show ?thesis using groups_okD [OF assms(2) deployed(1)] deployed(3)
        by (intro save [OF deployed(1), of "g\<lparr>g_status := GS_ACTIVE, g_currentRound := 1, g_contractAddress := Some addr\<rparr>"])
          (simp_all add: deployed(7) ahead_def lifecycle_def less_eq_group_status_def save_group_def)
    next
      case (failed g w1)
      have "groups w1 = groups w" using arg_cong [OF conjunct1 [OF arrange_frame [OF assms(1) failed(3)]], of groups] by simp
      then show ?thesis using groups_okD [OF assms(2) failed(1)] failed(2)
        by (intro save [OF failed(1), of "g\<lparr>g_status := GS_PENDING, g_currentRound := 0\<rparr>"])
          (simp_all add: failed(5) ahead_def lifecycle_def save_group_def)
    qed simp
    with ActivateGroup prod.collapse show ?thesis by (metis group_exec.simps(4))
  next
    case (TransferAdmin gid a uid)
    have "rounds_le w w'" if "transferAdmin gid a uid w = (r, w')" for r w'
      using that
    proof (cases rule: transferAdmin_cases)
      case (saved g m w2)
      then show ?thesis using same_tables_groups [OF saved(7)]
        by (intro save [OF saved(1), of "g\<lparr>g_adminWallet := m_walletAddress m\<rparr>"]) (simp_all add: ahead_def)
    qed simp
    with TransferAdmin prod.collapse show ?thesis by (metis group_exec.simps(5))
  next
    case (AdvanceRound pay gid a)
    have "rounds_le w w'" if "advanceRound pay gid a w = (r, w')" for r w'
      using advanceRound_effect [OF assms(1) that] by (auto intro: save ahead_next_round)
    with AdvanceRound prod.collapse show ?thesis by (metis group_exec.simps(6))
  qed
qed

lemma group_exec_core:
  assumes "core_ok w"
  shows "core_from w (group_exec op w)"
proof -
  have only: "only {T_groups, T_members} w (group_exec op w)" by (rule group_exec_only)
  from assms have "keys_ok (group_exec op w) \<and> groups_ok (group_exec op w)" by (simp add: core_ok_def group_exec_ok)
  with assms show ?thesis
    using onlyD [OF only] payouts_ok_cong [of "group_exec op w" w] payouts_kept_only [OF only] group_exec_rounds [of w op]
    by (simp add: core_from_def core_ok_def)
qed

lemma system_step:
  assumes "system_ok w"
  shows "system_ok (system_exec op w) \<and> system_le w (system_exec op w)"
proof -
  have ok: "core_ok w" "contributions_ok w" "penalties_ok w" using assms by (simp_all add: system_ok_def)
  note c = contributions_step [OF ok(2)] and p = penalties_step [OF ok(3)]
  have "core_from w (system_exec op w) \<and> (contributions_ok (system_exec op w) \<and> grows w (system_exec op w)) \<and>
      (penalties_ok (system_exec op w) \<and> progress w (system_exec op w))"
  proof (cases op)
    case (Member x)
    then show ?thesis using member_exec_core [OF ok(1)] c [OF member_exec_only] p [OF member_exec_only] by simp
  next
    case (Group x)
    then show ?thesis using group_exec_core [OF ok(1)] c [OF group_exec_only] p [OF group_exec_only] by simp
  next
    case (Deposit x)
    then show ?thesis using deposit_exec_core [OF ok(1), of x] deposit_exec_step [OF ok(2), of x] p [OF deposit_exec_only [of w x]] by simp
  next
    case (Payout D x)
    then show ?thesis using payout_exec_core [OF ok(1), of D x] c [OF payout_exec_only [of w D x]] p [OF payout_exec_only [of w D x]] by simp
  next
    case (Round D pay path_pay crash gid)
    have only: "only {T_groups, T_members, T_payouts} w (system_exec op w)" using Round by (simp add: frames)
    with Round show ?thesis using tryAdvanceRound_core [OF core_from_refl [OF ok(1)]] c [OF only] p [OF only] by simp
  next
    case (Penalty x)
    have "good_step w (penalty_exec x w)" by (rule penalty_exec_step [OF ok(3)])
    with Penalty show ?thesis
      using core_from_only [OF core_from_refl [OF ok(1)] penalty_exec_only [of w x]] c [OF penalty_exec_only [of w x]]
      by (simp add: good_step_def)
  qed
  then show ?thesis by (simp add: system_ok_def system_le_def core_from_def)
qed

interpretation system: monotone_machine system_exec system_ok system_le
proof unfold_locales
  show "system_le s s" for s by (simp add: system_le_def grows_def)
  show "system_le s t \<Longrightarrow> system_le t u \<Longrightarrow> system_le s u" for s t u
    by (auto simp: system_le_def grows_def intro: payouts_kept_trans rounds_le_trans progress_trans)
qed (use system_step in blast)+

text \<open>
  C1: The handlers of the savings core together. In every run of the handlers of memberships,
  waitlist, invites, groups, contributions and their jobs, payouts and their reconciliation, rounds
  and penalties, in any order and with any answers of the network, no group or membership is stored
  twice, every group stays in its life cycle and never goes back to an earlier stage or round, every
  round has at most one payout row and keeps it, every contribution keeps everything but its status,
  and every penalty keeps its debt and moves along its own life cycle. The events of the contract, the
  synchronisation with the chain and the timed jobs are not among the steps: they can move a group back.
\<close>

theorem system_invariant:
  assumes "system_ok w" and v: "v = fold system_exec ops w"
  shows "system_ok v \<and>
    (\<forall>g \<in> set (groups w). \<exists>g' \<in> set (groups v). g_id g' = g_id g \<and> g_status g \<le> g_status g' \<and>
       g_currentRound g \<le> g_currentRound g') \<and>
    (\<exists>new. map static_part (contributions v) = map static_part (contributions w) @ new) \<and>
    (\<forall>k. find_payout_tx k w \<noteq> None \<longrightarrow> find_payout_tx k v \<noteq> None) \<and>
    (\<forall>p \<in> set (penalties w). \<exists>p' \<in> set (penalties v). debt p' = debt p \<and> penalty_step\<^sup>*\<^sup>* (p_status p) (p_status p'))"
  using system.run_inv [OF assms(1), of ops] system.run_le [OF assms(1), of ops]
  unfolding v system_le_def grows_def payouts_kept_def rounds_le_def ahead_def progress_def by blast

subsection \<open>A concrete run\<close>

lemma demo_system_ok: "system_ok demo_active"
  by (simp add: system_ok_def core_ok_def keys_ok_demo demo_deposit_ok demo_payouts_ok)
    (simp add: groups_ok_def lifecycle_def penalties_ok_def demo_defs)

theorem system_invariant_witness:
  "system_ok (fold system_exec [Deposit (Create demo_env demo_deposit (Some ''k1'')), Member (LeaveGroup ''g'' ''u2''),
     Payout demo_decimals (Distribute ''g'' 1 demo_pay demo_path False), Penalty (Assess demo_penalty_ops ''g'' 1),
     Group (AdvanceRound (\<lambda>_ _ _. Inr ''h'') ''g'' ''w0'')] demo_active)"
  using system_invariant [OF demo_system_ok refl] by blast

end
