(* ===== verification/Scheduler.thy ===== *)
theory Scheduler
  imports System
begin

text \<open>
  \<open>SchedulerService\<close> (\<open>scheduler/scheduler.service.ts\<close>) and the jobs it runs
  (\<open>scheduler/services/*.ts\<close>): the lock that is to keep two instances apart, the retries, the
  advance of groups whose round is over, the group statuses, the stale groups and the weekly
  summaries. The state is the database, the Redis keys with their expiry, and the column
  \<open>updatedAt\<close> of the groups, which no other service reads: it is set to the current time by every
  write of these jobs and is whatever it is when they start.
\<close>

record sched =
  sw :: world
  updated_at :: "uuid \<Rightarrow> time"
  redis :: "string \<rightharpoonup> time option"

type_synonym 'a sio = "sched \<Rightarrow> 'a outcome \<times> sched"

definition clock :: "sched \<Rightarrow> time" where
  "clock s = now (sw s)"

subsection \<open>Redis\<close>

text \<open>\<open>up\<close> tells whether Redis answers: \<open>RedisService\<close> logs an error and goes on.\<close>

definition redis_set :: "bool \<Rightarrow> string \<Rightarrow> int \<Rightarrow> sched \<Rightarrow> sched" where
  "redis_set up k ttlSeconds s =
     (if up then s\<lparr>redis := (redis s)(k \<mapsto> (if ttlSeconds = 0 then None else Some (clock s + ttlSeconds * 1000)))\<rparr>
      else s)"

definition live :: "string \<Rightarrow> sched \<Rightarrow> bool" where
  "live k s = (case redis s k of None \<Rightarrow> False | Some None \<Rightarrow> True | Some (Some e) \<Rightarrow> clock s < e)"

definition redis_exists :: "bool \<Rightarrow> string \<Rightarrow> sched \<Rightarrow> bool" where
  "redis_exists up k s \<longleftrightarrow> up \<and> live k s"

definition redis_del :: "bool \<Rightarrow> string \<Rightarrow> sched \<Rightarrow> sched" where
  "redis_del up k s = (if up then s\<lparr>redis := (redis s)(k := None)\<rparr> else s)"

definition setIfNotExistsWithExpiry :: "bool \<Rightarrow> string \<Rightarrow> int \<Rightarrow> sched \<Rightarrow> bool \<times> sched" where
  "setIfNotExistsWithExpiry up k ttlSeconds s =
     (if up \<and> \<not> live k s then (True, s\<lparr>redis := (redis s)(k \<mapsto> Some (clock s + ttlSeconds * 1000))\<rparr>) else (False, s))"

subsection \<open>The lock\<close>

definition lock_name :: "string \<Rightarrow> string" where
  "lock_name n = ''scheduler:lock:'' @ n"

definition acquireLock :: "bool \<Rightarrow> string \<Rightarrow> int \<Rightarrow> sched \<Rightarrow> bool \<times> sched" where
  "acquireLock up n ttlSeconds s =
     (let s1 = redis_set up (lock_name n) ttlSeconds s in (redis_exists up (lock_name n) s1, s1))"

definition releaseLock :: "bool \<Rightarrow> string \<Rightarrow> sched \<Rightarrow> sched" where
  "releaseLock up n = redis_del up (lock_name n)"

definition withLock :: "bool \<Rightarrow> string \<Rightarrow> int \<Rightarrow> 'a sio \<Rightarrow> 'a option sio" where
  "withLock up n ttlSeconds fn s =
     (case acquireLock up n ttlSeconds s of
        (False, s1) \<Rightarrow> (Inr None, s1)
      | (True, s1) \<Rightarrow>
          (case fn s1 of
             (Inl e, s2) \<Rightarrow> (Inl e, releaseLock up n s2)
           | (Inr x, s2) \<Rightarrow> (Inr (Some x), releaseLock up n s2)))"

subsection \<open>Retries\<close>

definition maxRetries :: nat where "maxRetries = 3"
definition baseDelay :: int where "baseDelay = 1000"

text \<open>Time passes while the others run.\<close>

definition pause :: "(sched \<Rightarrow> sched) \<Rightarrow> int \<Rightarrow> sched \<Rightarrow> sched" where
  "pause others ms s = (let s1 = others s in s1\<lparr>sw := (sw s1)\<lparr>now := max (clock s1) (clock s + ms)\<rparr>\<rparr>)"

function attempt_from :: "(sched \<Rightarrow> sched) \<Rightarrow> 'a sio \<Rightarrow> string \<Rightarrow> nat \<Rightarrow> string \<Rightarrow> 'a sio" where
  "attempt_from others fn taskName attempt lastError s =
     (if attempt \<le> maxRetries
      then (case fn s of
              (Inr x, s1) \<Rightarrow> (Inr x, s1)
            | (Inl e, s1) \<Rightarrow>
                attempt_from others fn taskName (attempt + 1) (exn_message e)
                  (if attempt < maxRetries then pause others (baseDelay * 2 ^ (attempt - 1)) s1 else s1))
      else (Inl (JsError (''Task '' @ taskName @ '' failed after '' @ show_nat maxRetries @ '' attempts: '' @ lastError)), s))"
  by pat_completeness auto

termination
  by (relation "measure (\<lambda>(others, fn, n, attempt, e, s). Suc maxRetries - attempt)") auto

declare attempt_from.simps [simp del]

definition executeWithRetry :: "(sched \<Rightarrow> sched) \<Rightarrow> 'a sio \<Rightarrow> string \<Rightarrow> 'a sio" where
  "executeWithRetry others fn taskName = attempt_from others fn taskName 1 ''undefined''"

definition scheduled :: "bool \<Rightarrow> (sched \<Rightarrow> sched) \<Rightarrow> string \<Rightarrow> int \<Rightarrow> 'a sio \<Rightarrow> 'a option sio" where
  "scheduled up others taskName ttlSeconds fn =
     withLock up taskName ttlSeconds (executeWithRetry others fn taskName)"

subsection \<open>Rounds that are over\<close>

definition save_group_at :: "rosca_group \<Rightarrow> sched \<Rightarrow> sched" where
  "save_group_at g s = s\<lparr>sw := save_group g (sw s), updated_at := (updated_at s)(g_id g := clock s)\<rparr>"

record round_advance_result =
  advanced :: int
  reminded :: int
  errors :: int

definition isDeadlinePassed :: "rosca_group \<Rightarrow> time \<Rightarrow> time \<Rightarrow> int \<Rightarrow> bool" where
  "isDeadlinePassed g updatedAt t gracePeriodHours \<longleftrightarrow>
     t \<ge> updatedAt + g_roundDuration g * 1000 + gracePeriodHours * 3600 * 1000"

definition advanceGroupRound :: "rosca_group \<Rightarrow> membership list \<Rightarrow> unit sio" where
  "advanceGroupRound g activeMembers s =
     (let g1 = g\<lparr>g_currentRound := g_currentRound g + 1, g_staleAt := None\<rparr>
      in if g_currentRound g1 > g_totalRounds g1
         then (Inr (), save_group_at (g1\<lparr>g_status := GS_COMPLETED\<rparr>) s)
         else let w1 = reset_paid activeMembers (sw s)
              in case notifyBatch (map (round_opened_dto g1 (g_currentRound g1)) activeMembers) w1 of
                   (Inl e, w2) \<Rightarrow> (Inl e, s\<lparr>sw := w2\<rparr>)
                 | (Inr _, w2) \<Rightarrow> (Inr (), save_group_at g1 (s\<lparr>sw := w2\<rparr>)))"

definition payment_reminder_dto :: "rosca_group \<Rightarrow> membership \<Rightarrow> notify_dto" where
  "payment_reminder_dto g m =
     (plain_dto (m_userId m) PAYMENT_REMINDER ''Payment Reminder''
        (''Your contribution for round '' @ show_int (g_currentRound g) @ '' of group \"'' @ g_name g
         @ ''\" is overdue. Please pay as soon as possible.''))
     \<lparr>nd_idempotencyKey := Some (g_id g @ ''-'' @ show_int (g_currentRound g) @ ''-'' @ m_userId m @ ''-PAYMENT_REMINDER'')\<rparr>"

definition sendPaymentReminders :: "rosca_group \<Rightarrow> membership list \<Rightarrow> unit sio" where
  "sendPaymentReminders g unpaid s =
     (case notifyBatch (map (payment_reminder_dto g) unpaid) (sw s) of
        (Inl e, w1) \<Rightarrow> (Inl e, s\<lparr>sw := w1\<rparr>) | (Inr _, w1) \<Rightarrow> (Inr (), s\<lparr>sw := w1\<rparr>))"

text \<open>The loop; groups, members and \<open>updatedAt\<close> were read before it.\<close>

fun process_groups ::
  "int \<Rightarrow> time \<Rightarrow> (rosca_group \<times> time \<times> membership list) list \<Rightarrow> round_advance_result \<Rightarrow> sched
     \<Rightarrow> round_advance_result \<times> sched" where
  "process_groups grace t [] res s = (res, s)"
| "process_groups grace t ((g, updatedAt, ms) # rows) res s =
     (if \<not> isDeadlinePassed g updatedAt t grace then process_groups grace t rows res s
      else let activeMembers = filter (\<lambda>m. m_status m = MS_ACTIVE) ms;
               unpaid = filter (\<lambda>m. \<not> m_hasPaidCurrentRound m) activeMembers
      in if unpaid = []
         then (case advanceGroupRound g activeMembers s of
                 (Inl e, s1) \<Rightarrow> process_groups grace t rows (res\<lparr>errors := errors res + 1\<rparr>) s1
               | (Inr _, s1) \<Rightarrow> process_groups grace t rows (res\<lparr>advanced := advanced res + 1\<rparr>) s1)
         else (case sendPaymentReminders g unpaid s of
                 (Inl e, s1) \<Rightarrow> process_groups grace t rows (res\<lparr>errors := errors res + 1\<rparr>) s1
               | (Inr _, s1) \<Rightarrow> process_groups grace t rows (res\<lparr>reminded := reminded res + 1\<rparr>) s1))"

definition active_rows :: "sched \<Rightarrow> (rosca_group \<times> time \<times> membership list) list" where
  "active_rows s = map (\<lambda>g. (g, updated_at s (g_id g), group_members (g_id g) (sw s)))
     (filter (\<lambda>g. g_status g = GS_ACTIVE \<and> g_deletedAt g = None) (groups (sw s)))"

definition processDeadlinedGroups :: "int \<Rightarrow> round_advance_result sio" where
  "processDeadlinedGroups gracePeriodHours s =
     (case process_groups gracePeriodHours (clock s) (active_rows s) \<lparr>advanced = 0, reminded = 0, errors = 0\<rparr> s of
        (res, s1) \<Rightarrow> (Inr res, s1))"

subsection \<open>Group statuses\<close>

fun advance_stalled ::
  "'d decimal_ops \<Rightarrow> pay_fun \<Rightarrow> path_fun \<Rightarrow> bool \<Rightarrow> (uuid \<times> int \<times> time) list \<Rightarrow> int \<Rightarrow> sched \<Rightarrow> int \<times> sched" where
  "advance_stalled D pay path_pay crash [] advancedCount s = (advancedCount, s)"
| "advance_stalled D pay path_pay crash ((gid, roundDuration, updatedAt) # rows) advancedCount s =
     (if clock s - updatedAt \<ge> roundDuration * 24 * 60 * 60 * 1000
      then (case tryAdvanceRound D pay path_pay crash gid (sw s) of
              (True, w1) \<Rightarrow> advance_stalled D pay path_pay crash rows (advancedCount + 1)
                  (s\<lparr>sw := w1, updated_at := (updated_at s)(gid := clock s)\<rparr>)
            | (False, w1) \<Rightarrow> advance_stalled D pay path_pay crash rows advancedCount (s\<lparr>sw := w1\<rparr>))
      else advance_stalled D pay path_pay crash rows advancedCount s)"

definition advanceStalledRounds :: "'d decimal_ops \<Rightarrow> pay_fun \<Rightarrow> path_fun \<Rightarrow> bool \<Rightarrow> int sio" where
  "advanceStalledRounds D pay path_pay crash s =
     (case advance_stalled D pay path_pay crash
             (map (\<lambda>g. (g_id g, g_roundDuration g, updated_at s (g_id g)))
               (filter (\<lambda>g. g_status g = GS_ACTIVE \<and> g_deletedAt g = None) (groups (sw s)))) 0 s of
        (n, s1) \<Rightarrow> (Inr n, s1))"

definition checkAndUpdateGroupStatus :: "rosca_group \<Rightarrow> sched \<Rightarrow> bool \<times> sched" where
  "checkAndUpdateGroupStatus g s =
     (let activates = g_status g = GS_PENDING \<and> member_count (g_id g) (sw s) \<ge> g_minMembers g \<and> truthy (g_contractAddress g);
          g1 = (if activates then g\<lparr>g_status := GS_ACTIVE\<rparr> else g);
          completes = g_status g1 = GS_ACTIVE \<and> g_currentRound g1 \<ge> g_totalRounds g1;
          g2 = (if completes then g1\<lparr>g_status := GS_COMPLETED\<rparr> else g1)
      in if activates \<or> completes then (True, save_group_at g2 s) else (False, s))"

fun update_statuses :: "rosca_group list \<Rightarrow> int \<Rightarrow> sched \<Rightarrow> int \<times> sched" where
  "update_statuses [] updatedCount s = (updatedCount, s)"
| "update_statuses (g # gs) updatedCount s =
     (case checkAndUpdateGroupStatus g s of
        (b, s1) \<Rightarrow> update_statuses gs (if b then updatedCount + 1 else updatedCount) s1)"

definition updateGroupStatuses :: "int sio" where
  "updateGroupStatuses s =
     (case update_statuses
             (filter (\<lambda>g. (g_status g = GS_PENDING \<or> g_status g = GS_ACTIVE) \<and> g_deletedAt g = None) (groups (sw s))) 0 s of
        (n, s1) \<Rightarrow> (Inr n, s1))"

definition checkInactiveGroups :: "rosca_group list sio" where
  "checkInactiveGroups s =
     (Inr (filter (\<lambda>g. g_status g = GS_PENDING \<and> g_createdAt g < clock s - 30 * day_ms \<and> g_deletedAt g = None)
             (groups (sw s))), s)"

subsection \<open>Stale groups\<close>

text \<open>TypeORM leaves a condition whose value is \<open>null\<close> out of the query, so \<open>staleAt: null\<close> selects nothing.\<close>

definition stale_groups :: "int \<Rightarrow> sched \<Rightarrow> rosca_group list" where
  "stale_groups maxStaleDays s =
     filter (\<lambda>g. g_status g = GS_ACTIVE \<and> updated_at s (g_id g) < clock s - maxStaleDays * day_ms \<and> g_deletedAt g = None)
       (groups (sw s))"

definition stale_dto :: "int \<Rightarrow> rosca_group \<Rightarrow> notify_dto" where
  "stale_dto maxStaleDays g =
     plain_dto (g_adminWallet g) SYSTEM_ALERT ''Stale Group Detected''
       (''Group \"'' @ g_name g @ ''\" has not been updated in '' @ show_int maxStaleDays
        @ '' days. Please review and take action.'')"

fun flag_stale :: "int \<Rightarrow> rosca_group list \<Rightarrow> int \<Rightarrow> sched \<Rightarrow> int \<times> sched" where
  "flag_stale maxStaleDays [] flaggedCount s = (flaggedCount, s)"
| "flag_stale maxStaleDays (g # gs) flaggedCount s =
     (let s1 = save_group_at (g\<lparr>g_staleAt := Some (clock s)\<rparr>) s
      in case notify (stale_dto maxStaleDays g) (sw s1) of
           (Inl e, w2) \<Rightarrow> flag_stale maxStaleDays gs flaggedCount (s1\<lparr>sw := w2\<rparr>)
         | (Inr _, w2) \<Rightarrow> flag_stale maxStaleDays gs (flaggedCount + 1) (s1\<lparr>sw := w2\<rparr>))"

definition detectAndFlagStaleGroups :: "int \<Rightarrow> int sio" where
  "detectAndFlagStaleGroups maxStaleDays s =
     (case flag_stale maxStaleDays (stale_groups maxStaleDays s) 0 s of (n, s1) \<Rightarrow> (Inr n, s1))"

definition clearStaleFlag :: "uuid \<Rightarrow> sched \<Rightarrow> sched" where
  "clearStaleFlag gid s =
     (case find_group gid (sw s) of
        None \<Rightarrow> s
      | Some g \<Rightarrow> if g_staleAt g \<noteq> None then save_group_at (g\<lparr>g_staleAt := None\<rparr>) s else s)"

subsection \<open>Weekly summaries\<close>

record contribution_summary =
  cs_groupId :: uuid
  cs_groupName :: string
  cs_totalContributions :: js_number
  cs_totalAmount :: string
  cs_memberCount :: int

text \<open>
  The raw row of the aggregate query, under the names the query gives its columns;
  \<open>created\<close> is the column \<open>createdAt\<close> of a contribution and \<open>sum_of\<close> PostgreSQL's sum.
\<close>

definition aggregate_row ::
  "(contribution \<Rightarrow> time) \<Rightarrow> (string list \<Rightarrow> string) \<Rightarrow> uuid \<Rightarrow> sched \<Rightarrow> (string \<rightharpoonup> string)" where
  "aggregate_row created sum_of gid s =
     (let cs = filter (\<lambda>c. c_groupId c = gid \<and> created c \<ge> clock s - 7 * day_ms) (contributions (sw s))
      in [''totalContributions'' \<mapsto> show_int (int (length cs)), ''totalAmount'' \<mapsto> sum_of (map c_amount cs)])"

definition summary_of ::
  "(contribution \<Rightarrow> time) \<Rightarrow> (string list \<Rightarrow> string) \<Rightarrow> rosca_group \<Rightarrow> sched \<Rightarrow> contribution_summary" where
  "summary_of created sum_of g s =
     (let row = aggregate_row created sum_of (g_id g) s
      in \<lparr>cs_groupId = g_id g, cs_groupName = g_name g,
          cs_totalContributions = js_Number (case row ''totalcontributions'' of None \<Rightarrow> ''0'' | Some x \<Rightarrow> x),
          cs_totalAmount = (case row ''totalamount'' of None \<Rightarrow> ''0'' | Some x \<Rightarrow> x),
          cs_memberCount = member_count (g_id g) (sw s)\<rparr>)"

text \<open>The loop ends after the first group that leaves the heap over its limit.\<close>

fun summarize ::
  "(contribution \<Rightarrow> time) \<Rightarrow> (string list \<Rightarrow> string) \<Rightarrow> (uuid \<Rightarrow> bool) \<Rightarrow> rosca_group list \<Rightarrow> sched \<Rightarrow> contribution_summary list" where
  "summarize created sum_of heap_exceeded [] s = []"
| "summarize created sum_of heap_exceeded (g # gs) s =
     summary_of created sum_of g s # (if heap_exceeded (g_id g) then [] else summarize created sum_of heap_exceeded gs s)"

definition generateWeeklySummaries ::
  "(contribution \<Rightarrow> time) \<Rightarrow> (string list \<Rightarrow> string) \<Rightarrow> (uuid \<Rightarrow> bool) \<Rightarrow> contribution_summary list sio" where
  "generateWeeklySummaries created sum_of heap_exceeded s =
     (Inr (summarize created sum_of heap_exceeded
        (filter (\<lambda>g. g_status g = GS_ACTIVE \<and> g_deletedAt g = None) (groups (sw s))) s), s)"

subsection \<open>The tasks\<close>

definition handleContributionSummaries ::
  "bool \<Rightarrow> (sched \<Rightarrow> sched) \<Rightarrow> (time \<Rightarrow> int) \<Rightarrow> contribution_summary list sio \<Rightarrow> int option sio" where
  "handleContributionSummaries up others getDay generate s =
     (if getDay (clock s) \<noteq> 1 then (Inr None, s)
      else scheduled up others ''send-contribution-summaries'' 600
        (\<lambda>s. case generate s of (Inl e, s1) \<Rightarrow> (Inl e, s1) | (Inr xs, s1) \<Rightarrow> (Inr (int (length xs)), s1)) s)"

definition handleGroupStatusUpdates ::
  "bool \<Rightarrow> (sched \<Rightarrow> sched) \<Rightarrow> 'd decimal_ops \<Rightarrow> pay_fun \<Rightarrow> path_fun \<Rightarrow> bool \<Rightarrow> (int \<times> int \<times> int) option sio" where
  "handleGroupStatusUpdates up others D pay path_pay crash =
     scheduled up others ''update-group-statuses'' 300
       (\<lambda>s. case updateGroupStatuses s of
          (Inl e, s1) \<Rightarrow> (Inl e, s1)
        | (Inr updatedCount, s1) \<Rightarrow>
            (case checkInactiveGroups s1 of
               (Inl e, s2) \<Rightarrow> (Inl e, s2)
             | (Inr inactive, s2) \<Rightarrow>
                 (case advanceStalledRounds D pay path_pay crash s2 of
                    (Inl e, s3) \<Rightarrow> (Inl e, s3)
                  | (Inr advancedCount, s3) \<Rightarrow> (Inr (updatedCount, int (length inactive), advancedCount), s3))))"

definition handleStaleGroupDetection :: "bool \<Rightarrow> (sched \<Rightarrow> sched) \<Rightarrow> int \<Rightarrow> int option sio" where
  "handleStaleGroupDetection up others maxStaleDays =
     scheduled up others ''detect-stale-groups'' 600 (detectAndFlagStaleGroups maxStaleDays)"

definition handleAutoAdvanceRounds :: "bool \<Rightarrow> (sched \<Rightarrow> sched) \<Rightarrow> int \<Rightarrow> round_advance_result option sio" where
  "handleAutoAdvanceRounds up others grace =
     scheduled up others ''auto-advance-rounds'' 55 (processDeadlinedGroups grace)"

definition on_world :: "'a io \<Rightarrow> 'a sio" where
  "on_world f s = (case f (sw s) of (r, w1) \<Rightarrow> (r, s\<lparr>sw := w1\<rparr>))"

definition handleExpireGroupInvites :: "bool \<Rightarrow> (sched \<Rightarrow> sched) \<Rightarrow> int option sio" where
  "handleExpireGroupInvites up others = scheduled up others ''expire-group-invites'' 300 (on_world expireStaleInvites)"

definition handlePenaltyAssessment :: "bool \<Rightarrow> (sched \<Rightarrow> sched) \<Rightarrow> 'd penalty_ops \<Rightarrow> (int \<times> int) option sio" where
  "handlePenaltyAssessment up others D =
     scheduled up others ''assess-penalties'' 600
       (on_world (\<lambda>w. case assessPenalties D w of (n, w1) \<Rightarrow> (Inr n, w1)))"

text \<open>
  The weekly summaries are always empty: the query names its columns in mixed case and the code
  reads them in lower case, so every total is 0 whatever was contributed.
\<close>

theorem summaries_always_zero:
  assumes "generateWeeklySummaries created sum_of heap_exceeded s = (Inr xs, s')"
  shows "s' = s \<and> (\<forall>x \<in> set xs. cs_totalContributions x = js_Number ''0'' \<and> cs_totalAmount x = ''0'')"
proof -
  have "\<forall>x \<in> set (summarize created sum_of heap_exceeded gs s). cs_totalContributions x = js_Number ''0'' \<and> cs_totalAmount x = ''0''"
    for gs by (induction gs) (auto simp: summary_of_def aggregate_row_def Let_def)
  with assms show ?thesis by (simp add: generateWeeklySummaries_def) blast
qed

subsection \<open>Locks and retries\<close>

lemma acquireLock_always: "acquireLock up n ttl s = (up \<and> live (lock_name n) (redis_set up (lock_name n) ttl s), redis_set up (lock_name n) ttl s)"
  by (simp add: acquireLock_def redis_exists_def Let_def)

lemma live_after_set: "0 \<le> ttl \<Longrightarrow> live k (redis_set True k ttl s)"
  by (simp add: live_def redis_set_def clock_def)

text \<open>
  The lock keeps nobody out. While an instance holds the lock of a task, another one that runs
  the same task gets the lock too, runs the task, and takes the lock of the first one away; the
  conditional write of \<open>RedisService\<close> would have refused it.
\<close>

theorem lock_excludes_nobody:
  assumes "live (lock_name n) s" "0 < ttl" and run: "fn (redis_set True (lock_name n) ttl s) = (Inr x, s1)"
  shows "withLock True n ttl fn s = (Inr (Some x), releaseLock True n s1) \<and>
    \<not> live (lock_name n) (releaseLock True n s1) \<and>
    fst (setIfNotExistsWithExpiry True (lock_name n) ttl s) = False"
  using assms live_after_set [of ttl "lock_name n" s]
  by (simp add: withLock_def acquireLock_always releaseLock_def redis_del_def setIfNotExistsWithExpiry_def)
    (simp add: live_def)

text \<open>
  A task is tried at most three times: the first success is the result, with pauses of one and
  two seconds after the failures before it, and after three failures the last message is thrown.
\<close>

theorem executeWithRetry_three_attempts:
  "executeWithRetry others fn taskName s =
     (case fn s of (Inr x, s1) \<Rightarrow> (Inr x, s1) | (Inl e1, s1) \<Rightarrow>
       (case fn (pause others 1000 s1) of (Inr x, s2) \<Rightarrow> (Inr x, s2) | (Inl e2, s2) \<Rightarrow>
         (case fn (pause others 2000 s2) of (Inr x, s3) \<Rightarrow> (Inr x, s3) | (Inl e3, s3) \<Rightarrow>
           (Inl (JsError (''Task '' @ taskName @ '' failed after 3 attempts: '' @ exn_message e3)), s3))))"
proof -
  have three: "show_nat 3 = ''3''" by code_simp
  have attempt: "attempt_from others fn taskName k e v = (case fn v of (Inr x, v1) \<Rightarrow> (Inr x, v1)
      | (Inl e1, v1) \<Rightarrow> attempt_from others fn taskName (k + 1) (exn_message e1)
          (if k < 3 then pause others (1000 * 2 ^ (k - 1)) v1 else v1))" if "k \<le> 3" for k e v
    using that by (subst attempt_from.simps) (simp add: maxRetries_def baseDelay_def split: prod.split sum.split)
  have "attempt_from others fn taskName 4 e v =
      (Inl (JsError (''Task '' @ taskName @ '' failed after 3 attempts: '' @ e)), v)" for e v
    by (subst attempt_from.simps) (simp add: maxRetries_def three)
  then show ?thesis
    unfolding executeWithRetry_def
    by (simp del: One_nat_def add: attempt [of 1] attempt [of 2] attempt [of 3] split: prod.split sum.split)
qed

subsection \<open>Rounds that are over\<close>

lemma save_group_at_frame [simp]:
  "sw (save_group_at g s) = save_group g (sw s)" "redis (save_group_at g s) = redis s" "clock (save_group_at g s) = clock s"
  by (simp_all add: save_group_at_def clock_def)

lemma advanceGroupRound_next:
  assumes "advanceGroupRound g ms s = (Inr u, s')"
  shows "groups (sw s') = groups (save_group (next_round g) (sw s))"
proof -
  have "groups (snd (notifyBatch ds (reset_paid ms (sw s)))) = groups (sw s)" for ds
    using onlyD(1) [OF only_notifyBatch [OF only_reset_paid [OF only_refl, where S = "{T_members}"]]] by simp
  then show ?thesis using assms
    by (auto simp: advanceGroupRound_def Let_def next_round_def split_beta save_group_def split: if_splits sum.splits)
qed

lemma advanceGroupRound_only: "only {T_groups, T_members} (sw s) (sw (snd (advanceGroupRound g ms s)))"
  by (simp add: advanceGroupRound_def frames call_simps split: sum.split)

lemma sendPaymentReminders_only: "only {} (sw s) (sw (snd (sendPaymentReminders g ms s)))"
  by (simp add: sendPaymentReminders_def frames call_simps split: sum.split)

lemma advanceGroupRound_failed:
  assumes "advanceGroupRound g ms s = (Inl e, s')"
  shows "groups (sw s') = groups (sw s)"
proof -
  have "groups (snd (notifyBatch ds (reset_paid ms (sw s)))) = groups (sw s)" for ds
    using onlyD(1) [OF only_notifyBatch [OF only_reset_paid [OF only_refl, where S = "{T_members}"]]] by simp
  then show ?thesis using assms
    by (auto simp: advanceGroupRound_def Let_def split_beta split: if_splits sum.splits)
qed

text \<open>What the loop does to the groups: every row is treated on its own, and those whose advance fails (\<open>F\<close>)
  stay and are counted.\<close>

definition over :: "int \<Rightarrow> time \<Rightarrow> rosca_group \<times> time \<times> membership list \<Rightarrow> bool" where
  "over grace t row = (case row of (g, u, ms) \<Rightarrow> isDeadlinePassed g u t grace \<and>
     (\<forall>m \<in> set ms. m_status m = MS_ACTIVE \<longrightarrow> m_hasPaidCurrentRound m))"

lemma process_groups_groups:
  assumes "distinct (map (\<lambda>r. g_id (fst r)) rows)"
  shows "\<exists>F. finite F \<and> F \<subseteq> (\<lambda>r. g_id (fst r)) ` set (filter (over grace t) rows) \<and>
    errors res + int (card F) \<le> errors (fst (process_groups grace t rows res s)) \<and>
    groups (sw (snd (process_groups grace t rows res s)))
      = fold (\<lambda>row t. save_row g_id (next_round (fst row)) t)
          (filter (\<lambda>r. over grace t r \<and> g_id (fst r) \<notin> F) rows) (groups (sw s))"
  using assms
proof (induction rows arbitrary: res s)
  case (Cons row rows)
  obtain g u ms where row: "row = (g, u, ms)" by (cases row)
  let ?act = "filter (\<lambda>m. m_status m = MS_ACTIVE) ms"
  let ?unpaid = "filter (\<lambda>m. \<not> m_hasPaidCurrentRound m) ?act"
  let ?id = "\<lambda>r :: rosca_group \<times> time \<times> membership list. g_id (fst r)"
  have ov: "over grace t (g, u, ms) \<longleftrightarrow> isDeadlinePassed g u t grace \<and> ?unpaid = []"
    by (auto simp: over_def filter_empty_conv)
  have dist: "distinct (map ?id rows)" and new: "g_id g \<notin> ?id ` set rows" using Cons.prems by (auto simp: row)
  have IH: "\<exists>F. finite F \<and> F \<subseteq> ?id ` set (filter (over grace t) rows) \<and> g_id g \<notin> F \<and>
      errors res' + int (card F) \<le> errors (fst (process_groups grace t rows res' s1)) \<and>
      groups (sw (snd (process_groups grace t rows res' s1)))
        = fold (\<lambda>row t. save_row g_id (next_round (fst row)) t) (filter (\<lambda>r. over grace t r \<and> ?id r \<notin> F) rows) (groups (sw s1))"
    for res' s1
    using Cons.IH [OF dist, of res' s1] new by fastforce
  show ?case
  proof (cases "isDeadlinePassed g u t grace")
    case False
    obtain F where "finite F" "F \<subseteq> ?id ` set (filter (over grace t) rows)" "g_id g \<notin> F"
      "errors res + int (card F) \<le> errors (fst (process_groups grace t rows res s))"
      "groups (sw (snd (process_groups grace t rows res s)))
        = fold (\<lambda>row t. save_row g_id (next_round (fst row)) t) (filter (\<lambda>r. over grace t r \<and> ?id r \<notin> F) rows) (groups (sw s))"
      using IH [of res s] by blast
    then show ?thesis using False by (intro exI [of _ F]) (auto simp: row ov)
  next
    case True
    show ?thesis
    proof (cases "?unpaid = []")
      case paid: True
      obtain r s1 where run: "advanceGroupRound g ?act s = (r, s1)" by fastforce
      show ?thesis
      proof (cases r)
        case (Inl e)
        have same: "groups (sw s1) = groups (sw s)" by (rule advanceGroupRound_failed [OF run [unfolded Inl]])
        obtain F where F: "finite F" "F \<subseteq> ?id ` set (filter (over grace t) rows)" "g_id g \<notin> F"
          "errors res + 1 + int (card F) \<le> errors (fst (process_groups grace t rows (res\<lparr>errors := errors res + 1\<rparr>) s1))"
          "groups (sw (snd (process_groups grace t rows (res\<lparr>errors := errors res + 1\<rparr>) s1)))
            = fold (\<lambda>row t. save_row g_id (next_round (fst row)) t) (filter (\<lambda>r. over grace t r \<and> ?id r \<notin> F) rows) (groups (sw s))"
          using IH [of "res\<lparr>errors := errors res + 1\<rparr>" s1] same by auto
        have "filter (\<lambda>r. over grace t r \<and> ?id r \<notin> insert (g_id g) F) rows = filter (\<lambda>r. over grace t r \<and> ?id r \<notin> F) rows"
        proof (rule filter_cong [OF refl])
          fix r assume "r \<in> set rows"
          with new have "?id r \<noteq> g_id g" by (metis imageI)
          then show "(over grace t r \<and> ?id r \<notin> insert (g_id g) F) = (over grace t r \<and> ?id r \<notin> F)" by simp
        qed
        then show ?thesis using F True paid run Inl new
          by (intro exI [of _ "insert (g_id g) F"]) (auto simp: row ov)
      next
        case (Inr x)
        with run have "groups (sw s1) = save_row g_id (next_round g) (groups (sw s))"
          using advanceGroupRound_next [of g ?act s x s1] by (simp add: save_group_def)
        moreover obtain F where "finite F" "F \<subseteq> ?id ` set (filter (over grace t) rows)" "g_id g \<notin> F"
          "errors res + int (card F) \<le> errors (fst (process_groups grace t rows (res\<lparr>advanced := advanced res + 1\<rparr>) s1))"
          "groups (sw (snd (process_groups grace t rows (res\<lparr>advanced := advanced res + 1\<rparr>) s1)))
            = fold (\<lambda>row t. save_row g_id (next_round (fst row)) t) (filter (\<lambda>r. over grace t r \<and> ?id r \<notin> F) rows) (groups (sw s1))"
          using IH [of "res\<lparr>advanced := advanced res + 1\<rparr>" s1] by auto
        ultimately show ?thesis using True paid run Inr by (intro exI [of _ F]) (auto simp: row ov)
      qed
    next
      case unpaid: False
      obtain r s1 where run: "sendPaymentReminders g ?unpaid s = (r, s1)" by fastforce
      have same: "groups (sw s1) = groups (sw s)" using onlyD(1) [OF sendPaymentReminders_only [of s g ?unpaid]] run by simp
      show ?thesis
      proof (cases r)
        case (Inl e)
        obtain F where "finite F" "F \<subseteq> ?id ` set (filter (over grace t) rows)" "g_id g \<notin> F"
          "errors res + 1 + int (card F) \<le> errors (fst (process_groups grace t rows (res\<lparr>errors := errors res + 1\<rparr>) s1))"
          "groups (sw (snd (process_groups grace t rows (res\<lparr>errors := errors res + 1\<rparr>) s1)))
            = fold (\<lambda>row t. save_row g_id (next_round (fst row)) t) (filter (\<lambda>r. over grace t r \<and> ?id r \<notin> F) rows) (groups (sw s))"
          using IH [of "res\<lparr>errors := errors res + 1\<rparr>" s1] same by auto
        then show ?thesis using True unpaid run Inl by (intro exI [of _ F]) (auto simp: row ov)
      next
        case (Inr x)
        obtain F where "finite F" "F \<subseteq> ?id ` set (filter (over grace t) rows)" "g_id g \<notin> F"
          "errors res + int (card F) \<le> errors (fst (process_groups grace t rows (res\<lparr>reminded := reminded res + 1\<rparr>) s1))"
          "groups (sw (snd (process_groups grace t rows (res\<lparr>reminded := reminded res + 1\<rparr>) s1)))
            = fold (\<lambda>row t. save_row g_id (next_round (fst row)) t) (filter (\<lambda>r. over grace t r \<and> ?id r \<notin> F) rows) (groups (sw s))"
          using IH [of "res\<lparr>reminded := reminded res + 1\<rparr>" s1] same by auto
        then show ?thesis using True unpaid run Inr by (intro exI [of _ F]) (auto simp: row ov)
      qed
    qed
  qed
qed (auto intro: exI [of _ "{}"])

lemma fold_save_rows:
  assumes "distinct (map key t)" "\<And>r. key (f r) = key r"
  shows "fold (\<lambda>r. save_row key (f r)) (filter P t) t = map (\<lambda>r. if P r then f r else r) t"
proof -
  let ?F = "\<lambda>r. if P r then f r else r"
  have "fold (\<lambda>r. save_row key (f r)) (filter P ys) (map ?F xs @ ys) = map ?F (xs @ ys)"
    if "distinct (map key (xs @ ys))" for xs ys
    using that
  proof (induction ys arbitrary: xs)
    case (Cons y ys)
    have "save_row key (f y) (map ?F xs @ y # ys) = map ?F xs @ f y # ys"
    proof -
      have "key y \<notin> key ` (set xs \<union> set ys)" using Cons.prems by (simp add: image_Un)
      then have "key x \<noteq> key y" if "x \<in> set xs \<union> set ys" for x using that by (metis imageI)
      then show ?thesis using assms(2) by (auto simp: save_row_def intro!: map_idI)
    qed
    then have "fold (\<lambda>r. save_row key (f r)) (filter P (y # ys)) (map ?F xs @ y # ys)
        = fold (\<lambda>r. save_row key (f r)) (filter P ys) (map ?F (xs @ [y]) @ ys)" by simp
    also have "\<dots> = map ?F ((xs @ [y]) @ ys)" using Cons.prems by (intro Cons.IH) simp
    finally show ?case by simp
  qed simp
  from this [of "[]" t] assms(1) show ?thesis by simp
qed

definition round_over :: "int \<Rightarrow> sched \<Rightarrow> rosca_group \<Rightarrow> bool" where
  "round_over grace s g \<longleftrightarrow> g_status g = GS_ACTIVE \<and> g_deletedAt g = None \<and>
     isDeadlinePassed g (updated_at s (g_id g)) (clock s) grace \<and>
     (\<forall>m \<in> set (group_members (g_id g) (sw s)). m_status m = MS_ACTIVE \<longrightarrow> m_hasPaidCurrentRound m)"

lemma processDeadlinedGroups_result:
  assumes "keys_ok (sw s)" "processDeadlinedGroups grace s = (Inr res, s')"
  shows "\<exists>F. finite F \<and> F \<subseteq> g_id ` {g \<in> set (groups (sw s)). round_over grace s g} \<and> int (card F) \<le> errors res \<and>
    groups (sw s') = map (\<lambda>g. if round_over grace s g \<and> g_id g \<notin> F then next_round g else g) (groups (sw s))"
proof -
  let ?res0 = "\<lparr>advanced = 0, reminded = 0, errors = 0\<rparr>"
  let ?row = "\<lambda>g. (g, updated_at s (g_id g), group_members (g_id g) (sw s))"
  have run: "process_groups grace (clock s) (active_rows s) ?res0 s = (res, s')"
    using assms(2) by (simp add: processDeadlinedGroups_def split: prod.splits)
  have dt: "distinct (map g_id (groups (sw s)))" using assms(1) by (simp add: keys_ok_def)
  then have "distinct (map (\<lambda>r. g_id (fst r)) (active_rows s))"
    by (simp add: active_rows_def comp_def distinct_map_filter)
  from process_groups_groups [OF this, of grace "clock s" ?res0 s] run obtain F where
    F: "finite F" "F \<subseteq> (\<lambda>r. g_id (fst r)) ` set (filter (over grace (clock s)) (active_rows s))" "int (card F) \<le> errors res"
    and gs: "groups (sw s') = fold (\<lambda>row t. save_row g_id (next_round (fst row)) t)
      (filter (\<lambda>r. over grace (clock s) r \<and> g_id (fst r) \<notin> F) (active_rows s)) (groups (sw s))" by auto
  have sel: "filter (\<lambda>r. over grace (clock s) r \<and> g_id (fst r) \<notin> F) (active_rows s)
      = map ?row (filter (\<lambda>g. round_over grace s g \<and> g_id g \<notin> F) (groups (sw s)))"
    by (simp add: active_rows_def filter_map comp_def over_def round_over_def [abs_def] conj_ac)
  have sub: "F \<subseteq> g_id ` {g \<in> set (groups (sw s)). round_over grace s g}"
    using F(2) by (fastforce simp: active_rows_def over_def round_over_def)
  have "groups (sw s') = fold (\<lambda>g. save_row g_id (next_round g)) (filter (\<lambda>g. round_over grace s g \<and> g_id g \<notin> F) (groups (sw s))) (groups (sw s))"
    unfolding gs sel by (simp add: fold_map comp_def)
  also have "\<dots> = map (\<lambda>g. if round_over grace s g \<and> g_id g \<notin> F then next_round g else g) (groups (sw s))"
    by (rule fold_save_rows [OF dt]) simp
  finally show ?thesis using F sub by blast
qed

lemma processDeadlinedGroups_clean:
  assumes "keys_ok (sw s)" "processDeadlinedGroups grace s = (Inr res, s')" "errors res = 0"
  shows "groups (sw s') = map (\<lambda>g. if round_over grace s g then next_round g else g) (groups (sw s))"
  using processDeadlinedGroups_result [OF assms(1,2)] assms(3) by auto

text \<open>
  C29: The deadline job treats every group on its own. Only ACTIVE groups whose deadline and grace period have
  passed and whose active members have all paid advance, each by one round (the last round completes the
  group), and every other group stays as it is. Of the groups that are due at most as many as the job counts as
  errors stay behind; when it counts none, exactly the groups that are due advance.
\<close>

theorem processDeadlinedGroups_correct:
  assumes "keys_ok (sw s)" "processDeadlinedGroups grace s = (Inr res, s')"
  shows "(\<exists>F. finite F \<and> F \<subseteq> g_id ` {g \<in> set (groups (sw s)). round_over grace s g} \<and> int (card F) \<le> errors res \<and>
      groups (sw s') = map (\<lambda>g. if round_over grace s g \<and> g_id g \<notin> F then next_round g else g) (groups (sw s))) \<and>
    (errors res = 0 \<longrightarrow> groups (sw s') = map (\<lambda>g. if round_over grace s g then next_round g else g) (groups (sw s)))"
  using processDeadlinedGroups_result [OF assms] processDeadlinedGroups_clean [OF assms] by blast

text \<open>
  The whole job leaves payouts, contributions and penalties alone.
\<close>

lemma process_groups_only: "only {T_groups, T_members} w (sw s) \<Longrightarrow>
    only {T_groups, T_members} w (sw (snd (process_groups grace t rows res s)))"
proof (induction rows arbitrary: res s)
  case (Cons row rows)
  have adv: "advanceGroupRound g ms s = (r, s1) \<Longrightarrow> only {T_groups, T_members} w (sw s1)" for g ms r s1
    using only_trans [OF Cons.prems advanceGroupRound_only [of s g ms]] by simp
  have rem: "sendPaymentReminders g ms s = (r, s1) \<Longrightarrow> only {T_groups, T_members} w (sw s1)" for g ms r s1
    using only_nothing [OF Cons.prems sendPaymentReminders_only [of s g ms]] by simp
  show ?case using Cons.IH Cons.prems adv rem
    by (cases row) (auto simp: Let_def split: sum.split prod.split)
qed simp

lemma processDeadlinedGroups_only: "only {T_groups, T_members} (sw s) (sw (snd (processDeadlinedGroups grace s)))"
  using process_groups_only [OF only_refl, of s] by (simp add: processDeadlinedGroups_def split_beta)


text \<open>
  The deadline job never pays. A group whose round is over and that has no payout row for this
  round advances and still has none: the job neither submits nor records a payout, and since rounds
  only go forward no later advance pays this round.
\<close>

theorem deadline_job_skips_payout:
  assumes "keys_ok (sw s)" "processDeadlinedGroups grace s = (Inr res, s')" "errors res = 0"
    and g: "g \<in> set (groups (sw s))" "round_over grace s g"
    and none: "find_payout_tx (buildPayoutOrderId (g_id g) (g_currentRound g)) (sw s) = None"
  shows "next_round g \<in> set (groups (sw s')) \<and> payout_txs (sw s') = payout_txs (sw s) \<and>
    find_payout_tx (buildPayoutOrderId (g_id g) (g_currentRound g)) (sw s') = None"
proof -
  have only: "only {T_groups, T_members} (sw s) (sw s')"
    using processDeadlinedGroups_only [of s grace] assms(2) by simp
  then have "payout_txs (sw s') = payout_txs (sw s)" by (auto dest: onlyD)
  moreover have "next_round g \<in> set (groups (sw s'))"
    unfolding processDeadlinedGroups_clean [OF assms(1-3)] using g by (auto intro: rev_image_eqI)
  ultimately show ?thesis using none by (simp add: find_payout_tx_def)
qed

text \<open>
  When the notice of the new round cannot be stored, the payment flags have been reset but the
  group has not advanced: the members, who had all paid, owe the same round again.
\<close>

lemma notifyBatch_Inl: "notifyBatch ds w = (Inl e, w') \<Longrightarrow> w' = w"
  by (auto simp: notifyBatch_def Let_def split: if_splits dest: transaction_rolls_back)

theorem failed_notice_resets_flags:
  assumes g1: "g1 = g\<lparr>g_currentRound := g_currentRound g + 1, g_staleAt := None\<rparr>" "g_currentRound g < g_totalRounds g"
    and failed: "fst (notifyBatch (map (round_opened_dto g1 (g_currentRound g1)) ms) (reset_paid ms (sw s))) = Inl e"
  shows "advanceGroupRound g ms s = (Inl e, s\<lparr>sw := reset_paid ms (sw s)\<rparr>)"
proof -
  obtain w2 where run: "notifyBatch (map (round_opened_dto g1 (g_currentRound g1)) ms) (reset_paid ms (sw s)) = (Inl e, w2)"
    using failed by (metis prod.collapse)
  from run notifyBatch_Inl [OF run] g1 show ?thesis by (simp add: advanceGroupRound_def Let_def)
qed

subsection \<open>Statuses\<close>

definition status_after :: "world \<Rightarrow> rosca_group \<Rightarrow> group_status" where
  "status_after w g =
     (let st = (if g_status g = GS_PENDING \<and> member_count (g_id g) w \<ge> g_minMembers g \<and> truthy (g_contractAddress g)
                then GS_ACTIVE else g_status g)
      in if st = GS_ACTIVE \<and> g_currentRound g \<ge> g_totalRounds g then GS_COMPLETED else st)"

definition status_changes :: "world \<Rightarrow> rosca_group \<Rightarrow> bool" where
  "status_changes w g \<longleftrightarrow> g_deletedAt g = None \<and> status_after w g \<noteq> g_status g"

lemma checkAndUpdate_result:
  "snd (checkAndUpdateGroupStatus g s) = (if status_after (sw s) g = g_status g then s
     else save_group_at (g\<lparr>g_status := status_after (sw s) g\<rparr>) s)"
  by (cases "g_status g") (simp_all add: checkAndUpdateGroupStatus_def status_after_def Let_def)

lemma status_after_same: "memberships w' = memberships w \<Longrightarrow> status_after w' g = status_after w g"
  by (simp add: status_after_def member_count_def)

lemma update_statuses_groups:
  "groups (sw (snd (update_statuses gs n s)))
     = fold (\<lambda>g t. save_row g_id (g\<lparr>g_status := status_after (sw s) g\<rparr>) t)
         (filter (\<lambda>g. status_after (sw s) g \<noteq> g_status g) gs) (groups (sw s)) \<and>
   memberships (sw (snd (update_statuses gs n s))) = memberships (sw s)"
proof (induction gs arbitrary: n s)
  case (Cons g gs)
  let ?s1 = "snd (checkAndUpdateGroupStatus g s)"
  have mem: "memberships (sw ?s1) = memberships (sw s)" by (simp add: checkAndUpdate_result)
  have eq: "update_statuses (g # gs) n s
      = update_statuses gs (if fst (checkAndUpdateGroupStatus g s) then n + 1 else n) ?s1" by (simp add: split_beta)
  show ?case unfolding eq using Cons.IH [of _ ?s1] mem status_after_same [OF mem]
    by (simp add: checkAndUpdate_result save_group_def)
qed simp

lemma updateGroupStatuses_groups:
  assumes "keys_ok (sw s)" "updateGroupStatuses s = (r, s')"
  shows "groups (sw s') = map (\<lambda>g. if status_changes (sw s) g then g\<lparr>g_status := status_after (sw s) g\<rparr> else g) (groups (sw s))"
    and "memberships (sw s') = memberships (sw s)"
proof -
  let ?gs = "filter (\<lambda>g. (g_status g = GS_PENDING \<or> g_status g = GS_ACTIVE) \<and> g_deletedAt g = None) (groups (sw s))"
  have run: "s' = snd (update_statuses ?gs 0 s)" using assms(2) by (simp add: updateGroupStatuses_def split_beta)
  have changed: "status_after w g \<noteq> g_status g \<Longrightarrow> g_status g = GS_PENDING \<or> g_status g = GS_ACTIVE" for w g
    by (auto simp: status_after_def Let_def split: if_splits)
  have sel: "filter (\<lambda>g. status_after (sw s) g \<noteq> g_status g) ?gs = filter (status_changes (sw s)) (groups (sw s))"
    by (auto simp: status_changes_def intro!: filter_cong dest: changed)
  have "groups (sw s') = fold (\<lambda>g. save_row g_id (g\<lparr>g_status := status_after (sw s) g\<rparr>))
      (filter (status_changes (sw s)) (groups (sw s))) (groups (sw s))"
    unfolding run sel [symmetric] using update_statuses_groups by blast
  also have "\<dots> = map (\<lambda>g. if status_changes (sw s) g then g\<lparr>g_status := status_after (sw s) g\<rparr> else g) (groups (sw s))"
    by (rule fold_save_rows) (use assms(1) in \<open>simp_all add: keys_ok_def\<close>)
  finally show "groups (sw s') = map (\<lambda>g. if status_changes (sw s) g then g\<lparr>g_status := status_after (sw s) g\<rparr> else g) (groups (sw s))" .
  show "memberships (sw s') = memberships (sw s)" unfolding run using update_statuses_groups by blast
qed

lemma updateGroupStatuses_found:
  assumes "keys_ok (sw s)" "updateGroupStatuses s = (r, s')" "find_group gid (sw s) = Some g" "status_changes (sw s) g"
  shows "find_group gid (sw s') = Some (g\<lparr>g_status := status_after (sw s) g\<rparr>)"
proof -
  have g: "g \<in> set (groups (sw s))" "g_id g = gid" "g_deletedAt g = None" using find_groupD [OF assms(3)] by auto
  note gs = updateGroupStatuses_groups(1) [OF assms(1,2)]
  let ?F = "\<lambda>g. if status_changes (sw s) g then g\<lparr>g_status := status_after (sw s) g\<rparr> else g"
  have F: "?F g = g\<lparr>g_status := status_after (sw s) g\<rparr>" using assms(4) by simp
  have "List.find (\<lambda>x. g_id x = gid \<and> g_deletedAt x = None) (map ?F (groups (sw s))) = Some (?F g)"
  proof (rule find_unique)
    show "?F g \<in> set (map ?F (groups (sw s)))" using g(1) by simp
    show "g_id (?F g) = gid \<and> g_deletedAt (?F g) = None" using g by simp
    fix y assume y: "y \<in> set (map ?F (groups (sw s)))" "g_id y = gid \<and> g_deletedAt y = None"
    then obtain x where x: "x \<in> set (groups (sw s))" "y = ?F x" by auto
    then have "g_id x = g_id g" using y(2) g(2) by (simp split: if_splits)
    then have "x = g" by (rule group_by_id [OF assms(1) x(1) g(1)])
    with x(2) show "y = ?F g" by simp
  qed
  then show ?thesis by (simp only: find_group_def gs F)
qed

text \<open>
  The hourly status job ends a group before its last round is paid. An ACTIVE group in its last
  round becomes COMPLETED without advancing, and from then on the payout of this round and every
  contribution to it are refused.
\<close>

theorem status_job_ends_last_round:
  assumes "keys_ok (sw s)" "updateGroupStatuses s = (r, s')" "find_group gid (sw s) = Some g"
    and "g_status g = GS_ACTIVE" "g_currentRound g = g_totalRounds g"
  shows "find_group gid (sw s') = Some (g\<lparr>g_status := GS_COMPLETED\<rparr>) \<and>
    distributePayout D pay path_pay crash gid (g_currentRound g) (sw s')
      = (Inl (BadRequestException ''Group must be ACTIVE to distribute payout''), sw s') \<and>
    (cd_groupId d = gid \<longrightarrow> (\<exists>e. validate_window d (g\<lparr>g_status := GS_COMPLETED\<rparr>) (sw s') = Inl e))"
proof -
  have "g_deletedAt g = None" using find_groupD [OF assms(3)] by simp
  then have "status_changes (sw s) g" "status_after (sw s) g = GS_COMPLETED"
    using assms(4,5) by (simp_all add: status_changes_def status_after_def)
  with updateGroupStatuses_found [OF assms(1-3)] have f: "find_group gid (sw s') = Some (g\<lparr>g_status := GS_COMPLETED\<rparr>)" by simp
  then show ?thesis by (simp add: distributePayout_def validate_window_def)
qed

text \<open>
  The status job activates without an activation. A PENDING group with enough members that has
  a contract becomes ACTIVE in round 0: it leaves the life cycle, nobody is its recipient, and the
  payout order was never arranged.
\<close>

theorem status_job_activates_round_zero:
  assumes "keys_ok (sw s)" "updateGroupStatuses s = (r, s')" "find_group gid (sw s) = Some g" "groups_ok (sw s)"
    and "g_status g = GS_PENDING" "truthy (g_contractAddress g)" "g_minMembers g \<le> member_count gid (sw s)"
    and orders: "\<forall>m \<in> set (memberships (sw s)). \<forall>k. m_payoutOrder m = Some k \<longrightarrow> 0 \<le> k"
  shows "find_group gid (sw s') = Some (g\<lparr>g_status := GS_ACTIVE\<rparr>) \<and> g_currentRound g = 0 \<and> \<not> groups_ok (sw s') \<and>
    fst (getCurrentRecipient gid (sw s')) = Inl (NotFoundException ''No member scheduled for payout in round 0'')"
proof -
  have g: "g_deletedAt g = None" "g_id g = gid" using find_groupD [OF assms(3)] by simp_all
  have life: "g_currentRound g = 0" "1 \<le> g_totalRounds g"
    using groups_okD [OF assms(4,3)] assms(5) by (simp_all add: lifecycle_def)
  have "status_changes (sw s) g" "status_after (sw s) g = GS_ACTIVE"
    using assms(5-7) g life by (simp_all add: status_changes_def status_after_def)
  with updateGroupStatuses_found [OF assms(1-3)] have f: "find_group gid (sw s') = Some (g\<lparr>g_status := GS_ACTIVE\<rparr>)" by simp
  moreover have "\<not> groups_ok (sw s')" using groups_okD [OF _ f] life by (auto simp: lifecycle_def)
  moreover have "find_membership_by_order gid (- 1) (sw s') = None"
    using orders updateGroupStatuses_groups(2) [OF assms(1,2)]
    by (force simp: find_membership_by_order_def find_None_all)
  moreover have "show_int 0 = ''0''" by code_simp
  ultimately show ?thesis using life by (simp add: getCurrentRecipient_def)
qed

subsection \<open>Stale groups\<close>

lemma flag_stale_updated:
  "updated_at (snd (flag_stale k gs n s)) = (\<lambda>u. if u \<in> g_id ` set gs then clock s else updated_at s u)"
proof (induction gs arbitrary: n s)
  case (Cons x gs)
  let ?s1 = "save_group_at (x\<lparr>g_staleAt := Some (clock s)\<rparr>) s"
  let ?s2 = "?s1\<lparr>sw := snd (notify (stale_dto k x) (sw ?s1))\<rparr>"
  have "same_tables (sw ?s1) (snd (notify (stale_dto k x) (sw ?s1)))" by (rule notify_frame [OF prod.collapse [symmetric]])
  then have now: "clock ?s2 = clock s" by (simp add: same_tables_def clock_def)
  have "\<exists>m. flag_stale k (x # gs) n s = flag_stale k gs m ?s2"
    by (cases "fst (notify (stale_dto k x) (sw ?s1))") (auto simp: Let_def split_beta)
  then obtain m where m: "flag_stale k (x # gs) n s = flag_stale k gs m ?s2" ..
  have u: "updated_at ?s2 = (updated_at s)(g_id x := clock s)" by (simp add: save_group_at_def)
  show ?case unfolding m Cons.IH now u by (auto simp: fun_eq_iff)
qed simp

text \<open>
  Being flagged as stale gives a group more time. The deadline of a round counts from the last
  write of the group, and the flag is a write: a group that is flagged is not over, whatever was due
  before, until another full round duration has passed.
\<close>

theorem stale_flag_postpones_deadline:
  assumes "detectAndFlagStaleGroups days s = (r, s')" "g \<in> set (stale_groups days s)" "0 \<le> grace"
  shows "isDeadlinePassed g (updated_at s' (g_id g)) t grace \<longleftrightarrow>
    t \<ge> clock s + g_roundDuration g * 1000 + grace * 3600 * 1000"
proof -
  have "s' = snd (flag_stale days (stale_groups days s) 0 s)"
    using assms(1) by (simp add: detectAndFlagStaleGroups_def split_beta)
  then have "updated_at s' (g_id g) = clock s" using assms(2) by (simp add: flag_stale_updated)
  then show ?thesis by (simp add: isDeadlinePassed_def)
qed

subsection \<open>Concrete runs\<close>

definition demo_sched :: "world \<Rightarrow> sched" where
  "demo_sched w = \<lparr>sw = w\<lparr>now := 10000\<rparr>, updated_at = (\<lambda>_. 0), redis = Map.empty\<rparr>"

lemma demo_sched_keys: "keys_ok w \<Longrightarrow> keys_ok (sw (demo_sched w))"
  by (rule keys_ok_only_nothing [of w]) (simp_all add: demo_sched_def frames)

theorem lock_excludes_nobody_witness:
  "fst (withLock True ''t'' 55 (\<lambda>s. (Inr (), s)) (redis_set True (lock_name ''t'') 55 (demo_sched demo_active))) = Inr (Some ())"
proof -
  have "live (lock_name ''t'') (redis_set True (lock_name ''t'') 55 (demo_sched demo_active))" by (rule live_after_set) simp
  from lock_excludes_nobody [OF this, of 55 "\<lambda>s. (Inr (), s)" "()"] show ?thesis by simp
qed

abbreviation demo_over :: sched where
  "demo_over \<equiv> demo_sched (demo_paid 1 demo_members)"

lemma demo_over_run: "\<exists>res s'. processDeadlinedGroups 0 demo_over = (Inr res, s') \<and> errors res = 0"
proof -
  have "errors (fst (process_groups 0 (clock demo_over) (active_rows demo_over) \<lparr>advanced = 0, reminded = 0, errors = 0\<rparr> demo_over)) = 0"
    by code_simp
  then show ?thesis by (simp add: processDeadlinedGroups_def split_beta)
qed

lemma demo_over_group: "demo_group\<lparr>g_status := GS_ACTIVE, g_currentRound := 1\<rparr> \<in> set (groups (sw demo_over))"
  "round_over 0 demo_over (demo_group\<lparr>g_status := GS_ACTIVE, g_currentRound := 1\<rparr>)"
  by code_simp+

theorem processDeadlinedGroups_correct_witness:
  "\<exists>res s'. processDeadlinedGroups 0 demo_over = (Inr res, s') \<and> errors res = 0 \<and>
     groups (sw s') = [next_round (demo_group\<lparr>g_status := GS_ACTIVE, g_currentRound := 1\<rparr>)]"
proof -
  obtain res s' where run: "processDeadlinedGroups 0 demo_over = (Inr res, s')" "errors res = 0" using demo_over_run by blast
  have "groups (sw s') = map (\<lambda>g. if round_over 0 demo_over g then next_round g else g) (groups (sw demo_over))"
    using processDeadlinedGroups_correct [OF demo_sched_keys [OF demo_paid_ok(1)] run(1)] run(2) by blast
  moreover have "groups (sw demo_over) = [demo_group\<lparr>g_status := GS_ACTIVE, g_currentRound := 1\<rparr>]"
    by (simp add: demo_sched_def demo_paid_def demo_world_def)
  ultimately show ?thesis using demo_over_group(2) run by auto
qed

theorem deadline_job_skips_payout_witness:
  "\<exists>s' :: sched. find_payout_tx (buildPayoutOrderId ''g'' 1) (sw s') = None \<and>
     next_round (demo_group\<lparr>g_status := GS_ACTIVE, g_currentRound := 1\<rparr>) \<in> set (groups (sw s'))"
proof -
  obtain res s' where run: "processDeadlinedGroups 0 demo_over = (Inr res, s')" "errors res = 0" using demo_over_run by blast
  have "find_payout_tx (buildPayoutOrderId ''g'' 1) (sw demo_over) = None" by code_simp
  with deadline_job_skips_payout [OF demo_sched_keys [OF demo_paid_ok(1)] run demo_over_group] show ?thesis
    by (intro exI [of _ s']) (simp add: demo_group_def)
qed

theorem summaries_always_zero_witness:
  "\<forall>x \<in> set (summarize c_timestamp concat (\<lambda>_. False) [demo_group] demo_over). cs_totalAmount x = ''0''"
proof -
  let ?s = "demo_sched (demo_active\<lparr>groups := [demo_group\<lparr>g_status := GS_ACTIVE\<rparr>]\<rparr>)"
  obtain xs where "generateWeeklySummaries c_timestamp concat (\<lambda>_. False) ?s = (Inr xs, ?s)"
    by (simp add: generateWeeklySummaries_def)
  from summaries_always_zero [OF this] show ?thesis by (simp add: summary_of_def aggregate_row_def Let_def)
qed

theorem status_job_ends_last_round_witness:
  "\<exists>s' :: world. fst (distributePayout demo_decimals demo_pay demo_path False ''g'' 3 s')
     = Inl (BadRequestException ''Group must be ACTIVE to distribute payout'')"
proof -
  let ?s = "demo_sched (demo_paid 3 demo_members)" and ?g = "demo_group\<lparr>g_status := GS_ACTIVE, g_currentRound := 3\<rparr>"
  have "keys_ok (demo_paid 3 demo_members)" by (simp add: keys_ok_def demo_paid_def demo_defs)
  note ok = demo_sched_keys [OF this]
  have g: "find_group ''g'' (sw ?s) = Some ?g" by code_simp
  obtain r s' where run: "updateGroupStatuses ?s = (r, s')" by fastforce
  from status_job_ends_last_round [OF ok run g, of demo_decimals demo_pay demo_path False] show ?thesis
    by (intro exI [of _ "sw s'"]) (simp add: demo_group_def)
qed

theorem status_job_activates_round_zero_witness:
  "\<exists>s' :: world. find_group ''g'' s' = Some (demo_group\<lparr>g_status := GS_ACTIVE\<rparr>) \<and> g_currentRound demo_group = 0"
proof -
  let ?w = "demo_world GS_PENDING 0 demo_members"
  have ok: "keys_ok (sw (demo_sched ?w))" by (rule demo_sched_keys [OF keys_ok_demo])
  have g: "find_group ''g'' (sw (demo_sched ?w)) = Some demo_group" by code_simp
  have life: "groups_ok (sw (demo_sched ?w))" by (simp add: groups_ok_def lifecycle_def demo_sched_def demo_defs)
  obtain r s' where run: "updateGroupStatuses (demo_sched ?w) = (r, s')" by fastforce
  have "g_status demo_group = GS_PENDING" "truthy (g_contractAddress demo_group)"
    "g_minMembers demo_group \<le> member_count ''g'' (sw (demo_sched ?w))"
    "\<forall>m \<in> set (memberships (sw (demo_sched ?w))). \<forall>k. m_payoutOrder m = Some k \<longrightarrow> 0 \<le> k"
    by (simp add: demo_group_def, simp add: demo_group_def, code_simp, simp add: demo_sched_def demo_defs)
  from status_job_activates_round_zero [OF ok run g life this] show ?thesis by blast
qed

theorem stale_flag_postpones_deadline_witness:
  "\<exists>s' :: sched. \<not> isDeadlinePassed (demo_group\<lparr>g_status := GS_ACTIVE, g_currentRound := 1\<rparr>) (updated_at s' ''g'') 10001 0"
proof -
  let ?g = "demo_group\<lparr>g_status := GS_ACTIVE, g_currentRound := 1\<rparr>"
  obtain r s' where run: "detectAndFlagStaleGroups 0 demo_over = (r, s')" by fastforce
  have mem: "?g \<in> set (stale_groups 0 demo_over)" by code_simp
  have "clock demo_over = 10000" by (simp add: demo_sched_def clock_def)
  with stale_flag_postpones_deadline [OF run mem, of 0 10001] show ?thesis
    by (intro exI [of _ s']) (simp add: demo_group_def)
qed

theorem failed_notice_resets_flags_witness:
  "\<exists>e. fst (advanceGroupRound demo_group [demo_member 0 ''u0'' ''w0'' (Some 0)]
      (demo_sched (demo_active\<lparr>notifications := [old_notification\<lparr>n_idempotencyKey := Some ''g-1-u0-ROUND_OPENED'',
          n_createdAt := - 2 * day_ms\<rparr>]\<rparr>))) = Inl e"
  (is "\<exists>e. fst (advanceGroupRound demo_group ?ms ?s) = Inl e")
proof -
  have "fst (notifyBatch (map (round_opened_dto (demo_group\<lparr>g_currentRound := g_currentRound demo_group + 1, g_staleAt := None\<rparr>)
      (g_currentRound (demo_group\<lparr>g_currentRound := g_currentRound demo_group + 1, g_staleAt := None\<rparr>))) ?ms)
      (reset_paid ?ms (sw ?s))) = Inl (UniqueViolation ''IDX_notifications_idempotencyKey'')" by code_simp
  from failed_notice_resets_flags [OF refl _ this] show ?thesis by (simp add: demo_group_def)
qed

end
