(* ===== verification/Auth.thy ===== *)
theory Auth
  imports Tables
begin

text \<open>
  \<open>AuthService\<close> (\<open>auth/auth.service.ts\<close>), \<open>TwoFactorService\<close> (\<open>auth/two-factor.service.ts\<close>),
  \<open>JwtStrategy\<close> (\<open>auth/strategies/jwt.strategy.ts\<close>) and the parts of \<open>UsersService\<close> they use: signing
  in with a wallet, a password and a second factor, the rotation and revocation of refresh tokens,
  and the check of an access token against the version of its user, with its cache. The JWT library,
  bcrypt, SHA-256, TOTP and the Stellar signature are the arguments in \<open>auth_env\<close>; random secrets
  are arguments of the handlers.
\<close>

record auth_user =
  au_id :: uuid
  au_walletAddress :: wallet
  au_email :: "string option"
  au_emailBlindIndex :: "string option"
  au_password :: "string option"
  au_role :: string
  au_tokenVersion :: int
  au_twoFactorSecret :: "string option"
  au_twoFactorEnabled :: bool
  au_backupCodes :: "string list option"
  au_isActive :: bool
  au_bannedAt :: "time option"

record refresh_token =
  rt_id :: uuid
  rt_userId :: uuid
  rt_tokenHash :: string
  rt_expiresAt :: time
  rt_absoluteExpiresAt :: time
  rt_revokedAt :: "time option"
  rt_deviceId :: "string option"
  rt_deviceName :: "string option"
  rt_ipAddress :: "string option"
  rt_createdAt :: time
  rt_lastUsedAt :: time

record store_options =
  so_deviceId :: "string option"
  so_deviceName :: "string option"
  so_ipAddress :: "string option"
  so_absoluteExpiresAt :: "time option"

text \<open>The claims of a token; a missing one is \<open>None\<close>.\<close>

record claims =
  jc_sub :: string
  jc_userId :: "uuid option"
  jc_email :: string
  jc_role :: string
  jc_tokenVersion :: "int option"
  jc_twoFactorPending :: bool

text \<open>
  \<open>jwt_sign claims secret issued expires\<close> and \<open>jwt_verify token secret now\<close> of the JWT library, which
  counts in seconds.
\<close>

record auth_env =
  jwt_sign :: "claims \<Rightarrow> string \<Rightarrow> int \<Rightarrow> int \<Rightarrow> string"
  jwt_verify :: "string \<Rightarrow> string \<Rightarrow> int \<Rightarrow> claims option"
  access_secret :: string
  refresh_secret :: string
  absolute_days :: int
  sha256 :: "string \<Rightarrow> string"
  blind_index :: "string \<Rightarrow> string"
  bcrypt_compare :: "string \<Rightarrow> string \<Rightarrow> bool"
  totp_verify :: "string \<Rightarrow> string \<Rightarrow> time \<Rightarrow> bool"
  wallet_verify :: "wallet \<Rightarrow> string \<Rightarrow> string \<Rightarrow> bool"

text \<open>
  The state; \<open>version_cache\<close> is the Redis cache of token versions with the time each entry expires,
  \<open>redis_up\<close> whether Redis answers, and \<open>alerts_sent\<close> the users a mail went to.
\<close>

record auth =
  accounts :: "auth_user list"
  tokens :: "refresh_token list"
  version_cache :: "uuid \<rightharpoonup> int \<times> time"
  redis_up :: bool
  alerts_sent :: "uuid list"
  auth_now :: time
  auth_uuids :: nat

type_synonym 'a aio = "auth \<Rightarrow> 'a outcome \<times> auth"

definition auth_uuid :: "auth \<Rightarrow> uuid" where
  "auth_uuid s = show_nat (auth_uuids s)"

definition seconds :: "auth \<Rightarrow> int" where
  "seconds s = auth_now s div 1000"

subsection \<open>Users\<close>

definition find_account :: "uuid \<Rightarrow> auth \<Rightarrow> auth_user option" where
  "find_account i s = List.find (\<lambda>u. au_id u = i) (accounts s)"

definition findByWalletAddress :: "wallet \<Rightarrow> auth \<Rightarrow> auth_user option" where
  "findByWalletAddress a s = List.find (\<lambda>u. au_walletAddress u = a) (accounts s)"

definition findByEmail :: "auth_env \<Rightarrow> string \<Rightarrow> auth \<Rightarrow> auth_user option" where
  "findByEmail E email s = List.find (\<lambda>u. au_emailBlindIndex u = Some (blind_index E email)) (accounts s)"

definition findById :: "uuid \<Rightarrow> auth_user aio" where
  "findById i s = (case find_account i s of None \<Rightarrow> (Inl (NotFoundException ''User not found''), s) | Some u \<Rightarrow> (Inr u, s))"

definition update_account :: "uuid \<Rightarrow> (auth_user \<Rightarrow> auth_user) \<Rightarrow> auth \<Rightarrow> auth" where
  "update_account i f s = s\<lparr>accounts := map (\<lambda>u. if au_id u = i then f u else u) (accounts s)\<rparr>"

text \<open>
  \<open>RedisService\<close> logs an error and goes on: with Redis down \<open>del\<close> leaves the entry where it is, \<open>get\<close>
  finds nothing and \<open>set\<close> writes nothing.
\<close>

definition invalidate :: "uuid \<Rightarrow> auth \<Rightarrow> auth" where
  "invalidate i s = (if redis_up s then s\<lparr>version_cache := (version_cache s)(i := None)\<rparr> else s)"

text \<open>The cache of token versions: an entry lives for 30 seconds.\<close>

definition cached_version :: "uuid \<Rightarrow> auth \<Rightarrow> int option" where
  "cached_version i s =
     (if \<not> redis_up s then None
      else case version_cache s i of None \<Rightarrow> None | Some (v, t) \<Rightarrow> if t \<le> auth_now s then None else Some v)"

definition cache_version :: "uuid \<Rightarrow> int \<Rightarrow> auth \<Rightarrow> auth" where
  "cache_version i v s =
     (if redis_up s then s\<lparr>version_cache := (version_cache s)(i \<mapsto> (v, auth_now s + 30 * 1000))\<rparr> else s)"

definition new_account :: "uuid \<Rightarrow> wallet \<Rightarrow> string option \<Rightarrow> string option \<Rightarrow> auth_user" where
  "new_account i a email password =
     \<lparr>au_id = i, au_walletAddress = a, au_email = email, au_emailBlindIndex = None, au_password = password,
      au_role = ''user'', au_tokenVersion = 0, au_twoFactorSecret = None, au_twoFactorEnabled = False,
      au_backupCodes = None, au_isActive = True, au_bannedAt = None\<rparr>"

text \<open>\<open>create\<close>: wallets are unique, and nothing computes the blind index of the email.\<close>

definition create_account :: "wallet \<Rightarrow> string option \<Rightarrow> string option \<Rightarrow> auth_user aio" where
  "create_account a email password s =
     (if findByWalletAddress a s \<noteq> None then (Inl (UniqueViolation ''users_walletAddress''), s)
      else let u = new_account (auth_uuid s) a email password
           in (Inr u, s\<lparr>accounts := accounts s @ [u], auth_uuids := Suc (auth_uuids s)\<rparr>))"

definition incrementTokenVersion :: "uuid \<Rightarrow> int aio" where
  "incrementTokenVersion i s =
     (case findById i s of
        (Inl e, s1) \<Rightarrow> (Inl e, s1)
      | (Inr u, s1) \<Rightarrow>
          (let v = au_tokenVersion u + 1
           in (Inr v, invalidate i (update_account i (\<lambda>x. x\<lparr>au_tokenVersion := v\<rparr>) s1))))"

definition revokeAllSessions :: "uuid \<Rightarrow> unit aio" where
  "revokeAllSessions i s =
     (case findById i s of
        (Inl e, s1) \<Rightarrow> (Inl e, s1)
      | (Inr u, s1) \<Rightarrow>
          (Inr (), invalidate i (update_account i (\<lambda>x. x\<lparr>au_tokenVersion := au_tokenVersion u + 1\<rparr>) s1)))"

definition banUser :: "uuid \<Rightarrow> auth_user aio" where
  "banUser i s =
     (case find_account i s of
        None \<Rightarrow> (Inl (JsError ''User not found''), s)
      | Some u \<Rightarrow>
          let ban = (\<lambda>x. x\<lparr>au_bannedAt := Some (auth_now s), au_isActive := False, au_tokenVersion := au_tokenVersion u + 1\<rparr>)
          in (Inr (ban u), invalidate i (update_account i ban s)))"

subsection \<open>Tokens\<close>

definition day :: int where "day = 24 * 60 * 60 * 1000"

text \<open>A token row that is written gets a new \<open>lastUsedAt\<close>.\<close>

definition update_tokens :: "(refresh_token \<Rightarrow> bool) \<Rightarrow> (refresh_token \<Rightarrow> refresh_token) \<Rightarrow> auth \<Rightarrow> auth" where
  "update_tokens P f s = s\<lparr>tokens := map (\<lambda>t. if P t then (f t)\<lparr>rt_lastUsedAt := auth_now s\<rparr> else t) (tokens s)\<rparr>"

definition revoke :: "time \<Rightarrow> refresh_token \<Rightarrow> refresh_token" where
  "revoke t r = r\<lparr>rt_revokedAt := Some t\<rparr>"

definition find_token :: "string \<Rightarrow> auth \<Rightarrow> refresh_token option" where
  "find_token h s = List.find (\<lambda>t. rt_tokenHash t = h) (tokens s)"

record token_pair =
  accessToken :: string
  refreshToken :: string

definition generateTokens :: "auth_env \<Rightarrow> wallet \<Rightarrow> string \<Rightarrow> string \<Rightarrow> int option \<Rightarrow> token_pair aio" where
  "generateTokens E sub email role tokenVersion s =
     (case findByWalletAddress sub s of
        None \<Rightarrow> (Inl (TypeError ''Cannot read properties of null''), s)
      | Some u \<Rightarrow>
          let version = (case tokenVersion of Some v \<Rightarrow> v | None \<Rightarrow> au_tokenVersion u);
              c = \<lparr>jc_sub = sub, jc_userId = Some (au_id u), jc_email = email, jc_role = role,
                   jc_tokenVersion = Some version, jc_twoFactorPending = False\<rparr>
          in (Inr \<lparr>accessToken = jwt_sign E c (access_secret E) (seconds s) (seconds s + 15 * 60),
                   refreshToken = jwt_sign E c (refresh_secret E) (seconds s) (seconds s + 7 * 24 * 60 * 60)\<rparr>, s))"

definition storeRefreshToken :: "auth_env \<Rightarrow> uuid \<Rightarrow> string \<Rightarrow> store_options \<Rightarrow> unit aio" where
  "storeRefreshToken E uid token opts s =
     (let tokenHash = sha256 E token
      in if find_token tokenHash s \<noteq> None then (Inl (UniqueViolation ''refresh_tokens_tokenHash''), s)
         else (Inr (), s\<lparr>tokens := tokens s @
                [\<lparr>rt_id = auth_uuid s, rt_userId = uid, rt_tokenHash = tokenHash, rt_expiresAt = auth_now s + 7 * day,
                  rt_absoluteExpiresAt = (case so_absoluteExpiresAt opts of Some t \<Rightarrow> t | None \<Rightarrow> auth_now s + absolute_days E * day),
                  rt_revokedAt = None, rt_deviceId = so_deviceId opts, rt_deviceName = so_deviceName opts,
                  rt_ipAddress = so_ipAddress opts, rt_createdAt = auth_now s, rt_lastUsedAt = auth_now s\<rparr>],
                auth_uuids := Suc (auth_uuids s)\<rparr>))"

text \<open>The last two steps of every way of signing in.\<close>

definition issue_tokens :: "auth_env \<Rightarrow> auth_user \<Rightarrow> int option \<Rightarrow> store_options \<Rightarrow> token_pair aio" where
  "issue_tokens E u version opts s =
     (case generateTokens E (au_walletAddress u) (case au_email u of None \<Rightarrow> [] | Some x \<Rightarrow> x) (au_role u) version s of
        (Inl e, s1) \<Rightarrow> (Inl e, s1)
      | (Inr p, s1) \<Rightarrow>
          (case storeRefreshToken E (au_id u) (refreshToken p) opts s1 of
             (Inl e, s2) \<Rightarrow> (Inl e, s2) | (Inr _, s2) \<Rightarrow> (Inr p, s2)))"

definition revokeAllUserTokens :: "uuid \<Rightarrow> unit aio" where
  "revokeAllUserTokens uid s =
     revokeAllSessions uid (update_tokens (\<lambda>t. rt_userId t = uid \<and> rt_revokedAt t = None) (revoke (auth_now s)) s)"

subsection \<open>Signing in\<close>

definition registerWithWallet :: "auth_env \<Rightarrow> wallet \<Rightarrow> string \<Rightarrow> string \<Rightarrow> store_options \<Rightarrow> token_pair aio" where
  "registerWithWallet E a signature challenge opts s =
     (if \<not> wallet_verify E a challenge signature then (Inl (UnauthorizedException ''Invalid signature''), s)
      else case (case findByWalletAddress a s of Some u \<Rightarrow> (Inr u, s) | None \<Rightarrow> create_account a None None s) of
        (Inl e, s1) \<Rightarrow> (Inl e, s1)
      | (Inr u, s1) \<Rightarrow> issue_tokens E u None opts s1)"

text \<open>\<open>hashed\<close> is the bcrypt hash of the password, which is salted.\<close>

definition register :: "auth_env \<Rightarrow> string \<Rightarrow> string \<Rightarrow> store_options \<Rightarrow> token_pair aio" where
  "register E email hashed opts s =
     (if findByEmail E email s \<noteq> None then (Inl (ConflictException ''Email already exists''), s)
      else case create_account (''internal-'' @ show_int (auth_now s)) (Some email) (Some hashed) s of
        (Inl e, s1) \<Rightarrow> (Inl e, s1)
      | (Inr u, s1) \<Rightarrow> issue_tokens E u None opts s1)"

text \<open>The body of the \<open>ForbiddenException\<close> of a login with a second factor carries a token.\<close>

datatype login_answer =
    LoggedIn token_pair
  | Refused exn
  | TwoFactorRequired string

definition issuePreAuthToken :: "auth_env \<Rightarrow> auth_user \<Rightarrow> auth \<Rightarrow> string" where
  "issuePreAuthToken E u s =
     jwt_sign E \<lparr>jc_sub = au_id u, jc_userId = None, jc_email = (case au_email u of None \<Rightarrow> [] | Some x \<Rightarrow> x),
                 jc_role = au_role u, jc_tokenVersion = None, jc_twoFactorPending = True\<rparr>
       (access_secret E) (seconds s) (seconds s + 5 * 60)"

definition login :: "auth_env \<Rightarrow> string \<Rightarrow> string \<Rightarrow> store_options \<Rightarrow> auth \<Rightarrow> login_answer \<times> auth" where
  "login E email password opts s =
     (case findByEmail E email s of
        None \<Rightarrow> (Refused (UnauthorizedException ''Invalid credentials''), s)
      | Some u \<Rightarrow>
          if \<not> truthy (au_password u) then (Refused (UnauthorizedException ''Invalid credentials''), s)
          else if \<not> bcrypt_compare E password (the (au_password u))
          then (Refused (UnauthorizedException ''Invalid credentials''), s)
          else if au_twoFactorEnabled u then (TwoFactorRequired (issuePreAuthToken E u s), s)
          else (case issue_tokens E u None opts s of (Inl e, s1) \<Rightarrow> (Refused e, s1) | (Inr p, s1) \<Rightarrow> (LoggedIn p, s1)))"

subsection \<open>Rotation and revocation\<close>

definition sendSecurityAlert :: "uuid \<Rightarrow> auth \<Rightarrow> auth" where
  "sendSecurityAlert uid s =
     (case find_account uid s of
        None \<Rightarrow> s
      | Some u \<Rightarrow> if truthy (au_email u) then s\<lparr>alerts_sent := alerts_sent s @ [uid]\<rparr> else s)"

definition refreshTokens :: "auth_env \<Rightarrow> string \<Rightarrow> store_options \<Rightarrow> token_pair aio" where
  "refreshTokens E incoming opts s =
     (if jwt_verify E incoming (refresh_secret E) (seconds s) = None
      then (Inl (UnauthorizedException ''Invalid refresh token''), s)
      else case find_token (sha256 E incoming) s of
        None \<Rightarrow> (Inl (UnauthorizedException ''Access Denied''), s)
      | Some stored \<Rightarrow>
          if rt_revokedAt stored \<noteq> None
          then (case revokeAllUserTokens (rt_userId stored) s of
                  (Inl e, s1) \<Rightarrow> (Inl e, s1)
                | (Inr _, s1) \<Rightarrow> (Inl (UnauthorizedException ''Access Denied''), sendSecurityAlert (rt_userId stored) s1))
          else if rt_expiresAt stored < auth_now s
          then (case revokeAllUserTokens (rt_userId stored) s of
                  (Inl e, s1) \<Rightarrow> (Inl e, s1)
                | (Inr _, s1) \<Rightarrow> (Inl (UnauthorizedException ''Access Denied''), s1))
          else let s1 = update_tokens (\<lambda>t. rt_id t = rt_id stored) (revoke (auth_now s)) s in
          if rt_absoluteExpiresAt stored < auth_now s
          then (Inl (UnauthorizedException ''Session has expired. Please log in again.''), s1)
          else case findById (rt_userId stored) s1 of
            (Inl e, s2) \<Rightarrow> (Inl e, s2)
          | (Inr u, s2) \<Rightarrow>
              (case incrementTokenVersion (au_id u) s2 of
                 (Inl e, s3) \<Rightarrow> (Inl e, s3)
               | (Inr v, s3) \<Rightarrow>
                   issue_tokens E u (Some v) (opts\<lparr>so_absoluteExpiresAt := Some (rt_absoluteExpiresAt stored)\<rparr>) s3))"

definition listSessions :: "uuid \<Rightarrow> auth \<Rightarrow> refresh_token list" where
  "listSessions uid s =
     filter (\<lambda>t. rt_expiresAt t > auth_now s \<and> rt_absoluteExpiresAt t > auth_now s)
       (sort_key (\<lambda>t. - rt_lastUsedAt t) (filter (\<lambda>t. rt_userId t = uid \<and> rt_revokedAt t = None) (tokens s)))"

definition revokeSession :: "uuid \<Rightarrow> uuid \<Rightarrow> unit aio" where
  "revokeSession uid sessionId s =
     (case List.find (\<lambda>t. rt_id t = sessionId) (tokens s) of
        None \<Rightarrow> (Inl (NotFoundException ''Session not found''), s)
      | Some t \<Rightarrow>
          if rt_userId t \<noteq> uid then (Inl (NotFoundException ''Session not found''), s)
          else (Inr (), update_tokens (\<lambda>x. rt_id x = sessionId) (revoke (auth_now s)) s))"

definition logout :: "auth_env \<Rightarrow> uuid \<Rightarrow> string option \<Rightarrow> unit aio" where
  "logout E uid token s =
     (if truthy token
      then revokeAllSessions uid (update_tokens (\<lambda>t. rt_tokenHash t = sha256 E (the token)) (revoke (auth_now s)) s)
      else case revokeAllUserTokens uid s of
        (Inl e, s1) \<Rightarrow> (Inl e, s1) | (Inr _, s1) \<Rightarrow> revokeAllSessions uid s1)"

definition deleteExpiredTokens :: "int aio" where
  "deleteExpiredTokens s =
     (Inr (int (length (filter (\<lambda>t. rt_expiresAt t < auth_now s) (tokens s)))),
      s\<lparr>tokens := filter (\<lambda>t. \<not> rt_expiresAt t < auth_now s) (tokens s)\<rparr>)"

subsection \<open>The second factor\<close>

definition verifyPreAuthToken :: "auth_env \<Rightarrow> string \<Rightarrow> claims aio" where
  "verifyPreAuthToken E token s =
     (case jwt_verify E token (access_secret E) (seconds s) of
        None \<Rightarrow> (Inl (UnauthorizedException ''Invalid or expired pre-auth token''), s)
      | Some c \<Rightarrow> if \<not> jc_twoFactorPending c then (Inl (UnauthorizedException ''Invalid or expired pre-auth token''), s)
                 else (Inr c, s))"

text \<open>\<open>secret\<close> and \<open>codes\<close> are the random secret and backup codes.\<close>

definition enable2FA :: "auth_env \<Rightarrow> string \<Rightarrow> string list \<Rightarrow> uuid \<Rightarrow> (string \<times> string list) aio" where
  "enable2FA E secret codes uid s =
     (case findById uid s of
        (Inl e, s1) \<Rightarrow> (Inl e, s1)
      | (Inr u, s1) \<Rightarrow>
          (Inr (secret, codes), update_account uid (\<lambda>x. x\<lparr>au_twoFactorSecret := Some secret, au_twoFactorEnabled := False,
             au_backupCodes := Some (map (sha256 E) codes)\<rparr>) s1))"

definition verify2FA :: "auth_env \<Rightarrow> uuid \<Rightarrow> string \<Rightarrow> unit aio" where
  "verify2FA E uid token s =
     (case findById uid s of
        (Inl e, s1) \<Rightarrow> (Inl e, s1)
      | (Inr u, s1) \<Rightarrow>
          if \<not> truthy (au_twoFactorSecret u) then (Inl (BadRequestException ''2FA setup has not been initiated''), s1)
          else if \<not> totp_verify E token (the (au_twoFactorSecret u)) (auth_now s1)
          then (Inl (BadRequestException ''Invalid TOTP token''), s1)
          else (Inr (), update_account uid (\<lambda>x. x\<lparr>au_twoFactorEnabled := True\<rparr>) s1))"

definition disable2FA :: "auth_env \<Rightarrow> uuid \<Rightarrow> string \<Rightarrow> string \<Rightarrow> unit aio" where
  "disable2FA E uid password token s =
     (case findById uid s of
        (Inl e, s1) \<Rightarrow> (Inl e, s1)
      | (Inr u, s1) \<Rightarrow>
          if \<not> au_twoFactorEnabled u then (Inl (BadRequestException ''2FA is not enabled''), s1)
          else if \<not> truthy (au_password u) then (Inl (BadRequestException ''Password verification not available''), s1)
          else if \<not> bcrypt_compare E password (the (au_password u)) then (Inl (UnauthorizedException ''Invalid password''), s1)
          else if \<not> totp_verify E token (the (au_twoFactorSecret u)) (auth_now s1)
          then (Inl (UnauthorizedException ''Invalid TOTP token''), s1)
          else (Inr (), update_account uid (\<lambda>x. x\<lparr>au_twoFactorSecret := None, au_twoFactorEnabled := False,
                  au_backupCodes := None\<rparr>) s1))"

fun remove_at :: "nat \<Rightarrow> 'a list \<Rightarrow> 'a list" where
  "remove_at _ [] = []"
| "remove_at 0 (x # xs) = xs"
| "remove_at (Suc i) (x # xs) = x # remove_at i xs"

fun index_of :: "'a \<Rightarrow> 'a list \<Rightarrow> nat option" where
  "index_of _ [] = None"
| "index_of x (y # ys) = (if x = y then Some 0 else map_option Suc (index_of x ys))"

definition completeTwoFactorLogin :: "auth_env \<Rightarrow> string \<Rightarrow> string \<Rightarrow> uuid aio" where
  "completeTwoFactorLogin E preAuthToken token s =
     (case verifyPreAuthToken E preAuthToken s of
        (Inl e, s1) \<Rightarrow> (Inl e, s1)
      | (Inr c, s1) \<Rightarrow>
          (case findById (jc_sub c) s1 of
             (Inl e, s2) \<Rightarrow> (Inl e, s2)
           | (Inr u, s2) \<Rightarrow>
               if \<not> au_twoFactorEnabled u \<or> \<not> truthy (au_twoFactorSecret u)
               then (Inl (ForbiddenException ''2FA is not enabled for this account''), s2)
               else if totp_verify E token (the (au_twoFactorSecret u)) (auth_now s2) then (Inr (au_id u), s2)
               else let hashedCodes = (case au_backupCodes u of None \<Rightarrow> [] | Some cs \<Rightarrow> cs) in
               case index_of (sha256 E token) hashedCodes of
                 None \<Rightarrow> (Inl (UnauthorizedException ''Invalid TOTP token or backup code''), s2)
               | Some i \<Rightarrow>
                   (Inr (au_id u), update_account (au_id u) (\<lambda>x. x\<lparr>au_backupCodes := Some (remove_at i hashedCodes)\<rparr>) s2)))"

definition no_options :: store_options where
  "no_options = \<lparr>so_deviceId = None, so_deviceName = None, so_ipAddress = None, so_absoluteExpiresAt = None\<rparr>"

text \<open>\<open>login2FA\<close> of the controller.\<close>

definition login2FA :: "auth_env \<Rightarrow> string \<Rightarrow> string \<Rightarrow> token_pair aio" where
  "login2FA E preAuthToken token s =
     (case completeTwoFactorLogin E preAuthToken token s of
        (Inl e, s1) \<Rightarrow> (Inl e, s1)
      | (Inr uid, s1) \<Rightarrow>
          (case findById uid s1 of
             (Inl e, s2) \<Rightarrow> (Inl e, s2)
           | (Inr u, s2) \<Rightarrow> issue_tokens E u None no_options s2))"

subsection \<open>Access tokens\<close>

text \<open>\<open>JwtStrategy\<close>: the library has checked the signature and the expiry.\<close>

definition validate :: "claims \<Rightarrow> auth_user aio" where
  "validate c s =
     (let tokenV = (case jc_tokenVersion c of None \<Rightarrow> 0 | Some v \<Rightarrow> v)
      in if (case jc_userId c of None \<Rightarrow> False | Some i \<Rightarrow> (case cached_version i s of None \<Rightarrow> False | Some v \<Rightarrow> v \<noteq> tokenV))
         then (Inl (UnauthorizedException ''Token version mismatch - session revoked''), s)
         else case findByWalletAddress (jc_sub c) s of
           None \<Rightarrow> (Inl (UnauthorizedException ''Unauthorized''), s)
         | Some u \<Rightarrow>
             if tokenV \<noteq> au_tokenVersion u
             then (Inl (UnauthorizedException ''Token version mismatch - session revoked''), s)
             else (Inr u, cache_version (au_id u) (au_tokenVersion u) s))"

definition authenticate :: "auth_env \<Rightarrow> string \<Rightarrow> auth_user aio" where
  "authenticate E token s =
     (case jwt_verify E token (access_secret E) (seconds s) of
        None \<Rightarrow> (Inl (UnauthorizedException ''Unauthorized''), s)
      | Some c \<Rightarrow> validate c s)"

subsection \<open>All calls\<close>

text \<open>\<open>Redis\<close> is not a call: Redis goes down, or comes back with the entries it had.\<close>

datatype auth_op =
    RegisterWallet wallet string string store_options
  | Register string string store_options
  | Login string string store_options
  | Refresh string store_options
  | Logout uuid "string option"
  | RevokeSession uuid uuid
  | RevokeAll uuid
  | Cleanup
  | Enable2FA string "string list" uuid
  | Verify2FA uuid string
  | Disable2FA uuid string string
  | Login2FA string string
  | Ban uuid
  | PasswordChanged uuid
  | Authenticate string
  | Redis bool
  | Tick nat

fun auth_exec :: "auth_env \<Rightarrow> auth_op \<Rightarrow> auth \<Rightarrow> auth" where
  "auth_exec E (RegisterWallet a sig c opts) s = snd (registerWithWallet E a sig c opts s)"
| "auth_exec E (Register email h opts) s = snd (register E email h opts s)"
| "auth_exec E (Login email p opts) s = snd (login E email p opts s)"
| "auth_exec E (Refresh t opts) s = snd (refreshTokens E t opts s)"
| "auth_exec E (Logout i t) s = snd (logout E i t s)"
| "auth_exec E (RevokeSession i j) s = snd (revokeSession i j s)"
| "auth_exec E (RevokeAll i) s = snd (revokeAllUserTokens i s)"
| "auth_exec E Cleanup s = snd (deleteExpiredTokens s)"
| "auth_exec E (Enable2FA k cs i) s = snd (enable2FA E k cs i s)"
| "auth_exec E (Verify2FA i t) s = snd (verify2FA E i t s)"
| "auth_exec E (Disable2FA i p t) s = snd (disable2FA E i p t s)"
| "auth_exec E (Login2FA p t) s = snd (login2FA E p t s)"
| "auth_exec E (Ban i) s = snd (banUser i s)"
| "auth_exec E (PasswordChanged i) s = snd (incrementTokenVersion i s)"
| "auth_exec E (Authenticate t) s = snd (authenticate E t s)"
| "auth_exec E (Redis b) s = s\<lparr>redis_up := b\<rparr>"
| "auth_exec E (Tick n) s = s\<lparr>auth_now := auth_now s + int n\<rparr>"

subsection \<open>The invariant\<close>

text \<open>A token carries the second it was signed in, and its hash does too.\<close>

definition signatures_dated :: "auth_env \<Rightarrow> bool" where
  "signatures_dated E \<longleftrightarrow>
     (\<forall>c k i e c' k' i' e'. sha256 E (jwt_sign E c k i e) = sha256 E (jwt_sign E c' k' i' e') \<longrightarrow> i = i')"

definition dated :: "auth_env \<Rightarrow> time \<Rightarrow> refresh_token \<Rightarrow> bool" where
  "dated E t r \<longleftrightarrow> rt_createdAt r \<le> t \<and> rt_expiresAt r = rt_createdAt r + 7 * day \<and>
     (\<exists>c k e. rt_tokenHash r = sha256 E (jwt_sign E c k (rt_createdAt r div 1000) e))"

definition accounts_ok :: "auth \<Rightarrow> bool" where
  "accounts_ok s \<longleftrightarrow> distinct (map au_id (accounts s)) \<and> distinct (map au_walletAddress (accounts s)) \<and>
     au_id ` set (accounts s) \<subseteq> show_nat ` {..<auth_uuids s}"

definition tokens_ok :: "auth_env \<Rightarrow> auth \<Rightarrow> bool" where
  "tokens_ok E s \<longleftrightarrow> distinct (map rt_id (tokens s)) \<and> distinct (map rt_tokenHash (tokens s)) \<and>
     rt_id ` set (tokens s) \<subseteq> show_nat ` {..<auth_uuids s} \<and> (\<forall>r \<in> set (tokens s). dated E (auth_now s) r)"

text \<open>
  An entry of the cache is never newer than the stored version and lives for 30 seconds at most; it
  may be older, when Redis was down while the version grew. A cache is fresh when no entry is older
  and Redis is up.
\<close>

definition cache_holds :: "(int \<Rightarrow> int \<Rightarrow> bool) \<Rightarrow> auth \<Rightarrow> bool" where
  "cache_holds R s \<longleftrightarrow> (\<forall>i v t. version_cache s i = Some (v, t) \<longrightarrow>
     (\<exists>u. find_account i s = Some u \<and> R v (au_tokenVersion u)))"

definition cache_ok :: "auth \<Rightarrow> bool" where
  "cache_ok s \<longleftrightarrow> cache_holds (\<le>) s \<and> (\<forall>i v t. version_cache s i = Some (v, t) \<longrightarrow> t \<le> auth_now s + 30 * 1000)"

definition cache_fresh :: "auth \<Rightarrow> bool" where
  "cache_fresh s \<longleftrightarrow> redis_up s \<and> cache_holds (=) s"

definition auth_ok :: "auth_env \<Rightarrow> auth \<Rightarrow> bool" where
  "auth_ok E s \<longleftrightarrow> signatures_dated E \<and> accounts_ok s \<and> tokens_ok E s \<and> cache_ok s"

text \<open>
  A hash is spent when its token is revoked, or when it belongs to a token of an earlier second that
  is gone: the first cannot be undone, and nobody can sign the second again.
\<close>

definition spent :: "auth_env \<Rightarrow> string \<Rightarrow> auth \<Rightarrow> bool" where
  "spent E h s \<longleftrightarrow> (\<exists>r \<in> set (tokens s). rt_tokenHash r = h \<and> rt_revokedAt r \<noteq> None) \<or>
     h \<notin> rt_tokenHash ` set (tokens s) \<and> (\<exists>c k i e. h = sha256 E (jwt_sign E c k i e) \<and> i < seconds s)"

text \<open>Accounts stay, with their wallets; versions only grow; no call writes a blind index.\<close>

definition account_le :: "auth_user \<Rightarrow> auth_user \<Rightarrow> bool" where
  "account_le u u' \<longleftrightarrow> au_id u' = au_id u \<and> au_walletAddress u' = au_walletAddress u \<and>
     au_tokenVersion u \<le> au_tokenVersion u'"

definition no_blind_index :: "auth \<Rightarrow> bool" where
  "no_blind_index s \<longleftrightarrow> (\<forall>u \<in> set (accounts s). au_emailBlindIndex u = None)"

definition accounts_grow :: "auth \<Rightarrow> auth \<Rightarrow> bool" where
  "accounts_grow s0 s \<longleftrightarrow> (\<forall>u \<in> set (accounts s0). \<exists>u' \<in> set (accounts s). account_le u u') \<and>
     (no_blind_index s0 \<longrightarrow> no_blind_index s)"

definition auth_kept :: "auth_env \<Rightarrow> auth \<Rightarrow> auth \<Rightarrow> bool" where
  "auth_kept E s0 s \<longleftrightarrow> auth_ok E s \<and> (\<forall>h. spent E h s0 \<longrightarrow> spent E h s) \<and> accounts_grow s0 s"

definition auth_from :: "auth_env \<Rightarrow> auth \<Rightarrow> auth \<Rightarrow> bool" where
  "auth_from E s0 s \<longleftrightarrow> auth_ok E s \<and> (\<forall>h. spent E h s0 \<longrightarrow> spent E h s) \<and> accounts_grow s0 s \<and>
     (cache_fresh s0 \<longrightarrow> cache_fresh s)"

named_theorems auth_steps \<open>writes that keep the invariant and the spent tokens\<close>

lemma accounts_grow_refl [simp]: "accounts_grow s s"
  by (auto simp: accounts_grow_def account_le_def)

lemma accounts_grow_fields [simp]:
  "accounts_grow s0 (s\<lparr>tokens := ts\<rparr>) = accounts_grow s0 s" "accounts_grow s0 (s\<lparr>auth_now := t\<rparr>) = accounts_grow s0 s"
  "accounts_grow s0 (s\<lparr>version_cache := c\<rparr>) = accounts_grow s0 s" "accounts_grow s0 (s\<lparr>alerts_sent := a\<rparr>) = accounts_grow s0 s"
  "accounts_grow s0 (s\<lparr>auth_uuids := n\<rparr>) = accounts_grow s0 s" "accounts_grow s0 (s\<lparr>redis_up := b\<rparr>) = accounts_grow s0 s"
  "accounts_grow s0 (update_tokens P g s) = accounts_grow s0 s"
  "accounts_grow s0 (invalidate i s) = accounts_grow s0 s"
  by (simp_all add: accounts_grow_def no_blind_index_def update_tokens_def invalidate_def)

lemma account_le_trans: "account_le u v \<Longrightarrow> account_le v w \<Longrightarrow> account_le u w"
  by (auto simp: account_le_def)

lemma accounts_grow_trans:
  assumes "accounts_grow s t" "accounts_grow t u" shows "accounts_grow s u"
  using assms account_le_trans unfolding accounts_grow_def by (intro conjI; blast)

lemma auth_from_refl: "auth_ok E s \<Longrightarrow> auth_from E s s"
  by (simp add: auth_from_def)

lemma auth_from_trans: "auth_from E s t \<Longrightarrow> auth_from E t u \<Longrightarrow> auth_from E s u"
  by (auto simp: auth_from_def intro: accounts_grow_trans)

lemma auth_from_kept: "auth_from E s t \<Longrightarrow> auth_kept E s t"
  by (simp add: auth_from_def auth_kept_def)

lemma accounts_grow_update:
  assumes "accounts_grow s0 s" "\<And>u. u \<in> set (accounts s) \<Longrightarrow> au_id u = i \<Longrightarrow> account_le u (f u)"
    and "\<And>u. au_emailBlindIndex (f u) = au_emailBlindIndex u"
  shows "accounts_grow s0 (update_account i f s)"
proof -
  have "\<exists>u' \<in> set (accounts (update_account i f s)). account_le u u'" if "u \<in> set (accounts s)" for u
    using that assms(2) by (intro bexI [of _ "if au_id u = i then f u else u"]) (auto simp: update_account_def account_le_def)
  moreover have "no_blind_index s \<Longrightarrow> no_blind_index (update_account i f s)"
    by (auto simp: no_blind_index_def update_account_def assms(3))
  ultimately have "accounts_grow s (update_account i f s)" by (simp add: accounts_grow_def)
  with assms(1) show ?thesis by (rule accounts_grow_trans)
qed

lemma find_account_update [simp]:
  assumes "\<And>u. au_id (f u) = au_id u"
  shows "find_account j (update_account i f s) = map_option (\<lambda>u. if au_id u = i then f u else u) (find_account j s)"
proof -
  have "List.find (\<lambda>u. au_id u = j) (map (\<lambda>u. if au_id u = i then f u else u) us)
      = map_option (\<lambda>u. if au_id u = i then f u else u) (List.find (\<lambda>u. au_id u = j) us)" for us
    by (induction us) (auto simp: assms)
  then show ?thesis by (simp add: find_account_def update_account_def)
qed

lemma find_accountD: "find_account i s = Some u \<Longrightarrow> u \<in> set (accounts s) \<and> au_id u = i"
  by (auto simp: find_account_def dest: find_Some_mem)

lemma find_account_mem: "accounts_ok s \<Longrightarrow> u \<in> set (accounts s) \<Longrightarrow> find_account (au_id u) s = Some u"
  unfolding find_account_def accounts_ok_def by (rule find_unique) (auto dest: inj_onD simp: distinct_map)

lemma account_fields [simp]:
  "tokens (update_account i f s) = tokens s" "auth_now (update_account i f s) = auth_now s"
  "auth_uuids (update_account i f s) = auth_uuids s" "version_cache (update_account i f s) = version_cache s"
  "tokens (invalidate i s) = tokens s" "auth_now (invalidate i s) = auth_now s"
  "auth_uuids (invalidate i s) = auth_uuids s" "accounts (invalidate i s) = accounts s"
  "find_account j (invalidate i s) = find_account j s" "redis_up (invalidate i s) = redis_up s"
  "redis_up (update_account i f s) = redis_up s" "redis_up s \<Longrightarrow> version_cache (invalidate i s) i = None"
  by (simp_all add: update_account_def invalidate_def find_account_def)

lemma map_update_account:
  assumes "\<And>u. g (f u) = g u"
  shows "map g (accounts (update_account i f s)) = map g (accounts s)"
  by (simp add: update_account_def assms)

lemma accounts_ok_keys:
  assumes "map au_id (accounts s') = map au_id (accounts s)" "auth_uuids s' = auth_uuids s"
    and "map au_walletAddress (accounts s') = map au_walletAddress (accounts s)"
  shows "accounts_ok s' = accounts_ok s"
  unfolding accounts_ok_def set_map [symmetric] assms ..

lemma accounts_ok_update:
  assumes "\<And>u. au_id (f u) = au_id u" "\<And>u. au_walletAddress (f u) = au_walletAddress u"
  shows "accounts_ok (update_account i f s) = accounts_ok s"
  by (rule accounts_ok_keys) (simp_all add: map_update_account assms)

lemma accounts_ok_invalidate [simp]: "accounts_ok (invalidate i s) = accounts_ok s"
  by (rule accounts_ok_keys) simp_all

lemma cache_holds_update:
  assumes "cache_holds R s" "\<And>u. au_id (f u) = au_id u"
    and "\<And>u v t. u \<in> set (accounts s) \<Longrightarrow> au_id u = i \<Longrightarrow> version_cache s i = Some (v, t) \<Longrightarrow>
      R v (au_tokenVersion u) \<Longrightarrow> R v (au_tokenVersion (f u))"
  shows "cache_holds R (update_account i f s)"
  unfolding cache_holds_def
proof (intro allI impI)
  fix j v t assume c: "version_cache (update_account i f s) j = Some (v, t)"
  then obtain u where u: "find_account j s = Some u" "R v (au_tokenVersion u)"
    using assms(1) by (auto simp: cache_holds_def)
  then show "\<exists>u. find_account j (update_account i f s) = Some u \<and> R v (au_tokenVersion u)"
    using c find_accountD [OF u(1)] by (auto simp: assms(2,3))
qed

lemma cache_holds_invalidate: "cache_holds R s \<Longrightarrow> cache_holds R (invalidate i s)"
  by (simp add: cache_holds_def invalidate_def find_account_def)

lemma cache_invalidate_sub: "version_cache (invalidate i s) j = Some e \<Longrightarrow> version_cache s j = Some e"
  by (simp add: invalidate_def split: if_splits)

lemma invalidate_update: "invalidate i (update_account j f s) = update_account j f (invalidate i s)"
  by (simp add: invalidate_def update_account_def)

lemma cache_ok_invalidate: "cache_ok s \<Longrightarrow> cache_ok (invalidate i s)"
  unfolding cache_ok_def using cache_invalidate_sub [of i s] cache_holds_invalidate [of "(\<le>)" s i] by (metis account_fields(6))

lemma spent_accounts [simp]:
  "spent E h (update_account i f s) = spent E h s" "spent E h (invalidate i s) = spent E h s"
  by (simp_all add: spent_def seconds_def)

lemma tokens_ok_accounts [simp]:
  "tokens_ok E (update_account i f s) = tokens_ok E s" "tokens_ok E (invalidate i s) = tokens_ok E s"
  by (simp_all add: tokens_ok_def)

lemma from_update [auth_steps]:
  assumes "auth_from E s0 s" "\<And>u. au_id (f u) = au_id u" "\<And>u. au_walletAddress (f u) = au_walletAddress u"
    and "\<And>u. au_tokenVersion (f u) = au_tokenVersion u" "\<And>u. au_emailBlindIndex (f u) = au_emailBlindIndex u"
  shows "auth_from E s0 (update_account i f s)"
  using assms
  by (simp add: auth_from_def auth_ok_def accounts_ok_update cache_ok_def cache_fresh_def cache_holds_update
      accounts_grow_update account_le_def)

lemma from_bump [auth_steps]:
  assumes s: "auth_from E s0 s" and f: "\<And>u. au_id (f u) = au_id u" "\<And>u. au_walletAddress (f u) = au_walletAddress u"
    and "\<And>u. au_emailBlindIndex (f u) = au_emailBlindIndex u" "\<And>u. au_tokenVersion (f u) = v"
    and u: "find_account i s = Some u" "au_tokenVersion u \<le> v"
  shows "auth_from E s0 (invalidate i (update_account i f s))"
proof -
  have ok: "accounts_ok s" "cache_ok s" using s by (simp_all add: auth_from_def auth_ok_def)
  have it: "x = u" if "x \<in> set (accounts s)" "au_id x = i" for x
    using find_account_mem [OF ok(1) that(1)] that(2) u(1) by simp
  have "cache_holds (\<le>) (update_account i f (invalidate i s))"
    by (rule cache_holds_update) (use ok f u it assms(5) in \<open>auto simp: cache_ok_def cache_holds_invalidate\<close>)
  moreover have "cache_ok (invalidate i s)" by (rule cache_ok_invalidate [OF ok(2)])
  ultimately have "cache_ok (update_account i f (invalidate i s))" by (simp add: cache_ok_def)
  moreover have "cache_holds (=) (update_account i f (invalidate i s))" if "cache_fresh s"
    by (rule cache_holds_update) (use that f in \<open>auto simp: cache_fresh_def cache_holds_invalidate\<close>)
  then have "cache_fresh s0 \<longrightarrow> cache_fresh (update_account i f (invalidate i s))"
    using s by (simp add: auth_from_def cache_fresh_def)
  moreover have "account_le x (f x)" if "x \<in> set (accounts s)" "au_id x = i" for x
    using it [OF that] u assms(5) by (simp add: account_le_def f)
  then have "accounts_grow s0 (update_account i f (invalidate i s))"
    by (intro accounts_grow_update) (use s assms(4) in \<open>simp_all add: auth_from_def\<close>)
  ultimately show ?thesis using s f
    by (simp add: auth_from_def auth_ok_def accounts_ok_update invalidate_update)
qed

lemma token_fields [simp]:
  "accounts (update_tokens P f s) = accounts s" "auth_now (update_tokens P f s) = auth_now s"
  "auth_uuids (update_tokens P f s) = auth_uuids s" "version_cache (update_tokens P f s) = version_cache s"
  "find_account j (update_tokens P f s) = find_account j s" "redis_up (update_tokens P f s) = redis_up s"
  by (simp_all add: update_tokens_def find_account_def)

lemma cache_holds_same:
  assumes "cache_holds R s" "version_cache s' = version_cache s"
    and "\<And>i u. find_account i s = Some u \<Longrightarrow> find_account i s' = Some u"
  shows "cache_holds R s'"
  using assms by (fastforce simp: cache_holds_def)

lemma cache_same:
  assumes "version_cache s' = version_cache s" "redis_up s' = redis_up s" "auth_now s \<le> auth_now s'"
    and "\<And>i u. find_account i s = Some u \<Longrightarrow> find_account i s' = Some u"
  shows "cache_ok s \<Longrightarrow> cache_ok s'" "cache_fresh s \<Longrightarrow> cache_fresh s'"
  using assms(1-3) cache_holds_same [OF _ assms(1,4)] by (fastforce simp: cache_ok_def cache_fresh_def)+

lemma fresh_same:
  assumes "auth_from E s0 s" "version_cache s' = version_cache s" "redis_up s' = redis_up s" "auth_now s \<le> auth_now s'"
    and "\<And>i u. find_account i s = Some u \<Longrightarrow> find_account i s' = Some u"
  shows "cache_fresh s0 \<longrightarrow> cache_fresh s'"
  using assms(1) cache_same(2) [OF assms(2-5)] by (simp add: auth_from_def)

lemma tokens_ok_rows:
  assumes "tokens_ok E s" "map rt_id (tokens s') = map rt_id (tokens s)" "auth_now s' = auth_now s"
    "map rt_tokenHash (tokens s') = map rt_tokenHash (tokens s)" "auth_uuids s' = auth_uuids s"
    and "\<And>r. r \<in> set (tokens s') \<Longrightarrow> dated E (auth_now s) r"
  shows "tokens_ok E s'"
  using assms unfolding tokens_ok_def set_map [symmetric] by simp

lemma from_revoke [auth_steps]:
  assumes "auth_from E s0 s"
  shows "auth_from E s0 (update_tokens P (revoke t) s)"
proof -
  have ok: "accounts_ok s" "cache_ok s" "tokens_ok E s" "signatures_dated E"
    using assms by (simp_all add: auth_from_def auth_ok_def)
  have keys: "map rt_id (tokens (update_tokens P (revoke t) s)) = map rt_id (tokens s)"
    "map rt_tokenHash (tokens (update_tokens P (revoke t) s)) = map rt_tokenHash (tokens s)"
    by (simp_all add: update_tokens_def revoke_def)
  have "accounts_ok (update_tokens P (revoke t) s)" using ok(1) by (subst accounts_ok_keys [of _ s]) simp_all
  moreover have "cache_ok (update_tokens P (revoke t) s)" by (rule cache_same(1) [OF _ _ _ _ ok(2)]) simp_all
  moreover have "cache_fresh s0 \<longrightarrow> cache_fresh (update_tokens P (revoke t) s)" by (rule fresh_same [OF assms]) simp_all
  moreover have "tokens_ok E (update_tokens P (revoke t) s)"
    by (rule tokens_ok_rows [OF ok(3) keys(1) _ keys(2)])
      (use ok(3) in \<open>auto simp: tokens_ok_def dated_def update_tokens_def revoke_def\<close>)
  moreover have "spent E h (update_tokens P (revoke t) s)" if "spent E h s" for h
  proof -
    have same: "rt_tokenHash ` set (tokens (update_tokens P (revoke t) s)) = rt_tokenHash ` set (tokens s)"
      by (metis keys(2) set_map)
    have "\<exists>r' \<in> set (tokens (update_tokens P (revoke t) s)). rt_tokenHash r' = rt_tokenHash r \<and> rt_revokedAt r' \<noteq> None"
      if "r \<in> set (tokens s)" "rt_revokedAt r \<noteq> None" for r
      using that by (intro bexI [of _ "if P r then (revoke t r)\<lparr>rt_lastUsedAt := auth_now s\<rparr> else r"])
        (auto simp: update_tokens_def revoke_def)
    with that show ?thesis unfolding spent_def same seconds_def by auto
  qed
  ultimately show ?thesis using assms ok(4) by (simp add: auth_from_def auth_ok_def)
qed

lemma from_cleanup [auth_steps]:
  assumes "auth_from E s0 s"
  shows "auth_from E s0 (s\<lparr>tokens := filter (\<lambda>t. \<not> rt_expiresAt t < auth_now s) (tokens s)\<rparr>)" (is "auth_from _ _ ?s")
proof -
  have ok: "accounts_ok s" "cache_ok s" "tokens_ok E s" "signatures_dated E"
    using assms by (simp_all add: auth_from_def auth_ok_def)
  have "accounts_ok ?s" using ok(1) by (subst accounts_ok_keys [of _ s]) simp_all
  moreover have "cache_ok ?s" by (rule cache_same(1) [OF _ _ _ _ ok(2)]) (simp_all add: find_account_def)
  moreover have "cache_fresh s0 \<longrightarrow> cache_fresh ?s" by (rule fresh_same [OF assms]) (simp_all add: find_account_def)
  moreover have "tokens_ok E ?s" using ok(3) by (auto simp: tokens_ok_def distinct_map_filter)
  moreover have "spent E h ?s" if "spent E h s" for h
  proof (cases "h \<in> rt_tokenHash ` set (tokens ?s)")
    case True
    then obtain r where r: "r \<in> set (tokens s)" "rt_tokenHash r = h" "\<not> rt_expiresAt r < auth_now s" by auto
    then have "h \<in> rt_tokenHash ` set (tokens s)" by auto
    then obtain r' where r': "r' \<in> set (tokens s)" "rt_tokenHash r' = h" "rt_revokedAt r' \<noteq> None"
      using \<open>spent E h s\<close> unfolding spent_def by blast
    with r ok(3) have "r' = r" by (auto simp: tokens_ok_def distinct_map dest: inj_onD)
    with r r' show ?thesis by (auto simp: spent_def)
  next
    case False
    have "\<exists>c k i e. h = sha256 E (jwt_sign E c k i e) \<and> i < seconds s"
    proof (cases "h \<in> rt_tokenHash ` set (tokens s)")
      case True
      then obtain r where r: "r \<in> set (tokens s)" "h = rt_tokenHash r" by auto
      with False have "rt_expiresAt r < auth_now s" by auto
      moreover have d: "dated E (auth_now s) r" using ok(3) r by (simp add: tokens_ok_def)
      ultimately have "rt_createdAt r div 1000 < seconds s" by (simp add: dated_def day_def seconds_def)
      with d r show ?thesis by (auto simp: dated_def)
    qed (use that in \<open>auto simp: spent_def\<close>)
    with False show ?thesis by (auto simp: spent_def seconds_def)
  qed
  ultimately show ?thesis using assms ok(4) by (simp add: auth_from_def auth_ok_def)
qed

lemma from_tick [auth_steps]:
  assumes "auth_from E s0 s"
  shows "auth_from E s0 (s\<lparr>auth_now := auth_now s + int n\<rparr>)" (is "auth_from _ _ ?s")
proof -
  have ok: "accounts_ok s" "cache_ok s" "tokens_ok E s" "signatures_dated E"
    using assms by (simp_all add: auth_from_def auth_ok_def)
  have "accounts_ok ?s" using ok(1) by (subst accounts_ok_keys [of _ s]) simp_all
  moreover have "cache_ok ?s" by (rule cache_same(1) [OF _ _ _ _ ok(2)]) (simp_all add: find_account_def)
  moreover have "cache_fresh s0 \<longrightarrow> cache_fresh ?s" by (rule fresh_same [OF assms]) (simp_all add: find_account_def)
  moreover have "tokens_ok E ?s" using ok(3) by (fastforce simp: tokens_ok_def dated_def)
  moreover have "seconds s \<le> seconds ?s" by (simp add: seconds_def zdiv_mono1)
  then have "spent E h ?s" if "spent E h s" for h using that by (fastforce simp: spent_def)
  ultimately show ?thesis using assms ok(4) by (simp add: auth_from_def auth_ok_def)
qed

lemma from_alert [auth_steps]: "auth_from E s0 s \<Longrightarrow> auth_from E s0 (sendSecurityAlert i s)"
  by (simp add: sendSecurityAlert_def auth_from_def auth_ok_def accounts_ok_def tokens_ok_def cache_ok_def
      cache_fresh_def cache_holds_def find_account_def spent_def seconds_def split: option.split)

lemma from_cache [auth_steps]:
  assumes "auth_from E s0 s" "u \<in> set (accounts s)" "au_tokenVersion u = v"
  shows "auth_from E s0 (cache_version (au_id u) v s)"
proof -
  have "find_account (au_id u) s = Some u"
    using find_account_mem assms by (auto simp: auth_from_def auth_ok_def)
  with assms(1,3) show ?thesis
    by (simp add: auth_from_def auth_ok_def accounts_ok_def tokens_ok_def cache_ok_def cache_version_def
      cache_fresh_def cache_holds_def find_account_def spent_def seconds_def)
qed

lemma find_append: "List.find P (xs @ ys) = (case List.find P xs of None \<Rightarrow> List.find P ys | Some x \<Rightarrow> Some x)"
  by (induction xs) auto

lemma from_new_account [auth_steps]:
  assumes "auth_from E s0 s" "findByWalletAddress a s = None"
  shows "auth_from E s0 (s\<lparr>accounts := accounts s @ [new_account (auth_uuid s) a x y], auth_uuids := Suc (auth_uuids s)\<rparr>)"
    (is "auth_from _ _ ?s")
proof -
  have ok: "accounts_ok s" "cache_ok s" "tokens_ok E s" "signatures_dated E"
    using assms by (simp_all add: auth_from_def auth_ok_def)
  have "auth_uuid s \<notin> show_nat ` {..<auth_uuids s}" by (auto simp: auth_uuid_def show_nat_inj)
  then have "accounts_ok ?s" using ok(1) assms(2)
    by (auto simp: accounts_ok_def new_account_def findByWalletAddress_def find_None_all auth_uuid_def lessThan_Suc)
  moreover have "cache_ok ?s"
    by (rule cache_same(1) [OF _ _ _ _ ok(2)]) (auto simp: find_account_def find_append)
  moreover have "cache_fresh s0 \<longrightarrow> cache_fresh ?s"
    by (rule fresh_same [OF assms(1)]) (auto simp: find_account_def find_append)
  moreover have "tokens_ok E ?s" using ok(3) by (auto simp: tokens_ok_def lessThan_Suc)
  moreover have "accounts_grow s ?s" by (auto simp: accounts_grow_def account_le_def no_blind_index_def new_account_def)
  then have "accounts_grow s0 ?s" using assms(1) by (auto simp: auth_from_def intro: accounts_grow_trans)
  ultimately show ?thesis using assms ok(4) by (simp add: auth_from_def auth_ok_def spent_def seconds_def)
qed

lemma storeRefreshToken_Inl: "storeRefreshToken E i t opts s = (Inl e, s') \<Longrightarrow> s' = s"
  by (auto simp: storeRefreshToken_def Let_def split: if_splits)

lemma from_store [auth_steps]:
  assumes "auth_from E s0 s"
  shows "auth_from E s0 (snd (storeRefreshToken E uid (jwt_sign E c k (seconds s) e) opts s))"
proof (cases "find_token (sha256 E (jwt_sign E c k (seconds s) e)) s = None")
  case True
  let ?h = "sha256 E (jwt_sign E c k (seconds s) e)"
  have ok: "accounts_ok s" "cache_ok s" "tokens_ok E s" "signatures_dated E"
    using assms by (simp_all add: auth_from_def auth_ok_def)
  obtain r s1 where run: "storeRefreshToken E uid (jwt_sign E c k (seconds s) e) opts s = (Inr (), s1)"
    and s': "s1 = s\<lparr>tokens := tokens s @ [r], auth_uuids := Suc (auth_uuids s)\<rparr>"
    and r: "rt_id r = auth_uuid s" "rt_tokenHash r = ?h" "rt_createdAt r = auth_now s" "rt_expiresAt r = auth_now s + 7 * day"
    using True by (simp add: storeRefreshToken_def Let_def)
  have new: "auth_uuid s \<notin> show_nat ` {..<auth_uuids s}" by (auto simp: auth_uuid_def show_nat_inj)
  have "accounts_ok s1" using ok(1) by (auto simp: s' accounts_ok_def lessThan_Suc)
  moreover have "cache_ok s1" by (rule cache_same(1) [OF _ _ _ _ ok(2)]) (simp_all add: s' find_account_def)
  moreover have "cache_fresh s0 \<longrightarrow> cache_fresh s1" by (rule fresh_same [OF assms]) (simp_all add: s' find_account_def)
  moreover have "dated E (auth_now s) r" using r by (auto simp: dated_def seconds_def)
  then have "tokens_ok E s1" using ok(3) new True r
    by (auto simp: s' tokens_ok_def find_token_def find_None_all auth_uuid_def lessThan_Suc)
  moreover have dates: "i = seconds s" if "?h = sha256 E (jwt_sign E c' k' i e')" for c' k' i e'
    using ok(4) that unfolding signatures_dated_def by metis
  moreover have "spent E h s1" (is "?goal h") if "spent E h s" for h
  proof (rule that [unfolded spent_def, THEN disjE])
    assume "\<exists>r \<in> set (tokens s). rt_tokenHash r = h \<and> rt_revokedAt r \<noteq> None"
    then have "\<exists>r \<in> set (tokens s1). rt_tokenHash r = h \<and> rt_revokedAt r \<noteq> None" by (auto simp: s')
    then show "?goal h" unfolding spent_def by blast
  next
    assume "h \<notin> rt_tokenHash ` set (tokens s) \<and> (\<exists>c k i e. h = sha256 E (jwt_sign E c k i e) \<and> i < seconds s)"
    then obtain c' k' i e' where *: "h \<notin> rt_tokenHash ` set (tokens s)" "h = sha256 E (jwt_sign E c' k' i e')" "i < seconds s"
      by blast
    with dates [of c' k' i e'] have "h \<noteq> rt_tokenHash r" by (auto simp: r(2))
    with * have "h \<notin> rt_tokenHash ` set (tokens s1)" "i < seconds s1" by (auto simp: s' seconds_def)
    with *(2) show "?goal h" unfolding spent_def by blast
  qed
  ultimately show ?thesis using assms ok(4) by (simp add: auth_from_def auth_ok_def run s')
next
  case False
  then show ?thesis using assms by (simp add: storeRefreshToken_def Let_def)
qed

lemma from_issue [auth_steps]:
  assumes "auth_from E s0 s" shows "auth_from E s0 (snd (issue_tokens E u v opts s))"
proof -
  have "auth_from E s0 s2" if "storeRefreshToken E i (jwt_sign E c k (seconds s) e) opts s = (r, s2)" for i c k e r s2
    using from_store [OF assms] that by (metis snd_conv)
  with assms show ?thesis
    by (auto simp: issue_tokens_def generateTokens_def Let_def split: option.split sum.split prod.split)
qed

lemma from_create [auth_steps]:
  assumes "auth_from E s0 s" shows "auth_from E s0 (snd (create_account a x y s))"
  using assms by (auto simp: create_account_def Let_def intro: from_new_account)

lemmas auth_calls = findById_def incrementTokenVersion_def revokeAllSessions_def banUser_def revokeAllUserTokens_def
  revokeSession_def deleteExpiredTokens_def enable2FA_def verify2FA_def disable2FA_def

lemma from_increment [auth_steps]: "auth_from E s0 s \<Longrightarrow> auth_from E s0 (snd (incrementTokenVersion i s))"
  by (auto simp: auth_calls Let_def split: option.split intro: auth_steps)

lemma from_revokeAllSessions [auth_steps]: "auth_from E s0 s \<Longrightarrow> auth_from E s0 (snd (revokeAllSessions i s))"
  by (auto simp: auth_calls Let_def split: option.split intro: auth_steps)

lemma from_revokeAll [auth_steps]: "auth_from E s0 s \<Longrightarrow> auth_from E s0 (snd (revokeAllUserTokens i s))"
  unfolding revokeAllUserTokens_def by (intro auth_steps)

lemma from_twoFactor [auth_steps]: "auth_from E s0 s \<Longrightarrow> auth_from E s0 (snd (completeTwoFactorLogin E p t s))"
  by (auto simp: completeTwoFactorLogin_def verifyPreAuthToken_def auth_calls Let_def
      split: option.split sum.split prod.split intro: auth_steps)

lemma auth_from_fst: "auth_from E s0 (snd p) \<Longrightarrow> p = (r, s1) \<Longrightarrow> auth_from E s0 s1"
  by simp

lemma from_refresh: 
  assumes "auth_from E s0 s" shows "auth_from E s0 (snd (refreshTokens E t opts s))"
proof -
  have revoked: "auth_from E s0 s1" if "revokeAllUserTokens i s = (r, s1)" for i r s1
    by (rule auth_from_fst [OF from_revokeAll [OF assms] that])
  have bumped: "auth_from E s0 s2" if "incrementTokenVersion i (update_tokens P (revoke k) s) = (r, s2)" for i P k r s2
    by (rule auth_from_fst [OF from_increment [OF from_revoke [OF assms]] that])
  show ?thesis using assms
    by (auto simp: refreshTokens_def findById_def Let_def split: option.split sum.split prod.split
        intro: auth_steps dest: revoked bumped)
qed

lemma auth_exec_from:
  assumes "auth_ok E s" "op \<noteq> Redis False" shows "auth_from E s (auth_exec E op s)"
proof -
  have s: "auth_from E s s" by (rule auth_from_refl [OF assms(1)])
  show ?thesis
  proof (cases op)
    case (RegisterWallet a sig c opts)
    have "auth_from E s s1" if "create_account a x y s = (r, s1)" for x y r s1
      by (rule auth_from_fst [OF from_create [OF s] that])
    then show ?thesis using s RegisterWallet
      by (auto simp: registerWithWallet_def split: option.split sum.split prod.split intro: auth_steps)
  next
    case (Register email h opts)
    have "auth_from E s s1" if "create_account a x y s = (r, s1)" for a x y r s1
      by (rule auth_from_fst [OF from_create [OF s] that])
    then show ?thesis using s Register
      by (auto simp: register_def split: option.split sum.split prod.split intro: auth_steps)
  next
    case (Login email p opts)
    have "auth_from E s s1" if "issue_tokens E u v opts s = (r, s1)" for u v r s1
      by (rule auth_from_fst [OF from_issue [OF s] that])
    then show ?thesis using s Login
      by (auto simp: login_def split: option.split sum.split prod.split)
  next
    case (Login2FA p t)
    have "auth_from E s s1" if "completeTwoFactorLogin E p t s = (r, s1)" for r s1
      by (rule auth_from_fst [OF from_twoFactor [OF s] that])
    then show ?thesis using Login2FA
      by (auto simp: login2FA_def findById_def split: option.split sum.split prod.split intro: auth_steps)
  next
    case (Authenticate t)
    have "u \<in> set (accounts s)" if "findByWalletAddress a s = Some u" for a u
      using that by (auto simp: findByWalletAddress_def dest: find_Some_mem)
    then show ?thesis using s Authenticate
      by (auto simp: authenticate_def validate_def Let_def split: option.split intro: auth_steps)
  next
    case (Logout i t)
    have "auth_from E s s1" if "revokeAllUserTokens i s = (r, s1)" for r s1
      by (rule auth_from_fst [OF from_revokeAll [OF s] that])
    then show ?thesis using s Logout
      by (auto simp: logout_def split: sum.split prod.split intro: auth_steps)
  next
    case (Redis b)
    then show ?thesis using s assms(2)
      by (simp add: auth_from_def auth_ok_def accounts_ok_def tokens_ok_def cache_ok_def cache_fresh_def cache_holds_def
          find_account_def spent_def seconds_def)
  qed (use s from_refresh [OF s] in \<open>auto simp: auth_calls Let_def split: option.split intro: auth_steps\<close>)
qed

lemma auth_exec_kept:
  assumes "auth_ok E s" shows "auth_kept E s (auth_exec E op s)"
proof (cases "op = Redis False")
  case True
  then show ?thesis using assms
    by (simp add: auth_kept_def auth_ok_def accounts_ok_def tokens_ok_def cache_ok_def cache_holds_def find_account_def
        spent_def seconds_def)
qed (use assms in \<open>blast intro: auth_from_kept auth_exec_from\<close>)

subsection \<open>Refresh tokens\<close>

text \<open>The call \<open>op\<close> exchanges the token with the hash \<open>h\<close>.\<close>

fun exchanges :: "auth_env \<Rightarrow> string \<Rightarrow> auth_op \<Rightarrow> auth \<Rightarrow> bool" where
  "exchanges E h (Refresh t opts) s = (sha256 E t = h \<and> is_ok (fst (refreshTokens E t opts s)))"
| "exchanges E h op s = False"

lemma find_tokenD: "find_token h s = Some r \<Longrightarrow> r \<in> set (tokens s) \<and> rt_tokenHash r = h"
  by (auto simp: find_token_def dest: find_Some_mem)

lemma find_token_mem: "tokens_ok E s \<Longrightarrow> r \<in> set (tokens s) \<Longrightarrow> find_token (rt_tokenHash r) s = Some r"
  unfolding find_token_def tokens_ok_def by (rule find_unique) (auto dest: inj_onD simp: distinct_map)

text \<open>What an exchange does, for the property below and for the contract of a token.\<close>

definition rotated :: "auth_env \<Rightarrow> refresh_token \<Rightarrow> auth_user \<Rightarrow> token_pair \<Rightarrow> store_options \<Rightarrow> auth \<Rightarrow> refresh_token" where
  "rotated E r u p opts s =
     \<lparr>rt_id = auth_uuid s, rt_userId = au_id u, rt_tokenHash = sha256 E (refreshToken p), rt_expiresAt = auth_now s + 7 * day,
      rt_absoluteExpiresAt = rt_absoluteExpiresAt r, rt_revokedAt = None, rt_deviceId = so_deviceId opts,
      rt_deviceName = so_deviceName opts, rt_ipAddress = so_ipAddress opts, rt_createdAt = auth_now s, rt_lastUsedAt = auth_now s\<rparr>"

lemma refreshTokens_Inr:
  assumes "refreshTokens E t opts s = (Inr p, s')"
  obtains r u where "find_token (sha256 E t) s = Some r" "rt_revokedAt r = None" "auth_now s \<le> rt_expiresAt r"
    "auth_now s \<le> rt_absoluteExpiresAt r" "find_account (rt_userId r) s = Some u"
    "accounts s' = map (\<lambda>x. if au_id x = au_id u then x\<lparr>au_tokenVersion := au_tokenVersion u + 1\<rparr> else x) (accounts s)"
    "tokens s' = map (\<lambda>x. if rt_id x = rt_id r then (revoke (auth_now s) x)\<lparr>rt_lastUsedAt := auth_now s\<rparr> else x) (tokens s)
       @ [rotated E r u p opts s]"
proof -
  obtain r where r: "find_token (sha256 E t) s = Some r" "rt_revokedAt r = None" "\<not> rt_expiresAt r < auth_now s"
      "\<not> rt_absoluteExpiresAt r < auth_now s"
    using assms by (auto simp: refreshTokens_def Let_def split: if_splits option.splits sum.splits prod.splits)
  define s1 where "s1 = update_tokens (\<lambda>t. rt_id t = rt_id r) (revoke (auth_now s)) s"
  obtain u where u: "find_account (rt_userId r) s = Some u"
    using assms r by (auto simp: refreshTokens_def Let_def findById_def split: if_splits option.splits sum.splits prod.splits)
  then have "find_account (au_id u) s = Some u" using find_accountD [OF u] by simp
  moreover define s2 where "s2 = invalidate (au_id u) (update_account (au_id u) (\<lambda>x. x\<lparr>au_tokenVersion := au_tokenVersion u + 1\<rparr>) s1)"
  ultimately have run: "issue_tokens E u (Some (au_tokenVersion u + 1)) (opts\<lparr>so_absoluteExpiresAt := Some (rt_absoluteExpiresAt r)\<rparr>) s2
      = (Inr p, s')"
    using assms r u
    by (simp add: refreshTokens_def Let_def findById_def incrementTokenVersion_def s1_def s2_def split: if_splits)
  then have "tokens s' = tokens s2 @ [rotated E r u p opts s]" "accounts s' = accounts s2"
    by (auto simp: issue_tokens_def generateTokens_def storeRefreshToken_def Let_def rotated_def s2_def s1_def auth_uuid_def
        update_tokens_def update_account_def invalidate_def split: option.splits if_splits sum.splits)
  with r u show ?thesis by (intro that [of r u]) (simp_all add: s2_def s1_def update_tokens_def update_account_def invalidate_def)
qed

interpretation sessions: once_machine "auth_exec E" "auth_ok E" "exchanges E" "spent E" for E
proof
  fix s op h assume ok: "auth_ok E s"
  then have step: "auth_kept E s (auth_exec E op s)" by (rule auth_exec_kept)
  then show "auth_ok E (auth_exec E op s)" by (simp add: auth_kept_def)
  show "spent E h (auth_exec E op s)" if "spent E h s" using step that by (simp add: auth_kept_def)
  assume due: "exchanges E h op s"
  then obtain t opts p s' where op: "op = Refresh t opts" "sha256 E t = h" and run: "refreshTokens E t opts s = (Inr p, s')"
    by (cases op) (auto simp: is_ok_iff dest: outcome_run)
  from run obtain r u where r: "find_token h s = Some r" "rt_revokedAt r = None"
    and tok: "tokens s' = map (\<lambda>x. if rt_id x = rt_id r then (revoke (auth_now s) x)\<lparr>rt_lastUsedAt := auth_now s\<rparr> else x) (tokens s)
       @ [rotated E r u p opts s]"
    using op(2) by (auto elim: refreshTokens_Inr)
  note mem = find_tokenD [OF r(1)]
  have "(revoke (auth_now s) r)\<lparr>rt_lastUsedAt := auth_now s\<rparr> \<in> set (tokens s')"
    using mem by (auto simp: tok intro!: rev_image_eqI [of r])
  then show "spent E h (auth_exec E op s)" using mem op run
    by (intro spent_def [THEN iffD2] disjI1 bexI) (simp_all add: revoke_def)
  show "\<not> spent E h s"
  proof
    assume "spent E h s"
    with mem obtain r' where "r' \<in> set (tokens s)" "rt_tokenHash r' = h" "rt_revokedAt r' \<noteq> None"
      by (auto simp: spent_def)
    with find_token_mem [of E s r'] ok r show False by (auto simp: auth_ok_def)
  qed
qed

text \<open>
  C15: A refresh token is exchanged at most once, in every run of all calls, whatever is cleaned up
  or revoked in between.
\<close>

theorem refresh_token_exchanged_once:
  assumes "auth_ok E s"
  shows "count_due (exchanges E h) (auth_exec E) ops s \<le> 1"
  by (rule sessions.at_most_once [OF assms])

text \<open>
  C36: An exchange answers for a token that is stored, not revoked and within its sliding and its
  absolute expiry. It revokes this token and no other, adds one token whose absolute expiry is the
  old one, so that a session never outlives its first sign-in by more than the limit, and raises the
  version of the user, so that the access tokens issued before stop working.
\<close>

theorem refreshTokens_rotates:
  assumes ok: "auth_ok E s" and run: "refreshTokens E t opts s = (Inr p, s')"
  shows "\<exists>r u. find_token (sha256 E t) s = Some r \<and> rt_revokedAt r = None \<and> auth_now s \<le> rt_expiresAt r \<and>
    auth_now s \<le> rt_absoluteExpiresAt r \<and> find_account (rt_userId r) s = Some u \<and>
    tokens s' = map (\<lambda>x. if x = r then (revoke (auth_now s) r)\<lparr>rt_lastUsedAt := auth_now s\<rparr> else x) (tokens s) @ [rotated E r u p opts s] \<and>
    accounts s' = map (\<lambda>x. if x = u then u\<lparr>au_tokenVersion := au_tokenVersion u + 1\<rparr> else x) (accounts s)"
proof -
  obtain r u where r: "find_token (sha256 E t) s = Some r" "rt_revokedAt r = None" "auth_now s \<le> rt_expiresAt r"
    "auth_now s \<le> rt_absoluteExpiresAt r" "find_account (rt_userId r) s = Some u"
    and acc: "accounts s' = map (\<lambda>x. if au_id x = au_id u then x\<lparr>au_tokenVersion := au_tokenVersion u + 1\<rparr> else x) (accounts s)"
    and tok: "tokens s' = map (\<lambda>x. if rt_id x = rt_id r then (revoke (auth_now s) x)\<lparr>rt_lastUsedAt := auth_now s\<rparr> else x) (tokens s)
       @ [rotated E r u p opts s]"
    using run by (rule refreshTokens_Inr)
  have "rt_id x = rt_id r \<longleftrightarrow> x = r" if "x \<in> set (tokens s)" for x
    using that find_tokenD [OF r(1)] ok by (auto simp: auth_ok_def tokens_ok_def distinct_map dest: inj_onD)
  moreover have "au_id x = au_id u \<longleftrightarrow> x = u" if "x \<in> set (accounts s)" for x
    using find_account_mem [OF _ that] find_accountD [OF r(5)] ok r(5) by (auto simp: auth_ok_def)
  ultimately show ?thesis using r acc tok by (intro exI [of _ r] exI [of _ u]) simp
qed

lemma findByWallet_mem: "accounts_ok s \<Longrightarrow> u \<in> set (accounts s) \<Longrightarrow> findByWalletAddress (au_walletAddress u) s = Some u"
  unfolding findByWalletAddress_def accounts_ok_def by (rule find_unique) (auto dest: inj_onD simp: distinct_map)

text \<open>The answer to a token of an account: both versions, the cached one and the stored one, have to agree with it.\<close>

lemma validate_account:
  assumes "accounts_ok s" "u \<in> set (accounts s)" "jc_sub c = au_walletAddress u" "jc_userId c = Some (au_id u)"
    "jc_tokenVersion c = Some v"
  shows "fst (validate c s) = (if au_tokenVersion u = v \<and> cached_version (au_id u) s \<in> {None, Some v} then Inr u
    else Inl (UnauthorizedException ''Token version mismatch - session revoked''))"
proof -
  have "findByWalletAddress (jc_sub c) s = Some u" using assms(1-3) findByWallet_mem by simp
  then show ?thesis using assms(4,5) by (auto simp: validate_def split: option.split)
qed

lemma listSessions_empty: "(\<And>r. r \<in> set (tokens s) \<Longrightarrow> rt_userId r = i \<Longrightarrow> rt_revokedAt r \<noteq> None) \<Longrightarrow> listSessions i s = []"
  by (auto simp: listSessions_def filter_empty_conv)

text \<open>
  A spent token that comes back ends every session of its user: the call is refused, no session
  is listed any more, and every access token issued so far is refused from then on.
\<close>

theorem reuse_ends_all_sessions:
  assumes ok: "auth_ok E s" and signed: "jwt_verify E t (refresh_secret E) (seconds s) \<noteq> None"
    and r: "find_token (sha256 E t) s = Some r" "rt_revokedAt r \<noteq> None" "find_account (rt_userId r) s = Some u"
    and c: "jc_sub c = au_walletAddress u" "jc_userId c = Some (au_id u)" "jc_tokenVersion c = Some v" "v \<le> au_tokenVersion u"
  shows "\<exists>s'. refreshTokens E t opts s = (Inl (UnauthorizedException ''Access Denied''), s') \<and> listSessions (rt_userId r) s' = [] \<and>
    fst (validate c s') = Inl (UnauthorizedException ''Token version mismatch - session revoked'')"
proof -
  let ?i = "rt_userId r"
  define s1 where "s1 = invalidate ?i (update_account ?i (\<lambda>x. x\<lparr>au_tokenVersion := au_tokenVersion u + 1\<rparr>)
    (update_tokens (\<lambda>t. rt_userId t = ?i \<and> rt_revokedAt t = None) (revoke (auth_now s)) s))"
  have run: "refreshTokens E t opts s = (Inl (UnauthorizedException ''Access Denied''), sendSecurityAlert ?i s1)"
    using signed r by (simp add: refreshTokens_def revokeAllUserTokens_def revokeAllSessions_def findById_def s1_def Let_def)
  have same: "tokens (sendSecurityAlert ?i s1) = tokens s1" "accounts (sendSecurityAlert ?i s1) = accounts s1"
    by (simp_all add: sendSecurityAlert_def split: option.split)
  have "listSessions ?i (sendSecurityAlert ?i s1) = []"
    by (rule listSessions_empty, unfold same) (auto simp: s1_def update_tokens_def revoke_def split: if_splits)
  moreover have "accounts_ok (sendSecurityAlert ?i s1)"
    using auth_exec_kept [OF ok, of "Refresh t opts"] run by (simp add: auth_kept_def auth_ok_def)
  moreover have "u\<lparr>au_tokenVersion := au_tokenVersion u + 1\<rparr> \<in> set (accounts (sendSecurityAlert ?i s1))"
    unfolding same using find_accountD [OF r(3)] by (auto simp: s1_def update_account_def)
  ultimately show ?thesis using run c validate_account [of _ "u\<lparr>au_tokenVersion := au_tokenVersion u + 1\<rparr>" c v]
    by (intro exI [of _ "sendSecurityAlert ?i s1"]) simp
qed

subsection \<open>Access tokens\<close>

lemma auth_run: "auth_ok E s \<Longrightarrow> auth_kept E s (fold (auth_exec E) ops s)"
proof (induction ops arbitrary: s)
  case (Cons op ops)
  have step: "auth_kept E s (auth_exec E op s)" by (rule auth_exec_kept [OF Cons.prems])
  then have "auth_kept E (auth_exec E op s) (fold (auth_exec E) ops (auth_exec E op s))"
    by (intro Cons.IH) (simp add: auth_kept_def)
  with step show ?case by (auto simp: auth_kept_def intro: accounts_grow_trans)
qed (simp add: auth_kept_def)

text \<open>Without an outage a fresh cache stays fresh.\<close>

lemma auth_run_fresh:
  assumes "auth_ok E s" "cache_fresh s" "Redis False \<notin> set ops"
  shows "cache_fresh (fold (auth_exec E) ops s)"
  using assms
proof (induction ops arbitrary: s)
  case (Cons op ops)
  have "auth_from E s (auth_exec E op s)" by (rule auth_exec_from) (use Cons.prems in auto)
  then show ?case using Cons by (auto simp: auth_from_def)
qed simp

lemma cached_version_le:
  assumes "auth_ok E s" "u \<in> set (accounts s)" "cached_version (au_id u) s = Some w"
  shows "w \<le> au_tokenVersion u"
  using assms find_account_mem [of s u]
  by (fastforce simp: auth_ok_def cache_ok_def cache_holds_def cached_version_def split: if_splits option.splits prod.splits)

lemma cached_version_fresh:
  assumes "auth_ok E s" "cache_fresh s" "u \<in> set (accounts s)"
  shows "cached_version (au_id u) s \<in> {None, Some (au_tokenVersion u)}"
  using assms find_account_mem [of s u]
  by (fastforce simp: auth_ok_def cache_fresh_def cache_holds_def cached_version_def split: if_splits option.splits prod.splits)

lemma cached_version_expires:
  assumes "auth_ok E s" shows "cached_version i (auth_exec E (Tick 30000) s) = None"
  using assms by (fastforce simp: auth_ok_def cache_ok_def cached_version_def split: option.splits)

text \<open>The JWT library accepts what was signed with the secret until it expires.\<close>

definition jwt_sound :: "auth_env \<Rightarrow> bool" where
  "jwt_sound E \<longleftrightarrow> (\<forall>c k i e t. jwt_verify E (jwt_sign E c k i e) k t = (if t < e then Some c else None))"

text \<open>
  C16: An access token is good for 15 minutes, and only as long as the version of its user is the
  one it was issued with: a revoked token is refused after every run of all calls, whatever the cache
  holds and whenever Redis was down. A token that is not revoked is accepted, except while the cache
  holds an older version, left there by an outage of Redis. The cached version is never newer than
  the stored one, it is the stored one after a run without outage, and it is gone after 30 seconds.
\<close>

theorem access_token_valid_until_revoked:
  assumes ok: "auth_ok E s0" and jwt: "jwt_sound E"
    and issued: "findByWalletAddress a s0 = Some u0" "generateTokens E a email role (Some v) s0 = (Inr p, s1)"
    and s: "s = fold (auth_exec E) ops s0"
  shows "\<exists>u \<in> set (accounts s). account_le u0 u \<and>
    fst (authenticate E (accessToken p) s) =
      (if seconds s \<ge> seconds s0 + 15 * 60 then Inl (UnauthorizedException ''Unauthorized'')
       else if au_tokenVersion u = v \<and> cached_version (au_id u) s \<in> {None, Some v} then Inr u
       else Inl (UnauthorizedException ''Token version mismatch - session revoked'')) \<and>
    (\<forall>w. cached_version (au_id u) s = Some w \<longrightarrow> w \<le> au_tokenVersion u) \<and>
    (cache_fresh s0 \<and> Redis False \<notin> set ops \<longrightarrow> cached_version (au_id u) s \<in> {None, Some (au_tokenVersion u)}) \<and>
    cached_version (au_id u) (auth_exec E (Tick 30000) s) = None"
proof -
  have run: "auth_kept E s0 s" using auth_run [OF ok] s by simp
  then have ok': "auth_ok E s" by (simp add: auth_kept_def)
  have u0: "u0 \<in> set (accounts s0)" "au_walletAddress u0 = a"
    using issued(1) by (auto simp: findByWalletAddress_def dest: find_Some_mem)
  then obtain u where u: "u \<in> set (accounts s)" "account_le u0 u"
    using run by (auto simp: auth_kept_def accounts_grow_def)
  let ?c = "\<lparr>jc_sub = a, jc_userId = Some (au_id u0), jc_email = email, jc_role = role, jc_tokenVersion = Some v, jc_twoFactorPending = False\<rparr>"
  have p: "accessToken p = jwt_sign E ?c (access_secret E) (seconds s0) (seconds s0 + 15 * 60)"
    using issued by (auto simp: generateTokens_def Let_def)
  have "jwt_verify E (accessToken p) (access_secret E) (seconds s) = (if seconds s < seconds s0 + 15 * 60 then Some ?c else None)"
    unfolding p using jwt unfolding jwt_sound_def by blast
  moreover have "fst (validate ?c s) = (if au_tokenVersion u = v \<and> cached_version (au_id u) s \<in> {None, Some v} then Inr u
      else Inl (UnauthorizedException ''Token version mismatch - session revoked''))"
    by (rule validate_account) (use ok' u u0 in \<open>simp_all add: auth_ok_def account_le_def\<close>)
  ultimately have "fst (authenticate E (accessToken p) s) =
      (if seconds s \<ge> seconds s0 + 15 * 60 then Inl (UnauthorizedException ''Unauthorized'')
       else if au_tokenVersion u = v \<and> cached_version (au_id u) s \<in> {None, Some v} then Inr u
       else Inl (UnauthorizedException ''Token version mismatch - session revoked''))"
    by (simp add: authenticate_def)
  moreover have "cached_version (au_id u) s \<in> {None, Some (au_tokenVersion u)}" if "cache_fresh s0" "Redis False \<notin> set ops"
    using cached_version_fresh [OF ok' _ u(1)] auth_run_fresh [OF ok that] s by simp
  ultimately show ?thesis
    using u cached_version_le [OF ok' u(1)] cached_version_expires [OF ok'] by (intro bexI [of _ u]) blast+
qed

subsection \<open>Ways around\<close>

text \<open>
  A user who registers with email and password can never sign in with them. Registration and
  every other call leave the blind index of the email empty, and the lookup by email compares
  blind indexes: it finds nobody, so every login is refused and an email can be registered again.
\<close>

theorem password_login_never_succeeds:
  assumes "auth_ok E s0" "no_blind_index s0" "s = fold (auth_exec E) ops s0"
  shows "login E email password opts s = (Refused (UnauthorizedException ''Invalid credentials''), s) \<and>
    fst (register E email hashed opts s) \<noteq> Inl (ConflictException ''Email already exists'')"
proof -
  have "no_blind_index s" using auth_run [OF assms(1), of ops] assms(2,3) by (simp add: auth_kept_def accounts_grow_def)
  then have none: "findByEmail E email s = None" by (auto simp: findByEmail_def find_None_all no_blind_index_def)
  then have "login E email password opts s = (Refused (UnauthorizedException ''Invalid credentials''), s)" by (simp add: login_def)
  moreover have "fst (register E email hashed opts s) \<noteq> Inl (ConflictException ''Email already exists'')" using none
    by (auto simp: register_def create_account_def issue_tokens_def generateTokens_def storeRefreshToken_def Let_def
        split: option.split sum.split prod.split)
  ultimately show ?thesis ..
qed

lemma issue_tokens_succeeds:
  assumes ok: "tokens_ok E s" "signatures_dated E" and u: "findByWalletAddress (au_walletAddress u) s = Some u2"
    and fresh: "\<And>r. r \<in> set (tokens s) \<Longrightarrow> rt_createdAt r div 1000 < seconds s"
  shows "\<exists>p s'. issue_tokens E u v opts s = (Inr p, s') \<and> generateTokens E (au_walletAddress u)
    (case au_email u of None \<Rightarrow> [] | Some x \<Rightarrow> x) (au_role u) v s = (Inr p, s) \<and> accounts s' = accounts s \<and>
    auth_now s' = auth_now s \<and> version_cache s' = version_cache s \<and> redis_up s' = redis_up s"
proof -
  obtain p where p: "generateTokens E (au_walletAddress u) (case au_email u of None \<Rightarrow> [] | Some x \<Rightarrow> x) (au_role u) v s = (Inr p, s)"
    "\<exists>c k e. refreshToken p = jwt_sign E c k (seconds s) e"
    using u by (fastforce simp: generateTokens_def Let_def)
  have "rt_tokenHash r \<noteq> sha256 E (refreshToken p)" if "r \<in> set (tokens s)" for r
    using ok fresh [OF that] that p(2) unfolding tokens_ok_def dated_def signatures_dated_def by (metis less_irrefl)
  then have "find_token (sha256 E (refreshToken p)) s = None" by (auto simp: find_token_def find_None_all)
  with p show ?thesis by (simp add: issue_tokens_def storeRefreshToken_def Let_def)
qed

text \<open>A live refresh token is always exchanged, and the new access token works.\<close>

lemma refresh_accepted:
  assumes ok: "auth_ok E s" "jwt_sound E" and u: "find_account i s = Some u"
    and t: "jwt_verify E t (refresh_secret E) (seconds s) \<noteq> None" "find_token (sha256 E t) s = Some r" "rt_userId r = i"
    and live: "rt_revokedAt r = None" "auth_now s \<le> rt_expiresAt r" "auth_now s \<le> rt_absoluteExpiresAt r"
    and fresh: "\<And>r. r \<in> set (tokens s) \<Longrightarrow> rt_createdAt r div 1000 < seconds s"
  shows "\<exists>p s'. refreshTokens E t opts s = (Inr p, s') \<and>
    fst (authenticate E (accessToken p) s') = Inr (u\<lparr>au_tokenVersion := au_tokenVersion u + 1\<rparr>)"
proof -
  let ?v = "au_tokenVersion u + 1" and ?o = "opts\<lparr>so_absoluteExpiresAt := Some (rt_absoluteExpiresAt r)\<rparr>"
  let ?u = "u\<lparr>au_tokenVersion := ?v\<rparr>"
  have id: "au_id u = i" using find_accountD [OF u] by simp
  define s2 where "s2 = invalidate i (update_account i (\<lambda>x. x\<lparr>au_tokenVersion := ?v\<rparr>)
    (update_tokens (\<lambda>x. rt_id x = rt_id r) (revoke (auth_now s)) s))"
  have run: "refreshTokens E t opts s = issue_tokens E u (Some ?v) ?o s2"
    using t live u id by (auto simp: refreshTokens_def findById_def incrementTokenVersion_def Let_def s2_def)
  have mem: "?u \<in> set (accounts s2)" using find_accountD [OF u] by (auto simp: s2_def update_account_def)
  have "auth_from E s s2" unfolding s2_def
    by (rule from_bump [where u = u]) (use auth_from_refl [OF ok(1)] u in \<open>auto intro: from_revoke\<close>)
  then have ok2: "auth_ok E s2" by (simp add: auth_from_def)
  have fu: "findByWalletAddress (au_walletAddress u) s2 = Some ?u"
    using findByWallet_mem [OF _ mem] ok2 by (simp add: auth_ok_def)
  have "rt_createdAt x div 1000 < seconds s2" if "x \<in> set (tokens s2)" for x
    using that fresh by (auto simp: s2_def seconds_def update_tokens_def revoke_def split: if_splits)
  then obtain p s3 where p: "issue_tokens E u (Some ?v) ?o s2 = (Inr p, s3)"
      "generateTokens E (au_walletAddress u) (case au_email u of None \<Rightarrow> [] | Some x \<Rightarrow> x) (au_role u) (Some ?v) s2 = (Inr p, s2)"
    and s3: "accounts s3 = accounts s2" "auth_now s3 = auth_now s2" "version_cache s3 = version_cache s2" "redis_up s3 = redis_up s2"
    using issue_tokens_succeeds [OF _ _ fu, where v = "Some ?v" and opts = ?o and E = E] ok2 by (auto simp: auth_ok_def)
  have ok3: "accounts_ok s3" using auth_exec_kept [OF ok(1), of "Refresh t opts"] run p(1) by (simp add: auth_kept_def auth_ok_def)
  have "cached_version i s3 = None" using s3 by (simp add: cached_version_def s2_def)
  let ?c = "\<lparr>jc_sub = au_walletAddress u, jc_userId = Some i, jc_email = (case au_email u of None \<Rightarrow> [] | Some x \<Rightarrow> x),
    jc_role = au_role u, jc_tokenVersion = Some ?v, jc_twoFactorPending = False\<rparr>"
  have acc: "accessToken p = jwt_sign E ?c (access_secret E) (seconds s2) (seconds s2 + 15 * 60)"
    using p(2) fu id by (auto simp: generateTokens_def Let_def)
  have "jwt_verify E (accessToken p) (access_secret E) (seconds s3) = Some ?c"
    unfolding acc using ok(2) s3(2) by (simp add: jwt_sound_def seconds_def)
  moreover from \<open>cached_version i s3 = None\<close> have "fst (validate ?c s3) = Inr ?u"
    using validate_account [OF ok3, of ?u ?c] mem s3 id by simp
  ultimately show ?thesis using run p(1) by (simp add: authenticate_def)
qed

text \<open>
  Banning a user does not end the session. The ban makes the access token invalid, but a refresh
  token of the banned user is exchanged as before, and the access token it yields is accepted.
\<close>

theorem banned_user_refreshes:
  assumes ok: "auth_ok E s" "jwt_sound E" and ban: "banUser i s = (Inr u', s1)"
    and t: "jwt_verify E t (refresh_secret E) (seconds s) \<noteq> None" "find_token (sha256 E t) s = Some r" "rt_userId r = i"
    and live: "rt_revokedAt r = None" "auth_now s \<le> rt_expiresAt r" "auth_now s \<le> rt_absoluteExpiresAt r"
    and fresh: "\<forall>r \<in> set (tokens s). rt_createdAt r div 1000 < seconds s"
  shows "\<exists>p s2 u. refreshTokens E t opts s1 = (Inr p, s2) \<and> fst (authenticate E (accessToken p) s2) = Inr u \<and>
    au_id u = i \<and> au_bannedAt u \<noteq> None \<and> \<not> au_isActive u"
proof -
  obtain u where u: "find_account i s = Some u" using ban by (auto simp: banUser_def split: option.splits)
  have id: "au_id u = i" using find_accountD [OF u] by simp
  have s1: "s1 = invalidate i (update_account i (\<lambda>x. x\<lparr>au_bannedAt := Some (auth_now s), au_isActive := False,
      au_tokenVersion := au_tokenVersion u + 1\<rparr>) s)" using ban u by (auto simp: banUser_def Let_def)
  let ?b = "u\<lparr>au_bannedAt := Some (auth_now s), au_isActive := False, au_tokenVersion := au_tokenVersion u + 1\<rparr>"
  have "auth_ok E s1" using auth_exec_kept [OF ok(1), of "Ban i"] ban by (simp add: auth_kept_def)
  moreover have "find_account i s1 = Some ?b" using u id by (simp add: s1)
  moreover have "seconds s1 = seconds s" "auth_now s1 = auth_now s" "tokens s1 = tokens s" "find_token h s1 = find_token h s" for h
    by (simp_all add: s1 seconds_def find_token_def)
  ultimately obtain p s2 where "refreshTokens E t opts s1 = (Inr p, s2)"
      "fst (authenticate E (accessToken p) s2) = Inr (?b\<lparr>au_tokenVersion := au_tokenVersion ?b + 1\<rparr>)"
    using refresh_accepted [of E s1 i ?b t r opts] ok(2) t live fresh by auto
  then show ?thesis by (intro exI [of _ p] exI [of _ s2]) (simp add: id)
qed

text \<open>
  Setting up a second factor switches the existing one off. A user who has two factors and calls
  the set-up again, which asks for neither password nor code, is left without: the pending second
  step is refused and a login with the password alone is answered with tokens, until the new
  authenticator is verified.
\<close>

theorem enable2FA_drops_second_factor:
  assumes u: "find_account i s = Some u" "au_twoFactorEnabled u"
    and pre: "jwt_verify E pre (access_secret E) (seconds s) = Some c" "jc_sub c = i" "jc_twoFactorPending c"
  shows "\<exists>s'. enable2FA E secret codes i s = (Inr (secret, codes), s') \<and>
    completeTwoFactorLogin E pre code s' = (Inl (ForbiddenException ''2FA is not enabled for this account''), s') \<and>
    (findByEmail E email s' = Some v \<and> au_id v = i \<longrightarrow> (\<forall>opts x. fst (login E email password opts s') \<noteq> TwoFactorRequired x))"
proof -
  let ?f = "\<lambda>x. x\<lparr>au_twoFactorSecret := Some secret, au_twoFactorEnabled := False, au_backupCodes := Some (map (sha256 E) codes)\<rparr>"
  have id: "au_id u = i" using find_accountD [OF u(1)] by simp
  let ?s = "update_account i ?f s"
  have "\<not> au_twoFactorEnabled v" if "findByEmail E email ?s = Some v" "au_id v = i"
  proof -
    have "v \<in> set (accounts ?s)" using find_Some_mem [OF that(1) [unfolded findByEmail_def]] by blast
    then have "v \<in> (\<lambda>x. if au_id x = i then ?f x else x) ` set (accounts s)" by (simp add: update_account_def)
    then obtain x where x: "v = (if au_id x = i then ?f x else x)" by (rule imageE)
    show ?thesis using x that(2) by (cases "au_id x = i") simp_all
  qed
  then have "findByEmail E email ?s = Some v \<and> au_id v = i \<longrightarrow> (\<forall>opts x. fst (login E email password opts ?s) \<noteq> TwoFactorRequired x)"
    by (auto simp: login_def split: sum.split prod.split)
  moreover have "enable2FA E secret codes i s = (Inr (secret, codes), ?s)" using u by (simp add: enable2FA_def findById_def)
  moreover
  have found: "find_account i ?s = Some (?f u)" using u id by simp
  have clock: "seconds ?s = seconds s" by (simp add: seconds_def)
  have "completeTwoFactorLogin E pre code ?s = (Inl (ForbiddenException ''2FA is not enabled for this account''), ?s)"
    using pre found clock by (simp del: find_account_update add: completeTwoFactorLogin_def verifyPreAuthToken_def findById_def)
  ultimately show ?thesis by (intro exI [of _ ?s] conjI)
qed

lemma index_of_None: "index_of x xs = None \<longleftrightarrow> x \<notin> set xs"
  by (induction xs) auto

lemma remove_at_index: "index_of x xs = Some i \<Longrightarrow> distinct xs \<Longrightarrow> remove_at i xs = filter (\<lambda>y. y \<noteq> x) xs"
proof (induction xs arbitrary: i)
  case (Cons y xs)
  show ?case
  proof (cases "x = y")
    case True
    with Cons.prems have "filter (\<lambda>z. z \<noteq> x) xs = xs" by (intro filter_True) auto
    with True Cons.prems show ?thesis by auto
  next
    case False
    with Cons show ?thesis by auto
  qed
qed simp

text \<open>
  A backup code works once. A login completed with a backup code removes exactly this code, so
  that a second login with the same code is refused.
\<close>

theorem backup_code_used_once:
  assumes u: "find_account i s = Some u" "au_backupCodes u = Some cs" "distinct cs"
    and pre: "jwt_verify E pre (access_secret E) (seconds s) = Some c" "jc_sub c = i"
    and no_totp: "\<not> totp_verify E code (the (au_twoFactorSecret u)) (auth_now s)"
    and run: "completeTwoFactorLogin E pre code s = (Inr j, s')"
  shows "j = i \<and> find_account i s' = Some (u\<lparr>au_backupCodes := Some (filter (\<lambda>h. h \<noteq> sha256 E code) cs)\<rparr>) \<and>
    completeTwoFactorLogin E pre code s' = (Inl (UnauthorizedException ''Invalid TOTP token or backup code''), s')"
proof -
  have id: "au_id u = i" using find_accountD [OF u(1)] by simp
  from run u pre no_totp obtain k where k: "index_of (sha256 E code) cs = Some k" "jc_twoFactorPending c"
      "au_twoFactorEnabled u" "truthy (au_twoFactorSecret u)"
    and s': "j = i" "s' = update_account i (\<lambda>x. x\<lparr>au_backupCodes := Some (remove_at k cs)\<rparr>) s"
    by (auto simp: completeTwoFactorLogin_def verifyPreAuthToken_def findById_def id split: if_splits option.splits)
  have f: "find_account i s' = Some (u\<lparr>au_backupCodes := Some (filter (\<lambda>h. h \<noteq> sha256 E code) cs)\<rparr>)"
    using u id remove_at_index [OF k(1) u(3)] by (simp add: s'(2))
  have "index_of (sha256 E code) (filter (\<lambda>h. h \<noteq> sha256 E code) cs) = None" by (simp add: index_of_None)
  moreover have "seconds s' = seconds s" "auth_now s' = auth_now s" by (simp_all add: s'(2) seconds_def)
  ultimately show ?thesis using f s'(1) pre k no_totp
    by (simp add: completeTwoFactorLogin_def verifyPreAuthToken_def findById_def)
qed

subsection \<open>Concrete runs\<close>

text \<open>
  An instance of the libraries: a token is the list of its fields, each character marked and each
  field closed, signed with its secret in clear; a hash is the string itself.
\<close>

fun put_field :: "string \<Rightarrow> string" where
  "put_field [] = ''.''"
| "put_field (c # cs) = CHR ''+'' # c # put_field cs"

fun get_field :: "string \<Rightarrow> string \<times> string" where
  "get_field (a # c # r) = (if a = CHR ''+'' then (let (x, r') = get_field r in (c # x, r')) else ([], c # r))"
| "get_field r = ([], [])"

lemma get_put_field [simp]: "r \<noteq> [] \<Longrightarrow> get_field (put_field x @ r) = (x, r)"
  by (induction x) (auto simp: neq_Nil_conv)

definition read_int :: "string \<Rightarrow> int" where
  "read_int s = (case s of [] \<Rightarrow> 0 | c # r \<Rightarrow> if c = CHR ''-'' then - int (read_nat r) else int (read_nat s))"

lemma read_show_int [simp]: "read_int (show_int i) = i"
proof -
  have read: "read_int (show_nat n) = int n" for n
  proof (cases "show_nat n")
    case (Cons c r)
    then have "c \<noteq> CHR ''-''" by (metis list.set_intros(1) show_nat_no_minus)
    then show ?thesis using read_show_nat [of n] unfolding Cons read_int_def by (simp del: show_nat_big show_nat_small)
  qed (use show_nat_nonempty in blast)
  have "read_int (CHR ''-'' # show_nat n) = - int n" for n by (simp add: read_int_def read_show_nat)
  with read show ?thesis by (simp add: show_int_def)
qed

definition put_option :: "('a \<Rightarrow> string) \<Rightarrow> 'a option \<Rightarrow> string" where
  "put_option f x = (case x of None \<Rightarrow> [] | Some y \<Rightarrow> ''!'' @ f y)"

definition get_option :: "(string \<Rightarrow> 'a) \<Rightarrow> string \<Rightarrow> 'a option" where
  "get_option g s = (case s of [] \<Rightarrow> None | _ # r \<Rightarrow> Some (g r))"

lemma get_put_option [simp]: "(\<And>y. g (f y) = y) \<Longrightarrow> get_option g (put_option f x) = x"
  by (cases x) (simp_all add: get_option_def put_option_def)

definition demo_sign :: "claims \<Rightarrow> string \<Rightarrow> int \<Rightarrow> int \<Rightarrow> string" where
  "demo_sign c k i e = put_field (show_int i) @ put_field k @ put_field (show_int e) @ put_field (jc_sub c) @
     put_field (put_option id (jc_userId c)) @ put_field (jc_email c) @ put_field (jc_role c) @
     put_field (put_option show_int (jc_tokenVersion c)) @ (if jc_twoFactorPending c then ''1'' else ''0'')"

definition demo_verify :: "string \<Rightarrow> string \<Rightarrow> int \<Rightarrow> claims option" where
  "demo_verify tok k t =
     (let (i, r) = get_field tok; (k', r) = get_field r; (e, r) = get_field r; (sub, r) = get_field r; (uid, r) = get_field r;
          (email, r) = get_field r; (role, r) = get_field r; (v, r) = get_field r
      in if k' = k \<and> t < read_int e
         then Some \<lparr>jc_sub = sub, jc_userId = get_option id uid, jc_email = email, jc_role = role,
                    jc_tokenVersion = get_option read_int v, jc_twoFactorPending = (r = ''1'')\<rparr>
         else None)"

definition demo_env :: auth_env where
  "demo_env = \<lparr>jwt_sign = demo_sign, jwt_verify = demo_verify, access_secret = ''access'', refresh_secret = ''refresh'',
     absolute_days = 30, sha256 = id, blind_index = id, bcrypt_compare = (\<lambda>p h. p = h), totp_verify = (\<lambda>t k n. t = k),
     wallet_verify = (\<lambda>a c sig. sig = a)\<rparr>"

lemma put_field_nonempty [simp]: "put_field x \<noteq> []"
  by (cases x) simp_all

lemma demo_verify_sign: "demo_verify (demo_sign c k i e) k t = (if t < e then Some c else None)"
  by (cases c) (simp add: demo_sign_def demo_verify_def)

lemma demo_sound: "jwt_sound demo_env"
  unfolding jwt_sound_def by (intro allI) (simp add: demo_env_def demo_verify_sign)

lemma demo_dated: "signatures_dated demo_env"
  unfolding signatures_dated_def
proof (intro allI impI)
  fix c k i e c' k' i' e'
  assume "sha256 demo_env (jwt_sign demo_env c k i e) = sha256 demo_env (jwt_sign demo_env c' k' i' e')"
  then have "fst (get_field (demo_sign c k i e)) = fst (get_field (demo_sign c' k' i' e'))" by (simp add: demo_env_def)
  then show "i = i'" by (simp add: demo_sign_def show_int_inj)
qed

definition demo_user :: auth_user where
  "demo_user = (new_account ''0'' ''GA'' (Some ''ada'') (Some ''pw''))\<lparr>au_twoFactorSecret := Some ''123456'',
     au_twoFactorEnabled := True, au_backupCodes := Some [''b1'', ''b2'']\<rparr>"

definition demo_claims :: claims where
  "demo_claims = \<lparr>jc_sub = ''GA'', jc_userId = Some ''0'', jc_email = ''ada'', jc_role = ''user'', jc_tokenVersion = Some 0,
     jc_twoFactorPending = False\<rparr>"

definition demo_token :: string where
  "demo_token = demo_sign demo_claims ''refresh'' 0 (7 * 24 * 60 * 60)"

definition demo_row :: refresh_token where
  "demo_row = \<lparr>rt_id = ''1'', rt_userId = ''0'', rt_tokenHash = demo_token, rt_expiresAt = 7 * day, rt_absoluteExpiresAt = 30 * day,
     rt_revokedAt = None, rt_deviceId = None, rt_deviceName = None, rt_ipAddress = None, rt_createdAt = 0, rt_lastUsedAt = 0\<rparr>"

text \<open>One user with one session, an hour after signing in.\<close>

definition demo_auth :: auth where
  "demo_auth = \<lparr>accounts = [demo_user], tokens = [demo_row], version_cache = Map.empty, redis_up = True, alerts_sent = [],
     auth_now = 3600000, auth_uuids = 2\<rparr>"

lemma demo_auth_ok: "auth_ok demo_env demo_auth"
proof -
  have "dated demo_env 3600000 demo_row"
    by (simp add: dated_def demo_row_def demo_env_def demo_token_def) blast
  moreover have "show_nat 0 = ''0''" "show_nat 1 = ''1''" by code_simp+
  then have "''0'' \<in> show_nat ` {..<2}" "''1'' \<in> show_nat ` {..<2}"
    by (metis imageI lessThan_iff zero_less_numeral, metis imageI lessThan_iff one_less_numeral_iff semiring_norm(76))
  ultimately show ?thesis
    by (simp add: auth_ok_def demo_dated accounts_ok_def tokens_ok_def cache_ok_def cache_holds_def demo_auth_def)
      (simp add: demo_user_def new_account_def demo_row_def)
qed

lemma demo_simps [simp]:
  "sha256 demo_env = id" "jwt_sign demo_env = demo_sign" "jwt_verify demo_env = demo_verify"
  "refresh_secret demo_env = ''refresh''" "access_secret demo_env = ''access''" "totp_verify demo_env = (\<lambda>t k n. t = k)"
  "tokens demo_auth = [demo_row]" "accounts demo_auth = [demo_user]" "auth_now demo_auth = 3600000" "seconds demo_auth = 3600"
  "find_account ''0'' demo_auth = Some demo_user" "find_token demo_token demo_auth = Some demo_row"
  "findByWalletAddress ''GA'' demo_auth = Some demo_user"
  by (simp_all add: demo_env_def demo_auth_def seconds_def find_account_def demo_user_def new_account_def find_token_def
      demo_row_def findByWalletAddress_def)

lemma demo_user_simps [simp]:
  "au_id demo_user = ''0''" "au_walletAddress demo_user = ''GA''" "au_twoFactorEnabled demo_user"
  "au_twoFactorSecret demo_user = Some ''123456''" "au_backupCodes demo_user = Some [''b1'', ''b2'']"
  "au_emailBlindIndex demo_user = None" "au_tokenVersion demo_user = 0"
  by (simp_all add: demo_user_def new_account_def)

lemma demo_live: "rt_revokedAt demo_row = None" "auth_now demo_auth \<le> rt_expiresAt demo_row"
  "auth_now demo_auth \<le> rt_absoluteExpiresAt demo_row" "rt_userId demo_row = ''0''" "rt_createdAt demo_row = 0"
  by (simp_all add: demo_row_def demo_auth_def day_def)

lemma demo_signed: "jwt_verify demo_env demo_token (refresh_secret demo_env) (seconds demo_auth) \<noteq> None"
  by (simp add: demo_token_def demo_verify_sign)

theorem refresh_token_exchanged_once_witness:
  "count_due (exchanges demo_env demo_token) (auth_exec demo_env) [Refresh demo_token no_options, Refresh demo_token no_options] demo_auth \<le> 1"
  by (rule refresh_token_exchanged_once [OF demo_auth_ok])

theorem refreshTokens_rotates_witness:
  "\<exists>p s' r u. refreshTokens demo_env demo_token no_options demo_auth = (Inr p, s') \<and>
     tokens s' = map (\<lambda>x. if x = r then (revoke 3600000 r)\<lparr>rt_lastUsedAt := 3600000\<rparr> else x) [demo_row] @
       [rotated demo_env r u p no_options demo_auth]"
proof -
  obtain p s' where run: "refreshTokens demo_env demo_token no_options demo_auth = (Inr p, s')"
    using refresh_accepted [OF demo_auth_ok demo_sound _ demo_signed, where r = demo_row and i = "''0''" and opts = no_options] demo_live by auto
  from refreshTokens_rotates [OF demo_auth_ok run] show ?thesis using run by (intro exI [of _ p] exI [of _ s']) auto
qed

definition demo_reused :: auth where
  "demo_reused = demo_auth\<lparr>tokens := [demo_row\<lparr>rt_revokedAt := Some 5\<rparr>]\<rparr>"

lemma demo_reused_ok: "auth_ok demo_env demo_reused"
  using demo_auth_ok by (simp add: auth_ok_def accounts_ok_def tokens_ok_def cache_ok_def cache_holds_def demo_reused_def dated_def
      find_account_def demo_auth_def)

theorem reuse_ends_all_sessions_witness:
  "\<exists>s'. refreshTokens demo_env demo_token no_options demo_reused = (Inl (UnauthorizedException ''Access Denied''), s') \<and>
     listSessions ''0'' s' = [] \<and>
     fst (validate demo_claims s') = Inl (UnauthorizedException ''Token version mismatch - session revoked'')"
proof -
  have "find_token (sha256 demo_env demo_token) demo_reused = Some (demo_row\<lparr>rt_revokedAt := Some 5\<rparr>)"
    "find_account ''0'' demo_reused = Some demo_user" "seconds demo_reused = seconds demo_auth"
    by (simp_all add: demo_reused_def find_token_def demo_row_def find_account_def demo_auth_def seconds_def)
  then show ?thesis
    using reuse_ends_all_sessions [OF demo_reused_ok, of demo_token "demo_row\<lparr>rt_revokedAt := Some 5\<rparr>" demo_user demo_claims 0]
      demo_signed demo_live by (simp add: demo_claims_def)
qed

theorem access_token_valid_until_revoked_witness:
  "\<exists>p. generateTokens demo_env ''GA'' ''ada'' ''user'' (Some 0) demo_auth = (Inr p, demo_auth) \<and>
     (\<exists>u \<in> set (accounts (fold (auth_exec demo_env) [Tick 60000, RevokeAll ''0''] demo_auth)). account_le demo_user u \<and>
       fst (authenticate demo_env (accessToken p) (fold (auth_exec demo_env) [Tick 60000, RevokeAll ''0''] demo_auth)) =
        (if seconds (fold (auth_exec demo_env) [Tick 60000, RevokeAll ''0''] demo_auth) \<ge> seconds demo_auth + 15 * 60
         then Inl (UnauthorizedException ''Unauthorized'')
         else if au_tokenVersion u = 0 \<and>
           cached_version (au_id u) (fold (auth_exec demo_env) [Tick 60000, RevokeAll ''0''] demo_auth) \<in> {None, Some 0} then Inr u
         else Inl (UnauthorizedException ''Token version mismatch - session revoked'')))"
proof -
  obtain p where p: "generateTokens demo_env ''GA'' ''ada'' ''user'' (Some 0) demo_auth = (Inr p, demo_auth)"
    by (simp add: generateTokens_def Let_def)
  have w: "findByWalletAddress ''GA'' demo_auth = Some demo_user" by simp
  from access_token_valid_until_revoked [OF demo_auth_ok demo_sound w p refl] p show ?thesis by blast
qed

theorem password_login_never_succeeds_witness:
  "fst (login demo_env ''ada'' ''pw'' no_options (fold (auth_exec demo_env) [Register ''eve'' ''pw'' no_options] demo_auth))
     = Refused (UnauthorizedException ''Invalid credentials'')"
  using password_login_never_succeeds [OF demo_auth_ok _ refl, of "''ada''" "''pw''" no_options "[Register ''eve'' ''pw'' no_options]"]
  by (simp add: no_blind_index_def)

theorem banned_user_refreshes_witness:
  "\<exists>p s2 u. refreshTokens demo_env demo_token no_options (snd (banUser ''0'' demo_auth)) = (Inr p, s2) \<and>
     fst (authenticate demo_env (accessToken p) s2) = Inr u \<and> au_id u = ''0'' \<and> au_bannedAt u \<noteq> None \<and> \<not> au_isActive u"
proof -
  obtain u s1 where "banUser ''0'' demo_auth = (Inr u, s1)" by (simp add: banUser_def Let_def)
  then show ?thesis
    using banned_user_refreshes [OF demo_auth_ok demo_sound, of "''0''" u s1 demo_token demo_row no_options] demo_signed demo_live
    by simp
qed

definition demo_pre :: string where
  "demo_pre = demo_sign (demo_claims\<lparr>jc_sub := ''0'', jc_userId := None, jc_tokenVersion := None, jc_twoFactorPending := True\<rparr>)
     ''access'' 3600 3900"

theorem enable2FA_drops_second_factor_witness:
  "\<exists>s'. enable2FA demo_env ''new'' [] ''0'' demo_auth = (Inr (''new'', []), s') \<and>
     completeTwoFactorLogin demo_env demo_pre ''123456'' s' =
       (Inl (ForbiddenException ''2FA is not enabled for this account''), s')"
  using enable2FA_drops_second_factor [of "''0''" demo_auth demo_user demo_env demo_pre
      "demo_claims\<lparr>jc_sub := ''0'', jc_userId := None, jc_tokenVersion := None, jc_twoFactorPending := True\<rparr>" "''new''" "[]" "''123456''"]
  by (simp add: demo_pre_def demo_verify_sign) blast

theorem backup_code_used_once_witness:
  "\<exists>s'. completeTwoFactorLogin demo_env demo_pre ''b1'' demo_auth = (Inr ''0'', s') \<and>
     find_account ''0'' s' = Some (demo_user\<lparr>au_backupCodes := Some [''b2'']\<rparr>)"
proof -
  have pre: "jwt_verify demo_env demo_pre (access_secret demo_env) (seconds demo_auth) =
      Some (demo_claims\<lparr>jc_sub := ''0'', jc_userId := None, jc_tokenVersion := None, jc_twoFactorPending := True\<rparr>)"
    by (simp add: demo_pre_def demo_verify_sign)
  obtain s' where run: "completeTwoFactorLogin demo_env demo_pre ''b1'' demo_auth = (Inr ''0'', s')"
    using pre by (simp add: completeTwoFactorLogin_def verifyPreAuthToken_def findById_def)
  show ?thesis using backup_code_used_once [OF _ _ _ pre _ _ run, where u = demo_user and cs = "[''b1'', ''b2'']"] run by simp
qed

end
