(* ===== verification/Base64.thy ===== *)
theory Base64
  imports Prelude
begin

text \<open>
  \<open>toString('base64')\<close> and \<open>Buffer.from(s, 'base64')\<close> of Node.js on strings of bytes. The decoder
  stops at the first \<open>=\<close>, skips what is not of the alphabet, reads the URL alphabet as well, and
  drops the bits of an unfinished byte.
\<close>

definition b64_char :: "nat \<Rightarrow> char" where
  "b64_char n = char_of (if n < 26 then 65 + n else if n < 52 then 71 + n else if n < 62 then n - 4 else if n = 62 then 43 else 47 :: nat)"

fun base64 :: "string \<Rightarrow> string" where
  "base64 (x # y # z # r) = (let a = of_char x; b = of_char y; c = of_char z in
     b64_char (a div 4) # b64_char (a mod 4 * 16 + b div 16) # b64_char (b mod 16 * 4 + c div 64) # b64_char (c mod 64) # base64 r)"
| "base64 [x, y] = (let a = of_char x; b = of_char y in
     [b64_char (a div 4), b64_char (a mod 4 * 16 + b div 16), b64_char (b mod 16 * 4), CHR ''=''])"
| "base64 [x] = (let a = of_char x in [b64_char (a div 4), b64_char (a mod 4 * 16), CHR ''='', CHR ''=''])"
| "base64 [] = []"

definition b64_value :: "char \<Rightarrow> nat option" where
  "b64_value ch = (let k = of_char ch :: nat in
     if 65 \<le> k \<and> k \<le> 90 then Some (k - 65)
     else if 97 \<le> k \<and> k \<le> 122 then Some (k - 71)
     else if 48 \<le> k \<and> k \<le> 57 then Some (k + 4)
     else if k = 43 \<or> k = 45 then Some 62
     else if k = 47 \<or> k = 95 then Some 63 else None)"

fun b64_bytes :: "nat list \<Rightarrow> string" where
  "b64_bytes (p # q # r # s # ns) =
     char_of (p * 4 + q div 16) # char_of (q mod 16 * 16 + r div 4) # char_of (r mod 4 * 64 + s) # b64_bytes ns"
| "b64_bytes [p, q, r] = [char_of (p * 4 + q div 16), char_of (q mod 16 * 16 + r div 4)]"
| "b64_bytes [p, q] = [char_of (p * 4 + q div 16)]"
| "b64_bytes _ = []"

definition b64_digits :: "string \<Rightarrow> nat list" where
  "b64_digits s = List.map_filter b64_value (takeWhile (\<lambda>ch. ch \<noteq> CHR ''='') s)"

definition base64_decode :: "string \<Rightarrow> string" where
  "base64_decode s = b64_bytes (b64_digits s)"

lemma b64_value_of: "(of_char ch :: nat) = k \<Longrightarrow> b64_value ch =
   (if 65 \<le> k \<and> k \<le> 90 then Some (k - 65) else if 97 \<le> k \<and> k \<le> 122 then Some (k - 71)
    else if 48 \<le> k \<and> k \<le> 57 then Some (k + 4) else if k = 43 \<or> k = 45 then Some 62
    else if k = 47 \<or> k = 95 then Some 63 else None)"
  by (simp add: b64_value_def Let_def)

lemma b64_value_char [simp]:
  assumes "n < 64"
  shows "b64_value (b64_char n) = Some n"
proof -
  consider "n < 26" | "26 \<le> n" "n < 52" | "52 \<le> n" "n < 62" | "n = 62" | "n = 63" using assms by linarith
  then show ?thesis
  proof cases
    case 1
    then have "of_char (b64_char n) = 65 + n" by (simp add: b64_char_def)
    from b64_value_of [OF this] 1 show ?thesis by simp
  next
    case 2
    then have "of_char (b64_char n) = 71 + n" by (simp add: b64_char_def)
    from b64_value_of [OF this] 2 show ?thesis by simp
  next
    case 3
    then obtain m where m: "n = 52 + m" "m < 10" using that [of "n - 52"] by simp
    then have "of_char (b64_char n) = 48 + m" by (simp add: b64_char_def)
    from b64_value_of [OF this] m show ?thesis by simp
  qed (simp_all add: b64_value_def b64_char_def)
qed

lemma b64_char_not_pad [simp]: "n < 64 \<Longrightarrow> b64_char n \<noteq> CHR ''=''"
  using b64_value_char [of n] by (auto simp: b64_value_of)

lemma b64_digits_simps:
  "b64_digits [] = []"
  "b64_digits (CHR ''='' # s) = []"
  "n < 64 \<Longrightarrow> b64_digits (b64_char n # s) = n # b64_digits s"
  by (simp_all add: b64_digits_def map_filter_simps)

lemma of_char_lt [simp]: "(of_char (ch :: char) :: nat) < 256"
  by (metis of_char_mod_256 mod_less_divisor zero_less_numeral)

lemma join_digits:
  fixes p q k :: nat
  assumes "q < k"
  shows "(p * k + q) div k = p" and "(p * k + q) mod k = q"
  using assms by simp_all

lemma sextets:
  fixes a b c :: nat
  assumes "a < 256" "b < 256" "c < 256"
  shows "a div 4 < 64" "a mod 4 * 16 + b div 16 < 64" "b mod 16 * 4 + c div 64 < 64" "c mod 64 < 64"
    and "a mod 4 * 16 < 64" "b mod 16 * 4 < 64"
    and "a div 4 * 4 + (a mod 4 * 16 + b div 16) div 16 = a"
    and "(a mod 4 * 16 + b div 16) mod 16 * 16 + (b mod 16 * 4 + c div 64) div 4 = b"
    and "(b mod 16 * 4 + c div 64) mod 4 * 64 + c mod 64 = c"
    and "a div 4 * 4 + (a mod 4 * 16) div 16 = a"
    and "(a mod 4 * 16 + b div 16) mod 16 * 16 + (b mod 16 * 4) div 4 = b"
proof -
  have hi: "b div 16 < 16" "c div 64 < 4" using assms by (simp_all add: less_mult_imp_div_less)
  have lo: "a mod 4 < 4" "b mod 16 < 16" by simp_all
  show "a div 4 < 64" using assms(1) by (simp add: less_mult_imp_div_less)
  show "a mod 4 * 16 + b div 16 < 64" "b mod 16 * 4 + c div 64 < 64" "a mod 4 * 16 < 64" "b mod 16 * 4 < 64"
    using hi lo by linarith+
  show "c mod 64 < 64" by simp
  show "a div 4 * 4 + (a mod 4 * 16 + b div 16) div 16 = a"
    by (simp only: join_digits [OF hi(1)] div_mult_mod_eq)
  show "(a mod 4 * 16 + b div 16) mod 16 * 16 + (b mod 16 * 4 + c div 64) div 4 = b"
    by (simp only: join_digits [OF hi(1)] join_digits [OF hi(2)] div_mult_mod_eq)
  show "(b mod 16 * 4 + c div 64) mod 4 * 64 + c mod 64 = c"
    by (simp only: join_digits [OF hi(2)] div_mult_mod_eq)
  show "a div 4 * 4 + (a mod 4 * 16) div 16 = a"
    by (simp add: div_mult_mod_eq)
  show "(a mod 4 * 16 + b div 16) mod 16 * 16 + (b mod 16 * 4) div 4 = b"
    using join_digits [OF hi(1), of "a mod 4"] by (simp add: div_mult_mod_eq)
qed

lemma base64_Nil [simp]: "base64 bs = [] \<longleftrightarrow> bs = []"
  by (cases bs rule: base64.cases) (simp_all add: Let_def)

theorem base64_roundtrip: "base64_decode (base64 bs) = bs"
  unfolding base64_decode_def
proof (induction bs rule: base64.induct)
  case (1 x y z r)
  note lt = of_char_lt [of x] of_char_lt [of y] of_char_lt [of z]
  note s = sextets [OF lt]
  from 1 s show ?case
    by (simp only: base64.simps Let_def b64_digits_simps b64_bytes.simps char_of_char s)
next
  case (2 x y)
  note s = sextets [OF of_char_lt [of x] of_char_lt [of y] of_char_lt [of y]]
  show ?case
    by (simp only: base64.simps Let_def b64_digits_simps b64_bytes.simps char_of_char s)
next
  case (3 x)
  note s = sextets [OF of_char_lt [of x] of_char_lt [of x] of_char_lt [of x]]
  show ?case
    by (simp only: base64.simps Let_def b64_digits_simps b64_bytes.simps char_of_char s)
qed (simp add: b64_digits_simps)

end
