(* ===== verification/Throttle.thy ===== *)
theory Throttle
  imports Tables Base64 "HOL-Library.Word"
begin

text \<open>
  Rate limiting: \<open>CustomThrottlerGuard\<close> and \<open>WalletThrottlerGuard\<close> (\<open>throttler/guards/*.ts\<close>),
  \<open>RedisThrottlerStorageService\<close> (\<open>throttler/redis-throttler-storage.service.ts\<close>) with its Lua
  scripts, and \<open>TrustedIpService\<close> (\<open>throttler/services/trusted-ip.service.ts\<close>). The base class of the
  guard belongs to NestJS: the limits for which it calls \<open>handleRequest\<close> and its key function are
  arguments, and so are SHA-256 and the random part of a member of a sorted set.
\<close>

subsection \<open>Addresses\<close>

text \<open>\<open>split\<close> of a string at a character and \<open>trim\<close>.\<close>

fun split_at :: "char \<Rightarrow> string \<Rightarrow> string list" where
  "split_at d [] = [[]]"
| "split_at d (c # cs) = (if c = d then [] # split_at d cs
     else case split_at d cs of [] \<Rightarrow> [[c]] | w # ws \<Rightarrow> (c # w) # ws)"

definition is_space :: "char \<Rightarrow> bool" where
  "is_space c \<longleftrightarrow> of_char c \<in> {9, 10, 11, 12, 13, 32 :: nat}"

definition trim :: "string \<Rightarrow> string" where
  "trim s = rev (dropWhile is_space (rev (dropWhile is_space s)))"

definition is_digit :: "char \<Rightarrow> bool" where
  "is_digit c \<longleftrightarrow> 48 \<le> (of_char c :: nat) \<and> (of_char c :: nat) \<le> 57"

text \<open>The pattern of four groups of one to three digits, and each group at most 255.\<close>

definition isValidIpv4 :: "string \<Rightarrow> bool" where
  "isValidIpv4 ip = (let parts = split_at CHR ''.'' ip in
     length parts = 4 \<and> (\<forall>p \<in> set parts. 1 \<le> length p \<and> length p \<le> 3 \<and> list_all is_digit p \<and> read_nat p \<le> 255))"

definition ipToNumber :: "string \<Rightarrow> nat" where
  "ipToNumber ip = foldl (\<lambda>acc (i, p). acc + read_nat p * 256 ^ (3 - i)) 0 (enumerate 0 (split_at CHR ''.'' ip))"

definition isIpInRange :: "string \<Rightarrow> string \<Rightarrow> string \<Rightarrow> bool" where
  "isIpInRange ip lo hi =
     (if \<not> isValidIpv4 ip \<or> \<not> isValidIpv4 lo \<or> \<not> isValidIpv4 hi then False
      else ipToNumber lo \<le> ipToNumber ip \<and> ipToNumber ip \<le> ipToNumber hi)"

subsection \<open>State\<close>

text \<open>The Redis keys, one map for each prefix; every entry with a time to live ends with its expiry.\<close>

record throttle =
  windows :: "string \<rightharpoonup> (time \<times> string) list \<times> time"
  counters :: "string \<rightharpoonup> nat \<times> time"
  blocks :: "string \<rightharpoonup> time"
  violations :: "string \<rightharpoonup> nat \<times> time"
  blocked_ips :: "string \<rightharpoonup> string \<times> time"
  trustedIps :: "string list"
  trusted_redis :: "string \<rightharpoonup> time option"
  clock_ms :: time

record throttle_env =
  redis_up :: bool
  fixed_window :: bool
  trustedIpRanges :: "(string \<times> string) list"
  ignoreUserAgents :: "string list"
  api_limit :: nat
  api_ttl :: time
  key_of :: "string \<Rightarrow> string \<Rightarrow> string"
  sha256_hex :: "string \<Rightarrow> string"

definition alive :: "('k \<rightharpoonup> 'v \<times> time) \<Rightarrow> 'k \<Rightarrow> time \<Rightarrow> 'v option" where
  "alive m k t = (case m k of None \<Rightarrow> None | Some (v, e) \<Rightarrow> if e \<le> t then None else Some v)"

subsection \<open>Counting\<close>

text \<open>The sliding window script: expired members out, the new one in, count.\<close>

definition slidingWindow :: "string \<Rightarrow> time \<Rightarrow> string \<Rightarrow> throttle \<Rightarrow> (nat \<times> time) \<times> throttle" where
  "slidingWindow k ttl rnd s =
     (let t = clock_ms s;
          member = show_int t @ ''-'' @ rnd;
          old = (case alive (windows s) k t of None \<Rightarrow> [] | Some xs \<Rightarrow> xs);
          kept = filter (\<lambda>x. \<not> fst x \<le> t - ttl) old;
          xs = (t, member) # filter (\<lambda>x. snd x \<noteq> member) kept
      in ((length xs, ttl), s\<lparr>windows := (windows s)(k \<mapsto> (xs, t + ttl))\<rparr>))"

text \<open>The fixed window script: count, and the expiry only when there is none.\<close>

definition fixedWindow :: "string \<Rightarrow> time \<Rightarrow> throttle \<Rightarrow> (nat \<times> time) \<times> throttle" where
  "fixedWindow k ttl s =
     (let t = clock_ms s in
      case counters s k of
        None \<Rightarrow> ((1, ttl), s\<lparr>counters := (counters s)(k \<mapsto> (1, t + ttl))\<rparr>)
      | Some (n, e) \<Rightarrow>
          if e \<le> t then ((1, ttl), s\<lparr>counters := (counters s)(k \<mapsto> (1, t + ttl))\<rparr>)
          else ((n + 1, e - t), s\<lparr>counters := (counters s)(k \<mapsto> (n + 1, e))\<rparr>))"

text \<open>The block script: the time left of an existing block, or a new one.\<close>

definition set_block :: "string \<Rightarrow> time \<Rightarrow> throttle \<Rightarrow> time \<times> throttle" where
  "set_block k duration s =
     (case blocks s k of
        Some e \<Rightarrow> if clock_ms s < e then (e - clock_ms s, s)
                  else (duration, s\<lparr>blocks := (blocks s)(k \<mapsto> clock_ms s + duration)\<rparr>)
      | None \<Rightarrow> (duration, s\<lparr>blocks := (blocks s)(k \<mapsto> clock_ms s + duration)\<rparr>))"

record storage_record =
  totalHits :: nat
  timeToExpire :: int
  isBlocked :: bool
  timeToBlockExpire :: int

definition ceil_seconds :: "time \<Rightarrow> int" where
  "ceil_seconds ms = (ms + 999) div 1000"

definition increment :: "throttle_env \<Rightarrow> string \<Rightarrow> time \<Rightarrow> nat \<Rightarrow> time \<Rightarrow> string \<Rightarrow> throttle
    \<Rightarrow> storage_record outcome \<times> throttle" where
  "increment E k ttl limit blockDuration rnd s =
     (if \<not> redis_up E
      then (Inl (ServiceUnavailableException ''Rate limiting temporarily unavailable. Request rejected (fail-closed).''), s)
      else let existing = (case blocks s k of None \<Rightarrow> 0 | Some e \<Rightarrow> e - clock_ms s) in
        if existing > 0
        then (Inr \<lparr>totalHits = limit + 1, timeToExpire = ceil_seconds existing, isBlocked = True,
                   timeToBlockExpire = ceil_seconds existing\<rparr>, s)
        else let ((hits, ms), s1) = (if fixed_window E then fixedWindow k ttl s else slidingWindow k ttl rnd s);
                 over = hits > limit;
                 (blockSeconds, s2) =
                   (if over \<and> blockDuration > 0
                    then (let (b, s2) = set_block k blockDuration s1 in (ceil_seconds b, s2)) else (0, s1))
             in (Inr \<lparr>totalHits = hits, timeToExpire = ceil_seconds ms, isBlocked = over,
                      timeToBlockExpire = (if over then (if blockSeconds \<noteq> 0 then blockSeconds else ceil_seconds ms) else 0)\<rparr>,
                 s2))"

subsection \<open>Trusted and blocked addresses\<close>

definition isTrustedIp :: "throttle_env \<Rightarrow> string \<Rightarrow> throttle \<Rightarrow> bool" where
  "isTrustedIp E ip s =
     (if ip = [] then False
      else ip \<in> set (trustedIps s) \<or> (\<exists>r \<in> set (trustedIpRanges E). isIpInRange ip (fst r) (snd r)))"

definition addTrustedIp :: "string \<Rightarrow> time option \<Rightarrow> throttle \<Rightarrow> throttle" where
  "addTrustedIp ip ttl s =
     s\<lparr>trustedIps := List.insert ip (trustedIps s),
       trusted_redis := (trusted_redis s)(ip \<mapsto> (case ttl of None \<Rightarrow> None | Some t \<Rightarrow>
         if t = 0 then None else Some (clock_ms s + t * 1000)))\<rparr>"

definition removeTrustedIp :: "string \<Rightarrow> throttle \<Rightarrow> throttle" where
  "removeTrustedIp ip s = s\<lparr>trustedIps := removeAll ip (trustedIps s), trusted_redis := (trusted_redis s)(ip := None)\<rparr>"

definition isTrustedInRedis :: "string \<Rightarrow> throttle \<Rightarrow> bool" where
  "isTrustedInRedis ip s =
     (case trusted_redis s ip of None \<Rightarrow> False | Some None \<Rightarrow> True | Some (Some e) \<Rightarrow> clock_ms s < e)"

definition blockIp :: "string \<Rightarrow> time \<Rightarrow> string option \<Rightarrow> throttle \<Rightarrow> throttle" where
  "blockIp ip duration reason s =
     s\<lparr>blocked_ips := (blocked_ips s)(ip \<mapsto>
         (if truthy reason then the reason else ''Rate limit exceeded'', clock_ms s + duration * 1000))\<rparr>"

text \<open>An empty reason is falsy and counts as not blocked.\<close>

definition isIpBlocked :: "string \<Rightarrow> throttle \<Rightarrow> string option" where
  "isIpBlocked ip s = (case alive (blocked_ips s) ip (clock_ms s) of Some r \<Rightarrow> if r = [] then None else Some r | None \<Rightarrow> None)"

definition unblockIp :: "string \<Rightarrow> throttle \<Rightarrow> throttle" where
  "unblockIp ip s = s\<lparr>blocked_ips := (blocked_ips s)(ip := None)\<rparr>"

definition violation_threshold :: nat where "violation_threshold = 5"

definition incrementViolations :: "string \<Rightarrow> throttle \<Rightarrow> (nat \<times> bool) \<times> throttle" where
  "incrementViolations ip s =
     (let (count, e) = (case violations s ip of
            None \<Rightarrow> (1, clock_ms s + 3600 * 1000)
          | Some (n, e) \<Rightarrow> if e \<le> clock_ms s then (1, clock_ms s + 3600 * 1000) else (n + 1, e));
          s1 = s\<lparr>violations := (violations s)(ip \<mapsto> (count, e))\<rparr>
      in if count \<ge> violation_threshold
         then ((count, True), blockIp ip 3600 (Some ''Exceeded 5 violations in 3600s'') s1)
         else ((count, False), s1))"

record ip_info =
  ii_ip :: string
  ii_trusted :: bool
  ii_blocked :: bool
  ii_violations :: nat
  ii_blockReason :: "string option"

definition getIpInfo :: "throttle_env \<Rightarrow> string \<Rightarrow> throttle \<Rightarrow> ip_info" where
  "getIpInfo E ip s =
     \<lparr>ii_ip = ip, ii_trusted = (isTrustedIp E ip s \<or> isTrustedInRedis ip s), ii_blocked = (isIpBlocked ip s \<noteq> None),
      ii_violations = (case alive (violations s) ip (clock_ms s) of None \<Rightarrow> 0 | Some n \<Rightarrow> n),
      ii_blockReason = isIpBlocked ip s\<rparr>"

subsection \<open>The guard\<close>

record request =
  rq_forwarded :: "string option"
  rq_realIp :: "string option"
  rq_cfIp :: "string option"
  rq_address :: "string option"
  rq_userAgent :: "string option"
  rq_apiKey :: "string option"
  rq_user :: "string option"
  rq_apiKeyUser :: bool
  rq_wallet :: "string option"

definition extractIp :: "request \<Rightarrow> string" where
  "extractIp r =
     (if truthy (rq_forwarded r) then hd (map trim (split_at CHR '','' (the (rq_forwarded r))))
      else if truthy (rq_realIp r) then the (rq_realIp r)
      else if truthy (rq_cfIp r) then the (rq_cfIp r)
      else if truthy (rq_address r) then the (rq_address r)
      else ''unknown'')"

definition getTracker :: "request \<Rightarrow> string" where
  "getTracker r =
     (if truthy (rq_user r) \<and> \<not> rq_apiKeyUser r then ''user:'' @ the (rq_user r)
      else let ip = extractIp r;
               ua = take 128 (case rq_userAgent r of None \<Rightarrow> ''unknown'' | Some u \<Rightarrow> u)
           in ''ip:'' @ ip @ '':ua:'' @ take 32 (base64 (ip @ '':'' @ ua)))"

definition getTracker_wallet :: "request \<Rightarrow> string" where
  "getTracker_wallet r = (if truthy (rq_wallet r) then ''wallet:'' @ the (rq_wallet r) else getTracker r)"

definition to_lower :: "char \<Rightarrow> char" where
  "to_lower c = (if 65 \<le> (of_char c :: nat) \<and> (of_char c :: nat) \<le> 90 then char_of (of_char c + 32 :: nat) else c)"

fun contains :: "string \<Rightarrow> string \<Rightarrow> bool" where
  "contains p [] = (p = [])"
| "contains p (c # cs) = (take (length p) (c # cs) = p \<or> contains p cs)"

text \<open>A pattern of the configuration is a word searched without regard to case.\<close>

definition ignored_agent :: "throttle_env \<Rightarrow> request \<Rightarrow> bool" where
  "ignored_agent E r = (\<exists>p \<in> set (ignoreUserAgents E).
     contains p (map to_lower (case rq_userAgent r of None \<Rightarrow> ''undefined'' | Some u \<Rightarrow> u)))"

record limit_spec =
  ls_name :: string
  ls_limit :: nat
  ls_ttl :: time
  ls_block :: time

text \<open>
  \<open>handleRequest\<close>, where \<open>rnd\<close> are the random parts for the two buckets. Its exception stands for
  the \<open>ThrottlerException\<close>.
\<close>

definition handleRequest :: "throttle_env \<Rightarrow> limit_spec \<Rightarrow> (request \<Rightarrow> string) \<Rightarrow> string \<times> string \<Rightarrow> request \<Rightarrow> throttle
    \<Rightarrow> bool outcome \<times> throttle" where
  "handleRequest E th tracker rnd r s =
     (if ignored_agent E r then (Inr True, s)
      else case increment E (key_of E (tracker r) (ls_name th)) (ls_ttl th) (ls_limit th) (ls_block th) (fst rnd) s of
        (Inl e, s1) \<Rightarrow> (Inl e, s1)
      | (Inr primary, s1) \<Rightarrow>
          if truthy (rq_apiKey r) \<and> ls_name th = ''default''
          then (case increment E (key_of E (''apikey:'' @ take 32 (sha256_hex E (the (rq_apiKey r)))) (ls_name th @ '':apikey''))
                  (api_ttl E) (api_limit E) (ls_block th) (snd rnd) s1 of
                  (Inl e, s2) \<Rightarrow> (Inl e, s2)
                | (Inr api, s2) \<Rightarrow>
                    if isBlocked primary \<or> isBlocked api then (Inl (TooManyRequestsException ''ThrottlerException''), s2)
                    else (Inr True, s2))
          else if isBlocked primary then (Inl (TooManyRequestsException ''ThrottlerException''), s1) else (Inr True, s1))"

text \<open>The limits the base class applies, one after the other.\<close>

fun apply_limits :: "throttle_env \<Rightarrow> (request \<Rightarrow> string) \<Rightarrow> (limit_spec \<times> string \<times> string) list \<Rightarrow> request \<Rightarrow> throttle
    \<Rightarrow> bool outcome \<times> throttle" where
  "apply_limits E tracker [] r s = (Inr True, s)"
| "apply_limits E tracker ((th, rnd) # ths) r s =
     (case handleRequest E th tracker rnd r s of
        (Inl e, s1) \<Rightarrow> (Inl e, s1)
      | (Inr ok, s1) \<Rightarrow> (case apply_limits E tracker ths r s1 of (Inl e, s2) \<Rightarrow> (Inl e, s2) | (Inr ok', s2) \<Rightarrow> (Inr (ok \<and> ok'), s2)))"

text \<open>What the decorators attach to a route.\<close>

record route =
  rt_skip :: bool
  rt_bypass :: bool
  rt_message :: "string option"

definition unavailable :: exn where
  "unavailable = ServiceUnavailableException ''Rate limiting temporarily unavailable. Request rejected (fail-closed).''"

definition canActivate :: "throttle_env \<Rightarrow> route \<Rightarrow> (request \<Rightarrow> string) \<Rightarrow> (limit_spec \<times> string \<times> string) list \<Rightarrow> request
    \<Rightarrow> throttle \<Rightarrow> bool outcome \<times> throttle" where
  "canActivate E rt tracker ths r s =
     (if rt_skip rt then (Inr True, s)
      else let ip = extractIp r in
      if \<not> redis_up E then (Inl unavailable, s)
      else case isIpBlocked ip s of
        Some reason \<Rightarrow> (Inl (ForbiddenException (''Access denied: '' @ reason)), s)
      | None \<Rightarrow>
          if rt_bypass rt \<and> isTrustedIp E ip s then (Inr True, s)
          else case apply_limits E tracker ths r s of
            (Inr ok, s1) \<Rightarrow> (Inr ok, s1)
          | (Inl (TooManyRequestsException m), s1) \<Rightarrow>
              (let ((count, shouldBlock), s2) = incrementViolations ip s1
               in if shouldBlock
                  then (Inl (ForbiddenException ''Too many rate limit violations. Your IP has been temporarily blocked.''), s2)
                  else if truthy (rt_message rt) then (Inl (TooManyRequestsException (the (rt_message rt))), s2)
                  else (Inl (TooManyRequestsException m), s2))
          | (Inl e, s1) \<Rightarrow> (Inl e, s1))"

subsection \<open>Ranges of addresses\<close>

text \<open>An address is a 32-bit word, written as four decimal octets.\<close>

definition octet :: "nat \<Rightarrow> 32 word \<Rightarrow> nat" where
  "octet i w = unat w div 256 ^ i mod 256"

definition dotted :: "32 word \<Rightarrow> string" where
  "dotted w = show_nat (octet 3 w) @ ''.'' @ show_nat (octet 2 w) @ ''.'' @ show_nat (octet 1 w) @ ''.'' @ show_nat (octet 0 w)"

lemma octet_less: "octet i w < 256"
  by (simp add: octet_def)

lemma octets: "octet 3 w * 256 ^ 3 + octet 2 w * 256 ^ 2 + octet 1 w * 256 + octet 0 w = unat w"
proof -
  have "unat w < 2 ^ LENGTH(32)" by (rule unsigned_less)
  then have "unat w < 4294967296" by simp
  define a b c where "a = unat w div 256" and "b = a div 256" and "c = b div 256"
  have b: "unat w div 65536 = b" using div_mult2_eq [of "unat w" 256 256] by (simp add: a_def b_def)
  have c: "unat w div 16777216 = c" using div_mult2_eq [of "unat w" 65536 256] b by (simp add: c_def)
  have "c < 256" using c \<open>unat w < 4294967296\<close> by linarith
  then have "octet 3 w = c" "octet 2 w = b mod 256" "octet 1 w = a mod 256" "octet 0 w = unat w mod 256"
    using b c by (simp_all add: octet_def a_def)
  moreover have "unat w = a * 256 + unat w mod 256" "a = b * 256 + a mod 256" "b = c * 256 + b mod 256"
    by (simp_all add: a_def b_def c_def)
  ultimately show ?thesis by simp
qed

lemma split_at_none: "d \<notin> set xs \<Longrightarrow> split_at d xs = [xs]"
  by (induction xs) auto

lemma split_at_cut: "d \<notin> set xs \<Longrightarrow> split_at d (xs @ d # ys) = xs # split_at d ys"
  by (induction xs) auto

lemma digit_of_char [simp]: "d < 10 \<Longrightarrow> is_digit (digit_char d)" "d < 10 \<Longrightarrow> digit_char d \<noteq> CHR ''.''"
proof -
  assume d: "d < 10"
  then show "is_digit (digit_char d)" by (simp add: is_digit_def of_char_digit)
  have "of_char (digit_char d) \<noteq> (of_char (CHR ''.'') :: nat)" using d by (simp add: of_char_digit)
  then show "digit_char d \<noteq> CHR ''.''" by metis
qed

lemma show_nat_digits: "list_all is_digit (show_nat n)" "CHR ''.'' \<notin> set (show_nat n)"
  using set_show_nat digit_of_char by (metis list_all_iff, metis)

lemma length_show_nat: "n < 1000 \<Longrightarrow> length (show_nat n) \<le> 3"
proof -
  assume n: "n < 1000"
  have two: "length (show_nat m) \<le> 2" if "m < 100" for m
    using that by (cases "m < 10") auto
  show ?thesis using n two [of "n div 10"] by (cases "n < 10") auto
qed

lemma split_dotted: "split_at CHR ''.'' (dotted w) =
    [show_nat (octet 3 w), show_nat (octet 2 w), show_nat (octet 1 w), show_nat (octet 0 w)]"
  by (simp add: dotted_def split_at_cut split_at_none show_nat_digits del: show_nat_big show_nat_small)

lemma dotted_valid: "isValidIpv4 (dotted w)"
proof -
  have "1 \<le> length (show_nat n) \<and> length (show_nat n) \<le> 3 \<and> list_all is_digit (show_nat n) \<and> read_nat (show_nat n) \<le> 255"
    if "n < 256" for n
    using that length_show_nat [of n] show_nat_digits(1) [of n] show_nat_nonempty [of n]
    by (simp add: read_show_nat Suc_le_eq del: show_nat_big show_nat_small show_nat_nonempty)
  then show ?thesis by (simp add: isValidIpv4_def split_dotted octet_less del: show_nat_big show_nat_small)
qed

lemma ipToNumber_dotted: "ipToNumber (dotted w) = unat w"
  using octets [of w] by (simp add: ipToNumber_def split_dotted read_show_nat del: show_nat_big show_nat_small)

text \<open>
  The check of a range of trusted addresses is the order of 32-bit numbers: written as four
  decimal octets, an address is in the range exactly when its number lies between the two ends.
\<close>

theorem isIpInRange_correct:
  "isIpInRange (dotted w) (dotted lo) (dotted hi) \<longleftrightarrow> lo \<le> w \<and> w \<le> hi"
  by (simp add: isIpInRange_def dotted_valid ipToNumber_dotted word_le_nat_alt)

subsection \<open>The sliding window\<close>

text \<open>A run of the storage: hits of keys, each with its random part, and time that passes.\<close>

datatype hit_op = Hit string string | Wait nat

fun admitted :: "throttle_env \<Rightarrow> (string \<Rightarrow> limit_spec) \<Rightarrow> string \<Rightarrow> hit_op list \<Rightarrow> throttle \<Rightarrow> time list" where
  "admitted E L k [] s = []"
| "admitted E L k (Wait n # ops) s = admitted E L k ops (s\<lparr>clock_ms := clock_ms s + int n\<rparr>)"
| "admitted E L k (Hit j rnd # ops) s =
     (case increment E j (ls_ttl (L j)) (ls_limit (L j)) (ls_block (L j)) rnd s of
        (Inl e, s1) \<Rightarrow> admitted E L k ops s1
      | (Inr a, s1) \<Rightarrow> (if j = k \<and> \<not> isBlocked a then [clock_ms s] else []) @ admitted E L k ops s1)"

text \<open>The random parts used for a key.\<close>

fun randoms :: "string \<Rightarrow> hit_op list \<Rightarrow> string list" where
  "randoms k [] = []"
| "randoms k (Wait n # ops) = randoms k ops"
| "randoms k (Hit j rnd # ops) = (if j = k then [rnd] else []) @ randoms k ops"

definition since :: "time \<Rightarrow> time list \<Rightarrow> nat" where
  "since t xs = length (filter (\<lambda>x. t < x) xs)"

lemma since_simps [simp]: "since t [] = 0" "since t (xs @ ys) = since t xs + since t ys"
  "since t (x # xs) = (if t < x then Suc (since t xs) else since t xs)"
  by (simp_all add: since_def)

lemma since_antimono: "t \<le> u \<Longrightarrow> since u xs \<le> since t xs"
  by (induction xs) auto

lemma since_zero: "(\<And>x. x \<in> set xs \<Longrightarrow> x \<le> t) \<Longrightarrow> since t xs = 0"
  by (fastforce simp: since_def filter_empty_conv)

text \<open>What the sorted set of a key knows of the hits admitted so far.\<close>

definition window_ok :: "string \<Rightarrow> time \<Rightarrow> string list \<Rightarrow> time list \<Rightarrow> throttle \<Rightarrow> bool" where
  "window_ok k ttl used adm s \<longleftrightarrow> 0 \<le> clock_ms s \<and> (\<forall>t \<in> set adm. t \<le> clock_ms s) \<and>
     (case windows s k of None \<Rightarrow> adm = []
      | Some (xs, e) \<Rightarrow> (\<forall>t \<in> set adm. t + ttl \<le> e) \<and>
          (\<forall>u \<ge> clock_ms s - ttl. since u adm \<le> since u (map fst xs)) \<and>
          (\<forall>x \<in> set xs. \<exists>t \<ge> 0. \<exists>r \<in> set used. snd x = show_int t @ ''-'' @ r))"

lemma window_ok_wait: "window_ok k ttl used adm s \<Longrightarrow> window_ok k ttl used adm (s\<lparr>clock_ms := clock_ms s + int n\<rparr>)"
  by (fastforce simp: window_ok_def split: option.splits)

lemma increment_frame:
  assumes "increment E j ttl limit block rnd s = (r, s1)"
  shows "clock_ms s1 = clock_ms s" and "j \<noteq> k \<Longrightarrow> windows s1 k = windows s k"
    and "j \<noteq> k \<Longrightarrow> blocks s1 k = blocks s k" and "blocked_ips s1 = blocked_ips s"
  using assms
  by (auto simp: increment_def slidingWindow_def fixedWindow_def set_block_def Let_def
      split: if_splits prod.splits option.splits)

lemma member_inj: "0 \<le> t \<Longrightarrow> 0 \<le> u \<Longrightarrow> show_int t @ ''-'' @ r = show_int u @ ''-'' @ q \<Longrightarrow> r = q"
proof -
  assume "0 \<le> t" "0 \<le> u" and eq: "show_int t @ ''-'' @ r = show_int u @ ''-'' @ q"
  then have "CHR ''-'' \<notin> set (show_int t)" "CHR ''-'' \<notin> set (show_int u)"
    by (simp_all add: show_int_def show_nat_no_minus)
  from first_cut [OF this] eq show "r = q" by simp
qed

text \<open>One hit of the key: what the script counts is at least what was admitted in the window.\<close>

lemma slidingWindow_step:
  assumes ok: "window_ok k ttl used adm s" and new: "rnd \<notin> set used" and ttl: "0 < ttl"
    and run: "slidingWindow k ttl rnd s = ((hits, ms), s1)"
  shows "Suc (since (clock_ms s - ttl) adm) \<le> hits" and "window_ok k ttl (rnd # used) adm s1"
    and "window_ok k ttl (rnd # used) (adm @ [clock_ms s]) s1" and "clock_ms s1 = clock_ms s" and "blocks s1 = blocks s"
proof -
  let ?t = "clock_ms s"
  define old where "old = (case alive (windows s) k ?t of None \<Rightarrow> [] | Some xs \<Rightarrow> xs)"
  define kept where "kept = filter (\<lambda>x. \<not> fst x \<le> ?t - ttl) old"
  have t0: "0 \<le> ?t" using ok by (simp add: window_ok_def)
  have old_used: "\<exists>t \<ge> 0. \<exists>r \<in> set used. snd x = show_int t @ ''-'' @ r" if "x \<in> set old" for x
    using ok that by (auto simp: old_def window_ok_def alive_def split: option.splits prod.splits if_splits)
  have "snd x \<noteq> show_int ?t @ ''-'' @ rnd" if "x \<in> set kept" for x
    using old_used [of x] that new member_inj [OF _ t0] by (fastforce simp: kept_def)
  then have xs: "filter (\<lambda>x. snd x \<noteq> show_int ?t @ ''-'' @ rnd) kept = kept" by (auto simp: filter_id_conv)
  then have res: "hits = Suc (length kept)"
      "s1 = s\<lparr>windows := (windows s)(k \<mapsto> ((?t, show_int ?t @ ''-'' @ rnd) # kept, ?t + ttl))\<rparr>"
    using run by (auto simp: slidingWindow_def Let_def old_def kept_def)
  have count: "since u adm \<le> since u (map fst kept)" if u: "?t - ttl \<le> u" for u
  proof -
    have "since u (map fst kept) = since u (map fst old)"
      using u unfolding kept_def since_def by (induction old) auto
    moreover have "since u adm \<le> since u (map fst old)"
    proof (cases "windows s k")
      case None
      then show ?thesis using ok by (simp add: window_ok_def)
    next
      case (Some w)
      obtain xs e where w: "w = (xs, e)" by (cases w)
      show ?thesis
      proof (cases "e \<le> ?t")
        case True
        then have "since u adm = 0" using ok Some w u by (intro since_zero) (force simp: window_ok_def)
        then show ?thesis by simp
      next
        case False
        then show ?thesis using ok Some w u by (simp add: window_ok_def old_def alive_def)
      qed
    qed
    ultimately show ?thesis by simp
  qed
  have "since (?t - ttl) (map fst kept) = length kept" by (simp add: since_def kept_def filter_map comp_def not_le)
  with count [of "?t - ttl"] show "Suc (since (?t - ttl) adm) \<le> hits" by (simp add: res(1))
  have members: "\<exists>t \<ge> 0. \<exists>r \<in> set (rnd # used). snd x = show_int t @ ''-'' @ r"
    if "x \<in> set ((?t, show_int ?t @ ''-'' @ rnd) # kept)" for x
    using that old_used [of x] t0 by (auto simp: kept_def)
  have "since u adm \<le> since u (map fst ((?t, show_int ?t @ ''-'' @ rnd) # kept))" 
    "since u (adm @ [?t]) \<le> since u (map fst ((?t, show_int ?t @ ''-'' @ rnd) # kept))" if "?t - ttl \<le> u" for u
    using count [OF that] by simp_all
  with members ok show "window_ok k ttl (rnd # used) adm s1" "window_ok k ttl (rnd # used) (adm @ [?t]) s1"
    unfolding res window_ok_def by auto
  show "clock_ms s1 = ?t" "blocks s1 = blocks s" by (simp_all add: res)
qed

definition in_window :: "time \<Rightarrow> time \<Rightarrow> time list \<Rightarrow> nat" where
  "in_window ttl t xs = length (filter (\<lambda>x. t - ttl < x \<and> x \<le> t) xs)"

lemma in_window_append [simp]: "in_window ttl t (xs @ ys) = in_window ttl t xs + in_window ttl t ys"
  by (simp add: in_window_def)

lemma in_window_since: "in_window ttl t xs \<le> since (t - ttl) xs"
  unfolding in_window_def since_def by (induction xs) auto

lemma in_window_hit:
  assumes "\<And>x. x \<in> set xs \<Longrightarrow> x \<le> t" "Suc (since (t - ttl) xs) \<le> limit" "in_window ttl u xs \<le> limit"
  shows "in_window ttl u (xs @ [t]) \<le> limit"
proof (cases "u - ttl < t \<and> t \<le> u")
  case True
  have "in_window ttl u xs \<le> since (t - ttl) xs"
    using in_window_since [of ttl u xs] since_antimono [of "t - ttl" "u - ttl" xs] True by linarith
  with assms(2) True show ?thesis by (simp add: in_window_def)
next
  case False
  with assms(3) show ?thesis by (auto simp: in_window_def)
qed

lemma admitted_bound:
  assumes "redis_up E" "\<not> fixed_window E" "0 < ls_ttl (L k)"
    and "window_ok k (ls_ttl (L k)) used adm s" "distinct (randoms k ops @ used)"
    and "\<And>t. in_window (ls_ttl (L k)) t adm \<le> ls_limit (L k)"
  shows "in_window (ls_ttl (L k)) t (adm @ admitted E L k ops s) \<le> ls_limit (L k)"
  using assms(4-6)
proof (induction ops arbitrary: used adm s)
  case (Cons op ops)
  show ?case
  proof (cases op)
    case (Wait n)
    then show ?thesis using Cons.IH [OF window_ok_wait [OF Cons.prems(1)]] Cons.prems by simp
  next
    case (Hit j rnd)
    obtain r s1 where run: "increment E j (ls_ttl (L j)) (ls_limit (L j)) (ls_block (L j)) rnd s = (r, s1)" by fastforce
    note frame = increment_frame [OF run]
    show ?thesis
    proof (cases "j = k")
      case False
      have "window_ok k (ls_ttl (L k)) used adm s1"
        using Cons.prems(1) unfolding window_ok_def frame(1) frame(2) [OF False] .
      then show ?thesis using Cons.IH [of used adm s1] Cons.prems Hit run False
        by (cases r) auto
    next
      case True
      show ?thesis
      proof (cases "blocks s k = None \<or> the (blocks s k) \<le> clock_ms s")
        case False
        then obtain a where "r = Inr a" "isBlocked a" "s1 = s"
          using run True assms(1) by (auto simp: increment_def Let_def split: option.splits)
        then show ?thesis using Cons.IH [of used adm s] Cons.prems Hit run True by auto
      next
        case unblocked: True
        obtain hits ms s2 where sw: "slidingWindow k (ls_ttl (L k)) rnd s = ((hits, ms), s2)"
          by (metis prod.collapse)
        have new: "rnd \<notin> set used" using Cons.prems(2) Hit True by auto
        note step = slidingWindow_step [OF Cons.prems(1) new assms(3) sw]
        obtain a where a: "r = Inr a" "isBlocked a \<longleftrightarrow> ls_limit (L k) < hits" "windows s1 = windows s2" "clock_ms s1 = clock_ms s2"
          using run sw True assms(1,2) unblocked
          by (auto simp: increment_def Let_def set_block_def split: option.splits prod.splits if_splits)
        have keep: "window_ok k (ls_ttl (L k)) (rnd # used) adm s1" "window_ok k (ls_ttl (L k)) (rnd # used) (adm @ [clock_ms s]) s1"
          using step(2,3) unfolding window_ok_def a(3,4) by - (assumption+)
        have dist: "distinct (randoms k ops @ rnd # used)" using Cons.prems(2) Hit True by auto
        show ?thesis
        proof (cases "isBlocked a")
          case True
          then show ?thesis using Cons.IH [OF keep(1) dist Cons.prems(3)] Hit run \<open>j = k\<close> a(1) by simp
        next
          case False
          have past: "x \<le> clock_ms s" if "x \<in> set adm" for x using that Cons.prems(1) by (auto simp: window_ok_def)
          have less: "Suc (since (clock_ms s - ls_ttl (L k)) adm) \<le> ls_limit (L k)" using step(1) False a(2) by simp
          have "in_window (ls_ttl (L k)) u (adm @ [clock_ms s]) \<le> ls_limit (L k)" for u
            by (rule in_window_hit [OF past less Cons.prems(3)])
          from Cons.IH [OF keep(2) dist this] show ?thesis using Hit run \<open>j = k\<close> a(1) False by simp
        qed
      qed
    qed
  qed
qed simp

text \<open>
  C17: The sliding window keeps its promise: however the hits of all keys are spread over time, the
  hits of one key that are admitted within any interval of the length of the window are at most the
  limit. The random parts of the members must differ, since equal members count once.
\<close>

theorem sliding_window_limit:
  assumes "redis_up E" "\<not> fixed_window E" "0 < ls_ttl (L k)" "windows s k = None" "0 \<le> clock_ms s"
    and "distinct (randoms k ops)"
  shows "length (filter (\<lambda>x. t - ls_ttl (L k) < x \<and> x \<le> t) (admitted E L k ops s)) \<le> ls_limit (L k)"
  using admitted_bound [of E L k "[]" "[]" s ops t] assms by (simp add: window_ok_def in_window_def)

subsection \<open>The guard\<close>

text \<open>
  When Redis cannot be reached every request is refused and nothing is counted, except on the
  routes that are exempt from limits: the guard fails closed.
\<close>

lemma guard_fails_closed:
  "\<not> redis_up E \<Longrightarrow> canActivate E rt tracker ths r s = (if rt_skip rt then (Inr True, s) else (Inl unavailable, s))"
  by (simp add: canActivate_def Let_def)

text \<open>
  The fifth violation within an hour blocks the address: the request itself is refused, and for
  the next hour so is every request that shows the same address, on every route that is not exempt,
  whatever its limits. Since the address is what the header of the request says, a client gets any
  other client blocked.
\<close>

theorem fifth_violation_blocks:
  assumes "redis_up E" "\<not> rt_skip rt" "isIpBlocked (extractIp r) s = None"
    and "\<not> (rt_bypass rt \<and> isTrustedIp E (extractIp r) s)"
    and limits: "apply_limits E tracker ths r s = (Inl (TooManyRequestsException m), s1)"
    and four: "alive (violations s1) (extractIp r) (clock_ms s1) = Some n" "4 \<le> n"
    and later: "extractIp r' = extractIp r" "0 \<le> d" "d < 3600 * 1000" "\<not> rt_skip rt'"
  shows "\<exists>s2. canActivate E rt tracker ths r s =
      (Inl (ForbiddenException ''Too many rate limit violations. Your IP has been temporarily blocked.''), s2) \<and>
    canActivate E rt' tracker' ths' r' (s2\<lparr>clock_ms := clock_ms s2 + d\<rparr>) =
      (Inl (ForbiddenException ''Access denied: Exceeded 5 violations in 3600s''), s2\<lparr>clock_ms := clock_ms s2 + d\<rparr>)"
proof -
  obtain e where e: "violations s1 (extractIp r) = Some (n, e)" "\<not> e \<le> clock_ms s1"
    using four(1) by (auto simp: alive_def split: option.splits if_splits)
  let ?s1 = "s1\<lparr>violations := (violations s1)(extractIp r \<mapsto> (n + 1, e))\<rparr>"
  let ?s2 = "blockIp (extractIp r) 3600 (Some ''Exceeded 5 violations in 3600s'') ?s1"
  have inc: "incrementViolations (extractIp r) s1 = ((n + 1, True), ?s2)"
    using e four(2) by (simp add: incrementViolations_def violation_threshold_def)
  have "canActivate E rt tracker ths r s =
      (Inl (ForbiddenException ''Too many rate limit violations. Your IP has been temporarily blocked.''), ?s2)"
    using assms(1-4) limits inc by (auto simp: canActivate_def Let_def)
  moreover have "isIpBlocked (extractIp r) (?s2\<lparr>clock_ms := clock_ms ?s2 + d\<rparr>) = Some ''Exceeded 5 violations in 3600s''"
    using later by (simp add: isIpBlocked_def blockIp_def alive_def)
  ultimately show ?thesis using assms(1) later
    by (intro exI [of _ ?s2] conjI) (simp_all add: canActivate_def Let_def)
qed

subsection \<open>Ways around\<close>

text \<open>A client that calls itself a crawler is not even counted.\<close>

lemma crawler_not_counted: "ignored_agent E r \<Longrightarrow> apply_limits E tracker ths r s = (Inr True, s)"
  by (induction ths) (auto simp: handleRequest_def)

definition spoof :: "request \<Rightarrow> string \<Rightarrow> request" where
  "spoof r ip = r\<lparr>rq_forwarded := Some ip\<rparr>"

text \<open>A header value that stands for itself, like an IPv4 address.\<close>

definition plain :: "string \<Rightarrow> bool" where
  "plain ip \<longleftrightarrow> ip \<noteq> [] \<and> CHR '','' \<notin> set ip \<and> CHR '':'' \<notin> set ip \<and> trim ip = ip"

lemma extractIp_spoof: "plain ip \<Longrightarrow> extractIp (spoof r ip) = ip"
  by (simp add: plain_def extractIp_def spoof_def split_at_none)

lemma tracker_spoof_inj:
  assumes "plain a" "plain b" "\<not> truthy (rq_user r)" "getTracker (spoof r a) = getTracker (spoof r b)"
  shows "a = b"
proof -
  have shape: "\<exists>z. getTracker (spoof r x) = ''ip:'' @ x @ CHR '':'' # z" if "plain x" for x
  proof -
    have "\<not> truthy (rq_user (spoof r x))" using assms(3) by (simp add: spoof_def)
    then show ?thesis by (simp add: getTracker_def Let_def extractIp_spoof that)
  qed
  obtain y z where "getTracker (spoof r a) = ''ip:'' @ a @ CHR '':'' # y" "getTracker (spoof r b) = ''ip:'' @ b @ CHR '':'' # z"
    using shape [OF assms(1)] shape [OF assms(2)] by blast
  then have "a @ CHR '':'' # y = b @ CHR '':'' # z" using assms(4) by simp
  with first_cut [of "CHR '':''" a b] assms(1,2) show ?thesis by (simp add: plain_def)
qed

lemma increment_fresh:
  assumes "redis_up E" "blocks s = Map.empty" "windows s k = None" "counters s k = None" "1 \<le> limit"
  shows "\<exists>a s1. increment E k ttl limit block rnd s = (Inr a, s1) \<and> \<not> isBlocked a \<and> blocks s1 = Map.empty \<and>
    blocked_ips s1 = blocked_ips s \<and> (\<forall>j. j \<noteq> k \<longrightarrow> windows s1 j = windows s j \<and> counters s1 j = counters s j)"
  using assms by (auto simp: increment_def slidingWindow_def fixedWindow_def alive_def Let_def)

definition unseen :: "throttle_env \<Rightarrow> string \<Rightarrow> throttle \<Rightarrow> bool" where
  "unseen E t s \<longleftrightarrow> (\<forall>n. windows s (key_of E t n) = None \<and> counters s (key_of E t n) = None)"

definition injective_keys :: "throttle_env \<Rightarrow> bool" where
  "injective_keys E \<longleftrightarrow> (\<forall>t n t' n'. key_of E t n = key_of E t' n' \<longrightarrow> t = t' \<and> n = n')"

lemma apply_limits_fresh:
  assumes "redis_up E" "injective_keys E" "\<not> truthy (rq_apiKey r)"
    and "blocks s = Map.empty" "distinct (map (ls_name \<circ> fst) ths)" "\<And>th. th \<in> set ths \<Longrightarrow> 1 \<le> ls_limit (fst th)"
    and "\<And>n. n \<in> set (map (ls_name \<circ> fst) ths) \<Longrightarrow>
      windows s (key_of E (tracker r) n) = None \<and> counters s (key_of E (tracker r) n) = None"
  shows "\<exists>s1. apply_limits E tracker ths r s = (Inr True, s1) \<and> blocks s1 = Map.empty \<and> blocked_ips s1 = blocked_ips s \<and>
    (\<forall>t. t \<noteq> tracker r \<longrightarrow> unseen E t s \<longrightarrow> unseen E t s1)"
  using assms(4-7)
proof (induction ths arbitrary: s)
  case (Cons x ths)
  obtain th rnd where x: "x = (th, rnd)" by (cases x)
  have inj: "key_of E t n = key_of E t' n' \<longleftrightarrow> t = t' \<and> n = n'" for t n t' n' using assms(2) unfolding injective_keys_def by blast
  have "\<exists>s1. handleRequest E th tracker rnd r s = (Inr True, s1) \<and> blocks s1 = Map.empty \<and> blocked_ips s1 = blocked_ips s \<and>
      (\<forall>j. j \<noteq> key_of E (tracker r) (ls_name th) \<longrightarrow> windows s1 j = windows s j \<and> counters s1 j = counters s j)"
  proof (cases "ignored_agent E r")
    case True
    then show ?thesis using Cons.prems(1) by (simp add: handleRequest_def)
  next
    case False
    let ?k = "key_of E (tracker r) (ls_name th)"
    have "windows s ?k = None" "counters s ?k = None" using Cons.prems(4) [of "ls_name th"] x by simp_all
    moreover have "1 \<le> ls_limit th" using Cons.prems(3) [of x] x by simp
    ultimately obtain a s1 where "increment E ?k (ls_ttl th) (ls_limit th) (ls_block th) (fst rnd) s = (Inr a, s1)"
      "\<not> isBlocked a" "blocks s1 = Map.empty" "blocked_ips s1 = blocked_ips s"
      "\<forall>j. j \<noteq> ?k \<longrightarrow> windows s1 j = windows s j \<and> counters s1 j = counters s j"
      using increment_fresh [OF assms(1) Cons.prems(1)] by blast
    with False assms(3) show ?thesis by (simp add: handleRequest_def)
  qed
  then obtain s1 where s1: "handleRequest E th tracker rnd r s = (Inr True, s1)" "blocks s1 = Map.empty" "blocked_ips s1 = blocked_ips s"
    and other: "\<And>j. j \<noteq> key_of E (tracker r) (ls_name th) \<Longrightarrow> windows s1 j = windows s j \<and> counters s1 j = counters s j" by blast
  have "\<exists>s2. apply_limits E tracker ths r s1 = (Inr True, s2) \<and> blocks s2 = Map.empty \<and> blocked_ips s2 = blocked_ips s1 \<and>
    (\<forall>t. t \<noteq> tracker r \<longrightarrow> unseen E t s1 \<longrightarrow> unseen E t s2)"
  proof (rule Cons.IH)
    fix n assume n: "n \<in> set (map (ls_name \<circ> fst) ths)"
    moreover have "ls_name th \<notin> set (map (ls_name \<circ> fst) ths)" using Cons.prems(2) x by simp
    ultimately have "n \<noteq> ls_name th" by blast
    then show "windows s1 (key_of E (tracker r) n) = None \<and> counters s1 (key_of E (tracker r) n) = None"
      using other Cons.prems(4) [of n] n by (simp add: inj)
  qed (use Cons.prems s1(2) in auto)
  moreover have "unseen E t s1" if "t \<noteq> tracker r" "unseen E t s" for t
    using that other by (simp add: unseen_def inj)
  ultimately show ?case using s1 x by auto
qed simp

text \<open>The answers to a sequence of requests, each with the limits and random parts that apply to it.\<close>

fun serve :: "throttle_env \<Rightarrow> route \<Rightarrow> (request \<Rightarrow> string) \<Rightarrow> (request \<times> (limit_spec \<times> string \<times> string) list) list
    \<Rightarrow> throttle \<Rightarrow> bool outcome list" where
  "serve E rt tracker [] s = []"
| "serve E rt tracker ((r, ths) # qs) s =
     (let (x, s1) = canActivate E rt tracker ths r s in x # serve E rt tracker qs s1)"

lemma serve_spoofed:
  assumes "redis_up E" "injective_keys E" "\<not> truthy (rq_user r)" "\<not> truthy (rq_apiKey r)"
    and limits: "\<And>ths. ths \<in> set plans \<Longrightarrow> distinct (map (ls_name \<circ> fst) ths) \<and> (\<forall>th \<in> set ths. 1 \<le> ls_limit (fst th))"
    and "length plans = length ips" "distinct ips" "\<And>ip. ip \<in> set ips \<Longrightarrow> plain ip"
    and "blocks s = Map.empty" "blocked_ips s = Map.empty"
    and "\<And>ip. ip \<in> set ips \<Longrightarrow> unseen E (getTracker (spoof r ip)) s"
  shows "serve E rt getTracker (zip (map (spoof r) ips) plans) s = replicate (length ips) (Inr True)"
  using assms(5-)
proof (induction ips arbitrary: plans s)
  case (Cons ip ips)
  then obtain ths ps where plans: "plans = ths # ps" by (cases plans) auto
  let ?r = "spoof r ip"
  have key: "\<not> truthy (rq_apiKey ?r)" using assms(4) by (simp add: spoof_def)
  obtain s1 where s1: "apply_limits E getTracker ths ?r s = (Inr True, s1)" "blocks s1 = Map.empty" "blocked_ips s1 = blocked_ips s"
      "\<And>t. t \<noteq> getTracker ?r \<Longrightarrow> unseen E t s \<Longrightarrow> unseen E t s1"
    using apply_limits_fresh [OF assms(1,2) key Cons.prems(5), of ths getTracker] Cons.prems(1,7) plans
    by (auto simp: unseen_def)
  have free: "isIpBlocked (extractIp ?r) s = None" using Cons.prems(6) by (simp add: isIpBlocked_def alive_def)
  obtain s2 where s2: "canActivate E rt getTracker ths ?r s = (Inr True, s2)" "s2 = s \<or> s2 = s1"
    using assms(1) free s1(1) by (cases "rt_skip rt \<or> rt_bypass rt \<and> isTrustedIp E (extractIp ?r) s")
      (auto simp: canActivate_def Let_def)
  have "unseen E (getTracker (spoof r j)) s2" if "j \<in> set ips" for j
  proof -
    have "getTracker (spoof r j) \<noteq> getTracker ?r"
      using tracker_spoof_inj [of j ip r] Cons.prems(3,4) that assms(3) by auto
    then show ?thesis using s1(4) s2(2) Cons.prems(7) [of j] that by auto
  qed
  then have "serve E rt getTracker (zip (map (spoof r) ips) ps) s2 = replicate (length ips) (Inr True)"
    using Cons.prems plans s1 s2(2) by (intro Cons.IH) auto
  then show ?case using s2(1) plans by simp
qed simp

text \<open>
  A client that writes its own \<open>X-Forwarded-For\<close> is never limited. Any number of requests at the
  same moment, each with another value of the header, all pass, whatever the limits: the bucket is
  chosen by the header, and so is the address that could be blocked.
\<close>

theorem spoofed_header_never_limited:
  assumes "redis_up E" "injective_keys E" "\<not> truthy (rq_user r)" "\<not> truthy (rq_apiKey r)"
    and "\<forall>ths \<in> set plans. distinct (map (ls_name \<circ> fst) ths) \<and> (\<forall>th \<in> set ths. 1 \<le> ls_limit (fst th))"
    and "length plans = length ips" "distinct ips" "\<forall>ip \<in> set ips. plain ip"
    and "blocks s = Map.empty" "blocked_ips s = Map.empty" "windows s = Map.empty" "counters s = Map.empty"
  shows "serve E rt getTracker (zip (map (spoof r) ips) plans) s = replicate (length ips) (Inr True)"
  using assms by (intro serve_spoofed) (auto simp: unseen_def)

subsection \<open>Concrete runs\<close>

text \<open>A key that holds the length of its first part.\<close>

definition demo_key :: "string \<Rightarrow> string \<Rightarrow> string" where
  "demo_key t n = show_nat (length t) @ ''-'' @ t @ n"

definition demo_limits :: throttle_env where
  "demo_limits = \<lparr>redis_up = True, fixed_window = False, trustedIpRanges = [(''10.0.0.0'', ''10.255.255.255'')],
     ignoreUserAgents = [''googlebot''], api_limit = 100, api_ttl = 60000, key_of = demo_key, sha256_hex = id\<rparr>"

definition demo_counts :: throttle where
  "demo_counts = \<lparr>windows = Map.empty, counters = Map.empty, blocks = Map.empty, violations = Map.empty,
     blocked_ips = Map.empty, trustedIps = [], trusted_redis = Map.empty, clock_ms = 0\<rparr>"

definition demo_spec :: "nat \<Rightarrow> limit_spec" where
  "demo_spec n = \<lparr>ls_name = ''default'', ls_limit = n, ls_ttl = 1000, ls_block = 1000\<rparr>"

definition demo_request :: request where
  "demo_request = \<lparr>rq_forwarded = None, rq_realIp = None, rq_cfIp = None, rq_address = Some ''9.9.9.9'', rq_userAgent = None,
     rq_apiKey = None, rq_user = None, rq_apiKeyUser = False, rq_wallet = None\<rparr>"

lemma demo_key_injective: "injective_keys demo_limits"
  unfolding injective_keys_def
proof (intro allI impI)
  fix t n t' n' assume "key_of demo_limits t n = key_of demo_limits t' n'"
  then have "show_nat (length t) @ CHR ''-'' # t @ n = show_nat (length t') @ CHR ''-'' # t' @ n'"
    by (simp add: demo_limits_def demo_key_def)
  from first_cut [OF show_nat_no_minus show_nat_no_minus this] show "t = t' \<and> n = n'"
    by (auto simp: show_nat_inj append_eq_append_conv)
qed

theorem sliding_window_limit_witness:
  "length (filter (\<lambda>x. 700 - 1000 < x \<and> x \<le> 700) (admitted demo_limits (\<lambda>_. demo_spec 2) ''k''
     [Hit ''k'' ''a'', Hit ''j'' ''a'', Hit ''k'' ''b'', Hit ''k'' ''c'', Wait 700, Hit ''k'' ''d''] demo_counts)) \<le> 2"
  using sliding_window_limit [of demo_limits "\<lambda>_. demo_spec 2" "''k''" demo_counts
      "[Hit ''k'' ''a'', Hit ''j'' ''a'', Hit ''k'' ''b'', Hit ''k'' ''c'', Wait 700, Hit ''k'' ''d'']" 700]
  by (simp add: demo_limits_def demo_spec_def demo_counts_def)

text \<open>The first two hits of the run above are the ones admitted.\<close>

lemma sliding_window_run:
  "admitted demo_limits (\<lambda>_. demo_spec 2) ''k'' [Hit ''k'' ''a'', Hit ''k'' ''b'', Hit ''k'' ''c''] demo_counts = [0, 0]"
  by (simp add: increment_def slidingWindow_def demo_limits_def demo_spec_def demo_counts_def alive_def Let_def set_block_def)

definition demo_violator :: throttle where
  "demo_violator = demo_counts\<lparr>violations := [''9.9.9.9'' \<mapsto> (4, 3600000)]\<rparr>"

theorem fifth_violation_blocks_witness:
  "\<exists>s2. canActivate demo_limits \<lparr>rt_skip = False, rt_bypass = False, rt_message = None\<rparr> getTracker
        [(demo_spec 0, ''r'', ''q'')] demo_request demo_violator =
      (Inl (ForbiddenException ''Too many rate limit violations. Your IP has been temporarily blocked.''), s2) \<and>
    canActivate demo_limits \<lparr>rt_skip = False, rt_bypass = True, rt_message = None\<rparr> getTracker [] demo_request
        (s2\<lparr>clock_ms := clock_ms s2 + 1000\<rparr>) =
      (Inl (ForbiddenException ''Access denied: Exceeded 5 violations in 3600s''), s2\<lparr>clock_ms := clock_ms s2 + 1000\<rparr>)"
proof -
  have ip: "extractIp demo_request = ''9.9.9.9''" by (simp add: extractIp_def demo_request_def)
  obtain s1 where run: "apply_limits demo_limits getTracker [(demo_spec 0, ''r'', ''q'')] demo_request demo_violator =
      (Inl (TooManyRequestsException ''ThrottlerException''), s1)"
    and v: "violations s1 = [''9.9.9.9'' \<mapsto> (4, 3600000)]" "clock_ms s1 = 0"
    by (simp add: handleRequest_def ignored_agent_def demo_request_def demo_limits_def to_lower_def increment_def
        slidingWindow_def alive_def set_block_def demo_spec_def demo_violator_def demo_counts_def Let_def)
  show ?thesis
    using fifth_violation_blocks [OF _ _ _ _ run, where n = 4 and d = 1000 and r' = demo_request and
        rt = "\<lparr>rt_skip = False, rt_bypass = False, rt_message = None\<rparr>" and
        rt' = "\<lparr>rt_skip = False, rt_bypass = True, rt_message = None\<rparr>" and tracker' = getTracker and ths' = "[]"]
    by (simp add: ip v alive_def isIpBlocked_def) (simp add: demo_limits_def demo_violator_def demo_counts_def)
qed

theorem spoofed_header_never_limited_witness:
  "serve demo_limits \<lparr>rt_skip = False, rt_bypass = False, rt_message = None\<rparr> getTracker
     (zip (map (spoof demo_request) [''1.1.1.1'', ''2.2.2.2'', ''3.3.3.3''])
       [[(demo_spec 1, ''a'', ''b'')], [(demo_spec 1, ''c'', ''d'')], [(demo_spec 1, ''e'', ''f'')]]) demo_counts
   = [Inr True, Inr True, Inr True]"
proof -
  have "plain ''1.1.1.1''" "plain ''2.2.2.2''" "plain ''3.3.3.3''" by (simp_all add: plain_def trim_def is_space_def)
  then show ?thesis
    using spoofed_header_never_limited [OF _ demo_key_injective, of demo_request
        "[[(demo_spec 1, ''a'', ''b'')], [(demo_spec 1, ''c'', ''d'')], [(demo_spec 1, ''e'', ''f'')]]"
        "[''1.1.1.1'', ''2.2.2.2'', ''3.3.3.3'']" demo_counts "\<lparr>rt_skip = False, rt_bypass = False, rt_message = None\<rparr>"]
    by (simp add: demo_limits_def demo_counts_def demo_request_def demo_spec_def numeral_3_eq_3)
qed

end
