(* ===== verification/Encryption.thy ===== *)
theory Encryption
  imports Fx Base64 "HOL-Library.AList"
begin

text \<open>
  Encrypted columns (\<open>common/encryption/field-encryption.transformer.ts\<close>): the key registry built
  from the environment, \<open>encrypt\<close>, \<open>decrypt\<close> and the TypeORM transformer. A string is the list of its
  bytes (the UTF-8 of a text). AES-256-GCM, HMAC-SHA-256 and \<open>JSON.parse\<close> belong to Node.js and are
  arguments: what the code relies on of the cipher is \<open>gcm_laws\<close>. A random IV is an argument of the
  call. Version numbers are exact below \<open>10 ^ 21\<close>, where JavaScript starts to print exponents.
\<close>

subsection \<open>The key registry\<close>

datatype registry_mode = Legacy | Versioned

record key_registry =
  reg_mode :: registry_mode
  reg_keys :: "(nat \<times> string) list"
  activeVersion :: nat
  legacyCurrent :: string
  legacyPrevious :: "string option"

record registry_env =
  keysJson :: "string option"
  activeVersionEnv :: "string option"
  currentEnv :: "string option"
  previousEnv :: "string option"
  currentVersionEnv :: "string option"
  previousVersionEnv :: "string option"

text \<open>\<open>Buffer.from(raw, 'hex')\<close>: the bytes up to the first pair that is not hexadecimal.\<close>

definition hex_value :: "char \<Rightarrow> nat option" where
  "hex_value ch = (let k = of_char ch :: nat in
     if 48 \<le> k \<and> k \<le> 57 then Some (k - 48)
     else if 97 \<le> k \<and> k \<le> 102 then Some (k - 87)
     else if 65 \<le> k \<and> k \<le> 70 then Some (k - 55) else None)"

fun hex_decode :: "string \<Rightarrow> string" where
  "hex_decode (x # y # r) =
     (case (hex_value x, hex_value y) of (Some a, Some b) \<Rightarrow> char_of (16 * a + b) # hex_decode r | _ \<Rightarrow> [])"
| "hex_decode _ = []"

definition parseHexKey :: "string \<Rightarrow> string \<Rightarrow> string outcome" where
  "parseHexKey raw label =
     (if length (hex_decode raw) \<noteq> 32 then Inl (JsError (label @ '' must be 32 bytes (64 hex chars)''))
      else Inr (hex_decode raw))"

text \<open>\<open>Number.isInteger\<close> of a decimal and its value.\<close>

definition js_integer :: "js_number \<Rightarrow> int option" where
  "js_integer x = (case x of NaN \<Rightarrow> None
     | Dec m e \<Rightarrow> if 0 \<le> e then Some (m * 10 ^ nat e)
                 else if m mod 10 ^ nat (- e) = 0 then Some (m div 10 ^ nat (- e)) else None)"

definition parseVersion :: "string \<Rightarrow> string \<Rightarrow> nat outcome" where
  "parseVersion raw label = (case js_integer (js_Number raw) of
     None \<Rightarrow> Inl (JsError (label @ '' must be a non-negative integer''))
   | Some n \<Rightarrow> if n < 0 then Inl (JsError (label @ '' must be a non-negative integer'')) else Inr (nat n))"

definition quoted :: "string \<Rightarrow> string" where
  "quoted s = CHR 0x22 # s @ [CHR 0x22]"

fun ring_keys :: "(string \<times> string) list \<Rightarrow> (nat \<times> string) list \<Rightarrow> (nat \<times> string) list outcome" where
  "ring_keys [] keys = Inr keys"
| "ring_keys ((rawVersion, hex) # es) keys =
     (case parseVersion rawVersion (''DB_FIELD_ENCRYPTION_KEYS key '' @ quoted rawVersion) of
        Inl e \<Rightarrow> Inl e
      | Inr v \<Rightarrow> (case parseHexKey hex (''DB_FIELD_ENCRYPTION_KEYS['' @ quoted rawVersion @ '']'') of
          Inl e \<Rightarrow> Inl e
        | Inr k \<Rightarrow> ring_keys es (AList.update v k keys)))"

definition versioned_registry :: "(nat \<times> string) list \<Rightarrow> nat \<Rightarrow> key_registry" where
  "versioned_registry keys v =
     \<lparr>reg_mode = Versioned, reg_keys = keys, activeVersion = v, legacyCurrent = the (map_of keys v), legacyPrevious = None\<rparr>"

text \<open>The three ways to configure the keys: the ring, the pair of variables with a version, the single key.\<close>

definition ring_registry :: "(string \<Rightarrow> (string \<times> string) list option) \<Rightarrow> registry_env \<Rightarrow> key_registry outcome" where
  "ring_registry parse_json env =
     (case parse_json (the (keysJson env)) of
        None \<Rightarrow> Inl (JsError (''DB_FIELD_ENCRYPTION_KEYS must be valid JSON: {'' @ quoted ''<version>'' @ '':'' @ quoted ''<64 hex chars>'' @ ''}''))
      | Some entries \<Rightarrow> (case ring_keys entries [] of
          Inl e \<Rightarrow> Inl e
        | Inr keys \<Rightarrow>
            if keys = [] then Inl (JsError ''DB_FIELD_ENCRYPTION_KEYS must contain at least one key'')
            else (case (if truthy (activeVersionEnv env)
                        then parseVersion (the (activeVersionEnv env)) ''DB_FIELD_ENCRYPTION_ACTIVE_KEY_VERSION''
                        else Inr (Max (set (map fst keys)))) of
                    Inl e \<Rightarrow> Inl e
                  | Inr v \<Rightarrow>
                      if map_of keys v = None
                      then Inl (JsError (''DB_FIELD_ENCRYPTION_ACTIVE_KEY_VERSION '' @ show_nat v @ '' is not present in DB_FIELD_ENCRYPTION_KEYS''))
                      else Inr (versioned_registry keys v))))"

definition previous_version :: "registry_env \<Rightarrow> nat \<Rightarrow> int outcome" where
  "previous_version env active =
     (if truthy (previousVersionEnv env)
      then (case parseVersion (the (previousVersionEnv env)) ''DB_FIELD_ENCRYPTION_KEY_PREVIOUS_VERSION'' of
              Inl e \<Rightarrow> Inl e | Inr v \<Rightarrow> Inr (int v))
      else Inr (int active - 1))"

definition pair_registry :: "registry_env \<Rightarrow> key_registry outcome" where
  "pair_registry env =
     (if \<not> truthy (currentEnv env) then Inl (JsError ''Missing env var: DB_FIELD_ENCRYPTION_KEY'')
      else case parseVersion (the (currentVersionEnv env)) ''DB_FIELD_ENCRYPTION_KEY_VERSION'' of
        Inl e \<Rightarrow> Inl e
      | Inr active \<Rightarrow> (case parseHexKey (the (currentEnv env)) ''DB_FIELD_ENCRYPTION_KEY'' of
          Inl e \<Rightarrow> Inl e
        | Inr k \<Rightarrow>
            if \<not> truthy (previousEnv env) then Inr (versioned_registry [(active, k)] active)
            else (case previous_version env active of
                    Inl e \<Rightarrow> Inl e
                  | Inr pv \<Rightarrow>
                      if pv < 0 then Inl (JsError ''DB_FIELD_ENCRYPTION_KEY_PREVIOUS_VERSION must be a non-negative integer'')
                      else if pv = int active
                      then Inl (JsError ''DB_FIELD_ENCRYPTION_KEY_PREVIOUS_VERSION must differ from DB_FIELD_ENCRYPTION_KEY_VERSION'')
                      else (case parseHexKey (the (previousEnv env)) ''DB_FIELD_ENCRYPTION_KEY_PREVIOUS'' of
                              Inl e \<Rightarrow> Inl e
                            | Inr k' \<Rightarrow> Inr (versioned_registry [(active, k), (nat pv, k')] active)))))"

definition legacy_registry :: "registry_env \<Rightarrow> key_registry outcome" where
  "legacy_registry env =
     (if \<not> truthy (currentEnv env) then Inl (JsError ''Missing env var: DB_FIELD_ENCRYPTION_KEY'')
      else case parseHexKey (the (currentEnv env)) ''DB_FIELD_ENCRYPTION_KEY'' of
        Inl e \<Rightarrow> Inl e
      | Inr k \<Rightarrow>
          Inr \<lparr>reg_mode = Legacy, reg_keys = [], activeVersion = 0, legacyCurrent = k,
               legacyPrevious = (if truthy (previousEnv env) \<and> length (hex_decode (the (previousEnv env))) = 32
                                 then Some (hex_decode (the (previousEnv env))) else None)\<rparr>)"

definition buildRegistry :: "(string \<Rightarrow> (string \<times> string) list option) \<Rightarrow> registry_env \<Rightarrow> key_registry outcome" where
  "buildRegistry parse_json env =
     (if truthy (keysJson env) then ring_registry parse_json env
      else if truthy (currentVersionEnv env) then pair_registry env
      else legacy_registry env)"

text \<open>The module keeps the registry of the last signature, the variables joined with NUL.\<close>

definition env_vars :: "registry_env \<Rightarrow> string list" where
  "env_vars env = map (\<lambda>v. case v of None \<Rightarrow> [] | Some s \<Rightarrow> s)
     [keysJson env, activeVersionEnv env, currentEnv env, previousEnv env, currentVersionEnv env, previousVersionEnv env]"

fun join_nul :: "string list \<Rightarrow> string" where
  "join_nul [] = []"
| "join_nul [s] = s"
| "join_nul (s # ss) = s @ CHR 0x00 # join_nul ss"

definition env_signature :: "registry_env \<Rightarrow> string" where
  "env_signature env = join_nul (env_vars env)"

type_synonym registry_cache = "(string \<times> key_registry) option"

definition loadRegistry :: "(string \<Rightarrow> (string \<times> string) list option) \<Rightarrow> registry_env \<Rightarrow> registry_cache
    \<Rightarrow> key_registry outcome \<times> registry_cache" where
  "loadRegistry parse_json env cache =
     (if (case cache of None \<Rightarrow> False | Some (sig, _) \<Rightarrow> sig = env_signature env)
      then (Inr (snd (the cache)), cache)
      else case buildRegistry parse_json env of
             Inl e \<Rightarrow> (Inl e, cache)
           | Inr reg \<Rightarrow> (Inr reg, Some (env_signature env, reg)))"

text \<open>The versions in the order \<open>decrypt\<close> tries their keys; a buffer is pushed once.\<close>

definition candidate_versions :: "key_registry \<Rightarrow> nat option \<Rightarrow> nat list" where
  "candidate_versions reg ver =
     (let order = (case ver of None \<Rightarrow> [] | Some v \<Rightarrow> [v]) @ [activeVersion reg] @ rev (sort (map fst (reg_keys reg)))
      in rev (remdups (rev (filter (\<lambda>v. map_of (reg_keys reg) v \<noteq> None) order))))"

definition candidateKeys :: "key_registry \<Rightarrow> nat option \<Rightarrow> string list" where
  "candidateKeys reg ver =
     (case reg_mode reg of
        Legacy \<Rightarrow> legacyCurrent reg # (case legacyPrevious reg of None \<Rightarrow> [] | Some k \<Rightarrow> [k])
      | Versioned \<Rightarrow> map (\<lambda>v. the (map_of (reg_keys reg) v)) (candidate_versions reg ver))"

subsection \<open>Encryption and decryption\<close>

record gcm =
  gcm_seal :: "string \<Rightarrow> string \<Rightarrow> string \<Rightarrow> string \<times> string"
  gcm_open :: "string \<Rightarrow> string \<Rightarrow> string \<Rightarrow> string \<Rightarrow> string option"

text \<open>AES-256-GCM: a tag of 16 bytes, and what a key sealed the same key opens.\<close>

definition gcm_laws :: "gcm \<Rightarrow> bool" where
  "gcm_laws C \<longleftrightarrow> (\<forall>k iv p c t. length k = 32 \<longrightarrow> length iv = 12 \<longrightarrow> gcm_seal C k iv p = (c, t) \<longrightarrow>
     length t = 16 \<and> gcm_open C k iv t c = Some p)"

text \<open>\<open>/^v(\d+):/\<close>, its number and what follows it.\<close>

definition split_version :: "string \<Rightarrow> (nat \<times> string) option" where
  "split_version s =
     (case s of
        [] \<Rightarrow> None
      | ch # r \<Rightarrow>
          (let ds = takeWhile is_digit r; rest = dropWhile is_digit r in
           if ch = CHR ''v'' \<and> ds \<noteq> [] \<and> rest \<noteq> [] \<and> hd rest = CHR '':'' then Some (read_nat ds, tl rest) else None))"

text \<open>
  Versions are printed as their digits, as a template literal prints integers below \<open>10 ^ 21\<close>; from there
  on JavaScript switches to an exponent, which the model leaves out.
\<close>

definition encrypt :: "gcm \<Rightarrow> key_registry outcome \<Rightarrow> string \<Rightarrow> string \<Rightarrow> string outcome" where
  "encrypt C R iv plaintext =
     (case R of
        Inl e \<Rightarrow> Inl e
      | Inr reg \<Rightarrow>
          (let key = (case reg_mode reg of Versioned \<Rightarrow> the (map_of (reg_keys reg) (activeVersion reg)) | Legacy \<Rightarrow> legacyCurrent reg);
               (encrypted, tag) = gcm_seal C key iv plaintext;
               payload = base64 (iv @ tag @ encrypted)
           in Inr (case reg_mode reg of Versioned \<Rightarrow> ''v'' @ show_nat (activeVersion reg) @ '':'' @ payload | Legacy \<Rightarrow> payload)))"

fun try_keys :: "(string \<Rightarrow> string option) \<Rightarrow> string list \<Rightarrow> string option" where
  "try_keys tryDecrypt [] = None"
| "try_keys tryDecrypt (k # ks) = (case tryDecrypt k of Some p \<Rightarrow> Some p | None \<Rightarrow> try_keys tryDecrypt ks)"

text \<open>\<open>tryDecrypt\<close>: the IV, the tag and the ciphertext of a payload.\<close>

definition open_payload :: "gcm \<Rightarrow> string \<Rightarrow> string \<Rightarrow> string option" where
  "open_payload C payload key =
     (let buf = base64_decode payload in gcm_open C key (take 12 buf) (take 16 (drop 12 buf)) (drop 28 buf))"

definition decrypt :: "gcm \<Rightarrow> key_registry outcome \<Rightarrow> string \<Rightarrow> string outcome" where
  "decrypt C R ciphertext =
     (case R of
        Inl e \<Rightarrow> Inl e
      | Inr reg \<Rightarrow>
          (let ver = map_option fst (split_version ciphertext);
               payload = (case split_version ciphertext of None \<Rightarrow> ciphertext | Some (_, p) \<Rightarrow> p)
           in case try_keys (open_payload C payload) (candidateKeys reg ver) of
                None \<Rightarrow> Inl (JsError ''Failed to decrypt field: invalid key or corrupted data'')
              | Some p \<Rightarrow> Inr p))"

definition getCiphertextKeyVersion :: "string \<Rightarrow> nat option" where
  "getCiphertextKeyVersion s = map_option fst (split_version s)"

definition getActiveKeyVersion :: "key_registry outcome \<Rightarrow> nat option outcome" where
  "getActiveKeyVersion R = (case R of Inl e \<Rightarrow> Inl e
     | Inr reg \<Rightarrow> Inr (case reg_mode reg of Versioned \<Rightarrow> Some (activeVersion reg) | Legacy \<Rightarrow> None))"

definition isVersionedEncryptionEnabled :: "key_registry outcome \<Rightarrow> bool outcome" where
  "isVersionedEncryptionEnabled R = (case R of Inl e \<Rightarrow> Inl e | Inr reg \<Rightarrow> Inr (reg_mode reg = Versioned))"

definition needsKeyRotation :: "key_registry outcome \<Rightarrow> string option \<Rightarrow> bool outcome" where
  "needsKeyRotation R value =
     (case value of
        None \<Rightarrow> Inr False
      | Some v \<Rightarrow> (case getActiveKeyVersion R of
          Inl e \<Rightarrow> Inl e
        | Inr None \<Rightarrow> Inr False
        | Inr (Some active) \<Rightarrow> Inr (getCiphertextKeyVersion v \<noteq> Some active)))"

definition hmacBlindIndex :: "(string \<Rightarrow> string \<Rightarrow> string) \<Rightarrow> (string \<Rightarrow> string) \<Rightarrow> string option \<Rightarrow> registry_env
    \<Rightarrow> string \<Rightarrow> string outcome" where
  "hmacBlindIndex hmac lower blindEnv env value =
     (let secret = (case blindEnv of None \<Rightarrow> currentEnv env | Some k \<Rightarrow> Some k) in
      if \<not> truthy secret
      then Inl (JsError ''Missing DB_FIELD_ENCRYPTION_BLIND_INDEX_KEY / DB_FIELD_ENCRYPTION_KEY for blind index'')
      else Inr (hmac (hex_decode (the secret)) (lower value)))"

text \<open>The transformer of an encrypted column: what a write stores and what a read returns.\<close>

definition transformer_to :: "gcm \<Rightarrow> key_registry outcome \<Rightarrow> string \<Rightarrow> string option \<Rightarrow> string option outcome" where
  "transformer_to C R iv value = (case value of None \<Rightarrow> Inr None
     | Some v \<Rightarrow> (case encrypt C R iv v of Inl e \<Rightarrow> Inl e | Inr s \<Rightarrow> Inr (Some s)))"

definition transformer_from :: "gcm \<Rightarrow> key_registry outcome \<Rightarrow> string option \<Rightarrow> string option" where
  "transformer_from C R value = (case value of None \<Rightarrow> None
     | Some v \<Rightarrow> (case decrypt C R v of Inl _ \<Rightarrow> Some v | Inr p \<Rightarrow> Some p))"

subsection \<open>Version prefixes\<close>

lemma is_digit_digit_char [simp]: "d < 10 \<Longrightarrow> is_digit (digit_char d)"
  by (simp add: is_digit_def of_char_digit Let_def)

lemma show_nat_all_digits: "\<forall>ch \<in> set (show_nat n). is_digit ch"
  using set_show_nat is_digit_digit_char by metis

lemma b64_char_not_colon: "b64_char n \<noteq> CHR '':''"
proof
  assume "b64_char n = CHR '':''"
  then have "(of_char (b64_char n) :: nat) = 58" by simp
  then show False unfolding b64_char_def of_char_of by (auto split: if_splits)
qed

lemma base64_no_colon: "CHR '':'' \<notin> set (base64 bs)"
  by (induction bs rule: base64.induct) (simp_all add: Let_def b64_char_not_colon [symmetric])

lemma split_version_colon:
  assumes "split_version s = Some x"
  shows "CHR '':'' \<in> set s"
proof -
  from assms obtain ch r where s: "s = ch # r" and rest: "dropWhile is_digit r \<noteq> []" "hd (dropWhile is_digit r) = CHR '':''"
    by (cases s) (simp_all add: split_version_def Let_def split: if_splits)
  from hd_in_set [OF rest(1)] rest(2) have "CHR '':'' \<in> set r" using set_dropWhileD by fastforce
  then show ?thesis by (simp add: s)
qed

lemma split_version_base64 [simp]: "split_version (base64 bs) = None"
  using split_version_colon base64_no_colon by (cases "split_version (base64 bs)") blast+

lemma split_version_prefixed [simp]: "split_version (CHR ''v'' # show_nat v @ CHR '':'' # s) = Some (v, s)"
proof -
  have "\<not> is_digit CHR '':''" by (simp add: is_digit_def)
  then have "takeWhile is_digit (show_nat v @ CHR '':'' # s) = show_nat v"
    and "dropWhile is_digit (show_nat v @ CHR '':'' # s) = CHR '':'' # s"
    using show_nat_all_digits [of v] by (simp_all add: takeWhile_append2 dropWhile_append2)
  then show ?thesis by (simp only: split_version_def list.case Let_def read_show_nat show_nat_nonempty) simp
qed

subsection \<open>The registry is well-formed\<close>

definition registry_wf :: "key_registry \<Rightarrow> bool" where
  "registry_wf reg \<longleftrightarrow> distinct (map fst (reg_keys reg)) \<and> (\<forall>k \<in> snd ` set (reg_keys reg). length k = 32)
     \<and> length (legacyCurrent reg) = 32
     \<and> (reg_mode reg = Versioned \<longrightarrow> map_of (reg_keys reg) (activeVersion reg) = Some (legacyCurrent reg))"

lemma parseHexKey_length: "parseHexKey raw label = Inr k \<Longrightarrow> k = hex_decode raw \<and> length k = 32"
  by (auto simp: parseHexKey_def split: if_splits)

lemma snd_update_subset: "snd ` set (AList.update v k keys) \<subseteq> insert k (snd ` set keys)"
  by (induction keys) (auto split: if_splits)

lemma ring_keys_wf:
  "ring_keys es keys = Inr keys' \<Longrightarrow> distinct (map fst keys) \<Longrightarrow> \<forall>k \<in> snd ` set keys. length k = 32
   \<Longrightarrow> distinct (map fst keys') \<and> (\<forall>k \<in> snd ` set keys'. length k = 32)"
proof (induction es keys rule: ring_keys.induct)
  case (2 rawVersion hex es keys)
  obtain v where v: "parseVersion rawVersion (''DB_FIELD_ENCRYPTION_KEYS key '' @ quoted rawVersion) = Inr v"
    using "2.prems"(1) by (cases "parseVersion rawVersion (''DB_FIELD_ENCRYPTION_KEYS key '' @ quoted rawVersion)") simp_all
  obtain k where k: "parseHexKey hex (''DB_FIELD_ENCRYPTION_KEYS['' @ quoted rawVersion @ '']'') = Inr k"
    using "2.prems"(1) v by (cases "parseHexKey hex (''DB_FIELD_ENCRYPTION_KEYS['' @ quoted rawVersion @ '']'')") simp_all
  have r: "ring_keys es (AList.update v k keys) = Inr keys'" using "2.prems"(1) v k by simp
  have d: "distinct (map fst (AList.update v k keys))"
    using "2.prems"(2) by (simp add: distinct_update)
  have l: "\<forall>k' \<in> snd ` set (AList.update v k keys). length k' = 32"
    using "2.prems"(3) parseHexKey_length [OF k] snd_update_subset [of v k keys]
    by (metis insertE subsetD)
  show ?case by (rule "2.IH" [OF v k r d l])
qed simp

lemma versioned_registry_wf:
  assumes "distinct (map fst keys)" "\<forall>k \<in> snd ` set keys. length k = 32" "map_of keys v = Some k"
  shows "registry_wf (versioned_registry keys v)"
proof -
  have "k \<in> snd ` set keys" using map_of_SomeD [OF assms(3)] by force
  with assms show ?thesis by (auto simp: registry_wf_def versioned_registry_def)
qed

lemma ring_registry_wf:
  assumes "ring_registry parse_json env = Inr reg"
  shows "registry_wf reg \<and> reg_mode reg = Versioned"
proof -
  from assms obtain entries keys v k where "ring_keys entries [] = Inr keys" "map_of keys v = Some k"
      and reg: "reg = versioned_registry keys v"
    unfolding ring_registry_def by (auto split: option.splits sum.splits if_splits)
  then have "registry_wf reg" using ring_keys_wf [of entries "[]" keys] versioned_registry_wf [of keys v k] by simp
  then show ?thesis by (simp add: reg versioned_registry_def)
qed

text \<open>What the pair of variables configures.\<close>

lemma pair_registry_version:
  assumes "pair_registry env = Inr reg"
  obtains active where "parseVersion (the (currentVersionEnv env)) ''DB_FIELD_ENCRYPTION_KEY_VERSION'' = Inr active"
  using assms unfolding pair_registry_def
  by (cases "parseVersion (the (currentVersionEnv env)) ''DB_FIELD_ENCRYPTION_KEY_VERSION''") (simp_all split: if_splits)

lemma pair_registry_cases:
  assumes "pair_registry env = Inr reg"
  obtains (single) active where "\<not> truthy (previousEnv env)" "truthy (currentEnv env)"
      "length (hex_decode (the (currentEnv env))) = 32"
      "reg = versioned_registry [(active, hex_decode (the (currentEnv env)))] active"
  | (pair) active pv where "truthy (previousEnv env)" "truthy (currentEnv env)"
      "length (hex_decode (the (currentEnv env))) = 32" "length (hex_decode (the (previousEnv env))) = 32" "pv \<noteq> active"
      "reg = versioned_registry [(active, hex_decode (the (currentEnv env))), (pv, hex_decode (the (previousEnv env)))] active"
proof (cases "truthy (previousEnv env)")
  case True
  obtain active where a: "parseVersion (the (currentVersionEnv env)) ''DB_FIELD_ENCRYPTION_KEY_VERSION'' = Inr active"
    using pair_registry_version [OF assms] .
  obtain k where k: "parseHexKey (the (currentEnv env)) ''DB_FIELD_ENCRYPTION_KEY'' = Inr k"
    using assms True a unfolding pair_registry_def
    by (cases "parseHexKey (the (currentEnv env)) ''DB_FIELD_ENCRYPTION_KEY''") (simp_all split: if_splits)
  obtain pv where pv: "previous_version env active = Inr pv"
    using assms True a k unfolding pair_registry_def
    by (cases "previous_version env active") (simp_all split: if_splits)
  obtain k' where k': "parseHexKey (the (previousEnv env)) ''DB_FIELD_ENCRYPTION_KEY_PREVIOUS'' = Inr k'"
    using assms True a k pv unfolding pair_registry_def
    by (cases "parseHexKey (the (previousEnv env)) ''DB_FIELD_ENCRYPTION_KEY_PREVIOUS''") (simp_all split: if_splits)
  have "truthy (currentEnv env)" "0 \<le> pv" "pv \<noteq> int active" "reg = versioned_registry [(active, k), (nat pv, k')] active"
    using assms True a k pv k' unfolding pair_registry_def by (simp_all split: if_splits)
  with True parseHexKey_length [OF k] parseHexKey_length [OF k'] show ?thesis
    by (intro pair [where active = active and pv = "nat pv"]) auto
next
  case False
  obtain active where a: "parseVersion (the (currentVersionEnv env)) ''DB_FIELD_ENCRYPTION_KEY_VERSION'' = Inr active"
    using pair_registry_version [OF assms] .
  from assms False a obtain k
    where "truthy (currentEnv env)" and k: "parseHexKey (the (currentEnv env)) ''DB_FIELD_ENCRYPTION_KEY'' = Inr k"
      and "reg = versioned_registry [(active, k)] active"
    unfolding pair_registry_def
    by (cases "parseHexKey (the (currentEnv env)) ''DB_FIELD_ENCRYPTION_KEY''") (simp_all split: if_splits)
  with False parseHexKey_length [OF k] show ?thesis by (intro single [where active = active]) auto
qed

lemma legacy_registry_wf:
  "legacy_registry env = Inr reg \<Longrightarrow> registry_wf reg \<and> reg_mode reg = Legacy
     \<and> truthy (currentEnv env) \<and> legacyCurrent reg = hex_decode (the (currentEnv env))"
  by (auto simp: legacy_registry_def registry_wf_def dest: parseHexKey_length split: sum.splits if_splits)

lemma buildRegistry_wf:
  assumes "buildRegistry parse_json env = Inr reg"
  shows "registry_wf reg"
proof -
  have "registry_wf reg" if "pair_registry env = Inr reg"
    using that by (cases rule: pair_registry_cases) (auto intro!: versioned_registry_wf)
  then show ?thesis
    using assms ring_registry_wf [of parse_json env reg] legacy_registry_wf [of env reg]
    unfolding buildRegistry_def by (auto split: if_splits)
qed

subsection \<open>Candidate keys\<close>

lemma remdups_snoc: "remdups (ys @ [v]) = filter (\<lambda>x. x \<noteq> v) (remdups ys) @ [v]"
  by (induction ys) auto

lemma remdups_first:
  "rev (remdups (rev (filter P (v # vs)))) =
     (if P v then v # filter (\<lambda>x. x \<noteq> v) (rev (remdups (rev (filter P vs)))) else rev (remdups (rev (filter P vs))))"
  by (simp add: remdups_snoc rev_filter)

lemma candidate_versions_order:
  "candidate_versions reg (Some v) =
     (if map_of (reg_keys reg) v = None then candidate_versions reg None
      else v # filter (\<lambda>x. x \<noteq> v) (candidate_versions reg None))"
  unfolding candidate_versions_def Let_def option.case append_Cons append_Nil
  by (subst remdups_first) simp

lemma candidate_versions_active:
  "map_of (reg_keys reg) (activeVersion reg) \<noteq> None \<Longrightarrow> \<exists>vs. candidate_versions reg None = activeVersion reg # vs"
  unfolding candidate_versions_def Let_def option.case append_Cons append_Nil
  by (subst remdups_first) simp

lemma candidate_versions_complete:
  assumes "registry_wf reg" "reg_mode reg = Versioned"
  shows "distinct (candidate_versions reg ver) \<and> set (candidate_versions reg ver) = fst ` set (reg_keys reg)"
proof -
  have "map_of (reg_keys reg) v \<noteq> None \<longleftrightarrow> v \<in> fst ` set (reg_keys reg)" for v
    by (auto simp: map_of_eq_None_iff)
  moreover have "activeVersion reg \<in> fst ` set (reg_keys reg)"
    using assms by (metis calculation option.distinct(1) registry_wf_def)
  ultimately show ?thesis
    unfolding candidate_versions_def Let_def by (cases ver) auto
qed

lemma try_keys_Some: "try_keys f ks = Some p \<Longrightarrow> \<exists>k \<in> set ks. f k = Some p"
  by (induction ks) (auto split: option.splits)

lemma try_keys_None: "try_keys f ks = None \<longleftrightarrow> (\<forall>k \<in> set ks. f k = None)"
  by (induction ks) (auto split: option.splits)

lemma try_keys_only:
  assumes "k \<in> set ks" "f k = Some p" "\<forall>k' \<in> set ks. k' \<noteq> k \<longrightarrow> f k' = None"
  shows "try_keys f ks = Some p"
proof -
  obtain q where "try_keys f ks = Some q" using assms(1,2) try_keys_None [of f ks] by (cases "try_keys f ks") auto
  then show ?thesis using assms(2,3) by (metis option.inject option.distinct(1) try_keys_Some)
qed

subsection \<open>The cache of the registry\<close>

definition no_nul :: "registry_env \<Rightarrow> bool" where
  "no_nul env \<longleftrightarrow> (\<forall>v \<in> set (env_vars env). CHR 0x00 \<notin> set v)"

definition cache_ok :: "(string \<Rightarrow> (string \<times> string) list option) \<Rightarrow> registry_cache \<Rightarrow> bool" where
  "cache_ok parse_json cache \<longleftrightarrow> (\<forall>sig reg. cache = Some (sig, reg) \<longrightarrow>
     (\<exists>env. no_nul env \<and> sig = env_signature env \<and> buildRegistry parse_json env = Inr reg))"

lemma join_nul_inj:
  "length xs = length ys \<Longrightarrow> \<forall>v \<in> set xs. CHR 0x00 \<notin> set v \<Longrightarrow> \<forall>v \<in> set ys. CHR 0x00 \<notin> set v
   \<Longrightarrow> join_nul xs = join_nul ys \<Longrightarrow> xs = ys"
proof (induction xs arbitrary: ys rule: join_nul.induct)
  case (3 x x' xs)
  from "3.prems"(1) obtain y y' ys' where ys: "ys = y # y' # ys'"
    by (cases ys; cases "tl ys") auto
  have "x @ CHR 0x00 # join_nul (x' # xs) = y @ CHR 0x00 # join_nul (y' # ys')"
    using "3.prems"(4) by (simp add: ys)
  from first_cut [OF _ _ this] have "x = y" "join_nul (x' # xs) = join_nul (y' # ys')"
    using "3.prems"(2,3) by (simp_all add: ys)
  with "3.IH" [of "y' # ys'"] "3.prems" show ?case by (simp add: ys)
next
  case (2 x)
  then show ?case by (cases ys) auto
qed auto

text \<open>An unset variable and an empty one are the same to \<open>isSet\<close>.\<close>

definition same_var :: "string option \<Rightarrow> string option \<Rightarrow> bool" where
  "same_var v w \<longleftrightarrow> truthy v = truthy w \<and> (truthy v \<longrightarrow> the v = the w)"

lemma same_varI: "(case v of None \<Rightarrow> [] | Some s \<Rightarrow> s) = (case w of None \<Rightarrow> [] | Some s \<Rightarrow> s) \<Longrightarrow> same_var v w"
  by (auto simp: same_var_def truthy_def split: option.splits)

lemma buildRegistry_vars:
  assumes "env_vars e = env_vars e'"
  shows "buildRegistry parse_json e = buildRegistry parse_json e'"
proof -
  have v: "same_var (keysJson e) (keysJson e')" "same_var (activeVersionEnv e) (activeVersionEnv e')"
    "same_var (currentEnv e) (currentEnv e')" "same_var (previousEnv e) (previousEnv e')"
    "same_var (currentVersionEnv e) (currentVersionEnv e')" "same_var (previousVersionEnv e) (previousVersionEnv e')"
    using assms by (auto simp: env_vars_def intro!: same_varI)
  have "previous_version e a = previous_version e' a" for a
    using v(6) by (auto simp: previous_version_def same_var_def)
  then have "truthy (currentVersionEnv e') \<Longrightarrow> pair_registry e = pair_registry e'"
    using v(3,4,5) unfolding pair_registry_def same_var_def by (auto cong: if_cong sum.case_cong)
  moreover have "legacy_registry e = legacy_registry e'"
    using v(3,4) unfolding legacy_registry_def same_var_def by (auto cong: if_cong sum.case_cong)
  moreover have "truthy (keysJson e') \<Longrightarrow> ring_registry parse_json e = ring_registry parse_json e'"
    using v(1,2) unfolding ring_registry_def same_var_def by (auto cong: if_cong sum.case_cong option.case_cong)
  ultimately show ?thesis
    using v(1,5) unfolding buildRegistry_def same_var_def by auto
qed

lemma env_signature_inj: "no_nul e \<Longrightarrow> no_nul e' \<Longrightarrow> env_signature e = env_signature e' \<Longrightarrow> env_vars e = env_vars e'"
  unfolding env_signature_def no_nul_def by (rule join_nul_inj) (simp_all add: env_vars_def)

text \<open>
  The cached registry is transparent: whatever the environment was when the cache was filled,
  \<open>loadRegistry\<close> returns what \<open>buildRegistry\<close> makes of the present environment, and leaves a cache
  of which the same holds.
\<close>

theorem loadRegistry_transparent:
  assumes "cache_ok parse_json cache" and "no_nul env"
  shows "fst (loadRegistry parse_json env cache) = buildRegistry parse_json env
    \<and> cache_ok parse_json (snd (loadRegistry parse_json env cache))"
proof
  have hit: "buildRegistry parse_json env = Inr reg" if "cache = Some (env_signature env, reg)" for reg
  proof -
    from assms(1) that obtain e where "no_nul e" "env_signature env = env_signature e" "buildRegistry parse_json e = Inr reg"
      by (auto simp: cache_ok_def)
    with env_signature_inj [OF assms(2)] buildRegistry_vars [of env e parse_json] show ?thesis by simp
  qed
  show "fst (loadRegistry parse_json env cache) = buildRegistry parse_json env"
    using hit by (auto simp: loadRegistry_def split: option.splits sum.splits)
  show "cache_ok parse_json (snd (loadRegistry parse_json env cache))"
  proof (cases "snd (loadRegistry parse_json env cache) = cache")
    case False
    then obtain reg where "buildRegistry parse_json env = Inr reg"
        "snd (loadRegistry parse_json env cache) = Some (env_signature env, reg)"
      by (auto simp: loadRegistry_def split: if_splits sum.splits)
    with assms(2) show ?thesis by (auto simp: cache_ok_def)
  qed (simp add: assms(1))
qed

subsection \<open>What is encrypted decrypts\<close>

lemma encrypt_cases:
  assumes "registry_wf reg" "gcm_laws C" "length iv = 12"
  obtains c t where "gcm_seal C (legacyCurrent reg) iv p = (c, t)" "length t = 16"
    "gcm_open C (legacyCurrent reg) iv t c = Some p"
    "encrypt C (Inr reg) iv p = Inr (case reg_mode reg of
        Versioned \<Rightarrow> CHR ''v'' # show_nat (activeVersion reg) @ CHR '':'' # base64 (iv @ t @ c) | Legacy \<Rightarrow> base64 (iv @ t @ c))"
proof -
  obtain c t where seal: "gcm_seal C (legacyCurrent reg) iv p = (c, t)" by fastforce
  have "length t = 16 \<and> gcm_open C (legacyCurrent reg) iv t c = Some p"
    using assms seal unfolding gcm_laws_def registry_wf_def by blast
  moreover have "encrypt C (Inr reg) iv p = Inr (case reg_mode reg of
      Versioned \<Rightarrow> CHR ''v'' # show_nat (activeVersion reg) @ CHR '':'' # base64 (iv @ t @ c) | Legacy \<Rightarrow> base64 (iv @ t @ c))"
    using assms(1) seal by (cases "reg_mode reg") (simp_all add: encrypt_def registry_wf_def)
  ultimately show ?thesis using that seal by blast
qed

lemma open_payload_base64:
  "length iv = 12 \<Longrightarrow> length t = 16 \<Longrightarrow> open_payload C (base64 (iv @ t @ c)) k = gcm_open C k iv t c"
  by (simp add: open_payload_def base64_roundtrip Let_def)

lemma set_candidateKeys:
  assumes "registry_wf reg"
  shows "set (candidateKeys reg ver) = (case reg_mode reg of
      Versioned \<Rightarrow> snd ` set (reg_keys reg)
    | Legacy \<Rightarrow> insert (legacyCurrent reg) (set_option (legacyPrevious reg)))"
proof (cases "reg_mode reg")
  case Versioned
  have "(\<lambda>v. the (map_of (reg_keys reg) v)) ` fst ` set (reg_keys reg) = snd ` set (reg_keys reg)"
    using assms by (force simp: registry_wf_def image_iff)
  with Versioned candidate_versions_complete [OF assms Versioned] show ?thesis
    by (simp add: candidateKeys_def)
next
  case Legacy
  then show ?thesis by (cases "legacyPrevious reg") (simp_all add: candidateKeys_def)
qed

lemma candidateKeys_first:
  assumes "registry_wf reg" and "reg_mode reg = Versioned \<Longrightarrow> ver = Some (activeVersion reg)"
  shows "\<exists>ks. candidateKeys reg ver = legacyCurrent reg # ks"
  using assms by (cases "reg_mode reg") (auto simp: candidateKeys_def registry_wf_def candidate_versions_order)

lemma decrypt_encrypt_registry:
  assumes "registry_wf reg" "gcm_laws C" "length iv = 12"
  shows "\<exists>s. encrypt C (Inr reg) iv p = Inr s \<and> decrypt C (Inr reg) s = Inr p
    \<and> getCiphertextKeyVersion s = (case reg_mode reg of Versioned \<Rightarrow> Some (activeVersion reg) | Legacy \<Rightarrow> None)
    \<and> needsKeyRotation (Inr reg) (Some s) = Inr False"
proof -
  from encrypt_cases [OF assms] obtain c t where t: "length t = 16" "gcm_open C (legacyCurrent reg) iv t c = Some p"
    and e: "encrypt C (Inr reg) iv p = Inr (case reg_mode reg of
        Versioned \<Rightarrow> CHR ''v'' # show_nat (activeVersion reg) @ CHR '':'' # base64 (iv @ t @ c) | Legacy \<Rightarrow> base64 (iv @ t @ c))"
    by blast
  obtain ks where "candidateKeys reg (case reg_mode reg of Versioned \<Rightarrow> Some (activeVersion reg) | Legacy \<Rightarrow> None)
      = legacyCurrent reg # ks"
    using candidateKeys_first [OF assms(1)] by (metis registry_mode.exhaust registry_mode.simps(4))
  with t e show ?thesis
    by (cases "reg_mode reg")
       (simp_all add: decrypt_def open_payload_base64 assms(3) getCiphertextKeyVersion_def needsKeyRotation_def
          getActiveKeyVersion_def)
qed

text \<open>
  C20: Round trip of an encrypted column under any configuration the registry accepts: a text is
  stored under the active key, carries its version in versioned mode and none in legacy mode, reads
  back as it was, and is not due for rotation.
\<close>

theorem decrypt_encrypt:
  assumes "buildRegistry parse_json env = Inr reg" and "gcm_laws C" and "length iv = 12"
  shows "\<exists>s. transformer_to C (Inr reg) iv (Some p) = Inr (Some s) \<and> transformer_from C (Inr reg) (Some s) = Some p
    \<and> getCiphertextKeyVersion s = (case reg_mode reg of Versioned \<Rightarrow> Some (activeVersion reg) | Legacy \<Rightarrow> None)
    \<and> needsKeyRotation (Inr reg) (Some s) = Inr False"
  using decrypt_encrypt_registry [OF buildRegistry_wf [OF assms(1)] assms(2,3), of p]
  by (auto simp: transformer_to_def transformer_from_def)

text \<open>What is written under one environment, read under the next.\<close>

lemma key_switch_readable:
  assumes laws: "gcm_laws C" and iv: "length iv = 12"
    and env1: "buildRegistry parse_json env1 = Inr reg1" "\<not> truthy (keysJson env1)"
    and env2: "buildRegistry parse_json env2 = Inr reg2" "\<not> truthy (keysJson env2)"
      "truthy (currentVersionEnv env2)" "previousEnv env2 = currentEnv env1"
    and s: "encrypt C (Inr reg1) iv p = Inr s"
    and rejects: "\<And>c t. gcm_seal C (legacyCurrent reg1) iv p = (c, t) \<Longrightarrow>
      gcm_open C (legacyCurrent reg2) iv t c \<in> {None, Some p}"
  shows "decrypt C (Inr reg2) s = Inr p"
    and "needsKeyRotation (Inr reg2) (Some s) = Inr (reg_mode reg1 = Legacy \<or> activeVersion reg1 \<noteq> activeVersion reg2)"
proof -
  have wf1: "registry_wf reg1" and wf2: "registry_wf reg2" using env1 env2 buildRegistry_wf by blast+
  have cur: "truthy (currentEnv env1) \<and> legacyCurrent reg1 = hex_decode (the (currentEnv env1))"
  proof (cases "truthy (currentVersionEnv env1)")
    case True
    with env1 have "pair_registry env1 = Inr reg1" by (simp add: buildRegistry_def)
    then show ?thesis by (cases rule: pair_registry_cases) (simp_all add: versioned_registry_def)
  qed (use env1 legacy_registry_wf in \<open>simp add: buildRegistry_def\<close>)
  have "pair_registry env2 = Inr reg2" using env2 by (simp add: buildRegistry_def)
  then have keys: "snd ` set (reg_keys reg2) = {legacyCurrent reg2, legacyCurrent reg1}" and mode: "reg_mode reg2 = Versioned"
    by (cases rule: pair_registry_cases; use env2(4) cur in \<open>simp add: versioned_registry_def\<close>)+
  from encrypt_cases [OF wf1 laws iv] obtain c t where seal: "gcm_seal C (legacyCurrent reg1) iv p = (c, t)"
    and t: "length t = 16" "gcm_open C (legacyCurrent reg1) iv t c = Some p"
    and e: "encrypt C (Inr reg1) iv p = Inr (case reg_mode reg1 of
        Versioned \<Rightarrow> CHR ''v'' # show_nat (activeVersion reg1) @ CHR '':'' # base64 (iv @ t @ c) | Legacy \<Rightarrow> base64 (iv @ t @ c))"
    by blast
  have tries: "try_keys (\<lambda>k. gcm_open C k iv t c) (candidateKeys reg2 ver) = Some p" for ver
  proof -
    have ks: "set (candidateKeys reg2 ver) = {legacyCurrent reg2, legacyCurrent reg1}"
      using set_candidateKeys [OF wf2, of ver] by (simp add: mode keys)
    obtain q where q: "try_keys (\<lambda>k. gcm_open C k iv t c) (candidateKeys reg2 ver) = Some q"
      using ks t(2) try_keys_None [of "\<lambda>k. gcm_open C k iv t c" "candidateKeys reg2 ver"] by fastforce
    with try_keys_Some [OF q] ks t(2) rejects [OF seal] show ?thesis by auto
  qed
  have "open_payload C (base64 (iv @ t @ c)) = (\<lambda>k. gcm_open C k iv t c)"
    by (rule ext) (rule open_payload_base64 [OF iv t(1)])
  with s e tries show "decrypt C (Inr reg2) s = Inr p"
    by (cases "reg_mode reg1") (auto simp: decrypt_def)
  from s e mode show "needsKeyRotation (Inr reg2) (Some s) = Inr (reg_mode reg1 = Legacy \<or> activeVersion reg1 \<noteq> activeVersion reg2)"
    by (cases "reg_mode reg1") (auto simp: needsKeyRotation_def getActiveKeyVersion_def getCiphertextKeyVersion_def)
qed

text \<open>
  The switch of keys the runbook describes keeps every stored value readable: the environment
  \<open>env2\<close> has a new current key with a version and the old current key as the previous one; what
  was written under \<open>env1\<close>, with a version or without, decrypts to the same text, whatever version
  the old key is given, provided the new key does not open it. It is due for rotation unless it
  already carries the new version.
\<close>

theorem key_switch_keeps_readable:
  assumes laws: "gcm_laws C" and iv: "length iv = 12"
    and env1: "buildRegistry parse_json env1 = Inr reg1" "\<not> truthy (keysJson env1)"
    and env2: "buildRegistry parse_json env2 = Inr reg2" "\<not> truthy (keysJson env2)"
      "truthy (currentVersionEnv env2)" "previousEnv env2 = currentEnv env1"
    and s: "encrypt C (Inr reg1) iv p = Inr s"
    and rejects: "\<And>c t. gcm_seal C (legacyCurrent reg1) iv p = (c, t) \<Longrightarrow>
      gcm_open C (legacyCurrent reg2) iv t c \<in> {None, Some p}"
  shows "decrypt C (Inr reg2) s = Inr p
    \<and> needsKeyRotation (Inr reg2) (Some s) = Inr (reg_mode reg1 = Legacy \<or> activeVersion reg1 \<noteq> activeVersion reg2)"
  using key_switch_readable [OF assms] by blast

text \<open>
  A read that cannot decrypt returns the ciphertext as if it were the text, so a value read
  under a registry without its key and saved again under a working one is encrypted twice: from
  then on the column reads as the old ciphertext.
\<close>

theorem unreadable_value_saved_again:
  assumes "buildRegistry parse_json env = Inr reg" and "gcm_laws C" and "length iv = 12"
    and "decrypt C R s = Inl e"
  shows "\<exists>s'. transformer_to C (Inr reg) iv (transformer_from C R (Some s)) = Inr (Some s')
    \<and> transformer_from C (Inr reg) (Some s') = Some s"
  using decrypt_encrypt_registry [OF buildRegistry_wf [OF assms(1)] assms(2,3), of s] assms(4)
  by (auto simp: transformer_to_def transformer_from_def)

subsection \<open>Concrete keys\<close>

text \<open>A cipher with the laws (its tag names the key), and the two environments of a switch of keys.\<close>

definition tag_gcm :: gcm where
  "tag_gcm = \<lparr>gcm_seal = (\<lambda>k iv p. (p, take 16 k)), gcm_open = (\<lambda>k iv t c. if t = take 16 k then Some c else None)\<rparr>"

definition single_key_env :: registry_env where
  "single_key_env = \<lparr>keysJson = None, activeVersionEnv = None, currentEnv = Some (replicate 64 CHR ''a''), previousEnv = None,
     currentVersionEnv = None, previousVersionEnv = None\<rparr>"

definition switched_env :: registry_env where
  "switched_env = \<lparr>keysJson = None, activeVersionEnv = None, currentEnv = Some (replicate 64 CHR ''b''),
     previousEnv = Some (replicate 64 CHR ''a''), currentVersionEnv = Some ''2'', previousVersionEnv = None\<rparr>"

definition key_a :: string where "key_a = replicate 32 (CHR 0xAA)"

definition key_b :: string where "key_b = replicate 32 (CHR 0xBB)"

definition single_key_registry :: key_registry where
  "single_key_registry = \<lparr>reg_mode = Legacy, reg_keys = [], activeVersion = 0, legacyCurrent = key_a, legacyPrevious = None\<rparr>"

definition switched_registry :: key_registry where
  "switched_registry = \<lparr>reg_mode = Versioned, reg_keys = [(2, key_b), (1, key_a)], activeVersion = 2, legacyCurrent = key_b,
     legacyPrevious = None\<rparr>"

lemma tag_gcm_laws: "gcm_laws tag_gcm"
  by (simp add: gcm_laws_def tag_gcm_def)

lemma single_key_env_registry: "buildRegistry parse_json single_key_env = Inr single_key_registry"
proof -
  have "legacy_registry single_key_env = Inr single_key_registry" by code_simp
  then show ?thesis by (simp add: buildRegistry_def single_key_env_def)
qed

lemma switched_env_registry: "buildRegistry parse_json switched_env = Inr switched_registry"
proof -
  have "pair_registry switched_env = Inr switched_registry" by code_simp
  then show ?thesis by (simp add: buildRegistry_def switched_env_def)
qed



definition zero_iv :: string where "zero_iv = replicate 12 (CHR 0x00)"

lemma zero_iv_length: "length zero_iv = 12" by (simp add: zero_iv_def)

text \<open>A value written before the switch, and read after it.\<close>

lemma switched_value:
  obtains w where "encrypt tag_gcm (Inr single_key_registry) zero_iv ''a@b.c'' = Inr w"
    "decrypt tag_gcm (Inr switched_registry) w = Inr ''a@b.c''" "getCiphertextKeyVersion w = None" "w \<noteq> []"
proof -
  define w where "w = base64 (zero_iv @ take 16 key_a @ ''a@b.c'')"
  have w: "encrypt tag_gcm (Inr single_key_registry) zero_iv ''a@b.c'' = Inr w"
    by (simp add: encrypt_def single_key_registry_def tag_gcm_def w_def)
  have "decrypt tag_gcm (Inr switched_registry) w = Inr ''a@b.c''"
    by (rule key_switch_readable(1) [OF tag_gcm_laws zero_iv_length single_key_env_registry _ switched_env_registry _ _ _ w])
       (auto simp: single_key_env_def switched_env_def tag_gcm_def)
  moreover have "getCiphertextKeyVersion w = None" by (simp add: w_def getCiphertextKeyVersion_def)
  moreover have "w \<noteq> []" by (simp add: w_def zero_iv_def)
  ultimately show ?thesis using that w by blast
qed

theorem loadRegistry_transparent_witness:
  "fst (loadRegistry (\<lambda>_. None) single_key_env (Some (env_signature switched_env, switched_registry))) = Inr single_key_registry"
proof -
  have "no_nul switched_env" "no_nul single_key_env" by code_simp+
  with loadRegistry_transparent [of "\<lambda>_. None" "Some (env_signature switched_env, switched_registry)" single_key_env]
    switched_env_registry [of "\<lambda>_. None"]
  show ?thesis by (auto simp: cache_ok_def single_key_env_registry)
qed

theorem decrypt_encrypt_witness:
  "\<exists>s. transformer_to tag_gcm (Inr switched_registry) zero_iv (Some ''a@b.c'') = Inr (Some s)
     \<and> transformer_from tag_gcm (Inr switched_registry) (Some s) = Some ''a@b.c'' \<and> getCiphertextKeyVersion s = Some 2"
  using decrypt_encrypt [OF switched_env_registry tag_gcm_laws zero_iv_length, of "''a@b.c''"]
  by (auto simp: switched_registry_def)

theorem key_switch_keeps_readable_witness:
  "\<exists>s. encrypt tag_gcm (Inr single_key_registry) zero_iv ''a@b.c'' = Inr s \<and> decrypt tag_gcm (Inr switched_registry) s = Inr ''a@b.c''"
proof -
  obtain s where s: "encrypt tag_gcm (Inr single_key_registry) zero_iv ''a@b.c'' = Inr s"
    by (simp add: encrypt_def single_key_registry_def tag_gcm_def)
  have "decrypt tag_gcm (Inr switched_registry) s = Inr ''a@b.c''"
    by (rule conjunct1 [OF key_switch_keeps_readable [OF tag_gcm_laws zero_iv_length single_key_env_registry _ switched_env_registry _ _ _ s]])
       (auto simp: single_key_env_def switched_env_def tag_gcm_def)
  with s show ?thesis by blast
qed

theorem unreadable_value_saved_again_witness:
  "\<exists>s'. transformer_to tag_gcm (Inr switched_registry) zero_iv (transformer_from tag_gcm (Inl (JsError ''Missing env var: DB_FIELD_ENCRYPTION_KEY'')) (Some ''v2:AAAA''))
       = Inr (Some s') \<and> transformer_from tag_gcm (Inr switched_registry) (Some s') = Some ''v2:AAAA''"
  by (rule unreadable_value_saved_again [OF switched_env_registry tag_gcm_laws zero_iv_length]) (simp add: decrypt_def)

end
