(* ===== verification/Rotation.thy ===== *)
theory Rotation
  imports Encryption "HOL-Library.List_Lexorder" "HOL-Library.Char_ord"
begin

text \<open>
  Re-encryption of stored columns after a switch of keys (\<open>common/encryption/key-rotation.ts\<close>). The
  engine \<open>rotateTarget\<close> drives a store through the operations of \<open>RotationStore\<close>, here the record
  \<open>store_ops\<close>; the locale \<open>rotation_store\<close> states what the store promises, and the PostgreSQL store
  provides it. The IVs are taken from a supply \<open>fresh\<close> by number, and the loop is a partial function
  (it returns \<open>None\<close> where it would not end). Pauses between batches and log lines are left out.
\<close>

subsection \<open>The interface of a store\<close>

datatype rotation_status = RPending | RRunning | RCompleted | RFailed

record rotation_target =
  table :: string
  columns :: "string list"

record stored_progress =
  targetTable :: string
  targetKeyVersion :: nat
  lastProcessedId :: "string option"
  rowsScanned :: nat
  rowsReencrypted :: nat
  rowsFailed :: nat
  rstatus :: rotation_status

record rotation_row =
  row_id :: string
  row_cols :: "string \<rightharpoonup> string"

record 's store_ops =
  loadProgress :: "string \<Rightarrow> 's \<Rightarrow> stored_progress option"
  saveProgress :: "stored_progress \<Rightarrow> 's \<Rightarrow> 's"
  fetchBatch :: "rotation_target \<Rightarrow> string option \<Rightarrow> nat \<Rightarrow> 's \<Rightarrow> rotation_row list"
  updateRow :: "rotation_target \<Rightarrow> string \<Rightarrow> (string \<times> string) list \<Rightarrow> 's \<Rightarrow> unit outcome \<times> 's"
  store_transaction :: "('s \<Rightarrow> stored_progress outcome \<times> 's) \<Rightarrow> 's \<Rightarrow> stored_progress outcome \<times> 's"

record rotation_options =
  batchSize :: nat
  maxBatches :: "nat option"
  maxFailures :: nat

record rotation_result =
  progress_of :: stored_progress
  batchesRun :: nat
  done_of :: bool

subsection \<open>One batch\<close>

text \<open>The columns of a row not yet at the active version, re-encrypted; a failure is counted.\<close>

record crypto =
  cipher :: gcm
  registry :: "key_registry outcome"
  fresh :: "nat \<Rightarrow> string"

fun reencrypt_columns :: "crypto \<Rightarrow> nat \<Rightarrow> rotation_row \<Rightarrow> string list \<Rightarrow> (string \<times> string) list \<times> nat \<times> nat
    \<Rightarrow> (string \<times> string) list \<times> nat \<times> nat" where
  "reencrypt_columns K active r [] acc = acc"
| "reencrypt_columns K active r (col # cols) (vals, failed, n) =
     reencrypt_columns K active r cols
       (case row_cols r col of
          None \<Rightarrow> (vals, failed, n)
        | Some v \<Rightarrow>
            if v = [] \<or> getCiphertextKeyVersion v = Some active then (vals, failed, n)
            else (case decrypt (cipher K) (registry K) v of
                    Inl _ \<Rightarrow> (vals, failed + 1, n)
                  | Inr p \<Rightarrow> (case encrypt (cipher K) (registry K) (fresh K n) p of
                      Inl _ \<Rightarrow> (vals, failed + 1, n + 1)
                    | Inr s \<Rightarrow> (AList.update col s vals, failed, n + 1))))"

type_synonym row_update = "string \<times> (string \<times> string) list"

fun prepare_rows :: "crypto \<Rightarrow> nat \<Rightarrow> rotation_target \<Rightarrow> rotation_row list \<Rightarrow> row_update list \<times> stored_progress \<times> nat
    \<Rightarrow> row_update list \<times> stored_progress \<times> nat" where
  "prepare_rows K active t [] acc = acc"
| "prepare_rows K active t (r # rs) (updates, p, n) =
     (let (vals, failed, n') = reencrypt_columns K active r (columns t) ([], rowsFailed p, n)
      in prepare_rows K active t rs
           (if vals = [] then updates else updates @ [(row_id r, vals)],
            p\<lparr>rowsScanned := rowsScanned p + 1, rowsFailed := failed, lastProcessedId := Some (row_id r)\<rparr>, n'))"

fun write_updates :: "'s store_ops \<Rightarrow> rotation_target \<Rightarrow> row_update list \<Rightarrow> stored_progress \<Rightarrow> 's
    \<Rightarrow> stored_progress outcome \<times> 's" where
  "write_updates S t [] p s = (Inr p, saveProgress S p s)"
| "write_updates S t ((i, vals) # us) p s =
     (case updateRow S t i vals s of
        (Inl e, s') \<Rightarrow> (Inl e, s')
      | (Inr _, s') \<Rightarrow> write_updates S t us (p\<lparr>rowsReencrypted := rowsReencrypted p + 1\<rparr>) s')"

text \<open>The batch and its checkpoint in one transaction.\<close>

definition commit_batch :: "'s store_ops \<Rightarrow> rotation_target \<Rightarrow> row_update list \<Rightarrow> stored_progress \<Rightarrow> 's
    \<Rightarrow> stored_progress outcome \<times> 's" where
  "commit_batch S t updates p = store_transaction S (write_updates S t updates p)"

subsection \<open>The loop\<close>

definition finish :: "stored_progress \<Rightarrow> nat \<Rightarrow> rotation_result" where
  "finish p batches = \<lparr>progress_of = p\<lparr>rstatus := RCompleted\<rparr>, batchesRun = batches, done_of = True\<rparr>"

definition abort_message :: "rotation_target \<Rightarrow> nat \<Rightarrow> nat \<Rightarrow> string" where
  "abort_message t failed tolerated = ''[rotate:'' @ table t @ ''] aborting: '' @ show_nat failed
     @ '' row(s) failed to decrypt (maxFailures='' @ show_nat tolerated @ '')''"

partial_function (option) rotate_loop :: "'s store_ops \<Rightarrow> crypto \<Rightarrow> rotation_options \<Rightarrow> nat \<Rightarrow> rotation_target
    \<Rightarrow> stored_progress \<Rightarrow> nat \<Rightarrow> nat \<Rightarrow> 's \<Rightarrow> (rotation_result outcome \<times> nat \<times> 's) option" where
  "rotate_loop S K opts active t p batches n s =
     (if (case maxBatches opts of None \<Rightarrow> False | Some m \<Rightarrow> m \<le> batches)
      then Some (Inr \<lparr>progress_of = p, batchesRun = batches, done_of = False\<rparr>, n, saveProgress S p s)
      else let rows = fetchBatch S t (lastProcessedId p) (batchSize opts) s in
        if rows = [] then Some (Inr (finish p batches), n, saveProgress S (p\<lparr>rstatus := RCompleted\<rparr>) s)
        else let (updates, p', n') = prepare_rows K active t rows ([], p, n) in
          case commit_batch S t updates p' s of
            (Inl e, s') \<Rightarrow> Some (Inl e, n', s')
          | (Inr p'', s') \<Rightarrow>
              if maxFailures opts < rowsFailed p''
              then Some (Inl (JsError (abort_message t (rowsFailed p'') (maxFailures opts))), n',
                         saveProgress S (p''\<lparr>rstatus := RFailed\<rparr>) s')
              else if length rows < batchSize opts
              then Some (Inr (finish p'' (batches + 1)), n', saveProgress S (p''\<lparr>rstatus := RCompleted\<rparr>) s')
              else rotate_loop S K opts active t p'' (batches + 1) n' s')"

definition fresh_progress :: "rotation_target \<Rightarrow> nat \<Rightarrow> stored_progress" where
  "fresh_progress t active = \<lparr>targetTable = table t, targetKeyVersion = active, lastProcessedId = None,
     rowsScanned = 0, rowsReencrypted = 0, rowsFailed = 0, rstatus = RRunning\<rparr>"

definition start_progress :: "rotation_target \<Rightarrow> nat \<Rightarrow> stored_progress option \<Rightarrow> stored_progress" where
  "start_progress t active loaded = (case loaded of
     None \<Rightarrow> fresh_progress t active
   | Some l \<Rightarrow> if targetKeyVersion l = active then l\<lparr>rstatus := RRunning\<rparr> else fresh_progress t active)"

definition rotateTarget :: "'s store_ops \<Rightarrow> crypto \<Rightarrow> rotation_options \<Rightarrow> rotation_target \<Rightarrow> nat \<Rightarrow> 's
    \<Rightarrow> (rotation_result outcome \<times> nat \<times> 's) option" where
  "rotateTarget S K opts t n s =
     (case getActiveKeyVersion (registry K) of
        Inl e \<Rightarrow> Some (Inl e, n, s)
      | Inr None \<Rightarrow> Some (Inl (JsError (''Key rotation requires versioned encryption. Set DB_FIELD_ENCRYPTION_KEY_VERSION ''
          @ ''(and keep the old key as DB_FIELD_ENCRYPTION_KEY_PREVIOUS) before running rotation.'')), n, s)
      | Inr (Some active) \<Rightarrow>
          (let loaded = loadProgress S (table t) s; p = start_progress t active loaded in
           if (case loaded of None \<Rightarrow> False | Some l \<Rightarrow> targetKeyVersion l = active \<and> rstatus l = RCompleted)
           then Some (Inr \<lparr>progress_of = the loaded, batchesRun = 0, done_of = True\<rparr>, n, s)
           else rotate_loop S K opts active t p 0 n (saveProgress S p s)))"

subsection \<open>The PostgreSQL store\<close>

text \<open>Tables in heap order, the progress rows, and the rows on which the database refuses an UPDATE.\<close>

record pg =
  pg_tables :: "string \<Rightarrow> rotation_row list"
  pg_progress :: "string \<rightharpoonup> stored_progress"
  pg_refuses :: "string \<Rightarrow> string \<Rightarrow> bool"

definition pg_loadProgress :: "string \<Rightarrow> pg \<Rightarrow> stored_progress option" where
  "pg_loadProgress tb s = pg_progress s tb"

definition pg_saveProgress :: "stored_progress \<Rightarrow> pg \<Rightarrow> pg" where
  "pg_saveProgress p s = s\<lparr>pg_progress := (pg_progress s)(targetTable p \<mapsto> p)\<rparr>"

definition after :: "string option \<Rightarrow> string \<Rightarrow> bool" where
  "after a i = (case a of None \<Rightarrow> True | Some j \<Rightarrow> j < i)"

definition pg_fetchBatch :: "rotation_target \<Rightarrow> string option \<Rightarrow> nat \<Rightarrow> pg \<Rightarrow> rotation_row list" where
  "pg_fetchBatch t a limit s = take limit (sort_key row_id (filter (\<lambda>r. after a (row_id r)) (pg_tables s (table t))))"

definition set_columns :: "(string \<times> string) list \<Rightarrow> rotation_row \<Rightarrow> rotation_row" where
  "set_columns vals r = r\<lparr>row_cols := row_cols r ++ map_of vals\<rparr>"

definition pg_updateRow :: "rotation_target \<Rightarrow> string \<Rightarrow> (string \<times> string) list \<Rightarrow> pg \<Rightarrow> unit outcome \<times> pg" where
  "pg_updateRow t i vals s =
     (if pg_refuses s (table t) i then (Inl (JsError ''query failed''), s)
      else (Inr (), s\<lparr>pg_tables := (pg_tables s)(table t :=
              map (\<lambda>r. if row_id r = i then set_columns vals r else r) (pg_tables s (table t)))\<rparr>))"

definition pg_transaction :: "(pg \<Rightarrow> 'a outcome \<times> pg) \<Rightarrow> pg \<Rightarrow> 'a outcome \<times> pg" where
  "pg_transaction fn s = (case fn s of (Inr x, s') \<Rightarrow> (Inr x, s') | (Inl e, _) \<Rightarrow> (Inl e, s))"

definition pg_store :: "pg store_ops" where
  "pg_store = \<lparr>loadProgress = pg_loadProgress, saveProgress = pg_saveProgress, fetchBatch = pg_fetchBatch,
     updateRow = pg_updateRow, store_transaction = pg_transaction\<rparr>"

text \<open>\<open>DEFAULT_ROTATION_TARGETS\<close> and the run of the script over the selected ones.\<close>

definition default_targets :: "rotation_target list" where
  "default_targets = [\<lparr>table = ''users'', columns = [''email'', ''twoFactorSecret'']\<rparr>,
                      \<lparr>table = ''kyc_documents'', columns = [''documentNumber'']\<rparr>]"

definition selectedTargets :: "string list \<Rightarrow> rotation_target list" where
  "selectedTargets wanted = (if wanted = [] then default_targets else filter (\<lambda>t. table t \<in> set wanted) default_targets)"

fun rotate_all :: "'s store_ops \<Rightarrow> crypto \<Rightarrow> rotation_options \<Rightarrow> rotation_target list \<Rightarrow> bool \<Rightarrow> nat \<Rightarrow> 's
    \<Rightarrow> (bool outcome \<times> nat \<times> 's) option" where
  "rotate_all S K opts [] hadFailures n s = Some (Inr hadFailures, n, s)"
| "rotate_all S K opts (t # ts) hadFailures n s =
     (case rotateTarget S K opts t n s of
        None \<Rightarrow> None
      | Some (Inl e, n', s') \<Rightarrow> Some (Inl e, n', s')
      | Some (Inr res, n', s') \<Rightarrow> rotate_all S K opts ts (hadFailures \<or> rowsFailed (progress_of res) > 0) n' s')"

subsection \<open>What one batch does to a row\<close>

text \<open>What the application reads in a column, and the columns a rotation still has to do.\<close>

definition reads :: "crypto \<Rightarrow> rotation_row \<Rightarrow> string \<Rightarrow> string option" where
  "reads K r c = transformer_from (cipher K) (registry K) (row_cols r c)"

definition pending :: "nat \<Rightarrow> rotation_row \<Rightarrow> string \<Rightarrow> bool" where
  "pending active r c = (case row_cols r c of None \<Rightarrow> False
     | Some v \<Rightarrow> v \<noteq> [] \<and> getCiphertextKeyVersion v \<noteq> Some active)"

definition unreadable :: "crypto \<Rightarrow> rotation_row \<Rightarrow> string \<Rightarrow> bool" where
  "unreadable K r c = (case row_cols r c of None \<Rightarrow> False | Some v \<Rightarrow> \<not> is_ok (decrypt (cipher K) (registry K) v))"

definition failing :: "crypto \<Rightarrow> nat \<Rightarrow> string list \<Rightarrow> rotation_row \<Rightarrow> nat" where
  "failing K active cols r = length (filter (\<lambda>c. pending active r c \<and> unreadable K r c) cols)"

text \<open>The configuration of a run: versioned keys, a lawful cipher, IVs of 12 bytes.\<close>

definition crypto_ok :: "crypto \<Rightarrow> nat \<Rightarrow> bool" where
  "crypto_ok K active \<longleftrightarrow> gcm_laws (cipher K) \<and> (\<forall>n. length (fresh K n) = 12)
     \<and> (\<exists>reg. registry K = Inr reg \<and> registry_wf reg \<and> reg_mode reg = Versioned \<and> activeVersion reg = active)"

lemma crypto_ok_encrypt:
  assumes "crypto_ok K active"
  shows "\<exists>s. encrypt (cipher K) (registry K) (fresh K n) p = Inr s \<and> decrypt (cipher K) (registry K) s = Inr p
    \<and> getCiphertextKeyVersion s = Some active"
proof -
  from assms obtain reg where "registry K = Inr reg" "registry_wf reg" "reg_mode reg = Versioned" "activeVersion reg = active"
      "gcm_laws (cipher K)" "length (fresh K n) = 12"
    by (auto simp: crypto_ok_def)
  with decrypt_encrypt_registry [of reg "cipher K" "fresh K n" p] show ?thesis by auto
qed

definition good_values :: "crypto \<Rightarrow> nat \<Rightarrow> string list \<Rightarrow> rotation_row \<Rightarrow> (string \<times> string) list \<Rightarrow> bool" where
  "good_values K active cols r vals \<longleftrightarrow> (\<forall>c s. map_of vals c = Some s \<longrightarrow>
     c \<in> set cols \<and> pending active r c \<and> getCiphertextKeyVersion s = Some active
     \<and> transformer_from (cipher K) (registry K) (Some s) = reads K r c)"

lemma failing_simps [simp]:
  "failing K active [] r = 0"
  "failing K active (c # cols) r = (if pending active r c \<and> unreadable K r c then 1 else 0) + failing K active cols r"
  by (simp_all add: failing_def)

lemma reencrypt_columns_spec:
  assumes ok: "crypto_ok K active"
    and run: "reencrypt_columns K active r cols (vals, failed, n) = (vals', failed', n')"
    and good: "good_values K active all r vals" and sub: "set cols \<subseteq> set all"
  shows "good_values K active all r vals' \<and> failed' = failed + failing K active cols r
    \<and> dom (map_of vals') = dom (map_of vals) \<union> {c \<in> set cols. pending active r c \<and> \<not> unreadable K r c}"
  using run good sub
proof (induction cols arbitrary: vals failed n)
  case (Cons c cols)
  show ?case
  proof (cases "pending active r c")
    case False
    then have "reencrypt_columns K active r cols (vals, failed, n) = (vals', failed', n')"
      using Cons.prems(1) by (auto simp: pending_def split: option.splits if_splits)
    from Cons.IH [OF this Cons.prems(2)] Cons.prems(3) False show ?thesis by auto
  next
    case True
    then obtain v where v: "row_cols r c = Some v" "v \<noteq> []" "getCiphertextKeyVersion v \<noteq> Some active"
      by (auto simp: pending_def split: option.splits)
    show ?thesis
    proof (cases "decrypt (cipher K) (registry K) v")
      case (Inl e)
      then have rest: "reencrypt_columns K active r cols (vals, failed + 1, n) = (vals', failed', n')" and "unreadable K r c"
        using Cons.prems(1) v by (simp_all add: unreadable_def)
      with Cons.IH [OF rest Cons.prems(2)] Cons.prems(3) True show ?thesis by auto
    next
      case (Inr p)
      from crypto_ok_encrypt [OF ok] obtain s where
        s: "encrypt (cipher K) (registry K) (fresh K n) p = Inr s" "decrypt (cipher K) (registry K) s = Inr p"
          "getCiphertextKeyVersion s = Some active" by blast
      have rest: "reencrypt_columns K active r cols (AList.update c s vals, failed, n + 1) = (vals', failed', n')"
        and readable: "\<not> unreadable K r c"
        using Cons.prems(1) v Inr s by (simp_all add: unreadable_def)
      have "good_values K active all r (AList.update c s vals)"
        using Cons.prems(2,3) True v Inr s
        by (auto simp: good_values_def update_conv' reads_def transformer_from_def)
      moreover have "dom (map_of (AList.update c s vals)) = insert c (dom (map_of vals))"
        by (simp add: update_conv')
      ultimately show ?thesis using Cons.IH [OF rest] Cons.prems(3) True readable by auto
    qed
  qed
qed simp

text \<open>How a row may change: what it reads stays, and only pending columns of the target are written.\<close>

definition rerow :: "crypto \<Rightarrow> nat \<Rightarrow> string list \<Rightarrow> rotation_row \<Rightarrow> rotation_row \<Rightarrow> bool" where
  "rerow K active cols r r' \<longleftrightarrow> row_id r' = row_id r \<and> (\<forall>c. reads K r' c = reads K r c)
     \<and> (\<forall>c. row_cols r' c \<noteq> row_cols r c \<longrightarrow> c \<in> set cols \<and> pending active r c \<and> \<not> pending active r' c)"

definition clean :: "nat \<Rightarrow> string list \<Rightarrow> rotation_row \<Rightarrow> bool" where
  "clean active cols r \<longleftrightarrow> (\<forall>c \<in> set cols. \<not> pending active r c)"

lemma rerow_refl [simp]: "rerow K active cols r r"
  by (simp add: rerow_def)

lemma rerow_row_id: "rerow K active cols r r' \<Longrightarrow> row_id r' = row_id r"
  by (simp add: rerow_def)

lemma pending_cong: "row_cols r' c = row_cols r c \<Longrightarrow> pending active r' c = pending active r c"
  by (simp add: pending_def)

lemma rerow_trans: "rerow K active cols r r' \<Longrightarrow> rerow K active cols r' r'' \<Longrightarrow> rerow K active cols r r''"
  unfolding rerow_def by (metis pending_cong)

lemma rerow_clean: "rerow K active cols r r' \<Longrightarrow> clean active cols r \<Longrightarrow> r' = r"
  unfolding rerow_def clean_def by (metis (full_types) rotation_row.equality ext old.unit.exhaust)

lemma set_columns_rerow:
  assumes "good_values K active cols r vals"
  shows "rerow K active cols r (set_columns vals r)"
proof -
  have "reads K (set_columns vals r) c = reads K r c \<and>
      (row_cols (set_columns vals r) c \<noteq> row_cols r c \<longrightarrow>
        c \<in> set cols \<and> pending active r c \<and> \<not> pending active (set_columns vals r) c)" for c
    using assms by (cases "map_of vals c")
      (auto simp: good_values_def set_columns_def reads_def pending_def map_add_def)
  then show ?thesis by (simp add: rerow_def set_columns_def)
qed

lemma failing_0: "failing K active cols r = 0 \<Longrightarrow> c \<in> set cols \<Longrightarrow> pending active r c \<Longrightarrow> \<not> unreadable K r c"
  by (induction cols) (auto split: if_splits)

lemma set_columns_done:
  assumes "good_values K active cols r vals"
    and "dom (map_of vals) = {c \<in> set cols. pending active r c \<and> \<not> unreadable K r c}"
    and c: "c \<in> set cols" "\<not> (pending active r c \<and> unreadable K r c)"
  shows "\<not> pending active (set_columns vals r) c"
proof (cases "map_of vals c")
  case None
  with assms(2) c have np: "\<not> pending active r c" by blast
  have "row_cols (set_columns vals r) c = row_cols r c" using None by (simp add: set_columns_def map_add_def)
  from pending_cong [OF this, of active] np show ?thesis by simp
next
  case (Some v)
  with assms(1) have "getCiphertextKeyVersion v = Some active" by (auto simp: good_values_def)
  with Some show ?thesis by (simp add: pending_def set_columns_def map_add_def)
qed

text \<open>The updates of a batch, applied to one row.\<close>

fun apply_updates :: "row_update list \<Rightarrow> rotation_row \<Rightarrow> rotation_row" where
  "apply_updates [] r = r"
| "apply_updates ((i, vals) # us) r = apply_updates us (if row_id r = i then set_columns vals r else r)"

lemma row_id_set_columns [simp]: "row_id (set_columns vals r) = row_id r"
  by (simp add: set_columns_def)

lemma row_id_apply_updates [simp]: "row_id (apply_updates us r) = row_id r"
  by (induction us r rule: apply_updates.induct) auto

lemma apply_updates_other: "row_id r \<notin> fst ` set us \<Longrightarrow> apply_updates us r = r"
  by (induction us r rule: apply_updates.induct) auto

definition scanned :: "crypto \<Rightarrow> nat \<Rightarrow> rotation_target \<Rightarrow> rotation_row list \<Rightarrow> stored_progress \<Rightarrow> stored_progress" where
  "scanned K active t rs p = p\<lparr>rowsScanned := rowsScanned p + length rs,
     rowsFailed := rowsFailed p + sum_list (map (failing K active (columns t)) rs),
     lastProcessedId := (if rs = [] then lastProcessedId p else Some (row_id (last rs)))\<rparr>"

lemma prepare_rows_spec:
  assumes ok: "crypto_ok K active"
    and run: "prepare_rows K active t rs (us0, p, n) = (us, p', n')" and d: "distinct (map row_id rs)"
  shows "\<exists>us1. us = us0 @ us1 \<and> fst ` set us1 \<subseteq> row_id ` set rs \<and> distinct (map fst us1) \<and> p' = scanned K active t rs p
    \<and> (\<forall>r \<in> set rs. rerow K active (columns t) r (apply_updates us1 r)
         \<and> (\<forall>c \<in> set (columns t). \<not> (pending active r c \<and> unreadable K r c) \<longrightarrow> \<not> pending active (apply_updates us1 r) c))"
  using run d
proof (induction rs arbitrary: us0 p n)
  case Nil
  then show ?case by (simp add: scanned_def)
next
  case (Cons r rs)
  obtain vals failed n1 where c: "reencrypt_columns K active r (columns t) ([], rowsFailed p, n) = (vals, failed, n1)"
    by (metis prod_cases3)
  have "good_values K active (columns t) r []" by (simp add: good_values_def)
  from reencrypt_columns_spec [OF ok c this]
  have good: "good_values K active (columns t) r vals"
    and failed: "failed = rowsFailed p + failing K active (columns t) r"
    and dm: "dom (map_of vals) = {c \<in> set (columns t). pending active r c \<and> \<not> unreadable K r c}" by simp_all
  let ?q = "p\<lparr>rowsScanned := rowsScanned p + 1, rowsFailed := failed, lastProcessedId := Some (row_id r)\<rparr>"
  let ?us = "if vals = [] then us0 else us0 @ [(row_id r, vals)]"
  have rest: "prepare_rows K active t rs (?us, ?q, n1) = (us, p', n')"
    using Cons.prems(1) c by simp
  from Cons.IH [OF rest] Cons.prems(2) obtain us1 where us1: "us = ?us @ us1" "fst ` set us1 \<subseteq> row_id ` set rs"
      "p' = scanned K active t rs ?q"
      "\<forall>x \<in> set rs. rerow K active (columns t) x (apply_updates us1 x)
         \<and> (\<forall>c \<in> set (columns t). \<not> (pending active x c \<and> unreadable K x c) \<longrightarrow> \<not> pending active (apply_updates us1 x) c)"
      "distinct (map fst us1)"
    by auto
  let ?us1 = "(if vals = [] then [] else [(row_id r, vals)]) @ us1"
  have new: "row_id r \<notin> fst ` set us1" using us1(2) Cons.prems(2) by auto
  have empty: "set_columns [] x = x" for x by (simp add: set_columns_def)
  have here: "apply_updates ?us1 r = set_columns vals r"
    using new by (auto simp: apply_updates_other empty)
  have other: "apply_updates ?us1 x = apply_updates us1 x" if "x \<in> set rs" for x
    using that Cons.prems(2) by (auto simp: image_iff)
  have "p' = scanned K active t (r # rs) p"
    using us1(3) failed by (simp add: scanned_def)
  moreover have "rerow K active (columns t) r (apply_updates ?us1 r)"
    "\<forall>c \<in> set (columns t). \<not> (pending active r c \<and> unreadable K r c) \<longrightarrow> \<not> pending active (apply_updates ?us1 r) c"
    unfolding here using set_columns_rerow [OF good] set_columns_done [OF good dm] by blast+
  moreover have "\<forall>x \<in> set rs. rerow K active (columns t) x (apply_updates ?us1 x)
      \<and> (\<forall>c \<in> set (columns t). \<not> (pending active x c \<and> unreadable K x c) \<longrightarrow> \<not> pending active (apply_updates ?us1 x) c)"
    using us1(4) other by simp
  moreover have "us = us0 @ ?us1" "fst ` set ?us1 \<subseteq> row_id ` set (r # rs)" "distinct (map fst ?us1)"
    using us1(1,2,5) new by auto
  ultimately show ?case by (intro exI [of _ ?us1]) simp
qed

subsection \<open>What a run does to the rows of a table\<close>

lemma batch_split:
  assumes sorted: "sorted_wrt (<) (map row_id xs)"
    and rs: "rs = take k (filter (\<lambda>r. after a (row_id r)) xs)" "rs \<noteq> []"
  shows "filter (\<lambda>r. after (Some (row_id (last rs))) (row_id r)) xs = drop k (filter (\<lambda>r. after a (row_id r)) xs)"
    and "\<And>r. r \<in> set xs \<Longrightarrow> r \<in> set rs \<longleftrightarrow> after a (row_id r) \<and> \<not> after (Some (row_id (last rs))) (row_id r)"
    and "\<And>i. after (Some (row_id (last rs))) i \<Longrightarrow> after a i"
proof -
  let ?ys = "filter (\<lambda>r. after a (row_id r)) xs" and ?l = "row_id (last rs)"
  have ys: "?ys = rs @ drop k ?ys" by (simp add: rs(1))
  have "sorted_wrt (\<lambda>x y. row_id x < row_id y) ?ys"
    using sorted by (simp add: sorted_wrt_map sorted_wrt_filter)
  then have s: "sorted_wrt (\<lambda>x y. row_id x < row_id y) (rs @ drop k ?ys)" using ys by metis
  have "last rs \<in> set ?ys" using rs(2) ys by (metis Un_iff last_in_set set_append)
  then have al: "after a ?l" by simp
  then show up: "\<And>i. after (Some ?l) i \<Longrightarrow> after a i"
    by (auto simp: after_def split: option.splits)
  have le: "\<not> after (Some ?l) (row_id r)" if "r \<in> set rs" for r
  proof -
    have "rs = butlast rs @ [last rs]" using rs(2) by simp
    with s that have "r = last rs \<or> row_id r < ?l"
      by (metis append_butlast_last_id in_set_butlastD rotate1.simps(2) set_ConsD set_rotate1 sorted_wrt_append list.set_intros(1))
    then show ?thesis by (auto simp: after_def)
  qed
  have gt: "after (Some ?l) (row_id r)" if "r \<in> set (drop k ?ys)" for r
    using s that rs(2) by (auto simp: sorted_wrt_append after_def)
  have "filter (\<lambda>r. after (Some ?l) (row_id r)) xs = filter (\<lambda>r. after (Some ?l) (row_id r)) ?ys"
    using up by (auto simp: filter_filter intro: filter_cong)
  also have "\<dots> = filter (\<lambda>r. after (Some ?l) (row_id r)) rs @ filter (\<lambda>r. after (Some ?l) (row_id r)) (drop k ?ys)"
    by (metis ys filter_append)
  also have "\<dots> = drop k ?ys" using le gt by (simp add: filter_empty_conv filter_id_conv)
  finally show "filter (\<lambda>r. after (Some ?l) (row_id r)) xs = drop k ?ys" .
  show "r \<in> set rs \<longleftrightarrow> after a (row_id r) \<and> \<not> after (Some ?l) (row_id r)" if "r \<in> set xs" for r
  proof -
    have "after a (row_id r) \<longleftrightarrow> r \<in> set rs \<or> r \<in> set (drop k ?ys)"
      using that ys by (metis (no_types, lifting) Un_iff mem_Collect_eq set_append set_filter)
    then show ?thesis using le gt by blast
  qed
qed

text \<open>
  The progress moves on: reads stay, rows behind the checkpoint are not touched, and when no failure
  is counted every row passed is clean.
\<close>

definition advance :: "crypto \<Rightarrow> nat \<Rightarrow> string list \<Rightarrow> stored_progress \<Rightarrow> rotation_row list \<Rightarrow> stored_progress
    \<Rightarrow> rotation_row list \<Rightarrow> bool" where
  "advance K active cols p xs p' xs' \<longleftrightarrow>
     list_all2 (\<lambda>r r'. rerow K active cols r r' \<and> (\<not> after (lastProcessedId p) (row_id r) \<longrightarrow> r' = r)) xs xs'
   \<and> rowsFailed p \<le> rowsFailed p'
   \<and> (\<forall>i. after (lastProcessedId p') i \<longrightarrow> after (lastProcessedId p) i)
   \<and> (rowsFailed p' = rowsFailed p \<longrightarrow> (\<forall>r' \<in> set xs'. after (lastProcessedId p) (row_id r')
        \<and> \<not> after (lastProcessedId p') (row_id r') \<longrightarrow> clean active cols r'))
   \<and> targetTable p' = targetTable p \<and> targetKeyVersion p' = targetKeyVersion p"

lemma advance_status [simp]:
  "advance K active cols p xs (p'\<lparr>rstatus := st\<rparr>) xs' = advance K active cols p xs p' xs'"
  "advance K active cols (p\<lparr>rstatus := st\<rparr>) xs p' xs' = advance K active cols p xs p' xs'"
  by (simp_all add: advance_def)

lemma advance_refl [simp]: "advance K active cols p xs p xs"
  by (auto simp: advance_def list_all2_same)

lemma list_all2_left: "list_all2 P xs ys \<Longrightarrow> x \<in> set xs \<Longrightarrow> \<exists>y \<in> set ys. P x y"
  by (metis in_set_conv_nth list_all2_conv_all_nth)

lemma list_all2_right: "list_all2 P xs ys \<Longrightarrow> y \<in> set ys \<Longrightarrow> \<exists>x \<in> set xs. P x y"
  by (metis in_set_conv_nth list_all2_conv_all_nth)

lemma advance_trans:
  assumes a: "advance K active cols p xs p1 xs1" and b: "advance K active cols p1 xs1 p2 xs2"
  shows "advance K active cols p xs p2 xs2"
proof -
  have up: "after (lastProcessedId p1) i \<Longrightarrow> after (lastProcessedId p) i" for i
    using a by (auto simp: advance_def)
  have l1: "list_all2 (\<lambda>r r'. rerow K active cols r r' \<and> (\<not> after (lastProcessedId p) (row_id r) \<longrightarrow> r' = r)) xs xs1"
    and l2: "list_all2 (\<lambda>r r'. rerow K active cols r r' \<and> (\<not> after (lastProcessedId p1) (row_id r) \<longrightarrow> r' = r)) xs1 xs2"
    using a b by (simp_all add: advance_def)
  have "list_all2 (\<lambda>r r'. rerow K active cols r r' \<and> (\<not> after (lastProcessedId p) (row_id r) \<longrightarrow> r' = r)) xs xs2"
    by (rule list_all2_trans [OF _ l1 l2]) (metis up rerow_trans rerow_row_id)
  moreover have "clean active cols r2"
    if failed: "rowsFailed p2 = rowsFailed p" and r2: "r2 \<in> set xs2" "after (lastProcessedId p) (row_id r2)"
      "\<not> after (lastProcessedId p2) (row_id r2)" for r2
  proof -
    have f: "rowsFailed p1 = rowsFailed p" "rowsFailed p2 = rowsFailed p1"
      using a b failed by (auto simp: advance_def)
    from list_all2_right [OF l2 r2(1)] obtain r1 where r1: "r1 \<in> set xs1" "row_id r2 = row_id r1"
      "\<not> after (lastProcessedId p1) (row_id r1) \<longrightarrow> r2 = r1" by (auto simp: rerow_def)
    show ?thesis
    proof (cases "after (lastProcessedId p1) (row_id r1)")
      case True
      with b f(2) r2 r1 show ?thesis by (auto simp: advance_def)
    next
      case False
      with a f(1) r1 r2(2) show ?thesis by (auto simp: advance_def)
    qed
  qed
  ultimately show ?thesis using a b by (auto simp: advance_def)
qed

text \<open>One committed batch.\<close>

lemma advance_batch:
  assumes ok: "crypto_ok K active" and sorted: "sorted_wrt (<) (map row_id xs)"
    and rs: "rs = take k (filter (\<lambda>r. after (lastProcessedId p) (row_id r)) xs)" "rs \<noteq> []"
    and run: "prepare_rows K active t rs ([], p, n) = (us, p', n')"
  shows "advance K active (columns t) p xs p' (map (apply_updates us) xs)"
proof -
  have "distinct (map row_id xs)" using sorted by (simp add: strict_sorted_iff)
  then have dx: "inj_on row_id (set xs)" and "distinct (map row_id rs)"
    by (simp_all add: distinct_map rs(1) inj_on_subset [OF _ subset_trans [OF set_take_subset filter_is_subset]])
  from prepare_rows_spec [OF ok run this(2)] have us: "fst ` set us \<subseteq> row_id ` set rs" "p' = scanned K active t rs p"
    and good: "\<forall>r \<in> set rs. rerow K active (columns t) r (apply_updates us r)
         \<and> (failing K active (columns t) r = 0 \<longrightarrow> clean active (columns t) (apply_updates us r))"
    using failing_0 [of K active "columns t"] unfolding clean_def by auto
  note split = batch_split [OF sorted rs]
  have sub: "set rs \<subseteq> set xs" using rs(1) by (auto dest: in_set_takeD)
  have other: "apply_updates us r = r" if "r \<in> set xs" "r \<notin> set rs" for r
    using that us(1) sub dx by (intro apply_updates_other) (auto simp: inj_on_def)
  have "list_all2 (\<lambda>r r'. rerow K active (columns t) r r' \<and> (\<not> after (lastProcessedId p) (row_id r) \<longrightarrow> r' = r))
      xs (map (apply_updates us) xs)"
    unfolding list_all2_map2 list_all2_same using good other split(2) by (metis rerow_refl)
  moreover have "clean active (columns t) (apply_updates us r)"
    if "sum_list (map (failing K active (columns t)) rs) = 0" "r \<in> set rs" for r
    using that good by simp
  ultimately show ?thesis
    using split(2,3) rs(2) by (auto simp: advance_def us(2) scanned_def)
qed

text \<open>
  A run from the stored progress \<open>p\<close> in \<open>s\<close> to \<open>p'\<close> in \<open>s'\<close>: other tables stay, the rows of the target
  advance, the progress the store holds is the one of the result, and a run that is done has passed
  every row.
\<close>

definition run_ok :: "'s store_ops \<Rightarrow> (string \<Rightarrow> 's \<Rightarrow> rotation_row list) \<Rightarrow> ('s \<Rightarrow> bool) \<Rightarrow> crypto \<Rightarrow> nat \<Rightarrow> nat \<Rightarrow> rotation_target
    \<Rightarrow> stored_progress \<Rightarrow> 's \<Rightarrow> rotation_result outcome \<Rightarrow> 's \<Rightarrow> stored_progress \<Rightarrow> bool" where
  "run_ok S rows ok_store K active k t p s res s' p' \<longleftrightarrow> ok_store s'
    \<and> (\<forall>tb. tb \<noteq> table t \<longrightarrow> rows tb s' = rows tb s \<and> loadProgress S tb s' = loadProgress S tb s)
    \<and> loadProgress S (table t) s' = Some p'
    \<and> advance K active (columns t) p (rows (table t) s) p' (rows (table t) s')
    \<and> (\<forall>r. res = Inr r \<longrightarrow> progress_of r = p' \<and> (done_of r \<longrightarrow> rstatus p' = RCompleted))
    \<and> (rstatus p \<noteq> RCompleted \<longrightarrow> rstatus p' = RCompleted \<longrightarrow> 0 < k \<longrightarrow>
        (\<forall>x \<in> set (rows (table t) s'). \<not> after (lastProcessedId p') (row_id x)))"

text \<open>A stored progress without failures: every row it has passed is at the active version.\<close>

definition checkpointed :: "'s store_ops \<Rightarrow> (string \<Rightarrow> 's \<Rightarrow> rotation_row list) \<Rightarrow> nat \<Rightarrow> rotation_target \<Rightarrow> 's \<Rightarrow> bool" where
  "checkpointed S rows active t s \<longleftrightarrow> (\<forall>p. loadProgress S (table t) s = Some p \<longrightarrow> targetKeyVersion p = active \<longrightarrow> rowsFailed p = 0 \<longrightarrow>
     (\<forall>r \<in> set (rows (table t) s). \<not> after (lastProcessedId p) (row_id r) \<or> rstatus p = RCompleted \<longrightarrow> clean active (columns t) r))"

subsection \<open>The contract of a store\<close>

text \<open>
  The rows of a table in key order, keyset pagination over them, a progress row per table, an UPDATE
  by key, and a transaction that undoes what a failing body wrote. \<open>calm\<close> says that the store refuses
  no UPDATE of the table.
\<close>

locale rotation_store =
  fixes S :: "'s store_ops"
    and rows :: "string \<Rightarrow> 's \<Rightarrow> rotation_row list"
    and inv :: "'s \<Rightarrow> bool"
    and calm :: "string \<Rightarrow> 's \<Rightarrow> bool"
  assumes rows_sorted: "inv s \<Longrightarrow> sorted_wrt (<) (map row_id (rows tb s))"
    and fetch: "inv s \<Longrightarrow> fetchBatch S t a k s = take k (filter (\<lambda>r. after a (row_id r)) (rows (table t) s))"
    and save_inv: "inv s \<Longrightarrow> inv (saveProgress S p s)"
    and save_rows: "rows tb (saveProgress S p s) = rows tb s"
    and save_load: "loadProgress S tb (saveProgress S p s) = (if tb = targetTable p then Some p else loadProgress S tb s)"
    and save_calm: "calm tb (saveProgress S p s) = calm tb s"
    and update_inv: "inv s \<Longrightarrow> updateRow S t i vals s = (Inr u, s') \<Longrightarrow> inv s'"
    and update_rows: "updateRow S t i vals s = (Inr u, s') \<Longrightarrow>
      rows tb s' = (if tb = table t then map (\<lambda>r. if row_id r = i then set_columns vals r else r) (rows tb s) else rows tb s)"
    and update_load: "updateRow S t i vals s = (Inr u, s') \<Longrightarrow> loadProgress S tb s' = loadProgress S tb s"
    and update_calm: "updateRow S t i vals s = (Inr u, s') \<Longrightarrow> calm tb s' = calm tb s"
    and calm_update: "calm (table t) s \<Longrightarrow> \<exists>s'. updateRow S t i vals s = (Inr (), s')"
    and load_table: "inv s \<Longrightarrow> loadProgress S tb s = Some p \<Longrightarrow> targetTable p = tb"
    and undo: "store_transaction S body s = (case body s of (Inl e, _) \<Rightarrow> (Inl e, s) | (Inr x, s') \<Rightarrow> (Inr x, s'))"
begin

lemma write_updates_spec:
  "write_updates S t us p s = (Inr p', s') \<Longrightarrow> inv s \<Longrightarrow>
     inv s' \<and> p' = p\<lparr>rowsReencrypted := rowsReencrypted p + length us\<rparr>
   \<and> (\<forall>tb. rows tb s' = (if tb = table t then map (apply_updates us) (rows tb s) else rows tb s))
   \<and> (\<forall>tb. loadProgress S tb s' = (if tb = targetTable p then Some p' else loadProgress S tb s))
   \<and> (\<forall>tb. calm tb s' = calm tb s)"
proof (induction us arbitrary: p s)
  case Nil
  have "map (apply_updates []) xs = xs" for xs by (simp add: map_idI)
  with Nil show ?case by (auto simp: save_inv save_rows save_load save_calm)
next
  case (Cons u us)
  obtain i vals where u: "u = (i, vals)" by fastforce
  obtain s1 where up: "updateRow S t i vals s = (Inr (), s1)"
    and rest: "write_updates S t us (p\<lparr>rowsReencrypted := rowsReencrypted p + 1\<rparr>) s1 = (Inr p', s')"
    using Cons.prems(1) by (auto simp: u split: prod.splits sum.splits)
  from Cons.IH [OF rest update_inv [OF Cons.prems(2) up]] show ?case
    by (auto simp: u update_rows [OF up] update_load [OF up] update_calm [OF up])
qed

lemma write_updates_calm:
  "calm (table t) s \<Longrightarrow> \<exists>p' s'. write_updates S t us p s = (Inr p', s')"
proof (induction us arbitrary: p s)
  case (Cons u us)
  obtain i vals where u: "u = (i, vals)" by fastforce
  obtain s1 where up: "updateRow S t i vals s = (Inr (), s1)" using calm_update [OF Cons.prems] by blast
  with Cons show ?case by (simp add: u update_calm [OF up])
qed simp

lemma commit_spec:
  assumes "commit_batch S t us p s = (x, s')" and "inv s"
  shows "(case x of Inl e \<Rightarrow> s' = s
     | Inr p' \<Rightarrow> inv s' \<and> p' = p\<lparr>rowsReencrypted := rowsReencrypted p + length us\<rparr>
   \<and> (\<forall>tb. rows tb s' = (if tb = table t then map (apply_updates us) (rows tb s) else rows tb s))
   \<and> (\<forall>tb. loadProgress S tb s' = (if tb = targetTable p then Some p' else loadProgress S tb s))
   \<and> (\<forall>tb. calm tb s' = calm tb s))"
proof (cases "write_updates S t us p s")
  case (Pair y s1)
  show ?thesis
  proof (cases y)
    case (Inr p')
    with Pair assms(1) have xs: "x = Inr p'" "s' = s1" by (simp_all add: commit_batch_def undo)
    from Pair Inr have "write_updates S t us p s = (Inr p', s1)" by simp
    from write_updates_spec [OF this assms(2)] xs show ?thesis by simp
  next
    case (Inl e)
    with Pair assms(1) have "x = Inl e" "s' = s" by (auto simp: commit_batch_def undo)
    then show ?thesis by simp
  qed
qed

text \<open>A batch that is fetched, re-encrypted and committed.\<close>

lemma round_spec:
  assumes ok: "crypto_ok K active" and inv: "inv s" and tt: "targetTable p = table t"
    and rs: "rs = fetchBatch S t (lastProcessedId p) k s" "rs \<noteq> []"
    and prep: "prepare_rows K active t rs ([], p, n) = (us, p1, n')"
    and com: "commit_batch S t us p1 s = (Inr p2, s')"
  shows "inv s'" "targetTable p2 = table t" "loadProgress S (table t) s' = Some p2"
    and "tb \<noteq> table t \<Longrightarrow> rows tb s' = rows tb s \<and> loadProgress S tb s' = loadProgress S tb s"
    and "calm tb s' = calm tb s"
    and "advance K active (columns t) p (rows (table t) s) p2 (rows (table t) s')"
    and "length (filter (\<lambda>r. after (lastProcessedId p2) (row_id r)) (rows (table t) s'))
       = length (filter (\<lambda>r. after (lastProcessedId p) (row_id r)) (rows (table t) s)) - k"
    and "length rs = min k (length (filter (\<lambda>r. after (lastProcessedId p) (row_id r)) (rows (table t) s)))"
    and "rowsScanned p2 = rowsScanned p + length rs" and "rstatus p2 = rstatus p"
    and "\<forall>r \<in> set (rows (table t) s). failing K active (columns t) r = 0 \<Longrightarrow>
      rowsFailed p2 = rowsFailed p \<and> (\<forall>r \<in> set (rows (table t) s'). failing K active (columns t) r = 0)"
proof -
  let ?xs = "rows (table t) s"
  have take: "rs = take k (filter (\<lambda>r. after (lastProcessedId p) (row_id r)) ?xs)"
    using rs(1) by (simp add: fetch [OF inv])
  have sub: "set rs \<subseteq> set ?xs" using take by (auto dest: in_set_takeD)
  have d: "distinct (map row_id rs)"
    using rows_sorted [OF inv, of "table t"] unfolding take
    by (simp add: strict_sorted_iff distinct_map inj_on_subset [OF _ subset_trans [OF set_take_subset filter_is_subset]])
  from prepare_rows_spec [OF ok prep d] have p1: "p1 = scanned K active t rs p"
    and us: "fst ` set us \<subseteq> row_id ` set rs"
    and good: "\<forall>r \<in> set rs. failing K active (columns t) r = 0 \<longrightarrow> clean active (columns t) (apply_updates us r)"
    using failing_0 [of K active "columns t"] unfolding clean_def by auto
  from commit_spec [OF com inv] have c: "inv s'" "p2 = p1\<lparr>rowsReencrypted := rowsReencrypted p1 + length us\<rparr>"
    "\<And>tb. rows tb s' = (if tb = table t then map (apply_updates us) (rows tb s) else rows tb s)"
    "\<And>tb. loadProgress S tb s' = (if tb = targetTable p1 then Some p2 else loadProgress S tb s)"
    "\<And>tb. calm tb s' = calm tb s" by simp_all
  show "inv s'" "targetTable p2 = table t" "loadProgress S (table t) s' = Some p2" "calm tb s' = calm tb s"
    "tb \<noteq> table t \<Longrightarrow> rows tb s' = rows tb s \<and> loadProgress S tb s' = loadProgress S tb s"
    "rowsScanned p2 = rowsScanned p + length rs" "rstatus p2 = rstatus p"
    by (simp_all add: c p1 scanned_def tt)
  have "advance K active (columns t) p ?xs p1 (map (apply_updates us) ?xs)"
    by (rule advance_batch [OF ok rows_sorted [OF inv] take rs(2) prep])
  then show "advance K active (columns t) p ?xs p2 (rows (table t) s')"
    by (simp add: c advance_def)
  have l: "lastProcessedId p1 = Some (row_id (last rs))" by (simp add: p1 scanned_def rs(2))
  show "length (filter (\<lambda>r. after (lastProcessedId p2) (row_id r)) (rows (table t) s'))
       = length (filter (\<lambda>r. after (lastProcessedId p) (row_id r)) ?xs) - k"
    by (simp add: l c filter_map comp_def batch_split(1) [OF rows_sorted [OF inv] take rs(2)])
  show "length rs = min k (length (filter (\<lambda>r. after (lastProcessedId p) (row_id r)) ?xs))"
    using take by (simp add: min.commute)
  assume none: "\<forall>r \<in> set ?xs. failing K active (columns t) r = 0"
  have "sum_list (map (failing K active (columns t)) rs) = 0" using none sub by (auto simp: sum_list_eq_0_iff)
  moreover have "failing K active (columns t) (apply_updates us r) = 0" if "r \<in> set ?xs" for r
  proof (cases "row_id r \<in> fst ` set us")
    case True
    with us obtain r0 where "r0 \<in> set rs" "row_id r0 = row_id r" by force
    moreover have "inj_on row_id (set ?xs)" using rows_sorted [OF inv, of "table t"] by (simp add: strict_sorted_iff distinct_map)
    ultimately have "r \<in> set rs" using that sub by (metis inj_on_eq_iff subsetD)
    with good none that show ?thesis by (auto simp: failing_def clean_def filter_empty_conv)
  qed (use none that in \<open>simp add: apply_updates_other\<close>)
  ultimately show "rowsFailed p2 = rowsFailed p \<and> (\<forall>r \<in> set (rows (table t) s'). failing K active (columns t) r = 0)"
    by (auto simp: c p1 scanned_def)
qed

text \<open>A run that stops by saving its progress, and a run after one more batch.\<close>

lemma run_ok_save:
  assumes "inv s" "targetTable p = table t"
    and "\<And>r. res = Inr r \<Longrightarrow> progress_of r = p\<lparr>rstatus := st\<rparr> \<and> (done_of r \<longrightarrow> st = RCompleted)"
    and "rstatus p \<noteq> RCompleted \<Longrightarrow> st = RCompleted \<Longrightarrow> 0 < k \<Longrightarrow>
      filter (\<lambda>r. after (lastProcessedId p) (row_id r)) (rows (table t) s) = []"
  shows "run_ok S rows inv K active k t p s res (saveProgress S (p\<lparr>rstatus := st\<rparr>) s) (p\<lparr>rstatus := st\<rparr>)"
proof -
  let ?p = "p\<lparr>rstatus := st\<rparr>" and ?s = "saveProgress S (p\<lparr>rstatus := st\<rparr>) s"
  have "progress_of r = ?p \<and> (done_of r \<longrightarrow> rstatus ?p = RCompleted)" if "res = Inr r" for r
    using assms(3) [OF that] by simp
  moreover have "rstatus p \<noteq> RCompleted \<longrightarrow> rstatus ?p = RCompleted \<longrightarrow> 0 < k \<longrightarrow>
      (\<forall>x \<in> set (rows (table t) ?s). \<not> after (lastProcessedId ?p) (row_id x))"
    using assms(4) by (auto simp: save_rows filter_empty_conv)
  moreover have "advance K active (columns t) p (rows (table t) s) ?p (rows (table t) ?s)"
    by (simp add: save_rows)
  moreover have "loadProgress S (table t) ?s = Some ?p" "\<And>tb. tb \<noteq> table t \<Longrightarrow> loadProgress S tb ?s = loadProgress S tb s"
    by (simp_all add: save_load assms(2))
  ultimately show ?thesis
    unfolding run_ok_def using save_inv [OF assms(1)] save_rows by blast
qed

lemma run_ok_step:
  assumes "run_ok S rows inv K active k t p2 s1 res s' p'"
    and "\<And>tb. tb \<noteq> table t \<Longrightarrow> rows tb s1 = rows tb s \<and> loadProgress S tb s1 = loadProgress S tb s"
    and "advance K active (columns t) p (rows (table t) s) p2 (rows (table t) s1)" and st: "rstatus p2 = rstatus p"
  shows "run_ok S rows inv K active k t p s res s' p'"
proof -
  have "advance K active (columns t) p (rows (table t) s) p' (rows (table t) s')"
    using assms(1) by (intro advance_trans [OF assms(3)]) (simp add: run_ok_def)
  moreover have "\<And>tb. tb \<noteq> table t \<Longrightarrow> rows tb s' = rows tb s1 \<and> loadProgress S tb s' = loadProgress S tb s1"
    using assms(1) unfolding run_ok_def by blast
  with assms(2) have "\<And>tb. tb \<noteq> table t \<Longrightarrow> rows tb s' = rows tb s \<and> loadProgress S tb s' = loadProgress S tb s"
    by simp
  ultimately show ?thesis using assms(1) unfolding run_ok_def st by blast
qed

text \<open>
  The loop ends whatever the store holds and whichever UPDATEs it refuses; a run that reports that it
  is done has passed every row.
\<close>

lemma loop_spec:
  assumes "crypto_ok K active" "inv s" "targetTable p = table t" "loadProgress S (table t) s = Some p"
  shows "\<exists>res n' s' p'. rotate_loop S K opts active t p b n s = Some (res, n', s')
    \<and> run_ok S rows inv K active (batchSize opts) t p s res s' p'"
  using assms
proof (induction "length (filter (\<lambda>r. after (lastProcessedId p) (row_id r)) (rows (table t) s))" arbitrary: p b n s
    rule: less_induct)
  case less
  note ok = less.prems(1) and inv = less.prems(2) and tt = less.prems(3)
  let ?left = "filter (\<lambda>r. after (lastProcessedId p) (row_id r)) (rows (table t) s)"
  define rs where "rs = fetchBatch S t (lastProcessedId p) (batchSize opts) s"
  have take: "rs = take (batchSize opts) ?left" by (simp add: rs_def fetch [OF inv])
  note simps = rotate_loop.simps [of S K opts active t p b n s] rs_def [symmetric] Let_def
  show ?case
  proof (cases "(case maxBatches opts of None \<Rightarrow> False | Some m \<Rightarrow> m \<le> b) \<or> rs = []")
    case True
    have "run_ok S rows inv K active (batchSize opts) t p s (Inr \<lparr>progress_of = p, batchesRun = b, done_of = False\<rparr>) (saveProgress S p s) p"
      using run_ok_save [OF inv tt, where st = "rstatus p" and res = "Inr \<lparr>progress_of = p, batchesRun = b, done_of = False\<rparr>"] by simp
    moreover have "run_ok S rows inv K active (batchSize opts) t p s (Inr (finish p b))
        (saveProgress S (p\<lparr>rstatus := RCompleted\<rparr>) s) (p\<lparr>rstatus := RCompleted\<rparr>)" if "rs = []"
      using that take by (intro run_ok_save [OF inv tt]) (auto simp: finish_def)
    ultimately show ?thesis using True by (auto simp: simps)
  next
    case False
    obtain us p1 n1 where prep: "prepare_rows K active t rs ([], p, n) = (us, p1, n1)" by (metis prod_cases3)
    obtain x s1 where com: "commit_batch S t us p1 s = (x, s1)" by fastforce
    show ?thesis
    proof (cases x)
      case (Inl e)
      with commit_spec [OF com inv] less.prems have "run_ok S rows inv K active (batchSize opts) t p s (Inl e) s1 p"
        by (simp add: run_ok_def)
      with False Inl prep com show ?thesis by (auto simp: simps)
    next
      case (Inr p2)
      have ne: "rs \<noteq> []" using False by blast
      note r = round_spec [OF ok inv tt rs_def ne prep com [unfolded Inr]]
      note step = run_ok_step [OF _ r(4) r(6) r(10)]
      have "run_ok S rows inv K active (batchSize opts) t p s (Inl (JsError m)) (saveProgress S (p2\<lparr>rstatus := RFailed\<rparr>) s1) (p2\<lparr>rstatus := RFailed\<rparr>)" for m
        by (intro step run_ok_save [OF r(1,2)]) simp_all
      moreover have "run_ok S rows inv K active (batchSize opts) t p s (Inr (finish p2 (b + 1)))
          (saveProgress S (p2\<lparr>rstatus := RCompleted\<rparr>) s1) (p2\<lparr>rstatus := RCompleted\<rparr>)" if "length rs < batchSize opts"
        using that r(7,8) by (intro step run_ok_save [OF r(1,2)]) (auto simp: finish_def)
      moreover have "\<exists>res n' s' p'. rotate_loop S K opts active t p2 (b + 1) n1 s1 = Some (res, n', s')
          \<and> run_ok S rows inv K active (batchSize opts) t p s res s' p'"
      proof -
        have "length (filter (\<lambda>r. after (lastProcessedId p2) (row_id r)) (rows (table t) s1)) < length ?left"
          using r(7,8) ne by (cases rs) simp_all
        from less.hyps [OF this ok r(1,2,3), of "b + 1" n1] show ?thesis using step by blast
      qed
      ultimately show ?thesis using False Inr prep com by (auto simp: simps)
    qed
  qed
qed

text \<open>With every value readable and no UPDATE refused the loop passes all rows without a failure.\<close>

lemma loop_succeeds:
  assumes "crypto_ok K active" "inv s" "targetTable p = table t" "calm (table t) s"
    and "\<forall>r \<in> set (rows (table t) s). failing K active (columns t) r = 0" "rowsFailed p \<le> maxFailures opts"
    and "maxBatches opts = None" "0 < batchSize opts"
  shows "\<exists>r n' s'. rotate_loop S K opts active t p b n s = Some (Inr r, n', s') \<and> done_of r
    \<and> rowsFailed (progress_of r) = rowsFailed p
    \<and> rowsScanned (progress_of r) = rowsScanned p + length (filter (\<lambda>r. after (lastProcessedId p) (row_id r)) (rows (table t) s))"
  using assms
proof (induction "length (filter (\<lambda>r. after (lastProcessedId p) (row_id r)) (rows (table t) s))" arbitrary: p b n s
    rule: less_induct)
  case less
  let ?left = "filter (\<lambda>r. after (lastProcessedId p) (row_id r)) (rows (table t) s)"
  define rs where "rs = fetchBatch S t (lastProcessedId p) (batchSize opts) s"
  have take: "rs = take (batchSize opts) ?left" by (simp add: rs_def fetch [OF less.prems(2)])
  note simps = rotate_loop.simps [of S K opts active t p b n s] rs_def [symmetric] Let_def less.prems(7)
  show ?case
  proof (cases "rs = []")
    case True
    with take less.prems(8) have "?left = []" by simp
    with True show ?thesis by (simp add: simps finish_def)
  next
    case False
    obtain us p1 n1 where prep: "prepare_rows K active t rs ([], p, n) = (us, p1, n1)" by (metis prod_cases3)
    obtain p2 s1 where com: "commit_batch S t us p1 s = (Inr p2, s1)"
      using write_updates_calm [OF less.prems(4), of us p1] by (auto simp: commit_batch_def undo)
    note r = round_spec [OF less.prems(1,2,3) rs_def False prep com]
    have p2: "rowsFailed p2 = rowsFailed p" "\<forall>r \<in> set (rows (table t) s1). failing K active (columns t) r = 0"
      using r(11) [OF less.prems(5)] by blast+
    show ?thesis
    proof (cases "length rs < batchSize opts")
      case True
      then have "length rs = length ?left" using r(8) by simp
      with False prep com True p2 r(9) less.prems(6) show ?thesis by (simp add: simps finish_def)
    next
      case full: False
      have "length (filter (\<lambda>r. after (lastProcessedId p2) (row_id r)) (rows (table t) s1)) < length ?left"
        using r(7,8) False by (cases rs) simp_all
      from less.hyps [OF this less.prems(1) r(1,2) _ p2(2) _ less.prems(7,8), of "b + 1" n1] r(5,7,8,9) less.prems(4,6) p2 full
      show ?thesis using False prep com by (simp add: simps)
    qed
  qed
qed

text \<open>The whole operation: an early return, or the loop from the stored progress or from a fresh one.\<close>

lemma rotateTarget_spec:
  assumes ok: "crypto_ok K active" and inv: "inv s"
  shows "\<exists>res n' s'. rotateTarget S K opts t n s = Some (res, n', s') \<and>
    ((\<exists>l. loadProgress S (table t) s = Some l \<and> targetKeyVersion l = active \<and> rstatus l = RCompleted
        \<and> res = Inr \<lparr>progress_of = l, batchesRun = 0, done_of = True\<rparr> \<and> n' = n \<and> s' = s)
     \<or> (\<exists>p'. run_ok S rows inv K active (batchSize opts) t (start_progress t active (loadProgress S (table t) s)) s res s' p'))"
proof -
  from ok have act: "getActiveKeyVersion (registry K) = Inr (Some active)" by (auto simp: crypto_ok_def getActiveKeyVersion_def)
  let ?p = "start_progress t active (loadProgress S (table t) s)"
  have tt: "targetTable ?p = table t"
    using load_table [OF inv, of "table t"] by (simp add: start_progress_def fresh_progress_def split: option.splits)
  show ?thesis
  proof (cases "\<exists>l. loadProgress S (table t) s = Some l \<and> targetKeyVersion l = active \<and> rstatus l = RCompleted")
    case True
    then show ?thesis by (auto simp: rotateTarget_def act)
  next
    case False
    have "loadProgress S (table t) (saveProgress S ?p s) = Some ?p" by (simp add: save_load tt)
    from loop_spec [OF ok save_inv [OF inv] tt this, of opts 0 n] obtain res n' s' p'
      where run: "rotate_loop S K opts active t ?p 0 n (saveProgress S ?p s) = Some (res, n', s')"
        and ro: "run_ok S rows inv K active (batchSize opts) t ?p (saveProgress S ?p s) res s' p'" by blast
    have "run_ok S rows inv K active (batchSize opts) t ?p s res s' p'"
      by (rule run_ok_step [OF ro]) (simp_all add: save_rows save_load tt)
    moreover have "rotateTarget S K opts t n s = Some (res, n', s')"
      using False run by (auto simp: rotateTarget_def act Let_def split: option.splits)
    ultimately show ?thesis by blast
  qed
qed

text \<open>The checkpoint can be trusted, and every run keeps it so.\<close>

lemma rotateTarget_checkpointed:
  assumes ok: "crypto_ok K active" and inv: "inv s" and run: "rotateTarget S K opts t n s = Some (res, n', s')"
    and k: "0 < batchSize opts" and cp: "checkpointed S rows active t s"
  shows "checkpointed S rows active t s'"
proof -
  let ?p = "start_progress t active (loadProgress S (table t) s)"
  from rotateTarget_spec [OF ok inv, of opts t n] run consider "s' = s"
    | p' where "run_ok S rows inv K active (batchSize opts) t ?p s res s' p'" by auto
  then show ?thesis
  proof cases
    case 2
    then have load: "loadProgress S (table t) s' = Some p'"
      and adv: "advance K active (columns t) ?p (rows (table t) s) p' (rows (table t) s')"
      and all: "rstatus p' = RCompleted \<Longrightarrow> \<forall>x \<in> set (rows (table t) s'). \<not> after (lastProcessedId p') (row_id x)"
      using k by (auto simp: run_ok_def start_progress_def fresh_progress_def split: option.splits)
    have "clean active (columns t) r'" if f: "rowsFailed p' = 0" and r': "r' \<in> set (rows (table t) s')"
      and l: "\<not> after (lastProcessedId p') (row_id r')" for r'
    proof (cases "after (lastProcessedId ?p) (row_id r')")
      case True
      have "rowsFailed ?p \<le> rowsFailed p'" using adv unfolding advance_def by blast
      with f have "rowsFailed p' = rowsFailed ?p" by linarith
      with adv r' l True show ?thesis unfolding advance_def by blast
    next
      case False
      from adv have "list_all2 (\<lambda>r r'. rerow K active (columns t) r r' \<and> (\<not> after (lastProcessedId ?p) (row_id r) \<longrightarrow> r' = r))
          (rows (table t) s) (rows (table t) s')" by (simp add: advance_def)
      from list_all2_right [OF this r'] obtain r where r: "r \<in> set (rows (table t) s)" "row_id r' = row_id r"
          "\<not> after (lastProcessedId ?p) (row_id r) \<longrightarrow> r' = r" by (auto simp: rerow_def)
      from False obtain q where q: "loadProgress S (table t) s = Some q" "targetKeyVersion q = active" "?p = q\<lparr>rstatus := RRunning\<rparr>"
        by (auto simp: start_progress_def fresh_progress_def after_def split: option.splits if_splits)
      have "rowsFailed q = 0" using adv f by (simp add: advance_def q(3))
      with cp q r False show ?thesis by (auto simp: checkpointed_def)
    qed
    with load all show ?thesis by (auto simp: checkpointed_def)
  qed (use cp in simp)
qed

text \<open>Rows behind the checkpoint of a run towards the same version are not looked at again.\<close>

lemma rotateTarget_behind:
  assumes ok: "crypto_ok K active" and inv: "inv s" and run: "rotateTarget S K opts t n s = Some (res, n', s')"
    and load: "loadProgress S (table t) s = Some p" "targetKeyVersion p = active"
    and r: "r \<in> set (rows (table t) s)" "\<not> after (lastProcessedId p) (row_id r)"
  shows "r \<in> set (rows (table t) s')"
proof -
  let ?p = "start_progress t active (loadProgress S (table t) s)"
  have last: "lastProcessedId ?p = lastProcessedId p" by (simp add: start_progress_def load)
  from rotateTarget_spec [OF ok inv, of opts t n] run consider "s' = s"
    | p' where "run_ok S rows inv K active (batchSize opts) t ?p s res s' p'" by auto
  then show ?thesis
  proof cases
    case 2
    then have "list_all2 (\<lambda>r r'. rerow K active (columns t) r r' \<and> (\<not> after (lastProcessedId p) (row_id r) \<longrightarrow> r' = r))
        (rows (table t) s) (rows (table t) s')"
      by (simp add: run_ok_def advance_def last)
    from list_all2_left [OF this r(1)] r(2) show ?thesis by auto
  qed (use r in simp)
qed

lemma rotateTarget_keeps:
  assumes "crypto_ok K active" "inv s"
  shows "\<exists>res n' s'. rotateTarget S K opts t n s = Some (res, n', s') \<and> inv s'
    \<and> (\<forall>tb. tb \<noteq> table t \<longrightarrow> rows tb s' = rows tb s \<and> loadProgress S tb s' = loadProgress S tb s)
    \<and> list_all2 (rerow K active (columns t)) (rows (table t) s) (rows (table t) s')"
proof -
  have "list_all2 (rerow K active (columns t)) xs xs'" if "advance K active (columns t) p xs p' xs'" for p xs p' xs'
    using that unfolding advance_def by (auto elim: list_all2_mono)
  moreover have "list_all2 (rerow K active (columns t)) xs xs" for xs by (simp add: list_all2_same)
  ultimately show ?thesis
    using rotateTarget_spec [OF assms, of opts t n] assms(2) unfolding run_ok_def by blast
qed

lemma rotateTarget_done:
  assumes ok: "crypto_ok K active" and inv: "inv s" and run: "rotateTarget S K opts t n s = Some (Inr r, n', s')"
    and k: "0 < batchSize opts" and cp: "checkpointed S rows active t s"
    and d: "done_of r" "rowsFailed (progress_of r) = 0"
  shows "loadProgress S (table t) s' = Some (progress_of r)" and "targetKeyVersion (progress_of r) = active"
    and "rstatus (progress_of r) = RCompleted" and "\<forall>x \<in> set (rows (table t) s'). clean active (columns t) x"
proof -
  have v: "targetKeyVersion (start_progress t active l) = active" for l
    by (simp add: start_progress_def fresh_progress_def split: option.splits)
  have "loadProgress S (table t) s' = Some (progress_of r) \<and> targetKeyVersion (progress_of r) = active \<and> rstatus (progress_of r) = RCompleted"
    using rotateTarget_spec [OF ok inv, of opts t n] run d(1) by (auto simp: run_ok_def advance_def v)
  then show "loadProgress S (table t) s' = Some (progress_of r)" "targetKeyVersion (progress_of r) = active"
    "rstatus (progress_of r) = RCompleted" by auto
  with rotateTarget_checkpointed [OF ok inv run k cp] d(2)
  show "\<forall>x \<in> set (rows (table t) s'). clean active (columns t) x" by (simp add: checkpointed_def)
qed

end

subsection \<open>The PostgreSQL store keeps the contract\<close>

definition pg_rows :: "string \<Rightarrow> pg \<Rightarrow> rotation_row list" where
  "pg_rows tb s = sort_key row_id (pg_tables s tb)"

definition pg_ok :: "pg \<Rightarrow> bool" where
  "pg_ok s \<longleftrightarrow> (\<forall>tb. distinct (map row_id (pg_tables s tb))) \<and> (\<forall>tb p. pg_progress s tb = Some p \<longrightarrow> targetTable p = tb)"

definition pg_calm :: "string \<Rightarrow> pg \<Rightarrow> bool" where
  "pg_calm tb s \<longleftrightarrow> (\<forall>i. \<not> pg_refuses s tb i)"

interpretation pgs: rotation_store pg_store pg_rows pg_ok pg_calm
proof (unfold_locales, goal_cases)
  case (1 s tb)
  have "distinct (map row_id (sort_key row_id (pg_tables s tb)))"
    using 1 by (simp add: pg_ok_def distinct_map)
  then show ?case by (simp add: pg_rows_def strict_sorted_iff)
next
  case (2 s t a k)
  then show ?case by (simp add: pg_store_def pg_fetchBatch_def pg_rows_def filter_sort)
next
  case (7 s t i vals u s')
  then show ?case
    by (auto simp: pg_store_def pg_updateRow_def pg_ok_def comp_def if_distrib [of row_id] split: if_splits cong: if_cong)
next
  case (8 t i vals s u s' tb)
  have "row_id \<circ> (\<lambda>r. if row_id r = i then set_columns vals r else r) = row_id" by (auto simp: comp_def)
  from sort_key_map [of row_id "\<lambda>r. if row_id r = i then set_columns vals r else r", unfolded this] 8 show ?case
    by (auto simp: pg_store_def pg_updateRow_def pg_rows_def split: if_splits)
qed (auto simp: pg_store_def pg_saveProgress_def pg_loadProgress_def pg_updateRow_def pg_transaction_def pg_rows_def
       pg_ok_def pg_calm_def split: if_splits prod.splits sum.splits)

lemma set_pg_rows [simp]: "set (pg_rows tb s) = set (pg_tables s tb)"
  by (simp add: pg_rows_def)

lemma length_pg_rows [simp]: "length (pg_rows tb s) = length (pg_tables s tb)"
  by (simp add: pg_rows_def)

lemma pg_load [simp]: "loadProgress pg_store tb s = pg_progress s tb"
  by (simp add: pg_store_def pg_loadProgress_def)

lemma clean_rotated:
  assumes "crypto_ok K active" "clean active cols r" "c \<in> set cols" "row_cols r c = Some v" "v \<noteq> []"
  shows "needsKeyRotation (registry K) (Some v) = Inr False"
  using assms by (auto simp: crypto_ok_def clean_def pending_def needsKeyRotation_def getActiveKeyVersion_def)

text \<open>
  C21: Rotation is safe to run and to interrupt at any time: on the PostgreSQL store a run ends,
  with a result or an exception, whatever the stored progress, the options and the UPDATEs the database
  refuses; afterwards every column of every row reads as before, only target columns are written,
  and other tables and their progress are untouched.
\<close>

theorem rotation_keeps_reads:
  assumes "crypto_ok K active" and "pg_ok s"
  shows "\<exists>res n' s'. rotateTarget pg_store K opts t n s = Some (res, n', s')
    \<and> (\<forall>tb. tb \<noteq> table t \<longrightarrow> pg_rows tb s' = pg_rows tb s \<and> pg_progress s' tb = pg_progress s tb)
    \<and> list_all2 (\<lambda>r r'. row_id r' = row_id r \<and> (\<forall>c. reads K r' c = reads K r c)
        \<and> (\<forall>c. row_cols r' c \<noteq> row_cols r c \<longrightarrow> c \<in> set (columns t) \<and> pending active r c))
        (pg_rows (table t) s) (pg_rows (table t) s')"
proof -
  have "list_all2 (\<lambda>r r'. row_id r' = row_id r \<and> (\<forall>c. reads K r' c = reads K r c)
        \<and> (\<forall>c. row_cols r' c \<noteq> row_cols r c \<longrightarrow> c \<in> set (columns t) \<and> pending active r c)) xs xs'"
    if "list_all2 (rerow K active (columns t)) xs xs'" for xs xs'
    using that by (rule list_all2_mono) (simp add: rerow_def)
  moreover obtain res n' s' where "rotateTarget pg_store K opts t n s = Some (res, n', s')"
      "\<And>tb. tb \<noteq> table t \<Longrightarrow> pg_rows tb s' = pg_rows tb s \<and> pg_progress s' tb = pg_progress s tb"
      "list_all2 (rerow K active (columns t)) (pg_rows (table t) s) (pg_rows (table t) s')"
    using pgs.rotateTarget_keeps [OF assms, of opts t n] unfolding pg_load by blast
  ultimately show ?thesis by blast
qed

text \<open>
  A first run over a readable table, without a limit of batches and with no UPDATE refused,
  completes: it scans every row once, counts no failure, stores its progress as completed, and leaves no
  value of the target columns that needs rotation; the next run returns at once.
\<close>

theorem rotation_completes:
  assumes ok: "crypto_ok K active" and s: "pg_ok s" and first: "pg_progress s (table t) = None"
    and calm: "\<And>i. \<not> pg_refuses s (table t) i"
    and readable: "\<And>x c v. x \<in> set (pg_tables s (table t)) \<Longrightarrow> c \<in> set (columns t) \<Longrightarrow> row_cols x c = Some v \<Longrightarrow> v \<noteq> []
      \<Longrightarrow> is_ok (decrypt (cipher K) (registry K) v)"
    and opts: "maxBatches opts = None" "0 < batchSize opts"
  shows "\<exists>r n' s'. rotateTarget pg_store K opts t n s = Some (Inr r, n', s') \<and> done_of r
    \<and> rowsScanned (progress_of r) = length (pg_tables s (table t)) \<and> rowsFailed (progress_of r) = 0
    \<and> (\<forall>x \<in> set (pg_tables s' (table t)). \<forall>c \<in> set (columns t). \<forall>v. row_cols x c = Some v \<longrightarrow> v \<noteq> [] \<longrightarrow>
         needsKeyRotation (registry K) (Some v) = Inr False)
    \<and> rotateTarget pg_store K opts t n' s' = Some (Inr \<lparr>progress_of = progress_of r, batchesRun = 0, done_of = True\<rparr>, n', s')"
proof -
  let ?p = "fresh_progress t active"
  let ?s = "saveProgress pg_store ?p s"
  have act: "getActiveKeyVersion (registry K) = Inr (Some active)" using ok by (auto simp: crypto_ok_def getActiveKeyVersion_def)
  have "failing K active (columns t) x = 0" if "x \<in> set (pg_tables s (table t))" for x
    using readable [OF that] by (auto simp: failing_def filter_empty_conv unreadable_def pending_def split: option.splits)
  then have "\<forall>x \<in> set (pg_rows (table t) ?s). failing K active (columns t) x = 0" by (simp only: pgs.save_rows set_pg_rows) blast
  moreover have "targetTable ?p = table t" "rowsFailed ?p \<le> maxFailures opts" by (simp_all add: fresh_progress_def)
  moreover have "pg_calm (table t) ?s" unfolding pgs.save_calm using calm by (simp add: pg_calm_def)
  ultimately obtain r n' s' where "rotate_loop pg_store K opts active t ?p 0 n ?s = Some (Inr r, n', s')" and r: "done_of r"
      "rowsFailed (progress_of r) = rowsFailed ?p"
      "rowsScanned (progress_of r) = rowsScanned ?p + length (filter (\<lambda>x. after (lastProcessedId ?p) (row_id x)) (pg_rows (table t) ?s))"
    using pgs.loop_succeeds [OF ok pgs.save_inv [OF s], of ?p t ?p opts 0 n] opts by blast
  moreover have "rowsFailed ?p = 0" "rowsScanned ?p = 0"
      "filter (\<lambda>x. after (lastProcessedId ?p) (row_id x)) (pg_rows (table t) ?s) = pg_rows (table t) s"
    unfolding pgs.save_rows by (simp_all add: fresh_progress_def after_def)
  ultimately have r: "done_of r" "rowsFailed (progress_of r) = 0" "rowsScanned (progress_of r) = length (pg_tables s (table t))"
    and "rotate_loop pg_store K opts active t ?p 0 n ?s = Some (Inr r, n', s')" by simp_all
  then have run: "rotateTarget pg_store K opts t n s = Some (Inr r, n', s')"
    by (simp add: rotateTarget_def act first start_progress_def)
  have "checkpointed pg_store pg_rows active t s" by (simp add: checkpointed_def first)
  note d = pgs.rotateTarget_done [OF ok s run opts(2) this r(1,2)]
  have "rotateTarget pg_store K opts t n' s' = Some (Inr \<lparr>progress_of = progress_of r, batchesRun = 0, done_of = True\<rparr>, n', s')"
    using d(1-3) by (simp add: rotateTarget_def act)
  with run r d(4) clean_rotated [OF ok] show ?thesis by auto
qed

text \<open>One run after the other, each with its own options; a run may stop early, abort or fail.\<close>

fun rotation_runs :: "'s store_ops \<Rightarrow> crypto \<Rightarrow> rotation_target \<Rightarrow> rotation_options list \<Rightarrow> nat \<Rightarrow> 's \<Rightarrow> (nat \<times> 's) option" where
  "rotation_runs S K t [] n s = Some (n, s)"
| "rotation_runs S K t (o1 # os) n s = (case rotateTarget S K o1 t n s of
     None \<Rightarrow> None | Some (_, n', s') \<Rightarrow> rotation_runs S K t os n' s')"

lemma rotation_runs_keep:
  assumes "crypto_ok K active"
  shows "pg_ok s \<Longrightarrow> rotation_runs pg_store K t os n s = Some (n', s') \<Longrightarrow> pg_ok s' \<and>
    list_all2 (rerow K active (columns t)) (pg_rows (table t) s) (pg_rows (table t) s') \<and>
    ((\<forall>o1 \<in> set os. 0 < batchSize o1) \<longrightarrow> checkpointed pg_store pg_rows active t s \<longrightarrow> checkpointed pg_store pg_rows active t s')"
proof (induction os arbitrary: n s)
  case Nil
  then show ?case by (simp add: list_all2_same)
next
  case (Cons o1 os)
  obtain res n1 s1 where run: "rotateTarget pg_store K o1 t n s = Some (res, n1, s1)" and s1: "pg_ok s1"
      "list_all2 (rerow K active (columns t)) (pg_rows (table t) s) (pg_rows (table t) s1)"
    using pgs.rotateTarget_keeps [OF assms Cons.prems(1), of o1 t n] by blast
  have "rotation_runs pg_store K t os n1 s1 = Some (n', s')" using Cons.prems(2) run by simp
  note IH = Cons.IH [OF s1(1) this]
  have "list_all2 (rerow K active (columns t)) (pg_rows (table t) s) (pg_rows (table t) s')"
    by (rule list_all2_trans [OF _ s1(2)]) (use IH rerow_trans in blast)+
  with IH pgs.rotateTarget_checkpointed [OF assms Cons.prems(1) run] show ?case by auto
qed

text \<open>
  C22: An interrupted rotation resumes: after any sequence of runs towards the active version, stopped
  by their limit, aborted or failed, a last run that is done without a counted failure has left no
  value of the target columns that needs rotation, although it only looked at rows after the
  checkpoint; what the application reads is what it read before the first run.
\<close>

theorem rotation_resumes:
  assumes ok: "crypto_ok K active" and s: "pg_ok s"
    and new: "\<And>p. pg_progress s (table t) = Some p \<Longrightarrow> targetKeyVersion p \<noteq> active"
    and runs: "rotation_runs pg_store K t os n s = Some (n1, s1)"
    and last_run: "rotateTarget pg_store K opts t n1 s1 = Some (Inr r, n2, s2)" "done_of r" "rowsFailed (progress_of r) = 0"
    and sizes: "\<forall>o1 \<in> set os. 0 < batchSize o1" "0 < batchSize opts"
  shows "(\<forall>x \<in> set (pg_tables s2 (table t)). \<forall>c \<in> set (columns t). \<forall>v. row_cols x c = Some v \<longrightarrow> v \<noteq> [] \<longrightarrow>
           needsKeyRotation (registry K) (Some v) = Inr False)
    \<and> list_all2 (\<lambda>x x'. row_id x' = row_id x \<and> (\<forall>c. reads K x' c = reads K x c)) (pg_rows (table t) s) (pg_rows (table t) s2)"
proof
  have "checkpointed pg_store pg_rows active t s" using new by (auto simp: checkpointed_def)
  with rotation_runs_keep [OF ok s runs] sizes(1) have s1: "pg_ok s1" "checkpointed pg_store pg_rows active t s1" by auto
  from pgs.rotateTarget_done(4) [OF ok s1(1) last_run(1) sizes(2) s1(2) last_run(2,3)]
  show "\<forall>x \<in> set (pg_tables s2 (table t)). \<forall>c \<in> set (columns t). \<forall>v. row_cols x c = Some v \<longrightarrow> v \<noteq> [] \<longrightarrow>
           needsKeyRotation (registry K) (Some v) = Inr False"
    using clean_rotated [OF ok] by auto
  have "rotation_runs pg_store K t [opts] n1 s1 = Some (n2, s2)" using last_run(1) by simp
  from rotation_runs_keep [OF ok s1(1) this] rotation_runs_keep [OF ok s runs]
  have "list_all2 (rerow K active (columns t)) (pg_rows (table t) s) (pg_rows (table t) s2)"
    by (auto intro: list_all2_trans [OF rerow_trans])
  then show "list_all2 (\<lambda>x x'. row_id x' = row_id x \<and> (\<forall>c. reads K x' c = reads K x c)) (pg_rows (table t) s) (pg_rows (table t) s2)"
    by (rule list_all2_mono) (simp add: rerow_def)
qed

text \<open>
  A row a run could not decrypt is never tried again: once the stored progress of the
  campaign has passed it, every later run towards the same version, with whatever keys and options,
  leaves the row as it is.
\<close>

theorem skipped_row_never_retried:
  assumes "crypto_ok K active" and "pg_ok s"
    and "pg_progress s (table t) = Some p" "targetKeyVersion p = active" "lastProcessedId p = Some i"
    and "x \<in> set (pg_tables s (table t))" "row_id x \<le> i"
    and "rotateTarget pg_store K opts t n s = Some (res, n', s')"
  shows "x \<in> set (pg_tables s' (table t))"
  using pgs.rotateTarget_behind [OF assms(1,2,8), of p x] assms by (simp add: after_def not_less)

text \<open>A batch writes what it computed, whatever the row holds by then.\<close>

lemma apply_updates_cols:
  "distinct (map fst us) \<Longrightarrow> row_cols (apply_updates us x) =
     (case map_of us (row_id x) of None \<Rightarrow> row_cols x | Some vals \<Rightarrow> row_cols x ++ map_of vals)"
proof (induction us x rule: apply_updates.induct)
  case (2 i vals us r)
  show ?case
  proof (cases "row_id r = i")
    case True
    with 2 have "map_of us i = None" by (simp add: map_of_eq_None_iff)
    with 2 True show ?thesis by (simp add: set_columns_def)
  qed (use 2 in simp)
qed simp

text \<open>
  Rotation of a live table loses updates: the batch is read and re-encrypted outside the
  transaction that writes it, without a lock or a condition on the old value, so a column the
  application writes in between (\<open>s1\<close> is any state) reads again as it did before that write.
\<close>

theorem rotation_overwrites_concurrent_write:
  assumes ok: "crypto_ok K active" and s: "pg_ok s" and s1: "pg_ok s1"
    and rs: "rs = fetchBatch pg_store t a k s" and x: "x \<in> set rs"
    and c: "c \<in> set (columns t)" "pending active x c" "\<not> unreadable K x c"
    and prep: "prepare_rows K active t rs ([], p, n) = (us, p1, n1)"
    and com: "commit_batch pg_store t us p1 s1 = (Inr p2, s2)"
    and x1: "x1 \<in> set (pg_tables s1 (table t))" "row_id x1 = row_id x"
  shows "\<exists>x2 \<in> set (pg_tables s2 (table t)). row_id x2 = row_id x \<and> reads K x2 c = reads K x c"
proof -
  have "rs = take k (filter (\<lambda>r. after a (row_id r)) (pg_rows (table t) s))" using pgs.fetch [OF s] rs by simp
  then have "distinct (map row_id rs)"
    using pgs.rows_sorted [OF s, of "table t"]
    by (simp add: strict_sorted_iff distinct_map inj_on_subset [OF _ subset_trans [OF set_take_subset filter_is_subset]])
  from prepare_rows_spec [OF ok prep this] x c have us: "distinct (map fst us)"
    and re: "rerow K active (columns t) x (apply_updates us x)" "\<not> pending active (apply_updates us x) c" by auto
  have changed: "row_cols (apply_updates us x) c \<noteq> row_cols x c" using re(2) c(2) by (metis pending_cong)
  then obtain vals where vals: "map_of us (row_id x) = Some vals" by (auto simp: apply_updates_cols [OF us] split: option.splits)
  with changed obtain w where "map_of vals c = Some w"
    by (cases "map_of vals c") (auto simp: apply_updates_cols [OF us] map_add_def)
  then have "row_cols (apply_updates us x1) c = row_cols (apply_updates us x) c"
    using vals x1(2) by (simp add: apply_updates_cols [OF us] map_add_def)
  then have "reads K (apply_updates us x1) c = reads K x c" using re(1) by (simp add: reads_def rerow_def)
  moreover have "pg_rows (table t) s2 = map (apply_updates us) (pg_rows (table t) s1)"
    using pgs.commit_spec [OF com s1] by simp
  then have "apply_updates us x1 \<in> set (pg_rows (table t) s2)" using x1(1) by simp
  ultimately show ?thesis using x1(2) by (intro bexI [of _ "apply_updates us x1"]) simp_all
qed

text \<open>A batch size of 0 marks the table completed without looking at it.\<close>

lemma empty_batch_completes:
  assumes "crypto_ok K active" and "pg_progress s (table t) = None" and "maxBatches opts = None" "batchSize opts = 0"
  shows "\<exists>r s'. rotateTarget pg_store K opts t n s = Some (Inr r, n, s') \<and> done_of r \<and> rstatus (progress_of r) = RCompleted
    \<and> pg_tables s' = pg_tables s"
proof -
  have "getActiveKeyVersion (registry K) = Inr (Some active)" using assms(1) by (auto simp: crypto_ok_def getActiveKeyVersion_def)
  with assms(2-4) show ?thesis
    by (simp add: rotateTarget_def rotate_loop.simps start_progress_def finish_def pg_store_def pg_fetchBatch_def pg_saveProgress_def
        pg_loadProgress_def Let_def)
qed

subsection \<open>A concrete table\<close>

definition example_crypto :: crypto where
  "example_crypto = \<lparr>cipher = tag_gcm, registry = Inr switched_registry, fresh = (\<lambda>_. zero_iv)\<rparr>"

definition users_target :: rotation_target where
  "users_target = \<lparr>table = ''users'', columns = [''email'', ''twoFactorSecret'']\<rparr>"

definition user_row :: "string \<Rightarrow> string \<Rightarrow> rotation_row" where
  "user_row i v = \<lparr>row_id = i, row_cols = [''email'' \<mapsto> v]\<rparr>"

definition users_table :: "rotation_row list \<Rightarrow> stored_progress option \<Rightarrow> pg" where
  "users_table rs p = \<lparr>pg_tables = (\<lambda>tb. if tb = ''users'' then rs else []),
     pg_progress = (\<lambda>tb. if tb = ''users'' then p else None), pg_refuses = (\<lambda>_ _. False)\<rparr>"

lemma example_crypto_ok: "crypto_ok example_crypto 2"
proof -
  have "registry_wf switched_registry" by (simp add: registry_wf_def switched_registry_def key_a_def key_b_def)
  then show ?thesis
    by (simp add: crypto_ok_def example_crypto_def tag_gcm_laws zero_iv_length switched_registry_def)
qed

lemma users_table_ok:
  "distinct (map row_id rs) \<Longrightarrow> (case p of None \<Rightarrow> True | Some q \<Rightarrow> targetTable q = ''users'') \<Longrightarrow> pg_ok (users_table rs p)"
  by (auto simp: pg_ok_def users_table_def split: option.splits if_splits)

lemma user_row_simps [simp]:
  "row_id (user_row i v) = i" "row_cols (user_row i v) ''email'' = Some v" "row_cols (user_row i v) ''twoFactorSecret'' = None"
  by (simp_all add: user_row_def)

lemma users_target_simps [simp]: "table users_target = ''users''" "columns users_target = [''email'', ''twoFactorSecret'']"
  by (simp_all add: users_target_def)

lemma users_table_simps [simp]:
  "pg_tables (users_table rs p) ''users'' = rs" "pg_progress (users_table rs p) ''users'' = p"
  "pg_refuses (users_table rs p) tb i = False"
  by (simp_all add: users_table_def)

theorem rotation_keeps_reads_witness:
  "\<exists>res n' s'. rotateTarget pg_store example_crypto \<lparr>batchSize = 500, maxBatches = None, maxFailures = 0\<rparr> users_target 0
     (users_table [user_row ''b'' ''x'', user_row ''a'' ''v2:AAAA''] None) = Some (res, n', s')"
proof -
  have "pg_ok (users_table [user_row ''b'' ''x'', user_row ''a'' ''v2:AAAA''] None)" by (rule users_table_ok) simp_all
  from rotation_keeps_reads [OF example_crypto_ok this] show ?thesis by blast
qed

text \<open>Two users written before the switch of keys.\<close>

lemma old_users_readable:
  assumes "decrypt tag_gcm (Inr switched_registry) w = Inr ''a@b.c''"
    and "x \<in> set (pg_tables (users_table [user_row ''b'' w, user_row ''a'' w] p) (table users_target))"
    and "c \<in> set (columns users_target)" "row_cols x c = Some v"
  shows "is_ok (decrypt (cipher example_crypto) (registry example_crypto) v)"
  using assms by (auto simp: example_crypto_def)

theorem rotation_completes_witness:
  "\<exists>w r n' s'. decrypt tag_gcm (Inr switched_registry) w = Inr ''a@b.c''
     \<and> rotateTarget pg_store example_crypto \<lparr>batchSize = 1, maxBatches = None, maxFailures = 0\<rparr> users_target 0
         (users_table [user_row ''b'' w, user_row ''a'' w] None) = Some (Inr r, n', s')
     \<and> done_of r \<and> rowsScanned (progress_of r) = 2"
proof -
  obtain w where w: "decrypt tag_gcm (Inr switched_registry) w = Inr ''a@b.c''" using switched_value by blast
  have "pg_ok (users_table [user_row ''b'' w, user_row ''a'' w] None)" by (rule users_table_ok) simp_all
  from rotation_completes [OF example_crypto_ok this, where t = users_target and n = 0
      and opts = "\<lparr>batchSize = 1, maxBatches = None, maxFailures = 0\<rparr>"] old_users_readable [OF w, where p = None]
  show ?thesis using w by fastforce
qed

text \<open>One row, the limit reached, the other row: computed.\<close>

lemma two_runs:
  assumes w: "decrypt tag_gcm (Inr switched_registry) w = Inr ''a@b.c''" "getCiphertextKeyVersion w = None" "w \<noteq> []"
  obtains n1 s1 r n2 s2 where
    "rotation_runs pg_store example_crypto users_target [\<lparr>batchSize = 1, maxBatches = Some 1, maxFailures = 0\<rparr>] 0
       (users_table [user_row ''b'' w, user_row ''a'' w] None) = Some (n1, s1)"
    "rotateTarget pg_store example_crypto \<lparr>batchSize = 2, maxBatches = None, maxFailures = 0\<rparr> users_target n1 s1 = Some (Inr r, n2, s2)"
    "done_of r" "rowsFailed (progress_of r) = 0" "rowsScanned (progress_of r) = 2"
proof -
  obtain w2 where w2: "encrypt tag_gcm (Inr switched_registry) zero_iv ''a@b.c'' = Inr w2"
    by (simp add: encrypt_def tag_gcm_def switched_registry_def)
  have act: "getActiveKeyVersion (Inr switched_registry) = Inr (Some 2)"
    by (simp add: getActiveKeyVersion_def switched_registry_def)
  have order: "''a'' < (''b'' :: string)" by code_simp
  note d = rotateTarget_def rotate_loop.simps start_progress_def pg_store_def pg_fetchBatch_def pg_saveProgress_def
    pg_loadProgress_def commit_batch_def pg_transaction_def pg_updateRow_def finish_def Let_def
  have cols: "row_cols (set_columns [(''email'', w2)] (user_row i w)) c = row_cols (user_row i w2) c" for i c
    by (simp add: set_columns_def user_row_def)
  have "\<exists>s1. rotateTarget pg_store example_crypto \<lparr>batchSize = 1, maxBatches = Some 1, maxFailures = 0\<rparr> users_target 0
      (users_table [user_row ''b'' w, user_row ''a'' w] None)
      = Some (Inr \<lparr>progress_of = (fresh_progress users_target 2)\<lparr>rowsScanned := 1, rowsReencrypted := 1, lastProcessedId := Some ''a''\<rparr>,
          batchesRun = 1, done_of = False\<rparr>, 1, s1)
    \<and> pg_tables s1 ''users'' = [user_row ''b'' w, set_columns [(''email'', w2)] (user_row ''a'' w)]
    \<and> pg_progress s1 ''users'' = Some ((fresh_progress users_target 2)\<lparr>rowsScanned := 1, rowsReencrypted := 1, lastProcessedId := Some ''a''\<rparr>)
    \<and> (\<forall>tb i. \<not> pg_refuses s1 tb i)"
    by (simp add: d fresh_progress_def example_crypto_def act w w2 after_def order less_imp_le)
  then obtain s1 where s1: "rotation_runs pg_store example_crypto users_target [\<lparr>batchSize = 1, maxBatches = Some 1, maxFailures = 0\<rparr>] 0
       (users_table [user_row ''b'' w, user_row ''a'' w] None) = Some (1, s1)"
    "pg_tables s1 ''users'' = [user_row ''b'' w, set_columns [(''email'', w2)] (user_row ''a'' w)]"
    "pg_progress s1 ''users'' = Some ((fresh_progress users_target 2)\<lparr>rowsScanned := 1, rowsReencrypted := 1, lastProcessedId := Some ''a''\<rparr>)"
    "\<And>tb i. \<not> pg_refuses s1 tb i" by auto
  have "\<exists>r n2 s2. rotateTarget pg_store example_crypto \<lparr>batchSize = 2, maxBatches = None, maxFailures = 0\<rparr> users_target 1 s1 = Some (Inr r, n2, s2)
     \<and> done_of r \<and> rowsFailed (progress_of r) = 0 \<and> rowsScanned (progress_of r) = 2"
    by (simp add: d fresh_progress_def example_crypto_def act w w2 after_def order less_imp_le s1)
  then show ?thesis using that [OF s1(1)] by blast
qed

theorem rotation_resumes_witness:
  "\<exists>w n1 s1 r n2 s2. rotation_runs pg_store example_crypto users_target [\<lparr>batchSize = 1, maxBatches = Some 1, maxFailures = 0\<rparr>] 0
       (users_table [user_row ''b'' w, user_row ''a'' w] None) = Some (n1, s1)
     \<and> rotateTarget pg_store example_crypto \<lparr>batchSize = 2, maxBatches = None, maxFailures = 0\<rparr> users_target n1 s1 = Some (Inr r, n2, s2)
     \<and> getCiphertextKeyVersion w = None
     \<and> (\<forall>x \<in> set (pg_tables s2 ''users''). \<forall>v. row_cols x ''email'' = Some v \<longrightarrow> v \<noteq> [] \<longrightarrow>
          needsKeyRotation (Inr switched_registry) (Some v) = Inr False)"
proof -
  obtain w where w: "decrypt tag_gcm (Inr switched_registry) w = Inr ''a@b.c''" "getCiphertextKeyVersion w = None" "w \<noteq> []"
    using switched_value by blast
  obtain n1 s1 r n2 s2 where runs: "rotation_runs pg_store example_crypto users_target [\<lparr>batchSize = 1, maxBatches = Some 1, maxFailures = 0\<rparr>] 0
       (users_table [user_row ''b'' w, user_row ''a'' w] None) = Some (n1, s1)"
    and last_run: "rotateTarget pg_store example_crypto \<lparr>batchSize = 2, maxBatches = None, maxFailures = 0\<rparr> users_target n1 s1 = Some (Inr r, n2, s2)"
    "done_of r" "rowsFailed (progress_of r) = 0" by (rule two_runs [OF w])
  have "pg_ok (users_table [user_row ''b'' w, user_row ''a'' w] None)" by (rule users_table_ok) simp_all
  from rotation_resumes [OF example_crypto_ok this _ runs last_run] runs last_run(1) w(2) show ?thesis
    by (fastforce simp: example_crypto_def)
qed

text \<open>Behind the checkpoint of an aborted run a value that is readable by now stays unrotated.\<close>

theorem skipped_row_never_retried_witness:
  "\<exists>w res n' s'. decrypt tag_gcm (Inr switched_registry) w = Inr ''a@b.c'' \<and> getCiphertextKeyVersion w = None
     \<and> rotateTarget pg_store example_crypto \<lparr>batchSize = 500, maxBatches = None, maxFailures = 5\<rparr> users_target 0
         (users_table [user_row ''a'' w] (Some \<lparr>targetTable = ''users'', targetKeyVersion = 2, lastProcessedId = Some ''a'',
            rowsScanned = 1, rowsReencrypted = 0, rowsFailed = 1, rstatus = RFailed\<rparr>)) = Some (res, n', s')
     \<and> user_row ''a'' w \<in> set (pg_tables s' ''users'')"
proof -
  obtain w where w: "decrypt tag_gcm (Inr switched_registry) w = Inr ''a@b.c''" "getCiphertextKeyVersion w = None"
    using switched_value by blast
  let ?p = "\<lparr>targetTable = ''users'', targetKeyVersion = 2, lastProcessedId = Some ''a'', rowsScanned = 1, rowsReencrypted = 0,
    rowsFailed = 1, rstatus = RFailed\<rparr>"
  have ok: "pg_ok (users_table [user_row ''a'' w] (Some ?p))" by (rule users_table_ok) simp_all
  obtain res n' s' where run: "rotateTarget pg_store example_crypto \<lparr>batchSize = 500, maxBatches = None, maxFailures = 5\<rparr> users_target 0
      (users_table [user_row ''a'' w] (Some ?p)) = Some (res, n', s')"
    using pgs.rotateTarget_keeps [OF example_crypto_ok ok] by blast
  from skipped_row_never_retried [OF example_crypto_ok ok _ _ _ _ _ run, of ?p "''a''" "user_row ''a'' w"] run w
  show ?thesis by auto
qed

theorem rotation_overwrites_concurrent_write_witness:
  "\<exists>w us p1 n1 p2 s2 x2. prepare_rows example_crypto 2 users_target [user_row ''a'' w] ([], fresh_progress users_target 2, 0) = (us, p1, n1)
     \<and> commit_batch pg_store users_target us p1 (users_table [user_row ''a'' ''v2:AAAA''] None) = (Inr p2, s2)
     \<and> x2 \<in> set (pg_tables s2 ''users'') \<and> reads example_crypto x2 ''email'' = Some ''a@b.c''"
proof -
  obtain w where w: "decrypt tag_gcm (Inr switched_registry) w = Inr ''a@b.c''" "getCiphertextKeyVersion w = None" "w \<noteq> []"
    using switched_value by blast
  let ?s = "users_table [user_row ''a'' w] None" and ?s1 = "users_table [user_row ''a'' ''v2:AAAA''] None"
  have ok: "pg_ok ?s" "pg_ok ?s1" by (rule users_table_ok; simp)+
  obtain us p1 n1 where prep: "prepare_rows example_crypto 2 users_target [user_row ''a'' w] ([], fresh_progress users_target 2, 0) = (us, p1, n1)"
    by (metis prod_cases3)
  have "pg_calm ''users'' ?s1" by (simp add: pg_calm_def)
  then obtain p2 s2 where com: "commit_batch pg_store users_target us p1 ?s1 = (Inr p2, s2)"
    using pgs.write_updates_calm [of users_target ?s1 us p1] by (auto simp: commit_batch_def pgs.undo)
  have fetch: "[user_row ''a'' w] = fetchBatch pg_store users_target None 500 ?s"
    by (simp add: pg_store_def pg_fetchBatch_def after_def)
  have x: "pending 2 (user_row ''a'' w) ''email''" "\<not> unreadable example_crypto (user_row ''a'' w) ''email''"
      "reads example_crypto (user_row ''a'' w) ''email'' = Some ''a@b.c''"
    using w by (simp_all add: pending_def unreadable_def reads_def transformer_from_def example_crypto_def)
  from rotation_overwrites_concurrent_write [OF example_crypto_ok ok fetch _ _ x(1,2) prep com, of "user_row ''a'' ''v2:AAAA''"] x(3)
  have "\<exists>x2 \<in> set (pg_tables s2 ''users''). reads example_crypto x2 ''email'' = Some ''a@b.c''" by auto
  with prep com show ?thesis by blast
qed

end
