(* ===== verification/EventListener.thy ===== *)
theory EventListener
  imports Contributions
begin

text \<open>
  \<open>EventListenerService\<close> (\<open>event-listener/event-listener.service.ts\<close>): polling the chain for the
  events of the contract and applying them to contributions, memberships and groups. The service
  Horizon is the argument \<open>horizon\<close>, the decoding of the XDR metadata the argument
  \<open>diagnostics\<close>, whose results are the topics and the data of each event as native values, or
  \<open>None\<close> where reading the event throws. Redis is the checkpoint and the list of processed
  hashes; they survive a restart. Identifiers in events are taken to be well-formed.
\<close>

subsection \<open>Native values and payloads\<close>

text \<open>\<open>JOther s\<close> is any other value: a bigint, boolean, array or buffer, with its text.\<close>

datatype native =
    JNone
  | JStr string
  | JNum js_number
  | JObject "(string \<times> native) list"
  | JOther string

datatype event_name = ContributionReceived | RoundCompleted

type_synonym payload = "(string \<times> native) list"
type_synonym raw_event = "(native list \<times> native) option"

text \<open>\<open>String(v ?? '').toLowerCase()\<close> compared with the two names; no number or object has such a text.\<close>

definition event_named :: "string \<Rightarrow> event_name option" where
  "event_named s =
     (if toLowerCase s = ''contributionreceived'' then Some ContributionReceived
      else if toLowerCase s = ''roundcompleted'' then Some RoundCompleted else None)"

fun name_of :: "native \<Rightarrow> event_name option" where
  "name_of (JStr s) = event_named s"
| "name_of (JOther s) = event_named s"
| "name_of _ = None"

fun first_present :: "payload \<Rightarrow> string list \<Rightarrow> native" where
  "first_present p [] = JNone"
| "first_present p (k # ks) = (case map_of p k of None \<Rightarrow> first_present p ks | Some JNone \<Rightarrow> first_present p ks | Some v \<Rightarrow> v)"

fun first_named :: "native list \<Rightarrow> event_name option" where
  "first_named [] = None"
| "first_named (t # ts) = (case name_of t of None \<Rightarrow> first_named ts | Some n \<Rightarrow> Some n)"

definition extractEventName :: "native list \<Rightarrow> native \<Rightarrow> event_name option" where
  "extractEventName topics data =
     (case first_named topics of
        Some n \<Rightarrow> Some n
      | None \<Rightarrow> (case data of JObject p \<Rightarrow> name_of (first_present p [''eventName'', ''event'', ''type'']) | _ \<Rightarrow> None))"

definition normalizeContractEvent :: "raw_event \<Rightarrow> (event_name \<times> payload) option" where
  "normalizeContractEvent e =
     (case e of
        None \<Rightarrow> None
      | Some (topics, data) \<Rightarrow>
          map_option (\<lambda>n. (n, case data of JObject p \<Rightarrow> p | v \<Rightarrow> [(''value'', v)])) (extractEventName topics data))"

fun readString :: "payload \<Rightarrow> string list \<Rightarrow> string option" where
  "readString p [] = None"
| "readString p (k # ks) = (case map_of p k of Some (JStr s) \<Rightarrow> if js_trim s \<noteq> [] then Some s else readString p ks | _ \<Rightarrow> readString p ks)"

fun readNumber :: "payload \<Rightarrow> string list \<Rightarrow> js_number option" where
  "readNumber p [] = None"
| "readNumber p (k # ks) =
     (case map_of p k of
        Some (JNum n) \<Rightarrow> if n \<noteq> NaN then Some n else readNumber p ks
      | Some (JStr s) \<Rightarrow> if js_trim s \<noteq> [] \<and> js_Number s \<noteq> NaN then Some (js_Number s) else readNumber p ks
      | _ \<Rightarrow> readNumber p ks)"

text \<open>A number as the value of an integer column; the database refuses a fraction.\<close>

fun int_column :: "js_number \<Rightarrow> int outcome" where
  "int_column NaN = Inl (JsError ''invalid input syntax for type integer'')"
| "int_column (Dec m e) =
     (if 0 \<le> e then Inr (m * 10 ^ nat e)
      else if m mod 10 ^ nat (- e) = 0 then Inr (m div 10 ^ nat (- e))
      else Inl (JsError ''invalid input syntax for type integer''))"

subsection \<open>Effects of an event\<close>

record horizon_tx =
  ht_hash :: string
  ht_successful :: bool
  ht_ledger :: int
  ht_meta :: "string option"
  ht_createdAt :: "time option"

definition event_contribution :: "uuid \<Rightarrow> uuid \<Rightarrow> wallet \<Rightarrow> string \<Rightarrow> int \<Rightarrow> string \<Rightarrow> time \<Rightarrow> world \<Rightarrow> contribution" where
  "event_contribution gid uid a amount round h t w =
     \<lparr>c_id = fresh_uuid w, c_groupId = gid, c_userId = uid, c_walletAddress = a, c_roundNumber = round,
      c_amount = amount, c_transactionHash = h, c_timestamp = t, c_assetCode = ''XLM'', c_assetIssuer = None,
      c_unitOfAccountAssetCode = ''XLM'', c_unitOfAccountAssetIssuer = None, c_fxRate = ''1'',
      c_fxRateCapturedAt = None, c_fxRateExpiresAt = None, c_fxToleranceBps = 200, c_normalizedAmount = None,
      c_status = CS_PENDING, c_idempotencyKey = None, c_updatedAt = now w\<rparr>"

text \<open>Writing a contribution: the unique constraints and the foreign keys are checked.\<close>

definition references_ok :: "contribution \<Rightarrow> world \<Rightarrow> bool" where
  "references_ok c w \<longleftrightarrow> (\<exists>g \<in> set (groups w). g_id g = c_groupId c) \<and> (\<exists>u \<in> set (users w). u_id u = c_userId c)"

definition save_contribution :: "contribution \<Rightarrow> unit io" where
  "save_contribution c w =
     (if \<exists>x \<in> set (contributions w). c_id x \<noteq> c_id c \<and> conflicts c x then (Inl (UniqueViolation ''contributions''), w)
      else if \<not> references_ok c w then (Inl ForeignKeyViolation, w)
      else if c_id c \<in> c_id ` set (contributions w)
      then (Inr (), w\<lparr>contributions := update_rows (\<lambda>x. c_id x = c_id c) (\<lambda>x. c) (contributions w)\<rparr>)
      else (Inr (), (tick_uuid w)\<lparr>contributions := contributions w @ [c]\<rparr>))"

definition mark_members :: "(membership \<Rightarrow> bool) \<Rightarrow> (membership \<Rightarrow> membership) \<Rightarrow> world \<Rightarrow> world" where
  "mark_members P f w = w\<lparr>memberships := update_rows P f (memberships w)\<rparr>"

definition record_event :: "uuid \<Rightarrow> uuid \<Rightarrow> wallet \<Rightarrow> string \<Rightarrow> int \<Rightarrow> horizon_tx \<Rightarrow> unit io" where
  "record_event gid uid a amount round tx w =
     (let t = (case ht_createdAt tx of None \<Rightarrow> now w | Some d \<Rightarrow> d);
          c = (case List.find (\<lambda>c. c_transactionHash c = ht_hash tx) (contributions w) of
                 Some x \<Rightarrow> x\<lparr>c_groupId := gid, c_userId := uid, c_walletAddress := a, c_roundNumber := round,
                             c_amount := amount, c_timestamp := t, c_updatedAt := now w\<rparr>
               | None \<Rightarrow> event_contribution gid uid a amount round (ht_hash tx) t w)
      in case save_contribution c w of
           (Inl e, w1) \<Rightarrow> (Inl e, w1)
         | (Inr u, w1) \<Rightarrow>
             (Inr (), mark_members (\<lambda>m. m_groupId m = gid \<and> m_userId m = uid) (\<lambda>m. m\<lparr>m_hasPaidCurrentRound := True\<rparr>) w1))"

definition handleContributionReceived :: "payload \<Rightarrow> horizon_tx \<Rightarrow> unit io" where
  "handleContributionReceived p tx w =
     (case (readString p [''groupId'', ''group_id''], readString p [''userId'', ''user_id'', ''memberId''],
            readString p [''walletAddress'', ''wallet_address'', ''memberWallet''], readString p [''amount'']) of
        (Some gid, Some uid, Some a, Some amount) \<Rightarrow>
          (case int_column (case readNumber p [''roundNumber'', ''round_number''] of None \<Rightarrow> Dec 1 0 | Some n \<Rightarrow> n) of
             Inl e \<Rightarrow> (Inl e, w)
           | Inr round \<Rightarrow> record_event gid uid a amount round tx w)
      | _ \<Rightarrow> (Inr (), w))"

definition received_payout :: "(membership \<Rightarrow> bool) \<Rightarrow> world \<Rightarrow> world" where
  "received_payout P w = mark_members P (\<lambda>m. m\<lparr>m_hasReceivedPayout := True\<rparr>) w"

definition close_round :: "uuid \<Rightarrow> world \<Rightarrow> world" where
  "close_round gid w =
     mark_members (\<lambda>m. m_groupId m = gid) (\<lambda>m. m\<lparr>m_hasPaidCurrentRound := False\<rparr>)
       (w\<lparr>groups := update_rows (\<lambda>g. g_id g = gid) (\<lambda>g. g\<lparr>g_currentRound := g_currentRound g + 1\<rparr>) (groups w)\<rparr>)"

definition handleRoundCompleted :: "payload \<Rightarrow> unit io" where
  "handleRoundCompleted p w =
     (case readString p [''groupId'', ''group_id''] of
        None \<Rightarrow> (Inr (), w)
      | Some gid \<Rightarrow>
          let w1 = close_round gid w in
          case readString p [''payoutRecipientUserId'', ''payoutUserId'', ''recipientUserId'', ''userId'', ''user_id''] of
            Some uid \<Rightarrow> (Inr (), received_payout (\<lambda>m. m_groupId m = gid \<and> m_userId m = uid) w1)
          | None \<Rightarrow>
              (case readString p [''payoutRecipientWallet'', ''recipientWallet'', ''walletAddress'', ''wallet_address''] of
                 Some a \<Rightarrow> (Inr (), received_payout (\<lambda>m. m_groupId m = gid \<and> m_walletAddress m = a) w1)
               | None \<Rightarrow>
                   (case readNumber p [''payoutOrder'', ''payout_order''] of
                      None \<Rightarrow> (Inr (), w1)
                    | Some n \<Rightarrow>
                        (case int_column n of
                           Inl e \<Rightarrow> (Inl e, w1)
                         | Inr k \<Rightarrow> (Inr (), received_payout (\<lambda>m. m_groupId m = gid \<and> m_payoutOrder m = Some k) w1)))))"

definition handleParsedEvent :: "event_name \<times> payload \<Rightarrow> horizon_tx \<Rightarrow> unit io" where
  "handleParsedEvent e tx =
     (case e of (ContributionReceived, p) \<Rightarrow> handleContributionReceived p tx | (RoundCompleted, p) \<Rightarrow> handleRoundCompleted p)"

fun handle_events :: "(event_name \<times> payload) list \<Rightarrow> horizon_tx \<Rightarrow> unit io" where
  "handle_events [] tx w = (Inr (), w)"
| "handle_events (e # es) tx w =
     (case handleParsedEvent e tx w of (Inl x, w1) \<Rightarrow> (Inl x, w1) | (Inr u, w1) \<Rightarrow> handle_events es tx w1)"

definition parseDiagnosticEvents :: "(string \<Rightarrow> raw_event list outcome) \<Rightarrow> string option \<Rightarrow> (event_name \<times> payload) list outcome" where
  "parseDiagnosticEvents diagnostics meta =
     (if \<not> truthy meta then Inr []
      else case diagnostics (the meta) of
             Inl e \<Rightarrow> Inl e | Inr es \<Rightarrow> Inr (List.map_filter normalizeContractEvent es))"

subsection \<open>Polling\<close>

record listener_config =
  contractAddress :: string
  pollIntervalMs :: int

record listener =
  db :: world
  checkpoint :: int
  processed :: "string list"
  pollingEnabled :: bool
  lastRunAtMs :: time

type_synonym horizon_fun = "string \<Rightarrow> int option \<Rightarrow> (int \<times> horizon_tx list) outcome"
type_synonym diagnostics_fun = "string \<Rightarrow> raw_event list outcome"

definition isAlreadyProcessed :: "string \<Rightarrow> listener \<Rightarrow> bool" where
  "isAlreadyProcessed h s \<longleftrightarrow> h \<noteq> [] \<and> h \<in> set (processed s)"

definition markProcessed :: "string \<Rightarrow> listener \<Rightarrow> listener" where
  "markProcessed h s = (if h = [] then s else s\<lparr>processed := h # processed s\<rparr>)"

definition setLastProcessedLedger :: "int \<Rightarrow> listener \<Rightarrow> listener" where
  "setLastProcessedLedger l s = s\<lparr>checkpoint := l\<rparr>"

text \<open>The events of one transaction; what they did before an error stays.\<close>

definition apply_tx :: "diagnostics_fun \<Rightarrow> horizon_tx \<Rightarrow> world \<Rightarrow> world" where
  "apply_tx diagnostics tx w =
     (case parseDiagnosticEvents diagnostics (ht_meta tx) of
        Inl e \<Rightarrow> w
      | Inr es \<Rightarrow> snd (handle_events es tx w))"

text \<open>
  The body of the loop of \<open>pollNow\<close>; \<open>last\<close> is the checkpoint read before the loop. The commands to
  Redis that mark the transaction and move the checkpoint do not fail here. In the code one that fails
  makes the poll throw, after the events of the transaction have been applied and before it is marked.
\<close>

definition handle_tx :: "diagnostics_fun \<Rightarrow> int \<Rightarrow> horizon_tx \<Rightarrow> listener \<Rightarrow> listener" where
  "handle_tx diagnostics last_ledger tx s =
     (if ht_ledger tx = 0 \<or> ht_ledger tx \<le> last_ledger then s
      else if isAlreadyProcessed (ht_hash tx) s then setLastProcessedLedger (ht_ledger tx) s
      else if \<not> ht_successful tx then setLastProcessedLedger (ht_ledger tx) (markProcessed (ht_hash tx) s)
      else setLastProcessedLedger (ht_ledger tx)
             (markProcessed (ht_hash tx) (s\<lparr>db := apply_tx diagnostics tx (db s)\<rparr>)))"

fun fetch_from :: "horizon_fun \<Rightarrow> int option \<Rightarrow> string list \<Rightarrow> horizon_tx list outcome" where
  "fetch_from horizon cursor [] = Inr []"
| "fetch_from horizon cursor (path # paths) =
     (case horizon path cursor of
        Inl e \<Rightarrow> Inl e
      | Inr (status, records) \<Rightarrow>
          if 200 \<le> status \<and> status < 300 then Inr records
          else if status = 404 then fetch_from horizon cursor paths
          else Inl (JsError (''Horizon request failed with status '' @ show_int status)))"

definition fetchTransactionsSince :: "listener_config \<Rightarrow> horizon_fun \<Rightarrow> int \<Rightarrow> horizon_tx list outcome" where
  "fetchTransactionsSince C horizon last_ledger =
     fetch_from horizon (if last_ledger > 0 then Some last_ledger else None)
       [''/contracts/'' @ contractAddress C @ ''/transactions'', ''/accounts/'' @ contractAddress C @ ''/transactions'']"

definition pollNow :: "listener_config \<Rightarrow> horizon_fun \<Rightarrow> diagnostics_fun \<Rightarrow> listener \<Rightarrow> unit outcome \<times> listener" where
  "pollNow C horizon diagnostics s =
     (if contractAddress C = [] then (Inr (), s)
      else case fetchTransactionsSince C horizon (checkpoint s) of
             Inl e \<Rightarrow> (Inl e, s)
           | Inr txs \<Rightarrow> (Inr (), fold (handle_tx diagnostics (checkpoint s)) txs s))"

definition pollTick :: "listener_config \<Rightarrow> horizon_fun \<Rightarrow> diagnostics_fun \<Rightarrow> listener \<Rightarrow> listener" where
  "pollTick C horizon diagnostics s =
     (if \<not> pollingEnabled s \<or> now (db s) - lastRunAtMs s < pollIntervalMs C then s
      else snd (pollNow C horizon diagnostics (s\<lparr>lastRunAtMs := now (db s)\<rparr>)))"

definition startPolling :: "listener \<Rightarrow> listener" where
  "startPolling s = s\<lparr>pollingEnabled := True\<rparr>"

definition stopPolling :: "listener \<Rightarrow> listener" where
  "stopPolling s = s\<lparr>pollingEnabled := False\<rparr>"

definition getPollingStatus :: "listener_config \<Rightarrow> listener \<Rightarrow> bool \<times> int" where
  "getPollingStatus C s = (pollingEnabled s, pollIntervalMs C)"

lemmas listener_handlers [handler_defs] = handle_tx_def pollNow_def pollTick_def


subsection \<open>Each transaction once\<close>

datatype listener_op =
    Deliver diagnostics_fun int horizon_tx
  | Others "world \<Rightarrow> world"
  | StartPolling
  | StopPolling

fun listener_exec :: "listener_op \<Rightarrow> listener \<Rightarrow> listener" where
  "listener_exec (Deliver d l tx) s = handle_tx d l tx s"
| "listener_exec (Others f) s = s\<lparr>db := f (db s)\<rparr>"
| "listener_exec StartPolling s = startPolling s"
| "listener_exec StopPolling s = stopPolling s"

text \<open>A poll is the delivery of the transactions Horizon reports, with the checkpoint before it.\<close>

lemma deliver_exec: "listener_exec (Deliver d l tx) = handle_tx d l tx"
  by (rule ext) simp

lemma pollNow_deliveries:
  assumes "pollNow C horizon d s = (Inr (), s')"
  shows "\<exists>txs. s' = fold listener_exec (map (Deliver d (checkpoint s)) txs) s"
proof (cases "contractAddress C = []")
  case True
  with assms show ?thesis by (intro exI [of _ "[]"]) (simp add: pollNow_def)
next
  case False
  with assms obtain txs where "s' = fold (handle_tx d (checkpoint s)) txs s"
    by (auto simp: pollNow_def split: sum.splits)
  then show ?thesis by (intro exI [of _ txs]) (simp add: fold_map comp_def deliver_exec)
qed

fun tx_due :: "string \<Rightarrow> listener_op \<Rightarrow> listener \<Rightarrow> bool" where
  "tx_due h (Deliver d l tx) s = (ht_hash tx = h \<and> h \<noteq> [] \<and> ht_ledger tx \<noteq> 0 \<and> l < ht_ledger tx \<and> ht_successful tx \<and>
     h \<notin> set (processed s))"
| "tx_due h op s = False"

definition tx_marked :: "string \<Rightarrow> listener \<Rightarrow> bool" where
  "tx_marked h s \<longleftrightarrow> h \<in> set (processed s)"

lemma processed_exec: "set (processed s) \<subseteq> set (processed (listener_exec op s))"
  by (cases op)
    (auto simp: handle_tx_def markProcessed_def setLastProcessedLedger_def startPolling_def stopPolling_def)

interpretation events: once_machine listener_exec "\<lambda>s. True" tx_due tx_marked
proof
  fix s op k
  show "tx_marked k s \<Longrightarrow> tx_marked k (listener_exec op s)"
    using processed_exec [of s op] by (auto simp: tx_marked_def)
  show "tx_due k op s \<Longrightarrow> tx_marked k (listener_exec op s)"
    by (cases op) (auto simp: tx_marked_def handle_tx_def markProcessed_def setLastProcessedLedger_def isAlreadyProcessed_def)
  show "tx_due k op s \<Longrightarrow> \<not> tx_marked k s" by (cases op) (auto simp: tx_marked_def)
qed simp

lemma not_due_no_effect:
  "ht_hash tx \<noteq> [] \<Longrightarrow> \<not> tx_due (ht_hash tx) (Deliver d l tx) s \<Longrightarrow> db (handle_tx d l tx s) = db s"
  by (auto simp: handle_tx_def markProcessed_def setLastProcessedLedger_def isAlreadyProcessed_def)

text \<open>
  C12: The events of a transaction are applied at most once. However often the network reports a
  transaction, in whatever order, across polls, restarts of polling and the work of other
  components, only one delivery applies its events; every other leaves the database alone. (The
  commands to Redis succeed.)
\<close>

theorem events_applied_at_most_once:
  assumes "h \<noteq> []"
  shows "count_due (tx_due h) listener_exec ops s \<le> 1 \<and>
    (\<forall>d l tx v. ht_hash tx = h \<and> \<not> tx_due h (Deliver d l tx) v \<longrightarrow> db (listener_exec (Deliver d l tx) v) = db v)"
proof -
  have "count_due (tx_due h) listener_exec ops s \<le> 1" by (rule events.at_most_once) simp
  then show ?thesis using not_due_no_effect assms by auto
qed

text \<open>
  A failed event is lost. When an event of a transaction fails, for example because its member
  already has a contribution for the round, the rest of the transaction is dropped, and the
  transaction is marked as processed: no later delivery, in any run, applies its events.
\<close>

theorem failed_events_are_lost:
  assumes "tx_due (ht_hash tx) (Deliver d l tx) s" "parseDiagnosticEvents d (ht_meta tx) = Inr (es @ e # rest)"
    and "handle_events es tx (db s) = (Inr (), w1)" "handleParsedEvent e tx w1 = (Inl x, w2)"
  shows "db (handle_tx d l tx s) = w2 \<and> (\<forall>ops. count_due (tx_due (ht_hash tx)) listener_exec ops (handle_tx d l tx s) = 0)"
proof -
  have step: "handle_events (es @ e # rest) tx (db s) = (Inl x, w2)"
    using assms(3,4)
  proof (induction es arbitrary: s)
    case (Cons a es)
    from Cons.prems(1) obtain v where v: "handleParsedEvent a tx (db s) = (Inr (), v)" "handle_events es tx v = (Inr (), w1)"
      by (auto split: prod.splits sum.splits)
    from Cons.IH [of "s\<lparr>db := v\<rparr>"] v assms(4) show ?case by simp
  qed simp
  have "db (handle_tx d l tx s) = w2"
    using assms(1,2) step by (auto simp: handle_tx_def isAlreadyProcessed_def markProcessed_def setLastProcessedLedger_def apply_tx_def)
  moreover have "tx_marked (ht_hash tx) (handle_tx d l tx s)"
    using assms(1) by (auto simp: handle_tx_def isAlreadyProcessed_def markProcessed_def setLastProcessedLedger_def tx_marked_def)
  ultimately show ?thesis using events.marked_never_due by blast
qed

text \<open>
  A page that ends inside a ledger loses the rest of the ledger. After a poll whose last
  transaction is in ledger L, the other transactions of L, which the network could not fit into
  the same page, are skipped by the next poll without being marked.
\<close>

lemma checkpoint_after:
  assumes "ht_ledger t \<noteq> 0" "l < ht_ledger t"
  shows "checkpoint (fold (handle_tx d l) (page @ [t]) s) = ht_ledger t"
  using assms by (simp add: handle_tx_def setLastProcessedLedger_def)

theorem page_boundary_loses_events:
  assumes "contractAddress C \<noteq> []" "checkpoint s < ht_ledger t" "ht_ledger t \<noteq> 0"
    and "fetchTransactionsSince C horizon (checkpoint s) = Inr (page @ [t])" "pollNow C horizon d s = (Inr (), s1)"
    and "fetchTransactionsSince C horizon' (checkpoint s1) = Inr others" "\<forall>u \<in> set others. ht_ledger u = ht_ledger t"
  shows "pollNow C horizon' d' s1 = (Inr (), s1)"
proof -
  have "s1 = fold (handle_tx d (checkpoint s)) (page @ [t]) s" using assms(1,4,5) by (simp add: pollNow_def)
  then have c: "checkpoint s1 = ht_ledger t" using checkpoint_after assms(2,3) by blast
  have "fold (handle_tx d' (checkpoint s1)) others s1 = s1"
    using assms(7) unfolding c by (induction others) (simp_all add: handle_tx_def)
  then show ?thesis using assms(1,6) by (simp add: pollNow_def)
qed

subsection \<open>Contributions from the chain\<close>

lemma distinct_map_update_row:
  assumes "distinct (map key t)" "r \<in> set t" "key c = key r" "distinct (map f t)"
    and "\<forall>x \<in> set t. key x \<noteq> key c \<longrightarrow> f x \<noteq> f c"
  shows "distinct (map f (update_rows (\<lambda>x. key x = key c) (\<lambda>x. c) t))"
proof -
  let ?h = "\<lambda>x. if key x = key c then c else x"
  have "inj_on key (set t)" using assms(1) by (simp add: distinct_map)
  then have same: "x = y" if "x \<in> set t" "y \<in> set t" "key x = key c" "key y = key c" for x y
    using inj_onD [of key "set t" x y] that by simp
  have "inj_on (f \<circ> ?h) (set t)"
    using assms(4,5) same by (auto simp: inj_on_def distinct_map split: if_splits)
  moreover have "distinct t" using assms(1) by (simp add: distinct_map)
  ultimately show ?thesis by (simp add: update_rows_def distinct_map comp_inj_on_iff [symmetric] inj_on_def comp_def)
qed

lemma filter_update_row:
  "key c = k \<Longrightarrow> filter (\<lambda>y. key y \<noteq> k) (update_rows (\<lambda>y. key y = k) (\<lambda>y. c) t) = filter (\<lambda>y. key y \<noteq> k) t"
  by (induction t) (auto simp: update_rows_def)

lemma save_contribution_new:
  assumes "contributions_ok w" "save_contribution c w = (Inr (), w')" "c_id c = fresh_uuid w"
  shows "contributions_ok w' \<and> contributions w' = contributions w @ [c] \<and> memberships w' = memberships w"
proof -
  have new: "\<forall>x \<in> set (contributions w). c_id x \<noteq> c_id c"
    using assms(1,3) fresh_uuid_unused unfolding contributions_ok_def by metis
  then have absent: "c_id c \<notin> c_id ` set (contributions w)" by auto
  have free: "\<forall>x \<in> set (contributions w). \<not> conflicts c x" and w': "w' = (tick_uuid w)\<lparr>contributions := contributions w @ [c]\<rparr>"
    using assms(2) new absent unfolding save_contribution_def by (simp_all split: if_splits)
  have "contributions_ok w'"
    using contributions_ok_append [OF assms(1) free assms(3)] unfolding w' by (simp add: tick_uuid_def)
  then show ?thesis by (simp add: w' tick_uuid_def)
qed

lemma save_contribution_old:
  assumes "contributions_ok w" "save_contribution c w = (Inr (), w')" "x \<in> set (contributions w)" "c_id c = c_id x"
    and "c_transactionHash c = c_transactionHash x" "c_idempotencyKey c = c_idempotencyKey x"
  shows "contributions_ok w' \<and> memberships w' = memberships w \<and>
    contributions w' = update_rows (\<lambda>y. c_id y = c_id c) (\<lambda>y. c) (contributions w)"
proof -
  let ?t = "contributions w" and ?u = "update_rows (\<lambda>y. c_id y = c_id c) (\<lambda>y. c) (contributions w)"
  have d: "distinct (map c_id ?t)" using assms(1) by (simp add: contributions_ok_def)
  have "c_id c \<in> c_id ` set ?t" using assms(3,4) by auto
  then have free: "\<forall>y \<in> set ?t. c_id y \<noteq> c_id c \<longrightarrow> \<not> conflicts c y" and w': "w' = w\<lparr>contributions := ?u\<rparr>"
    using assms(2) by (auto simp: save_contribution_def split: if_splits)
  have same: "y = x" if "y \<in> set ?t" "c_id y = c_id c" for y
    using d assms(3,4) that by (auto simp: distinct_map dest: inj_onD)
  have ids: "map c_id ?u = map c_id ?t" by (auto simp: update_rows_def)
  have hashes: "map c_transactionHash ?u = map c_transactionHash ?t" and keys: "map c_idempotencyKey ?u = map c_idempotencyKey ?t"
    using same assms(5,6) by (auto simp: update_rows_def)
  have "distinct (map (\<lambda>y. (c_userId y, c_groupId y, c_roundNumber y)) ?u)"
    using assms(1) free by (intro distinct_map_update_row [OF d assms(3,4)]) (auto simp: contributions_ok_def conflicts_def)
  moreover have "used_uuid w (c_id y)" if "y \<in> set ?u" for y
  proof -
    have "c_id y \<in> c_id ` set ?t" using that arg_cong [OF ids, of set] by auto
    with assms(1) show ?thesis by (auto simp: contributions_ok_def)
  qed
  ultimately have "contributions_ok w'"
    using assms(1) ids hashes keys unfolding w' contributions_ok_def map_filter_options
    by (simp add: used_uuid_def)
  then show ?thesis by (simp add: w')
qed


text \<open>What recording an event leaves: the row of its transaction, and the flag of its member.\<close>

definition event_row :: "uuid \<Rightarrow> uuid \<Rightarrow> wallet \<Rightarrow> string \<Rightarrow> int \<Rightarrow> horizon_tx \<Rightarrow> contribution \<Rightarrow> bool" where
  "event_row gid uid a amount round tx c \<longleftrightarrow> c_groupId c = gid \<and> c_userId c = uid \<and> c_walletAddress c = a \<and>
     c_amount c = amount \<and> c_roundNumber c = round \<and> c_transactionHash c = ht_hash tx"

lemma record_event_rows:
  assumes "contributions_ok w" "record_event gid uid a amount round tx w = (Inr (), w')"
  shows "contributions_ok w' \<and>
    (\<exists>c \<in> set (contributions w'). event_row gid uid a amount round tx c \<and>
       (c_status c = CS_PENDING \<or> (\<exists>x \<in> set (contributions w). c_id x = c_id c \<and> c_status x = c_status c)) \<and>
       filter (\<lambda>x. c_id x \<noteq> c_id c) (contributions w') = filter (\<lambda>x. c_id x \<noteq> c_id c) (contributions w)) \<and>
    memberships w' = update_rows (\<lambda>m. m_groupId m = gid \<and> m_userId m = uid) (\<lambda>m. m\<lparr>m_hasPaidCurrentRound := True\<rparr>) (memberships w)"
proof -
  let ?t = "case ht_createdAt tx of None \<Rightarrow> now w | Some d \<Rightarrow> d"
  have marked: "contributions_ok (mark_members P f v) = contributions_ok v" for P f v
    by (simp add: contributions_ok_def mark_members_def used_uuid_def)
  show ?thesis
  proof (cases "List.find (\<lambda>c. c_transactionHash c = ht_hash tx) (contributions w)")
    case None
    let ?c = "event_contribution gid uid a amount round (ht_hash tx) ?t w"
    obtain w1 where w1: "save_contribution ?c w = (Inr (), w1)"
      and w': "w' = mark_members (\<lambda>m. m_groupId m = gid \<and> m_userId m = uid) (\<lambda>m. m\<lparr>m_hasPaidCurrentRound := True\<rparr>) w1"
      using assms(2) None by (auto simp: record_event_def Let_def split: prod.splits sum.splits)
    have new: "\<forall>x \<in> set (contributions w). c_id x \<noteq> c_id ?c"
      using assms(1) fresh_uuid_unused unfolding contributions_ok_def event_contribution_def by fastforce
    have fresh: "c_id ?c = fresh_uuid w" by (simp add: event_contribution_def)
    have "event_row gid uid a amount round tx ?c" "c_status ?c = CS_PENDING"
      by (simp_all add: event_row_def event_contribution_def)
    moreover have "filter (\<lambda>x. c_id x \<noteq> c_id ?c) (contributions w1) = filter (\<lambda>x. c_id x \<noteq> c_id ?c) (contributions w)"
      using save_contribution_new [OF assms(1) w1 fresh] by simp
    ultimately show ?thesis
      using save_contribution_new [OF assms(1) w1 fresh] unfolding w' marked by (auto simp: mark_members_def)
  next
    case (Some x)
    let ?c = "x\<lparr>c_groupId := gid, c_userId := uid, c_walletAddress := a, c_roundNumber := round,
                c_amount := amount, c_timestamp := ?t, c_updatedAt := now w\<rparr>"
    obtain w1 where w1: "save_contribution ?c w = (Inr (), w1)"
      and w': "w' = mark_members (\<lambda>m. m_groupId m = gid \<and> m_userId m = uid) (\<lambda>m. m\<lparr>m_hasPaidCurrentRound := True\<rparr>) w1"
      using assms(2) Some by (auto simp: record_event_def Let_def split: prod.splits sum.splits)
    have x: "x \<in> set (contributions w)" "c_transactionHash x = ht_hash tx" using Some by (auto dest: find_Some_mem)
    have old: "contributions_ok w1 \<and> memberships w1 = memberships w \<and>
        contributions w1 = update_rows (\<lambda>y. c_id y = c_id ?c) (\<lambda>y. ?c) (contributions w)"
      using save_contribution_old [OF assms(1) w1 x(1)] by simp
    have "?c \<in> set (contributions w1)" using old x(1) by (force simp: set_update_rows)
    moreover have "event_row gid uid a amount round tx ?c" using x by (simp add: event_row_def)
    moreover have "filter (\<lambda>y. c_id y \<noteq> c_id ?c) (contributions w1) = filter (\<lambda>y. c_id y \<noteq> c_id ?c) (contributions w)"
      using old filter_update_row [of c_id ?c "c_id ?c" "contributions w"] by simp
    moreover have "\<exists>y \<in> set (contributions w). c_id y = c_id ?c \<and> c_status y = c_status ?c" using x(1) by (intro bexI [of _ x]) simp_all
    ultimately have "\<exists>c \<in> set (contributions w1). event_row gid uid a amount round tx c \<and>
       (c_status c = CS_PENDING \<or> (\<exists>x \<in> set (contributions w). c_id x = c_id c \<and> c_status x = c_status c)) \<and>
       filter (\<lambda>x. c_id x \<noteq> c_id c) (contributions w1) = filter (\<lambda>x. c_id x \<noteq> c_id c) (contributions w)" by blast
    with old show ?thesis unfolding w' marked by (simp add: mark_members_def)
  qed
qed

text \<open>
  A contribution event is recorded once and marks its member. A handled event with all fields
  leaves exactly one row for its transaction, with the values of the event and, when it is new, the
  status PENDING; no other contribution changes, the table stays free of duplicates, and exactly
  the member of the event is marked as having paid, whatever round the event names.
\<close>

theorem contribution_event_recorded:
  assumes "contributions_ok w" "handleContributionReceived p tx w = (Inr (), w')"
    and "readString p [''groupId'', ''group_id''] = Some gid" "readString p [''userId'', ''user_id'', ''memberId''] = Some uid"
    and "readString p [''walletAddress'', ''wallet_address'', ''memberWallet''] = Some a" "readString p [''amount''] = Some amount"
  shows "contributions_ok w' \<and>
    (\<exists>c \<in> set (contributions w'). \<exists>round. event_row gid uid a amount round tx c \<and>
       (c_status c = CS_PENDING \<or> (\<exists>x \<in> set (contributions w). c_id x = c_id c \<and> c_status x = c_status c)) \<and>
       filter (\<lambda>x. c_id x \<noteq> c_id c) (contributions w') = filter (\<lambda>x. c_id x \<noteq> c_id c) (contributions w)) \<and>
    memberships w' = update_rows (\<lambda>m. m_groupId m = gid \<and> m_userId m = uid) (\<lambda>m. m\<lparr>m_hasPaidCurrentRound := True\<rparr>) (memberships w)"
proof -
  obtain round where "record_event gid uid a amount round tx w = (Inr (), w')"
    using assms(2-6) by (auto simp: handleContributionReceived_def split: sum.splits)
  from record_event_rows [OF assms(1) this] show ?thesis by blast
qed

subsection \<open>Rounds from the chain\<close>

lemma groups_received_payout [simp]: "groups (received_payout P w) = groups w"
  by (simp add: received_payout_def mark_members_def)

lemma groups_handleRoundCompleted:
  assumes "readString p [''groupId'', ''group_id''] = Some gid"
  shows "groups (snd (handleRoundCompleted p w)) =
    update_rows (\<lambda>g. g_id g = gid) (\<lambda>g. g\<lparr>g_currentRound := g_currentRound g + 1\<rparr>) (groups w)"
proof -
  have "groups (snd (handleRoundCompleted p w)) = groups (close_round gid w)"
    unfolding handleRoundCompleted_def assms by (simp add: Let_def del: readString.simps readNumber.simps split: option.split sum.split)
  then show ?thesis by (simp add: close_round_def mark_members_def)
qed

lemma find_group_round_completed:
  assumes "readString p [''groupId'', ''group_id''] = Some gid" "find_group gid w = Some g"
  shows "find_group gid (snd (handleRoundCompleted p w)) = Some (g\<lparr>g_currentRound := g_currentRound g + 1\<rparr>)"
proof -
  have "List.find (\<lambda>x. g_id x = gid \<and> g_deletedAt x = None) t = Some g \<Longrightarrow>
      List.find (\<lambda>x. g_id x = gid \<and> g_deletedAt x = None)
        (update_rows (\<lambda>g. g_id g = gid) (\<lambda>g. g\<lparr>g_currentRound := g_currentRound g + 1\<rparr>) t)
      = Some (g\<lparr>g_currentRound := g_currentRound g + 1\<rparr>)" for t
    by (induction t) (auto simp: update_rows_def split: if_splits)
  then show ?thesis using assms unfolding find_group_def groups_handleRoundCompleted [OF assms(1)] by blast
qed

text \<open>
  A completed round is counted twice. When the backend has advanced a group because all its
  members paid, the event that the chain emits for the same round advances it again: the group is
  two rounds further, and the member whose turn was in between has been skipped; in the round
  before the last the group is even beyond its last round while it is still ACTIVE.
\<close>

theorem completed_round_counted_twice:
  assumes "keys_ok w" "groups_ok w" "payouts_ok w" "tryAdvanceRound D pay path_pay crash gid w = (True, w')"
    and "find_group gid w = Some g" "g_currentRound g < g_totalRounds g" "readString p [''groupId'', ''group_id''] = Some gid"
  shows "\<exists>g'. find_group gid (snd (handleRoundCompleted p w')) = Some g' \<and> g_currentRound g' = g_currentRound g + 2 \<and>
    g_status g' = GS_ACTIVE \<and> (g_currentRound g + 1 = g_totalRounds g \<longrightarrow> \<not> lifecycle g')"
proof -
  have adv: "g_status g = GS_ACTIVE" "groups w' = groups (save_group (next_round g) w)"
    using tryAdvanceRound_keeps [OF assms(1-4)] assms(5) by auto
  have "g_deletedAt (next_round g) = None" "g_id (next_round g) = gid" using find_groupD [OF assms(5)] by simp_all
  then have "find_group gid w' = Some (next_round g)"
    using find_group_save [of "next_round g" w] adv(2) by (simp add: find_group_def)
  from find_group_round_completed [OF assms(7) this] show ?thesis
    using adv(1) assms(6) by (auto simp: next_round_def lifecycle_def)
qed

subsection \<open>Concrete runs\<close>

definition demo_tx :: horizon_tx where
  "demo_tx = \<lparr>ht_hash = ''h9'', ht_successful = True, ht_ledger = 7, ht_meta = Some ''xdr'', ht_createdAt = Some 5\<rparr>"

definition demo_paid_event :: payload where
  "demo_paid_event = [(''groupId'', JStr ''g''), (''userId'', JStr ''u1''), (''walletAddress'', JStr ''w1''),
     (''amount'', JStr ''100''), (''roundNumber'', JNum (Dec 1 0))]"

definition demo_diagnostics :: diagnostics_fun where
  "demo_diagnostics meta = Inr [Some ([JStr ''ContributionReceived''], JObject demo_paid_event)]"

definition demo_listener :: "world \<Rightarrow> listener" where
  "demo_listener w = \<lparr>db = w, checkpoint = 3, processed = [], pollingEnabled = True, lastRunAtMs = 0\<rparr>"

theorem events_applied_at_most_once_witness:
  "count_due (tx_due ''h9'') listener_exec
     [Deliver demo_diagnostics 3 demo_tx, Deliver demo_diagnostics 0 demo_tx] (demo_listener demo_active) \<le> 1"
  using events_applied_at_most_once [of "''h9''"] by blast

theorem failed_events_are_lost_witness:
  "count_due (tx_due ''h9'') listener_exec [Deliver demo_diagnostics 0 demo_tx]
     (handle_tx demo_diagnostics 3 demo_tx (demo_listener (demo_stored CS_CONFIRMED))) = 0"
proof -
  let ?w = "demo_stored CS_CONFIRMED"
  have due: "tx_due (ht_hash demo_tx) (Deliver demo_diagnostics 3 demo_tx) (demo_listener ?w)" by code_simp
  have ev: "parseDiagnosticEvents demo_diagnostics (ht_meta demo_tx) = Inr ([] @ (ContributionReceived, demo_paid_event) # [])"
    by code_simp
  have ok: "handle_events [] demo_tx (db (demo_listener ?w)) = (Inr (), ?w)" by (simp add: demo_listener_def)
  have "fst (handleParsedEvent (ContributionReceived, demo_paid_event) demo_tx ?w) = Inl (UniqueViolation ''contributions'')"
    by code_simp
  then have bad: "handleParsedEvent (ContributionReceived, demo_paid_event) demo_tx ?w
      = (Inl (UniqueViolation ''contributions''), snd (handleParsedEvent (ContributionReceived, demo_paid_event) demo_tx ?w))"
    by (metis prod.collapse)
  have h: "ht_hash demo_tx = ''h9''" by (simp add: demo_tx_def)
  from failed_events_are_lost [OF due ev ok bad] show ?thesis unfolding h by (simp add: demo_listener_def del: count_due.simps)
qed

theorem page_boundary_loses_events_witness:
  "\<exists>s1. pollNow \<lparr>contractAddress = ''C'', pollIntervalMs = 15\<rparr> (\<lambda>p c. Inr (200, [demo_tx])) demo_diagnostics (demo_listener demo_active) = (Inr (), s1) \<and>
     pollNow \<lparr>contractAddress = ''C'', pollIntervalMs = 15\<rparr> (\<lambda>p c. Inr (200, [demo_tx\<lparr>ht_hash := ''h8''\<rparr>])) demo_diagnostics s1 = (Inr (), s1)"
proof -
  let ?C = "\<lparr>contractAddress = ''C'', pollIntervalMs = 15\<rparr>"
  let ?s1 = "handle_tx demo_diagnostics 3 demo_tx (demo_listener demo_active)"
  have 1: "pollNow ?C (\<lambda>p c. Inr (200, [demo_tx])) demo_diagnostics (demo_listener demo_active) = (Inr (), ?s1)"
    by (simp add: pollNow_def fetchTransactionsSince_def demo_listener_def)
  from page_boundary_loses_events [OF _ _ _ _ 1, of demo_tx "[]" "\<lambda>p c. Inr (200, [demo_tx\<lparr>ht_hash := ''h8''\<rparr>])"
      "[demo_tx\<lparr>ht_hash := ''h8''\<rparr>]" demo_diagnostics] 1
  show ?thesis by (simp add: fetchTransactionsSince_def demo_listener_def demo_tx_def)
qed

theorem contribution_event_recorded_witness:
  "\<exists>w'. handleContributionReceived demo_paid_event demo_tx demo_active = (Inr (), w') \<and> contributions_ok w'"
proof -
  have "fst (handleContributionReceived demo_paid_event demo_tx demo_active) = Inr ()" by code_simp
  then have "handleContributionReceived demo_paid_event demo_tx demo_active
      = (Inr (), snd (handleContributionReceived demo_paid_event demo_tx demo_active))" by (metis prod.collapse)
  moreover have "readString demo_paid_event [''groupId'', ''group_id''] = Some ''g''"
    "readString demo_paid_event [''userId'', ''user_id'', ''memberId''] = Some ''u1''"
    "readString demo_paid_event [''walletAddress'', ''wallet_address'', ''memberWallet''] = Some ''w1''"
    "readString demo_paid_event [''amount''] = Some ''100''" by code_simp+
  ultimately show ?thesis using contribution_event_recorded [OF demo_deposit_ok(1)] by blast
qed

theorem completed_round_counted_twice_witness:
  "\<exists>g'. find_group ''g'' (snd (handleRoundCompleted [(''groupId'', JStr ''g'')] (snd (demo_try demo_pay (demo_paid 1 demo_members))))) = Some g' \<and>
     g_currentRound g' = 3"
proof -
  have w: "find_group ''g'' (demo_paid 1 demo_members) = Some (demo_group\<lparr>g_status := GS_ACTIVE, g_currentRound := 1\<rparr>)"
    by code_simp
  have "fst (demo_try demo_pay (demo_paid 1 demo_members)) = True" by code_simp
  then have run: "demo_try demo_pay (demo_paid 1 demo_members) = (True, snd (demo_try demo_pay (demo_paid 1 demo_members)))"
    by (metis prod.collapse)
  have "readString [(''groupId'', JStr ''g'')] [''groupId'', ''group_id''] = Some ''g''" by code_simp
  from completed_round_counted_twice [OF demo_round_ok run w _ this] show ?thesis by (auto simp: demo_group_def)
qed

end
