(* ===== verification/ChainSync.thy ===== *)
theory ChainSync
  imports EventListener
begin

text \<open>
  The workers that copy the state of the chain into the database: \<open>EventSyncProcessor\<close>
  (\<open>bullmq/event-sync.processor.ts\<close>) and \<open>GroupSyncProcessor\<close> (\<open>bullmq/group-sync.processor.ts\<close>)
  with the lock of \<open>common/redis/redlock.service.ts\<close>. \<open>chain\<close> is \<open>StellarService.getGroupState\<close>: the native
  value of the contract's state or an exception. The queue of BullMQ is the list of the jobs it still holds; a
  job whose id it holds is dropped. Redlock is a map from keys to a token and an expiry.
\<close>

subsection \<open>The state of the chain\<close>

definition native_fields :: "native \<Rightarrow> (string \<times> native) list" where
  "native_fields v = (case v of JObject p \<Rightarrow> p | _ \<Rightarrow> [])"

definition group_status_of :: "string \<Rightarrow> group_status option" where
  "group_status_of s = List.find (\<lambda>st. show_group_status st = s) [GS_PENDING, GS_ACTIVE, GS_COMPLETED]"

text \<open>\<open>current_round\<close> when it is a number; the column of the group refuses a fraction when it is saved.\<close>

definition chain_round :: "native \<Rightarrow> int outcome option" where
  "chain_round v = (case map_of (native_fields v) ''current_round'' of Some (JNum n) \<Rightarrow> Some (int_column n) | _ \<Rightarrow> None)"

definition chain_status :: "native \<Rightarrow> group_status option" where
  "chain_status v = (case map_of (native_fields v) ''status'' of Some (JStr s) \<Rightarrow> group_status_of (toUpperCase s) | _ \<Rightarrow> None)"

text \<open>The group as the chain has it, or the error its save would raise.\<close>

definition reconcile_group :: "native \<Rightarrow> rosca_group \<Rightarrow> rosca_group outcome" where
  "reconcile_group v g =
     (let g' = (case chain_status v of None \<Rightarrow> g | Some st \<Rightarrow> g\<lparr>g_status := st\<rparr>) in
      case chain_round v of
        None \<Rightarrow> Inr g'
      | Some (Inl e) \<Rightarrow> Inl e
      | Some (Inr k) \<Rightarrow> Inr (g'\<lparr>g_currentRound := k\<rparr>))"

subsection \<open>The event worker\<close>

definition handleSyncOnChainEvent :: "(string \<Rightarrow> native outcome) \<Rightarrow> string \<Rightarrow> unit io" where
  "handleSyncOnChainEvent chain address w =
     (case List.find (\<lambda>g. g_contractAddress g = Some address \<and> g_deletedAt g = None) (groups w) of
        None \<Rightarrow> (Inr (), w)
      | Some g \<Rightarrow> (case chain address of
          Inl e \<Rightarrow> (Inl e, w)
        | Inr v \<Rightarrow> (case reconcile_group v g of
            Inl e \<Rightarrow> (Inl e, w)
          | Inr g' \<Rightarrow> (Inr (), if g' \<noteq> g then save_group g' w else w))))"

record transfer_job =
  tr_from :: wallet
  tr_to :: wallet
  tr_amount :: string
  tr_hash :: string

text \<open>The two writes of a transfer; \<open>crash\<close> stops the worker between them.\<close>

definition handleTransferEvent :: "bool \<Rightarrow> transfer_job \<Rightarrow> unit io" where
  "handleTransferEvent crash j w =
     (if \<exists>c \<in> set (contributions w). c_transactionHash c = tr_hash j then (Inr (), w)
      else case List.find (\<lambda>m. m_walletAddress m = tr_to j) (memberships w) of
        None \<Rightarrow> (Inr (), w)
      | Some m \<Rightarrow> (case find_group (m_groupId m) w of
          None \<Rightarrow> (Inr (), w)
        | Some g \<Rightarrow>
            if g_status g \<noteq> GS_ACTIVE then (Inr (), w)
            else case save_contribution (event_contribution (g_id g) (m_userId m) (tr_to j) (tr_amount j)
                        (g_currentRound g) (tr_hash j) (now w) w) w of
              (Inl e, w1) \<Rightarrow> (Inl e, w1)
            | (Inr _, w1) \<Rightarrow>
                if crash then (Inl (JsError ''Connection terminated''), w1)
                else (Inr (), save_membership (m\<lparr>m_hasPaidCurrentRound := True, m_contributionsMade := m_contributionsMade m + 1\<rparr>) w1)))"

record approval_job =
  ap_owner :: wallet
  ap_spender :: wallet
  ap_amount :: string
  ap_hash :: string

definition approval_notice :: "approval_job \<Rightarrow> membership \<Rightarrow> rosca_group \<Rightarrow> notify_dto" where
  "approval_notice j m g = (plain_dto (m_userId m) PAYOUT_RECEIVED ''Payout Received''
     (''Your payout of '' @ ap_amount j @ '' has been approved for group '' @ CHR 0x22 # g_name g @ [CHR 0x22]))
     \<lparr>nd_idempotencyKey := Some (''payout-approval-'' @ ap_hash j)\<rparr>"

definition handleApprovalEvent :: "approval_job \<Rightarrow> unit io" where
  "handleApprovalEvent j w =
     (case List.find (\<lambda>m. m_walletAddress m = ap_owner j) (memberships w) of
        None \<Rightarrow> (Inr (), w)
      | Some m \<Rightarrow> (case find_group (m_groupId m) w of
          None \<Rightarrow> (Inr (), w)
        | Some g \<Rightarrow>
            if g_status g \<noteq> GS_ACTIVE then (Inr (), w)
            else if m_hasReceivedPayout m then (Inr (), w)
            else case notify (approval_notice j m g)
                   (save_membership (m\<lparr>m_hasReceivedPayout := True, m_transactionHash := Some (ap_hash j)\<rparr>) w) of
              (Inl e, w1) \<Rightarrow> (Inl e, w1)
            | (Inr _, w1) \<Rightarrow> (Inr (), w1)))"

subsection \<open>The group worker\<close>

datatype job_state = Waiting | Active | Completed time | Failed

record sync_job =
  sj_id :: string
  sj_groupId :: uuid
  sj_contract :: string
  sj_state :: job_state

record sync_state =
  sdb :: world
  mediation :: "string \<rightharpoonup> nat \<times> time"
  lock_count :: nat
  sync_queue :: "sync_job list"

text \<open>
  \<open>acquire\<close>: Redlock tries once and \<open>MEDIATION_LOCK_RETRY_COUNT\<close> times more; \<open>tries\<close> says for each attempt
  whether Redis answered (nothing else happens between them). Every error, a held lock included, ends in
  \<open>null\<close>. \<open>release\<close> removes the holder's own token; with Redis down (\<open>up\<close> is False) the error is only logged
  and the key stays until it expires.
\<close>

definition held :: "string \<Rightarrow> sync_state \<Rightarrow> bool" where
  "held k s = (case mediation s k of None \<Rightarrow> False | Some (_, e) \<Rightarrow> now (sdb s) < e)"

definition acquire :: "bool list \<Rightarrow> string \<Rightarrow> time \<Rightarrow> sync_state \<Rightarrow> nat option \<times> sync_state" where
  "acquire tries k ttl s =
     (if list_all Not tries \<or> held k s then (None, s)
      else (Some (lock_count s), s\<lparr>mediation := (mediation s)(k \<mapsto> (lock_count s, now (sdb s) + ttl)), lock_count := lock_count s + 1\<rparr>))"

definition release :: "bool \<Rightarrow> string \<Rightarrow> nat \<Rightarrow> sync_state \<Rightarrow> sync_state" where
  "release up k token s =
     (if \<not> up then s
      else case mediation s k of
        None \<Rightarrow> s
      | Some (t, _) \<Rightarrow> if t = token then s\<lparr>mediation := (mediation s)(k := None)\<rparr> else s)"

datatype sync_status = PROCESSED | SKIPPED

definition lock_key :: "uuid \<Rightarrow> string" where
  "lock_key gid = ''mediation:group:'' @ gid"

text \<open>What happens between acquiring and releasing the lock.\<close>

definition sync_group :: "(string \<Rightarrow> native outcome) \<Rightarrow> uuid \<Rightarrow> string \<Rightarrow> sync_status io" where
  "sync_group chain gid address w =
     (case find_group gid w of
        None \<Rightarrow> (Inr PROCESSED, w)
      | Some g \<Rightarrow> (case chain address of
          Inl e \<Rightarrow> (Inl e, w)
        | Inr v \<Rightarrow> (case reconcile_group v g of
            Inl e \<Rightarrow> (Inl e, w)
          | Inr g' \<Rightarrow> (Inr PROCESSED, if g' \<noteq> g then save_group (g'\<lparr>g_staleAt := None\<rparr>) w else w))))"

definition handleSyncGroupState :: "(string \<Rightarrow> native outcome) \<Rightarrow> bool list \<Rightarrow> bool \<Rightarrow> time \<Rightarrow> uuid \<Rightarrow> string \<Rightarrow> sync_state \<Rightarrow> sync_status outcome \<times> sync_state" where
  "handleSyncGroupState chain tries up lockTtlMs gid address s =
     (case acquire tries (lock_key gid) lockTtlMs s of
        (None, s1) \<Rightarrow> (Inr SKIPPED, s1)
      | (Some token, s1) \<Rightarrow>
          (case sync_group chain gid address (sdb s1) of
             (r, w) \<Rightarrow> (r, release up (lock_key gid) token (s1\<lparr>sdb := w\<rparr>))))"

text \<open>\<open>queue.add\<close>: a job whose id the queue holds, whatever its state, is not added.\<close>

definition add_sync_job :: "sync_job \<Rightarrow> sync_job list \<Rightarrow> sync_job list" where
  "add_sync_job j q = (if sj_id j \<in> sj_id ` set q then q else q @ [j])"

definition sync_job_of :: "rosca_group \<Rightarrow> sync_job" where
  "sync_job_of g = \<lparr>sj_id = g_id g, sj_groupId = g_id g, sj_contract = the (g_contractAddress g), sj_state = Waiting\<rparr>"

definition addSyncGroupState :: "uuid \<Rightarrow> string \<Rightarrow> sync_job list \<Rightarrow> sync_job list" where
  "addSyncGroupState gid address q = add_sync_job \<lparr>sj_id = gid, sj_groupId = gid, sj_contract = address, sj_state = Waiting\<rparr> q"

text \<open>
  The pages of ACTIVE groups. The query has no ORDER BY: \<open>order\<close> is the order the database returns the
  rows in, which may differ from page to page.
\<close>

definition active_groups :: "world \<Rightarrow> rosca_group list" where
  "active_groups w = filter (\<lambda>g. g_status g = GS_ACTIVE \<and> g_deletedAt g = None) (groups w)"

definition sync_page :: "(nat \<Rightarrow> rosca_group list \<Rightarrow> rosca_group list) \<Rightarrow> nat \<Rightarrow> nat \<Rightarrow> world \<Rightarrow> rosca_group list" where
  "sync_page order batch page w = take batch (drop (page * batch) (order page (active_groups w)))"

definition page_jobs :: "rosca_group list \<Rightarrow> sync_job list" where
  "page_jobs gs = map sync_job_of (filter (\<lambda>g. truthy (g_contractAddress g)) gs)"

partial_function (option) sync_pages :: "(nat \<Rightarrow> rosca_group list \<Rightarrow> rosca_group list) \<Rightarrow> nat \<Rightarrow> world \<Rightarrow> nat \<Rightarrow> nat \<Rightarrow> sync_job list
    \<Rightarrow> (nat \<times> sync_job list) option" where
  "sync_pages order batch w page dispatched q =
     (let gs = sync_page order batch page w in
      if gs = [] then Some (dispatched, q)
      else let js = page_jobs gs; q' = fold add_sync_job js q; dispatched' = dispatched + length js in
        if length gs < batch then Some (dispatched', q')
        else sync_pages order batch w (page + 1) dispatched' q')"

definition handleSyncAllGroups :: "(nat \<Rightarrow> rosca_group list \<Rightarrow> rosca_group list) \<Rightarrow> nat \<Rightarrow> sync_state \<Rightarrow> (nat \<times> sync_state) option" where
  "handleSyncAllGroups order batch s =
     (case sync_pages order batch (sdb s) 0 0 (sync_queue s) of
        None \<Rightarrow> None | Some (n, q) \<Rightarrow> Some (n, s\<lparr>sync_queue := q\<rparr>))"

text \<open>
  The end of a job: a failed one is kept for ever (\<open>removeOnFail: false\<close>), a completed one for a day
  (\<open>removeOnComplete\<close>; the bound of 1000 jobs is left out).
\<close>

definition job_ended :: "string \<Rightarrow> bool \<Rightarrow> time \<Rightarrow> sync_job list \<Rightarrow> sync_job list" where
  "job_ended i ok t q =
     filter (\<lambda>j. case sj_state j of Completed e \<Rightarrow> t < e + 24 * 60 * 60 * 1000 | _ \<Rightarrow> True)
       (map (\<lambda>j. if sj_id j = i \<and> sj_state j \<in> {Waiting, Active} then j\<lparr>sj_state := if ok then Completed t else Failed\<rparr> else j) q)"

subsection \<open>The copy of the chain\<close>

lemma reconcile_group_Inr:
  assumes "reconcile_group v g = Inr g'"
  shows "g' = g\<lparr>g_status := (case chain_status v of None \<Rightarrow> g_status g | Some st \<Rightarrow> st),
     g_currentRound := (case chain_round v of Some (Inr k) \<Rightarrow> k | _ \<Rightarrow> g_currentRound g)\<rparr>"
  using assms by (auto simp: reconcile_group_def Let_def split: option.splits sum.splits)

text \<open>The group with the status and the round of the chain, where the chain gives them.\<close>

definition chain_group :: "native \<Rightarrow> rosca_group \<Rightarrow> rosca_group" where
  "chain_group v g = g\<lparr>g_status := (case chain_status v of None \<Rightarrow> g_status g | Some st \<Rightarrow> st),
     g_currentRound := (case chain_round v of Some (Inr k) \<Rightarrow> k | _ \<Rightarrow> g_currentRound g)\<rparr>"

lemma reconcile_group_spec:
  "reconcile_group v g = (case chain_round v of Some (Inl e) \<Rightarrow> Inl e | _ \<Rightarrow> Inr (chain_group v g))"
proof (cases "chain_round v")
  case None
  then show ?thesis by (cases "chain_status v") (simp_all add: reconcile_group_def chain_group_def)
next
  case (Some x)
  then show ?thesis by (cases x; cases "chain_status v") (simp_all add: reconcile_group_def chain_group_def)
qed

lemma sync_group_spec:
  "sync_group chain gid address w =
    (case find_group gid w of
       None \<Rightarrow> (Inr PROCESSED, w)
     | Some g \<Rightarrow> (case chain address of
         Inl e \<Rightarrow> (Inl e, w)
       | Inr v \<Rightarrow> (case chain_round v of
           Some (Inl e) \<Rightarrow> (Inl e, w)
         | _ \<Rightarrow> (Inr PROCESSED, if chain_group v g = g then w else save_group ((chain_group v g)\<lparr>g_staleAt := None\<rparr>) w))))"
proof (cases "find_group gid w")
  case (Some g)
  then show ?thesis
  proof (cases "chain address")
    case (Inr v)
    show ?thesis
    proof (cases "chain_round v")
      case None
      with Some Inr show ?thesis by (simp add: sync_group_def reconcile_group_spec)
    next
      case (Some x)
      with \<open>find_group gid w = Some g\<close> Inr show ?thesis by (cases x) (simp_all add: sync_group_def reconcile_group_spec)
    qed
  qed (simp add: sync_group_def)
qed (simp add: sync_group_def)

text \<open>Where the chain gives no fraction, the group is saved when it changes.\<close>

definition synced :: "native \<Rightarrow> rosca_group \<Rightarrow> uuid \<Rightarrow> world \<Rightarrow> world \<Rightarrow> bool" where
  "synced v g gid w w' \<longleftrightarrow> (if chain_group v g = g then w' = w
     else w' = w\<lparr>groups := save_row g_id ((chain_group v g)\<lparr>g_staleAt := None\<rparr>) (groups w)\<rparr> \<and>
       find_group gid w' = Some ((chain_group v g)\<lparr>g_staleAt := None\<rparr>) \<and>
       (\<forall>i. i \<noteq> gid \<longrightarrow> find_group i w' = find_group i w))"

lemma synced_save:
  assumes "find_group gid w = Some g"
  shows "synced v g gid w (if chain_group v g = g then w else save_group ((chain_group v g)\<lparr>g_staleAt := None\<rparr>) w)"
proof -
  let ?n = "(chain_group v g)\<lparr>g_staleAt := None\<rparr>"
  have "g_id ?n = gid" "g_deletedAt ?n = None" using find_groupD [OF assms] by (simp_all add: chain_group_def)
  then show ?thesis using find_group_save [of ?n w] find_group_save_other [of _ ?n w]
    by (simp add: synced_def save_group_def [of ?n])
qed

text \<open>
  C30: One synchronisation of a group. When Redis answers no attempt, or another worker holds the lock,
  the job is skipped and nothing changes. Otherwise it runs: the lock is free again afterwards, whatever
  happened, when Redis answers the release, and else stays held until it expires; a missing group changes
  nothing; an exception, of the chain or of a round that is no integer, leaves the database as it was;
  else the group gets the status and the round of the chain where the chain gives them and, when that
  changes it, loses its stale mark. No other column, group or table changes. No transition is refused: a
  COMPLETED group becomes ACTIVE again, in an earlier round, if the chain says so.
\<close>

theorem handleSyncGroupState_correct:
  assumes run: "handleSyncGroupState chain tries up ttl gid address s = (r, s')"
  shows "if True \<notin> set tries \<or> (\<exists>t e. mediation s (lock_key gid) = Some (t, e) \<and> now (sdb s) < e) then r = Inr SKIPPED \<and> s' = s
    else sync_queue s' = sync_queue s \<and>
      mediation s' = (mediation s)(lock_key gid := if up then None else Some (lock_count s, now (sdb s) + ttl)) \<and>
      (case find_group gid (sdb s) of
         None \<Rightarrow> r = Inr PROCESSED \<and> sdb s' = sdb s
       | Some g \<Rightarrow> (case chain address of
           Inl e \<Rightarrow> r = Inl e \<and> sdb s' = sdb s
         | Inr v \<Rightarrow> (case chain_round v of
             Some (Inl e) \<Rightarrow> r = Inl e \<and> sdb s' = sdb s
           | _ \<Rightarrow> r = Inr PROCESSED \<and>
               (if chain_group v g = g then sdb s' = sdb s
                else sdb s' = (sdb s)\<lparr>groups := save_row g_id ((chain_group v g)\<lparr>g_staleAt := None\<rparr>) (groups (sdb s))\<rparr> \<and>
                  find_group gid (sdb s') = Some ((chain_group v g)\<lparr>g_staleAt := None\<rparr>) \<and>
                  (\<forall>i. i \<noteq> gid \<longrightarrow> find_group i (sdb s') = find_group i (sdb s))))))"
proof (cases "True \<notin> set tries \<or> (\<exists>t e. mediation s (lock_key gid) = Some (t, e) \<and> now (sdb s) < e)")
  case True
  have "list_all Not tries \<longleftrightarrow> True \<notin> set tries" by (auto simp: list_all_iff)
  with True show ?thesis using run by (auto simp: handleSyncGroupState_def acquire_def held_def)
next
  case False
  obtain r' w where sg: "sync_group chain gid address (sdb s) = (r', w)" by fastforce
  have "list_all Not tries \<longleftrightarrow> True \<notin> set tries" by (auto simp: list_all_iff)
  then have s': "r = r'" "sdb s' = w" "sync_queue s' = sync_queue s"
      "mediation s' = (mediation s)(lock_key gid := if up then None else Some (lock_count s, now (sdb s) + ttl))"
    using run False sg
    by (auto simp: handleSyncGroupState_def acquire_def held_def release_def split: option.splits prod.splits if_splits)
  note run = sg [unfolded sync_group_spec]
  have "case find_group gid (sdb s) of None \<Rightarrow> r' = Inr PROCESSED \<and> w = sdb s
      | Some g \<Rightarrow> (case chain address of Inl e \<Rightarrow> r' = Inl e \<and> w = sdb s
        | Inr v \<Rightarrow> (case chain_round v of Some (Inl e) \<Rightarrow> r' = Inl e \<and> w = sdb s
          | _ \<Rightarrow> r' = Inr PROCESSED \<and> synced v g gid (sdb s) w))"
  proof (cases "find_group gid (sdb s)")
    case (Some g)
    note saved = synced_save [OF Some]
    show ?thesis
    proof (cases "chain address")
      case (Inr v)
      show ?thesis
      proof (cases "chain_round v")
        case None
        with run Some Inr saved [of v] show ?thesis by auto
      next
        case (Some x)
        with run \<open>find_group gid (sdb s) = Some g\<close> Inr saved [of v] show ?thesis by (cases x) auto
      qed
    qed (use run Some in auto)
  qed (use run in auto)
  with False show ?thesis by (simp only: s' synced_def if_False simp_thms)
qed

subsection \<open>Transfers and approvals\<close>

definition transfer_row :: "transfer_job \<Rightarrow> membership \<Rightarrow> rosca_group \<Rightarrow> world \<Rightarrow> contribution" where
  "transfer_row j m g w = event_contribution (g_id g) (m_userId m) (tr_to j) (tr_amount j) (g_currentRound g) (tr_hash j) (now w) w"

lemma transfer_row_simps [simp]:
  "c_transactionHash (transfer_row j m g w) = tr_hash j" "c_userId (transfer_row j m g w) = m_userId m"
  "c_groupId (transfer_row j m g w) = g_id g" "c_roundNumber (transfer_row j m g w) = g_currentRound g"
  "c_amount (transfer_row j m g w) = tr_amount j" "c_status (transfer_row j m g w) = CS_PENDING"
  "c_id (transfer_row j m g w) = fresh_uuid w"
  by (simp_all add: transfer_row_def event_contribution_def)

text \<open>The contribution of a transfer is stored unless the row conflicts or a reference is missing.\<close>

lemma save_transfer_row:
  assumes "save_contribution (transfer_row j m g w) w = (Inr u, w1)" "fresh_uuid w \<notin> c_id ` set (contributions w)"
  shows "contributions w1 = contributions w @ [transfer_row j m g w]" "memberships w1 = memberships w" "groups w1 = groups w"
  using assms by (auto simp: save_contribution_def frame_simps split: if_splits)

lemma handleTransferEvent_run:
  assumes "\<forall>c \<in> set (contributions w). c_transactionHash c \<noteq> tr_hash j"
    and "List.find (\<lambda>m. m_walletAddress m = tr_to j) (memberships w) = Some m"
    and "find_group (m_groupId m) w = Some g" "g_status g = GS_ACTIVE"
    and "save_contribution (transfer_row j m g w) w = (Inr (), w1)"
  shows "handleTransferEvent crash j w = (if crash then (Inl (JsError ''Connection terminated''), w1)
    else (Inr (), save_membership (m\<lparr>m_hasPaidCurrentRound := True, m_contributionsMade := m_contributionsMade m + 1\<rparr>) w1))"
  using assms by (auto simp: handleTransferEvent_def transfer_row_def)

lemma handleTransferEvent_known:
  "\<exists>c \<in> set (contributions w). c_transactionHash c = tr_hash j \<Longrightarrow> handleTransferEvent crash j w = (Inr (), w)"
  by (simp add: handleTransferEvent_def)

text \<open>
  A transfer event credits the receiver, not the sender: whoever pays any amount to the wallet of
  a member of an ACTIVE group, the payout of a round included, makes the first membership with this
  wallet paid for the current round, with a PENDING contribution of that amount; the sender
  and the amount due are not looked at. The event is applied once: when it is delivered again nothing
  changes.
\<close>

theorem transfer_credits_receiver:
  assumes "\<forall>c \<in> set (contributions w). c_transactionHash c \<noteq> tr_hash j"
    and m: "List.find (\<lambda>m. m_walletAddress m = tr_to j) (memberships w) = Some m"
    and g: "find_group (m_groupId m) w = Some g" "g_status g = GS_ACTIVE"
    and refs: "references_ok (transfer_row j m g w) w" "\<forall>c \<in> set (contributions w). \<not> conflicts (transfer_row j m g w) c"
    and new: "fresh_uuid w \<notin> c_id ` set (contributions w)" and keys: "keys_ok w"
  shows "\<exists>w' c m'. handleTransferEvent False j w = (Inr (), w') \<and> contributions w' = contributions w @ [c]
    \<and> c_userId c = m_userId m \<and> c_groupId c = m_groupId m \<and> c_roundNumber c = g_currentRound g \<and> c_amount c = tr_amount j
    \<and> c_status c = CS_PENDING \<and> m' \<in> set (memberships w') \<and> m_id m' = m_id m \<and> m_hasPaidCurrentRound m'
    \<and> (\<forall>from'. handleTransferEvent False (j\<lparr>tr_from := from'\<rparr>) w = (Inr (), w')) \<and> handleTransferEvent False j w' = (Inr (), w')"
proof -
  let ?c = "transfer_row j m g w"
  have gid: "g_id g = m_groupId m" using g(1) by (auto dest: find_groupD)
  obtain w1 where save: "save_contribution ?c w = (Inr (), w1)"
    using refs new by (auto simp: save_contribution_def)
  note w1 = save_transfer_row [OF save new]
  let ?w = "save_membership (m\<lparr>m_hasPaidCurrentRound := True, m_contributionsMade := m_contributionsMade m + 1\<rparr>) w1"
  have run: "handleTransferEvent False j' w = (Inr (), ?w)" if "tr_to j' = tr_to j" "tr_hash j' = tr_hash j" "tr_amount j' = tr_amount j" for j'
  proof -
    have "transfer_row j' m g w = ?c" using that by (simp add: transfer_row_def)
    then show ?thesis using handleTransferEvent_run [of w j' m g w1 False] assms(1) m g save that by simp
  qed
  have again: "handleTransferEvent False j ?w = (Inr (), ?w)"
    by (rule handleTransferEvent_known) (simp add: save_membership_def w1)
  have "m\<lparr>m_hasPaidCurrentRound := True, m_contributionsMade := m_contributionsMade m + 1\<rparr> \<in> set (memberships ?w)"
    by (simp add: save_membership_def set_save_row)
  with run [of j] run [of "j\<lparr>tr_from := f\<rparr>" for f] again show ?thesis
    by (intro exI [of _ ?w] exI [of _ ?c]
          exI [of _ "m\<lparr>m_hasPaidCurrentRound := True, m_contributionsMade := m_contributionsMade m + 1\<rparr>"])
       (simp add: gid w1 save_membership_def)
qed

text \<open>
  The two writes of a transfer are not atomic: when the worker stops between them the contribution
  is stored, the membership is not marked, and every further delivery of the event finds
  the contribution and does nothing, so the member stays unpaid for the round.
\<close>

theorem transfer_retry_loses_flag:
  assumes "\<forall>c \<in> set (contributions w). c_transactionHash c \<noteq> tr_hash j"
    and "List.find (\<lambda>m. m_walletAddress m = tr_to j) (memberships w) = Some m"
    and "find_group (m_groupId m) w = Some g" "g_status g = GS_ACTIVE"
    and "references_ok (transfer_row j m g w) w" "\<forall>c \<in> set (contributions w). \<not> conflicts (transfer_row j m g w) c"
    and new: "fresh_uuid w \<notin> c_id ` set (contributions w)"
  shows "\<exists>e w1. handleTransferEvent True j w = (Inl e, w1) \<and> memberships w1 = memberships w
    \<and> contributions w1 = contributions w @ [transfer_row j m g w]
    \<and> (\<forall>crash. handleTransferEvent crash j w1 = (Inr (), w1))"
proof -
  obtain w1 where save: "save_contribution (transfer_row j m g w) w = (Inr (), w1)"
    using assms(5,6) new by (auto simp: save_contribution_def)
  note w1 = save_transfer_row [OF save new]
  have "handleTransferEvent crash j w1 = (Inr (), w1)" for crash
    by (rule handleTransferEvent_known) (simp add: w1)
  with handleTransferEvent_run [OF assms(1-4) save, of True] w1 show ?thesis by simp
qed

text \<open>
  C35: An approval event takes the payout of a member away. When the first membership of the wallet
  belongs to an ACTIVE group with a contract, is scheduled and not yet paid out, any approval the wallet
  gives marks it as paid out although nothing was paid, whatever the outcome of the notification. In every
  run of the payout service from then on the payout of the member's round is refused and changes nothing.
\<close>

theorem approval_blocks_payout:
  assumes keys: "keys_ok w"
    and m: "List.find (\<lambda>m. m_walletAddress m = ap_owner j) (memberships w) = Some m"
    and g: "find_group (m_groupId m) w = Some g" "g_status g = GS_ACTIVE" "truthy (g_contractAddress g)"
    and k: "m_payoutOrder m = Some k" "find_membership_by_order (m_groupId m) k w = Some m"
    and unpaid: "\<not> m_hasReceivedPayout m" and run: "handleApprovalEvent j w = (r, w')"
    and later: "payouts_ok w" "w2 = fold (payout_exec D) ops w'"
  shows "payout_txs w' = payout_txs w
    \<and> distributePayout D pay path_pay crash (m_groupId m) (k + 1) w2 = (Inl (ConflictException ''Member has already received payout''), w2)"
proof -
  let ?m = "m\<lparr>m_hasReceivedPayout := True, m_transactionHash := Some (ap_hash j)\<rparr>"
  obtain n where "notify (approval_notice j m g) (save_membership ?m w) = (n, w')"
    using run m g unpaid by (auto simp: handleApprovalEvent_def split: prod.splits sum.splits)
  then have same: "same_tables (save_membership ?m w) w'" by (rule notify_frame)
  have mem: "m \<in> set (memberships w)" "m_groupId m = m_groupId m" using k(2) by (auto dest: find_membership_by_orderD)
  have rows: "memberships (save_membership ?m w) = map (\<lambda>x. if m_id x = m_id m then ?m else x) (memberships w)"
    using mem by (force simp: save_membership_def save_row_def)
  have eq: "(if m_id x = m_id m then ?m else x) = (if x = m then ?m else x)" if "x \<in> set (memberships w)" for x
    using membership_by_id [OF keys that mem(1)] by auto
  have "List.find (\<lambda>x. m_groupId x = m_groupId m \<and> m_payoutOrder x = Some k) (map (\<lambda>x. if x = m then ?m else x) xs) = Some ?m"
    if "List.find (\<lambda>x. m_groupId x = m_groupId m \<and> m_payoutOrder x = Some k) xs = Some m" for xs
    using that by (induction xs) (use k(1) in \<open>auto split: if_splits\<close>)
  with k(2) have "find_membership_by_order (m_groupId m) k (save_membership ?m w) = Some ?m"
    unfolding find_membership_by_order_def rows by (simp add: eq cong: map_cong)
  then have order: "find_membership_by_order (m_groupId m) k w' = Some ?m"
    using same by (simp add: find_membership_by_order_def same_tables_def)
  have group: "find_group (m_groupId m) w' = Some g"
    using same g(1) by (simp add: find_group_def same_tables_def save_membership_def)
  have txs: "payout_txs w' = payout_txs w" and "uuid_count w \<le> uuid_count w'"
    using same by (simp_all add: same_tables_def save_membership_def)
  then have "payouts_ok w'" by (rule payouts_ok_cong [OF _ _ later(1)])
  moreover have "map m_id (memberships w') = map m_id (memberships w)"
    using same rows by (simp add: same_tables_def comp_def if_distrib [of m_id] cong: if_cong)
  then have "recipient_received (m_groupId m) k w'" using keys order by (simp add: recipient_received_def keys_ok_def)
  ultimately have "payout_closed (m_groupId m) k (groups w') w2"
    unfolding later(2) by (intro received.run_inv) (simp add: payout_closed_def)
  then obtain m2 where "find_membership_by_order (m_groupId m) k w2 = Some m2" "m_hasReceivedPayout m2" "groups w2 = groups w'"
    by (auto simp: payout_closed_def recipient_received_def)
  then show ?thesis using g group txs by (simp add: distributePayout_def find_group_def)
qed

subsection \<open>The jobs of all groups\<close>

lemma ids_add_sync_jobs: "sj_id ` set (fold add_sync_job js q) = sj_id ` set js \<union> sj_id ` set q"
  by (induction js arbitrary: q) (auto simp: add_sync_job_def)

lemma add_sync_jobs_keep: "x \<in> set q \<Longrightarrow> x \<in> set (fold add_sync_job js q)"
  by (induction js arbitrary: q) (auto simp: add_sync_job_def)

lemma page_jobs_append: "page_jobs (xs @ ys) = page_jobs xs @ page_jobs ys"
  by (simp add: page_jobs_def)

lemma sync_pages_spec:
  assumes "0 < batch" "\<And>p. order p (active_groups w) = xs"
  shows "sync_pages order batch w page n q =
    Some (n + length (page_jobs (drop (page * batch) xs)), fold add_sync_job (page_jobs (drop (page * batch) xs)) q)"
proof (induction "length xs - page * batch" arbitrary: page n q rule: less_induct)
  case less
  let ?ys = "drop (page * batch) xs"
  have page: "sync_page order batch page w = take batch ?ys" by (simp add: sync_page_def assms(2))
  show ?case
  proof (cases "length ?ys < batch")
    case True
    then show ?thesis by (subst sync_pages.simps) (simp add: page page_jobs_def Let_def)
  next
    case False
    then have "length xs - (page + 1) * batch < length xs - page * batch" using assms(1) by simp
    note IH = less [OF this, of "n + length (page_jobs (take batch ?ys))" "fold add_sync_job (page_jobs (take batch ?ys)) q"]
    have "take batch ?ys @ drop ((page + 1) * batch) xs = ?ys"
      by (metis append_take_drop_id drop_drop add.commute mult_Suc Suc_eq_plus1)
    from arg_cong [OF this, of page_jobs]
    have "page_jobs ?ys = page_jobs (take batch ?ys) @ page_jobs (drop ((page + 1) * batch) xs)"
      by (simp add: page_jobs_append)
    moreover have "take batch ?ys \<noteq> []" using False assms(1) by auto
    ultimately show ?thesis
      by (subst sync_pages.simps) (use False IH in \<open>simp add: page Let_def\<close>)
  qed
qed

text \<open>
  The job for all groups ends and dispatches one job for every ACTIVE group with a contract, however
  many pages it takes, provided the database returns the rows in the same order for every page;
  jobs that are in the queue stay.
\<close>

theorem handleSyncAllGroups_covers:
  assumes "0 < batch" and "\<And>p. order p = order 0" and "\<And>ys. mset (order 0 ys) = mset ys"
  shows "\<exists>s'. handleSyncAllGroups order batch s =
      Some (length (filter (\<lambda>g. truthy (g_contractAddress g)) (active_groups (sdb s))), s')
    \<and> sdb s' = sdb s \<and> set (sync_queue s) \<subseteq> set (sync_queue s')
    \<and> sj_id ` set (sync_queue s') = sj_id ` set (sync_queue s) \<union>
        {g_id g |g. g \<in> set (groups (sdb s)) \<and> g_status g = GS_ACTIVE \<and> g_deletedAt g = None \<and> truthy (g_contractAddress g)}"
proof -
  let ?xs = "order 0 (active_groups (sdb s))"
  have perm: "mset ?xs = mset (active_groups (sdb s))" by (rule assms(3))
  have "order p (active_groups (sdb s)) = ?xs" for p by (subst assms(2)) (rule refl)
  from sync_pages_spec [OF assms(1), where order = order and xs = ?xs, OF this, of 0 0 "sync_queue s"]
  have run: "sync_pages order batch (sdb s) 0 0 (sync_queue s)
      = Some (length (page_jobs ?xs), fold add_sync_job (page_jobs ?xs) (sync_queue s))" by simp
  have "mset (filter (\<lambda>g. truthy (g_contractAddress g)) ?xs) = mset (filter (\<lambda>g. truthy (g_contractAddress g)) (active_groups (sdb s)))"
    using perm by simp
  then have "length (page_jobs ?xs) = length (filter (\<lambda>g. truthy (g_contractAddress g)) (active_groups (sdb s)))"
    unfolding page_jobs_def length_map by (metis size_mset)
  moreover have "sj_id ` set (page_jobs ?xs) =
      {g_id g |g. g \<in> set (groups (sdb s)) \<and> g_status g = GS_ACTIVE \<and> g_deletedAt g = None \<and> truthy (g_contractAddress g)}"
    using mset_eq_setD [OF perm] by (auto simp: page_jobs_def sync_job_of_def active_groups_def image_iff)
  ultimately show ?thesis
    using run add_sync_jobs_keep by (auto simp: handleSyncAllGroups_def ids_add_sync_jobs)
qed

text \<open>Without ORDER BY the pages may overlap: one group twice and the other not at all.\<close>

lemma pages_can_miss:
  assumes "active_groups w = [g1, g2]" "truthy (g_contractAddress g1)" "truthy (g_contractAddress g2)" "g_id g1 \<noteq> g_id g2"
  shows "\<exists>order. (\<forall>p ys. mset (order p ys) = mset ys) \<and> (\<exists>n. sync_pages order 1 w 0 0 [] = Some (n, [sync_job_of g1]))"
proof -
  let ?order = "\<lambda>p ys. if p = Suc 0 then rev ys else ys"
  have "sync_pages ?order 1 w 0 0 [] = Some (2, [sync_job_of g1])"
    using assms by (simp add: sync_pages.simps sync_page_def page_jobs_def add_sync_job_def sync_job_of_def Let_def)
  then show ?thesis by (intro exI [of _ ?order]) simp
qed

text \<open>The calls that change the queue.\<close>

datatype queue_op = AddOne uuid string | AddAll "rosca_group list" | JobEnded string bool time

fun queue_exec :: "queue_op \<Rightarrow> sync_job list \<Rightarrow> sync_job list" where
  "queue_exec (AddOne gid address) q = addSyncGroupState gid address q"
| "queue_exec (AddAll gs) q = fold add_sync_job (page_jobs gs) q"
| "queue_exec (JobEnded i ok t) q = job_ended i ok t q"

definition failed_kept :: "uuid \<Rightarrow> sync_job list \<Rightarrow> bool" where
  "failed_kept gid q \<longleftrightarrow> (\<exists>j \<in> set q. sj_id j = gid) \<and> (\<forall>j \<in> set q. sj_id j = gid \<longrightarrow> sj_state j = Failed)"

lemma failed_kept_add: "failed_kept gid q \<Longrightarrow> failed_kept gid (fold add_sync_job js q)"
proof (induction js arbitrary: q)
  case (Cons j js)
  have "failed_kept gid (add_sync_job j q)" using Cons.prems by (auto simp: failed_kept_def add_sync_job_def)
  from Cons.IH [OF this] show ?case by simp
qed simp

lemma failed_kept_ended: "failed_kept gid q \<Longrightarrow> failed_kept gid (job_ended i ok t q)"
  by (force simp: failed_kept_def job_ended_def)

interpretation failed_job: machine queue_exec "failed_kept gid" for gid
proof
  show "failed_kept gid (queue_exec op q)" if "failed_kept gid q" for op q
    using that failed_kept_add [OF that] failed_kept_ended [OF that]
    by (cases op) (simp_all add: addSyncGroupState_def failed_kept_add [of gid q "[j]" for j, simplified])
qed

text \<open>
  A group whose synchronisation failed for good is never synchronised again: its job stays
  in the queue with the id of the group, so every later request for the group, alone or with all
  groups, is dropped, in every run of the queue.
\<close>

theorem failed_sync_never_again:
  assumes "j \<in> set q" "sj_id j = gid" "sj_state j = Failed" "distinct (map sj_id q)"
    and "x \<in> set (fold queue_exec ops q)" "sj_id x = gid"
  shows "sj_state x = Failed"
proof -
  have "failed_kept gid q"
    using assms(1-4) unfolding failed_kept_def by (metis eq_key_imp_eq_value distinct_map inj_onD)
  from failed_job.run_inv [OF this, of ops] assms(5,6) show ?thesis by (simp add: failed_kept_def)
qed

subsection \<open>Concrete runs\<close>

definition demo_sync :: "group_status \<Rightarrow> int \<Rightarrow> sync_state" where
  "demo_sync st round = \<lparr>sdb = demo_world st round demo_members, mediation = Map.empty, lock_count = 0, sync_queue = []\<rparr>"

definition demo_chain :: "string \<Rightarrow> native outcome" where
  "demo_chain address = Inr (JObject [(''current_round'', JNum (Dec 1 0)), (''status'', JStr ''Active'')])"

theorem handleSyncGroupState_correct_witness:
  "\<exists>r s' g. handleSyncGroupState demo_chain [True] True 30000 ''g'' ''C1'' (demo_sync GS_COMPLETED 3) = (r, s')
     \<and> find_group ''g'' (sdb s') = Some g \<and> g_status g = GS_ACTIVE \<and> g_currentRound g = 1 \<and> mediation s' = Map.empty"
proof -
  let ?v = "JObject [(''current_round'', JNum (Dec 1 0)), (''status'', JStr ''Active'')]"
  obtain r s' where run: "handleSyncGroupState demo_chain [True] True 30000 ''g'' ''C1'' (demo_sync GS_COMPLETED 3) = (r, s')" by fastforce
  have g: "find_group ''g'' (sdb (demo_sync GS_COMPLETED 3)) = Some (demo_group\<lparr>g_status := GS_COMPLETED, g_currentRound := 3\<rparr>)"
    by (simp add: demo_sync_def demo_defs find_group_def)
  have st: "chain_status ?v = Some GS_ACTIVE" by code_simp
  have rd: "chain_round ?v = Some (Inr 1)" by (simp add: chain_round_def native_fields_def)
  have new: "chain_group ?v (demo_group\<lparr>g_status := GS_COMPLETED, g_currentRound := 3\<rparr>)
      = demo_group\<lparr>g_status := GS_ACTIVE, g_currentRound := 1\<rparr>" by (simp add: chain_group_def st rd)
  have ne: "demo_group\<lparr>g_status := GS_ACTIVE, g_currentRound := 1\<rparr> \<noteq> demo_group\<lparr>g_status := GS_COMPLETED, g_currentRound := 3\<rparr>"
    by (simp add: demo_group_def)
  have free: "mediation (demo_sync GS_COMPLETED 3) = Map.empty" by (simp add: demo_sync_def)
  have chain: "demo_chain ''C1'' = Inr ?v" by (simp add: demo_chain_def)
  note eff = handleSyncGroupState_correct [OF run, simplified g chain rd free option.case sum.case new ne, simplified]
  from eff have "find_group ''g'' (sdb s') = Some (demo_group\<lparr>g_status := GS_ACTIVE, g_currentRound := 1, g_staleAt := None\<rparr>)"
      "mediation s' = Map.empty" by blast+
  with run show ?thesis by (intro exI conjI) (assumption | simp)+
qed

definition demo_transfer :: transfer_job where
  "demo_transfer = \<lparr>tr_from = ''treasury'', tr_to = ''w1'', tr_amount = ''300'', tr_hash = ''H''\<rparr>"

lemma demo_transfer_facts:
  "List.find (\<lambda>m. m_walletAddress m = tr_to demo_transfer) (memberships (demo_world GS_ACTIVE 1 demo_members)) = Some (demo_member 1 ''u1'' ''w1'' (Some 1))"
  "find_group ''g'' (demo_world GS_ACTIVE 1 demo_members) = Some (demo_group\<lparr>g_status := GS_ACTIVE, g_currentRound := 1\<rparr>)"
  "references_ok (transfer_row demo_transfer (demo_member 1 ''u1'' ''w1'' (Some 1)) (demo_group\<lparr>g_status := GS_ACTIVE, g_currentRound := 1\<rparr>)
     (demo_world GS_ACTIVE 1 demo_members)) (demo_world GS_ACTIVE 1 demo_members)"
  by (simp_all add: demo_transfer_def demo_defs find_group_def references_ok_def)

theorem transfer_credits_receiver_witness:
  "\<exists>w' c m'. handleTransferEvent False demo_transfer (demo_world GS_ACTIVE 1 demo_members) = (Inr (), w')
     \<and> c \<in> set (contributions w') \<and> c_userId c = ''u1'' \<and> c_amount c = ''300'' \<and> m' \<in> set (memberships w') \<and> m_hasPaidCurrentRound m'"
proof -
  have "m_groupId (demo_member 1 ''u1'' ''w1'' (Some 1)) = ''g''" by (simp add: demo_defs)
  note facts = demo_transfer_facts [folded this]
  from transfer_credits_receiver [OF _ facts(1,2) _ facts(3) _ _ keys_ok_demo] show ?thesis
    by (fastforce simp: demo_defs demo_transfer_def)
qed

theorem transfer_retry_loses_flag_witness:
  "\<exists>e w1. handleTransferEvent True demo_transfer (demo_world GS_ACTIVE 1 demo_members) = (Inl e, w1)
     \<and> memberships w1 = demo_members \<and> handleTransferEvent False demo_transfer w1 = (Inr (), w1)"
proof -
  have "m_groupId (demo_member 1 ''u1'' ''w1'' (Some 1)) = ''g''" by (simp add: demo_defs)
  note facts = demo_transfer_facts [folded this]
  have ms: "memberships (demo_world GS_ACTIVE 1 demo_members) = demo_members" by (simp add: demo_world_def)
  from transfer_retry_loses_flag [OF _ facts(1,2) _ facts(3)] ms show ?thesis by (fastforce simp: demo_world_def empty_world_def)
qed

theorem approval_blocks_payout_witness:
  "\<exists>r w'. handleApprovalEvent \<lparr>ap_owner = ''w1'', ap_spender = ''x'', ap_amount = ''5'', ap_hash = ''H''\<rparr> (demo_world GS_ACTIVE 2 demo_members) = (r, w')
     \<and> fst (distributePayout demo_decimals demo_pay demo_path False ''g'' 2
         (fold (payout_exec demo_decimals) [Poll, Distribute ''g'' 2 demo_pay demo_path False] w'))
       = Inl (ConflictException ''Member has already received payout'')"
proof -
  let ?j = "\<lparr>ap_owner = ''w1'', ap_spender = ''x'', ap_amount = ''5'', ap_hash = ''H''\<rparr>" and ?w = "demo_world GS_ACTIVE 2 demo_members"
  let ?m = "demo_member 1 ''u1'' ''w1'' (Some 1)"
  obtain r w' where run: "handleApprovalEvent ?j ?w = (r, w')" by fastforce
  have m: "List.find (\<lambda>m. m_walletAddress m = ap_owner ?j) (memberships ?w) = Some ?m"
    and g: "find_group (m_groupId ?m) ?w = Some (demo_group\<lparr>g_status := GS_ACTIVE, g_currentRound := 2\<rparr>)"
    and k: "m_payoutOrder ?m = Some 1" "find_membership_by_order (m_groupId ?m) 1 ?w = Some ?m" "\<not> m_hasReceivedPayout ?m"
    and gid: "m_groupId ?m = ''g''" and ok: "payouts_ok ?w"
    by (simp_all add: demo_defs find_group_def find_membership_by_order_def payouts_ok_def)
  let ?ops = "[Poll, Distribute ''g'' 2 demo_pay demo_path False]"
  have "fst (distributePayout demo_decimals demo_pay demo_path False (m_groupId ?m) (1 + 1) (fold (payout_exec demo_decimals) ?ops w'))
      = Inl (ConflictException ''Member has already received payout'')"
    using approval_blocks_payout [where D = demo_decimals and ops = ?ops and pay = demo_pay and path_pay = demo_path and crash = False,
        OF keys_ok_demo m g _ _ k(1,2,3) run ok refl] by (simp add: demo_group_def)
  then have "fst (distributePayout demo_decimals demo_pay demo_path False ''g'' 2 (fold (payout_exec demo_decimals) ?ops w'))
      = Inl (ConflictException ''Member has already received payout'')" unfolding gid by simp
  with run show ?thesis by blast
qed

theorem handleSyncAllGroups_covers_witness:
  "\<exists>s'. handleSyncAllGroups (\<lambda>_ ys. ys) 50 (demo_sync GS_ACTIVE 1) = Some (1, s') \<and> sj_id ` set (sync_queue s') = {''g''}"
proof -
  from handleSyncAllGroups_covers [of 50 "\<lambda>_ ys. ys" "demo_sync GS_ACTIVE 1"] obtain s' where
    "handleSyncAllGroups (\<lambda>_ ys. ys) 50 (demo_sync GS_ACTIVE 1)
       = Some (length (filter (\<lambda>g. truthy (g_contractAddress g)) (active_groups (sdb (demo_sync GS_ACTIVE 1)))), s')"
    "sj_id ` set (sync_queue s') = sj_id ` set (sync_queue (demo_sync GS_ACTIVE 1)) \<union>
        {g_id g |g. g \<in> set (groups (sdb (demo_sync GS_ACTIVE 1))) \<and> g_status g = GS_ACTIVE \<and> g_deletedAt g = None \<and> truthy (g_contractAddress g)}"
    by auto
  then show ?thesis by (simp add: demo_sync_def active_groups_def demo_defs)
qed

theorem failed_sync_never_again_witness:
  "\<forall>x \<in> set (fold queue_exec [AddOne ''g'' ''C1'', JobEnded ''g'' True 5]
       [\<lparr>sj_id = ''g'', sj_groupId = ''g'', sj_contract = ''C1'', sj_state = Failed\<rparr>]). sj_state x = Failed"
proof
  fix x assume x: "x \<in> set (fold queue_exec [AddOne ''g'' ''C1'', JobEnded ''g'' True 5]
       [\<lparr>sj_id = ''g'', sj_groupId = ''g'', sj_contract = ''C1'', sj_state = Failed\<rparr>])"
  then have "sj_id x = ''g''" by (simp add: addSyncGroupState_def add_sync_job_def job_ended_def)
  from failed_sync_never_again [OF _ _ _ _ x this] show "sj_state x = Failed" by simp
qed

end
