(* ===== verification/Json.thy ===== *)
theory Json
  imports Prelude "HOL-Library.List_Lexorder" "HOL-Library.Char_ord" "HOL-Library.Multiset"
begin

text \<open>
  JavaScript values as they travel in events and jobs, and the two functions of the backend that turn
  one into a text that does not depend on the order of keys: \<open>stableSerialize\<close> of
  \<open>webhooks/webhook.service.ts\<close> and \<open>canonicalize\<close> of \<open>bullmq/poison-message-detector.service.ts\<close>. Strings are
  byte strings, keys are ordered as bytes (the order of \<open>sort()\<close> on ASCII keys), and a number is the
  text JavaScript prints for it.
\<close>

datatype json =
    JUndefined
  | JNull
  | JBool bool
  | JNumber string
  | JString string
  | JArray "json list"
  | JObj "(string \<times> json) list"

fun join_comma :: "string list \<Rightarrow> string" where
  "join_comma [] = []"
| "join_comma [s] = s"
| "join_comma (s # ss) = s @ CHR '','' # join_comma ss"

subsection \<open>JSON.stringify of a string\<close>

definition hex_digit :: "nat \<Rightarrow> char" where
  "hex_digit d = char_of (if d < 10 then 48 + d else 87 + d)"

definition short_escape :: "nat \<Rightarrow> char option" where
  "short_escape k = (if k = 8 then Some CHR ''b'' else if k = 9 then Some CHR ''t'' else if k = 10 then Some CHR ''n''
     else if k = 12 then Some CHR ''f'' else if k = 13 then Some CHR ''r'' else if k = 34 then Some CHR 0x22
     else if k = 92 then Some CHR 0x5C else None)"

definition escape_char :: "char \<Rightarrow> string" where
  "escape_char c = (let k = of_char c in
     case short_escape k of
       Some e \<Rightarrow> [CHR 0x5C, e]
     | None \<Rightarrow> if k < 32 then CHR 0x5C # ''u00'' @ [hex_digit (k div 16), hex_digit (k mod 16)] else [c])"

definition json_string :: "string \<Rightarrow> string" where
  "json_string s = CHR 0x22 # concat (map escape_char s) @ [CHR 0x22]"

subsection \<open>The texts\<close>

fun stable_text :: "json \<Rightarrow> string" where
  "stable_text JUndefined = ''undefined''"
| "stable_text JNull = ''null''"
| "stable_text (JBool b) = (if b then ''true'' else ''false'')"
| "stable_text (JNumber n) = n"
| "stable_text (JString s) = json_string s"
| "stable_text (JArray vs) = CHR ''['' # join_comma (map (\<lambda>v. if v = JUndefined then [] else stable_text v) vs) @ '']''"
| "stable_text (JObj kvs) = CHR ''{'' # join_comma (map (\<lambda>(k, t). json_string k @ CHR '':'' # t)
     (sort_key fst (map (\<lambda>(k, v). (k, stable_text v)) kvs))) @ ''}''"

definition stableSerialize :: "json \<Rightarrow> string" where
  "stableSerialize v = stable_text v"

text \<open>\<open>JSON.stringify\<close>, which keeps the order of keys, leaves out those that are \<open>undefined\<close> and prints
\<open>undefined\<close> as \<open>null\<close> in an array.\<close>

fun stringify :: "json \<Rightarrow> string" where
  "stringify JUndefined = ''null''"
| "stringify JNull = ''null''"
| "stringify (JBool b) = (if b then ''true'' else ''false'')"
| "stringify (JNumber n) = n"
| "stringify (JString s) = json_string s"
| "stringify (JArray vs) = CHR ''['' # join_comma (map stringify vs) @ '']''"
| "stringify (JObj kvs) = CHR ''{'' # join_comma (map (\<lambda>(k, u, t). json_string k @ CHR '':'' # t)
     (filter (\<lambda>(k, u, t). \<not> u) (map (\<lambda>(k, v). (k, v = JUndefined, stringify v)) kvs))) @ ''}''"

fun canonicalize :: "json \<Rightarrow> string" where
  "canonicalize JUndefined = ''null''"
| "canonicalize JNull = ''null''"
| "canonicalize (JBool b) = (if b then ''true'' else ''false'')"
| "canonicalize (JNumber n) = n"
| "canonicalize (JString s) = s"
| "canonicalize (JArray vs) = CHR ''['' # join_comma (map canonicalize vs) @ '']''"
| "canonicalize (JObj kvs) = CHR ''{'' # join_comma (map (\<lambda>(k, t). k @ CHR '':'' # t)
     (sort_key fst (map (\<lambda>(k, v). (k, canonicalize v)) kvs))) @ ''}''"

text \<open>The values the texts tell apart: finite numbers, no key twice, and no \<open>undefined\<close> in an array
(which \<open>join\<close> prints as nothing).\<close>

definition number_char :: "char \<Rightarrow> bool" where
  "number_char c = (c \<in> set ''0123456789+-.eE'')"

fun json_wf :: "json \<Rightarrow> bool" where
  "json_wf (JNumber n) = (n \<noteq> [] \<and> list_all number_char n \<and> hd n \<in> set ''-0123456789'')"
| "json_wf (JArray vs) = list_all (\<lambda>v. v \<noteq> JUndefined \<and> json_wf v) vs"
| "json_wf (JObj kvs) = (distinct (map fst kvs) \<and> list_all (\<lambda>(k, v). json_wf v) kvs)"
| "json_wf _ = True"

text \<open>Equality up to the order of keys: the value with its keys sorted.\<close>

fun key_sorted :: "json \<Rightarrow> json" where
  "key_sorted (JArray vs) = JArray (map key_sorted vs)"
| "key_sorted (JObj kvs) = JObj (sort_key fst (map (\<lambda>(k, v). (k, key_sorted v)) kvs))"
| "key_sorted v = v"

subsection \<open>Texts can be read back in one way\<close>

lemma hex_digit_cases: "d < 16 \<Longrightarrow> e < 16 \<Longrightarrow> hex_digit d = hex_digit e \<Longrightarrow> d = e"
  by (auto simp: hex_digit_def split: if_splits)

lemma short_escape_inj: "short_escape k = Some e \<Longrightarrow> short_escape k' = Some e \<Longrightarrow> k = k'"
  by (auto simp: short_escape_def split: if_splits)

lemma short_escape_not_u: "short_escape k \<noteq> Some CHR ''u''"
  by (auto simp: short_escape_def)

lemma short_escape_special [simp]: "short_escape 34 \<noteq> None" "short_escape 92 \<noteq> None"
  by (simp_all add: short_escape_def)

lemma of_char_eq: "of_char c = (of_char d :: nat) \<Longrightarrow> c = d"
  by (metis char_of_char)

text \<open>How an escaped character starts decides which character it is.\<close>

lemma escape_char_cases:
  obtains (short) e where "short_escape (of_char c) = Some e" "escape_char c = [CHR 0x5C, e]"
  | (ctrl) k where "of_char c = k" "k < 32" "short_escape k = None"
      "escape_char c = CHR 0x5C # CHR ''u'' # CHR ''0'' # CHR ''0'' # [hex_digit (k div 16), hex_digit (k mod 16)]"
  | (plain) "escape_char c = [c]" "c \<noteq> CHR 0x5C" "c \<noteq> CHR 0x22"
proof (cases "short_escape (of_char c)")
  case (Some e)
  then show ?thesis using short by (simp add: escape_char_def Let_def)
next
  case None
  then have "c \<noteq> CHR 0x5C" "c \<noteq> CHR 0x22" by (auto simp: short_escape_def)
  with None ctrl plain show ?thesis by (cases "of_char c < (32 :: nat)") (simp_all add: escape_char_def Let_def)
qed

lemma escape_char_unique: "escape_char c @ x = escape_char d @ y \<Longrightarrow> c = d \<and> x = y"
proof -
  assume eq: "escape_char c @ x = escape_char d @ y"
  have hex: "k = l" if "k < 32" "l < 32" "hex_digit (k div 16) = hex_digit (l div 16)" "hex_digit (k mod 16) = hex_digit (l mod 16)" for k l
  proof -
    have "k div 16 = l div 16" "k mod 16 = l mod 16"
      using that by (auto intro!: hex_digit_cases simp: less_mult_imp_div_less)
    then show ?thesis by (metis div_mult_mod_eq)
  qed
  show ?thesis
  proof (cases c rule: escape_char_cases)
    case (short e)
    with eq show ?thesis
      by (cases d rule: escape_char_cases) (auto simp: short_escape_not_u dest: short_escape_inj of_char_eq)
  next
    case c: (ctrl k)
    show ?thesis
    proof (cases d rule: escape_char_cases)
      case (ctrl l)
      with eq c have "hex_digit (k div 16) = hex_digit (l div 16)" "hex_digit (k mod 16) = hex_digit (l mod 16)" "x = y"
        by simp_all
      with hex [of k l] c ctrl of_char_eq [of c d] show ?thesis by simp
    qed (use eq c in \<open>auto simp: short_escape_not_u\<close>)
  next
    case plain
    with eq show ?thesis by (cases d rule: escape_char_cases) auto
  qed
qed

lemma escape_char_not_quote: "escape_char c @ x \<noteq> CHR 0x22 # y"
  by (cases c rule: escape_char_cases) auto

lemma json_string_unique: "json_string s @ x = json_string t @ y \<Longrightarrow> s = t \<and> x = y"
proof -
  assume "json_string s @ x = json_string t @ y"
  then have "concat (map escape_char s) @ CHR 0x22 # x = concat (map escape_char t) @ CHR 0x22 # y" by (simp add: json_string_def)
  then show ?thesis
  proof (induction s arbitrary: t)
    case Nil
    show ?case
    proof (cases t)
      case (Cons d t')
      with Nil have "escape_char d @ concat (map escape_char t') @ CHR 0x22 # y = CHR 0x22 # x" by simp
      then show ?thesis by (simp add: escape_char_not_quote)
    qed (use Nil in simp)
  next
    case (Cons c s)
    then show ?case
    proof (cases t)
      case Nil
      with Cons.prems show ?thesis using escape_char_not_quote [of c "concat (map escape_char s) @ CHR 0x22 # x" y] by simp
    next
      case t: (Cons d t')
      with Cons.prems escape_char_unique [of c "concat (map escape_char s) @ CHR 0x22 # x" d] have "c = d"
          "concat (map escape_char s) @ CHR 0x22 # x = concat (map escape_char t') @ CHR 0x22 # y" by simp_all
      with Cons.IH t show ?thesis by blast
    qed
  qed
qed

text \<open>What may follow a value: nothing, a comma or a closing bracket.\<close>

definition ends :: "string \<Rightarrow> bool" where
  "ends x \<longleftrightarrow> x = [] \<or> hd x \<in> {CHR '','', CHR '']'', CHR ''}''}"

lemma ends_simps [simp]: "ends []" "ends (CHR '','' # x)" "ends (CHR '']'' # x)" "ends (CHR ''}'' # x)"
  by (simp_all add: ends_def)

lemma numbers_unique:
  assumes "list_all number_char m" "list_all number_char n" "ends x" "ends y" "m @ x = n @ y"
  shows "m = n \<and> x = y"
proof -
  have stop: "takeWhile number_char z = []" if "ends z" for z
    using that by (cases z) (auto simp: ends_def number_char_def)
  have "takeWhile number_char (m @ x) = m" "takeWhile number_char (n @ y) = n"
    using assms(1-4) stop by (simp_all add: list_all_iff takeWhile_append2)
  with assms(5) show ?thesis by auto
qed

lemma join_comma_simps [simp]: "join_comma (s # ss) = s @ (if ss = [] then [] else CHR '','' # join_comma ss)"
  by (cases ss) simp_all

text \<open>A list of texts that can each be read in one way can be read in one way up to its bracket.\<close>

definition opens :: "string \<Rightarrow> bool" where
  "opens s \<longleftrightarrow> s \<noteq> [] \<and> hd s \<notin> {CHR '','', CHR '']'', CHR ''}''}"

lemma opens_append: "opens s \<Longrightarrow> opens (s @ x)"
  by (cases s) (auto simp: opens_def)

lemma join_comma_unique:
  assumes "\<And>a b x y. a \<in> set as \<Longrightarrow> b \<in> set bs \<Longrightarrow> ends x \<Longrightarrow> ends y \<Longrightarrow> f a @ x = f b @ y \<Longrightarrow> g a = g b \<and> x = y"
    and "\<And>a. a \<in> set as \<union> set bs \<Longrightarrow> opens (f a)"
    and c: "c \<in> {CHR '']'', CHR ''}''}" and "join_comma (map f as) @ c # u = join_comma (map f bs) @ c # v"
  shows "map g as = map g bs \<and> u = v"
  using assms(1,2,4)
proof (induction as arbitrary: bs)
  case Nil
  show ?case
  proof (cases bs)
    case (Cons b bs')
    have "opens (f b)" using Nil.prems(2) Cons by simp
    with Nil.prems(3) Cons c show ?thesis by (cases "f b") (auto simp: opens_def)
  qed (use Nil.prems(3) in simp)
next
  case (Cons a as)
  show ?case
  proof (cases bs)
    case Nil
    have "opens (f a)" using Cons.prems(2) by simp
    with Cons.prems(3) Nil c show ?thesis by (cases "f a") (auto simp: opens_def)
  next
    case bs: (Cons b bs')
    let ?r = "\<lambda>ss w. (if ss = [] then [] else CHR '','' # join_comma (map f ss)) @ c # w"
    have ends: "ends (?r ss w)" for ss w using c by auto
    have "f a @ ?r as u = f b @ ?r bs' v" using Cons.prems(3) bs by simp
    from Cons.prems(1) [OF _ _ ends ends this] bs have ab: "g a = g b" and rest: "?r as u = ?r bs' v" by simp_all
    show ?thesis
    proof (cases "as = [] \<or> bs' = []")
      case True
      with rest c ab bs show ?thesis by (auto split: if_splits)
    next
      case False
      with rest have "join_comma (map f as) @ c # u = join_comma (map f bs') @ c # v" by simp
      from Cons.IH [OF _ _ this] Cons.prems(1,2) bs ab show ?thesis by auto
    qed
  qed
qed

text \<open>The first character of a text tells the kind of the value.\<close>

lemma opens_stable_text: "json_wf v \<Longrightarrow> opens (stable_text v)"
  by (cases v) (auto simp: opens_def json_string_def)

lemma sorted_key_text:
  "sort_key fst (map (\<lambda>(k, v). (k, h v)) kvs) = map (\<lambda>(k, v). (k, h v)) (sort_key fst kvs)"
  by (subst sort_key_map) (simp add: comp_def case_prod_unfold)

lemma stable_text_obj:
  "stable_text (JObj kvs) = CHR ''{'' # join_comma (map (\<lambda>(k, v). json_string k @ CHR '':'' # stable_text v) (sort_key fst kvs)) @ ''}''"
proof -
  have "(\<lambda>(k, t). json_string k @ CHR '':'' # t) \<circ> (\<lambda>(k, v). (k, stable_text v)) = (\<lambda>(k, v). json_string k @ CHR '':'' # stable_text v)"
    by auto
  then show ?thesis by (simp only: stable_text.simps sorted_key_text map_map)
qed

lemma key_sorted_obj: "key_sorted (JObj kvs) = JObj (map (\<lambda>(k, v). (k, key_sorted v)) (sort_key fst kvs))"
  by (simp add: sorted_key_text)

lemma stable_text_unique:
  "json_wf v \<Longrightarrow> json_wf w \<Longrightarrow> ends x \<Longrightarrow> ends y \<Longrightarrow> stable_text v @ x = stable_text w @ y
   \<Longrightarrow> key_sorted v = key_sorted w \<and> x = y"
proof (induction v arbitrary: w x y)
  case JUndefined
  then show ?case by (cases w) (auto simp: json_string_def neq_Nil_conv split: if_splits)
next
  case JNull
  then show ?case by (cases w) (auto simp: json_string_def neq_Nil_conv split: if_splits)
next
  case (JBool b)
  then show ?case by (cases w) (auto simp: json_string_def neq_Nil_conv split: if_splits)
next
  case (JNumber n)
  then obtain d r where n: "n = d # r" by (cases n) auto
  show ?case
  proof (cases w)
    case (JNumber m)
    with JNumber.prems numbers_unique [of n m x y] show ?thesis by simp
  qed (use JNumber.prems n in \<open>auto simp: json_string_def split: if_splits\<close>)
next
  case (JString s)
  show ?case
  proof (cases w)
    case (JString t)
    with JString.prems json_string_unique [of s x t y] show ?thesis by simp
  next
    case (JNumber m)
    with JString.prems show ?thesis by (cases m) (auto simp: json_string_def)
  qed (use JString.prems in \<open>auto simp: json_string_def split: if_splits\<close>)
next
  case (JArray vs)
  show ?case
  proof (cases w)
    case w: (JArray ws)
    have "join_comma (map stable_text vs) @ CHR '']'' # x = join_comma (map stable_text ws) @ CHR '']'' # y"
    proof -
      have "map (\<lambda>v. if v = JUndefined then [] else stable_text v) us = map stable_text us" if "json_wf (JArray us)" for us
        using that by (auto simp: list_all_iff)
      with JArray.prems w show ?thesis by (simp del: json_wf.simps)
    qed
    then have "map key_sorted vs = map key_sorted ws \<and> x = y"
      by (rule join_comma_unique [rotated 3])
         (use JArray w in \<open>auto simp: list_all_iff intro: opens_stable_text\<close>)
    with w show ?thesis by simp
  next
    case (JNumber m)
    with JArray.prems show ?thesis by (cases m) auto
  qed (use JArray.prems in \<open>auto simp: json_string_def split: if_splits\<close>)
next
  case (JObj kvs)
  show ?case
  proof (cases w)
    case w: (JObj kws)
    let ?f = "\<lambda>(k, v). json_string k @ CHR '':'' # stable_text v" and ?g = "\<lambda>(k, v). (k, key_sorted v)"
    have "join_comma (map ?f (sort_key fst kvs)) @ CHR ''}'' # x = join_comma (map ?f (sort_key fst kws)) @ CHR ''}'' # y"
      using JObj.prems(5) unfolding w stable_text_obj by simp
    then have "map ?g (sort_key fst kvs) = map ?g (sort_key fst kws) \<and> x = y"
    proof (rule join_comma_unique [rotated 3])
      fix a b x y assume ab: "a \<in> set (sort_key fst kvs)" "b \<in> set (sort_key fst kws)" "ends x" "ends y" "?f a @ x = ?f b @ y"
      obtain k v l u where a: "a = (k, v)" and b: "b = (l, u)" by (cases a; cases b)
      have "json_string k @ CHR '':'' # (stable_text v @ x) = json_string l @ CHR '':'' # (stable_text u @ y)" using ab(5) a b by simp
      from json_string_unique [OF this] have kl: "k = l" "stable_text v @ x = stable_text u @ y" by auto
      have "json_wf v" "json_wf u" using JObj.prems(1,2) ab(1,2) a b w by (auto simp: list_all_iff)
      with JObj.IH [of a v u x y] kl ab(1,3,4) a b show "?g a = ?g b \<and> x = y" by auto
    qed (auto simp: opens_def json_string_def)
    with w show ?thesis by (simp add: key_sorted_obj del: key_sorted.simps)
  next
    case (JNumber m)
    with JObj.prems show ?thesis by (cases m; auto)
  qed (use JObj.prems in \<open>auto simp: json_string_def split: if_splits\<close>)
qed

subsection \<open>Both texts ignore the order of keys\<close>

lemma sort_key_twice [simp]: "sort_key f (sort_key f xs) = sort_key f xs"
  by (rule sort_key_id_if_sorted) simp

lemma sorted_map_entries:
  assumes "\<And>k v. (k, v) \<in> set kvs \<Longrightarrow> f (k, h v) = f (k, v)"
  shows "map f (sort_key fst (map (\<lambda>(k, v). (k, h v)) (sort_key fst kvs))) = map f (sort_key fst kvs)"
  unfolding sorted_key_text sort_key_twice map_map using assms by (intro map_cong) auto

lemma stable_text_key_sorted: "stable_text (key_sorted v) = stable_text v"
proof (induction v)
  case (JArray vs)
  have "key_sorted v = JUndefined \<longleftrightarrow> v = JUndefined" for v by (cases v) auto
  then have "map (\<lambda>v. if v = JUndefined then [] else stable_text v) (map key_sorted vs) =
      map (\<lambda>v. if v = JUndefined then [] else stable_text v) vs"
    using JArray by simp
  then show ?case by (simp only: key_sorted.simps stable_text.simps)
next
  case (JObj kvs)
  then show ?case
    unfolding key_sorted_obj stable_text_obj by (subst sorted_map_entries) auto
qed simp_all

lemma canonicalize_obj:
  "canonicalize (JObj kvs) = CHR ''{'' # join_comma (map (\<lambda>(k, v). k @ CHR '':'' # canonicalize v) (sort_key fst kvs)) @ ''}''"
proof -
  have "(\<lambda>(k, t). k @ CHR '':'' # t) \<circ> (\<lambda>(k, v). (k, canonicalize v)) = (\<lambda>(k, v). k @ CHR '':'' # canonicalize v)"
    by auto
  then show ?thesis by (simp only: canonicalize.simps sorted_key_text map_map)
qed

lemma canonicalize_key_sorted: "canonicalize (key_sorted v) = canonicalize v"
proof (induction v)
  case (JArray vs)
  then have "map canonicalize (map key_sorted vs) = map canonicalize vs" by simp
  then show ?case by (simp only: key_sorted.simps canonicalize.simps)
next
  case (JObj kvs)
  then show ?case
    unfolding key_sorted_obj canonicalize_obj by (subst sorted_map_entries) auto
qed simp_all

text \<open>Two orders of the same keys are the same value once the keys are sorted.\<close>

lemma key_sorted_perm:
  assumes "mset kvs = mset kws" "distinct (map fst kvs)"
  shows "key_sorted (JObj kvs) = key_sorted (JObj kws)"
proof -
  have "inj_on fst (set kvs)" using assms(2) by (simp add: distinct_map)
  with assms(1) have "sort_key fst kvs = sort_key fst kws"
    by (intro sort_key_inj_key_eq) (simp_all add: set_mset_mset [symmetric] del: set_mset_mset)
  then show ?thesis by (simp only: key_sorted_obj)
qed

lemma stable_text_eq_iff:
  assumes "json_wf v" "json_wf w"
  shows "stable_text v = stable_text w \<longleftrightarrow> key_sorted v = key_sorted w"
  using stable_text_unique [OF assms, of "[]" "[]"] stable_text_key_sorted [of v] stable_text_key_sorted [of w] by auto

text \<open>\<open>stableSerialize\<close> gives two JSON values the same text exactly when they differ in nothing but the
order of their keys, and an object with its keys in another order is such a value. (Numbers are finite, no
key occurs twice, no array holds \<open>undefined\<close>: what JSON itself can carry.)\<close>

theorem stableSerialize_identifies:
  assumes "json_wf v" "json_wf w"
  shows "(stableSerialize v = stableSerialize w \<longleftrightarrow> key_sorted v = key_sorted w) \<and>
    (\<forall>kvs kws. v = JObj kvs \<longrightarrow> mset kvs = mset kws \<longrightarrow> stableSerialize v = stableSerialize (JObj kws))"
proof -
  have "stable_text v = stable_text (JObj kws)" if "v = JObj kvs" "mset kvs = mset kws" for kvs kws
    using that assms(1) key_sorted_perm [of kvs kws] stable_text_key_sorted [of "JObj kvs"]
      stable_text_key_sorted [of "JObj kws"] by simp
  with stable_text_eq_iff [OF assms] show ?thesis unfolding stableSerialize_def by blast
qed

theorem stableSerialize_identifies_witness:
  "stableSerialize (JObj [(''b'', JNumber ''1''), (''a'', JNull)]) = stableSerialize (JObj [(''a'', JNull), (''b'', JNumber ''1'')])"
  using stableSerialize_identifies [of "JObj [(''b'', JNumber ''1''), (''a'', JNull)]" JNull]
  by (auto simp: number_char_def)

end
