(* ===== verification/Webhooks.thy ===== *)
theory Webhooks
  imports Tables Fx Json
begin

text \<open>
  Webhooks: \<open>WebhookService\<close> (\<open>webhooks/webhook.service.ts\<close>), the worker of its queue
  (\<open>webhooks/webhook-delivery.processor.ts\<close>) and \<open>DeadLetterService\<close> (\<open>bullmq/dead-letter.service.ts\<close>). SHA-256
  and HMAC-SHA256 (as hexadecimal texts) are the arguments \<open>sha\<close> and \<open>hmac\<close>; what the endpoint of a
  webhook answers, and whether the row of the answer can be saved, are arguments of each call.
  The queue is the list of its waiting jobs. Every request that is sent is logged, with its answer.
\<close>

subsection \<open>Rows, payloads and jobs\<close>

record webhook =
  wh_id :: uuid
  wh_userId :: uuid
  wh_url :: string
  wh_secret :: string
  wh_eventTypes :: "string list"
  wh_isActive :: bool

text \<open>\<open>p_id_last\<close>: the id was appended to a payload that came without one.\<close>

record wh_payload =
  p_event :: string
  p_event_id :: "string option"
  p_id_last :: bool
  p_timestamp :: string
  p_data :: json

datatype delivery_status = D_SUCCESS | D_FAILED | D_PENDING

record delivery =
  dl_id :: uuid
  dl_webhookId :: uuid
  dl_eventId :: string
  dl_status :: delivery_status
  dl_responseCode :: "nat option"
  dl_responseBody :: "string option"
  dl_payload :: wh_payload
  dl_attemptNumber :: nat
  dl_attemptedAt :: time

record wh_job =
  wj_id :: string
  wj_webhookId :: uuid
  wj_url :: string
  wj_secret :: string
  wj_payload :: wh_payload
  wj_attempts :: nat
  wj_attemptsMade :: nat

record dead_letter =
  dd_originalQueue :: string
  dd_originalJobId :: string
  dd_job :: wh_job
  dd_failedReason :: string
  dd_failedAt :: string
  dd_attemptsMade :: nat

text \<open>An answer is its status and \<open>JSON.stringify\<close> of its data; without one there is the error's message.\<close>

datatype endpoint = Answer nat string | Unreachable string

record request =
  rq_webhookId :: uuid
  rq_eventId :: string
  rq_url :: string
  rq_body :: string
  rq_signature :: string
  rq_answer :: endpoint
  rq_saved :: bool

record wh_state =
  wh_now :: time
  wh_ids :: nat
  webhooks :: "webhook list"
  deliveries :: "delivery list"
  wh_queue :: "wh_job list"
  dead_letters :: "dead_letter list"
  requests :: "request list"

record wh_result =
  r_statusCode :: nat
  r_responseBody :: string

type_synonym 'a wh_io = "wh_state \<Rightarrow> 'a outcome \<times> wh_state"

definition wh_fresh :: "wh_state \<Rightarrow> uuid" where
  "wh_fresh s = show_nat (wh_ids s)"

text \<open>\<open>JSON.stringify\<close> of a payload: the keys in the order the code writes them.\<close>

definition payload_json :: "wh_payload \<Rightarrow> json" where
  "payload_json p =
     (let i = (case p_event_id p of None \<Rightarrow> [] | Some e \<Rightarrow> [(''event_id'', JString e)])
      in JObj ([(''event'', JString (p_event p))] @ (if p_id_last p then [] else i)
           @ [(''timestamp'', JString (p_timestamp p)), (''data'', p_data p)] @ (if p_id_last p then i else [])))"

text \<open>\<open>{ ...payload, event_id: eventId }\<close>: a new key goes to the end.\<close>

definition add_event_id :: "string \<Rightarrow> wh_payload \<Rightarrow> wh_payload" where
  "add_event_id e p = p\<lparr>p_event_id := Some e, p_id_last := (p_event_id p = None \<or> p_id_last p)\<rparr>"

definition generateSignature :: "(string \<Rightarrow> string \<Rightarrow> string) \<Rightarrow> string \<Rightarrow> string \<Rightarrow> string" where
  "generateSignature hmac body secret = ''sha256='' @ hmac secret body"

definition createEventId :: "(string \<Rightarrow> string) \<Rightarrow> string \<Rightarrow> json \<Rightarrow> string" where
  "createEventId sha event d = sha (event @ CHR '':'' # stableSerialize d)"

definition payload_event_id :: "(string \<Rightarrow> string) \<Rightarrow> wh_payload \<Rightarrow> string" where
  "payload_event_id sha p = (case p_event_id p of Some e \<Rightarrow> e | None \<Rightarrow> createEventId sha (p_event p) (p_data p))"

subsection \<open>Managing webhooks\<close>

definition find_webhook :: "uuid \<Rightarrow> wh_state \<Rightarrow> webhook option" where
  "find_webhook i s = List.find (\<lambda>w. wh_id w = i) (webhooks s)"

text \<open>\<open>secret\<close> stands for \<open>randomBytes(32)\<close>.\<close>

definition createWebhook :: "string \<Rightarrow> uuid \<Rightarrow> string \<Rightarrow> string list \<Rightarrow> webhook wh_io" where
  "createWebhook secret u url types s =
     (let w = \<lparr>wh_id = wh_fresh s, wh_userId = u, wh_url = url, wh_secret = secret,
               wh_eventTypes = types, wh_isActive = True\<rparr>
      in (Inr w, s\<lparr>webhooks := webhooks s @ [w], wh_ids := wh_ids s + 1\<rparr>))"

text \<open>The deliveries of a deleted webhook go with it (\<open>onDelete: 'CASCADE'\<close>).\<close>

definition deleteWebhook :: "uuid \<Rightarrow> uuid \<Rightarrow> unit wh_io" where
  "deleteWebhook i u s =
     (if \<exists>w \<in> set (webhooks s). wh_id w = i \<and> wh_userId w = u
      then (Inr (), s\<lparr>webhooks := filter (\<lambda>w. \<not> (wh_id w = i \<and> wh_userId w = u)) (webhooks s),
                      deliveries := filter (\<lambda>d. dl_webhookId d \<noteq> i) (deliveries s)\<rparr>)
      else (Inl (NotFoundException ''Webhook not found or unauthorized''), s))"

subsection \<open>Dispatch\<close>

definition wh_add :: "uuid \<Rightarrow> string \<Rightarrow> string \<Rightarrow> wh_payload \<Rightarrow> wh_state \<Rightarrow> wh_state" where
  "wh_add i url secret p s =
     s\<lparr>wh_queue := wh_queue s @ [\<lparr>wj_id = wh_fresh s, wj_webhookId = i, wj_url = url, wj_secret = secret,
          wj_payload = p, wj_attempts = 5, wj_attemptsMade = 0\<rparr>], wh_ids := wh_ids s + 1\<rparr>"

definition dispatchEvent :: "(string \<Rightarrow> string) \<Rightarrow> string \<Rightarrow> json \<Rightarrow> string option \<Rightarrow> wh_state \<Rightarrow> wh_state" where
  "dispatchEvent sha event d eventId s =
     (let relevant = filter (\<lambda>w. event \<in> set (wh_eventTypes w)) (filter wh_isActive (webhooks s));
          p = \<lparr>p_event = event,
               p_event_id = Some (case eventId of Some e \<Rightarrow> e | None \<Rightarrow> createEventId sha event d),
               p_id_last = False, p_timestamp = toISOString (wh_now s), p_data = d\<rparr>
      in fold (\<lambda>w. wh_add (wh_id w) (wh_url w) (wh_secret w) p) relevant s)"

subsection \<open>Delivery\<close>

definition find_delivery :: "uuid \<Rightarrow> string \<Rightarrow> wh_state \<Rightarrow> delivery option" where
  "find_delivery i e s = List.find (\<lambda>d. dl_webhookId d = i \<and> dl_eventId d = e) (deliveries s)"

text \<open>Saving a delivery: its webhook must exist, and no other row may have its webhook and event.\<close>

definition save_delivery :: "delivery \<Rightarrow> delivery wh_io" where
  "save_delivery d s =
     (if find_webhook (dl_webhookId d) s = None then (Inl ForeignKeyViolation, s)
      else if \<exists>x \<in> set (deliveries s). dl_id x \<noteq> dl_id d \<and> dl_webhookId x = dl_webhookId d \<and> dl_eventId x = dl_eventId d
      then (Inl (UniqueViolation ''IDX_webhook_event''), s)
      else (Inr d, s\<lparr>deliveries := save_row dl_id d (deliveries s)\<rparr>))"

text \<open>
  The delivery up to the request: the answer of an earlier success, or the row of this attempt.
\<close>

definition begin_delivery :: "(string \<Rightarrow> string) \<Rightarrow> wh_payload \<Rightarrow> uuid \<Rightarrow> nat \<Rightarrow> (wh_result + delivery) wh_io" where
  "begin_delivery sha p i n s =
     (let e = payload_event_id sha p; p' = add_event_id e p in
      case find_delivery i e s of
        Some d \<Rightarrow>
          if dl_status d = D_SUCCESS
          then (Inr (Inl \<lparr>r_statusCode = (case dl_responseCode d of Some c \<Rightarrow> c | None \<Rightarrow> 200),
                          r_responseBody = (case dl_responseBody d of Some b \<Rightarrow> b | None \<Rightarrow> [])\<rparr>), s)
          else (case save_delivery (d\<lparr>dl_status := D_PENDING, dl_payload := p', dl_attemptNumber := n\<rparr>) s of
                  (Inl err, s1) \<Rightarrow> (Inl err, s1)
                | (Inr d', s1) \<Rightarrow> (Inr (Inr d'), s1))
      | None \<Rightarrow>
          (case save_delivery \<lparr>dl_id = wh_fresh s, dl_webhookId = i, dl_eventId = e, dl_status = D_PENDING,
                  dl_responseCode = None, dl_responseBody = None, dl_payload = p', dl_attemptNumber = n, dl_attemptedAt = wh_now s\<rparr>
                (s\<lparr>wh_ids := wh_ids s + 1\<rparr>) of
             (Inl err, s1) \<Rightarrow> (Inl err, s1)
           | (Inr d', s1) \<Rightarrow> (Inr (Inr d'), s1)))"

text \<open>The \<open>catch\<close> block.\<close>

definition fail_delivery :: "delivery \<Rightarrow> exn \<Rightarrow> wh_result wh_io" where
  "fail_delivery d err s =
     (case save_delivery (d\<lparr>dl_status := D_FAILED, dl_responseBody := Some (take 1024 (exn_message err))\<rparr>) s of
        (Inl err', s1) \<Rightarrow> (Inl err', s1)
      | (Inr _, s1) \<Rightarrow> (Inl err, s1))"

definition server_error :: "nat \<Rightarrow> exn" where
  "server_error st = JsError (''Endpoint returned '' @ show_nat st)"

text \<open>What TypeORM throws when the connection to the database is lost.\<close>

definition save_error :: exn where
  "save_error = JsError ''Connection terminated''"

definition request_of :: "(string \<Rightarrow> string \<Rightarrow> string) \<Rightarrow> string \<Rightarrow> string \<Rightarrow> delivery \<Rightarrow> endpoint \<Rightarrow> bool \<Rightarrow> request" where
  "request_of hmac url secret d answer saved = (let body = stringify (payload_json (dl_payload d)) in
     \<lparr>rq_webhookId = dl_webhookId d, rq_eventId = dl_eventId d, rq_url = url, rq_body = body,
      rq_signature = generateSignature hmac body secret, rq_answer = answer, rq_saved = saved\<rparr>)"

text \<open>The request and its answer. \<open>saved\<close>: the database takes the row of the answer.\<close>

definition finish_delivery :: "(string \<Rightarrow> string \<Rightarrow> string) \<Rightarrow> string \<Rightarrow> string \<Rightarrow> delivery \<Rightarrow> endpoint \<Rightarrow> bool \<Rightarrow> wh_result wh_io" where
  "finish_delivery hmac url secret d answer saved s =
     (let s0 = s\<lparr>requests := requests s @ [request_of hmac url secret d answer saved]\<rparr>
      in case answer of
           Unreachable msg \<Rightarrow> fail_delivery d (JsError msg) s0
         | Answer st b \<Rightarrow>
             let d1 = d\<lparr>dl_status := if st < 300 then D_SUCCESS else D_FAILED,
                        dl_responseCode := Some st, dl_responseBody := Some (take 1024 b)\<rparr>
             in case (if saved then save_delivery d1 s0 else (Inl save_error, s0)) of
                  (Inl err, s1) \<Rightarrow> fail_delivery d1 err s1
                | (Inr _, s1) \<Rightarrow>
                    if st \<ge> 500 then fail_delivery d1 (server_error st) s1
                    else (Inr \<lparr>r_statusCode = st, r_responseBody = take 1024 b\<rparr>, s1))"

definition deliverWebhook :: "(string \<Rightarrow> string) \<Rightarrow> (string \<Rightarrow> string \<Rightarrow> string) \<Rightarrow> string \<Rightarrow> string \<Rightarrow> wh_payload
    \<Rightarrow> uuid \<Rightarrow> nat \<Rightarrow> endpoint \<Rightarrow> bool \<Rightarrow> wh_result wh_io" where
  "deliverWebhook sha hmac url secret p i n answer saved s =
     (case begin_delivery sha p i n s of
        (Inl err, s1) \<Rightarrow> (Inl err, s1)
      | (Inr (Inl r), s1) \<Rightarrow> (Inr r, s1)
      | (Inr (Inr d), s1) \<Rightarrow> finish_delivery hmac url secret d answer saved s1)"

definition test_payload :: "uuid \<Rightarrow> time \<Rightarrow> wh_payload" where
  "test_payload i t = \<lparr>p_event = ''TEST'', p_event_id = None, p_id_last = False, p_timestamp = toISOString t,
     p_data = JObj [(''message'', JString ''This is a test event''), (''webhookId'', JString i)]\<rparr>"

definition testWebhook :: "(string \<Rightarrow> string) \<Rightarrow> (string \<Rightarrow> string \<Rightarrow> string) \<Rightarrow> uuid \<Rightarrow> uuid option
    \<Rightarrow> endpoint \<Rightarrow> bool \<Rightarrow> wh_result wh_io" where
  "testWebhook sha hmac i owner answer saved s =
     (case find_webhook i s of
        None \<Rightarrow> (Inl (NotFoundException ''Webhook not found''), s)
      | Some w \<Rightarrow>
          if truthy owner \<and> owner \<noteq> Some (wh_userId w) then (Inl (ForbiddenException ''Forbidden''), s)
          else deliverWebhook sha hmac (wh_url w) (wh_secret w) (test_payload i (wh_now s)) i 1 answer saved s)"

definition replayDelivery :: "uuid \<Rightarrow> uuid option \<Rightarrow> unit wh_io" where
  "replayDelivery i owner s =
     (case List.find (\<lambda>d. dl_id d = i) (deliveries s) of
        None \<Rightarrow> (Inl (NotFoundException ''Delivery not found''), s)
      | Some d \<Rightarrow> (case find_webhook (dl_webhookId d) s of
          None \<Rightarrow> (Inl (TypeError ''Cannot read properties of undefined''), s)
        | Some w \<Rightarrow>
            if truthy owner \<and> owner \<noteq> Some (wh_userId w) then (Inl (ForbiddenException ''Forbidden''), s)
            else (Inr (), wh_add (dl_webhookId d) (wh_url w) (wh_secret w) (dl_payload d) s)))"

definition getDeliveries :: "uuid \<Rightarrow> uuid option \<Rightarrow> wh_state \<Rightarrow> delivery list outcome" where
  "getDeliveries i owner s =
     (case find_webhook i s of
        None \<Rightarrow> Inl (NotFoundException ''Webhook not found'')
      | Some w \<Rightarrow>
          if truthy owner \<and> owner \<noteq> Some (wh_userId w) then Inl (ForbiddenException ''Forbidden'')
          else Inr (take 50 (sort_key (\<lambda>d. - dl_attemptedAt d) (filter (\<lambda>d. dl_webhookId d = i) (deliveries s)))))"

subsection \<open>The worker\<close>

definition moveToDeadLetter :: "wh_job \<Rightarrow> exn \<Rightarrow> string \<Rightarrow> wh_state \<Rightarrow> wh_state" where
  "moveToDeadLetter j err q s =
     s\<lparr>dead_letters := dead_letters s @ [\<lparr>dd_originalQueue = q, dd_originalJobId = wj_id j, dd_job = j,
          dd_failedReason = exn_message err, dd_failedAt = toISOString (wh_now s), dd_attemptsMade = wj_attemptsMade j\<rparr>]\<rparr>"

definition wh_onFailed :: "wh_job \<Rightarrow> exn \<Rightarrow> wh_state \<Rightarrow> wh_state" where
  "wh_onFailed j err s =
     (if wj_attemptsMade j \<ge> wj_attempts j then moveToDeadLetter j err ''webhook-delivery-queue'' s else s)"

definition wh_process :: "(string \<Rightarrow> string) \<Rightarrow> (string \<Rightarrow> string \<Rightarrow> string) \<Rightarrow> wh_job \<Rightarrow> endpoint \<Rightarrow> bool \<Rightarrow> wh_result wh_io" where
  "wh_process sha hmac j answer saved =
     deliverWebhook sha hmac (wj_url j) (wj_secret j) (wj_payload j) (wj_webhookId j) (wj_attemptsMade j + 1) answer saved"

text \<open>
  The queue hands one of its jobs to the worker, and a failure raises the \<open>failed\<close> event. Whether
  the job comes back to be run again, after a failure or because BullMQ took the worker for dead, is
  the queue's choice: the argument \<open>again\<close>.
\<close>

definition wh_work :: "(string \<Rightarrow> string) \<Rightarrow> (string \<Rightarrow> string \<Rightarrow> string) \<Rightarrow> string \<Rightarrow> endpoint \<Rightarrow> bool \<Rightarrow> bool \<Rightarrow> wh_state \<Rightarrow> wh_state" where
  "wh_work sha hmac i answer saved again s =
     (case List.find (\<lambda>j. wj_id j = i) (wh_queue s) of
        None \<Rightarrow> s
      | Some j \<Rightarrow>
          let (r, s1) = wh_process sha hmac j answer saved (s\<lparr>wh_queue := filter (\<lambda>x. wj_id x \<noteq> i) (wh_queue s)\<rparr>);
              j' = j\<lparr>wj_attemptsMade := wj_attemptsMade j + 1\<rparr>;
              s2 = (case r of Inr _ \<Rightarrow> s1 | Inl err \<Rightarrow> wh_onFailed j' err s1)
          in if again then s2\<lparr>wh_queue := wh_queue s2 @ [j']\<rparr> else s2)"

datatype wh_op =
    Dispatch string json "string option"
  | Work string endpoint bool bool
  | Test uuid "uuid option" endpoint bool
  | Replay uuid "uuid option"
  | Create string uuid string "string list"
  | Delete uuid uuid
  | Pass time

fun wh_exec :: "(string \<Rightarrow> string) \<Rightarrow> (string \<Rightarrow> string \<Rightarrow> string) \<Rightarrow> wh_op \<Rightarrow> wh_state \<Rightarrow> wh_state" where
  "wh_exec sha hmac (Dispatch event d e) s = dispatchEvent sha event d e s"
| "wh_exec sha hmac (Work i answer saved again) s = wh_work sha hmac i answer saved again s"
| "wh_exec sha hmac (Test i owner answer saved) s = snd (testWebhook sha hmac i owner answer saved s)"
| "wh_exec sha hmac (Replay i owner) s = snd (replayDelivery i owner s)"
| "wh_exec sha hmac (Create secret u url types) s = snd (createWebhook secret u url types s)"
| "wh_exec sha hmac (Delete i u) s = snd (deleteWebhook i u s)"
| "wh_exec sha hmac (Pass t) s = s\<lparr>wh_now := t\<rparr>"

subsection \<open>The effect of one delivery\<close>

definition event_key :: "delivery \<Rightarrow> uuid \<times> string" where
  "event_key d = (dl_webhookId d, dl_eventId d)"

text \<open>The database's rules on webhooks and deliveries; \<open>show_nat n\<close> with \<open>n < wh_ids s\<close> are the ids given out.\<close>

definition given :: "uuid \<Rightarrow> wh_state \<Rightarrow> bool" where
  "given i s \<longleftrightarrow> (\<exists>n < wh_ids s. i = show_nat n)"

definition rows_ok :: "wh_state \<Rightarrow> bool" where
  "rows_ok s \<longleftrightarrow> distinct (map wh_id (webhooks s)) \<and> distinct (map dl_id (deliveries s)) \<and>
     inj_on event_key (set (deliveries s)) \<and>
     (\<forall>w \<in> set (webhooks s). given (wh_id w) s) \<and>
     (\<forall>d \<in> set (deliveries s). given (dl_id d) s \<and> dl_webhookId d \<in> wh_id ` set (webhooks s))"

definition can_save :: "delivery \<Rightarrow> wh_state \<Rightarrow> bool" where
  "can_save d s \<longleftrightarrow> find_webhook (dl_webhookId d) s \<noteq> None \<and>
     (\<forall>x \<in> set (deliveries s). event_key x = event_key d \<longrightarrow> dl_id x = dl_id d)"

lemma save_delivery_ok: "can_save d s \<Longrightarrow> save_delivery d s = (Inr d, s\<lparr>deliveries := save_row dl_id d (deliveries s)\<rparr>)"
  by (auto simp: can_save_def save_delivery_def event_key_def)

lemma can_save_again:
  assumes "can_save d s" "dl_id d' = dl_id d" "event_key d' = event_key d" "webhooks s' = webhooks s"
    and "deliveries s' = deliveries s \<or> deliveries s' = save_row dl_id d (deliveries s)"
  shows "can_save d' s'"
  using assms by (auto simp: can_save_def set_save_row find_webhook_def event_key_def)

interpretation delivery_store: row_store dl_id deliveries "\<lambda>t s. s\<lparr>deliveries := t\<rparr>"
  by unfold_locales simp_all

lemma save_row_twice: "dl_id b = dl_id a \<Longrightarrow> save_row dl_id b (save_row dl_id a (deliveries s)) = save_row dl_id b (deliveries s)"
  using arg_cong [OF delivery_store.save_twice [of b a s], of deliveries] by simp

lemma fresh_not_given: "\<not> given (wh_fresh s) s"
  by (auto simp: given_def wh_fresh_def show_nat_inj)

text \<open>The row and the result an attempt ends with.\<close>

fun settled_row :: "delivery \<Rightarrow> endpoint \<Rightarrow> bool \<Rightarrow> delivery" where
  "settled_row d (Unreachable msg) saved = d\<lparr>dl_status := D_FAILED, dl_responseBody := Some (take 1024 msg)\<rparr>"
| "settled_row d (Answer st b) saved =
     (let d1 = d\<lparr>dl_status := if st < 300 then D_SUCCESS else D_FAILED, dl_responseCode := Some st,
                 dl_responseBody := Some (take 1024 b)\<rparr>
      in if saved \<and> st < 500 then d1
         else d1\<lparr>dl_status := D_FAILED, dl_responseBody := Some (take 1024
                  (exn_message (if saved then server_error st else save_error)))\<rparr>)"

fun settled_result :: "endpoint \<Rightarrow> bool \<Rightarrow> wh_result outcome" where
  "settled_result (Unreachable msg) saved = Inl (JsError msg)"
| "settled_result (Answer st b) saved =
     (if \<not> saved then Inl save_error
      else if st < 500 then Inr \<lparr>r_statusCode = st, r_responseBody = take 1024 b\<rparr>
      else Inl (server_error st))"

lemma settled_row_same [simp]:
  "dl_id (settled_row d a v) = dl_id d" "event_key (settled_row d a v) = event_key d"
  "dl_webhookId (settled_row d a v) = dl_webhookId d" "dl_eventId (settled_row d a v) = dl_eventId d"
  by (cases a; simp add: event_key_def Let_def)+

lemma fail_delivery_ok:
  assumes "can_save d s"
  shows "fail_delivery d err s = (Inl err, s\<lparr>deliveries := save_row dl_id
     (d\<lparr>dl_status := D_FAILED, dl_responseBody := Some (take 1024 (exn_message err))\<rparr>) (deliveries s)\<rparr>)"
proof -
  have "can_save (d\<lparr>dl_status := D_FAILED, dl_responseBody := b\<rparr>) s" for b
    using assms by (simp add: can_save_def event_key_def)
  then show ?thesis by (simp add: fail_delivery_def save_delivery_ok)
qed

lemma finish_delivery_ok:
  assumes "can_save d s"
  shows "finish_delivery hmac url secret d a saved s =
    (settled_result a saved, s\<lparr>deliveries := save_row dl_id (settled_row d a saved) (deliveries s),
       requests := requests s @ [request_of hmac url secret d a saved]\<rparr>)"
proof (cases a)
  case (Unreachable msg)
  have "can_save d (s\<lparr>requests := rs\<rparr>)" for rs by (rule can_save_again [OF assms]) simp_all
  with Unreachable show ?thesis by (simp add: finish_delivery_def Let_def fail_delivery_ok request_of_def)
next
  case a: (Answer st b)
  let ?s0 = "s\<lparr>requests := requests s @ [request_of hmac url secret d a saved]\<rparr>"
  let ?d1 = "d\<lparr>dl_status := if st < 300 then D_SUCCESS else D_FAILED, dl_responseCode := Some st, dl_responseBody := Some (take 1024 b)\<rparr>"
  have ok: "can_save ?d1 ?s0" by (rule can_save_again [OF assms]) (simp_all add: event_key_def)
  let ?s1 = "?s0\<lparr>deliveries := save_row dl_id ?d1 (deliveries ?s0)\<rparr>"
  have ok': "can_save ?d1 ?s1" by (rule can_save_again [OF ok]) simp_all
  have "finish_delivery hmac url secret d a saved s = (case (if saved then (Inr ?d1, ?s1) else (Inl save_error, ?s0)) of
      (Inl err, s1) \<Rightarrow> fail_delivery ?d1 err s1
    | (Inr _, s1) \<Rightarrow> if st \<ge> 500 then fail_delivery ?d1 (server_error st) s1
                    else (Inr \<lparr>r_statusCode = st, r_responseBody = take 1024 b\<rparr>, s1))"
    unfolding finish_delivery_def Let_def a endpoint.case save_delivery_ok [OF ok [unfolded a]] ..
  also have "\<dots> = (settled_result a saved, s\<lparr>deliveries := save_row dl_id (settled_row d a saved) (deliveries s),
       requests := requests s @ [request_of hmac url secret d a saved]\<rparr>)"
  proof (cases "saved \<and> st < 500")
    case True
    then show ?thesis by (simp add: a Let_def)
  next
    case False
    have rows: "save_row dl_id (?d1\<lparr>dl_status := D_FAILED, dl_responseBody := r\<rparr>) (save_row dl_id ?d1 (deliveries s))
        = save_row dl_id (?d1\<lparr>dl_status := D_FAILED, dl_responseBody := r\<rparr>) (deliveries s)" for r
      by (rule save_row_twice) simp
    show ?thesis
    proof (cases saved)
      case True
      with False rows show ?thesis
        unfolding a if_P [OF True] sum.case prod.case fail_delivery_ok [OF ok' [unfolded a]] by (simp add: Let_def)
    next
      case False
      then show ?thesis
        unfolding a if_not_P [OF False] sum.case prod.case fail_delivery_ok [OF ok [unfolded a]] by (simp add: Let_def)
    qed
  qed
  finally show ?thesis .
qed

text \<open>The row an attempt works on.\<close>

definition pending_row :: "(string \<Rightarrow> string) \<Rightarrow> wh_payload \<Rightarrow> uuid \<Rightarrow> nat \<Rightarrow> wh_state \<Rightarrow> delivery" where
  "pending_row sha p i n s = (let e = payload_event_id sha p; p' = add_event_id e p in
     case find_delivery i e s of
       Some d \<Rightarrow> d\<lparr>dl_status := D_PENDING, dl_payload := p', dl_attemptNumber := n\<rparr>
     | None \<Rightarrow> \<lparr>dl_id = wh_fresh s, dl_webhookId = i, dl_eventId = e, dl_status = D_PENDING, dl_responseCode = None,
                dl_responseBody = None, dl_payload = p', dl_attemptNumber = n, dl_attemptedAt = wh_now s\<rparr>)"

definition ids_after :: "(string \<Rightarrow> string) \<Rightarrow> wh_payload \<Rightarrow> uuid \<Rightarrow> wh_state \<Rightarrow> nat" where
  "ids_after sha p i s = (if find_delivery i (payload_event_id sha p) s = None then wh_ids s + 1 else wh_ids s)"

definition success_row :: "uuid \<Rightarrow> string \<Rightarrow> wh_state \<Rightarrow> delivery option" where
  "success_row i e s = (case find_delivery i e s of Some d \<Rightarrow> if dl_status d = D_SUCCESS then Some d else None | None \<Rightarrow> None)"

lemma find_webhook_None: "find_webhook i s = None \<longleftrightarrow> i \<notin> wh_id ` set (webhooks s)"
  by (auto simp: find_webhook_def find_None_iff)

lemma find_delivery_Some: "find_delivery i e s = Some d \<Longrightarrow> d \<in> set (deliveries s) \<and> event_key d = (i, e)"
  by (auto simp: find_delivery_def event_key_def dest!: find_Some_mem)

lemma find_delivery_None: "find_delivery i e s = None \<longleftrightarrow> (\<forall>d \<in> set (deliveries s). event_key d \<noteq> (i, e))"
  by (auto simp: find_delivery_def event_key_def find_None_iff)

lemma find_delivery_iff:
  assumes "rows_ok s"
  shows "find_delivery i e s = Some d \<longleftrightarrow> d \<in> set (deliveries s) \<and> event_key d = (i, e)"
proof
  assume d: "d \<in> set (deliveries s) \<and> event_key d = (i, e)"
  show "find_delivery i e s = Some d"
    unfolding find_delivery_def using d assms
    by (intro find_unique) (auto simp: rows_ok_def event_key_def inj_on_def)
qed (rule find_delivery_Some)

lemma pending_row_key: "event_key (pending_row sha p i n s) = (i, payload_event_id sha p)"
  by (auto simp: pending_row_def Let_def event_key_def dest: find_delivery_Some split: option.splits)

lemma pending_row_can_save:
  assumes "rows_ok s" "find_webhook i s \<noteq> None"
  shows "can_save (pending_row sha p i n s) s"
proof -
  have "dl_id x = dl_id (pending_row sha p i n s)" if x: "x \<in> set (deliveries s)" "event_key x = (i, payload_event_id sha p)" for x
    using x find_delivery_iff [OF assms(1), of i "payload_event_id sha p" x] by (simp add: pending_row_def)
  with assms(2) pending_row_key [of sha p i n s] show ?thesis by (auto simp: can_save_def event_key_def)
qed

lemma begin_delivery_ok:
  assumes "rows_ok s"
  shows "begin_delivery sha p i n s =
    (if find_webhook i s = None then (Inl ForeignKeyViolation, s\<lparr>wh_ids := wh_ids s + 1\<rparr>)
     else case success_row i (payload_event_id sha p) s of
       Some d \<Rightarrow> (Inr (Inl \<lparr>r_statusCode = (case dl_responseCode d of Some c \<Rightarrow> c | None \<Rightarrow> 200),
                         r_responseBody = (case dl_responseBody d of Some b \<Rightarrow> b | None \<Rightarrow> [])\<rparr>), s)
     | None \<Rightarrow> (Inr (Inr (pending_row sha p i n s)), s\<lparr>wh_ids := ids_after sha p i s,
         deliveries := save_row dl_id (pending_row sha p i n s) (deliveries s)\<rparr>))"
proof (cases "find_webhook i s = None")
  case True
  then have "find_delivery i e s = None" for e
    using assms by (auto simp: find_delivery_None find_webhook_None rows_ok_def event_key_def)
  with True show ?thesis by (simp add: begin_delivery_def Let_def save_delivery_def find_webhook_def)
next
  case False
  note pending = pending_row_can_save [OF assms False, of sha p n]
  show ?thesis
  proof (cases "find_delivery i (payload_event_id sha p) s")
    case None
    then have "can_save (pending_row sha p i n s) (s\<lparr>wh_ids := wh_ids s + 1\<rparr>)"
      using pending by (simp add: can_save_def find_webhook_def)
    from save_delivery_ok [OF this] None False show ?thesis
      by (simp add: begin_delivery_def Let_def success_row_def pending_row_def ids_after_def)
  next
    case (Some d)
    with save_delivery_ok [OF pending] False show ?thesis
      by (auto simp: begin_delivery_def Let_def success_row_def pending_row_def ids_after_def)
  qed
qed

text \<open>One delivery: what is answered, which row it leaves and what is sent.\<close>

lemma deliverWebhook_ok:
  assumes "rows_ok s"
  shows "deliverWebhook sha hmac url secret p i n a saved s =
    (if find_webhook i s = None then (Inl ForeignKeyViolation, s\<lparr>wh_ids := wh_ids s + 1\<rparr>)
     else case success_row i (payload_event_id sha p) s of
       Some d \<Rightarrow> (Inr \<lparr>r_statusCode = (case dl_responseCode d of Some c \<Rightarrow> c | None \<Rightarrow> 200),
                    r_responseBody = (case dl_responseBody d of Some b \<Rightarrow> b | None \<Rightarrow> [])\<rparr>, s)
     | None \<Rightarrow> (settled_result a saved, s\<lparr>wh_ids := ids_after sha p i s,
         deliveries := save_row dl_id (settled_row (pending_row sha p i n s) a saved) (deliveries s),
         requests := requests s @ [request_of hmac url secret (pending_row sha p i n s) a saved]\<rparr>))"
proof (cases "find_webhook i s = None")
  case True
  then show ?thesis by (simp add: deliverWebhook_def begin_delivery_ok [OF assms])
next
  case False
  let ?d = "pending_row sha p i n s"
  let ?s1 = "s\<lparr>wh_ids := ids_after sha p i s, deliveries := save_row dl_id ?d (deliveries s)\<rparr>"
  have "can_save ?d ?s1" by (rule can_save_again [OF pending_row_can_save [OF assms False, of sha p n]]) simp_all
  from finish_delivery_ok [OF this, of hmac url secret a saved] False show ?thesis
    by (auto simp: deliverWebhook_def begin_delivery_ok [OF assms] save_row_twice split: option.splits)
qed

subsection \<open>Every event reaches a webhook at most once\<close>

text \<open>
  The endpoint accepts a request when it answers with a status below 300. The acceptance is known
  when the row of the answer was saved too; else it is lost, and the service cannot know of it.
\<close>

definition answered_ok :: "request \<Rightarrow> bool" where
  "answered_ok r = (case rq_answer r of Answer st b \<Rightarrow> st < 300 | Unreachable msg \<Rightarrow> False)"

definition accepted :: "request \<Rightarrow> bool" where
  "accepted r \<longleftrightarrow> answered_ok r \<and> rq_saved r"

definition accepted_count :: "uuid \<Rightarrow> string \<Rightarrow> wh_state \<Rightarrow> nat" where
  "accepted_count i e s = length (filter (\<lambda>r. rq_webhookId r = i \<and> rq_eventId r = e \<and> accepted r) (requests s))"

definition answered_count :: "uuid \<Rightarrow> string \<Rightarrow> wh_state \<Rightarrow> nat" where
  "answered_count i e s = length (filter (\<lambda>r. rq_webhookId r = i \<and> rq_eventId r = e \<and> answered_ok r) (requests s))"

definition lost_count :: "uuid \<Rightarrow> string \<Rightarrow> wh_state \<Rightarrow> nat" where
  "lost_count i e s = length (filter (\<lambda>r. rq_webhookId r = i \<and> rq_eventId r = e \<and> answered_ok r \<and> \<not> rq_saved r) (requests s))"

lemma answered_split: "answered_count i e s = accepted_count i e s + lost_count i e s"
proof -
  have "length (filter (\<lambda>r. rq_webhookId r = i \<and> rq_eventId r = e \<and> answered_ok r) rs) =
      length (filter (\<lambda>r. rq_webhookId r = i \<and> rq_eventId r = e \<and> accepted r) rs) +
      length (filter (\<lambda>r. rq_webhookId r = i \<and> rq_eventId r = e \<and> answered_ok r \<and> \<not> rq_saved r) rs)" for rs
    by (induction rs) (auto simp: accepted_def)
  then show ?thesis by (simp add: answered_count_def accepted_count_def lost_count_def)
qed

text \<open>Nothing more is sent for a webhook and an event after a success, nor after the webhook is gone.\<close>

definition settled :: "uuid \<Rightarrow> string \<Rightarrow> wh_state \<Rightarrow> bool" where
  "settled i e s \<longleftrightarrow> success_row i e s \<noteq> None \<or> (given i s \<and> find_webhook i s = None)"

definition wh_inv :: "wh_state \<Rightarrow> bool" where
  "wh_inv s \<longleftrightarrow> rows_ok s \<and> (\<forall>i e. accepted_count i e s \<le> (if settled i e s then 1 else 0))"

text \<open>What moves only forward: what is settled stays so, and nothing more is sent for it.\<close>

definition sent_count :: "uuid \<Rightarrow> string \<Rightarrow> wh_state \<Rightarrow> nat" where
  "sent_count i e s = length (filter (\<lambda>r. rq_webhookId r = i \<and> rq_eventId r = e) (requests s))"

definition wh_le :: "wh_state \<Rightarrow> wh_state \<Rightarrow> bool" where
  "wh_le s s' \<longleftrightarrow> (\<forall>i e. settled i e s \<longrightarrow> settled i e s' \<and> sent_count i e s' = sent_count i e s)"

lemma given_mono:
  assumes "given i s" "wh_ids s \<le> wh_ids s'"
  shows "given i s'"
proof -
  obtain m where "m < wh_ids s" "i = show_nat m" using assms(1) by (auto simp: given_def)
  with assms(2) have "m < wh_ids s'" "i = show_nat m" by simp_all
  then show ?thesis unfolding given_def by blast
qed

lemma success_row_iff:
  assumes "rows_ok s"
  shows "success_row i e s \<noteq> None \<longleftrightarrow> (\<exists>d \<in> set (deliveries s). event_key d = (i, e) \<and> dl_status d = D_SUCCESS)"
proof
  assume "\<exists>d \<in> set (deliveries s). event_key d = (i, e) \<and> dl_status d = D_SUCCESS"
  then obtain d where "d \<in> set (deliveries s)" "event_key d = (i, e)" and success: "dl_status d = D_SUCCESS" by blast
  then have "find_delivery i e s = Some d" by (simp add: find_delivery_iff [OF assms])
  with success show "success_row i e s \<noteq> None" by (simp add: success_row_def)
next
  assume "success_row i e s \<noteq> None"
  then obtain d where "find_delivery i e s = Some d" "dl_status d = D_SUCCESS"
    by (auto simp: success_row_def split: option.splits if_splits)
  then show "\<exists>d \<in> set (deliveries s). event_key d = (i, e) \<and> dl_status d = D_SUCCESS" using find_delivery_Some by blast
qed

lemma wh_inv_frame:
  assumes "wh_inv s" "webhooks s' = webhooks s" "deliveries s' = deliveries s" "requests s' = requests s" "wh_ids s \<le> wh_ids s'"
  shows "wh_inv s' \<and> wh_le s s'"
proof -
  have rows: "rows_ok s'" using assms given_mono [OF _ assms(5)] by (auto simp: wh_inv_def rows_ok_def)
  have stays: "settled i e s \<Longrightarrow> settled i e s'" for i e
    using assms(2,3) given_mono [OF _ assms(5)] by (auto simp: settled_def success_row_def find_delivery_def find_webhook_def)
  have "accepted_count i e s' = accepted_count i e s" for i e using assms(4) by (simp add: accepted_count_def)
  with stays have "wh_inv s'" using assms(1) rows unfolding wh_inv_def by (metis le_zero_eq zero_le)
  with stays assms(4) show ?thesis by (simp add: wh_le_def sent_count_def)
qed

lemma rows_ok_save:
  assumes "rows_ok s" "can_save d s" "given (dl_id d) s'" "wh_ids s \<le> wh_ids s'"
    and "webhooks s' = webhooks s" "deliveries s' = save_row dl_id d (deliveries s)"
  shows "rows_ok s'"
proof -
  have "inj_on event_key (set (deliveries s'))"
    using assms(1,2) unfolding assms(6) set_save_row rows_ok_def can_save_def by (auto simp: inj_on_def)
  then show ?thesis
    using assms given_mono [OF _ assms(4)]
    by (auto simp: rows_ok_def distinct_save_row set_save_row can_save_def find_webhook_None)
qed

lemma settled_row_success: "dl_status (settled_row d a saved) = D_SUCCESS \<longleftrightarrow> accepted (request_of hmac url secret d a saved)"
  by (cases a) (auto simp: accepted_def answered_ok_def request_of_def Let_def)

lemma deliver_inv:
  assumes inv: "wh_inv s"
  shows "wh_inv (snd (deliverWebhook sha hmac url secret p i n a saved s)) \<and>
    wh_le s (snd (deliverWebhook sha hmac url secret p i n a saved s))"
proof -
  have rows: "rows_ok s" using inv by (simp add: wh_inv_def)
  let ?e = "payload_event_id sha p"
  show ?thesis
  proof (cases "find_webhook i s = None \<or> success_row i ?e s \<noteq> None")
    case True
    then show ?thesis
      using wh_inv_frame [OF inv, of s] wh_inv_frame [OF inv, of "s\<lparr>wh_ids := wh_ids s + 1\<rparr>"]
      by (auto simp: deliverWebhook_ok [OF rows] split: option.splits)
  next
    case False
    let ?p = "pending_row sha p i n s" and ?s' = "snd (deliverWebhook sha hmac url secret p i n a saved s)"
    let ?d = "settled_row ?p a saved" and ?r = "request_of hmac url secret ?p a saved"
    have s': "webhooks ?s' = webhooks s" "wh_ids ?s' = ids_after sha p i s" "deliveries ?s' = save_row dl_id ?d (deliveries s)"
        "requests ?s' = requests s @ [?r]"
      using False by (auto simp: deliverWebhook_ok [OF rows])
    have le: "wh_ids s \<le> wh_ids ?s'" by (simp add: s' ids_after_def)
    have "can_save ?p s" using False by (intro pending_row_can_save [OF rows]) simp
    then have can: "can_save ?d s" by (simp add: can_save_def)
    have "given (dl_id ?p) ?s'"
    proof (cases "find_delivery i ?e s")
      case None
      then have "dl_id ?p = show_nat (wh_ids s)" "wh_ids s < wh_ids ?s'"
        by (simp_all add: pending_row_def s' ids_after_def wh_fresh_def Let_def)
      then show ?thesis unfolding given_def by blast
    next
      case (Some d)
      with rows have "given (dl_id d) s" by (auto simp: rows_ok_def dest!: find_delivery_Some)
      with Some le show ?thesis by (simp add: pending_row_def given_mono)
    qed
    then have rows': "rows_ok ?s'" using rows_ok_save [OF rows can _ le s'(1,3)] by simp
    have key: "event_key ?d = (i, ?e)" by (simp add: pending_row_key)
    have new_or_found: "x = the (find_delivery i ?e s) \<and> find_delivery i ?e s \<noteq> None"
      if "x \<in> set (deliveries s)" "dl_id x = dl_id ?d" for x
    proof (cases "find_delivery i ?e s")
      case None
      with that have "dl_id x = wh_fresh s" by (simp add: pending_row_def Let_def)
      with rows that(1) fresh_not_given [of s] show ?thesis by (auto simp: rows_ok_def)
    next
      case (Some d)
      with that rows find_delivery_Some [OF Some] show ?thesis by (auto simp: pending_row_def rows_ok_def distinct_map dest: inj_onD)
    qed
    have other: "settled j f ?s'" if "settled j f s" for j f
      using that unfolding settled_def
    proof
      assume "success_row j f s \<noteq> None"
      then obtain x where x: "x \<in> set (deliveries s)" "event_key x = (j, f)" "dl_status x = D_SUCCESS"
        using success_row_iff [OF rows] by blast
      have "dl_id x \<noteq> dl_id ?d"
      proof
        assume "dl_id x = dl_id ?d"
        with new_or_found x(1) have "x = the (find_delivery i ?e s)" "find_delivery i ?e s \<noteq> None" by blast+
        with x(3) False show False by (auto simp: success_row_def)
      qed
      with x success_row_iff [OF rows'] show "success_row j f ?s' \<noteq> None \<or> (given j ?s' \<and> find_webhook j ?s' = None)"
        by (auto simp: s'(3) set_save_row)
    next
      assume "given j s \<and> find_webhook j s = None"
      with given_mono [OF _ le] s'(1) show "success_row j f ?s' \<noteq> None \<or> (given j ?s' \<and> find_webhook j ?s' = None)"
        by (simp add: find_webhook_def)
    qed
    have "accepted_count j f ?s' \<le> (if settled j f ?s' then 1 else 0)" for j f
    proof (cases "(j, f) = (i, ?e) \<and> accepted ?r")
      case True
      have "\<not> settled i ?e s" using False by (auto simp: settled_def)
      with inv have "accepted_count i ?e s = 0" unfolding wh_inv_def by (metis le_zero_eq)
      moreover have "success_row i ?e ?s' \<noteq> None"
        unfolding success_row_iff [OF rows'] s'(3) set_save_row
        using True key settled_row_success [of ?p a saved hmac url secret] by blast
      ultimately show ?thesis using True by (auto simp: accepted_count_def s'(4) settled_def)
    next
      case False
      have "(rq_webhookId ?r, rq_eventId ?r) = (i, ?e)" using key by (simp add: request_of_def Let_def event_key_def)
      with False have "accepted_count j f ?s' = accepted_count j f s" by (auto simp: accepted_count_def s'(4))
      with inv other [of j f] show ?thesis unfolding wh_inv_def by (metis le_zero_eq zero_le)
    qed
    moreover have "sent_count j f ?s' = sent_count j f s" if "settled j f s" for j f
    proof -
      have "(j, f) \<noteq> (i, ?e)" using that False by (auto simp: settled_def)
      moreover have "(rq_webhookId ?r, rq_eventId ?r) = (i, ?e)" using key by (simp add: request_of_def Let_def event_key_def)
      ultimately show ?thesis by (auto simp: sent_count_def s'(4))
    qed
    ultimately show ?thesis using rows' other by (auto simp: wh_inv_def wh_le_def)
  qed
qed

lemma wh_le_refl: "wh_le s s"
  by (simp add: wh_le_def)

lemma wh_le_trans: "wh_le s t \<Longrightarrow> wh_le t u \<Longrightarrow> wh_le s u"
  by (simp add: wh_le_def)

text \<open>Adding jobs leaves the rows and the requests alone.\<close>

lemma wh_add_frame [simp]:
  "webhooks (wh_add i u c p s) = webhooks s" "deliveries (wh_add i u c p s) = deliveries s"
  "requests (wh_add i u c p s) = requests s" "wh_ids (wh_add i u c p s) = wh_ids s + 1"
  "dead_letters (wh_add i u c p s) = dead_letters s" "wh_now (wh_add i u c p s) = wh_now s"
  by (simp_all add: wh_add_def)

lemma fold_wh_add_frame:
  "webhooks (fold (\<lambda>w. wh_add (wh_id w) (wh_url w) (wh_secret w) p) ws s) = webhooks s"
  "deliveries (fold (\<lambda>w. wh_add (wh_id w) (wh_url w) (wh_secret w) p) ws s) = deliveries s"
  "requests (fold (\<lambda>w. wh_add (wh_id w) (wh_url w) (wh_secret w) p) ws s) = requests s"
  "wh_ids (fold (\<lambda>w. wh_add (wh_id w) (wh_url w) (wh_secret w) p) ws s) = wh_ids s + length ws"
  by (induction ws arbitrary: s) simp_all

lemma work_inv:
  assumes inv: "wh_inv s"
  shows "wh_inv (wh_work sha hmac i a saved again s) \<and> wh_le s (wh_work sha hmac i a saved again s)"
proof (cases "List.find (\<lambda>j. wj_id j = i) (wh_queue s)")
  case None
  then show ?thesis by (simp add: wh_work_def inv wh_le_refl)
next
  case (Some j)
  let ?s0 = "s\<lparr>wh_queue := filter (\<lambda>x. wj_id x \<noteq> i) (wh_queue s)\<rparr>"
  have s0: "wh_inv ?s0" "wh_le s ?s0" using wh_inv_frame [OF inv, of ?s0] by simp_all
  obtain r s1 where run: "wh_process sha hmac j a saved ?s0 = (r, s1)" by fastforce
  have s1: "wh_inv s1" "wh_le s s1"
    using deliver_inv [OF s0(1), of sha hmac "wj_url j" "wj_secret j" "wj_payload j" "wj_webhookId j" "wj_attemptsMade j + 1" a saved]
      run wh_le_trans [OF s0(2)] by (simp_all add: wh_process_def)
  have "webhooks (wh_work sha hmac i a saved again s) = webhooks s1" "deliveries (wh_work sha hmac i a saved again s) = deliveries s1"
      "requests (wh_work sha hmac i a saved again s) = requests s1" "wh_ids (wh_work sha hmac i a saved again s) = wh_ids s1"
    using Some run by (auto simp: wh_work_def wh_onFailed_def moveToDeadLetter_def Let_def split: sum.split prod.splits)
  with wh_inv_frame [OF s1(1), of "wh_work sha hmac i a saved again s"] wh_le_trans [OF s1(2)] show ?thesis by simp
qed

lemma create_inv:
  assumes inv: "wh_inv s"
  shows "wh_inv (snd (createWebhook secret u url types s)) \<and> wh_le s (snd (createWebhook secret u url types s))"
proof -
  let ?s = "snd (createWebhook secret u url types s)" and ?i = "wh_fresh s"
  have ids: "wh_ids ?s = wh_ids s + 1" "deliveries ?s = deliveries s" "requests ?s = requests s"
      "webhooks ?s = webhooks s @ [\<lparr>wh_id = ?i, wh_userId = u, wh_url = url, wh_secret = secret, wh_eventTypes = types, wh_isActive = True\<rparr>]"
    by (simp_all add: createWebhook_def Let_def)
  have old: "given j s \<Longrightarrow> given j ?s" "given j s \<Longrightarrow> j \<noteq> ?i" for j
    using given_mono [of j s ?s] fresh_not_given [of s] by (auto simp: ids)
  have new: "given ?i ?s" unfolding given_def wh_fresh_def by (rule exI [of _ "wh_ids s"]) (simp add: ids)
  have "?i \<notin> wh_id ` set (webhooks s)"
    using inv fresh_not_given [of s] by (auto simp: wh_inv_def rows_ok_def)
  then have rows: "rows_ok ?s"
    using inv old(1) new unfolding wh_inv_def rows_ok_def ids by auto
  have stays: "settled j f s \<Longrightarrow> settled j f ?s" for j f
    using old [of j] by (auto simp: settled_def success_row_def find_delivery_def ids find_webhook_None)
  moreover have "accepted_count j f ?s = accepted_count j f s" for j f by (simp add: accepted_count_def ids)
  ultimately have "wh_inv ?s" using inv rows unfolding wh_inv_def by (metis le_zero_eq zero_le)
  with stays show ?thesis by (simp add: wh_le_def sent_count_def ids)
qed

lemma find_filter: "(\<And>x. P x \<Longrightarrow> Q x) \<Longrightarrow> List.find P (filter Q t) = List.find P t"
  by (induction t) auto

lemma delete_inv:
  assumes inv: "wh_inv s"
  shows "wh_inv (snd (deleteWebhook i u s)) \<and> wh_le s (snd (deleteWebhook i u s))"
proof (cases "\<exists>w \<in> set (webhooks s). wh_id w = i \<and> wh_userId w = u")
  case False
  then have "deleteWebhook i u s = (Inl (NotFoundException ''Webhook not found or unauthorized''), s)"
    unfolding deleteWebhook_def by (rule if_not_P)
  then show ?thesis by (simp add: inv wh_le_refl)
next
  case True
  let ?s = "snd (deleteWebhook i u s)"
  have rows: "rows_ok s" using inv by (simp add: wh_inv_def)
  from True have s': "deliveries ?s = filter (\<lambda>d. dl_webhookId d \<noteq> i) (deliveries s)" "requests ?s = requests s" "wh_ids ?s = wh_ids s"
      "webhooks ?s = filter (\<lambda>w. \<not> (wh_id w = i \<and> wh_userId w = u)) (webhooks s)"
    by (simp_all add: deleteWebhook_def)
  have "x = w" if "x \<in> set (webhooks s)" "w \<in> set (webhooks s)" "wh_id x = wh_id w" for x w
    using that rows by (auto simp: rows_ok_def distinct_map dest: inj_onD)
  with True have gone: "set (webhooks ?s) = {w \<in> set (webhooks s). wh_id w \<noteq> i}" by (auto simp: s')
  have rows': "rows_ok ?s"
    using rows unfolding rows_ok_def gone s' given_def by (auto simp: distinct_map_filter inj_on_def)
  have "given i s" using True rows by (auto simp: rows_ok_def)
  then have "settled i f ?s" for f by (auto simp: settled_def given_def find_webhook_None gone s'(3))
  moreover have "settled j f ?s" if "settled j f s" "j \<noteq> i" for j f
  proof -
    have "success_row j f ?s = success_row j f s"
      unfolding success_row_def find_delivery_def s'(1) by (subst find_filter) (use that(2) in auto)
    moreover have "find_webhook j s = None \<Longrightarrow> find_webhook j ?s = None" by (auto simp: find_webhook_None gone)
    ultimately show ?thesis using that(1) by (auto simp: settled_def given_def s'(3))
  qed
  ultimately have stays: "settled j f s \<Longrightarrow> settled j f ?s" for j f by blast
  moreover have "accepted_count j f ?s = accepted_count j f s" for j f by (simp add: accepted_count_def s')
  ultimately have "wh_inv ?s" using inv rows' unfolding wh_inv_def by (metis le_zero_eq zero_le)
  with stays show ?thesis by (simp add: wh_le_def sent_count_def s')
qed

lemma wh_exec_step: "wh_inv s \<Longrightarrow> wh_inv (wh_exec sha hmac op s) \<and> wh_le s (wh_exec sha hmac op s)"
proof (cases op)
  case (Dispatch event d e)
  assume "wh_inv s"
  from wh_inv_frame [OF this, of "dispatchEvent sha event d e s"] Dispatch show ?thesis
    by (simp add: dispatchEvent_def Let_def fold_wh_add_frame)
next
  case (Test i owner a saved)
  assume "wh_inv s"
  with deliver_inv [OF this] Test show ?thesis by (simp add: testWebhook_def wh_le_refl split: option.splits)
next
  case (Replay i owner)
  assume inv: "wh_inv s"
  from wh_inv_frame [OF inv, of "snd (replayDelivery i owner s)"] Replay show ?thesis
    by (simp add: replayDelivery_def split: option.splits)
next
  case (Pass t)
  assume "wh_inv s"
  from wh_inv_frame [OF this, of "s\<lparr>wh_now := t\<rparr>"] Pass show ?thesis by simp
qed (simp_all add: work_inv create_inv delete_inv)

interpretation webhook_machine: monotone_machine "wh_exec sha hmac" wh_inv wh_le for sha hmac
  by unfold_locales (auto simp: wh_exec_step wh_le_refl intro: wh_le_trans)

lemma wh_inv_count: "wh_inv s \<Longrightarrow> accepted_count i e s \<le> 1"
proof -
  assume "wh_inv s"
  then have "accepted_count i e s \<le> (if settled i e s then 1 else 0)" unfolding wh_inv_def by blast
  also have "\<dots> \<le> 1" by simp
  finally show ?thesis .
qed

text \<open>C18: whatever is dispatched, delivered, run again, replayed, tested, created and deleted, as long as calls follow one
another: an endpoint accepts an event of a webhook at most once with the acceptance recorded, and beyond that once more at most for
every acceptance whose row could not be saved (deliveries are at least once). Once an acceptance is recorded, or the webhook is gone,
no further request is sent for the event.\<close>

theorem webhook_event_accepted_once:
  assumes "wh_inv s"
  shows "accepted_count i e (fold (wh_exec sha hmac) ops s) \<le> 1 \<and>
    answered_count i e (fold (wh_exec sha hmac) ops s) \<le> 1 + lost_count i e (fold (wh_exec sha hmac) ops s) \<and>
    (settled i e s \<longrightarrow> sent_count i e (fold (wh_exec sha hmac) ops s) = sent_count i e s)"
  using wh_inv_count [OF webhook_machine.run_inv [OF assms]] webhook_machine.run_le [OF assms, of sha hmac ops]
  by (simp add: wh_le_def answered_split)

definition no_webhooks :: wh_state where
  "no_webhooks = \<lparr>wh_now = 0, wh_ids = 0, webhooks = [], deliveries = [], wh_queue = [], dead_letters = [], requests = []\<rparr>"

lemma no_webhooks_inv: "wh_inv no_webhooks"
  by (simp add: wh_inv_def rows_ok_def no_webhooks_def accepted_count_def)

theorem webhook_event_accepted_once_witness:
  "accepted_count ''0'' ''e'' (fold (wh_exec id (\<lambda>k x. x)) [Create ''k'' ''u'' ''url'' [''GROUP_COMPLETED''],
     Dispatch ''GROUP_COMPLETED'' JNull (Some ''e''), Work ''1'' (Unreachable ''timeout'') True True,
     Work ''1'' (Answer 200 ''ok'') True False, Replay ''2'' None, Work ''3'' (Answer 200 ''ok'') True False] no_webhooks) \<le> 1"
  using webhook_event_accepted_once [OF no_webhooks_inv] by blast

lemma settled_result_cases:
  "is_ok (settled_result a saved) \<longleftrightarrow> saved \<and> (case a of Answer st b \<Rightarrow> st < 500 | Unreachable msg \<Rightarrow> False)"
  by (cases a) auto

lemma settled_row_fields:
  "dl_payload (settled_row d a saved) = dl_payload d" "dl_attemptNumber (settled_row d a saved) = dl_attemptNumber d"
  "dl_status (settled_row d a saved) =
     (case a of Answer st b \<Rightarrow> if saved \<and> st < 300 then D_SUCCESS else D_FAILED | Unreachable msg \<Rightarrow> D_FAILED)"
  "dl_responseCode (settled_row d a saved) = (case a of Answer st b \<Rightarrow> Some st | Unreachable msg \<Rightarrow> dl_responseCode d)"
  "dl_responseBody (settled_row d a saved) = Some (take 1024 (case a of Unreachable msg \<Rightarrow> msg
     | Answer st b \<Rightarrow> if \<not> saved then ''Connection terminated'' else if st \<ge> 500 then ''Endpoint returned '' @ show_nat st else b))"
  by (cases a; simp add: Let_def save_error_def server_error_def)+

lemma delivered_row:
  assumes "rows_ok s" "find_webhook i s \<noteq> None" "success_row i (payload_event_id sha p) s = None"
    and "deliverWebhook sha hmac url secret p i n a saved s = (r, s')"
  shows "settled_row (pending_row sha p i n s) a saved \<in> set (deliveries s')"
  using assms(2-4) by (auto simp: deliverWebhook_ok [OF assms(1)] set_save_row)

text \<open>C19: \<open>deliverWebhook\<close>. Without its webhook nothing is sent and the row cannot be saved. After an earlier
success the stored answer is returned and nothing changes. Otherwise one request goes out: the payload with its event id, signed over
the body it carries. The row of the event keeps this payload, the attempt and the answer; it ends as SUCCESS exactly when the endpoint
answered below 300 and the row of the answer could be saved, else as FAILED with the error's message, and no other row changes. The call
answers with status and text below 500 and throws when there was no answer, an answer of 500 or more, or the answer could not be saved.\<close>

theorem deliverWebhook_correct:
  assumes "rows_ok s" "deliverWebhook sha hmac url secret p i n a saved s = (r, s')"
  shows "(find_webhook i s = None \<longrightarrow> r = Inl ForeignKeyViolation \<and> deliveries s' = deliveries s \<and> requests s' = requests s) \<and>
    (\<forall>d. find_webhook i s \<noteq> None \<and> success_row i (payload_event_id sha p) s = Some d \<longrightarrow>
      r = Inr \<lparr>r_statusCode = (case dl_responseCode d of Some c \<Rightarrow> c | None \<Rightarrow> 200),
               r_responseBody = (case dl_responseBody d of Some b \<Rightarrow> b | None \<Rightarrow> [])\<rparr> \<and> s' = s) \<and>
    (find_webhook i s \<noteq> None \<and> success_row i (payload_event_id sha p) s = None \<longrightarrow>
      r = (case a of Unreachable msg \<Rightarrow> Inl (JsError msg)
           | Answer st b \<Rightarrow> if \<not> saved then Inl save_error else if st \<ge> 500 then Inl (server_error st)
               else Inr \<lparr>r_statusCode = st, r_responseBody = take 1024 b\<rparr>) \<and>
      (\<exists>q d. requests s' = requests s @ [q] \<and> rq_webhookId q = i \<and> rq_url q = url \<and> rq_eventId q = payload_event_id sha p \<and>
         rq_body q = stringify (payload_json (add_event_id (payload_event_id sha p) p)) \<and>
         rq_signature q = ''sha256='' @ hmac secret (rq_body q) \<and>
         deliveries s' = save_row dl_id d (deliveries s) \<and> event_key d = (i, payload_event_id sha p) \<and>
         dl_payload d = add_event_id (payload_event_id sha p) p \<and> dl_attemptNumber d = n \<and>
         dl_status d = (case a of Answer st b \<Rightarrow> if saved \<and> st < 300 then D_SUCCESS else D_FAILED | Unreachable msg \<Rightarrow> D_FAILED) \<and>
         dl_responseCode d = (case a of Answer st b \<Rightarrow> Some st
           | Unreachable msg \<Rightarrow> Option.bind (find_delivery i (payload_event_id sha p) s) dl_responseCode) \<and>
         dl_responseBody d = Some (take 1024 (case a of Unreachable msg \<Rightarrow> msg
           | Answer st b \<Rightarrow> if \<not> saved then ''Connection terminated'' else if st \<ge> 500 then ''Endpoint returned '' @ show_nat st else b))))"
proof (cases "find_webhook i s \<noteq> None \<and> success_row i (payload_event_id sha p) s = None")
  case True
  let ?p = "pending_row sha p i n s"
  let ?d = "settled_row ?p a saved" and ?q = "request_of hmac url secret ?p a saved"
  have s': "requests s' = requests s @ [?q]" "r = settled_result a saved" "deliveries s' = save_row dl_id ?d (deliveries s)"
    using True assms(2) by (auto simp: deliverWebhook_ok [OF assms(1)])
  have p: "dl_attemptNumber ?p = n" "dl_payload ?p = add_event_id (payload_event_id sha p) p"
      "dl_responseCode ?p = Option.bind (find_delivery i (payload_event_id sha p) s) dl_responseCode"
    by (auto simp: pending_row_def Let_def split: option.splits)
  note d = settled_row_fields [of ?p a saved]
  have q: "rq_webhookId ?q = i" "rq_url ?q = url" "rq_eventId ?q = payload_event_id sha p"
      "rq_body ?q = stringify (payload_json (add_event_id (payload_event_id sha p) p))"
      "rq_signature ?q = ''sha256='' @ hmac secret (rq_body ?q)"
    using pending_row_key [of sha p i n s] p(2) by (simp_all add: request_of_def Let_def generateSignature_def event_key_def)
  have r: "r = (case a of Unreachable msg \<Rightarrow> Inl (JsError msg)
           | Answer st b \<Rightarrow> if \<not> saved then Inl save_error else if st \<ge> 500 then Inl (server_error st)
               else Inr \<lparr>r_statusCode = st, r_responseBody = take 1024 b\<rparr>)"
    unfolding s'(2) by (cases a) simp_all
  have key: "event_key ?d = (i, payload_event_id sha p)" by (simp add: pending_row_key)
  show ?thesis
  proof (intro conjI impI allI)
    show "r = (case a of Unreachable msg \<Rightarrow> Inl (JsError msg)
           | Answer st b \<Rightarrow> if \<not> saved then Inl save_error else if st \<ge> 500 then Inl (server_error st)
               else Inr \<lparr>r_statusCode = st, r_responseBody = take 1024 b\<rparr>)" by (rule r)
    show "\<exists>q d. requests s' = requests s @ [q] \<and> rq_webhookId q = i \<and> rq_url q = url \<and> rq_eventId q = payload_event_id sha p \<and>
         rq_body q = stringify (payload_json (add_event_id (payload_event_id sha p) p)) \<and>
         rq_signature q = ''sha256='' @ hmac secret (rq_body q) \<and>
         deliveries s' = save_row dl_id d (deliveries s) \<and> event_key d = (i, payload_event_id sha p) \<and>
         dl_payload d = add_event_id (payload_event_id sha p) p \<and> dl_attemptNumber d = n \<and>
         dl_status d = (case a of Answer st b \<Rightarrow> if saved \<and> st < 300 then D_SUCCESS else D_FAILED | Unreachable msg \<Rightarrow> D_FAILED) \<and>
         dl_responseCode d = (case a of Answer st b \<Rightarrow> Some st
           | Unreachable msg \<Rightarrow> Option.bind (find_delivery i (payload_event_id sha p) s) dl_responseCode) \<and>
         dl_responseBody d = Some (take 1024 (case a of Unreachable msg \<Rightarrow> msg
           | Answer st b \<Rightarrow> if \<not> saved then ''Connection terminated'' else if st \<ge> 500 then ''Endpoint returned '' @ show_nat st else b))"
      by (intro exI [of _ ?q] exI [of _ ?d] conjI) (rule s'(1) s'(3) q key | simp only: d p)+
  qed (use True in auto)
next
  case False
  then show ?thesis using assms(2) by (auto simp: deliverWebhook_ok [OF assms(1)] split: option.splits)
qed

definition demo_webhook :: wh_state where
  "demo_webhook = no_webhooks\<lparr>webhooks := [\<lparr>wh_id = ''0'', wh_userId = ''u'', wh_url = ''url'', wh_secret = ''k'',
     wh_eventTypes = [''GROUP_COMPLETED''], wh_isActive = True\<rparr>], wh_ids := 1\<rparr>"

lemma digit_char_0: "digit_char 0 = CHR ''0''"
  by code_simp

lemma demo_webhook_inv: "wh_inv demo_webhook"
  by (simp add: wh_inv_def rows_ok_def demo_webhook_def no_webhooks_def accepted_count_def given_def digit_char_0)

lemma demo_webhook_simps [simp]:
  "find_webhook ''0'' demo_webhook \<noteq> None" "success_row ''0'' e demo_webhook = None" "requests demo_webhook = []"
  by (simp_all add: demo_webhook_def no_webhooks_def find_webhook_def success_row_def find_delivery_def)

theorem deliverWebhook_correct_witness:
  "fst (deliverWebhook id (\<lambda>k x. x) ''url'' ''k'' (test_payload ''0'' 0) ''0'' 1 (Answer 503 []) True demo_webhook) = Inl (server_error 503) \<and>
   fst (deliverWebhook id (\<lambda>k x. x) ''url'' ''k'' (test_payload ''0'' 0) ''0'' 1 (Answer 404 ''no'') True demo_webhook)
     = Inr \<lparr>r_statusCode = 404, r_responseBody = ''no''\<rparr>"
proof -
  have rows: "rows_ok demo_webhook" using demo_webhook_inv by (simp add: wh_inv_def)
  show ?thesis
    using deliverWebhook_correct [OF rows prod.collapse [symmetric], where sha = id and hmac = "\<lambda>k x. x" and url = "''url''"
        and secret = "''k''" and p = "test_payload ''0'' 0" and i = "''0''" and n = 1 and a = "Answer 503 []" and saved = True]
      deliverWebhook_correct [OF rows prod.collapse [symmetric], where sha = id and hmac = "\<lambda>k x. x" and url = "''url''"
        and secret = "''k''" and p = "test_payload ''0'' 0" and i = "''0''" and n = 1 and a = "Answer 404 ''no''" and saved = True]
    by (auto simp del: prod.collapse)
qed

subsection \<open>Dispatch and test\<close>

text \<open>The jobs a dispatch adds.\<close>

lemma fold_wh_add:
  "\<exists>js. fold (\<lambda>w. wh_add (wh_id w) (wh_url w) (wh_secret w) p) ws s =
       s\<lparr>wh_queue := wh_queue s @ js, wh_ids := wh_ids s + length js\<rparr> \<and>
     map (\<lambda>j. (wj_webhookId j, wj_url j, wj_secret j)) js = map (\<lambda>w. (wh_id w, wh_url w, wh_secret w)) ws \<and>
     (\<forall>j \<in> set js. wj_attempts j = 5 \<and> wj_attemptsMade j = 0 \<and> wj_payload j = p)"
proof (induction ws arbitrary: s)
  case (Cons w ws)
  let ?j = "\<lparr>wj_id = wh_fresh s, wj_webhookId = wh_id w, wj_url = wh_url w, wj_secret = wh_secret w, wj_payload = p,
    wj_attempts = 5, wj_attemptsMade = 0\<rparr>"
  let ?s1 = "wh_add (wh_id w) (wh_url w) (wh_secret w) p s"
  obtain js where js: "fold (\<lambda>w. wh_add (wh_id w) (wh_url w) (wh_secret w) p) ws ?s1 =
      ?s1\<lparr>wh_queue := wh_queue ?s1 @ js, wh_ids := wh_ids ?s1 + length js\<rparr>"
    "map (\<lambda>j. (wj_webhookId j, wj_url j, wj_secret j)) js = map (\<lambda>w. (wh_id w, wh_url w, wh_secret w)) ws"
    "\<forall>j \<in> set js. wj_attempts j = 5 \<and> wj_attemptsMade j = 0 \<and> wj_payload j = p"
    using Cons.IH by blast
  have "fold (\<lambda>w. wh_add (wh_id w) (wh_url w) (wh_secret w) p) (w # ws) s =
      ?s1\<lparr>wh_queue := wh_queue ?s1 @ js, wh_ids := wh_ids ?s1 + length js\<rparr>" by (simp only: fold_simps js(1))
  also have "\<dots> = s\<lparr>wh_queue := wh_queue s @ ?j # js, wh_ids := wh_ids s + length (?j # js)\<rparr>" by (simp add: wh_add_def)
  finally show ?case using js(2,3) by (intro exI [of _ "?j # js"]) simp
qed simp

lemma first_colon:
  assumes "CHR '':'' \<notin> set x" "CHR '':'' \<notin> set y"
  shows "x @ CHR '':'' # u = y @ CHR '':'' # v \<longleftrightarrow> x = y \<and> u = v"
  using assms
proof (induction x arbitrary: y)
  case Nil
  then show ?case by (cases y) auto
next
  case (Cons c x)
  then show ?case by (cases y) auto
qed

text \<open>C31: \<open>dispatchEvent\<close> adds one job for each active webhook that subscribed to the event, in the order of the
table, with its url and secret, five attempts, and one payload for all: event, data, time, and the event id the caller gave or else the
derived one. Nothing else changes. The derived id depends on the event and its data only, up to the order of keys: for data that is JSON,
events without a colon in their name and a hash that tells the two texts apart, two pairs of event and data get the same id exactly
when they agree.\<close>

theorem dispatchEvent_correct:
  assumes "json_wf d" "json_wf d'" "CHR '':'' \<notin> set event" "CHR '':'' \<notin> set event'"
    and "sha (event @ CHR '':'' # stableSerialize d) = sha (event' @ CHR '':'' # stableSerialize d') \<longrightarrow>
      event @ CHR '':'' # stableSerialize d = event' @ CHR '':'' # stableSerialize d'"
  shows "(\<exists>js. dispatchEvent sha event d eventId s =
        s\<lparr>wh_queue := wh_queue s @ js, wh_ids := wh_ids s + length js\<rparr> \<and>
      map (\<lambda>j. (wj_webhookId j, wj_url j, wj_secret j)) js =
        map (\<lambda>w. (wh_id w, wh_url w, wh_secret w)) (filter (\<lambda>w. wh_isActive w \<and> event \<in> set (wh_eventTypes w)) (webhooks s)) \<and>
      (\<forall>j \<in> set js. wj_attempts j = 5 \<and> wj_attemptsMade j = 0 \<and>
         wj_payload j = \<lparr>p_event = event, p_event_id = Some (case eventId of Some x \<Rightarrow> x | None \<Rightarrow> createEventId sha event d),
           p_id_last = False, p_timestamp = toISOString (wh_now s), p_data = d\<rparr>)) \<and>
    (createEventId sha event d = createEventId sha event' d' \<longleftrightarrow> event = event' \<and> key_sorted d = key_sorted d')"
proof -
  define p where "p = \<lparr>p_event = event, p_event_id = Some (case eventId of Some x \<Rightarrow> x | None \<Rightarrow> createEventId sha event d),
    p_id_last = False, p_timestamp = toISOString (wh_now s), p_data = d\<rparr>"
  have run: "dispatchEvent sha event d eventId s = fold (\<lambda>w. wh_add (wh_id w) (wh_url w) (wh_secret w) p)
      (filter (\<lambda>w. wh_isActive w \<and> event \<in> set (wh_eventTypes w)) (webhooks s)) s"
    by (simp add: dispatchEvent_def p_def conj_commute)
  have "createEventId sha event d = createEventId sha event' d' \<longleftrightarrow> event = event' \<and> key_sorted d = key_sorted d'"
    using assms(5) stable_text_eq_iff [OF assms(1,2)] first_colon [OF assms(3,4)]
    by (auto simp: createEventId_def stableSerialize_def)
  with fold_wh_add [of p "filter (\<lambda>w. wh_isActive w \<and> event \<in> set (wh_eventTypes w)) (webhooks s)" s] show ?thesis
    unfolding run by (simp add: p_def)
qed

theorem dispatchEvent_correct_witness:
  "createEventId id ''GROUP_COMPLETED'' (JObj [(''a'', JNull), (''b'', JNull)]) = createEventId id ''GROUP_COMPLETED'' (JObj [(''b'', JNull), (''a'', JNull)])
   \<and> createEventId id ''GROUP_COMPLETED'' JNull \<noteq> createEventId id ''GROUP_ARCHIVED'' JNull"
  using dispatchEvent_correct [of "JObj [(''a'', JNull), (''b'', JNull)]" "JObj [(''b'', JNull), (''a'', JNull)]"
      "''GROUP_COMPLETED''" "''GROUP_COMPLETED''" id]
    dispatchEvent_correct [of JNull JNull "''GROUP_COMPLETED''" "''GROUP_ARCHIVED''" id]
  by simp

text \<open>a webhook can be tested once. After a test the endpoint accepted, every later test of the webhook by its owner, whatever happened in
between, sends nothing, changes nothing and reports success, even when the endpoint is gone: the test event always has the same id.\<close>

theorem testWebhook_works_once:
  assumes "wh_inv s" "find_webhook i s \<noteq> None" "testWebhook sha hmac i None (Answer st b) True s = (Inr r, s1)" "st < 300"
    and "s2 = fold (wh_exec sha hmac) ops s1" "find_webhook i s2 \<noteq> None"
  shows "is_ok (fst (testWebhook sha hmac i None a saved s2)) \<and> snd (testWebhook sha hmac i None a saved s2) = s2"
proof -
  have id: "payload_event_id sha (test_payload i t) = payload_event_id sha (test_payload i 0)" for t
    by (simp add: payload_event_id_def test_payload_def)
  let ?e = "payload_event_id sha (test_payload i 0)"
  have rows: "rows_ok s" using assms(1) by (simp add: wh_inv_def)
  obtain w where w: "find_webhook i s = Some w" using assms(2) by blast
  have run: "deliverWebhook sha hmac (wh_url w) (wh_secret w) (test_payload i (wh_now s)) i 1 (Answer st b) True s = (Inr r, s1)"
    using assms(3) w by (simp add: testWebhook_def truthy_def)
  have s1: "wh_inv s1" using deliver_inv [OF assms(1)] run by (metis snd_conv)
  then have rows1: "rows_ok s1" by (simp add: wh_inv_def)
  have "success_row i ?e s1 \<noteq> None"
  proof (cases "success_row i ?e s")
    case None
    let ?d = "settled_row (pending_row sha (test_payload i (wh_now s)) i 1 s) (Answer st b) True"
    have "?d \<in> set (deliveries s1)"
      using None by (intro delivered_row [OF rows assms(2) _ run]) (simp add: id [of "wh_now s"])
    moreover have "event_key ?d = (i, ?e)" by (simp only: settled_row_same pending_row_key id [of "wh_now s"])
    moreover have "dl_status ?d = D_SUCCESS" using assms(4) by (simp add: Let_def)
    ultimately show ?thesis unfolding success_row_iff [OF rows1] by blast
  next
    case (Some d)
    then have "s1 = s" using run assms(2) by (auto simp: deliverWebhook_ok [OF rows] id [of "wh_now s"])
    with Some show ?thesis by simp
  qed
  then have "settled i ?e s2" using webhook_machine.run_le [OF s1] assms(5) by (simp add: wh_le_def settled_def)
  with assms(6) have found: "success_row i ?e s2 \<noteq> None" by (auto simp: settled_def)
  have rows2: "rows_ok s2" using webhook_machine.run_inv [OF s1] assms(5) by (simp add: wh_inv_def)
  show ?thesis
    using found assms(6) by (auto simp: testWebhook_def truthy_def deliverWebhook_ok [OF rows2] id [of "wh_now s2"])
qed

theorem testWebhook_works_once_witness:
  "let s2 = snd (testWebhook id (\<lambda>k x. x) ''0'' None (Answer 200 ''ok'') True demo_webhook) in
   is_ok (fst (testWebhook id (\<lambda>k x. x) ''0'' None (Unreachable ''ECONNREFUSED'') True s2))"
proof -
  have rows: "rows_ok demo_webhook" using demo_webhook_inv by (simp add: wh_inv_def)
  let ?t = "testWebhook id (\<lambda>k x. x) ''0'' None (Answer 200 ''ok'') True demo_webhook"
  have t: "?t = (Inr \<lparr>r_statusCode = 200, r_responseBody = ''ok''\<rparr>, snd ?t)" "find_webhook ''0'' (snd ?t) \<noteq> None"
    by (simp_all add: testWebhook_def deliverWebhook_ok [OF rows] truthy_def split: option.splits)
      (simp_all add: demo_webhook_def find_webhook_def)
  show ?thesis
    using testWebhook_works_once [OF demo_webhook_inv _ t(1), where ops = "[]" and a = "Unreachable ''ECONNREFUSED''" and saved = True] t(2)
    by (simp add: Let_def)
qed

text \<open>two workers that hold jobs of the same event (a retry and a replay, say; the worker runs five at a time) both read the row
before either has saved its answer, and the endpoint gets and accepts the event twice.\<close>

theorem concurrent_workers_deliver_twice:
  assumes "rows_ok s" "find_webhook i s \<noteq> None" "success_row i (payload_event_id sha p) s = None" "st < 300"
  shows "\<exists>d1 d2 s1 s2. begin_delivery sha p i n s = (Inr (Inr d1), s1) \<and> begin_delivery sha p i m s1 = (Inr (Inr d2), s2) \<and>
    accepted_count i (payload_event_id sha p)
      (snd (finish_delivery hmac url secret d2 (Answer st b) True (snd (finish_delivery hmac url secret d1 (Answer st b) True s2))))
    = accepted_count i (payload_event_id sha p) s + 2"
proof -
  let ?e = "payload_event_id sha p" and ?d1 = "pending_row sha p i n s"
  let ?s1 = "s\<lparr>wh_ids := ids_after sha p i s, deliveries := save_row dl_id ?d1 (deliveries s)\<rparr>"
  let ?d2 = "pending_row sha p i m ?s1"
  let ?s2 = "?s1\<lparr>wh_ids := ids_after sha p i ?s1, deliveries := save_row dl_id ?d2 (deliveries ?s1)\<rparr>"
  have can1: "can_save ?d1 s" by (rule pending_row_can_save [OF assms(1,2)])
  have begin1: "begin_delivery sha p i n s = (Inr (Inr ?d1), ?s1)" using assms(2,3) by (simp add: begin_delivery_ok [OF assms(1)])
  have "given (dl_id ?d1) ?s1"
  proof (cases "find_delivery i ?e s")
    case None
    then have "dl_id ?d1 = show_nat (wh_ids s)" "wh_ids s < wh_ids ?s1" by (simp_all add: pending_row_def ids_after_def wh_fresh_def Let_def)
    then show ?thesis unfolding given_def by blast
  next
    case (Some d)
    with assms(1) have "given (dl_id d) s" by (auto simp: rows_ok_def dest!: find_delivery_Some)
    then have "given (dl_id d) ?s1" by (rule given_mono) (simp add: ids_after_def)
    with Some show ?thesis by (simp add: pending_row_def)
  qed
  then have rows1: "rows_ok ?s1" by (rule rows_ok_save [OF assms(1) can1]) (simp_all add: ids_after_def)
  have "?d1 \<in> set (deliveries ?s1)" by (simp add: set_save_row)
  then have found: "find_delivery i ?e ?s1 = Some ?d1" using pending_row_key by (simp add: find_delivery_iff [OF rows1])
  have "dl_status ?d1 = D_PENDING" by (simp add: pending_row_def Let_def split: option.splits)
  then have none1: "success_row i ?e ?s1 = None" by (simp add: success_row_def found)
  have webhook1: "find_webhook i ?s1 \<noteq> None" using assms(2) by (simp add: find_webhook_def)
  have begin2: "begin_delivery sha p i m ?s1 = (Inr (Inr ?d2), ?s2)"
    using webhook1 none1 by (simp add: begin_delivery_ok [OF rows1])
  have id2: "dl_id ?d2 = dl_id ?d1" using found by (simp add: pending_row_def Let_def)
  have key: "event_key ?d1 = (i, ?e)" "event_key ?d2 = (i, ?e)" by (rule pending_row_key)+
  have can2: "can_save ?d2 ?s1" by (rule pending_row_can_save [OF rows1 webhook1])
  have can1': "can_save ?d1 ?s2" by (rule can_save_again [OF can2]) (simp_all add: id2 key)
  let ?s3 = "snd (finish_delivery hmac url secret ?d1 (Answer st b) True ?s2)"
  have "can_save (settled_row ?d1 (Answer st b) True) ?s2" using can1' by (simp add: can_save_def del: settled_row.simps)
  moreover have "webhooks ?s3 = webhooks ?s2" "deliveries ?s3 = save_row dl_id (settled_row ?d1 (Answer st b) True) (deliveries ?s2)"
    unfolding finish_delivery_ok [OF can1'] by (simp_all del: settled_row.simps)
  ultimately have can3: "can_save ?d2 ?s3"
    by (intro can_save_again [of "settled_row ?d1 (Answer st b) True" ?s2 ?d2 ?s3] disjI2) (simp_all only: settled_row_same id2 key)
  have "requests (snd (finish_delivery hmac url secret ?d2 (Answer st b) True ?s3)) =
      requests ?s3 @ [request_of hmac url secret ?d2 (Answer st b) True]"
    unfolding finish_delivery_ok [OF can3] by simp
  moreover have "requests ?s3 = requests s @ [request_of hmac url secret ?d1 (Answer st b) True]"
    unfolding finish_delivery_ok [OF can1'] by simp
  moreover have "rq_webhookId (request_of hmac url secret d (Answer st b) True) = i \<and>
      rq_eventId (request_of hmac url secret d (Answer st b) True) = ?e \<and> accepted (request_of hmac url secret d (Answer st b) True)"
    if "event_key d = (i, ?e)" for d
    using that assms(4) by (simp add: accepted_def answered_ok_def request_of_def Let_def event_key_def)
  ultimately have "accepted_count i ?e (snd (finish_delivery hmac url secret ?d2 (Answer st b) True ?s3)) = accepted_count i ?e s + 2"
    using key by (simp only: accepted_count_def) simp
  with begin1 begin2 show ?thesis by blast
qed

theorem concurrent_workers_deliver_twice_witness:
  "\<exists>d1 d2 s1 s2. begin_delivery id (test_payload ''0'' 0) ''0'' 1 demo_webhook = (Inr (Inr d1), s1) \<and>
    begin_delivery id (test_payload ''0'' 0) ''0'' 1 s1 = (Inr (Inr d2), s2)"
proof -
  have "rows_ok demo_webhook" using demo_webhook_inv by (simp add: wh_inv_def)
  from concurrent_workers_deliver_twice [OF this demo_webhook_simps(1,2), where st = 200 and n = 1 and m = 1 and sha = id and p = "test_payload ''0'' 0"]
  show ?thesis by auto blast
qed

end
