(* ===== verification/Jobs.thy ===== *)
theory Jobs
  imports Webhooks "HOL-Library.AList"
begin

text \<open>
  Failed jobs: \<open>PoisonMessageDetectorService\<close> (\<open>bullmq/poison-message-detector.service.ts\<close>),
  \<open>JobFailureService\<close> (\<open>bullmq/job-failure.service.ts\<close>) and the retry of dead letters
  (\<open>bullmq/queue.service.ts\<close>). A JavaScript \<open>Map\<close> is an association list: \<open>set\<close> changes an entry in its
  place or adds one at the end, as \<open>AList.update\<close> does. SHA-256 is the argument \<open>sha\<close>.
\<close>

subsection \<open>The tracker of failure signatures\<close>

record failure_signature =
  fs_signature :: string
  fs_errorClass :: string
  fs_firstSeenAt :: time
  fs_lastSeenAt :: time
  fs_consecutive :: nat

record detector =
  poisonThreshold :: nat
  signatureTtlMs :: time
  maxTrackerEntries :: nat
  failureTracker :: "(string \<times> failure_signature) list"

record detection =
  isPoison :: bool
  consecutive :: nat

definition computeSignature :: "(string \<Rightarrow> string) \<Rightarrow> string \<Rightarrow> json \<Rightarrow> string" where
  "computeSignature sha errorClass d = sha (errorClass @ CHR '':'' # canonicalize d)"

definition enforceTrackerLimit :: "detector \<Rightarrow> detector" where
  "enforceTrackerLimit t =
     (if length (failureTracker t) \<le> maxTrackerEntries t then t
      else let toEvict = take (length (failureTracker t) - maxTrackerEntries t)
                 (sort_key (\<lambda>e. fs_firstSeenAt (snd e)) (failureTracker t))
           in t\<lparr>failureTracker := fold (\<lambda>e. AList.delete (fst e)) toEvict (failureTracker t)\<rparr>)"

definition recordFailure :: "(string \<Rightarrow> string) \<Rightarrow> time \<Rightarrow> string \<Rightarrow> string \<Rightarrow> json \<Rightarrow> detector \<Rightarrow> detection \<times> detector" where
  "recordFailure sha t jobId errorClass d D =
     (let s = computeSignature sha errorClass d;
          first_seen = \<lparr>fs_signature = s, fs_errorClass = errorClass, fs_firstSeenAt = t, fs_lastSeenAt = t, fs_consecutive = 1\<rparr> in
      case map_of (failureTracker D) jobId of
        Some e \<Rightarrow>
          if fs_signature e \<noteq> s
          then (\<lparr>isPoison = False, consecutive = 1\<rparr>, D\<lparr>failureTracker := AList.update jobId first_seen (failureTracker D)\<rparr>)
          else let e' = e\<lparr>fs_lastSeenAt := t, fs_consecutive := fs_consecutive e + 1\<rparr>
               in (\<lparr>isPoison = (fs_consecutive e' \<ge> poisonThreshold D), consecutive = fs_consecutive e'\<rparr>,
                   D\<lparr>failureTracker := AList.update jobId e' (failureTracker D)\<rparr>)
      | None \<Rightarrow>
          (\<lparr>isPoison = False, consecutive = 1\<rparr>,
           enforceTrackerLimit (D\<lparr>failureTracker := AList.update jobId first_seen (failureTracker D)\<rparr>)))"

definition getPoisonStatus :: "time \<Rightarrow> string \<Rightarrow> detector \<Rightarrow> failure_signature option \<times> detector" where
  "getPoisonStatus t jobId D =
     (case map_of (failureTracker D) jobId of
        None \<Rightarrow> (None, D)
      | Some e \<Rightarrow> if t - fs_lastSeenAt e > signatureTtlMs D
                  then (None, D\<lparr>failureTracker := AList.delete jobId (failureTracker D)\<rparr>)
                  else (Some e, D))"

definition cleanupStaleEntries :: "time \<Rightarrow> detector \<Rightarrow> detector" where
  "cleanupStaleEntries t D = D\<lparr>failureTracker :=
     filter (\<lambda>(k, e). \<not> (t - fs_lastSeenAt e > signatureTtlMs D)) (failureTracker D)\<rparr>"

definition getAllPoisonCandidates :: "time \<Rightarrow> detector \<Rightarrow> (string \<times> failure_signature) list \<times> detector" where
  "getAllPoisonCandidates t D = (let D' = cleanupStaleEntries t D in
     (filter (\<lambda>(k, e). fs_consecutive e \<ge> poisonThreshold D') (failureTracker D'), D'))"

definition clearJob :: "string \<Rightarrow> detector \<Rightarrow> detector" where
  "clearJob jobId D = D\<lparr>failureTracker := AList.delete jobId (failureTracker D)\<rparr>"

definition reset_tracker :: "detector \<Rightarrow> detector" where
  "reset_tracker D = D\<lparr>failureTracker := []\<rparr>"

datatype detector_op =
    Record time string string json
  | Status time string
  | Candidates time
  | Clear string
  | Reset

fun detector_exec :: "(string \<Rightarrow> string) \<Rightarrow> detector_op \<Rightarrow> detector \<Rightarrow> detector" where
  "detector_exec sha (Record t i c d) D = snd (recordFailure sha t i c d D)"
| "detector_exec sha (Status t i) D = snd (getPoisonStatus t i D)"
| "detector_exec sha (Candidates t) D = snd (getAllPoisonCandidates t D)"
| "detector_exec sha (Clear i) D = clearJob i D"
| "detector_exec sha Reset D = reset_tracker D"

subsection \<open>The tracker stays within its limit\<close>

definition tracker_ok :: "detector \<Rightarrow> bool" where
  "tracker_ok D \<longleftrightarrow> distinct (map fst (failureTracker D)) \<and> length (failureTracker D) \<le> maxTrackerEntries D"

lemma length_update: "length (AList.update k v t) = (if k \<in> fst ` set t then length t else length t + 1)"
  by (induction t) auto

lemma fold_delete: "fold (\<lambda>e. AList.delete (fst e)) es t = filter (\<lambda>x. fst x \<notin> fst ` set es) t"
proof (induction es arbitrary: t)
  case (Cons e es)
  have "AList.delete (fst e) t = filter (\<lambda>x. fst x \<noteq> fst e) t" by (induction t) auto
  with Cons show ?case by (auto intro!: filter_cong simp: conj_commute)
qed simp

text \<open>Deleting \<open>n\<close> different keys that are there leaves \<open>n\<close> entries less.\<close>

lemma length_without:
  assumes "distinct (map fst t)" "distinct (map fst es)" "set es \<subseteq> set t"
  shows "length (filter (\<lambda>x. fst x \<notin> fst ` set es) t) = length t - length es"
proof -
  let ?f = "filter (\<lambda>x. fst x \<notin> fst ` set es) t"
  have keys: "map fst ?f = filter (\<lambda>k. k \<notin> fst ` set es) (map fst t)" by (simp add: filter_map comp_def)
  have "distinct (map fst ?f)" unfolding keys using assms(1) by (rule distinct_filter)
  then have "length ?f = card (fst ` set t - fst ` set es)"
    using distinct_card [of "map fst ?f"] unfolding keys by (simp add: set_diff_eq comp_def)
  also have "\<dots> = card (fst ` set t) - card (fst ` set es)" using assms(3) by (intro card_Diff_subset) auto
  also have "\<dots> = length t - length es"
    using distinct_card [OF assms(1)] distinct_card [OF assms(2)] by simp
  finally show ?thesis .
qed

lemma set_without: "set (filter P t) \<subseteq> set t"
  by auto

lemma enforce_ok:
  assumes "distinct (map fst (failureTracker D))"
  shows "tracker_ok (enforceTrackerLimit D) \<and> maxTrackerEntries (enforceTrackerLimit D) = maxTrackerEntries D"
proof (cases "length (failureTracker D) \<le> maxTrackerEntries D")
  case True
  with assms show ?thesis by (simp add: enforceTrackerLimit_def tracker_ok_def)
next
  case False
  let ?t = "failureTracker D" and ?n = "length (failureTracker D) - maxTrackerEntries D"
  let ?es = "take ?n (sort_key (\<lambda>e. fs_firstSeenAt (snd e)) ?t)"
  have "distinct (map fst (sort_key (\<lambda>e. fs_firstSeenAt (snd e)) ?t))"
    using assms by (simp add: distinct_map)
  then have "distinct (map fst ?es)" by (simp add: take_map [symmetric])
  moreover have "set ?es \<subseteq> set ?t" by (metis set_sort set_take_subset)
  ultimately have "length (filter (\<lambda>x. fst x \<notin> fst ` set ?es) ?t) = maxTrackerEntries D"
    using False by (simp add: length_without [OF assms])
  moreover have "distinct (map fst (filter (\<lambda>x. fst x \<notin> fst ` set ?es) ?t))" using assms by (rule distinct_map_filter)
  ultimately show ?thesis using False by (simp add: enforceTrackerLimit_def Let_def fold_delete tracker_ok_def)
qed

lemma detector_step:
  assumes "tracker_ok D"
  shows "tracker_ok (detector_exec sha op D) \<and> maxTrackerEntries (detector_exec sha op D) = maxTrackerEntries D"
proof (cases op)
  case (Record t i c d)
  show ?thesis
  proof (cases "map_of (failureTracker D) i")
    case None
    have "distinct (map fst (failureTracker D))" using assms by (simp add: tracker_ok_def)
    then have "distinct (map fst (AList.update i e (failureTracker D)))" for e by (rule distinct_update)
    with None Record show ?thesis by (simp add: recordFailure_def Let_def enforce_ok)
  next
    case (Some e)
    then have "i \<in> fst ` set (failureTracker D)" by (force dest: map_of_SomeD)
    with Some assms Record show ?thesis
      by (auto simp: recordFailure_def Let_def tracker_ok_def distinct_update length_update)
  qed
next
  case (Status t i)
  with assms show ?thesis
    by (auto simp: getPoisonStatus_def tracker_ok_def distinct_delete split: option.splits intro: order_trans [OF length_delete_le])
next
  case (Candidates t)
  with assms show ?thesis
    by (auto simp: getAllPoisonCandidates_def cleanupStaleEntries_def Let_def tracker_ok_def distinct_map_filter
        intro: order_trans [OF length_filter_le])
next
  case (Clear i)
  with assms show ?thesis
    by (auto simp: clearJob_def tracker_ok_def distinct_delete intro: order_trans [OF length_delete_le])
qed (use assms in \<open>simp add: reset_tracker_def tracker_ok_def\<close>)

interpretation detector_machine: machine "detector_exec sha" tracker_ok for sha
  by unfold_locales (simp add: detector_step)

text \<open>C33: whatever is recorded, asked, cleared and reset, in any order, the tracker holds one entry per job and never more
than its maximum of entries.\<close>

theorem tracker_bounded:
  assumes "tracker_ok D" "maxTrackerEntries D = m"
  shows "distinct (map fst (failureTracker (fold (detector_exec sha) ops D))) \<and>
    length (failureTracker (fold (detector_exec sha) ops D)) \<le> m"
proof -
  have "tracker_ok D \<Longrightarrow> maxTrackerEntries (fold (detector_exec sha) ops D) = maxTrackerEntries D" for D
    by (induction ops arbitrary: D) (simp_all add: detector_step)
  with detector_machine.run_inv [OF assms(1), of sha ops] assms show ?thesis by (simp add: tracker_ok_def)
qed

definition new_detector :: "nat \<Rightarrow> nat \<Rightarrow> detector" where
  "new_detector threshold m = \<lparr>poisonThreshold = threshold, signatureTtlMs = 1800000, maxTrackerEntries = m, failureTracker = []\<rparr>"

lemma new_detector_ok: "tracker_ok (new_detector k m)" "maxTrackerEntries (new_detector k m) = m"
  by (simp_all add: tracker_ok_def new_detector_def)

theorem tracker_bounded_witness:
  "length (failureTracker (fold (detector_exec id) [Record 1 ''7'' ''Error'' JNull, Record 2 ''8'' ''Error'' JNull,
     Record 3 ''9'' ''Error'' JNull] (new_detector 3 2))) \<le> 2"
  using tracker_bounded [OF new_detector_ok] by blast

subsection \<open>The count is that of the last failures in a row\<close>

record failure =
  f_time :: time
  f_job :: string
  f_class :: string
  f_data :: json

definition f_sig :: "(string \<Rightarrow> string) \<Rightarrow> failure \<Rightarrow> string" where
  "f_sig sha f = computeSignature sha (f_class f) (f_data f)"

definition record_all :: "(string \<Rightarrow> string) \<Rightarrow> failure list \<Rightarrow> detector \<Rightarrow> detector" where
  "record_all sha fs = fold (\<lambda>f. detector_exec sha (Record (f_time f) (f_job f) (f_class f) (f_data f))) fs"

text \<open>The last failures of a job that have the same signature, the latest first.\<close>

definition last_run :: "(string \<Rightarrow> string) \<Rightarrow> string \<Rightarrow> failure list \<Rightarrow> failure list" where
  "last_run sha k fs = (let hs = rev (filter (\<lambda>f. f_job f = k) fs) in takeWhile (\<lambda>f. f_sig sha f = f_sig sha (hd hs)) hs)"

definition entry_of :: "(string \<Rightarrow> string) \<Rightarrow> failure list \<Rightarrow> failure_signature option" where
  "entry_of sha run = (if run = [] then None else
     Some \<lparr>fs_signature = f_sig sha (hd run), fs_errorClass = f_class (last run), fs_firstSeenAt = f_time (last run),
           fs_lastSeenAt = f_time (hd run), fs_consecutive = length run\<rparr>)"

lemma last_run_snoc:
  "last_run sha k (fs @ [f]) = (if f_job f \<noteq> k then last_run sha k fs
     else f # (if last_run sha k fs \<noteq> [] \<and> f_sig sha (hd (last_run sha k fs)) = f_sig sha f then last_run sha k fs else []))"
proof (cases "f_job f = k")
  case True
  show ?thesis
  proof (cases "rev (filter (\<lambda>f. f_job f = k) fs)")
    case Nil
    with True show ?thesis by (simp add: last_run_def Let_def)
  next
    case (Cons g hs)
    with True show ?thesis by (auto simp: last_run_def Let_def intro: takeWhile_cong)
  qed
qed (simp add: last_run_def Let_def)

lemma record_all_tracker:
  assumes "card (f_job ` set fs) \<le> m" "D = new_detector threshold m"
  shows "(\<forall>k. map_of (failureTracker (record_all sha fs D)) k = entry_of sha (last_run sha k fs)) \<and>
    distinct (map fst (failureTracker (record_all sha fs D))) \<and> fst ` set (failureTracker (record_all sha fs D)) = f_job ` set fs \<and>
    maxTrackerEntries (record_all sha fs D) = m \<and> poisonThreshold (record_all sha fs D) = threshold"
  using assms(1)
proof (induction fs rule: rev_induct)
  case Nil
  then show ?case using assms(2) by (simp add: record_all_def new_detector_def last_run_def entry_of_def)
next
  case (snoc f fs)
  let ?D = "record_all sha fs D" and ?D' = "record_all sha (fs @ [f]) D"
  have "card (f_job ` set fs) \<le> card (f_job ` set (fs @ [f]))" by (rule card_mono) auto
  with snoc have IH: "map_of (failureTracker ?D) k = entry_of sha (last_run sha k fs)" "distinct (map fst (failureTracker ?D))"
      "fst ` set (failureTracker ?D) = f_job ` set fs" "maxTrackerEntries ?D = m" "poisonThreshold ?D = threshold" for k by auto
  have D': "?D' = snd (recordFailure sha (f_time f) (f_job f) (f_class f) (f_data f) ?D)" by (simp add: record_all_def)
  let ?run = "last_run sha (f_job f) fs"
  obtain e where D'': "?D' = ?D\<lparr>failureTracker := AList.update (f_job f) e (failureTracker ?D)\<rparr>"
      and e: "Some e = entry_of sha (last_run sha (f_job f) (fs @ [f]))"
  proof (cases "?run = []")
    case True
    let ?e = "\<lparr>fs_signature = f_sig sha f, fs_errorClass = f_class f, fs_firstSeenAt = f_time f, fs_lastSeenAt = f_time f, fs_consecutive = 1\<rparr>"
    let ?t = "AList.update (f_job f) ?e (failureTracker ?D)"
    have none: "map_of (failureTracker ?D) (f_job f) = None" using IH(1) True by (simp add: entry_of_def)
    have "distinct (map fst ?t)" using IH(2) by (rule distinct_update)
    then have "length ?t = card (fst ` set ?t)" by (metis distinct_card length_map list.set_map)
    also have "fst ` set ?t = f_job ` set (fs @ [f])" using IH(3) by (auto simp: dom_update)
    finally have "enforceTrackerLimit (?D\<lparr>failureTracker := ?t\<rparr>) = ?D\<lparr>failureTracker := ?t\<rparr>"
      using snoc.prems IH(4) by (simp add: enforceTrackerLimit_def)
    then have "?D' = ?D\<lparr>failureTracker := ?t\<rparr>" unfolding D' using none by (simp add: recordFailure_def Let_def f_sig_def)
    with True that show thesis by (simp add: last_run_snoc entry_of_def)
  next
    case False
    then have "map_of (failureTracker ?D) (f_job f) = entry_of sha ?run" "?run \<noteq> []" using IH(1) by simp_all
    with that show thesis unfolding D'
      by (cases "f_sig sha (hd ?run) = f_sig sha f") (auto simp: recordFailure_def Let_def entry_of_def last_run_snoc f_sig_def)
  qed
  have "map_of (failureTracker ?D') k = entry_of sha (last_run sha k (fs @ [f]))" for k
    using IH(1) e by (cases "k = f_job f") (simp_all add: D'' update_conv' last_run_snoc)
  moreover have "distinct (map fst (failureTracker ?D'))" using IH(2) by (simp add: D'' distinct_update)
  moreover have "fst ` set (failureTracker ?D') = f_job ` set (fs @ [f])" using IH(3) by (auto simp: D'' dom_update)
  ultimately show ?case using IH(4,5) D'' by simp
qed

lemma recordFailure_run:
  assumes "card (f_job ` set (fs @ [f])) \<le> m"
  shows "let r = fst (recordFailure sha (f_time f) (f_job f) (f_class f) (f_data f) (record_all sha fs (new_detector threshold m)));
      run = last_run sha (f_job f) (fs @ [f]) in
    consecutive r = length run \<and> (isPoison r \<longleftrightarrow> threshold \<le> length run \<and> 2 \<le> length run)"
proof -
  have "card (f_job ` set fs) \<le> card (f_job ` set (fs @ [f]))" by (rule card_mono) auto
  with assms have "card (f_job ` set fs) \<le> m" by simp
  from record_all_tracker [OF this refl, of sha threshold]
  have t: "map_of (failureTracker (record_all sha fs (new_detector threshold m))) (f_job f) = entry_of sha (last_run sha (f_job f) fs)"
      "poisonThreshold (record_all sha fs (new_detector threshold m)) = threshold" by simp_all
  show ?thesis
  proof (cases "last_run sha (f_job f) fs = []")
    case True
    with t show ?thesis by (simp add: recordFailure_def Let_def last_run_snoc entry_of_def)
  next
    case False
    then have "length (last_run sha (f_job f) fs) \<ge> 1" by (cases "last_run sha (f_job f) fs") simp_all
    with False t show ?thesis by (auto simp: recordFailure_def Let_def last_run_snoc entry_of_def f_sig_def)
  qed
qed

text \<open>C32: after any calls of \<open>recordFailure\<close> on a new detector, as long as the jobs that failed fit into the tracker, the answer
for a failure is determined by the history of its job: the count is the length of the last run of failures with the same
\<open>computeSignature\<close> (hash of class and payload), and the job is poison exactly when that run has reached the threshold and is longer than
one: the branch for the first failure never flags, so with a threshold of 1 a job is flagged one failure late.\<close>

theorem recordFailure_counts_run:
  assumes "card (f_job ` set (fs @ [f])) \<le> m"
  shows "let r = fst (recordFailure sha (f_time f) (f_job f) (f_class f) (f_data f) (record_all sha fs (new_detector threshold m)));
      run = last_run sha (f_job f) (fs @ [f]) in
    consecutive r = length run \<and> (isPoison r \<longleftrightarrow> threshold \<le> length run \<and> 2 \<le> length run)"
  using assms by (rule recordFailure_run)

theorem recordFailure_counts_run_witness:
  "let f = \<lparr>f_time = 0, f_job = ''7'', f_class = ''Error'', f_data = JNull\<rparr> in
   isPoison (fst (recordFailure id 0 ''7'' ''Error'' JNull (record_all id [f, f] (new_detector 3 10)))) \<and>
   \<not> isPoison (fst (recordFailure id 0 ''7'' ''Error'' JNull (record_all id [] (new_detector 1 10))))"
proof -
  let ?f = "\<lparr>f_time = 0, f_job = ''7'', f_class = ''Error'', f_data = JNull\<rparr>"
  show ?thesis
    using recordFailure_counts_run [of "[?f, ?f]" ?f 10 id 3] recordFailure_counts_run [of "[]" ?f 10 id 1]
    by (simp add: Let_def last_run_def)
qed

lemma last_run_alternating:
  assumes "f_job f = k" "f_job g = k" "f_sig sha f \<noteq> f_sig sha g"
  shows "last_run sha k (concat (replicate n [f, g]) @ [f]) = [f]" and "last_run sha k (concat (replicate n [f, g]) @ [f, g]) = [g]"
proof -
  have "concat (replicate n [f, g]) = concat (replicate (n - 1) [f, g]) @ (if n = 0 then [] else [f, g])"
  proof (cases n)
    case (Suc m)
    have "replicate (Suc m) [f, g] = replicate m [f, g] @ [[f, g]]" by (simp add: replicate_append_same)
    with Suc show ?thesis by (simp del: replicate.simps)
  qed simp
  then have "hd (last_run sha k (concat (replicate n [f, g]))) = g \<or> last_run sha k (concat (replicate n [f, g])) = []"
    using assms last_run_snoc [of sha k "concat (replicate (n - 1) [f, g]) @ [f]" g] by (cases n) (auto simp: last_run_def)
  then show run: "last_run sha k (concat (replicate n [f, g]) @ [f]) = [f]"
    using assms by (auto simp: last_run_snoc)
  show "last_run sha k (concat (replicate n [f, g]) @ [f, g]) = [g]"
    using assms run last_run_snoc [of sha k "concat (replicate n [f, g]) @ [f]" g] by simp
qed

text \<open>job ids are numbers of their own queue, but the tracker is keyed by the id alone. Two jobs of different queues with the
same id that fail in turns reset each other's count: neither is ever flagged, however often both fail.\<close>

theorem same_id_never_poison:
  assumes "f_job g = f_job f" "f_sig sha f \<noteq> f_sig sha g" "0 < m"
  shows "\<not> isPoison (fst (recordFailure sha (f_time f) (f_job f) (f_class f) (f_data f)
      (record_all sha (concat (replicate n [f, g])) (new_detector threshold m)))) \<and>
    \<not> isPoison (fst (recordFailure sha (f_time g) (f_job g) (f_class g) (f_data g)
      (record_all sha (concat (replicate n [f, g]) @ [f]) (new_detector threshold m))))"
proof -
  have "f_job ` set (concat (replicate n [f, g]) @ [f]) \<subseteq> {f_job f}" "f_job ` set ((concat (replicate n [f, g]) @ [f]) @ [g]) \<subseteq> {f_job f}"
    using assms(1) by auto
  then have "card (f_job ` set (concat (replicate n [f, g]) @ [f])) \<le> m" "card (f_job ` set ((concat (replicate n [f, g]) @ [f]) @ [g])) \<le> m"
    using assms(3) card_mono [of "{f_job f}"] by (fastforce dest!: card_mono [rotated])+
  from this [THEN recordFailure_run, of sha threshold] last_run_alternating [OF refl assms(1,2), of n] assms(1)
  show ?thesis by (simp add: Let_def)
qed

theorem same_id_never_poison_witness:
  "\<not> isPoison (fst (recordFailure id 0 ''7'' ''Error'' JNull
     (record_all id (concat (replicate 9 [\<lparr>f_time = 0, f_job = ''7'', f_class = ''Error'', f_data = JNull\<rparr>,
        \<lparr>f_time = 0, f_job = ''7'', f_class = ''Error'', f_data = JBool True\<rparr>])) (new_detector 3 10))))"
  using same_id_never_poison [of "\<lparr>f_time = 0, f_job = ''7'', f_class = ''Error'', f_data = JBool True\<rparr>"
      "\<lparr>f_time = 0, f_job = ''7'', f_class = ''Error'', f_data = JNull\<rparr>" id 10 9 3]
  by (simp add: f_sig_def computeSignature_def)

subsection \<open>The failures of jobs and their retries\<close>

datatype failure_status = F_PENDING | F_RETRYING | F_RESOLVED | F_POISON

record job_failure =
  jf_id :: uuid
  jf_jobId :: string
  jf_jobName :: string
  jf_queueName :: string
  jf_failedAt :: time
  jf_error :: string
  jf_stackTrace :: "string option"
  jf_attemptNumber :: nat
  jf_data :: json
  jf_retryCount :: nat
  jf_status :: failure_status
  jf_lastRetriedAt :: "time option"
  jf_isPoison :: bool
  jf_consecutiveFailures :: nat
  jf_failureSignature :: "string option"
  jf_errorClass :: string

record bull_job =
  bj_queue :: string
  bj_id :: string
  bj_name :: string
  bj_data :: json

record dead_job =
  dj_id :: string
  dj_originalQueue :: string
  dj_originalJobName :: string
  dj_originalJobData :: json

record jobs_state =
  jb_now :: time
  jb_ids :: nat
  job_counter :: "string \<Rightarrow> nat"
  waiting_jobs :: "bull_job list"
  failed_jobs :: "bull_job list"
  dead_jobs :: "dead_job list"
  job_failures :: "job_failure list"
  jb_detector :: detector

text \<open>The thrown value: its message, stack and class.\<close>

record thrown =
  th_message :: string
  th_stack :: "string option"
  th_class :: string

text \<open>The queues \<open>JobFailureService\<close> knows, those the module listens to, and those dead letters go back to.\<close>

definition retry_queues :: "string list" where
  "retry_queues = [''email-queue'', ''event-sync-queue'', ''group-sync-queue'', ''payout-reconciliation-queue'']"

definition listened_queues :: "string list" where
  "listened_queues = retry_queues @ [''tx-confirmation-queue'', ''push-notification-queue'']"

definition dead_letter_queues :: "string list" where
  "dead_letter_queues = retry_queues @ [''tx-confirmation-queue'', ''push-notification-queue'']"

definition getQueueByName :: "string \<Rightarrow> string option" where
  "getQueueByName q = (if q \<in> set retry_queues then Some q else None)"

text \<open>\<open>queue.add\<close> gives the job the next number of its queue.\<close>

definition queue_add :: "string \<Rightarrow> string \<Rightarrow> json \<Rightarrow> jobs_state \<Rightarrow> string \<times> jobs_state" where
  "queue_add q name d s = (let i = show_nat (job_counter s q + 1) in
     (i, s\<lparr>job_counter := (job_counter s)(q := job_counter s q + 1),
            waiting_jobs := waiting_jobs s @ [\<lparr>bj_queue = q, bj_id = i, bj_name = name, bj_data = d\<rparr>]\<rparr>))"

definition persist :: "string \<Rightarrow> string \<Rightarrow> string \<Rightarrow> thrown \<Rightarrow> nat \<Rightarrow> json \<Rightarrow> jobs_state \<Rightarrow> jobs_state" where
  "persist jobId name q err n d s =
     (let (st, D) = getPoisonStatus (jb_now s) jobId (jb_detector s);
          poison = (case st of Some e \<Rightarrow> fs_consecutive e \<ge> 3 | None \<Rightarrow> False)
      in s\<lparr>jb_detector := D, jb_ids := jb_ids s + 1,
           job_failures := job_failures s @ [\<lparr>jf_id = show_nat (jb_ids s), jf_jobId = jobId, jf_jobName = name, jf_queueName = q,
             jf_failedAt = jb_now s, jf_error = th_message err, jf_stackTrace = th_stack err, jf_attemptNumber = n, jf_data = d,
             jf_retryCount = 0, jf_status = (if poison then F_POISON else F_PENDING), jf_lastRetriedAt = None, jf_isPoison = poison,
             jf_consecutiveFailures = (case st of Some e \<Rightarrow> fs_consecutive e | None \<Rightarrow> 1),
             jf_failureSignature = map_option fs_signature st,
             jf_errorClass = (case st of Some e \<Rightarrow> fs_errorClass e | None \<Rightarrow> th_class err)\<rparr>]\<rparr>)"

text \<open>\<open>onModuleInit\<close>: what is done on the \<open>failed\<close> event of a queue.\<close>

definition on_failed :: "bull_job \<Rightarrow> thrown \<Rightarrow> nat \<Rightarrow> jobs_state \<Rightarrow> jobs_state" where
  "on_failed j err n s =
     (if bj_queue j \<in> set listened_queues then persist (bj_id j) (bj_name j) (bj_queue j) err n (bj_data j) s else s)"

text \<open>
  The body of the two retries of a record: a new job with its payload, the record as \<open>RETRYING\<close>, no
  tracking. \<open>queue.add\<close> and the update of the record may throw; what was done before stays.
\<close>

datatype retry_fault = Fine | AddFails string | UpdateFails string

definition retry_data :: "job_failure \<Rightarrow> json" where
  "retry_data r = (if jf_data r = JNull then JObj [] else jf_data r)"

definition retrying :: "time \<Rightarrow> job_failure \<Rightarrow> job_failure" where
  "retrying t r = r\<lparr>jf_status := F_RETRYING, jf_retryCount := jf_retryCount r + 1, jf_lastRetriedAt := Some t\<rparr>"

definition retry_record :: "retry_fault \<Rightarrow> job_failure \<Rightarrow> jobs_state \<Rightarrow> string outcome \<times> jobs_state" where
  "retry_record k r s =
     (case getQueueByName (jf_queueName r) of
       None \<Rightarrow> (Inl (JsError (''Unknown queue: '' @ jf_queueName r)), s)
     | Some q \<Rightarrow>
         (case k of
            AddFails msg \<Rightarrow> (Inl (JsError msg), s)
          | UpdateFails msg \<Rightarrow> (Inl (JsError msg), snd (queue_add q (jf_jobName r) (retry_data r) s))
          | Fine \<Rightarrow>
              (let (i, s1) = queue_add q (jf_jobName r) (retry_data r) s
               in (Inr i, s1\<lparr>job_failures := update_rows (\<lambda>x. jf_id x = jf_id r)
                       (\<lambda>x. x\<lparr>jf_status := F_RETRYING, jf_retryCount := jf_retryCount r + 1, jf_lastRetriedAt := Some (jb_now s)\<rparr>)
                       (job_failures s1),
                    jb_detector := clearJob (jf_jobId r) (jb_detector s1)\<rparr>))))"

definition retryById :: "retry_fault \<Rightarrow> uuid \<Rightarrow> jobs_state \<Rightarrow> string outcome \<times> jobs_state" where
  "retryById k i s =
     (case List.find (\<lambda>r. jf_id r = i) (job_failures s) of
        None \<Rightarrow> (Inl (JsError ''EntityNotFoundError''), s)
      | Some r \<Rightarrow> retry_record k r s)"

text \<open>\<open>toLowerCase\<close> (of ASCII texts) and \<open>includes\<close>.\<close>

definition to_lower :: "string \<Rightarrow> string" where
  "to_lower s = map (\<lambda>c. let k = of_char c :: nat in if 65 \<le> k \<and> k \<le> 90 then char_of (k + 32) else c) s"

definition text_includes :: "string \<Rightarrow> string \<Rightarrow> bool" where
  "text_includes s t = list_ex (\<lambda>i. take (length t) (drop i s) = t) [0..<length s + 1]"

record bulk_filter =
  bf_ids :: "uuid list"
  bf_queueName :: "string option"
  bf_errorType :: "string option"
  bf_createdBefore :: "time option"

definition bulk_records :: "bulk_filter \<Rightarrow> jobs_state \<Rightarrow> job_failure list" where
  "bulk_records f s =
     (if bf_ids f \<noteq> [] then filter (\<lambda>r. jf_id r \<in> set (bf_ids f)) (job_failures s)
      else let rs = filter (\<lambda>r. jf_status r = F_PENDING \<and>
                  (truthy (bf_queueName f) \<longrightarrow> jf_queueName r = the (bf_queueName f)) \<and>
                  (case bf_createdBefore f of Some t \<Rightarrow> jf_failedAt r < t | None \<Rightarrow> True)) (job_failures s)
           in if truthy (bf_errorType f) then filter (\<lambda>r. text_includes (to_lower (jf_error r)) (to_lower (the (bf_errorType f)))) rs else rs)"

text \<open>The loop catches what a record throws and goes on; \<open>faults\<close> says what fails for each of them.\<close>

fun retry_records :: "(uuid \<Rightarrow> retry_fault) \<Rightarrow> job_failure list \<Rightarrow> jobs_state \<Rightarrow> (uuid \<times> string outcome) list \<times> jobs_state" where
  "retry_records faults [] s = ([], s)"
| "retry_records faults (r # rs) s =
     (let (res, s1) = retry_record (faults (jf_id r)) r s; (results, s2) = retry_records faults rs s1
      in ((jf_id r, res) # results, s2))"

definition bulkRetry :: "(uuid \<Rightarrow> retry_fault) \<Rightarrow> bulk_filter \<Rightarrow> jobs_state \<Rightarrow> (uuid \<times> string outcome) list \<times> jobs_state" where
  "bulkRetry faults f s = retry_records faults (bulk_records f s) s"

text \<open>\<open>job.retry()\<close> puts a failed job back into its queue; the count of every record with its id goes up.\<close>

definition retry_job :: "bull_job \<Rightarrow> jobs_state \<Rightarrow> jobs_state" where
  "retry_job j s = s\<lparr>failed_jobs := remove1 j (failed_jobs s), waiting_jobs := waiting_jobs s @ [j],
     job_failures := update_rows (\<lambda>x. jf_jobId x = bj_id j) (\<lambda>x. x\<lparr>jf_retryCount := jf_retryCount x + 1\<rparr>) (job_failures s),
     jb_detector := clearJob (bj_id j) (jb_detector s)\<rparr>"

definition retry_queue :: "string \<Rightarrow> nat \<times> jobs_state \<Rightarrow> nat \<times> jobs_state" where
  "retry_queue q ns = (let (n, s) = ns; js = filter (\<lambda>j. bj_queue j = q) (failed_jobs s) in (n + length js, fold retry_job js s))"

definition retryAll :: "jobs_state \<Rightarrow> nat \<times> jobs_state" where
  "retryAll s = fold retry_queue retry_queues (0, s)"

record failure_filter =
  ff_queueName :: "string option"
  ff_jobName :: "string option"
  ff_from :: "time option"
  ff_to :: "time option"
  ff_page :: nat
  ff_limit :: nat
  ff_isPoison :: "bool option"

definition findAllFailures :: "failure_filter \<Rightarrow> jobs_state \<Rightarrow> job_failure list \<times> nat" where
  "findAllFailures f s =
     (let rs = filter (\<lambda>r. (truthy (ff_queueName f) \<longrightarrow> jf_queueName r = the (ff_queueName f)) \<and>
            (truthy (ff_jobName f) \<longrightarrow> jf_jobName r = the (ff_jobName f)) \<and>
            (case ff_isPoison f of Some p \<Rightarrow> jf_isPoison r = p | None \<Rightarrow> True) \<and>
            (ff_from f = None \<and> ff_to f = None \<or>
             (case ff_from f of Some t \<Rightarrow> t | None \<Rightarrow> 0) \<le> jf_failedAt r \<and>
             jf_failedAt r \<le> (case ff_to f of Some t \<Rightarrow> t | None \<Rightarrow> jb_now s))) (job_failures s)
      in (take (ff_limit f) (drop ((ff_page f - 1) * ff_limit f) (sort_key (\<lambda>r. - jf_failedAt r) rs)), length rs))"

definition getMetrics :: "jobs_state \<Rightarrow> nat \<times> nat \<times> (string \<times> nat) list" where
  "getMetrics s = (length (job_failures s), length (filter jf_isPoison (job_failures s)),
     map (\<lambda>q. (q, length (filter (\<lambda>r. jf_queueName r = q) (job_failures s)))) (remdups (map jf_queueName (job_failures s))))"

text \<open>\<open>retryDeadLetterJob\<close>\<close>

definition retryDeadLetterJob :: "string \<Rightarrow> jobs_state \<Rightarrow> unit outcome \<times> jobs_state" where
  "retryDeadLetterJob i s =
     (case List.find (\<lambda>d. dj_id d = i) (dead_jobs s) of
        None \<Rightarrow> (Inl (JsError (''Job '' @ i @ '' not found in dead letter queue'')), s)
      | Some d \<Rightarrow>
          if dj_originalQueue d \<notin> set dead_letter_queues
          then (Inl (JsError (''Unknown queue: '' @ dj_originalQueue d)), s)
          else (let (j, s1) = queue_add (dj_originalQueue d) (dj_originalJobName d) (dj_originalJobData d) s
                in (Inr (), s1\<lparr>dead_jobs := filter (\<lambda>x. dj_id x \<noteq> i) (dead_jobs s1)\<rparr>)))"

subsection \<open>What a retry does\<close>

lemma retry_record_unknown: "jf_queueName r \<notin> set retry_queues \<Longrightarrow>
    retry_record k r s = (Inl (JsError (''Unknown queue: '' @ jf_queueName r)), s)"
  by (simp add: retry_record_def getQueueByName_def)

lemma retry_record_known:
  assumes "jf_queueName r \<in> set retry_queues"
  shows "\<exists>i s'. retry_record Fine r s = (Inr i, s') \<and>
    waiting_jobs s' = waiting_jobs s @ [\<lparr>bj_queue = jf_queueName r, bj_id = i, bj_name = jf_jobName r, bj_data = retry_data r\<rparr>] \<and>
    failed_jobs s' = failed_jobs s \<and> jb_now s' = jb_now s \<and>
    job_failures s' = update_rows (\<lambda>x. jf_id x = jf_id r)
      (\<lambda>x. x\<lparr>jf_status := F_RETRYING, jf_retryCount := jf_retryCount r + 1, jf_lastRetriedAt := Some (jb_now s)\<rparr>) (job_failures s)"
  using assms by (simp add: retry_record_def getQueueByName_def queue_add_def Let_def)

text \<open>The records whose job is added, those that are retried, and what the others answer.\<close>

definition job_added :: "(uuid \<Rightarrow> retry_fault) \<Rightarrow> job_failure \<Rightarrow> bool" where
  "job_added faults r \<longleftrightarrow> jf_queueName r \<in> set retry_queues \<and> (\<forall>msg. faults (jf_id r) \<noteq> AddFails msg)"

definition retried :: "(uuid \<Rightarrow> retry_fault) \<Rightarrow> job_failure \<Rightarrow> bool" where
  "retried faults r \<longleftrightarrow> jf_queueName r \<in> set retry_queues \<and> faults (jf_id r) = Fine"

fun fault_text :: "retry_fault \<Rightarrow> string" where
  "fault_text Fine = []"
| "fault_text (AddFails msg) = msg"
| "fault_text (UpdateFails msg) = msg"

definition answered :: "(uuid \<Rightarrow> retry_fault) \<Rightarrow> job_failure \<Rightarrow> uuid \<times> string outcome \<Rightarrow> bool" where
  "answered faults r x \<longleftrightarrow> fst x = jf_id r \<and>
     (case snd x of
        Inr i \<Rightarrow> retried faults r
      | Inl e \<Rightarrow> \<not> retried faults r \<and> e = JsError (if jf_queueName r \<in> set retry_queues then fault_text (faults (jf_id r))
                                               else ''Unknown queue: '' @ jf_queueName r))"

definition job_of :: "job_failure \<Rightarrow> string \<times> string \<times> json" where
  "job_of r = (jf_queueName r, jf_jobName r, retry_data r)"

definition job_key :: "bull_job \<Rightarrow> string \<times> string \<times> json" where
  "job_key j = (bj_queue j, bj_name j, bj_data j)"

lemma retry_record_effect:
  assumes "retry_record (faults (jf_id r)) r s = (res, s1)" "distinct (map jf_id (job_failures s))" "r \<in> set (job_failures s)"
  shows "answered faults r (jf_id r, res)"
    and "\<exists>js. waiting_jobs s1 = waiting_jobs s @ js \<and> map job_key js = map job_of (filter (job_added faults) [r])"
    and "job_failures s1 = map (\<lambda>x. if x = r \<and> retried faults x then retrying (jb_now s) x else x) (job_failures s)"
    and "jb_detector s1 = (if retried faults r then clearJob (jf_jobId r) (jb_detector s) else jb_detector s)"
    and "failed_jobs s1 = failed_jobs s" "dead_jobs s1 = dead_jobs s" "jb_now s1 = jb_now s" "jb_ids s1 = jb_ids s"
proof -
  have it: "jf_id x = jf_id r \<longleftrightarrow> x = r" if "x \<in> set (job_failures s)" for x
    using assms(2,3) that by (auto simp: distinct_map dest: inj_onD)
  note defs = retry_record_def getQueueByName_def queue_add_def Let_def
  show "answered faults r (jf_id r, res)" using assms(1)
    by (cases "faults (jf_id r)") (auto simp: answered_def retried_def defs split: if_splits)
  show "\<exists>js. waiting_jobs s1 = waiting_jobs s @ js \<and> map job_key js = map job_of (filter (job_added faults) [r])" using assms(1)
    by (cases "faults (jf_id r)") (auto simp: job_added_def job_key_def job_of_def defs split: if_splits)
  show "job_failures s1 = map (\<lambda>x. if x = r \<and> retried faults x then retrying (jb_now s) x else x) (job_failures s)" using assms(1) it
    by (cases "faults (jf_id r)")
      (auto simp: retried_def retrying_def update_rows_def defs split: if_splits intro!: map_cong [OF refl] map_idI [symmetric])
  show "jb_detector s1 = (if retried faults r then clearJob (jf_jobId r) (jb_detector s) else jb_detector s)"
    "failed_jobs s1 = failed_jobs s" "dead_jobs s1 = dead_jobs s" "jb_now s1 = jb_now s" "jb_ids s1 = jb_ids s" using assms(1)
    by (cases "faults (jf_id r)"; auto simp: retried_def defs split: if_splits)+
qed

lemma retry_records_effect:
  assumes "retry_records faults rs s = (results, s')" "distinct (map jf_id (job_failures s))"
    and "distinct (map jf_id rs)" "set rs \<subseteq> set (job_failures s)"
  shows "list_all2 (answered faults) rs results \<and>
    (\<exists>js. waiting_jobs s' = waiting_jobs s @ js \<and> map job_key js = map job_of (filter (job_added faults) rs)) \<and>
    job_failures s' = map (\<lambda>x. if x \<in> set rs \<and> retried faults x then retrying (jb_now s) x else x) (job_failures s) \<and>
    jb_detector s' = fold (\<lambda>r. clearJob (jf_jobId r)) (filter (retried faults) rs) (jb_detector s) \<and>
    failed_jobs s' = failed_jobs s \<and> dead_jobs s' = dead_jobs s \<and> jb_now s' = jb_now s \<and> jb_ids s' = jb_ids s"
  using assms
proof (induction rs arbitrary: s results)
  case (Cons r rs)
  obtain res s1 rest where run: "retry_record (faults (jf_id r)) r s = (res, s1)" "retry_records faults rs s1 = (rest, s')"
      "results = (jf_id r, res) # rest"
    using Cons.prems(1) by (auto split: prod.splits)
  have mem: "r \<in> set (job_failures s)" using Cons.prems(4) by simp
  note one = retry_record_effect [where faults = faults and r = r, OF run(1) Cons.prems(2) mem]
  have ids: "map jf_id (job_failures s1) = map jf_id (job_failures s)" unfolding one(3) by (simp add: retrying_def)
  have new: "jf_id x \<noteq> jf_id r" if "x \<in> set rs" for x using that Cons.prems(3) by (metis distinct.simps(2) image_eqI list.simps(9) list.set_map)
  then have stay: "set rs \<subseteq> set (job_failures s1)" using Cons.prems(4) unfolding one(3) by (force simp: image_iff)
  have IH: "list_all2 (answered faults) rs rest \<and>
    (\<exists>js. waiting_jobs s' = waiting_jobs s1 @ js \<and> map job_key js = map job_of (filter (job_added faults) rs)) \<and>
    job_failures s' = map (\<lambda>x. if x \<in> set rs \<and> retried faults x then retrying (jb_now s1) x else x) (job_failures s1) \<and>
    jb_detector s' = fold (\<lambda>r. clearJob (jf_jobId r)) (filter (retried faults) rs) (jb_detector s1) \<and>
    failed_jobs s' = failed_jobs s1 \<and> dead_jobs s' = dead_jobs s1 \<and> jb_now s' = jb_now s1 \<and> jb_ids s' = jb_ids s1"
    by (rule Cons.IH [OF run(2)]) (use Cons.prems ids stay in simp_all)
  obtain js js' where "waiting_jobs s1 = waiting_jobs s @ js" "map job_key js = map job_of (filter (job_added faults) [r])"
      "waiting_jobs s' = waiting_jobs s1 @ js'" "map job_key js' = map job_of (filter (job_added faults) rs)" using one(2) IH by blast
  then have jobs: "\<exists>js. waiting_jobs s' = waiting_jobs s @ js \<and> map job_key js = map job_of (filter (job_added faults) (r # rs))"
    by (intro exI [of _ "js @ js'"]) (simp split: if_splits)
  let ?f = "\<lambda>t x. if x = r \<and> retried faults x then retrying t x else x"
    and ?g = "\<lambda>t x. if x \<in> set rs \<and> retried faults x then retrying t x else x"
  have both: "?g t (?f t x) = (if x \<in> set (r # rs) \<and> retried faults x then retrying t x else x)" for t x
    using new [of "retrying t r"] new [of r] by (auto simp: retrying_def)
  have "job_failures s' = map (?g (jb_now s)) (map (?f (jb_now s)) (job_failures s))"
    using IH unfolding one(3,7) by blast
  then have rows: "job_failures s' = map (\<lambda>x. if x \<in> set (r # rs) \<and> retried faults x then retrying (jb_now s) x else x) (job_failures s)"
    unfolding map_map comp_def both .
  show ?case using one IH jobs rows run(3) by simp
qed simp

text \<open>C34: \<open>bulkRetry\<close> answers once for each selected record, in their order: with success when its queue is one of the four
known ones and neither the queue nor the table fails, else with the error. A job with the payload of the record is added for each
record of a known queue unless adding fails, also where the update of the record then fails; these jobs come after the waiting ones.
The records that succeed, and no others, are \<open>RETRYING\<close>, count one retry more and are no longer tracked; every other record and all
else is as it was. Without ids only \<open>PENDING\<close> records are selected, so no poison record is.\<close>

theorem bulkRetry_correct:
  assumes "distinct (map jf_id (job_failures s))" "bulkRetry faults f s = (results, s')" "rs = bulk_records f s"
  shows "list_all2 (answered faults) rs results \<and>
    (\<exists>js. waiting_jobs s' = waiting_jobs s @ js \<and> map job_key js = map job_of (filter (job_added faults) rs)) \<and>
    job_failures s' = map (\<lambda>x. if x \<in> set rs \<and> retried faults x
      then x\<lparr>jf_status := F_RETRYING, jf_retryCount := jf_retryCount x + 1, jf_lastRetriedAt := Some (jb_now s)\<rparr> else x) (job_failures s) \<and>
    jb_detector s' = fold (\<lambda>r. clearJob (jf_jobId r)) (filter (retried faults) rs) (jb_detector s) \<and>
    failed_jobs s' = failed_jobs s \<and> dead_jobs s' = dead_jobs s \<and> jb_now s' = jb_now s \<and> jb_ids s' = jb_ids s \<and>
    (bf_ids f = [] \<longrightarrow> (\<forall>r \<in> set rs. jf_status r = F_PENDING))"
proof -
  have "distinct (map jf_id rs)" "set rs \<subseteq> set (job_failures s)"
    using assms(1,3) by (auto simp: bulk_records_def Let_def distinct_map_filter)
  moreover have "bf_ids f = [] \<longrightarrow> (\<forall>r \<in> set rs. jf_status r = F_PENDING)"
    unfolding assms(3) by (auto simp: bulk_records_def Let_def split: if_splits)
  ultimately show ?thesis
    using retry_records_effect [of faults rs s results s'] assms unfolding bulkRetry_def retrying_def [symmetric] by blast
qed

definition demo_failure :: "uuid \<Rightarrow> string \<Rightarrow> job_failure" where
  "demo_failure i q = \<lparr>jf_id = i, jf_jobId = ''7'', jf_jobName = ''send-email'', jf_queueName = q, jf_failedAt = 0, jf_error = ''timeout'',
     jf_stackTrace = None, jf_attemptNumber = 3, jf_data = JObj [(''to'', JString ''a'')], jf_retryCount = 0, jf_status = F_PENDING,
     jf_lastRetriedAt = None, jf_isPoison = False, jf_consecutiveFailures = 1, jf_failureSignature = None, jf_errorClass = ''Error''\<rparr>"

definition demo_jobs :: jobs_state where
  "demo_jobs = \<lparr>jb_now = 0, jb_ids = 2, job_counter = (\<lambda>_. 7), waiting_jobs = [],
     failed_jobs = [\<lparr>bj_queue = ''email-queue'', bj_id = ''7'', bj_name = ''send-email'', bj_data = JObj [(''to'', JString ''a'')]\<rparr>],
     dead_jobs = [], job_failures = [demo_failure ''0'' ''email-queue'', demo_failure ''1'' ''tx-confirmation-queue''],
     jb_detector = new_detector 3 10\<rparr>"

theorem bulkRetry_correct_witness:
  "length (fst (bulkRetry (\<lambda>_. UpdateFails ''lost'') \<lparr>bf_ids = [''0'', ''1''], bf_queueName = None, bf_errorType = None, bf_createdBefore = None\<rparr> demo_jobs)) = 2"
proof -
  let ?f = "\<lparr>bf_ids = [''0'', ''1''], bf_queueName = None, bf_errorType = None, bf_createdBefore = None\<rparr>"
  have "distinct (map jf_id (job_failures demo_jobs))" by (simp add: demo_jobs_def demo_failure_def)
  from bulkRetry_correct [OF this prod.collapse [symmetric] refl, of "\<lambda>_. UpdateFails ''lost''" ?f]
  have "length (fst (bulkRetry (\<lambda>_. UpdateFails ''lost'') ?f demo_jobs)) = length (bulk_records ?f demo_jobs)"
    by (auto dest: list_all2_lengthD)
  then show ?thesis by (simp add: bulk_records_def demo_jobs_def demo_failure_def)
qed

lemma fold_remove1_filter: "fold remove1 (filter P xs) xs = filter (\<lambda>x. \<not> P x) xs"
proof (induction xs)
  case (Cons x xs)
  have "fold remove1 js (x # ys) = x # fold remove1 js ys" if "x \<notin> set js" for js ys
    using that by (induction js arbitrary: ys) auto
  with Cons show ?case by simp
qed simp

lemma fold_retry_job:
  "failed_jobs (fold retry_job js s) = fold remove1 js (failed_jobs s)"
  "waiting_jobs (fold retry_job js s) = waiting_jobs s @ js"
  "job_failures (fold retry_job js s) =
     map (\<lambda>x. x\<lparr>jf_retryCount := jf_retryCount x + length (filter (\<lambda>j. bj_id j = jf_jobId x) js)\<rparr>) (job_failures s)"
  by (induction js arbitrary: s) (auto simp: retry_job_def update_rows_def)

text \<open>The failed jobs of some queues, one queue after the other.\<close>

definition failed_of :: "string list \<Rightarrow> jobs_state \<Rightarrow> bull_job list" where
  "failed_of qs s = concat (map (\<lambda>q. filter (\<lambda>j. bj_queue j = q) (failed_jobs s)) qs)"

lemma fold_retry_queue:
  assumes "distinct qs" "fold retry_queue qs (n, s) = (m, s')"
  shows "m = n + length (failed_of qs s) \<and> failed_jobs s' = filter (\<lambda>j. bj_queue j \<notin> set qs) (failed_jobs s) \<and>
    waiting_jobs s' = waiting_jobs s @ failed_of qs s \<and>
    job_failures s' = map (\<lambda>x. x\<lparr>jf_retryCount := jf_retryCount x + length (filter (\<lambda>j. bj_id j = jf_jobId x) (failed_of qs s))\<rparr>) (job_failures s)"
  using assms
proof (induction qs arbitrary: n s)
  case (Cons q qs)
  let ?js = "filter (\<lambda>j. bj_queue j = q) (failed_jobs s)"
  define s1 where "s1 = fold retry_job ?js s"
  have step: "fold retry_queue qs (n + length ?js, s1) = (m, s')"
    using Cons.prems(2) by (simp add: retry_queue_def [of q "(n, s)"] Let_def s1_def)
  have s1: "failed_jobs s1 = filter (\<lambda>j. bj_queue j \<noteq> q) (failed_jobs s)" "waiting_jobs s1 = waiting_jobs s @ ?js"
      "job_failures s1 = map (\<lambda>x. x\<lparr>jf_retryCount := jf_retryCount x + length (filter (\<lambda>j. bj_id j = jf_jobId x) ?js)\<rparr>) (job_failures s)"
    unfolding s1_def by (simp_all add: fold_retry_job fold_remove1_filter)
  have "filter (\<lambda>j. bj_queue j = p) (failed_jobs s1) = filter (\<lambda>j. bj_queue j = p) (failed_jobs s)" if "p \<in> set qs" for p
    using that Cons.prems(1) unfolding s1 filter_filter by (intro filter_cong) auto
  then have "failed_of qs s1 = failed_of qs s" unfolding failed_of_def by (simp cong: map_cong)
  moreover have "failed_of (q # qs) s = ?js @ failed_of qs s" by (simp add: failed_of_def)
  moreover have "filter (\<lambda>j. bj_queue j \<notin> set qs) (filter (\<lambda>j. bj_queue j \<noteq> q) (failed_jobs s)) = filter (\<lambda>j. bj_queue j \<notin> set (q # qs)) (failed_jobs s)"
    unfolding filter_filter by (intro filter_cong) auto
  ultimately show ?case using Cons.IH [OF _ step] Cons.prems(1) unfolding s1 by (simp del: filter_filter add: comp_def)
qed (simp add: failed_of_def)

text \<open>\<open>retryAll\<close> puts every failed job of the four queues back into its queue once, answers their number and leaves the other
failed jobs. A record counts one retry more for every one of these jobs with its job id, whatever the queue of the record; nothing
else of it changes, so it stays \<open>PENDING\<close> and open to a further retry.\<close>

theorem retryAll_correct:
  "let s' = snd (retryAll s); js = failed_of retry_queues s in
    fst (retryAll s) = length js \<and> waiting_jobs s' = waiting_jobs s @ js \<and>
    failed_jobs s' = filter (\<lambda>j. bj_queue j \<notin> set retry_queues) (failed_jobs s) \<and>
    job_failures s' = map (\<lambda>x. x\<lparr>jf_retryCount := jf_retryCount x + length (filter (\<lambda>j. bj_id j = jf_jobId x) js)\<rparr>) (job_failures s)"
proof -
  have "distinct retry_queues" by (simp add: retry_queues_def)
  from fold_retry_queue [OF this prod.collapse [symmetric], of 0 s] show ?thesis by (simp add: retryAll_def Let_def)
qed

lemma retryAll_waiting: "waiting_jobs (snd (retryAll s)) = waiting_jobs s @ failed_of retry_queues s"
proof -
  have "distinct retry_queues" by (simp add: retry_queues_def)
  from fold_retry_queue [OF this prod.collapse [symmetric], of 0 s] show ?thesis by (simp add: retryAll_def)
qed

definition same_work :: "job_failure \<Rightarrow> bull_job \<Rightarrow> bool" where
  "same_work r j \<longleftrightarrow> bj_queue j = jf_queueName r \<and> bj_name j = jf_jobName r \<and> bj_data j = jf_data r"

text \<open>retrying a record adds a copy of its job and leaves the failed job itself in the queue's failed set, and the record may be
retried again. So two calls of \<open>retryById\<close> and a \<open>retryAll\<close> make the queue do the same work three times.\<close>

theorem retries_repeat_work:
  assumes "List.find (\<lambda>r. jf_id r = i) (job_failures s) = Some r" "jf_queueName r \<in> set retry_queues" "jf_data r \<noteq> JNull"
    and "j \<in> set (failed_jobs s)" "same_work r j"
  shows "length (filter (same_work r) (waiting_jobs (snd (retryAll (snd (retryById Fine i (snd (retryById Fine i s))))))))
    \<ge> length (filter (same_work r) (waiting_jobs s)) + 3"
proof -
  let ?s1 = "snd (retryById Fine i s)" and ?s2 = "snd (retryById Fine i (snd (retryById Fine i s)))"
  have once: "length (filter (same_work r) (waiting_jobs (snd (retryById Fine i t)))) = length (filter (same_work r) (waiting_jobs t)) + 1
      \<and> failed_jobs (snd (retryById Fine i t)) = failed_jobs t"
    if "List.find (\<lambda>r. jf_id r = i) (job_failures t) = Some r'" "jf_queueName r' = jf_queueName r" "jf_jobName r' = jf_jobName r"
      "jf_data r' = jf_data r" for t r'
    using retry_record_known [of r' t] that assms(2,3) by (auto simp: retryById_def same_work_def retry_data_def)
  have "jf_id r = i" using find_Some_mem [OF assms(1)] by simp
  have "\<exists>r'. List.find (\<lambda>r. jf_id r = i) (job_failures ?s1) = Some r' \<and> jf_queueName r' = jf_queueName r \<and> jf_jobName r' = jf_jobName r
      \<and> jf_data r' = jf_data r"
  proof -
    have "List.find (\<lambda>r. jf_id r = i) (update_rows (\<lambda>x. jf_id x = i) (\<lambda>x. x\<lparr>jf_status := a, jf_retryCount := b, jf_lastRetriedAt := c\<rparr>) rows)
        = map_option (\<lambda>x. x\<lparr>jf_status := a, jf_retryCount := b, jf_lastRetriedAt := c\<rparr>) (List.find (\<lambda>r. jf_id r = i) rows)" for a b c and rows :: "job_failure list"
      by (induction rows) (auto simp: update_rows_def)
    moreover obtain k s' where "retry_record Fine r s = (Inr k, s')" "job_failures s' = update_rows (\<lambda>x. jf_id x = jf_id r)
        (\<lambda>x. x\<lparr>jf_status := F_RETRYING, jf_retryCount := jf_retryCount r + 1, jf_lastRetriedAt := Some (jb_now s)\<rparr>) (job_failures s)"
      using retry_record_known [OF assms(2), of s] by blast
    ultimately show ?thesis using assms(1) \<open>jf_id r = i\<close> by (simp add: retryById_def)
  qed
  with once [of s r] once [of ?s1] assms(1) have two: "length (filter (same_work r) (waiting_jobs ?s2)) = length (filter (same_work r) (waiting_jobs s)) + 2"
      and failed: "failed_jobs ?s2 = failed_jobs s" by auto
  have "j \<in> set (failed_of retry_queues ?s2)" using assms(2,4,5) failed by (auto simp: failed_of_def same_work_def)
  then have "filter (same_work r) (failed_of retry_queues ?s2) \<noteq> []" using assms(5) by (auto simp: filter_empty_conv)
  then have "length (filter (same_work r) (failed_of retry_queues ?s2)) \<ge> 1" by (simp add: Suc_leI)
  with two show ?thesis by (simp add: retryAll_waiting)
qed

theorem retries_repeat_work_witness:
  "length (filter (same_work (demo_failure ''0'' ''email-queue'')) (waiting_jobs (snd (retryAll (snd (retryById Fine ''0'' (snd (retryById Fine ''0'' demo_jobs)))))))) \<ge> 3"
  using retries_repeat_work [of "''0''" demo_jobs "demo_failure ''0'' ''email-queue''"
      "\<lparr>bj_queue = ''email-queue'', bj_id = ''7'', bj_name = ''send-email'', bj_data = JObj [(''to'', JString ''a'')]\<rparr>"]
  by (simp add: demo_jobs_def demo_failure_def retry_queues_def same_work_def)

text \<open>the failures of transaction confirmations and push notifications are recorded like those of the other queues, but no retry knows
their queue: \<open>retryById\<close> throws, \<open>bulkRetry\<close> fails for them, and both leave everything as it is.\<close>

theorem recorded_but_not_retryable:
  assumes "bj_queue j \<in> {''tx-confirmation-queue'', ''push-notification-queue''}"
    and "s1 = on_failed j err n s" "show_nat (jb_ids s) \<notin> jf_id ` set (job_failures s)"
  shows "\<exists>r. job_failures s1 = job_failures s @ [r] \<and> jf_jobId r = bj_id j \<and> jf_queueName r = bj_queue j \<and>
    retryById k (jf_id r) s1 = (Inl (JsError (''Unknown queue: '' @ bj_queue j)), s1) \<and>
    bulkRetry faults \<lparr>bf_ids = [jf_id r], bf_queueName = None, bf_errorType = None, bf_createdBefore = None\<rparr> s1
      = ([(jf_id r, Inl (JsError (''Unknown queue: '' @ bj_queue j)))], s1)"
proof -
  have listened: "bj_queue j \<in> set listened_queues" and unknown: "bj_queue j \<notin> set retry_queues"
    using assms(1) by (auto simp: listened_queues_def retry_queues_def)
  from listened assms(2) obtain r where r: "job_failures s1 = job_failures s @ [r]" "jf_jobId r = bj_id j" "jf_queueName r = bj_queue j"
      "jf_id r = show_nat (jb_ids s)"
    by (auto simp: on_failed_def persist_def Let_def split: prod.splits)
  have old: "jf_id x \<noteq> jf_id r" if "x \<in> set (job_failures s)" for x using that assms(3) r(4) by (metis imageI)
  have "List.find (\<lambda>x. jf_id x = jf_id r) (job_failures s1) = Some r" using r(1) old by (intro find_unique) auto
  moreover have "filter (\<lambda>x. jf_id x = jf_id r) (job_failures s1) = [r]" using r(1) old by (simp add: filter_empty_conv)
  moreover have "retry_record k r s1 = (Inl (JsError (''Unknown queue: '' @ bj_queue j)), s1)" for k
    using retry_record_unknown [of r _ s1] unknown r(3) by simp
  ultimately show ?thesis using r by (simp add: retryById_def bulkRetry_def bulk_records_def)
qed

theorem recorded_but_not_retryable_witness:
  "\<exists>r. job_failures (on_failed \<lparr>bj_queue = ''push-notification-queue'', bj_id = ''8'', bj_name = ''send-push'', bj_data = JNull\<rparr>
      \<lparr>th_message = ''m'', th_stack = None, th_class = ''Error''\<rparr> 3 demo_jobs) = job_failures demo_jobs @ [r]"
proof -
  have "digit_char 2 = CHR ''2''" by code_simp
  then have "show_nat (jb_ids demo_jobs) \<notin> jf_id ` set (job_failures demo_jobs)" by (simp add: demo_jobs_def demo_failure_def)
  from recorded_but_not_retryable [OF _ refl this, where j = "\<lparr>bj_queue = ''push-notification-queue'', bj_id = ''8'', bj_name = ''send-push'', bj_data = JNull\<rparr>"
      and err = "\<lparr>th_message = ''m'', th_stack = None, th_class = ''Error''\<rparr>" and n = 3]
  show ?thesis by simp blast
qed

text \<open>a dead letter of the webhook worker cannot be retried: \<open>retryDeadLetterJob\<close> does not know its queue, nor that of the trust
scores. For the six queues it knows, it adds the job once and removes the entry.\<close>

theorem retryDeadLetterJob_correct:
  assumes "List.find (\<lambda>d. dj_id d = i) (dead_jobs s) = Some d"
  shows "(dj_originalQueue d = ''webhook-delivery-queue'' \<or> dj_originalQueue d = ''trust-score-queue'' \<longrightarrow>
      retryDeadLetterJob i s = (Inl (JsError (''Unknown queue: '' @ dj_originalQueue d)), s)) \<and>
    (dj_originalQueue d \<in> set listened_queues \<longrightarrow> (\<exists>s' k. retryDeadLetterJob i s = (Inr (), s') \<and>
      waiting_jobs s' = waiting_jobs s @ [\<lparr>bj_queue = dj_originalQueue d, bj_id = k, bj_name = dj_originalJobName d, bj_data = dj_originalJobData d\<rparr>] \<and>
      List.find (\<lambda>d. dj_id d = i) (dead_jobs s') = None)) \<and>
    (\<forall>dd \<in> set (dead_letters (wh_onFailed wj err ws)). dd \<in> set (dead_letters ws) \<or> dd_originalQueue dd = ''webhook-delivery-queue'')"
  using assms
  by (auto simp: retryDeadLetterJob_def queue_add_def Let_def dead_letter_queues_def listened_queues_def retry_queues_def
      find_None_all wh_onFailed_def moveToDeadLetter_def)

theorem retryDeadLetterJob_correct_witness:
  "fst (retryDeadLetterJob ''1'' (demo_jobs\<lparr>dead_jobs := [\<lparr>dj_id = ''1'', dj_originalQueue = ''webhook-delivery-queue'',
     dj_originalJobName = ''deliver-webhook'', dj_originalJobData = JNull\<rparr>]\<rparr>)) = Inl (JsError ''Unknown queue: webhook-delivery-queue'')"
  using retryDeadLetterJob_correct [of "''1''" "demo_jobs\<lparr>dead_jobs := [\<lparr>dj_id = ''1'', dj_originalQueue = ''webhook-delivery-queue'',
     dj_originalJobName = ''deliver-webhook'', dj_originalJobData = JNull\<rparr>]\<rparr>"]
  by simp

text \<open>the recorded failure ignores the configured threshold. With a threshold above three, a job that has failed three times
alike is not poison for the detector but is stored as \<open>POISON\<close>, which no retry by filter selects.\<close>

theorem persist_ignores_threshold:
  assumes "3 < threshold" "0 < m" "D = record_all sha [f, f, f] (new_detector threshold m)" "jb_detector s = D"
    and "jb_now s - f_time f \<le> 1800000"
  shows "\<not> isPoison (fst (recordFailure sha (f_time f) (f_job f) (f_class f) (f_data f) (record_all sha [f, f] (new_detector threshold m)))) \<and>
    (\<exists>r. job_failures (persist (f_job f) name q err n d s) = job_failures s @ [r] \<and> jf_status r = F_POISON \<and>
       (\<forall>bf. bf_ids bf = [] \<longrightarrow> jf_id r \<notin> jf_id ` set (job_failures s) \<longrightarrow>
          jf_id r \<notin> jf_id ` set (bulk_records bf (persist (f_job f) name q err n d s))))"
proof -
  have run: "last_run sha (f_job f) [f, f, f] = [f, f, f]" by (simp add: last_run_def)
  have "card (f_job ` set ([f, f] @ [f])) \<le> m" using assms(2) by simp
  from recordFailure_run [OF this, of sha threshold] run assms(1)
  have 1: "\<not> isPoison (fst (recordFailure sha (f_time f) (f_job f) (f_class f) (f_data f) (record_all sha [f, f] (new_detector threshold m))))"
    by (simp add: Let_def)
  have "card (f_job ` set [f, f, f]) \<le> m" using assms(2) by simp
  from record_all_tracker [OF this refl, of sha threshold] assms(3) run
  have "map_of (failureTracker D) (f_job f) = entry_of sha [f, f, f]" by simp
  moreover have "signatureTtlMs D = 1800000"
    unfolding assms(3) record_all_def
    by (simp add: new_detector_def recordFailure_def enforceTrackerLimit_def Let_def split: option.splits)
  ultimately have "getPoisonStatus (jb_now s) (f_job f) (jb_detector s) = (entry_of sha [f, f, f], D)"
    using assms(4,5) by (simp add: getPoisonStatus_def entry_of_def)
  then obtain r where r: "job_failures (persist (f_job f) name q err n d s) = job_failures s @ [r]" "jf_status r = F_POISON"
    by (simp add: persist_def entry_of_def)
  have "jf_id r \<notin> jf_id ` set (bulk_records bf (persist (f_job f) name q err n d s))"
    if "bf_ids bf = []" "jf_id r \<notin> jf_id ` set (job_failures s)" for bf
    using that r by (auto simp: bulk_records_def Let_def split: if_splits)
  with 1 r show ?thesis by blast
qed

definition demo_fail :: failure where
  "demo_fail = \<lparr>f_time = 0, f_job = ''7'', f_class = ''Error'', f_data = JNull\<rparr>"

theorem persist_ignores_threshold_witness:
  "\<exists>r. job_failures (persist ''7'' ''send-email'' ''email-queue'' \<lparr>th_message = ''m'', th_stack = None, th_class = ''Error''\<rparr> 3 JNull
      (demo_jobs\<lparr>jb_detector := record_all id [demo_fail, demo_fail, demo_fail] (new_detector 5 10)\<rparr>))
    = job_failures demo_jobs @ [r] \<and> jf_status r = F_POISON"
proof -
  let ?s = "demo_jobs\<lparr>jb_detector := record_all id [demo_fail, demo_fail, demo_fail] (new_detector 5 10)\<rparr>"
  have "(3 :: nat) < 5" "(0 :: nat) < 10" "jb_detector ?s = record_all id [demo_fail, demo_fail, demo_fail] (new_detector 5 10)"
      "jb_now ?s - f_time demo_fail \<le> 1800000" "job_failures ?s = job_failures demo_jobs" "f_job demo_fail = ''7''"
    by (simp_all add: demo_jobs_def demo_fail_def)
  from persist_ignores_threshold [OF this(1,2) refl this(3,4)] this(5,6) show ?thesis by metis
qed

end
