(* ===== verification/Breaker.thy ===== *)
theory Breaker
  imports Complex_Main Prelude
begin

text \<open>
  \<open>StellarCircuitBreakerService\<close> (\<open>stellar/stellar-circuit-breaker.service.ts\<close>) and the
  \<open>CongestionMonitorService\<close> (\<open>stellar/congestion-monitor.service.ts\<close>) it consults: the guard
  in front of every call of the Stellar network. The state is the circuit, the window of the
  monitor, the clock and the alerts handed to the webhook. The guarded call is an argument, a
  function of the state that returns its outcome and the state at its end, so that time and other
  calls may pass meanwhile. Error rates are rational numbers where the code has doubles; the index
  \<open>ceil((q / 100) * n) - 1\<close> agrees with exact arithmetic for every window length the code keeps.
\<close>

subsection \<open>The congestion monitor\<close>

record monitor_config =
  windowSizeMs :: int
  p99LatencyThresholdMs :: int
  p95LatencyThresholdMs :: int
  errorRateThresholdForCongestion :: rat
  minSamplesForDecision :: int

record monitor =
  latencyWindow :: "int list"
  windowStartTime :: int
  successfulAttempts :: int
  failedAttempts :: int

record congestion_state =
  isCongestioned :: bool
  isCongestionedStrict :: bool
  p99LatencyMs :: int
  p95LatencyMs :: int
  errorRate :: rat
  cs_successfulAttempts :: int
  cs_failedAttempts :: int
  totalAttempts :: int
  lastUpdatedAt :: int

definition monitor_reset :: "int \<Rightarrow> monitor" where
  "monitor_reset t = \<lparr>latencyWindow = [], windowStartTime = t, successfulAttempts = 0, failedAttempts = 0\<rparr>"

definition cleanOldSamples :: "monitor_config \<Rightarrow> int \<Rightarrow> monitor \<Rightarrow> monitor" where
  "cleanOldSamples C t m =
     (let m1 = (if int (length (latencyWindow m)) > 1000
                then m\<lparr>latencyWindow := drop (length (latencyWindow m) - 500) (latencyWindow m)\<rparr> else m)
      in if t - windowStartTime m1 > windowSizeMs C * 2 then monitor_reset t else m1)"

definition recordSuccess :: "monitor_config \<Rightarrow> int \<Rightarrow> int \<Rightarrow> monitor \<Rightarrow> monitor" where
  "recordSuccess C t latencyMs m =
     (let m1 = cleanOldSamples C t m
      in m1\<lparr>latencyWindow := latencyWindow m1 @ [latencyMs], successfulAttempts := successfulAttempts m1 + 1\<rparr>)"

definition recordFailure :: "monitor_config \<Rightarrow> int \<Rightarrow> monitor \<Rightarrow> monitor" where
  "recordFailure C t m = (let m1 = cleanOldSamples C t m in m1\<lparr>failedAttempts := failedAttempts m1 + 1\<rparr>)"

text \<open>The element of the sorted window at the index \<open>max 0 (ceil (q / 100 * len) - 1)\<close>.\<close>

definition percentile_index :: "nat \<Rightarrow> nat \<Rightarrow> nat" where
  "percentile_index q n = (q * n + 99) div 100 - 1"

definition percentile :: "nat \<Rightarrow> int list \<Rightarrow> int" where
  "percentile q xs = sort xs ! percentile_index q (length xs)"

definition calculatePercentiles :: "monitor \<Rightarrow> int \<times> int" where
  "calculatePercentiles m =
     (if latencyWindow m = [] then (0, 0)
      else (percentile 95 (latencyWindow m), percentile 99 (latencyWindow m)))"

definition error_rate :: "monitor \<Rightarrow> rat" where
  "error_rate m =
     (let n = successfulAttempts m + failedAttempts m in if n > 0 then of_int (failedAttempts m) / of_int n else 0)"

text \<open>\<open>Math.round(r * 10000) / 10000\<close>\<close>

definition round4 :: "rat \<Rightarrow> rat" where
  "round4 r = of_int \<lfloor>r * 10000 + 1 / 2\<rfloor> / 10000"

definition getCongestionState :: "monitor_config \<Rightarrow> int \<Rightarrow> monitor \<Rightarrow> congestion_state \<times> monitor" where
  "getCongestionState C t m =
     (let m1 = cleanOldSamples C t m;
          n = successfulAttempts m1 + failedAttempts m1;
          (p95, p99) = calculatePercentiles m1;
          sufficient = minSamplesForDecision C \<le> n;
          notOutage = error_rate m1 \<le> errorRateThresholdForCongestion C;
          high = p99LatencyThresholdMs C \<le> p99;
          highStrict = (p95LatencyThresholdMs C \<le> p95 \<and> p99LatencyThresholdMs C \<le> p99)
      in (\<lparr>isCongestioned = (sufficient \<and> high \<and> notOutage),
           isCongestionedStrict = (sufficient \<and> highStrict \<and> notOutage),
           p99LatencyMs = p99, p95LatencyMs = p95, errorRate = round4 (error_rate m1),
           cs_successfulAttempts = successfulAttempts m1, cs_failedAttempts = failedAttempts m1,
           totalAttempts = n, lastUpdatedAt = t\<rparr>, m1))"

record monitor_debug =
  samplesCollected :: int
  windowAgeMs :: int
  medianLatencyMs :: int

definition getDebugInfo :: "int \<Rightarrow> monitor \<Rightarrow> monitor_debug" where
  "getDebugInfo t m =
     \<lparr>samplesCollected = int (length (latencyWindow m)), windowAgeMs = t - windowStartTime m,
      medianLatencyMs = (if latencyWindow m = [] then 0
                         else sort (latencyWindow m) ! (length (latencyWindow m) div 2))\<rparr>"

subsection \<open>The circuit\<close>

record breaker_config =
  threshold :: int
  baseTimeoutMs :: int
  minHalfOpenProbeIntervalMs :: int
  monitoring :: monitor_config

record circuit_state =
  failures :: int
  lastFailureAt :: "int option"
  is_open :: bool
  lastHalfOpenProbeAt :: "int option"

record breaker =
  circuit :: circuit_state
  congestion :: monitor
  clock :: int
  alerts :: "(string \<times> congestion_state) list"

datatype refusal =
    Unavailable int
  | ProbeRateLimited int

definition closed_circuit :: circuit_state where
  "closed_circuit = \<lparr>failures = 0, lastFailureAt = None, is_open = False, lastHalfOpenProbeAt = None\<rparr>"

definition new_breaker :: "int \<Rightarrow> breaker" where
  "new_breaker t = \<lparr>circuit = closed_circuit, congestion = monitor_reset t, clock = t, alerts = []\<rparr>"

definition ceil_seconds :: "int \<Rightarrow> int" where
  "ceil_seconds ms = - ((- ms) div 1000)"

definition read_congestion :: "breaker_config \<Rightarrow> breaker \<Rightarrow> congestion_state \<times> breaker" where
  "read_congestion C b =
     (case getCongestionState (monitoring C) (clock b) (congestion b) of (c, m) \<Rightarrow> (c, b\<lparr>congestion := m\<rparr>))"

definition isLikelyOutage :: "breaker_config \<Rightarrow> breaker \<Rightarrow> bool \<times> breaker" where
  "isLikelyOutage C b = (case read_congestion C b of (c, b1) \<Rightarrow> (errorRate c > 1 / 2, b1))"

definition getAdaptiveTimeout :: "breaker_config \<Rightarrow> breaker \<Rightarrow> int \<times> breaker" where
  "getAdaptiveTimeout C b =
     (case read_congestion C b of (c, b1) \<Rightarrow>
        if isCongestioned c
        then (case isLikelyOutage C b1 of (outage, b2) \<Rightarrow>
                if \<not> outage then (baseTimeoutMs C div 2, b2) else (baseTimeoutMs C, b2))
        else (baseTimeoutMs C, b1))"

definition since :: "int option \<Rightarrow> breaker \<Rightarrow> int" where
  "since t b = clock b - js_num t"

definition shouldAttemptRecoveryProbe :: "breaker_config \<Rightarrow> breaker \<Rightarrow> bool" where
  "shouldAttemptRecoveryProbe C b \<longleftrightarrow> minHalfOpenProbeIntervalMs C \<le> since (lastHalfOpenProbeAt (circuit b)) b"

definition getNextProbeDelayMs :: "breaker_config \<Rightarrow> breaker \<Rightarrow> int" where
  "getNextProbeDelayMs C b = max 0 (minHalfOpenProbeIntervalMs C - since (lastHalfOpenProbeAt (circuit b)) b)"

text \<open>The part of \<open>execute\<close> before the call: refuse it, or let it through.\<close>

definition admit :: "breaker_config \<Rightarrow> breaker \<Rightarrow> refusal option \<times> breaker" where
  "admit C b =
     (if is_open (circuit b)
      then let elapsed = since (lastFailureAt (circuit b)) b; (timeoutMs, b1) = getAdaptiveTimeout C b
           in if elapsed < timeoutMs then (Some (Unavailable (ceil_seconds (timeoutMs - elapsed))), b1)
              else if \<not> shouldAttemptRecoveryProbe C b1
              then (Some (ProbeRateLimited (ceil_seconds (getNextProbeDelayMs C b1))), b1)
              else (None, b1\<lparr>circuit := (circuit b1)\<lparr>lastHalfOpenProbeAt := Some (clock b1)\<rparr>\<rparr>)
      else (None, b))"

definition onSuccess :: "breaker_config \<Rightarrow> int \<Rightarrow> breaker \<Rightarrow> breaker" where
  "onSuccess C latencyMs b =
     b\<lparr>congestion := recordSuccess (monitoring C) (clock b) latencyMs (congestion b), circuit := closed_circuit\<rparr>"

definition onFailure :: "breaker_config \<Rightarrow> string \<Rightarrow> breaker \<Rightarrow> breaker" where
  "onFailure C message b =
     (let b1 = b\<lparr>congestion := recordFailure (monitoring C) (clock b) (congestion b)\<rparr>;
          c = circuit b1;
          c1 = c\<lparr>failures := failures c + 1, lastFailureAt := Some (clock b)\<rparr>;
          c2 = (if is_open c1 then c1\<lparr>lastHalfOpenProbeAt := Some (clock b)\<rparr> else c1)
      in if failures c2 \<ge> threshold C
         then let b2 = b1\<lparr>circuit := c2\<lparr>is_open := True\<rparr>\<rparr>
              in if \<not> is_open c2
                 then (case read_congestion C b2 of (s, b3) \<Rightarrow> b3\<lparr>alerts := alerts b3 @ [(message, s)]\<rparr>)
                 else b2
         else b1\<lparr>circuit := c2\<rparr>)"

definition execute ::
  "breaker_config \<Rightarrow> (breaker \<Rightarrow> 'a outcome \<times> breaker) \<Rightarrow> breaker \<Rightarrow> (refusal + 'a outcome) \<times> breaker" where
  "execute C fn b =
     (case admit C b of
        (Some r, b1) \<Rightarrow> (Inl r, b1)
      | (None, b1) \<Rightarrow>
          (case fn b1 of
             (Inr x, b2) \<Rightarrow> (Inr (Inr x), onSuccess C (clock b2 - clock b) b2)
           | (Inl e, b2) \<Rightarrow> (Inr (Inl e), onFailure C (exn_message e) b2)))"

definition breaker_reset :: "breaker \<Rightarrow> breaker" where
  "breaker_reset b = b\<lparr>circuit := closed_circuit, congestion := monitor_reset (clock b)\<rparr>"

lemmas breaker_handlers [handler_defs] =
  admit_def onSuccess_def onFailure_def execute_def breaker_reset_def


subsection \<open>Percentiles\<close>

lemma percentile_index_bounds:
  assumes "1 \<le> q" "q \<le> 100" "0 < n"
  shows "percentile_index q n < n" and "q * n \<le> 100 * Suc (percentile_index q n)" and "100 * percentile_index q n < q * n"
proof -
  obtain m where m: "m = q * n" by blast
  have m_bounds: "1 \<le> m" "m \<le> 100 * n" using assms by (simp_all add: m)
  obtain k where k: "k = (m + 99) div 100" by blast
  have k_bounds: "100 * k \<le> m + 99" "m + 99 < 100 * k + 100"
    using div_times_less_eq_dividend [of "m + 99" 100] dividend_less_div_times [of 100 "m + 99"] by (simp_all add: k)
  have "0 < k" using k_bounds m_bounds by linarith
  then have i: "k = percentile_index q n + 1" by (simp add: percentile_index_def k m)
  show "percentile_index q n < n" and "q * n \<le> 100 * Suc (percentile_index q n)"
    and "100 * percentile_index q n < q * n"
    using k_bounds m_bounds unfolding m [symmetric] i by simp_all
qed

lemma count_le_nth:
  assumes "sorted xs" "k < length xs"
  shows "Suc k \<le> length (filter (\<lambda>x. x \<le> xs ! k) xs)"
proof -
  have "\<forall>x \<in> set (take (Suc k) xs). x \<le> xs ! k"
    using assms by (auto simp: in_set_conv_nth sorted_iff_nth_mono less_Suc_eq_le)
  then have "length (filter (\<lambda>x. x \<le> xs ! k) (take (Suc k) xs)) = Suc k"
    using assms by simp
  moreover have "filter (\<lambda>x. x \<le> xs ! k) xs
      = filter (\<lambda>x. x \<le> xs ! k) (take (Suc k) xs) @ filter (\<lambda>x. x \<le> xs ! k) (drop (Suc k) xs)"
    by (metis append_take_drop_id filter_append)
  ultimately show ?thesis by simp
qed

lemma count_less_nth:
  assumes "sorted xs" "k < length xs"
  shows "length (filter (\<lambda>x. x < xs ! k) xs) \<le> k"
proof -
  have "\<forall>x \<in> set (drop k xs). \<not> x < xs ! k"
    using assms by (auto simp: in_set_conv_nth sorted_iff_nth_mono not_less)
  then have "filter (\<lambda>x. x < xs ! k) (drop k xs) = []" by (simp add: filter_empty_conv)
  moreover have "filter (\<lambda>x. x < xs ! k) xs = filter (\<lambda>x. x < xs ! k) (take k xs) @ filter (\<lambda>x. x < xs ! k) (drop k xs)"
    by (metis append_take_drop_id filter_append)
  ultimately have "length (filter (\<lambda>x. x < xs ! k) xs) \<le> length (take k xs)" by (metis append_Nil2 length_filter_le)
  then show ?thesis by simp
qed

lemma length_filter_sort: "length (filter P (sort xs)) = length (filter P xs)"
  by (metis length_sort filter_sort)

text \<open>
  The percentiles are order statistics. For a non-empty window the q-th percentile is one of
  the samples, at least q per cent of the samples are at most it, and fewer than q per cent are
  below it.
\<close>

theorem percentile_correct:
  assumes "xs \<noteq> []" "1 \<le> q" "q \<le> 100"
  shows "percentile q xs \<in> set xs \<and>
    q * length xs \<le> 100 * length (filter (\<lambda>x. x \<le> percentile q xs) xs) \<and>
    100 * length (filter (\<lambda>x. x < percentile q xs) xs) < q * length xs"
proof -
  let ?k = "percentile_index q (length xs)"
  note k = percentile_index_bounds [OF assms(2,3), of "length xs"]
  have lt: "?k < length (sort xs)" using k(1) assms(1) by simp
  have "Suc ?k \<le> length (filter (\<lambda>x. x \<le> percentile q xs) xs)"
    using count_le_nth [OF _ lt] by (simp add: percentile_def length_filter_sort)
  moreover have "length (filter (\<lambda>x. x < percentile q xs) xs) \<le> ?k"
    using count_less_nth [OF _ lt] by (simp add: percentile_def length_filter_sort)
  moreover have "percentile q xs \<in> set xs" using nth_mem [OF lt] by (simp add: percentile_def)
  ultimately show ?thesis using k(2,3) assms(1) by auto
qed

lemma window_bounded: "length (latencyWindow (recordSuccess C t l m)) \<le> 1001"
  by (auto simp: recordSuccess_def cleanOldSamples_def monitor_reset_def Let_def)

subsection \<open>One call\<close>

lemma read_congestion_frame [simp]:
  "circuit (snd (read_congestion C b)) = circuit b" "clock (snd (read_congestion C b)) = clock b"
  "alerts (snd (read_congestion C b)) = alerts b"
  by (simp_all add: read_congestion_def split: prod.splits)

lemma read_congestionD:
  "read_congestion C b = (c, b1) \<Longrightarrow> circuit b1 = circuit b \<and> clock b1 = clock b \<and> alerts b1 = alerts b"
  using read_congestion_frame [of C b] by simp

lemma getAdaptiveTimeout_cases:
  assumes "getAdaptiveTimeout C b = (ms, b1)"
  shows "circuit b1 = circuit b" "clock b1 = clock b" "alerts b1 = alerts b"
    and "ms = baseTimeoutMs C \<or> ms = baseTimeoutMs C div 2"
  using assms by (auto simp: getAdaptiveTimeout_def isLikelyOutage_def split: prod.splits if_splits dest!: read_congestionD)

lemma admit_closed: "\<not> is_open (circuit b) \<Longrightarrow> admit C b = (None, b)"
  by (simp add: admit_def)

lemma admit_frame:
  assumes "admit C b = (r, b1)"
  shows "clock b1 = clock b \<and> alerts b1 = alerts b \<and>
    (r \<noteq> None \<longrightarrow> is_open (circuit b) \<and> circuit b1 = circuit b) \<and>
    (r = None \<and> is_open (circuit b) \<longrightarrow> circuit b1 = (circuit b)\<lparr>lastHalfOpenProbeAt := Some (clock b)\<rparr> \<and>
       minHalfOpenProbeIntervalMs C \<le> since (lastHalfOpenProbeAt (circuit b)) b) \<and>
    (r = None \<and> \<not> is_open (circuit b) \<longrightarrow> b1 = b)"
proof (cases "is_open (circuit b)")
  case True
  obtain ms b' where t: "getAdaptiveTimeout C b = (ms, b')" by fastforce
  show ?thesis
    using assms True getAdaptiveTimeout_cases [OF t]
    by (auto simp: admit_def t shouldAttemptRecoveryProbe_def since_def Let_def split: if_splits)
qed (use assms in \<open>simp add: admit_closed\<close>)

lemma onSuccess_frame [simp]:
  "circuit (onSuccess C l b) = closed_circuit" "clock (onSuccess C l b) = clock b" "alerts (onSuccess C l b) = alerts b"
  by (simp_all add: onSuccess_def)

lemma onFailure_frame:
  "clock (onFailure C e b) = clock b \<and> failures (circuit (onFailure C e b)) = failures (circuit b) + 1 \<and>
   lastFailureAt (circuit (onFailure C e b)) = Some (clock b) \<and>
   is_open (circuit (onFailure C e b)) = (is_open (circuit b) \<or> threshold C \<le> failures (circuit b) + 1) \<and>
   lastHalfOpenProbeAt (circuit (onFailure C e b)) =
     (if is_open (circuit b) then Some (clock b) else lastHalfOpenProbeAt (circuit b)) \<and>
   length (alerts (onFailure C e b)) =
     length (alerts b) + (if \<not> is_open (circuit b) \<and> threshold C \<le> failures (circuit b) + 1 then 1 else 0)"
  by (auto simp: onFailure_def Let_def split: prod.splits dest!: read_congestionD)

subsection \<open>Histories\<close>

text \<open>
  The calls of the service in the order they happen: a call is let through or refused, a running
  call ends, time passes, the circuit is reset, or its state is read. Calls may overlap in any way.
\<close>

datatype breaker_op =
    Start
  | Succeeds int
  | Fails string
  | Elapse nat
  | Reset
  | Status

fun breaker_exec :: "breaker_config \<Rightarrow> breaker_op \<Rightarrow> breaker \<Rightarrow> breaker" where
  "breaker_exec C Start b = snd (admit C b)"
| "breaker_exec C (Succeeds l) b = onSuccess C l b"
| "breaker_exec C (Fails e) b = onFailure C e b"
| "breaker_exec C (Elapse d) b = b\<lparr>clock := clock b + int d\<rparr>"
| "breaker_exec C Reset b = breaker_reset b"
| "breaker_exec C Status b = snd (read_congestion C b)"

text \<open>The abstract breaker counts, in a history with the newest event first.\<close>

fun trailing_failures :: "breaker_op list \<Rightarrow> nat" where
  "trailing_failures [] = 0"
| "trailing_failures (Fails e # h) = Suc (trailing_failures h)"
| "trailing_failures (Succeeds l # h) = 0"
| "trailing_failures (Reset # h) = 0"
| "trailing_failures (op # h) = trailing_failures h"

fun trips :: "int \<Rightarrow> breaker_op list \<Rightarrow> nat" where
  "trips k [] = 0"
| "trips k (Fails e # h) = trips k h + (if int (Suc (trailing_failures h)) = k then 1 else 0)"
| "trips k (op # h) = trips k h"

definition counts :: "breaker_config \<Rightarrow> breaker_op list \<Rightarrow> breaker \<Rightarrow> bool" where
  "counts C h b \<longleftrightarrow> failures (circuit b) = int (trailing_failures h) \<and>
     (is_open (circuit b) \<longleftrightarrow> threshold C \<le> int (trailing_failures h)) \<and> length (alerts b) = trips (threshold C) h"

lemma counts_step:
  assumes "1 \<le> threshold C" "counts C h b"
  shows "counts C (op # h) (breaker_exec C op b)"
proof (cases op)
  case Start
  obtain r b1 where "admit C b = (r, b1)" by fastforce
  then show ?thesis using assms admit_frame [of C b r b1] Start
    by (cases r; cases "is_open (circuit b)") (auto simp: counts_def)
next
  case (Fails e)
  then show ?thesis using assms onFailure_frame [of C e b] by (auto simp: counts_def)
qed (use assms in \<open>auto simp: counts_def closed_circuit_def breaker_reset_def\<close>)

lemma counts_run:
  assumes "1 \<le> threshold C" "counts C h b"
  shows "counts C (rev ops @ h) (fold (breaker_exec C) ops b)"
  using assms(2)
proof (induction ops arbitrary: h b)
  case (Cons op ops)
  from Cons.IH [OF counts_step [OF assms(1) Cons.prems]] show ?case by simp
qed simp


text \<open>
  C13: The breaker implements its counting specification. After any history of calls, however they
  overlap, the failures it stores are the failures since the last success or reset, the circuit is
  open exactly when these reach the threshold, and one alert was raised for each time they did.
\<close>

theorem breaker_refines_history:
  assumes "1 \<le> threshold C"
  shows "failures (circuit (fold (breaker_exec C) ops (new_breaker t))) = int (trailing_failures (rev ops)) \<and>
    (is_open (circuit (fold (breaker_exec C) ops (new_breaker t))) \<longleftrightarrow> threshold C \<le> int (trailing_failures (rev ops))) \<and>
    length (alerts (fold (breaker_exec C) ops (new_breaker t))) = trips (threshold C) (rev ops)"
proof -
  have "counts C [] (new_breaker t)" using assms by (simp add: counts_def new_breaker_def closed_circuit_def)
  from counts_run [OF assms this, of ops] show ?thesis by (simp add: counts_def)
qed

subsection \<open>The open circuit\<close>

text \<open>The clock is not behind any stored time, and the circuit is open only after a failure.\<close>

definition times_ok :: "breaker \<Rightarrow> bool" where
  "times_ok b \<longleftrightarrow> (\<forall>t. lastFailureAt (circuit b) = Some t \<longrightarrow> t \<le> clock b) \<and>
     (\<forall>t. lastHalfOpenProbeAt (circuit b) = Some t \<longrightarrow> t \<le> clock b) \<and>
     (is_open (circuit b) \<longrightarrow> lastFailureAt (circuit b) \<noteq> None)"

definition monitor_ok :: "monitor \<Rightarrow> bool" where
  "monitor_ok m \<longleftrightarrow> 0 \<le> successfulAttempts m \<and> 0 \<le> failedAttempts m \<and> length (latencyWindow m) \<le> 1001"

definition breaker_ok :: "breaker \<Rightarrow> bool" where
  "breaker_ok b \<longleftrightarrow> times_ok b \<and> monitor_ok (congestion b)"

lemma monitor_ok_steps:
  assumes "monitor_ok m"
  shows "monitor_ok (cleanOldSamples C t m)" "monitor_ok (recordSuccess C t l m)" "monitor_ok (recordFailure C t m)"
    "monitor_ok (monitor_reset t)"
  using assms
  by (auto simp: monitor_ok_def cleanOldSamples_def recordSuccess_def recordFailure_def monitor_reset_def Let_def)

lemma congestion_read: "congestion (snd (read_congestion C b)) = cleanOldSamples (monitoring C) (clock b) (congestion b)"
  by (simp add: read_congestion_def getCongestionState_def Let_def split: prod.splits)

lemma monitor_ok_read: "read_congestion C b = (c, b1) \<Longrightarrow> monitor_ok (congestion b) \<Longrightarrow> monitor_ok (congestion b1)"
  using congestion_read [of C b] by (simp add: monitor_ok_steps(1))

lemma monitor_ok_admit:
  assumes "monitor_ok (congestion b)"
  shows "monitor_ok (congestion (snd (admit C b)))"
proof -
  have "monitor_ok (congestion b1)" if "getAdaptiveTimeout C b = (ms, b1)" for ms b1
    using that assms
    by (auto simp: getAdaptiveTimeout_def isLikelyOutage_def split: prod.splits if_splits intro: monitor_ok_read)
  then show ?thesis using assms by (auto simp: admit_def Let_def split: prod.splits)
qed

lemma monitor_ok_failure:
  assumes "monitor_ok (congestion b)"
  shows "monitor_ok (congestion (onFailure C e b))"
  using monitor_ok_steps(3) [OF assms, of "monitoring C" "clock b"]
  by (auto simp: onFailure_def Let_def split: prod.splits intro: monitor_ok_read)

lemma times_ok_exec:
  assumes "times_ok b"
  shows "times_ok (breaker_exec C op b)"
proof (cases op)
  case Start
  obtain r b1 where r: "admit C b = (r, b1)" by fastforce
  then show ?thesis using assms admit_frame [OF r] Start
    by (cases r; cases "is_open (circuit b)") (auto simp: times_ok_def)
next
  case (Fails e)
  then show ?thesis using assms onFailure_frame [of C e b] by (auto simp: times_ok_def)
qed (use assms in \<open>fastforce simp: times_ok_def closed_circuit_def breaker_reset_def\<close>)+

lemma monitor_ok_exec:
  "monitor_ok (congestion b) \<Longrightarrow> monitor_ok (congestion (breaker_exec C op b))"
  by (cases op)
    (simp_all add: monitor_ok_admit monitor_ok_failure monitor_ok_steps congestion_read onSuccess_def breaker_reset_def)

interpretation breaker: machine "breaker_exec C" breaker_ok for C
  by unfold_locales (simp add: breaker_ok_def times_ok_exec monitor_ok_exec)

lemma new_breaker_ok: "breaker_ok (new_breaker t)"
  by (simp add: breaker_ok_def times_ok_def monitor_ok_def new_breaker_def closed_circuit_def monitor_reset_def)

text \<open>
  An open circuit fails fast. Until half of the base timeout after the last failure every call
  is refused without calling the network, the circuit stays as it is, and the caller is told to
  retry after at least one second and at most the base timeout.
\<close>

theorem open_circuit_fails_fast:
  assumes "breaker_ok b" "is_open (circuit b)" "lastFailureAt (circuit b) = Some t" "clock b < t + baseTimeoutMs C div 2"
    and "0 \<le> baseTimeoutMs C"
  shows "\<exists>r b1. execute C fn b = (Inl (Unavailable r), b1) \<and> circuit b1 = circuit b \<and> clock b1 = clock b \<and>
    1 \<le> r \<and> r \<le> ceil_seconds (baseTimeoutMs C)"
proof -
  obtain ms b1 where a: "getAdaptiveTimeout C b = (ms, b1)" by fastforce
  note f = getAdaptiveTimeout_cases [OF a]
  let ?e = "clock b - t"
  have e: "0 \<le> ?e" using assms(1,3) by (simp add: breaker_ok_def times_ok_def)
  have ms: "?e < ms" "ms \<le> baseTimeoutMs C" using f(4) assms(4,5) by auto
  have "admit C b = (Some (Unavailable (ceil_seconds (ms - ?e))), b1)"
    using assms(2,3) ms by (simp add: admit_def a since_def Let_def)
  moreover have "1 \<le> ceil_seconds (ms - ?e)" "ceil_seconds (ms - ?e) \<le> ceil_seconds (baseTimeoutMs C)"
    using ms e by (auto simp: ceil_seconds_def intro!: zdiv_mono1)
  ultimately show ?thesis using f by (simp add: execute_def)
qed

text \<open>A probe is remembered as long as the circuit neither closes nor is reset.\<close>

fun keeps_open :: "breaker_op \<Rightarrow> bool" where
  "keeps_open (Succeeds l) = False"
| "keeps_open Reset = False"
| "keeps_open op = True"

definition probed_since :: "int \<Rightarrow> breaker \<Rightarrow> bool" where
  "probed_since t b \<longleftrightarrow> is_open (circuit b) \<and> (\<exists>u. lastHalfOpenProbeAt (circuit b) = Some u \<and> t \<le> u) \<and> t \<le> clock b"

lemma probed_since_step:
  assumes "probed_since t b" "keeps_open op"
  shows "probed_since t (breaker_exec C op b)"
proof (cases op)
  case Start
  obtain r b1 where r: "admit C b = (r, b1)" by fastforce
  then show ?thesis using assms admit_frame [OF r] Start by (cases r) (auto simp: probed_since_def)
next
  case (Fails e)
  then show ?thesis using assms onFailure_frame [of C e b] by (auto simp: probed_since_def)
qed (use assms in \<open>auto simp: probed_since_def\<close>)

lemma probed_since_run:
  "probed_since t b \<Longrightarrow> list_all keeps_open ops \<Longrightarrow> probed_since t (fold (breaker_exec C) ops b)"
  by (induction ops arbitrary: b) (simp_all add: probed_since_step)

text \<open>
  Probes of an open circuit are rate-limited. Between two calls that an open circuit lets
  through without closing in between, however the other calls overlap, at least the minimum probe
  interval passes.
\<close>

theorem probes_rate_limited:
  assumes "is_open (circuit b)" "admit C b = (None, b1)" "list_all keeps_open ops"
    and "admit C (fold (breaker_exec C) ops b1) = (None, b2)"
  shows "clock b + minHalfOpenProbeIntervalMs C \<le> clock b2"
proof -
  let ?m = "fold (breaker_exec C) ops b1"
  have "probed_since (clock b) b1" using admit_frame [OF assms(2)] assms(1) by (simp add: probed_since_def)
  then have "probed_since (clock b) ?m" by (rule probed_since_run) (rule assms(3))
  then show ?thesis using admit_frame [OF assms(4)] by (auto simp: probed_since_def since_def)
qed

text \<open>
  An open circuit recovers. Once the base timeout has passed since the last failure and the
  probe interval since the last probe, the next call is let through, and when it succeeds the
  circuit is closed and all is forgotten.
\<close>

theorem open_circuit_recovers:
  assumes "breaker_ok b" "0 \<le> baseTimeoutMs C" "baseTimeoutMs C \<le> int d" "minHalfOpenProbeIntervalMs C \<le> int d"
    and "\<forall>x. fst (fn x) = Inr v"
    and "0 \<le> clock b"
  shows "\<exists>b1. execute C fn (breaker_exec C (Elapse d) b) = (Inr (Inr v), b1) \<and> circuit b1 = closed_circuit"
proof -
  let ?b = "breaker_exec C (Elapse d) b"
  obtain ms b' where a: "getAdaptiveTimeout C ?b = (ms, b')" by fastforce
  note f = getAdaptiveTimeout_cases [OF a]
  have "\<exists>b1. admit C ?b = (None, b1)"
  proof (cases "is_open (circuit b)")
    case True
    have old: "js_num (lastFailureAt (circuit b)) \<le> clock b" "js_num (lastHalfOpenProbeAt (circuit b)) \<le> clock b"
      using assms(1,6) by (auto simp: breaker_ok_def times_ok_def js_num_def split: option.splits)
    have "ms \<le> baseTimeoutMs C" using f(4) assms(2) by auto
    with old True assms(3,4) f show ?thesis
      unfolding admit_def a by (simp add: since_def shouldAttemptRecoveryProbe_def)
  qed (simp add: admit_closed)
  then obtain b1 where b1: "admit C ?b = (None, b1)" by blast
  then have "clock b1 = clock b + int d" using admit_frame [OF b1] by simp
  then obtain b2 where "fn b1 = (Inr v, b2)" using assms(5) by (metis prod.collapse)
  then show ?thesis unfolding execute_def b1 by simp
qed

text \<open>
  Congestion is never taken for an outage. When the error rate that still counts as congestion
  is at most one half, a congested network halves the timeout in every state: the test for an
  outage, which looks for more than one half, never succeeds there.
\<close>

theorem congestion_halves_timeout:
  assumes "errorRateThresholdForCongestion (monitoring C) \<le> 1 / 2" "isCongestioned (fst (read_congestion C b))"
  shows "fst (getAdaptiveTimeout C b) = baseTimeoutMs C div 2"
proof -
  obtain c b1 where 1: "read_congestion C b = (c, b1)" by fastforce
  obtain c' b2 where 2: "read_congestion C b1 = (c', b2)" by fastforce
  let ?m = "cleanOldSamples (monitoring C) (clock b) (congestion b)"
  have m: "congestion b1 = ?m" "clock b1 = clock b" using congestion_read [of C b] read_congestionD [OF 1] 1 by simp_all
  have again: "error_rate (cleanOldSamples (monitoring C) (clock b) ?m) = error_rate ?m"
    by (auto simp: cleanOldSamples_def monitor_reset_def error_rate_def Let_def)
  have "error_rate ?m \<le> 1 / 2"
    using assms 1 by (auto simp: read_congestion_def getCongestionState_def Let_def split: prod.splits)
  then have "error_rate ?m * 10000 + 1 / 2 < 5001" by simp
  then have "\<lfloor>error_rate ?m * 10000 + 1 / 2\<rfloor> \<le> 5000" by linarith
  then have "round4 (error_rate ?m) \<le> 1 / 2" by (simp add: round4_def)
  moreover have "errorRate c' = round4 (error_rate ?m)"
    using 2 again m by (auto simp: read_congestion_def getCongestionState_def Let_def split: prod.splits)
  ultimately show ?thesis using assms(2) by (simp add: getAdaptiveTimeout_def isLikelyOutage_def 1 2)
qed


subsection \<open>Concrete runs\<close>

definition demo_monitoring :: monitor_config where
  "demo_monitoring = \<lparr>windowSizeMs = 120000, p99LatencyThresholdMs = 5000, p95LatencyThresholdMs = 2000,
     errorRateThresholdForCongestion = 1 / 4, minSamplesForDecision = 1\<rparr>"

definition demo_breaker :: breaker_config where
  "demo_breaker = \<lparr>threshold = 2, baseTimeoutMs = 60, minHalfOpenProbeIntervalMs = 5, monitoring = demo_monitoring\<rparr>"

definition demo_opened :: breaker where
  "demo_opened = fold (breaker_exec demo_breaker) [Start, Fails ''a'', Start, Elapse 3, Fails ''b''] (new_breaker 100)"

lemma demo_opened_ok: "breaker_ok demo_opened"
  unfolding demo_opened_def by (rule breaker.run_inv [OF new_breaker_ok])

lemma demo_opened_circuit:
  "circuit demo_opened = \<lparr>failures = 2, lastFailureAt = Some 103, is_open = True, lastHalfOpenProbeAt = None\<rparr>"
  "clock demo_opened = 103"
  by code_simp+

theorem percentile_correct_witness:
  "percentile 95 [30, 10, 20] \<in> set [30, 10, 20]"
  using percentile_correct [of "[30, 10, 20]" 95] by simp

theorem breaker_refines_history_witness:
  "is_open (circuit (fold (breaker_exec demo_breaker) [Start, Fails ''a'', Start, Fails ''b'', Fails ''c''] (new_breaker 0))) \<and>
   length (alerts (fold (breaker_exec demo_breaker) [Start, Fails ''a'', Start, Fails ''b'', Fails ''c''] (new_breaker 0))) = 1"
  using breaker_refines_history [of demo_breaker "[Start, Fails ''a'', Start, Fails ''b'', Fails ''c'']" 0]
  by (simp add: demo_breaker_def)

theorem open_circuit_fails_fast_witness:
  "\<exists>r b1. execute demo_breaker (\<lambda>b. (Inr (), b)) demo_opened = (Inl (Unavailable r), b1) \<and> 1 \<le> r \<and> r \<le> 1"
  using open_circuit_fails_fast [OF demo_opened_ok, of 103 demo_breaker "\<lambda>b. (Inr (), b)"]
  by (auto simp: demo_opened_circuit demo_breaker_def ceil_seconds_def)

theorem probes_rate_limited_witness:
  "\<exists>b b1 b2. is_open (circuit b) \<and> admit demo_breaker b = (None, b1) \<and>
     admit demo_breaker (fold (breaker_exec demo_breaker) [Fails ''c'', Elapse 60] b1) = (None, b2) \<and> clock b + 5 \<le> clock b2"
proof -
  let ?b = "breaker_exec demo_breaker (Elapse 60) demo_opened"
  have "fst (admit demo_breaker ?b) = None" by code_simp
  then obtain b1 where 1: "admit demo_breaker ?b = (None, b1)" by (metis prod.collapse)
  have "fst (admit demo_breaker (fold (breaker_exec demo_breaker) [Fails ''c'', Elapse 60] (snd (admit demo_breaker ?b)))) = None"
    by code_simp
  then obtain b2 where 2: "admit demo_breaker (fold (breaker_exec demo_breaker) [Fails ''c'', Elapse 60] b1) = (None, b2)"
    unfolding 1 snd_conv by (metis prod.collapse)
  have "is_open (circuit ?b)" by (simp add: demo_opened_circuit)
  from probes_rate_limited [OF this 1 _ 2] this 1 2 show ?thesis
    by (intro exI [of _ ?b] exI [of _ b1] exI [of _ b2]) (simp add: demo_breaker_def)
qed

theorem open_circuit_recovers_witness:
  "\<exists>b1. execute demo_breaker (\<lambda>b. (Inr (7 :: nat), b)) (breaker_exec demo_breaker (Elapse 60) demo_opened) = (Inr (Inr 7), b1) \<and>
     circuit b1 = closed_circuit"
  by (rule open_circuit_recovers [OF demo_opened_ok]) (simp_all add: demo_breaker_def demo_opened_circuit)

theorem congestion_halves_timeout_witness:
  "fst (getAdaptiveTimeout demo_breaker (breaker_exec demo_breaker (Succeeds 9000) (new_breaker 0))) = 30"
proof -
  have "isCongestioned (fst (read_congestion demo_breaker (breaker_exec demo_breaker (Succeeds 9000) (new_breaker 0))))"
    by code_simp
  from congestion_halves_timeout [OF _ this] show ?thesis by (simp add: demo_breaker_def demo_monitoring_def)
qed

end
