(* ===== verification/Balance.thy ===== *)
theory Balance
  imports Webhooks Breaker
begin

text \<open>
  \<open>BalanceMonitorService\<close> (\<open>stellar/balance-monitor.service.ts\<close>): the accounts it checks through the circuit
  breaker, and the alerts it hands to the webhooks. Loading an account is the argument \<open>load\<close>, a guarded call in
  the sense of Breaker, which returns the native balance as its text. The clock is that of the breaker.
\<close>

subsection \<open>Printing a number\<close>

text \<open>\<open>toString\<close> of a decimal that is not below \<open>1e-6\<close> in size (or zero) and below \<open>1e21\<close>.\<close>

fun strip_zeros :: "nat \<Rightarrow> int \<Rightarrow> nat \<times> int" where
  "strip_zeros 0 m = (0, m)"
| "strip_zeros (Suc k) m = (if m mod 10 = 0 then strip_zeros k (m div 10) else (Suc k, m))"

fun js_toString :: "js_number \<Rightarrow> string" where
  "js_toString NaN = ''NaN''"
| "js_toString (Dec m e) =
     (if 0 \<le> e then show_int (m * 10 ^ nat e)
      else case strip_zeros (nat (- e)) \<bar>m\<bar> of (k, n) \<Rightarrow>
        (if m < 0 then ''-'' else []) @ show_nat (nat (n div 10 ^ k)) @ (if k = 0 then [] else CHR ''.'' # pad_digits k (n mod 10 ^ k)))"

subsection \<open>Checking accounts\<close>

record balance_config =
  issuerAccount :: string
  minBalanceAlertXlm :: js_number
  bc_breaker :: breaker_config

record balance_result =
  br_accountId :: string
  br_currentBalance :: string
  br_minimumRequired :: string
  br_isLow :: bool
  br_timestamp :: time

record balance_state =
  bs_groups :: "rosca_group list"
  bs_breaker :: breaker
  bs_webhooks :: wh_state
  previousLowBalanceAccounts :: "string list"

text \<open>A call that the breaker refuses throws.\<close>

fun guarded :: "refusal + 'a outcome \<Rightarrow> 'a outcome" where
  "guarded (Inl r) = Inl (ServiceUnavailableException ''Service Unavailable Exception'')"
| "guarded (Inr res) = res"

definition through_breaker :: "breaker_config \<Rightarrow> (breaker \<Rightarrow> 'a outcome \<times> breaker) \<Rightarrow> breaker \<Rightarrow> 'a outcome \<times> breaker" where
  "through_breaker C fn b = (case execute C fn b of (r, b1) \<Rightarrow> (guarded r, b1))"

type_synonym account_load = "string \<Rightarrow> breaker \<Rightarrow> string option outcome \<times> breaker"

text \<open>The balance of an account without a native balance is \<open>'0'\<close>. \<open>parseFloat\<close> reads decimal literals as \<open>Number\<close> does.\<close>

definition checkAccountBalance :: "balance_config \<Rightarrow> account_load \<Rightarrow> string \<Rightarrow> breaker \<Rightarrow> balance_result outcome \<times> breaker" where
  "checkAccountBalance C load a b =
     (case through_breaker (bc_breaker C) (load a) b of
        (Inl e, b1) \<Rightarrow> (Inl e, b1)
      | (Inr native, b1) \<Rightarrow>
          (let x = js_Number (case native of Some s \<Rightarrow> s | None \<Rightarrow> ''0'') in
           (Inr \<lparr>br_accountId = a, br_currentBalance = js_toString x, br_minimumRequired = js_toString (minBalanceAlertXlm C),
                 br_isLow = js_less x (minBalanceAlertXlm C), br_timestamp = clock b1\<rparr>, b1)))"

text \<open>
  The groups of the query: \<open>find\<close> leaves out soft-deleted rows, and \<open>deletedAt: LessThan(new Date(0))\<close> asks for
  a date of deletion before 1970.
\<close>

definition monitored_groups :: "rosca_group list \<Rightarrow> rosca_group list" where
  "monitored_groups gs = filter (\<lambda>g. g_deletedAt g = None \<and> (case g_deletedAt g of Some t \<Rightarrow> t < 0 | None \<Rightarrow> False)) gs"

definition accountsToCheck :: "balance_config \<Rightarrow> balance_state \<Rightarrow> string list" where
  "accountsToCheck C s =
     (let all = (if issuerAccount C \<noteq> [] then [issuerAccount C] else [])
              @ map (\<lambda>g. the (g_contractAddress g)) (filter (\<lambda>g. truthy (g_contractAddress g)) (monitored_groups (bs_groups s)))
      in rev (remdups (rev all)))"

fun check_accounts :: "balance_config \<Rightarrow> account_load \<Rightarrow> string list \<Rightarrow> breaker \<Rightarrow> balance_result list \<times> breaker" where
  "check_accounts C load [] b = ([], b)"
| "check_accounts C load (a # as) b =
     (case through_breaker (bc_breaker C) (checkAccountBalance C load a) b of
        (Inl e, b1) \<Rightarrow> check_accounts C load as b1
      | (Inr r, b1) \<Rightarrow> (case check_accounts C load as b1 of (rs, b2) \<Rightarrow> (r # rs, b2)))"

subsection \<open>Alerts\<close>

definition alert_data :: "balance_result \<Rightarrow> string \<Rightarrow> json" where
  "alert_data r severity = JObj [(''accountId'', JString (br_accountId r)), (''currentBalance'', JString (br_currentBalance r)),
     (''minimumRequired'', JString (br_minimumRequired r)), (''currency'', JString ''XLM''),
     (''timestamp'', JString (toISOString (br_timestamp r))), (''severity'', JString severity)]"

definition emitLowBalanceAlert :: "(string \<Rightarrow> string) \<Rightarrow> balance_result \<Rightarrow> wh_state \<Rightarrow> wh_state" where
  "emitLowBalanceAlert sha r = dispatchEvent sha ''BALANCE_ALERT_LOW'' (alert_data r ''warning'') None"

definition emitBalanceRecoveredAlert :: "(string \<Rightarrow> string) \<Rightarrow> balance_result \<Rightarrow> wh_state \<Rightarrow> wh_state" where
  "emitBalanceRecoveredAlert sha r = dispatchEvent sha ''BALANCE_ALERT_RECOVERED'' (alert_data r ''info'') None"

text \<open>\<open>add\<close> of a \<open>Set\<close>.\<close>

definition set_add :: "'a \<Rightarrow> 'a list \<Rightarrow> 'a list" where
  "set_add x xs = (if x \<in> set xs then xs else xs @ [x])"

text \<open>The first loop, over the results; \<open>low\<close> are the accounts found low so far.\<close>

fun process_low :: "(string \<Rightarrow> string) \<Rightarrow> bool \<Rightarrow> string list \<Rightarrow> balance_result list \<Rightarrow> string list \<times> wh_state \<Rightarrow> string list \<times> wh_state" where
  "process_low sha congested prev [] (low, h) = (low, h)"
| "process_low sha congested prev (r # rs) (low, h) =
     (if br_isLow r \<and> \<not> congested
      then process_low sha congested prev rs
             (set_add (br_accountId r) low, if br_accountId r \<notin> set prev then emitLowBalanceAlert sha r h else h)
      else process_low sha congested prev rs (low, h))"

text \<open>The second loop, over the accounts that were low before.\<close>

fun process_recovered :: "(string \<Rightarrow> string) \<Rightarrow> balance_result list \<Rightarrow> string list \<Rightarrow> string list \<Rightarrow> wh_state \<Rightarrow> wh_state" where
  "process_recovered sha rs low [] h = h"
| "process_recovered sha rs low (a # as) h =
     process_recovered sha rs low as
       (if a \<notin> set low then (case List.find (\<lambda>r. br_accountId r = a) rs of Some r \<Rightarrow> emitBalanceRecoveredAlert sha r h | None \<Rightarrow> h) else h)"

definition processBalanceResults :: "(string \<Rightarrow> string) \<Rightarrow> balance_config \<Rightarrow> balance_result list \<Rightarrow> balance_state \<Rightarrow> balance_state" where
  "processBalanceResults sha C rs s =
     (case read_congestion (bc_breaker C) (bs_breaker s) of (c, b) \<Rightarrow>
        (case process_low sha (isCongestioned c) (previousLowBalanceAccounts s) rs ([], (bs_webhooks s)\<lparr>wh_now := clock b\<rparr>) of (low, h) \<Rightarrow>
           s\<lparr>bs_breaker := b, bs_webhooks := process_recovered sha rs low (previousLowBalanceAccounts s) h,
             previousLowBalanceAccounts := low\<rparr>))"

definition checkAllBalances :: "(string \<Rightarrow> string) \<Rightarrow> balance_config \<Rightarrow> account_load \<Rightarrow> balance_state \<Rightarrow> balance_state" where
  "checkAllBalances sha C load s =
     (if accountsToCheck C s = [] then s
      else case check_accounts C load (accountsToCheck C s) (bs_breaker s) of (rs, b) \<Rightarrow>
        processBalanceResults sha C rs (s\<lparr>bs_breaker := b\<rparr>))"

fun balances_with_errors :: "balance_config \<Rightarrow> account_load \<Rightarrow> string list \<Rightarrow> breaker \<Rightarrow> balance_result list \<times> breaker" where
  "balances_with_errors C load [] b = ([], b)"
| "balances_with_errors C load (a # as) b =
     (case through_breaker (bc_breaker C) (checkAccountBalance C load a) b of (res, b1) \<Rightarrow>
        (case balances_with_errors C load as b1 of (rs, b2) \<Rightarrow>
          ((case res of Inr r \<Rightarrow> r
            | Inl e \<Rightarrow> \<lparr>br_accountId = a, br_currentBalance = ''ERROR'', br_minimumRequired = js_toString (minBalanceAlertXlm C),
                br_isLow = False, br_timestamp = clock b1\<rparr>) # rs, b2)))"

definition getCurrentBalances :: "balance_config \<Rightarrow> account_load \<Rightarrow> balance_state \<Rightarrow> balance_result list \<times> balance_state" where
  "getCurrentBalances C load s =
     (case balances_with_errors C load (accountsToCheck C s) (bs_breaker s) of (rs, b) \<Rightarrow> (rs, s\<lparr>bs_breaker := b\<rparr>))"

subsection \<open>Which alerts are sent\<close>

datatype balance_alert = Low balance_result | Recovered balance_result

fun emit :: "(string \<Rightarrow> string) \<Rightarrow> balance_alert \<Rightarrow> wh_state \<Rightarrow> wh_state" where
  "emit sha (Low r) h = emitLowBalanceAlert sha r h"
| "emit sha (Recovered r) h = emitBalanceRecoveredAlert sha r h"

text \<open>The alerts of one check: for the accounts that are low now and were not, and for those that were low and are not counted as low.\<close>

definition low_accounts :: "bool \<Rightarrow> balance_result list \<Rightarrow> string set" where
  "low_accounts congested rs = (if congested then {} else br_accountId ` {r \<in> set rs. br_isLow r})"

definition balance_alerts :: "bool \<Rightarrow> string list \<Rightarrow> balance_result list \<Rightarrow> balance_alert list" where
  "balance_alerts congested prev rs =
     map Low (filter (\<lambda>r. br_isLow r \<and> \<not> congested \<and> br_accountId r \<notin> set prev) rs) @
     map Recovered (List.map_filter (\<lambda>a. if a \<in> low_accounts congested rs then None else List.find (\<lambda>r. br_accountId r = a) rs) prev)"

lemma set_set_add [simp]: "set (set_add x xs) = insert x (set xs)"
  by (auto simp: set_add_def)

lemma process_low_eq:
  "process_low sha congested prev rs (low, h) = (low', h') \<Longrightarrow>
     set low' = set low \<union> low_accounts congested rs \<and>
     h' = fold (emit sha) (map Low (filter (\<lambda>r. br_isLow r \<and> \<not> congested \<and> br_accountId r \<notin> set prev) rs)) h"
  by (induction sha congested prev rs "(low, h)" arbitrary: low h rule: process_low.induct)
     (auto simp: low_accounts_def split: if_splits)

lemma process_recovered_eq:
  "process_recovered sha rs low prev h = fold (emit sha)
     (map Recovered (List.map_filter (\<lambda>a. if a \<in> set low then None else List.find (\<lambda>r. br_accountId r = a) rs) prev)) h"
  by (induction prev arbitrary: h) (auto simp: List.map_filter_simps split: option.splits)

lemma processBalanceResults_eq:
  assumes "read_congestion (bc_breaker C) (bs_breaker s) = (c, b)"
  shows "bs_webhooks (processBalanceResults sha C rs s)
      = fold (emit sha) (balance_alerts (isCongestioned c) (previousLowBalanceAccounts s) rs) ((bs_webhooks s)\<lparr>wh_now := clock b\<rparr>) \<and>
    set (previousLowBalanceAccounts (processBalanceResults sha C rs s)) = low_accounts (isCongestioned c) rs"
proof -
  obtain low h where low: "process_low sha (isCongestioned c) (previousLowBalanceAccounts s) rs ([], (bs_webhooks s)\<lparr>wh_now := clock b\<rparr>) = (low, h)"
    by fastforce
  from process_low_eq [OF low] have "set low = low_accounts (isCongestioned c) rs" by simp
  with process_low_eq [OF low] assms low show ?thesis
    by (simp add: processBalanceResults_def process_recovered_eq balance_alerts_def)
qed

lemma mem_map_filter: "r \<in> set (List.map_filter f xs) \<longleftrightarrow> (\<exists>x \<in> set xs. f x = Some r)"
  by (auto simp: List.map_filter_def split: option.splits) force

lemma find_account: "distinct (map br_accountId rs) \<Longrightarrow> List.find (\<lambda>r. br_accountId r = a) rs = Some r \<longleftrightarrow> r \<in> set rs \<and> br_accountId r = a"
  by (induction rs) (auto simp: image_iff)

lemma distinct_map_filter_key:
  assumes "distinct xs" "\<And>a r. f a = Some r \<Longrightarrow> key r = a"
  shows "distinct (List.map_filter f xs)"
  using assms(1)
proof (induction xs)
  case (Cons x xs)
  have "r \<notin> set (List.map_filter f xs)" if "f x = Some r" for r
    using that assms(2) Cons.prems by (auto simp: mem_map_filter)
  with Cons show ?case by (auto simp: List.map_filter_simps split: option.splits)
qed (simp add: List.map_filter_simps)

text \<open>without congestion the alerts of a check are edge-triggered. Exactly the checked accounts that are low and were not low at
the last check give a low alert, exactly those that were low and are no longer give a recovery, each once, and the accounts found
low are what the next check compares with.\<close>

theorem alerts_edge_triggered:
  assumes "distinct (map br_accountId rs)" "distinct (previousLowBalanceAccounts s)"
    and "read_congestion (bc_breaker C) (bs_breaker s) = (c, b)" "\<not> isCongestioned c"
    and "s' = processBalanceResults sha C rs s"
  shows "\<exists>es. bs_webhooks s' = fold (emit sha) es ((bs_webhooks s)\<lparr>wh_now := clock b\<rparr>) \<and> distinct es \<and>
    (\<forall>r. Low r \<in> set es \<longleftrightarrow> r \<in> set rs \<and> br_isLow r \<and> br_accountId r \<notin> set (previousLowBalanceAccounts s)) \<and>
    (\<forall>r. Recovered r \<in> set es \<longleftrightarrow> r \<in> set rs \<and> \<not> br_isLow r \<and> br_accountId r \<in> set (previousLowBalanceAccounts s)) \<and>
    set (previousLowBalanceAccounts s') = br_accountId ` {r \<in> set rs. br_isLow r}"
proof -
  let ?prev = "previousLowBalanceAccounts s"
  let ?rec = "List.map_filter (\<lambda>a. if a \<in> low_accounts False rs then None else List.find (\<lambda>r. br_accountId r = a) rs) ?prev"
  have same: "r = x" if "r \<in> set rs" "x \<in> set rs" "br_accountId r = br_accountId x" for r x
    using that assms(1) by (auto simp: distinct_map dest: inj_onD)
  have rec: "r \<in> set ?rec \<longleftrightarrow> r \<in> set rs \<and> \<not> br_isLow r \<and> br_accountId r \<in> set ?prev" for r
    using same by (auto simp: mem_map_filter find_account [OF assms(1)] low_accounts_def)
  have "distinct ?rec"
    using assms(2) by (rule distinct_map_filter_key [where key = br_accountId]) (simp add: find_account [OF assms(1)] split: if_splits)
  moreover have "distinct rs" using assms(1) by (simp add: distinct_map)
  ultimately have "distinct (balance_alerts False ?prev rs)"
    by (auto simp: balance_alerts_def distinct_map inj_on_def)
  moreover have "Low r \<in> set (balance_alerts False ?prev rs) \<longleftrightarrow> r \<in> set rs \<and> br_isLow r \<and> br_accountId r \<notin> set ?prev"
      "Recovered r \<in> set (balance_alerts False ?prev rs) \<longleftrightarrow> r \<in> set rs \<and> \<not> br_isLow r \<and> br_accountId r \<in> set ?prev" for r
    using rec by (auto simp: balance_alerts_def)
  ultimately show ?thesis
    using processBalanceResults_eq [OF assms(3), of sha rs] assms(4,5) by (intro exI [of _ "balance_alerts False ?prev rs"]) (simp add: low_accounts_def)
qed

text \<open>while the network is congested, a low account is skipped but not counted as low: every account that was low and still is gives
a recovery alert with its low balance, no low account gives a low alert, and none is remembered, so each gives a low alert again later.\<close>

theorem congestion_reports_recovery:
  assumes "distinct (map br_accountId rs)" "r \<in> set rs" "br_isLow r" "br_accountId r \<in> set (previousLowBalanceAccounts s)"
    and "read_congestion (bc_breaker C) (bs_breaker s) = (c, b)" "isCongestioned c"
    and "s' = processBalanceResults sha C rs s"
  shows "\<exists>es. bs_webhooks s' = fold (emit sha) es ((bs_webhooks s)\<lparr>wh_now := clock b\<rparr>) \<and> Recovered r \<in> set es \<and>
    (\<forall>x. Low x \<notin> set es) \<and> previousLowBalanceAccounts s' = []"
proof -
  have "Recovered r \<in> set (balance_alerts True (previousLowBalanceAccounts s) rs)"
    using assms(2,4) by (auto simp: balance_alerts_def low_accounts_def mem_map_filter find_account [OF assms(1)])
  moreover have "Low x \<notin> set (balance_alerts True (previousLowBalanceAccounts s) rs)" for x by (auto simp: balance_alerts_def)
  ultimately show ?thesis
    using processBalanceResults_eq [OF assms(5), of sha rs] assms(6,7)
    by (intro exI [of _ "balance_alerts True (previousLowBalanceAccounts s) rs"]) (simp add: low_accounts_def)
qed

text \<open>no group is monitored. The query asks for groups deleted before 1970 among those that are not deleted, so the accounts that are checked are
those of the issuer, whatever groups there are.\<close>

theorem groups_never_monitored:
  "set (accountsToCheck C s) \<subseteq> {issuerAccount C} \<and>
   accountsToCheck C (s\<lparr>bs_groups := gs\<rparr>) = accountsToCheck C s"
proof -
  have "monitored_groups gs = []" for gs by (auto simp: monitored_groups_def filter_empty_conv)
  then show ?thesis by (auto simp: accountsToCheck_def Let_def)
qed

subsection \<open>The breaker inside the breaker\<close>

text \<open>C39: each account is loaded through the breaker within a call through the breaker. When the circuit is open the monitor never closes it,
even when the network answers: the outer call is admitted as the probe, the inner call is refused because a probe has just begun, and that counts as
a failure of the outer one. The circuit stays open and its time-out starts again.\<close>

theorem monitor_probe_always_fails:
  assumes "is_open (circuit b)" "0 < minHalfOpenProbeIntervalMs (bc_breaker C)"
    and "through_breaker (bc_breaker C) (checkAccountBalance C load a) b = (res, b')"
  shows "\<not> is_ok res \<and> is_open (circuit b') \<and>
    (fst (admit (bc_breaker C) b) = None \<longrightarrow> lastFailureAt (circuit b') = Some (clock b))"
proof -
  let ?C = "bc_breaker C"
  obtain r b1 where admit: "admit ?C b = (r, b1)" by fastforce
  show ?thesis
  proof (cases r)
    case (Some x)
    then have "circuit b1 = circuit b" using admit assms(1) admit_frame [OF admit] by auto
    with Some admit assms(1,3) show ?thesis by (auto simp: through_breaker_def execute_def)
  next
    case None
    with admit_frame [OF admit] assms(1) have b1: "circuit b1 = (circuit b)\<lparr>lastHalfOpenProbeAt := Some (clock b)\<rparr>" "clock b1 = clock b"
      by auto
    obtain r2 b2 where admit2: "admit ?C b1 = (r2, b2)" by fastforce
    have "r2 \<noteq> None"
    proof
      assume "r2 = None"
      with admit_frame [OF admit2] b1 assms(1) have "minHalfOpenProbeIntervalMs ?C \<le> since (Some (clock b)) b1" by simp
      with assms(2) b1(2) show False by (simp add: since_def)
    qed
    then obtain x where x: "r2 = Some x" by blast
    with admit_frame [OF admit2] b1 assms(1) have b2: "circuit b2 = circuit b1" "clock b2 = clock b" by auto
    have "checkAccountBalance C load a b1 = (Inl (ServiceUnavailableException ''Service Unavailable Exception''), b2)"
      using admit2 x by (simp add: checkAccountBalance_def through_breaker_def execute_def)
    then have "res = Inl (ServiceUnavailableException ''Service Unavailable Exception'') \<and>
        b' = onFailure ?C (exn_message (ServiceUnavailableException ''Service Unavailable Exception'')) b2"
      using assms(3) admit None by (simp add: through_breaker_def execute_def)
    then show ?thesis using onFailure_frame [of ?C _ b2] b1 b2 assms(1) by simp
  qed
qed

text \<open>with the circuit closed, one account that cannot be loaded counts as two failures, so the circuit opens after half as many as its threshold says.\<close>

theorem failed_check_counts_twice:
  assumes "\<not> is_open (circuit b)" "load a b = (Inl e, b0)" "circuit b0 = circuit b"
    and "through_breaker (bc_breaker C) (checkAccountBalance C load a) b = (res, b')"
  shows "\<not> is_ok res \<and> failures (circuit b') = failures (circuit b) + 2 \<and>
    is_open (circuit b') = (threshold (bc_breaker C) \<le> failures (circuit b) + 2)"
proof -
  let ?C = "bc_breaker C"
  have "checkAccountBalance C load a b = (Inl e, onFailure ?C (exn_message e) b0)"
    using assms(2) admit_closed [OF assms(1)] by (simp add: checkAccountBalance_def through_breaker_def execute_def)
  then have "res = Inl e" "b' = onFailure ?C (exn_message e) (onFailure ?C (exn_message e) b0)"
    using assms(4) admit_closed [OF assms(1)] by (simp_all add: through_breaker_def execute_def)
  then show ?thesis
    using onFailure_frame [of ?C "exn_message e" b0] onFailure_frame [of ?C "exn_message e" "onFailure ?C (exn_message e) b0"] assms(1,3)
    by auto
qed

subsection \<open>Concrete checks\<close>

definition demo_balance :: balance_config where
  "demo_balance = \<lparr>issuerAccount = ''G1'', minBalanceAlertXlm = Dec 5 0, bc_breaker = demo_breaker\<rparr>"

definition demo_result :: "string \<Rightarrow> bool \<Rightarrow> balance_result" where
  "demo_result a l = \<lparr>br_accountId = a, br_currentBalance = (if l then ''4'' else ''9''), br_minimumRequired = ''5'', br_isLow = l, br_timestamp = 0\<rparr>"

definition demo_balance_state :: "breaker \<Rightarrow> string list \<Rightarrow> balance_state" where
  "demo_balance_state b prev = \<lparr>bs_groups = [], bs_breaker = b, bs_webhooks = demo_webhook, previousLowBalanceAccounts = prev\<rparr>"

text \<open>A window of slow answers without failures.\<close>

definition slow_breaker :: breaker where
  "slow_breaker = (new_breaker 0)\<lparr>congestion := \<lparr>latencyWindow = replicate 20 100000, windowStartTime = 0,
     successfulAttempts = 20, failedAttempts = 0\<rparr>\<rparr>"

lemma demo_congestion:
  "\<not> isCongestioned (fst (read_congestion demo_breaker (new_breaker 0)))" "isCongestioned (fst (read_congestion demo_breaker slow_breaker))"
  by code_simp+

theorem alerts_edge_triggered_witness:
  "\<exists>es. Low (demo_result ''A'' True) \<in> set es \<and> Recovered (demo_result ''B'' False) \<in> set es \<and>
     bs_webhooks (processBalanceResults id demo_balance [demo_result ''A'' True, demo_result ''B'' False] (demo_balance_state (new_breaker 0) [''B'']))
       = fold (emit id) es (demo_webhook\<lparr>wh_now := clock (snd (read_congestion demo_breaker (new_breaker 0)))\<rparr>)"
proof -
  let ?s = "demo_balance_state (new_breaker 0) [''B'']" and ?rs = "[demo_result ''A'' True, demo_result ''B'' False]"
  have "read_congestion (bc_breaker demo_balance) (bs_breaker ?s)
      = (fst (read_congestion demo_breaker (new_breaker 0)), snd (read_congestion demo_breaker (new_breaker 0)))"
    by (simp add: demo_balance_def demo_balance_state_def)
  note read = this
  have rs: "distinct (map br_accountId ?rs)" "distinct (previousLowBalanceAccounts ?s)" "bs_webhooks ?s = demo_webhook"
      "demo_result ''A'' True \<in> set ?rs \<and> br_isLow (demo_result ''A'' True) \<and> br_accountId (demo_result ''A'' True) \<notin> set (previousLowBalanceAccounts ?s)"
      "demo_result ''B'' False \<in> set ?rs \<and> \<not> br_isLow (demo_result ''B'' False) \<and> br_accountId (demo_result ''B'' False) \<in> set (previousLowBalanceAccounts ?s)"
    by (simp_all add: demo_result_def demo_balance_state_def)
  obtain es where es: "bs_webhooks (processBalanceResults id demo_balance ?rs ?s)
        = fold (emit id) es ((bs_webhooks ?s)\<lparr>wh_now := clock (snd (read_congestion demo_breaker (new_breaker 0)))\<rparr>)"
      "\<forall>r. Low r \<in> set es \<longleftrightarrow> r \<in> set ?rs \<and> br_isLow r \<and> br_accountId r \<notin> set (previousLowBalanceAccounts ?s)"
      "\<forall>r. Recovered r \<in> set es \<longleftrightarrow> r \<in> set ?rs \<and> \<not> br_isLow r \<and> br_accountId r \<in> set (previousLowBalanceAccounts ?s)"
    using alerts_edge_triggered [OF rs(1,2) read demo_congestion(1) refl, of id] by blast
  have "Low (demo_result ''A'' True) \<in> set es" using es(2) rs(4) by blast
  moreover have "Recovered (demo_result ''B'' False) \<in> set es" using es(3) rs(5) by blast
  ultimately show ?thesis using es(1) unfolding rs(3) by blast
qed

theorem congestion_reports_recovery_witness:
  "previousLowBalanceAccounts (processBalanceResults id demo_balance [demo_result ''A'' True] (demo_balance_state slow_breaker [''A''])) = []"
proof -
  let ?s = "demo_balance_state slow_breaker [''A'']"
  have "read_congestion (bc_breaker demo_balance) (bs_breaker ?s)
      = (fst (read_congestion demo_breaker slow_breaker), snd (read_congestion demo_breaker slow_breaker))"
    by (simp add: demo_balance_def demo_balance_state_def)
  note read = this
  have "distinct (map br_accountId [demo_result ''A'' True])" "demo_result ''A'' True \<in> set [demo_result ''A'' True]"
      "br_isLow (demo_result ''A'' True)" "br_accountId (demo_result ''A'' True) \<in> set (previousLowBalanceAccounts ?s)"
    by (simp_all add: demo_result_def demo_balance_state_def)
  from congestion_reports_recovery [OF this read demo_congestion(2) refl, of id] show ?thesis by blast
qed

theorem monitor_probe_always_fails_witness:
  "\<not> is_ok (fst (through_breaker demo_breaker (checkAccountBalance demo_balance (\<lambda>a b. (Inr (Some ''9''), b)) ''G1'') (demo_opened\<lparr>clock := 1000000\<rparr>)))"
proof -
  have "is_open (circuit (demo_opened\<lparr>clock := 1000000\<rparr>))" "0 < minHalfOpenProbeIntervalMs (bc_breaker demo_balance)" "bc_breaker demo_balance = demo_breaker"
    by (simp_all add: demo_opened_circuit demo_balance_def demo_breaker_def)
  with monitor_probe_always_fails [OF this(1,2) prod.collapse [symmetric]] show ?thesis by metis
qed

theorem failed_check_counts_twice_witness:
  "failures (circuit (snd (through_breaker demo_breaker (checkAccountBalance demo_balance (\<lambda>a b. (Inl (JsError ''timeout''), b)) ''G1'') (new_breaker 0)))) = 2"
proof -
  have "\<not> is_open (circuit (new_breaker 0))" "failures (circuit (new_breaker 0)) = 0" "bc_breaker demo_balance = demo_breaker"
    by (simp_all add: new_breaker_def closed_circuit_def demo_balance_def)
  with failed_check_counts_twice [OF this(1) _ refl prod.collapse [symmetric], of "\<lambda>a b. (Inl (JsError ''timeout''), b)" "''G1''" "JsError ''timeout''" demo_balance]
  show ?thesis by simp
qed

end
