(* ===== verification/Kyc.thy ===== *)
theory Kyc
  imports Throttle Json "HOL-Library.Sublist"
begin

text \<open>
  Identity verification: \<open>KycService\<close> (\<open>kyc/kyc.service.ts\<close>), the submission to providers
  (\<open>kyc/providers/kyc-provider-orchestrator.service.ts\<close>), the parsers of their callbacks
  (\<open>kyc/providers/*.parser.ts\<close>), the guard in front of the callbacks (\<open>kyc/guards/webhook-hmac.guard.ts\<close>), their processing
  (\<open>kyc/kyc-webhook.service.ts\<close>) and the detector of silent cases
  (\<open>kyc/services/kyc-stuck-case-detector.service.ts\<close>). Arguments are the providers' answers, SHA-256, HMAC-SHA256 (as
  hexadecimal and Base64 text), \<open>JSON.parse\<close>, the virus scanner and the storage of a file, which gives its
  address or fails. Strings are their UTF-8 bytes, in which \<open>timingSafeEqual\<close> measures them.
\<close>


subsection \<open>Rows\<close>

datatype kyc_status = KYC_PENDING | KYC_APPROVED | KYC_REJECTED | KYC_NEEDS_REVIEW

record kyc_user =
  ku_id :: uuid
  ku_email :: "string option"
  ku_kycStatus :: "kyc_status option"

record kyc_document =
  kd_id :: uuid
  kd_userId :: uuid
  kd_url :: string
  kd_mimeType :: string
  kd_fileSize :: nat
  kd_originalName :: string
  kd_uploadedAt :: time
  kd_provider :: "string option"
  kd_providerCaseId :: "string option"
  kd_providerStatus :: "string option"
  kd_status :: kyc_status
  kd_providerPayload :: "json option"
  kd_submittedAt :: "time option"
  kd_lastProviderEventAt :: "time option"
  kd_caseExpiresAt :: "time option"
  kd_stuckFlaggedAt :: "time option"
  kd_documentSetHash :: "string option"

datatype kyc_notice = KycSubmitted | KycDecided kyc_status

record kyc_state =
  ky_now :: time
  ky_ids :: nat
  kyc_users :: "kyc_user list"
  kyc_docs :: "kyc_document list"
  kyc_audit :: "(uuid \<times> string) list"
  kyc_notices :: "(uuid \<times> kyc_notice) list"
  kyc_submissions :: "(string \<times> uuid) list"

type_synonym 'a kyc_io = "kyc_state \<Rightarrow> 'a outcome \<times> kyc_state"

definition find_user :: "uuid \<Rightarrow> kyc_state \<Rightarrow> kyc_user option" where
  "find_user i s = List.find (\<lambda>u. ku_id u = i) (kyc_users s)"

definition save_doc :: "kyc_document \<Rightarrow> kyc_state \<Rightarrow> kyc_state" where
  "save_doc d s = s\<lparr>kyc_docs := save_row kd_id d (kyc_docs s)\<rparr>"

definition set_kyc_status :: "uuid \<Rightarrow> kyc_status \<Rightarrow> kyc_state \<Rightarrow> kyc_state" where
  "set_kyc_status i st s = s\<lparr>kyc_users := update_rows (\<lambda>u. ku_id u = i) (\<lambda>u. u\<lparr>ku_kycStatus := Some st\<rparr>) (kyc_users s)\<rparr>"

definition audit_log :: "uuid \<Rightarrow> string \<Rightarrow> kyc_state \<Rightarrow> kyc_state" where
  "audit_log i action s = s\<lparr>kyc_audit := kyc_audit s @ [(i, action)]\<rparr>"

text \<open>\<open>ORDER BY uploadedAt DESC LIMIT 1\<close>\<close>

definition latest :: "(kyc_document \<Rightarrow> bool) \<Rightarrow> kyc_state \<Rightarrow> kyc_document option" where
  "latest P s = (case sort_key (\<lambda>d. - kd_uploadedAt d) (filter P (kyc_docs s)) of [] \<Rightarrow> None | d # ds \<Rightarrow> Some d)"

subsection \<open>Submission to the providers\<close>

record kyc_config =
  kc_primary :: string
  kc_secondary :: string
  kc_reuseWindowHours :: int
  kc_stuckTimeoutHours :: int
  kc_maxFileSizeBytes :: nat
  kc_clamav :: bool
  kc_webhookSecret :: string

definition known_providers :: "string list" where
  "known_providers = [''persona'', ''jumio'', ''onfido'']"

type_synonym submit_fun = "string \<Rightarrow> uuid \<Rightarrow> string \<Rightarrow> (string \<times> string) outcome"

definition findReusableCase :: "uuid \<Rightarrow> uuid \<Rightarrow> kyc_state \<Rightarrow> kyc_document option" where
  "findReusableCase i exclude s =
     latest (\<lambda>d. kd_userId d = i \<and> kd_id d \<noteq> exclude \<and> kd_providerCaseId d \<noteq> None \<and>
       kd_status d \<in> {KYC_PENDING, KYC_NEEDS_REVIEW} \<and>
       (case kd_caseExpiresAt d of None \<Rightarrow> True | Some t \<Rightarrow> t > ky_now s)) s"

definition reuseCase :: "uuid \<Rightarrow> kyc_document \<Rightarrow> kyc_document \<Rightarrow> kyc_state \<Rightarrow> kyc_document \<times> kyc_state" where
  "reuseCase i d e s =
     (let d' = d\<lparr>kd_provider := kd_provider e, kd_providerCaseId := kd_providerCaseId e, kd_providerStatus := kd_providerStatus e,
                 kd_status := KYC_PENDING, kd_submittedAt := kd_submittedAt e, kd_caseExpiresAt := kd_caseExpiresAt e,
                 kd_lastProviderEventAt := kd_lastProviderEventAt e\<rparr>
      in (d', audit_log i ''KYC_PROVIDER_CASE_REUSED'' (save_doc d' s)))"

text \<open>A provider without a client, or one whose call fails, gives \<open>null\<close>.\<close>

definition trySubmit :: "submit_fun \<Rightarrow> string \<Rightarrow> uuid \<Rightarrow> kyc_document \<Rightarrow> kyc_state \<Rightarrow> (string \<times> string) option \<times> kyc_state" where
  "trySubmit submit p i d s =
     (if p \<notin> set known_providers then (None, s)
      else let s1 = s\<lparr>kyc_submissions := kyc_submissions s @ [(p, kd_id d)]\<rparr> in
        case submit p (kd_id d) (kd_url d) of
          Inr r \<Rightarrow> (Some r, s1)
        | Inl e \<Rightarrow> (None, audit_log i ''KYC_PROVIDER_SUBMIT_FAILED'' s1))"

definition persistSubmission :: "kyc_config \<Rightarrow> kyc_document \<Rightarrow> string \<Rightarrow> string \<times> string \<Rightarrow> string \<Rightarrow> kyc_state \<Rightarrow> kyc_document \<times> kyc_state" where
  "persistSubmission C d p r action s =
     (let d' = d\<lparr>kd_provider := Some p, kd_providerCaseId := Some (fst r), kd_providerStatus := Some (snd r), kd_status := KYC_PENDING,
                 kd_submittedAt := Some (ky_now s), kd_lastProviderEventAt := Some (ky_now s),
                 kd_caseExpiresAt := Some (ky_now s + kc_reuseWindowHours C * 3600000)\<rparr>
      in (d', audit_log (kd_userId d) action (save_doc d' s)))"

definition submitFresh :: "submit_fun \<Rightarrow> kyc_config \<Rightarrow> uuid \<Rightarrow> kyc_document \<Rightarrow> kyc_state \<Rightarrow> kyc_document \<times> kyc_state" where
  "submitFresh submit C i d s =
     (let (r1, s1) = trySubmit submit (kc_primary C) i d s in
      case r1 of
        Some r \<Rightarrow> persistSubmission C d (kc_primary C) r ''KYC_PROVIDER_SUBMITTED'' s1
      | None \<Rightarrow>
          (let (r2, s2) = (if kc_secondary C \<noteq> [] \<and> kc_secondary C \<noteq> kc_primary C
                           then trySubmit submit (kc_secondary C) i d s1 else (None, s1)) in
           case r2 of
             Some r \<Rightarrow> persistSubmission C d (kc_secondary C) r ''KYC_PROVIDER_FAILOVER'' s2
           | None \<Rightarrow>
               (let d' = d\<lparr>kd_status := KYC_NEEDS_REVIEW, kd_lastProviderEventAt := Some (ky_now s2)\<rparr>
                in (d', audit_log i ''KYC_ALL_PROVIDERS_FAILED'' (save_doc d' s2)))))"

definition submitOrReuse :: "(string \<Rightarrow> string) \<Rightarrow> submit_fun \<Rightarrow> kyc_config \<Rightarrow> uuid \<Rightarrow> kyc_document \<Rightarrow> string \<Rightarrow> kyc_state \<Rightarrow> kyc_document \<times> kyc_state" where
  "submitOrReuse sha submit C i d buffer s =
     (let d1 = d\<lparr>kd_documentSetHash := Some (sha buffer)\<rparr> in
      case findReusableCase i (kd_id d1) s of
        Some e \<Rightarrow> reuseCase i d1 e s
      | None \<Rightarrow> submitFresh submit C i d1 s)"

subsection \<open>Upload of a document\<close>

record kyc_file =
  kf_buffer :: string
  kf_size :: nat
  kf_mimetype :: string
  kf_originalname :: string

text \<open>The first bytes of JPEG, PNG and PDF files.\<close>

definition MAGIC_BYTES :: "(string \<times> nat list) list" where
  "MAGIC_BYTES = [(''image/jpeg'', [0xff, 0xd8, 0xff]),
     (''image/png'', [0x89, 0x50, 0x4e, 0x47, 0x0d, 0x0a, 0x1a, 0x0a]), (''application/pdf'', [0x25, 0x50, 0x44, 0x46])]"

definition detectMimeFromBuffer :: "string \<Rightarrow> string option" where
  "detectMimeFromBuffer b = map_option fst
     (List.find (\<lambda>(mime, bs). map (of_char :: char \<Rightarrow> nat) (take (length bs) b) = bs) MAGIC_BYTES)"

datatype scan_result = Clean | Infected | ScannerDown

definition scanForViruses :: "kyc_config \<Rightarrow> scan_result \<Rightarrow> unit outcome" where
  "scanForViruses C scan =
     (if \<not> kc_clamav C then Inr ()
      else case scan of
        Clean \<Rightarrow> Inr ()
      | Infected \<Rightarrow> Inl (UnprocessableEntityException ''File failed virus scan and was rejected.'')
      | ScannerDown \<Rightarrow> Inr ())"

definition validateFile :: "kyc_config \<Rightarrow> kyc_file option \<Rightarrow> scan_result \<Rightarrow> kyc_file outcome" where
  "validateFile C file scan =
     (case file of
        None \<Rightarrow> Inl (BadRequestException ''No file provided'')
      | Some f \<Rightarrow>
          if kf_size f > kc_maxFileSizeBytes C then Inl (PayloadTooLargeException ''File exceeds the limit'')
          else if detectMimeFromBuffer (kf_buffer f) = None
          then Inl (UnsupportedMediaTypeException ''Unsupported file type detected. Allowed: image/jpeg, image/png, application/pdf'')
          else (case scanForViruses C scan of Inl e \<Rightarrow> Inl e | Inr _ \<Rightarrow> Inr f))"

definition uploadDocument :: "(string \<Rightarrow> string) \<Rightarrow> submit_fun \<Rightarrow> kyc_config \<Rightarrow> uuid \<Rightarrow> kyc_file option \<Rightarrow> scan_result \<Rightarrow> string outcome
    \<Rightarrow> kyc_document kyc_io" where
  "uploadDocument sha submit C i file scan stored s =
     (case validateFile C file scan of
        Inl e \<Rightarrow> (Inl e, s)
      | Inr f \<Rightarrow> (case find_user i s of
          None \<Rightarrow> (Inl (NotFoundException ''User not found''), s)
        | Some u \<Rightarrow> (case stored of
            Inl e \<Rightarrow> (Inl e, s)
          | Inr url \<Rightarrow>
            (let d = \<lparr>kd_id = show_nat (ky_ids s), kd_userId = i, kd_url = url, kd_mimeType = kf_mimetype f, kd_fileSize = kf_size f,
                      kd_originalName = kf_originalname f, kd_uploadedAt = ky_now s, kd_provider = None, kd_providerCaseId = None,
                      kd_providerStatus = None, kd_status = KYC_PENDING, kd_providerPayload = None, kd_submittedAt = None,
                      kd_lastProviderEventAt = None, kd_caseExpiresAt = None, kd_stuckFlaggedAt = None, kd_documentSetHash = None\<rparr>;
                 (d', s1) = submitOrReuse sha submit C i d (kf_buffer f) (save_doc d (s\<lparr>ky_ids := ky_ids s + 1\<rparr>));
                 s2 = set_kyc_status i (kd_status d') s1
             in (Inr d', s2\<lparr>kyc_notices := kyc_notices s2 @ [(i, KycSubmitted)]\<rparr>)))))"

definition getLatestDocument :: "uuid \<Rightarrow> kyc_state \<Rightarrow> (kyc_document \<times> kyc_status option) outcome" where
  "getLatestDocument i s =
     (case find_user i s of
        None \<Rightarrow> Inl (NotFoundException ''User not found'')
      | Some u \<Rightarrow> (case latest (\<lambda>d. kd_userId d = i) s of
          None \<Rightarrow> Inl (NotFoundException ''No KYC document found'')
        | Some d \<Rightarrow> Inr (d, ku_kycStatus u)))"

subsection \<open>The parsers of callbacks\<close>

text \<open>A property of a value that is not \<open>null\<close>, \<open>?? {}\<close>, and \<open>String\<close>.\<close>

fun obj_get :: "json \<Rightarrow> string \<Rightarrow> json" where
  "obj_get (JObj kvs) k = (case map_of kvs k of Some v \<Rightarrow> v | None \<Rightarrow> JUndefined)"
| "obj_get _ k = JUndefined"

definition or_else :: "json \<Rightarrow> json \<Rightarrow> json" where
  "or_else v w = (if v = JUndefined \<or> v = JNull then w else v)"

fun js_String :: "json \<Rightarrow> string" where
  "js_String JUndefined = ''undefined''"
| "js_String JNull = ''null''"
| "js_String (JBool b) = (if b then ''true'' else ''false'')"
| "js_String (JNumber n) = n"
| "js_String (JString s) = s"
| "js_String (JArray vs) = join_comma (map (\<lambda>v. if v = JUndefined \<or> v = JNull then [] else js_String v) vs)"
| "js_String (JObj kvs) = ''[object Object]''"

record parsed_webhook =
  pw_userId :: uuid
  pw_providerCaseId :: string
  pw_status :: kyc_status
  pw_raw :: json

text \<open>\<open>STATUS_MAP[k] ?? NEEDS_REVIEW\<close>, for a \<open>k\<close> that is not a name every JavaScript object inherits
  (\<open>constructor\<close>, \<open>__proto__\<close>).\<close>

definition lookup_status :: "(string \<times> kyc_status) list \<Rightarrow> string \<Rightarrow> kyc_status" where
  "lookup_status m k = (case map_of m k of Some st \<Rightarrow> st | None \<Rightarrow> KYC_NEEDS_REVIEW)"

definition persona_status :: "(string \<times> kyc_status) list" where
  "persona_status = [(''approved'', KYC_APPROVED), (''completed'', KYC_APPROVED), (''declined'', KYC_REJECTED), (''failed'', KYC_REJECTED),
     (''needs_review'', KYC_NEEDS_REVIEW), (''created'', KYC_PENDING), (''pending'', KYC_PENDING)]"

definition jumio_status :: "(string \<times> kyc_status) list" where
  "jumio_status = [(''approved_verified'', KYC_APPROVED), (''denied_fraud'', KYC_REJECTED), (''denied_unsupported_id_type'', KYC_REJECTED),
     (''denied_unsupported_id_country'', KYC_REJECTED), (''error_not_readable_id'', KYC_NEEDS_REVIEW), (''no_id_uploaded'', KYC_NEEDS_REVIEW)]"

definition onfido_status :: "(string \<times> kyc_status) list" where
  "onfido_status = [(''clear'', KYC_APPROVED), (''consider'', KYC_NEEDS_REVIEW), (''unidentified'', KYC_NEEDS_REVIEW),
     (''caution'', KYC_NEEDS_REVIEW), (''rejected'', KYC_REJECTED)]"

definition persona_parse :: "json \<Rightarrow> parsed_webhook outcome" where
  "persona_parse body =
     (let d = or_else (obj_get body ''data'') (JObj []); attributes = or_else (obj_get d ''attributes'') (JObj []);
          st = map to_lower (js_String (or_else (obj_get attributes ''status'') (JString [])));
          u = js_String (or_else (obj_get attributes ''reference-id'') (JString []));
          c = js_String (or_else (obj_get d ''id'') (JString []))
      in if body = JNull then Inl (TypeError ''Cannot read properties of null'')
         else if u = [] then Inl (BadRequestException ''Persona payload missing reference-id'')
         else Inr \<lparr>pw_userId = u, pw_providerCaseId = c, pw_status = lookup_status persona_status st, pw_raw = body\<rparr>)"

definition jumio_parse :: "json \<Rightarrow> parsed_webhook outcome" where
  "jumio_parse body =
     (let st = map to_lower (js_String (or_else (obj_get body ''verificationStatus'') (JString [])));
          u = js_String (or_else (obj_get body ''customerId'') (JString []));
          c = js_String (or_else (obj_get body ''jumioIdScanReference'') (JString []))
      in if body = JNull then Inl (TypeError ''Cannot read properties of null'')
         else if u = [] then Inl (BadRequestException ''Jumio payload missing customerId'')
         else Inr \<lparr>pw_userId = u, pw_providerCaseId = c, pw_status = lookup_status jumio_status st, pw_raw = body\<rparr>)"

definition onfido_parse :: "json \<Rightarrow> parsed_webhook outcome" where
  "onfido_parse body =
     (let payload = or_else (obj_get body ''payload'') (JObj []); object = or_else (obj_get payload ''object'') (JObj []);
          st = map to_lower (js_String (or_else (obj_get object ''result'') (or_else (obj_get payload ''action'') (JString []))));
          u = js_String (or_else (obj_get object ''applicant_id'')
                (or_else (if obj_get payload ''resource_type'' = JString ''applicant'' then obj_get object ''id'' else JString []) (JString [])));
          c = js_String (or_else (obj_get object ''id'') (JString []))
      in if body = JNull then Inl (TypeError ''Cannot read properties of null'')
         else if u = [] then Inl (BadRequestException ''Onfido payload missing applicant id'')
         else Inr \<lparr>pw_userId = u, pw_providerCaseId = c, pw_status = lookup_status onfido_status st, pw_raw = body\<rparr>)"

definition createParser :: "string \<Rightarrow> json \<Rightarrow> parsed_webhook outcome" where
  "createParser p = (if p = ''jumio'' then jumio_parse else if p = ''onfido'' then onfido_parse else persona_parse)"

definition getParser :: "kyc_config \<Rightarrow> string option \<Rightarrow> json \<Rightarrow> parsed_webhook outcome" where
  "getParser C p = createParser (case p of Some x \<Rightarrow> x | None \<Rightarrow> kc_primary C)"

subsection \<open>The guard in front of callbacks\<close>

record macs =
  hmac_hex :: "string \<Rightarrow> string \<Rightarrow> string"
  hmac_b64 :: "string \<Rightarrow> string \<Rightarrow> string"

text \<open>\<open>timingSafeEqual\<close> throws for buffers of different lengths.\<close>

definition timingSafeEqual :: "string \<Rightarrow> string \<Rightarrow> bool outcome" where
  "timingSafeEqual a b = (if length a \<noteq> length b then Inl (JsError ''Input buffers must have the same byte length'') else Inr (a = b))"

text \<open>The parts \<open>key=value\<close> of a signature; the value ends at a second \<open>=\<close>, the last part of a key counts.\<close>

definition signature_part :: "string \<Rightarrow> string \<Rightarrow> string option" where
  "signature_part sig k =
     (case List.find (\<lambda>p. hd p = k) (rev (map (split_at (CHR ''='')) (split_at (CHR '','') sig))) of
        Some (k' # v # r) \<Rightarrow> Some v
      | _ \<Rightarrow> None)"

definition persona_valid :: "macs \<Rightarrow> string \<Rightarrow> string \<Rightarrow> string \<Rightarrow> bool outcome" where
  "persona_valid M body sig secret =
     (if \<not> truthy (signature_part sig ''t'') \<or> \<not> truthy (signature_part sig ''v1'') then Inr False
      else timingSafeEqual (the (signature_part sig ''v1''))
             (hmac_hex M secret (the (signature_part sig ''t'') @ CHR ''.'' # body)))"

definition jumio_valid :: "macs \<Rightarrow> string \<Rightarrow> string \<Rightarrow> string \<Rightarrow> bool outcome" where
  "jumio_valid M body sig secret = (case timingSafeEqual sig (hmac_b64 M secret body) of Inr b \<Rightarrow> Inr b | Inl e \<Rightarrow> Inr False)"

definition onfido_valid :: "macs \<Rightarrow> string \<Rightarrow> string \<Rightarrow> string \<Rightarrow> bool outcome" where
  "onfido_valid M body sig secret =
     (let value = (if take 7 sig = ''sha256='' then drop 7 sig else sig)
      in case timingSafeEqual value (hmac_hex M secret body) of Inr b \<Rightarrow> Inr b | Inl e \<Rightarrow> Inr False)"

definition validateSignature :: "macs \<Rightarrow> string \<Rightarrow> string \<Rightarrow> string \<Rightarrow> string \<Rightarrow> bool outcome" where
  "validateSignature M p body sig secret =
     (if p = ''jumio'' then jumio_valid M body sig secret else if p = ''onfido'' then onfido_valid M body sig secret
      else persona_valid M body sig secret)"

record kyc_request =
  kr_body :: "string option"
  kr_headers :: "string \<rightharpoonup> string"

definition HEADER_TO_PROVIDER :: "(string \<times> string) list" where
  "HEADER_TO_PROVIDER = [(''persona-signature'', ''persona''), (''x-jumio-signature'', ''jumio''), (''x-sha2-signature'', ''onfido'')]"

text \<open>The first header of a provider that is present, and the signature: its value, else the generic header's.\<close>

definition detect_header :: "kyc_request \<Rightarrow> (string \<times> string) option" where
  "detect_header r = List.find (\<lambda>(h, p). truthy (kr_headers r h)) HEADER_TO_PROVIDER"

definition signature_of :: "kyc_request \<Rightarrow> string option" where
  "signature_of r = (case detect_header r of
       Some (h, p) \<Rightarrow> kr_headers r h
     | None \<Rightarrow> if truthy (kr_headers r ''x-hub-signature-256'') then kr_headers r ''x-hub-signature-256'' else None)"

text \<open>\<open>canActivate\<close>: the provider of the header (none for the generic one) and the body go on to the handler.\<close>

definition hmac_guard :: "macs \<Rightarrow> kyc_config \<Rightarrow> kyc_request \<Rightarrow> (string option \<times> string) outcome" where
  "hmac_guard M C r =
     (if kc_webhookSecret C = [] then Inl (UnauthorizedException ''Webhook secret not configured'')
      else case kr_body r of
        None \<Rightarrow> Inl (UnauthorizedException ''Cannot verify signature: raw body unavailable'')
      | Some body \<Rightarrow> (case signature_of r of
          None \<Rightarrow> Inl (UnauthorizedException ''Missing webhook signature'')
        | Some sig \<Rightarrow>
            (case validateSignature M (case detect_header r of Some (h, p) \<Rightarrow> p | None \<Rightarrow> kc_primary C) body sig (kc_webhookSecret C) of
               Inl e \<Rightarrow> Inl e
             | Inr valid \<Rightarrow> if \<not> valid then Inl (UnauthorizedException ''Invalid webhook signature'')
                          else Inr (map_option snd (detect_header r), body))))"

subsection \<open>Processing a callback\<close>

definition callback_doc :: "uuid \<Rightarrow> string \<Rightarrow> kyc_state \<Rightarrow> kyc_document option" where
  "callback_doc i c s =
     (case latest (\<lambda>d. kd_userId d = i \<and> kd_providerCaseId d = Some c) s of
        Some d \<Rightarrow> Some d
      | None \<Rightarrow> latest (\<lambda>d. kd_userId d = i) s)"

definition callback_update :: "string \<Rightarrow> json \<Rightarrow> parsed_webhook \<Rightarrow> time \<Rightarrow> kyc_document \<Rightarrow> kyc_document" where
  "callback_update resolved v w t d =
     d\<lparr>kd_status := pw_status w,
       kd_provider := Some (case kd_provider d of Some x \<Rightarrow> x | None \<Rightarrow> resolved),
       kd_providerCaseId := Some (case kd_providerCaseId d of Some x \<Rightarrow> x | None \<Rightarrow> pw_providerCaseId w),
       kd_providerStatus := Some (js_String (or_else (obj_get v ''status'')
          (JString (case kd_providerStatus d of Some x \<Rightarrow> x | None \<Rightarrow> [])))),
       kd_providerPayload := Some v, kd_lastProviderEventAt := Some t, kd_stuckFlaggedAt := None\<rparr>"

definition processWebhook :: "(string \<Rightarrow> json option) \<Rightarrow> kyc_config \<Rightarrow> string \<Rightarrow> string option \<Rightarrow> unit kyc_io" where
  "processWebhook parse_json C body p s =
     (case parse_json body of
        None \<Rightarrow> (Inl (JsError ''Unexpected token in JSON''), s)
      | Some v \<Rightarrow> (case getParser C p v of
          Inl e \<Rightarrow> (Inl e, s)
        | Inr w \<Rightarrow> (case find_user (pw_userId w) s of
            None \<Rightarrow> (Inl (NotFoundException (''User '' @ pw_userId w @ '' not found'')), s)
          | Some u \<Rightarrow> (case callback_doc (pw_userId w) (pw_providerCaseId w) s of
              None \<Rightarrow> (Inl (NotFoundException (''No KYC document found for user '' @ pw_userId w)), s)
            | Some d \<Rightarrow>
                (let d' = callback_update (case p of Some x \<Rightarrow> x | None \<Rightarrow> kc_primary C) v w (ky_now s) d;
                     s1 = audit_log (pw_userId w) ''KYC_STATUS_UPDATED'' (set_kyc_status (pw_userId w) (pw_status w) (save_doc d' s))
                 in (Inr (), if pw_status w \<in> {KYC_APPROVED, KYC_REJECTED} \<and> truthy (ku_email u)
                             then s1\<lparr>kyc_notices := kyc_notices s1 @ [(pw_userId w, KycDecided (pw_status w))]\<rparr> else s1))))))"

definition handleWebhook :: "macs \<Rightarrow> (string \<Rightarrow> json option) \<Rightarrow> kyc_config \<Rightarrow> kyc_request \<Rightarrow> unit kyc_io" where
  "handleWebhook M parse_json C r s =
     (case hmac_guard M C r of
        Inl e \<Rightarrow> (Inl e, s)
      | Inr (p, body) \<Rightarrow> processWebhook parse_json C body p s)"

subsection \<open>Silent cases\<close>

definition reference_time :: "kyc_document \<Rightarrow> time" where
  "reference_time d = (case kd_lastProviderEventAt d of Some t \<Rightarrow> t | None \<Rightarrow> (case kd_submittedAt d of Some t \<Rightarrow> t | None \<Rightarrow> kd_uploadedAt d))"

definition stuck :: "kyc_config \<Rightarrow> kyc_state \<Rightarrow> kyc_document \<Rightarrow> bool" where
  "stuck C s d \<longleftrightarrow> kd_status d = KYC_PENDING \<and> kd_stuckFlaggedAt d = None \<and>
     reference_time d < ky_now s - kc_stuckTimeoutHours C * 3600000"

definition flag_stuck :: "kyc_document \<Rightarrow> kyc_state \<Rightarrow> kyc_state" where
  "flag_stuck d s = audit_log (kd_userId d) ''KYC_STUCK_PENDING_FLAGGED'' (save_doc (d\<lparr>kd_stuckFlaggedAt := Some (ky_now s)\<rparr>) s)"

definition detectAndFlagStuckCases :: "kyc_config \<Rightarrow> kyc_state \<Rightarrow> nat \<times> kyc_state" where
  "detectAndFlagStuckCases C s =
     (let ds = filter (stuck C s) (kyc_docs s) in (length ds, fold flag_stuck ds s))"

subsection \<open>Lemmas\<close>

lemma latest_Some:
  assumes "latest P s = Some d"
  shows "d \<in> set (kyc_docs s) \<and> P d \<and> (\<forall>e \<in> set (kyc_docs s). P e \<longrightarrow> kd_uploadedAt e \<le> kd_uploadedAt d)"
proof -
  obtain ds where ds: "sort_key (\<lambda>d. - kd_uploadedAt d) (filter P (kyc_docs s)) = d # ds"
    using assms by (auto simp: latest_def split: list.splits)
  have set: "set (d # ds) = {e \<in> set (kyc_docs s). P e}" using ds by (metis set_filter set_sort)
  have "sorted (map (\<lambda>d. - kd_uploadedAt d) (d # ds))" using ds sorted_sort_key by metis
  then have "\<forall>e \<in> set (d # ds). - kd_uploadedAt d \<le> - kd_uploadedAt e" by auto
  with set show ?thesis by auto
qed

lemma latest_None: "latest P s = None \<longleftrightarrow> (\<forall>d \<in> set (kyc_docs s). \<not> P d)"
proof -
  have "latest P s = None \<longleftrightarrow> sort_key (\<lambda>d. - kd_uploadedAt d) (filter P (kyc_docs s)) = []"
    by (simp add: latest_def split: list.splits)
  also have "\<dots> \<longleftrightarrow> set (filter P (kyc_docs s)) = {}" by (metis set_empty set_sort)
  finally show ?thesis by auto
qed

lemma latest_docs: "kyc_docs s = kyc_docs t \<Longrightarrow> latest P s = latest P t"
  by (simp add: latest_def)

lemma find_user_users: "kyc_users s = kyc_users t \<Longrightarrow> find_user i s = find_user i t"
  by (simp add: find_user_def)

lemma find_user_id: "find_user i s = Some u \<Longrightarrow> ku_id u = i"
  unfolding find_user_def by (auto simp: find_Some_iff)

lemma find_user_set:
  "find_user j (set_kyc_status i st s) =
     (if j = i then map_option (\<lambda>u. u\<lparr>ku_kycStatus := Some st\<rparr>) (find_user j s) else find_user j s)"
proof -
  have key: "List.find (\<lambda>u. ku_id u = j) (update_rows (\<lambda>u. ku_id u = i) (\<lambda>u. u\<lparr>ku_kycStatus := Some st\<rparr>) us) =
     (if j = i then map_option (\<lambda>u. u\<lparr>ku_kycStatus := Some st\<rparr>) (List.find (\<lambda>u. ku_id u = j) us) else List.find (\<lambda>u. ku_id u = j) us)" for us
    by (induction us) (auto simp: update_rows_def)
  show ?thesis by (simp add: find_user_def set_kyc_status_def key)
qed

lemma step_fields [simp]:
  "kyc_docs (audit_log i a s) = kyc_docs s" "kyc_users (audit_log i a s) = kyc_users s"
  "kyc_submissions (audit_log i a s) = kyc_submissions s" "kyc_notices (audit_log i a s) = kyc_notices s"
  "ky_ids (audit_log i a s) = ky_ids s" "ky_now (audit_log i a s) = ky_now s"
  "kyc_docs (save_doc d s) = save_row kd_id d (kyc_docs s)" "kyc_users (save_doc d s) = kyc_users s"
  "kyc_submissions (save_doc d s) = kyc_submissions s" "kyc_notices (save_doc d s) = kyc_notices s"
  "ky_ids (save_doc d s) = ky_ids s" "ky_now (save_doc d s) = ky_now s"
  "kyc_docs (set_kyc_status i st s) = kyc_docs s" "kyc_submissions (set_kyc_status i st s) = kyc_submissions s"
  "kyc_notices (set_kyc_status i st s) = kyc_notices s" "ky_ids (set_kyc_status i st s) = ky_ids s"
  "ky_now (set_kyc_status i st s) = ky_now s"
  by (simp_all add: audit_log_def save_doc_def set_kyc_status_def)

lemma kyc_audit_fields [simp]:
  "kyc_audit (audit_log i a s) = kyc_audit s @ [(i, a)]" "kyc_audit (save_doc d s) = kyc_audit s"
  "kyc_audit (set_kyc_status i st s) = kyc_audit s"
  by (simp_all add: audit_log_def save_doc_def set_kyc_status_def)

lemma find_user_simps [simp]:
  "find_user i (audit_log j a s) = find_user i s" "find_user i (save_doc d s) = find_user i s"
  by (simp_all add: find_user_def)

subsection \<open>The provider that gets a document\<close>

text \<open>The specification: the providers in the order of preference, the first of them that answers, the ones asked.\<close>

definition answer :: "submit_fun \<Rightarrow> string \<Rightarrow> kyc_document \<Rightarrow> (string \<times> string) option" where
  "answer submit p d = (if p \<notin> set known_providers then None
     else case submit p (kd_id d) (kd_url d) of Inr r \<Rightarrow> Some r | Inl e \<Rightarrow> None)"

definition preference :: "kyc_config \<Rightarrow> string list" where
  "preference C = kc_primary C # (if kc_secondary C \<noteq> [] \<and> kc_secondary C \<noteq> kc_primary C then [kc_secondary C] else [])"

definition chosen :: "submit_fun \<Rightarrow> kyc_config \<Rightarrow> kyc_document \<Rightarrow> string option" where
  "chosen submit C d = List.find (\<lambda>p. answer submit p d \<noteq> None) (preference C)"

definition asked :: "submit_fun \<Rightarrow> kyc_config \<Rightarrow> kyc_document \<Rightarrow> string list" where
  "asked submit C d = filter (\<lambda>p. p \<in> set known_providers)
     (case chosen submit C d of None \<Rightarrow> preference C | Some p \<Rightarrow> takeWhile (\<lambda>q. q \<noteq> p) (preference C) @ [p])"

definition submitted_doc :: "submit_fun \<Rightarrow> kyc_config \<Rightarrow> time \<Rightarrow> kyc_document \<Rightarrow> kyc_document" where
  "submitted_doc submit C t d =
     (case chosen submit C d of
        Some p \<Rightarrow> d\<lparr>kd_provider := Some p, kd_providerCaseId := map_option fst (answer submit p d),
                    kd_providerStatus := map_option snd (answer submit p d), kd_status := KYC_PENDING, kd_submittedAt := Some t,
                    kd_lastProviderEventAt := Some t, kd_caseExpiresAt := Some (t + kc_reuseWindowHours C * 3600000)\<rparr>
      | None \<Rightarrow> d\<lparr>kd_status := KYC_NEEDS_REVIEW, kd_lastProviderEventAt := Some t\<rparr>)"

lemma trySubmit_answer:
  assumes "trySubmit submit p i d s = (r, t)"
  shows "r = answer submit p d" "kyc_docs t = kyc_docs s" "kyc_users t = kyc_users s" "kyc_notices t = kyc_notices s"
    "ky_ids t = ky_ids s" "ky_now t = ky_now s"
    "kyc_submissions t = kyc_submissions s @ (if p \<in> set known_providers then [(p, kd_id d)] else [])"
  using assms by (auto simp: trySubmit_def answer_def Let_def split: if_splits sum.splits)

lemma submitFresh_spec:
  assumes "submitFresh submit C i d s = (d', t)"
  shows "d' = submitted_doc submit C (ky_now s) d \<and> kyc_docs t = save_row kd_id d' (kyc_docs s) \<and>
    kyc_submissions t = kyc_submissions s @ map (\<lambda>p. (p, kd_id d)) (asked submit C d) \<and>
    kyc_users t = kyc_users s \<and> kyc_notices t = kyc_notices s \<and> ky_ids t = ky_ids s \<and> ky_now t = ky_now s"
proof -
  obtain r1 s1 where 1: "trySubmit submit (kc_primary C) i d s = (r1, s1)" by (meson surj_pair)
  note f1 = trySubmit_answer [OF 1]
  obtain r2 s2 where 2: "trySubmit submit (kc_secondary C) i d s1 = (r2, s2)" by (meson surj_pair)
  note f2 = trySubmit_answer [OF 2]
  have known: "answer submit p d = Some x \<Longrightarrow> p \<in> set known_providers" for p x
    by (simp add: answer_def split: if_splits)
  show ?thesis
  proof (cases "answer submit (kc_primary C) d")
    case (Some r)
    then have "chosen submit C d = Some (kc_primary C)" by (simp add: chosen_def preference_def)
    moreover have "asked submit C d = [kc_primary C]"
      using calculation known [OF Some] by (simp add: asked_def preference_def)
    ultimately show ?thesis
      using assms 1 f1 Some known [OF Some]
      by (auto simp: submitFresh_def persistSubmission_def submitted_doc_def Let_def)
  next
    case None
    show ?thesis
    proof (cases "kc_secondary C \<noteq> [] \<and> kc_secondary C \<noteq> kc_primary C")
      case True
      show ?thesis
      proof (cases "answer submit (kc_secondary C) d")
        case (Some r)
        then have "chosen submit C d = Some (kc_secondary C)" using None True by (simp add: chosen_def preference_def)
        moreover have "asked submit C d = filter (\<lambda>p. p \<in> set known_providers) [kc_primary C] @ [kc_secondary C]"
          using calculation known [OF Some] True by (auto simp: asked_def preference_def)
        ultimately show ?thesis
          using assms 1 2 f1 f2 Some None True known [OF Some]
          by (auto simp: submitFresh_def persistSubmission_def submitted_doc_def Let_def)
      next
        case n: None
        then have "chosen submit C d = None" using None True by (simp add: chosen_def preference_def)
        moreover have "asked submit C d = filter (\<lambda>p. p \<in> set known_providers) [kc_primary C, kc_secondary C]"
          using calculation True by (simp add: asked_def preference_def)
        ultimately show ?thesis
          using assms 1 2 f1 f2 n None True by (auto simp: submitFresh_def submitted_doc_def Let_def)
      qed
    next
      case False
      then have "chosen submit C d = None" using None by (auto simp: chosen_def preference_def)
      moreover have "asked submit C d = filter (\<lambda>p. p \<in> set known_providers) [kc_primary C]"
        using calculation False by (auto simp: asked_def preference_def)
      ultimately show ?thesis
        using assms 1 f1 None False by (auto simp: submitFresh_def submitted_doc_def Let_def)
    qed
  qed
qed

subsection \<open>Well-formed documents\<close>

text \<open>The ids of documents are distinct and were given out.\<close>

definition kyc_wf :: "kyc_state \<Rightarrow> bool" where
  "kyc_wf s \<longleftrightarrow> distinct (map kd_id (kyc_docs s)) \<and> kd_id ` set (kyc_docs s) \<subseteq> show_nat ` {..<ky_ids s}"

lemma kyc_wf_save:
  assumes "kyc_wf s" "kyc_docs t = save_row kd_id d (kyc_docs s)" "ky_ids t = ky_ids s" "kd_id d \<in> kd_id ` set (kyc_docs s)"
  shows "kyc_wf t"
  using assms unfolding kyc_wf_def by (auto simp: distinct_save_row image_key_save_row)

lemma kyc_wf_cong: "kyc_docs t = kyc_docs s \<Longrightarrow> ky_ids t = ky_ids s \<Longrightarrow> kyc_wf s \<Longrightarrow> kyc_wf t"
  by (simp add: kyc_wf_def)

lemma kyc_wf_fresh: "kyc_wf s \<Longrightarrow> show_nat (ky_ids s) \<notin> kd_id ` set (kyc_docs s)"
proof
  assume wf: "kyc_wf s" and "show_nat (ky_ids s) \<in> kd_id ` set (kyc_docs s)"
  then obtain n where "n < ky_ids s" "show_nat (ky_ids s) = show_nat n" unfolding kyc_wf_def by blast
  then show False by (metis nat_neq_iff read_show_nat)
qed

lemma kyc_wf_create:
  assumes "kyc_wf s" "kd_id d = show_nat (ky_ids s)"
  shows "kyc_wf (save_doc d (s\<lparr>ky_ids := ky_ids s + 1\<rparr>))"
proof -
  have "distinct (map kd_id (save_row kd_id d (kyc_docs s)))"
    using assms(1) by (simp add: kyc_wf_def distinct_save_row)
  moreover have "kd_id ` set (save_row kd_id d (kyc_docs s)) \<subseteq> show_nat ` {..<Suc (ky_ids s)}"
    using assms unfolding kyc_wf_def image_key_save_row lessThan_Suc by blast
  ultimately show ?thesis unfolding kyc_wf_def by simp
qed

lemma submitOrReuse_saves:
  assumes "submitOrReuse sha submit C i d b s = (d', t)"
  shows "kyc_docs t = save_row kd_id d' (kyc_docs s) \<and> kd_id d' = kd_id d \<and> kd_userId d' = kd_userId d \<and> kd_url d' = kd_url d \<and>
    kd_mimeType d' = kd_mimeType d \<and> kd_documentSetHash d' = Some (sha b) \<and> ky_ids t = ky_ids s \<and>
    kyc_users t = kyc_users s \<and> kyc_notices t = kyc_notices s \<and> ky_now t = ky_now s"
proof (cases "findReusableCase i (kd_id d) s")
  case None
  then have "submitFresh submit C i (d\<lparr>kd_documentSetHash := Some (sha b)\<rparr>) s = (d', t)"
    using assms by (simp add: submitOrReuse_def)
  from submitFresh_spec [OF this] show ?thesis by (auto simp: submitted_doc_def split: option.splits)
next
  case (Some e)
  then show ?thesis using assms by (auto simp: submitOrReuse_def reuseCase_def Let_def)
qed

interpretation kyc_store: row_store kd_id kyc_docs "\<lambda>t s. s\<lparr>kyc_docs := t\<rparr>"
  by unfold_locales simp_all

lemma save_doc_twice: "kd_id e = kd_id d \<Longrightarrow> save_row kd_id e (save_row kd_id d (kyc_docs s)) = save_row kd_id e (kyc_docs s)"
  using arg_cong [OF kyc_store.save_twice [of e d s], of kyc_docs] by simp

lemma uploadDocument_accepts:
  assumes "uploadDocument sha submit C i file scan stored s = (Inr d, t)" "kyc_wf s"
  shows "\<exists>f u. file = Some f \<and> validateFile C file scan = Inr f \<and> find_user i s = Some u \<and> stored = Inr (kd_url d) \<and>
    kd_mimeType d = kf_mimetype f \<and> kd_documentSetHash d = Some (sha (kf_buffer f)) \<and> kyc_docs t = kyc_docs s @ [d] \<and> kd_id d = show_nat (ky_ids s) \<and> kd_userId d = i \<and> ky_ids t = ky_ids s + 1 \<and>
    find_user i t = Some (u\<lparr>ku_kycStatus := Some (kd_status d)\<rparr>) \<and> (\<forall>j. j \<noteq> i \<longrightarrow> find_user j t = find_user j s)"
proof -
  obtain f where f: "validateFile C file scan = Inr f"
    using assms(1) by (auto simp: uploadDocument_def split: sum.splits)
  then have given: "file = Some f" by (auto simp: validateFile_def split: option.splits if_splits sum.splits)
  obtain u where u: "find_user i s = Some u"
    using assms(1) f by (auto simp: uploadDocument_def split: option.splits)
  obtain url where url: "stored = Inr url"
    using assms(1) f u by (auto simp: uploadDocument_def split: sum.splits)
  obtain d0 s0 where d0: "kd_id d0 = show_nat (ky_ids s)" "kd_userId d0 = i" "kd_url d0 = url" "kd_mimeType d0 = kf_mimetype f"
    and s0: "s0 = save_doc d0 (s\<lparr>ky_ids := ky_ids s + 1\<rparr>)"
    and up: "uploadDocument sha submit C i file scan stored s =
      (let (d', s1) = submitOrReuse sha submit C i d0 (kf_buffer f) s0; s2 = set_kyc_status i (kd_status d') s1
       in (Inr d', s2\<lparr>kyc_notices := kyc_notices s2 @ [(i, KycSubmitted)]\<rparr>))"
    unfolding uploadDocument_def f u url sum.case option.case Let_def by (blast intro: kyc_document.select_convs)
  obtain d' s1 where sub: "submitOrReuse sha submit C i d0 (kf_buffer f) s0 = (d', s1)" by (meson surj_pair)
  note fr = submitOrReuse_saves [OF sub]
  have dt: "d = d'" "t = (set_kyc_status i (kd_status d') s1)\<lparr>kyc_notices := kyc_notices s1 @ [(i, KycSubmitted)]\<rparr>"
    using assms(1) unfolding up sub by (auto simp: Let_def)
  have "kyc_docs s1 = save_row kd_id d' (save_row kd_id d0 (kyc_docs s))" using fr s0 by simp
  also have "\<dots> = save_row kd_id d' (kyc_docs s)" using fr by (simp add: save_doc_twice)
  also have "\<dots> = kyc_docs s @ [d']" using kyc_wf_fresh [OF assms(2)] fr d0 by (simp add: save_row_def)
  finally have docs: "kyc_docs t = kyc_docs s @ [d]" using dt by simp
  have fu: "find_user j t = find_user j (set_kyc_status i (kd_status d') s)" for j
    unfolding dt by (rule find_user_users) (use fr s0 in \<open>simp add: set_kyc_status_def\<close>)
  show ?thesis
    using f given u url d0 docs fr dt s0 fu by (simp add: find_user_set)
qed

lemma uploadDocument_refused: "uploadDocument sha submit C i file scan stored s = (Inl e, t) \<Longrightarrow> t = s"
  by (auto simp: uploadDocument_def Let_def split: sum.splits option.splits prod.splits)

lemma processWebhook_refused: "processWebhook J C body p s = (Inl e, t) \<Longrightarrow> t = s"
  by (auto simp: processWebhook_def Let_def split: sum.splits option.splits)

lemma processWebhook_accepts:
  assumes "processWebhook J C body p s = (Inr (), t)"
  shows "\<exists>v w u d. J body = Some v \<and> getParser C p v = Inr w \<and> find_user (pw_userId w) s = Some u \<and>
    callback_doc (pw_userId w) (pw_providerCaseId w) s = Some d \<and>
    kyc_docs t = save_row kd_id (callback_update (case p of Some x \<Rightarrow> x | None \<Rightarrow> kc_primary C) v w (ky_now s) d) (kyc_docs s) \<and>
    kyc_users t = kyc_users (set_kyc_status (pw_userId w) (pw_status w) s) \<and> ky_ids t = ky_ids s \<and> ky_now t = ky_now s \<and>
    kyc_submissions t = kyc_submissions s \<and>
    kyc_notices t = kyc_notices s @ (if pw_status w \<in> {KYC_APPROVED, KYC_REJECTED} \<and> truthy (ku_email u)
                                     then [(pw_userId w, KycDecided (pw_status w))] else [])"
proof -
  obtain v where v: "J body = Some v" using assms by (auto simp: processWebhook_def split: option.splits)
  obtain w where w: "getParser C p v = Inr w" using assms v by (auto simp: processWebhook_def split: sum.splits)
  obtain u where u: "find_user (pw_userId w) s = Some u"
    using assms v w by (auto simp: processWebhook_def split: option.splits)
  obtain d where d: "callback_doc (pw_userId w) (pw_providerCaseId w) s = Some d"
    using assms v w u by (auto simp: processWebhook_def split: option.splits)
  have "t = (let s1 = audit_log (pw_userId w) ''KYC_STATUS_UPDATED'' (set_kyc_status (pw_userId w) (pw_status w)
              (save_doc (callback_update (case p of Some x \<Rightarrow> x | None \<Rightarrow> kc_primary C) v w (ky_now s) d) s))
     in if pw_status w \<in> {KYC_APPROVED, KYC_REJECTED} \<and> truthy (ku_email u)
        then s1\<lparr>kyc_notices := kyc_notices s1 @ [(pw_userId w, KycDecided (pw_status w))]\<rparr> else s1)"
    using assms unfolding processWebhook_def v w u d option.case sum.case Let_def by simp
  then show ?thesis using v w u d by (auto simp: Let_def set_kyc_status_def audit_log_def save_doc_def)
qed

subsection \<open>A provider's callback\<close>

text \<open>The signature a request carries, and what it has to be for a body.\<close>

definition presented :: "kyc_request \<Rightarrow> string set" where
  "presented r = ran (kr_headers r)"

definition authentic :: "macs \<Rightarrow> string \<Rightarrow> string \<Rightarrow> string \<Rightarrow> bool" where
  "authentic M secret body sig \<longleftrightarrow> sig = hmac_b64 M secret body \<or> sig = hmac_hex M secret body \<or> sig = ''sha256='' @ hmac_hex M secret body \<or>
     (\<exists>t. signature_part sig ''t'' = Some t \<and> t \<noteq> [] \<and> signature_part sig ''v1'' = Some (hmac_hex M secret (t @ CHR ''.'' # body)))"

lemma timingSafeEqual_True: "timingSafeEqual a b = Inr True \<longleftrightarrow> a = b"
  by (auto simp: timingSafeEqual_def)

lemma validateSignature_authentic:
  assumes "validateSignature M p body sig secret = Inr True"
  shows "authentic M secret body sig"
proof -
  consider "jumio_valid M body sig secret = Inr True" | "onfido_valid M body sig secret = Inr True"
    | "persona_valid M body sig secret = Inr True"
    using assms by (auto simp: validateSignature_def split: if_splits)
  then show ?thesis
  proof cases
    case 1
    then have "timingSafeEqual sig (hmac_b64 M secret body) = Inr True" by (auto simp: jumio_valid_def split: sum.splits)
    then show ?thesis by (simp add: timingSafeEqual_True authentic_def)
  next
    case 2
    show ?thesis
    proof (cases "take 7 sig = ''sha256=''")
      case True
      then have "drop 7 sig = hmac_hex M secret body"
        using 2 by (auto simp: onfido_valid_def timingSafeEqual_def split: sum.splits if_splits)
      then show ?thesis using True append_take_drop_id [of 7 sig] by (auto simp: authentic_def)
    next
      case False
      then show ?thesis
        using 2 by (auto simp: onfido_valid_def timingSafeEqual_def authentic_def split: sum.splits if_splits)
    qed
  next
    case 3
    then show ?thesis
      by (auto simp: persona_valid_def timingSafeEqual_True authentic_def truthy_def split: if_splits option.splits)
  qed
qed

lemma signature_of_presented: "signature_of r = Some sig \<Longrightarrow> sig \<in> presented r \<and> sig \<noteq> []"
  using find_Some_mem [of "\<lambda>(h, p). truthy (kr_headers r h)" HEADER_TO_PROVIDER]
  by (auto simp: signature_of_def detect_header_def presented_def ran_def truthy_def split: option.splits if_splits)

lemma hmac_guard_passes:
  assumes "hmac_guard M C r = Inr (p, body)"
  shows "kr_body r = Some body \<and> kc_webhookSecret C \<noteq> [] \<and> (\<exists>sig \<in> presented r. sig \<noteq> [] \<and> authentic M (kc_webhookSecret C) body sig)"
proof -
  obtain sig where "signature_of r = Some sig" "kr_body r = Some body" "kc_webhookSecret C \<noteq> []"
    "validateSignature M (case detect_header r of Some (h, p) \<Rightarrow> p | None \<Rightarrow> kc_primary C) body sig (kc_webhookSecret C) = Inr True"
    using assms unfolding hmac_guard_def by (auto split: option.splits if_splits sum.splits)
  then show ?thesis using signature_of_presented [of r sig] validateSignature_authentic by blast
qed

lemma handleWebhook_accepts:
  assumes "handleWebhook M J C r s = (Inr (), t)"
  obtains p body where "hmac_guard M C r = Inr (p, body)" "processWebhook J C body p s = (Inr (), t)"
  using assms by (auto simp: handleWebhook_def split: sum.splits)

lemma handleWebhook_refused: "handleWebhook M J C r s = (Inl e, t) \<Longrightarrow> t = s"
  by (auto simp: handleWebhook_def split: sum.splits dest: processWebhook_refused)

lemma callback_doc_owner:
  assumes "callback_doc i c s = Some d"
  shows "d \<in> set (kyc_docs s) \<and> kd_userId d = i"
  using assms unfolding callback_doc_def by (auto split: option.splits dest!: latest_Some)

lemma callback_doc_exists: "callback_doc i c s \<noteq> None \<longleftrightarrow> (\<exists>d \<in> set (kyc_docs s). kd_userId d = i)"
proof
  assume "callback_doc i c s \<noteq> None"
  then show "\<exists>d \<in> set (kyc_docs s). kd_userId d = i" using callback_doc_owner by blast
next
  assume ex: "\<exists>d \<in> set (kyc_docs s). kd_userId d = i"
  then have "latest (\<lambda>d. kd_userId d = i) s \<noteq> None" by (simp add: latest_None)
  then show "callback_doc i c s \<noteq> None" by (auto simp: callback_doc_def split: option.splits)
qed

text \<open>
  Only a provider moves a case. A callback that is refused changes nothing; one that is accepted
  carries, in one of its headers, a signature that one of the three schemes accepts for its body
  under the configured secret.
\<close>

theorem kyc_webhook_authentic:
  "(\<forall>e. fst (handleWebhook M J C r s) = Inl e \<longrightarrow> snd (handleWebhook M J C r s) = s) \<and>
   (fst (handleWebhook M J C r s) = Inr () \<longrightarrow>
     (\<exists>body sig. kr_body r = Some body \<and> kc_webhookSecret C \<noteq> [] \<and> sig \<in> presented r \<and> sig \<noteq> [] \<and>
       authentic M (kc_webhookSecret C) body sig))"
proof (intro conjI allI impI)
  fix e assume "fst (handleWebhook M J C r s) = Inl e"
  then show "snd (handleWebhook M J C r s) = s" by (metis handleWebhook_refused prod.collapse)
next
  assume "fst (handleWebhook M J C r s) = Inr ()"
  then obtain p body where "hmac_guard M C r = Inr (p, body)" by (metis handleWebhook_accepts prod.collapse)
  from hmac_guard_passes [OF this]
  show "\<exists>body sig. kr_body r = Some body \<and> kc_webhookSecret C \<noteq> [] \<and> sig \<in> presented r \<and> sig \<noteq> [] \<and>
      authentic M (kc_webhookSecret C) body sig" by blast
qed

lemma processWebhook_user:
  assumes "processWebhook J C body p s = (Inr (), t)" "J body = Some v" "getParser C p v = Inr w"
  shows "\<exists>u. find_user (pw_userId w) s = Some u \<and> find_user (pw_userId w) t = Some (u\<lparr>ku_kycStatus := Some (pw_status w)\<rparr>) \<and>
    (\<forall>j. j \<noteq> pw_userId w \<longrightarrow> find_user j t = find_user j s)"
proof -
  from processWebhook_accepts [OF assms(1)] assms(2,3) obtain u
    where u: "find_user (pw_userId w) s = Some u" "kyc_users t = kyc_users (set_kyc_status (pw_userId w) (pw_status w) s)"
    by auto
  have "find_user j t = find_user j (set_kyc_status (pw_userId w) (pw_status w) s)" for j
    by (rule find_user_users) (rule u(2))
  with u(1) show ?thesis by (simp add: find_user_set)
qed

text \<open>
  A callback can be replayed. The signature covers no time that is checked and no number that is used
  up: a request that was accepted once is accepted in every later state in which the user still has
  a document, and sets the user's status again to what it was then.
\<close>

theorem kyc_callback_replays:
  assumes "handleWebhook M J C r s0 = (Inr (), t0)"
  shows "\<exists>i st. (\<exists>u. find_user i t0 = Some u \<and> ku_kycStatus u = Some st) \<and>
    (\<forall>s. find_user i s \<noteq> None \<and> (\<exists>d \<in> set (kyc_docs s). kd_userId d = i) \<longrightarrow>
      (\<exists>t u. handleWebhook M J C r s = (Inr (), t) \<and> find_user i t = Some u \<and> ku_kycStatus u = Some st))"
proof -
  obtain p body where g: "hmac_guard M C r = Inr (p, body)" and pw: "processWebhook J C body p s0 = (Inr (), t0)"
    using assms by (rule handleWebhook_accepts)
  obtain v w where v: "J body = Some v" "getParser C p v = Inr w" using processWebhook_accepts [OF pw] by blast
  have again: "\<exists>t u. handleWebhook M J C r s = (Inr (), t) \<and> find_user (pw_userId w) t = Some u \<and> ku_kycStatus u = Some (pw_status w)"
    if ex: "find_user (pw_userId w) s \<noteq> None" "\<exists>d \<in> set (kyc_docs s). kd_userId d = pw_userId w" for s
  proof -
    obtain u where u: "find_user (pw_userId w) s = Some u" using ex(1) by blast
    obtain d where d: "callback_doc (pw_userId w) (pw_providerCaseId w) s = Some d" using ex(2) callback_doc_exists by blast
    obtain t where t: "processWebhook J C body p s = (Inr (), t)"
      by (simp add: processWebhook_def v u d Let_def)
    have "handleWebhook M J C r s = (Inr (), t)" by (simp add: handleWebhook_def g t)
    with processWebhook_user [OF t v] show ?thesis by auto
  qed
  have now: "\<exists>u. find_user (pw_userId w) t0 = Some u \<and> ku_kycStatus u = Some (pw_status w)"
    using processWebhook_user [OF pw v] by auto
  show ?thesis
    by (rule exI [of _ "pw_userId w"], rule exI [of _ "pw_status w"], rule conjI [OF now], intro allI impI, rule again) blast+
qed

subsection \<open>Histories of identity verification\<close>

datatype kyc_op =
    Upload uuid "kyc_file option" scan_result "string outcome"
  | Callback kyc_request
  | DetectStuck
  | Later nat

record kyc_env =
  ke_config :: kyc_config
  ke_sha :: "string \<Rightarrow> string"
  ke_submit :: submit_fun
  ke_macs :: macs
  ke_json :: "string \<Rightarrow> json option"

definition kyc_exec :: "kyc_env \<Rightarrow> kyc_op \<Rightarrow> kyc_state \<Rightarrow> kyc_state" where
  "kyc_exec E op s = (case op of
       Upload i file scan stored \<Rightarrow> snd (uploadDocument (ke_sha E) (ke_submit E) (ke_config E) i file scan stored s)
     | Callback r \<Rightarrow> snd (handleWebhook (ke_macs E) (ke_json E) (ke_config E) r s)
     | DetectStuck \<Rightarrow> snd (detectAndFlagStuckCases (ke_config E) s)
     | Later n \<Rightarrow> s\<lparr>ky_now := ky_now s + int n\<rparr>)"

lemma flag_stuck_fields [simp]:
  "ky_now (flag_stuck d s) = ky_now s" "ky_ids (flag_stuck d s) = ky_ids s" "kyc_users (flag_stuck d s) = kyc_users s"
  "kyc_docs (flag_stuck d s) = save_row kd_id (d\<lparr>kd_stuckFlaggedAt := Some (ky_now s)\<rparr>) (kyc_docs s)"
  by (simp_all add: flag_stuck_def)

lemma fold_flag_stuck_frame:
  "ky_now (fold flag_stuck ds s) = ky_now s \<and> ky_ids (fold flag_stuck ds s) = ky_ids s \<and> kyc_users (fold flag_stuck ds s) = kyc_users s"
  by (induction ds arbitrary: s) simp_all

lemma fold_flag_stuck_docs:
  assumes "distinct (map kd_id (kyc_docs s))" "distinct ds" "set ds \<subseteq> set (kyc_docs s)"
  shows "kyc_docs (fold flag_stuck ds s) =
    map (\<lambda>d. if d \<in> set ds then d\<lparr>kd_stuckFlaggedAt := Some (ky_now s)\<rparr> else d) (kyc_docs s)"
  using assms
proof (induction ds arbitrary: s rule: rev_induct)
  case (snoc d ds)
  let ?f = "\<lambda>d. d\<lparr>kd_stuckFlaggedAt := Some (ky_now s)\<rparr>"
  have IH: "kyc_docs (fold flag_stuck ds s) = map (\<lambda>d. if d \<in> set ds then ?f d else d) (kyc_docs s)"
    using snoc by simp
  have inj: "kd_id x = kd_id d \<Longrightarrow> x \<in> set (kyc_docs s) \<Longrightarrow> x = d" for x
    using snoc.prems by (simp add: distinct_map inj_on_def)
  have mem: "kd_id (?f d) \<in> kd_id ` set (kyc_docs (fold flag_stuck ds s))"
    using snoc.prems by (auto simp: IH image_image if_distrib [of kd_id] cong: if_cong)
  have "kyc_docs (fold flag_stuck (ds @ [d]) s) =
      map (\<lambda>x. if kd_id x = kd_id d then ?f d else x) (map (\<lambda>d. if d \<in> set ds then ?f d else d) (kyc_docs s))"
    using mem by (simp add: fold_flag_stuck_frame save_row_def IH)
  also have "\<dots> = map (\<lambda>x. if x \<in> set (ds @ [d]) then ?f x else x) (kyc_docs s)"
    using inj snoc.prems(2) by auto
  finally show ?case .
qed simp

lemma detect_docs:
  assumes "distinct (map kd_id (kyc_docs s))" "detectAndFlagStuckCases C s = (n, t)"
  shows "kyc_docs t = map (\<lambda>d. if stuck C s d then d\<lparr>kd_stuckFlaggedAt := Some (ky_now s)\<rparr> else d) (kyc_docs s) \<and>
    n = length (filter (stuck C s) (kyc_docs s)) \<and> ky_now t = ky_now s \<and> ky_ids t = ky_ids s \<and> kyc_users t = kyc_users s"
proof -
  have "distinct (filter (stuck C s) (kyc_docs s))" using assms(1) by (simp add: distinct_map)
  then have "kyc_docs t = map (\<lambda>d. if d \<in> set (filter (stuck C s) (kyc_docs s)) then d\<lparr>kd_stuckFlaggedAt := Some (ky_now s)\<rparr> else d) (kyc_docs s)"
    using fold_flag_stuck_docs [OF assms(1), of "filter (stuck C s) (kyc_docs s)"] assms(2)
    by (auto simp: detectAndFlagStuckCases_def Let_def)
  then show ?thesis using assms(2) by (auto simp: detectAndFlagStuckCases_def Let_def fold_flag_stuck_frame)
qed

lemma detect_users: "detectAndFlagStuckCases C s = (n, t) \<Longrightarrow> kyc_users t = kyc_users s"
  by (auto simp: detectAndFlagStuckCases_def Let_def fold_flag_stuck_frame)

lemma kyc_wf_upload:
  assumes "kyc_wf s" "uploadDocument sha submit C i file scan stored s = (res, t)"
  shows "kyc_wf t"
proof (cases res)
  case (Inl e)
  then show ?thesis using uploadDocument_refused assms by metis
next
  case (Inr d)
  with uploadDocument_accepts [of sha submit C i "file" scan stored s d t] assms
  have "kyc_docs t = kyc_docs s @ [d]" "kd_id d = show_nat (ky_ids s)" "ky_ids t = ky_ids s + 1" by blast+
  moreover note kyc_wf_fresh [OF assms(1)]
  ultimately show ?thesis using assms(1) unfolding kyc_wf_def by (auto simp del: show_nat_small show_nat_big)
qed

lemma kyc_wf_handle:
  assumes "kyc_wf s" "handleWebhook M J C r s = (res, t)"
  shows "kyc_wf t"
proof (cases res)
  case (Inl e)
  then show ?thesis using handleWebhook_refused assms by metis
next
  case (Inr x)
  then obtain p body where "processWebhook J C body p s = (Inr (), t)" using handleWebhook_accepts assms(2) by (metis old.unit.exhaust)
  from processWebhook_accepts [OF this] obtain d d' i c
    where d: "callback_doc i c s = Some d" "kyc_docs t = save_row kd_id d' (kyc_docs s)" "kd_id d' = kd_id d" "ky_ids t = ky_ids s"
    by (auto simp: callback_update_def)
  then show ?thesis using kyc_wf_save [OF assms(1), of t d'] callback_doc_owner by fastforce
qed

lemma kyc_wf_exec: "kyc_wf s \<Longrightarrow> kyc_wf (kyc_exec E op s)"
proof (cases op)
  case (Upload i f scan stored)
  then show "kyc_wf s \<Longrightarrow> kyc_wf (kyc_exec E op s)" unfolding kyc_exec_def by (auto intro: kyc_wf_upload surjective_pairing)
next
  case (Callback r)
  then show "kyc_wf s \<Longrightarrow> kyc_wf (kyc_exec E op s)" unfolding kyc_exec_def by (auto intro: kyc_wf_handle surjective_pairing)
next
  case DetectStuck
  assume wf: "kyc_wf s"
  then have "distinct (map kd_id (kyc_docs s))" by (simp add: kyc_wf_def)
  from detect_docs [OF this surjective_pairing]
  have "map kd_id (kyc_docs (kyc_exec E op s)) = map kd_id (kyc_docs s)" "ky_ids (kyc_exec E op s) = ky_ids s"
    by (auto simp: kyc_exec_def DetectStuck)
  then show ?thesis using wf unfolding kyc_wf_def by (metis set_map)
next
  case (Later n)
  then show "kyc_wf s \<Longrightarrow> kyc_wf (kyc_exec E op s)" by (simp add: kyc_exec_def kyc_wf_def)
qed

text \<open>What a document keeps for ever: its id, its owner, the address and type of its file, the hash of its content.\<close>

definition evidence :: "kyc_document \<Rightarrow> uuid \<times> uuid \<times> string \<times> string \<times> string option" where
  "evidence d = (kd_id d, kd_userId d, kd_url d, kd_mimeType d, kd_documentSetHash d)"

definition kyc_le :: "kyc_state \<Rightarrow> kyc_state \<Rightarrow> bool" where
  "kyc_le s t \<longleftrightarrow> prefix (map evidence (kyc_docs s)) (map evidence (kyc_docs t)) \<and> ky_now s \<le> ky_now t"

lemma kyc_le_refl: "kyc_le s s"
  by (simp add: kyc_le_def)

lemma kyc_le_trans: "kyc_le s t \<Longrightarrow> kyc_le t u \<Longrightarrow> kyc_le s u"
  unfolding kyc_le_def by (auto intro: prefix_order.trans)

lemma kyc_le_same: "map evidence (kyc_docs t) = map evidence (kyc_docs s) \<Longrightarrow> ky_now t = ky_now s \<Longrightarrow> kyc_le s t"
  by (simp add: kyc_le_def)

lemma evidence_save:
  assumes "distinct (map kd_id ds)" "d \<in> set ds" "evidence e = evidence d"
  shows "map evidence (save_row kd_id e ds) = map evidence ds"
proof -
  have "kd_id e = kd_id d" using assms(3) by (simp add: evidence_def)
  moreover have "x = d" if "x \<in> set ds" "kd_id x = kd_id d" for x
    using assms(1,2) that by (simp add: distinct_map inj_on_def)
  ultimately show ?thesis using assms(2,3) by (auto simp: save_row_def)
qed

lemma uploadDocument_now: "ky_now (snd (uploadDocument sha submit C i upl scan stored s)) = ky_now s"
proof -
  have "ky_now t = ky_now u" if "submitOrReuse sha submit C i d b u = (d', t)" for d b u d' t
    using submitOrReuse_saves [OF that] by simp
  then show ?thesis
    by (auto simp: uploadDocument_def Let_def split: sum.splits option.splits prod.splits)
qed

lemma kyc_le_exec:
  assumes wf: "kyc_wf s"
  shows "kyc_le s (kyc_exec E op s)"
proof (cases op)
  case (Upload i f scan stored)
  obtain res t where up: "uploadDocument (ke_sha E) (ke_submit E) (ke_config E) i f scan stored s = (res, t)" by (meson surj_pair)
  then have "ky_now t = ky_now s" using uploadDocument_now by (metis snd_conv)
  moreover have "prefix (map evidence (kyc_docs s)) (map evidence (kyc_docs t))"
  proof (cases res)
    case (Inl e)
    then show ?thesis using uploadDocument_refused up by (metis prefix_order.order_refl)
  next
    case (Inr d)
    then have "kyc_docs t = kyc_docs s @ [d]" using uploadDocument_accepts wf up by blast
    then show ?thesis by simp
  qed
  ultimately show ?thesis by (simp add: kyc_exec_def Upload up kyc_le_def)
next
  case (Callback r)
  obtain res t where cb: "handleWebhook (ke_macs E) (ke_json E) (ke_config E) r s = (res, t)" by (meson surj_pair)
  have "kyc_le s t"
  proof (cases res)
    case (Inl e)
    then have "t = s" using handleWebhook_refused cb by blast
    then show ?thesis by (simp add: kyc_le_def)
  next
    case (Inr x)
    then obtain p body where "processWebhook (ke_json E) (ke_config E) body p s = (Inr (), t)"
      using handleWebhook_accepts cb by (metis old.unit.exhaust)
    from processWebhook_accepts [OF this] obtain d d' i c
      where d: "callback_doc i c s = Some d" "kyc_docs t = save_row kd_id d' (kyc_docs s)" "evidence d' = evidence d" "ky_now t = ky_now s"
      by (auto simp: callback_update_def evidence_def)
    have "map evidence (kyc_docs t) = map evidence (kyc_docs s)"
      unfolding d(2) by (rule evidence_save [of _ d]) (use wf d callback_doc_owner in \<open>auto simp: kyc_wf_def\<close>)
    then show ?thesis by (rule kyc_le_same) (rule d(4))
  qed
  then show ?thesis by (simp add: kyc_exec_def Callback cb)
next
  case DetectStuck
  have "distinct (map kd_id (kyc_docs s))" using wf by (simp add: kyc_wf_def)
  from detect_docs [OF this surjective_pairing]
  show ?thesis unfolding kyc_exec_def DetectStuck by (intro kyc_le_same) (auto simp: evidence_def)
next
  case (Later n)
  then show ?thesis by (simp add: kyc_exec_def kyc_le_def)
qed

interpretation kyc_machine: monotone_machine "kyc_exec E" kyc_wf kyc_le for E
  by unfold_locales (erule kyc_wf_exec | rule kyc_le_refl | erule (1) kyc_le_trans | erule kyc_le_exec)+

text \<open>
  Documents are evidence that is only added to. Along every history of uploads, callbacks, runs of the
  detector and time, no two documents share an id, and every document keeps its place, owner, file and
  content hash.
\<close>

theorem kyc_documents_append_only:
  assumes "kyc_wf s"
  shows "distinct (map kd_id (kyc_docs (fold (kyc_exec E) ops s))) \<and>
    prefix (map evidence (kyc_docs s)) (map evidence (kyc_docs (fold (kyc_exec E) ops s))) \<and> ky_now s \<le> ky_now (fold (kyc_exec E) ops s)"
  using kyc_machine.run_inv [OF assms, of E ops] kyc_machine.run_le [OF assms, of E ops] by (simp add: kyc_wf_def kyc_le_def)

text \<open>The status a callback reports for a user.\<close>

definition reports :: "kyc_env \<Rightarrow> kyc_request \<Rightarrow> uuid \<Rightarrow> kyc_status \<Rightarrow> bool" where
  "reports E r i st \<longleftrightarrow> (\<exists>p body v w. hmac_guard (ke_macs E) (ke_config E) r = Inr (p, body) \<and> ke_json E body = Some v \<and>
     getParser (ke_config E) p v = Inr w \<and> pw_userId w = i \<and> pw_status w = st)"

definition user_status :: "uuid \<Rightarrow> kyc_state \<Rightarrow> kyc_status option" where
  "user_status i s = Option.bind (find_user i s) ku_kycStatus"

lemma user_status_users: "kyc_users s = kyc_users t \<Longrightarrow> user_status i s = user_status i t"
  unfolding user_status_def by (metis find_user_users)

lemma submitOrReuse_undecided:
  "submitOrReuse sha submit C i d b s = (d', t) \<Longrightarrow> kd_status d' \<in> {KYC_PENDING, KYC_NEEDS_REVIEW}"
  by (auto simp: submitOrReuse_def reuseCase_def Let_def submitted_doc_def split: option.splits dest!: submitFresh_spec)

lemma uploadDocument_undecided:
  assumes "uploadDocument sha submit C i upl scan stored s = (Inr d, t)"
  shows "kd_status d \<in> {KYC_PENDING, KYC_NEEDS_REVIEW}"
  using assms unfolding uploadDocument_def Let_def
  by (auto split: sum.splits option.splits prod.splits dest!: submitOrReuse_undecided)

lemma user_status_step:
  assumes "kyc_wf s" "user_status i (kyc_exec E op s) = Some st" "st \<in> {KYC_APPROVED, KYC_REJECTED}"
  shows "user_status i s = Some st \<or> (\<exists>r. op = Callback r \<and> reports E r i st)"
proof (cases op)
  case (Upload j f scan stored)
  obtain res t where up: "uploadDocument (ke_sha E) (ke_submit E) (ke_config E) j f scan stored s = (res, t)" by (meson surj_pair)
  have st: "user_status i t = Some st" using assms(2) by (simp add: kyc_exec_def Upload up)
  show ?thesis
  proof (cases res)
    case (Inl e)
    then show ?thesis using st uploadDocument_refused up by metis
  next
    case (Inr d)
    with up uploadDocument_accepts [of "ke_sha E" "ke_submit E" "ke_config E" j f scan stored s d t] assms(1)
    obtain u where "find_user j t = Some (u\<lparr>ku_kycStatus := Some (kd_status d)\<rparr>)" "\<And>k. k \<noteq> j \<Longrightarrow> find_user k t = find_user k s"
      by blast
    moreover have "kd_status d \<in> {KYC_PENDING, KYC_NEEDS_REVIEW}" using up Inr uploadDocument_undecided by blast
    ultimately show ?thesis using st assms(3) by (cases "i = j") (auto simp: user_status_def)
  qed
next
  case (Callback r)
  obtain res t where cb: "handleWebhook (ke_macs E) (ke_json E) (ke_config E) r s = (res, t)" by (meson surj_pair)
  have st: "user_status i t = Some st" using assms(2) by (simp add: kyc_exec_def Callback cb)
  show ?thesis
  proof (cases res)
    case (Inl e)
    then show ?thesis using st handleWebhook_refused cb by metis
  next
    case (Inr x)
    then obtain p body where g: "hmac_guard (ke_macs E) (ke_config E) r = Inr (p, body)"
      and pw: "processWebhook (ke_json E) (ke_config E) body p s = (Inr (), t)"
      using handleWebhook_accepts cb by (metis old.unit.exhaust)
    obtain v w where v: "ke_json E body = Some v" "getParser (ke_config E) p v = Inr w" using processWebhook_accepts [OF pw] by blast
    show ?thesis
    proof (cases "pw_userId w = i")
      case True
      then have "pw_status w = st" using processWebhook_user [OF pw v] st by (auto simp: user_status_def)
      then show ?thesis using g v True Callback by (auto simp: reports_def)
    next
      case False
      then show ?thesis using processWebhook_user [OF pw v] st by (auto simp: user_status_def)
    qed
  qed
next
  case DetectStuck
  have "user_status i (kyc_exec E op s) = user_status i s"
    unfolding kyc_exec_def DetectStuck kyc_op.case by (rule user_status_users) (rule detect_users [OF surjective_pairing])
  then show ?thesis using assms(2) by simp
next
  case (Later n)
  have "user_status i (kyc_exec E op s) = user_status i s"
    unfolding kyc_exec_def Later kyc_op.case by (rule user_status_users) simp
  then show ?thesis using assms(2) by simp
qed

text \<open>
  C25: Only a provider decides. Along every history a user who is approved (or rejected) at its end was so at
  its start, or one of its callbacks passed the guard, with an authentic signature, and reported that
  status for that user. No upload, failing provider or run of the detector approves anybody.
\<close>

theorem kyc_decided_by_provider:
  assumes "kyc_wf s" "user_status i (fold (kyc_exec E) ops s) = Some st" "st \<in> {KYC_APPROVED, KYC_REJECTED}"
  shows "user_status i s = Some st \<or>
    (\<exists>r body sig. Callback r \<in> set ops \<and> reports E r i st \<and> kr_body r = Some body \<and> sig \<in> presented r \<and>
      authentic (ke_macs E) (kc_webhookSecret (ke_config E)) body sig)"
proof -
  have "user_status i s = Some st \<or> (\<exists>r. Callback r \<in> set ops \<and> reports E r i st)"
    using assms(1,2)
  proof (induction ops arbitrary: s)
    case (Cons op ops)
    have "kyc_wf (kyc_exec E op s)" by (rule kyc_wf_exec [OF Cons.prems(1)])
    from Cons.IH [OF this] Cons.prems(2)
    have "user_status i (kyc_exec E op s) = Some st \<or> (\<exists>r. Callback r \<in> set ops \<and> reports E r i st)" by simp
    then show ?case using user_status_step [OF Cons.prems(1) _ assms(3), of i E op] by auto
  qed simp
  then show ?thesis
  proof
    assume "\<exists>r. Callback r \<in> set ops \<and> reports E r i st"
    then obtain r where r: "Callback r \<in> set ops" "reports E r i st" by blast
    then obtain p body where "hmac_guard (ke_macs E) (ke_config E) r = Inr (p, body)" unfolding reports_def by blast
    from hmac_guard_passes [OF this] r show ?thesis by blast
  qed simp
qed

text \<open>
  C40: A document goes to the first provider, in the configured order, that is known and answers. Exactly the
  known providers up to that one are asked, once each, so at most two; the document carries the answer
  and is pending. When nobody answers it needs a review, and the upload does not fail.
\<close>

theorem kyc_failover_correct:
  assumes "submitFresh submit C i d s = (d', t)"
  shows "d' = submitted_doc submit C (ky_now s) d \<and> kyc_docs t = save_row kd_id d' (kyc_docs s) \<and>
    kyc_submissions t = kyc_submissions s @ map (\<lambda>p. (p, kd_id d)) (asked submit C d) \<and>
    kyc_users t = kyc_users s \<and> kyc_notices t = kyc_notices s \<and> ky_ids t = ky_ids s \<and> ky_now t = ky_now s"
  by (rule submitFresh_spec [OF assms])

text \<open>
  The detector flags the pending documents whose last event (the provider's, else the submission, else the
  upload) lies before the timeout, all of them and no other, and a second run at the same time finds none.
\<close>

theorem stuck_detector_correct:
  assumes "kyc_wf s" "detectAndFlagStuckCases C s = (n, t)"
  shows "n = length (filter (stuck C s) (kyc_docs s)) \<and>
    kyc_docs t = map (\<lambda>d. if stuck C s d then d\<lparr>kd_stuckFlaggedAt := Some (ky_now s)\<rparr> else d) (kyc_docs s) \<and>
    kyc_users t = kyc_users s \<and> detectAndFlagStuckCases C t = (0, t)"
proof -
  have "distinct (map kd_id (kyc_docs s))" using assms(1) by (simp add: kyc_wf_def)
  note t = detect_docs [OF this assms(2)]
  have "filter (stuck C t) (kyc_docs t) = []"
    using t by (auto simp: filter_empty_conv stuck_def reference_time_def)
  then have "detectAndFlagStuckCases C t = (0, t)" unfolding detectAndFlagStuckCases_def by (simp add: Let_def)
  with t show ?thesis by blast
qed

lemma callback_doc_newest:
  assumes "callback_doc i c s = Some d"
  shows "kd_providerCaseId d = Some c \<or>
    (\<forall>e \<in> set (kyc_docs s). kd_userId e = i \<longrightarrow> kd_providerCaseId e \<noteq> Some c \<and> kd_uploadedAt e \<le> kd_uploadedAt d)"
proof (cases "latest (\<lambda>d. kd_userId d = i \<and> kd_providerCaseId d = Some c) s")
  case None
  then have "latest (\<lambda>d. kd_userId d = i) s = Some d" using assms by (simp add: callback_doc_def)
  with None latest_Some show ?thesis unfolding latest_None by blast
next
  case (Some e)
  then show ?thesis using assms latest_Some [OF Some] by (simp add: callback_doc_def)
qed

text \<open>
  A callback rewrites one document: the newest of the user with its case, else (no document has the case)
  the user's newest whatever its case is. Every other document, every other user and the providers are
  left alone; the user gets the reported status, and a message exactly when it is a decision and there is
  an address. A callback for nobody changes nothing.
\<close>

theorem processWebhook_correct:
  assumes "J body = Some v" "getParser C p v = Inr w" "processWebhook J C body p s = (res, t)"
  shows "((find_user (pw_userId w) s = None \<or> (\<forall>d \<in> set (kyc_docs s). kd_userId d \<noteq> pw_userId w)) \<longrightarrow> t = s \<and> res \<noteq> Inr ()) \<and>
    (\<forall>u d. find_user (pw_userId w) s = Some u \<and> callback_doc (pw_userId w) (pw_providerCaseId w) s = Some d \<longrightarrow>
      res = Inr () \<and> kd_userId d = pw_userId w \<and>
      (kd_providerCaseId d = Some (pw_providerCaseId w) \<or>
        (\<forall>e \<in> set (kyc_docs s). kd_userId e = pw_userId w \<longrightarrow>
           kd_providerCaseId e \<noteq> Some (pw_providerCaseId w) \<and> kd_uploadedAt e \<le> kd_uploadedAt d)) \<and>
      kyc_docs t = save_row kd_id (callback_update (case p of Some x \<Rightarrow> x | None \<Rightarrow> kc_primary C) v w (ky_now s) d) (kyc_docs s) \<and>
      find_user (pw_userId w) t = Some (u\<lparr>ku_kycStatus := Some (pw_status w)\<rparr>) \<and>
      (\<forall>j. j \<noteq> pw_userId w \<longrightarrow> find_user j t = find_user j s) \<and> kyc_submissions t = kyc_submissions s \<and>
      kyc_notices t = kyc_notices s @ (if pw_status w \<in> {KYC_APPROVED, KYC_REJECTED} \<and> truthy (ku_email u)
                                       then [(pw_userId w, KycDecided (pw_status w))] else []))"
    (is "(?nobody \<longrightarrow> ?same) \<and> (\<forall>u d. ?found u d \<longrightarrow> ?final u d)")
proof (rule conjI; intro allI impI)
  assume ?nobody
  then have "find_user (pw_userId w) s = None \<or> callback_doc (pw_userId w) (pw_providerCaseId w) s = None"
    using callback_doc_exists by blast
  then have "\<exists>e. processWebhook J C body p s = (Inl e, s)" by (auto simp: processWebhook_def assms(1,2) split: option.splits)
  then show ?same using assms(3) by fastforce
next
  fix u d assume ud: "?found u d"
  then have res: "res = Inr ()" using assms by (auto simp: processWebhook_def Let_def)
  then have pw: "processWebhook J C body p s = (Inr (), t)" using assms(3) by simp
  note processWebhook_accepts [OF pw] processWebhook_user [OF pw assms(1,2)] callback_doc_newest [OF conjunct2 [OF ud]]
    callback_doc_owner [OF conjunct2 [OF ud]]
  with ud res assms(1,2) show "?final u d" by simp
qed

text \<open>
  A file is taken when it is there, small enough and begins like a JPEG, PNG or PDF file, unless the scanner
  finds a virus: a scanner that is not configured or does not answer lets every file pass. The type that is
  stored with it is the client's, not the one its bytes show.
\<close>

theorem upload_check_correct:
  "(\<forall>f. validateFile C upl scan = Inr f \<longleftrightarrow>
      upl = Some f \<and> kf_size f \<le> kc_maxFileSizeBytes C \<and> detectMimeFromBuffer (kf_buffer f) \<noteq> None \<and> \<not> (kc_clamav C \<and> scan = Infected)) \<and>
   (\<forall>d t. kyc_wf s \<and> uploadDocument sha submit C i upl scan stored s = (Inr d, t) \<longrightarrow>
      (\<exists>f. upl = Some f \<and> validateFile C upl scan = Inr f \<and> kd_mimeType d = kf_mimetype f \<and>
        kd_documentSetHash d = Some (sha (kf_buffer f)) \<and> kyc_docs t = kyc_docs s @ [d] \<and>
        user_status i t = Some (kd_status d) \<and> kd_status d \<in> {KYC_PENDING, KYC_NEEDS_REVIEW}))"
proof (intro conjI allI impI)
  fix f
  show "validateFile C upl scan = Inr f \<longleftrightarrow>
      upl = Some f \<and> kf_size f \<le> kc_maxFileSizeBytes C \<and> detectMimeFromBuffer (kf_buffer f) \<noteq> None \<and> \<not> (kc_clamav C \<and> scan = Infected)"
    by (cases upl; cases scan) (auto simp: validateFile_def scanForViruses_def)
next
  fix d t assume up: "kyc_wf s \<and> uploadDocument sha submit C i upl scan stored s = (Inr d, t)"
  then have "kd_status d \<in> {KYC_PENDING, KYC_NEEDS_REVIEW}" using uploadDocument_undecided by blast
  with up uploadDocument_accepts [of sha submit C i upl scan stored s d t]
  show "\<exists>f. upl = Some f \<and> validateFile C upl scan = Inr f \<and> kd_mimeType d = kf_mimetype f \<and>
        kd_documentSetHash d = Some (sha (kf_buffer f)) \<and> kyc_docs t = kyc_docs s @ [d] \<and>
        user_status i t = Some (kd_status d) \<and> kd_status d \<in> {KYC_PENDING, KYC_NEEDS_REVIEW}"
    by (auto simp: user_status_def)
qed

text \<open>A document whose case a later upload of its owner takes over.\<close>

definition in_flight :: "uuid \<Rightarrow> string \<Rightarrow> kyc_state \<Rightarrow> kyc_document \<Rightarrow> bool" where
  "in_flight i c s d \<longleftrightarrow> d \<in> set (kyc_docs s) \<and> kd_userId d = i \<and> kd_providerCaseId d = Some c \<and>
     kd_status d \<in> {KYC_PENDING, KYC_NEEDS_REVIEW} \<and> (case kd_caseExpiresAt d of None \<Rightarrow> True | Some t \<Rightarrow> t > ky_now s)"

lemma reuse_no_submission:
  assumes "in_flight i c s d" "kd_id d \<noteq> kd_id e" "submitOrReuse sha submit C i e b s = (e', t)"
  shows "kd_status e' = KYC_PENDING \<and> kyc_submissions t = kyc_submissions s \<and>
    (\<exists>x c'. in_flight i c' s x \<and> kd_id x \<noteq> kd_id e \<and> kd_providerCaseId e' = Some c')"
proof -
  have "findReusableCase i (kd_id e) s \<noteq> None"
    using assms(1,2) unfolding findReusableCase_def latest_None in_flight_def by auto
  then obtain x where x: "findReusableCase i (kd_id e) s = Some x" by blast
  have found: "in_flight i (the (kd_providerCaseId x)) s x" "kd_id x \<noteq> kd_id e" "kd_providerCaseId x \<noteq> None"
    using latest_Some [OF x [unfolded findReusableCase_def]] by (auto simp: in_flight_def)
  have "kd_status e' = KYC_PENDING" "kyc_submissions t = kyc_submissions s" "kd_providerCaseId e' = kd_providerCaseId x"
    using assms(3) x by (auto simp: submitOrReuse_def reuseCase_def Let_def)
  with found show ?thesis by (metis option.collapse)
qed

lemma upload_reuses:
  assumes "in_flight i c s d" "kyc_wf s" "find_user i s \<noteq> None" "validateFile C upl scan = Inr f" "stored = Inr url"
  shows "\<exists>e t. uploadDocument sha submit C i upl scan stored s = (Inr e, t) \<and> kd_status e = KYC_PENDING \<and>
    kyc_submissions t = kyc_submissions s \<and> user_status i t = Some KYC_PENDING \<and>
    (\<exists>x c'. in_flight i c' s x \<and> kd_providerCaseId e = Some c')"
proof -
  obtain u where u: "find_user i s = Some u" using assms(3) by blast
  have fresh: "kd_id d \<noteq> show_nat (ky_ids s)" using kyc_wf_fresh [OF assms(2)] assms(1) by (force simp: in_flight_def)
  obtain d0 s0 where d0: "kd_id d0 = show_nat (ky_ids s)"
    and s0: "s0 = save_doc d0 (s\<lparr>ky_ids := ky_ids s + 1\<rparr>)"
    and up: "uploadDocument sha submit C i upl scan stored s =
      (let (d', s1) = submitOrReuse sha submit C i d0 (kf_buffer f) s0; s2 = set_kyc_status i (kd_status d') s1
       in (Inr d', s2\<lparr>kyc_notices := kyc_notices s2 @ [(i, KycSubmitted)]\<rparr>))"
    unfolding uploadDocument_def assms(4,5) u sum.case option.case Let_def by (blast intro: kyc_document.select_convs)
  obtain e s1 where sub: "submitOrReuse sha submit C i d0 (kf_buffer f) s0 = (e, s1)" by (meson surj_pair)
  have "in_flight i c s0 d" using assms(1) fresh d0 s0 by (auto simp: in_flight_def set_save_row split: option.splits)
  from reuse_no_submission [OF this _ sub] fresh d0 s0
  have e: "kd_status e = KYC_PENDING" "kyc_submissions s1 = kyc_submissions s"
    and "\<exists>x c'. in_flight i c' s0 x \<and> kd_id x \<noteq> kd_id d0 \<and> kd_providerCaseId e = Some c'" by auto
  then obtain x c' where x: "in_flight i c' s0 x" "kd_id x \<noteq> kd_id d0" "kd_providerCaseId e = Some c'" by blast
  have "in_flight i c' s x" using x(1,2) s0 by (auto simp: in_flight_def set_save_row split: option.splits)
  obtain t where t: "uploadDocument sha submit C i upl scan stored s = (Inr e, t)" "kyc_submissions t = kyc_submissions s"
    using e unfolding up sub by (simp add: Let_def)
  moreover have "user_status i t = Some (kd_status e)"
    using uploadDocument_accepts [OF t(1) assms(2)] by (auto simp: user_status_def)
  ultimately show ?thesis using e \<open>in_flight i c' s x\<close> x(3) by auto
qed

text \<open>
  C26: A decided case goes on. When two documents share a case and the user has no other case in flight, the
  provider's approval updates the newer document only: the older stays in flight. The next upload of the user
  takes the decided case over from it, is submitted to nobody and sets the approved user back to pending,
  although no callback will follow.
\<close>

theorem shared_case_left_pending:
  assumes "kyc_wf s" "in_flight i c s a" "b \<in> set (kyc_docs s)" "kd_userId b = i" "kd_providerCaseId b = Some c"
    and "kd_uploadedAt a < kd_uploadedAt b" "\<forall>d c'. in_flight i c' s d \<longrightarrow> c' = c"
    and "J body = Some v" "getParser C p v = Inr w" "pw_userId w = i" "pw_providerCaseId w = c"
    and "pw_status w = KYC_APPROVED" "processWebhook J C body p s = (Inr (), t)" "validateFile C upl scan = Inr f"
  shows "user_status i t = Some KYC_APPROVED \<and> in_flight i c t a \<and>
    (\<exists>e t'. uploadDocument sha submit C i upl scan (Inr url) t = (Inr e, t') \<and> kd_providerCaseId e = Some c \<and>
      kd_status e = KYC_PENDING \<and> kyc_submissions t' = kyc_submissions t \<and> user_status i t' = Some KYC_PENDING)"
proof -
  from processWebhook_accepts [OF assms(13)] assms(8-11) obtain d d'
    where d: "callback_doc i c s = Some d" and docs: "kyc_docs t = save_row kd_id d' (kyc_docs s)" "kd_id d' = kd_id d"
    and new: "kd_status d' = KYC_APPROVED" and fr: "ky_ids t = ky_ids s" "ky_now t = ky_now s"
    using assms(12) by (auto simp: callback_update_def)
  obtain u where u: "find_user i t = Some (u\<lparr>ku_kycStatus := Some KYC_APPROVED\<rparr>)"
    using processWebhook_user [OF assms(13,8,9)] assms(10,12) by auto
  let ?P = "\<lambda>d. kd_userId d = i \<and> kd_providerCaseId d = Some c"
  have "latest ?P s \<noteq> None" using assms(3-5) by (auto simp: latest_None)
  then have "latest ?P s = Some d" using d by (auto simp: callback_doc_def)
  from latest_Some [OF this] have "kd_uploadedAt b \<le> kd_uploadedAt d" "d \<in> set (kyc_docs s)" using assms(3-5) by auto
  with assms(6) have "a \<noteq> d" by auto
  then have "kd_id a \<noteq> kd_id d'"
    using assms(1,2) \<open>d \<in> set (kyc_docs s)\<close> docs(2) by (auto simp: kyc_wf_def in_flight_def distinct_map inj_on_def)
  then have a: "in_flight i c t a" using assms(2) fr docs by (simp add: in_flight_def set_save_row split: option.splits)
  have only: "c' = c" if "in_flight i c' t x" for x c'
  proof -
    have "x \<noteq> d'" using that new by (auto simp: in_flight_def)
    then have "in_flight i c' s x" using that docs fr by (auto simp: in_flight_def set_save_row split: option.splits)
    with assms(7) show ?thesis by blast
  qed
  have wf: "kyc_wf t" by (rule kyc_wf_save [OF assms(1) docs(1) fr(1)]) (use docs(2) \<open>d \<in> set (kyc_docs s)\<close> in auto)
  have "find_user i t \<noteq> None" using u by simp
  from upload_reuses [OF a wf this assms(14) refl, of sha submit url] only
  have "\<exists>e t'. uploadDocument sha submit C i upl scan (Inr url) t = (Inr e, t') \<and> kd_providerCaseId e = Some c \<and>
      kd_status e = KYC_PENDING \<and> kyc_submissions t' = kyc_submissions t \<and> user_status i t' = Some KYC_PENDING" by blast
  with a u show ?thesis by (simp add: user_status_def)
qed

subsection \<open>A sample\<close>

definition sample_config :: kyc_config where
  "sample_config = \<lparr>kc_primary = ''persona'', kc_secondary = ''jumio'', kc_reuseWindowHours = 24, kc_stuckTimeoutHours = 0,
     kc_maxFileSizeBytes = 100, kc_clamav = True, kc_webhookSecret = ''s''\<rparr>"

definition sample_submit :: submit_fun where
  "sample_submit p d u = (if p = ''jumio'' then Inr (''c'', ''created'') else Inl (JsError ''timeout''))"

definition sample_macs :: macs where
  "sample_macs = \<lparr>hmac_hex = (\<lambda>k b. k @ b), hmac_b64 = (\<lambda>k b. b @ k)\<rparr>"

definition sample_body :: json where
  "sample_body = JObj [(''verificationStatus'', JString ''APPROVED_VERIFIED''), (''customerId'', JString ''u''),
     (''jumioIdScanReference'', JString ''c'')]"

definition sample_json :: "string \<Rightarrow> json option" where
  "sample_json b = (if b = ''ok'' then Some sample_body else None)"

definition sample_request :: kyc_request where
  "sample_request = \<lparr>kr_body = Some ''ok'', kr_headers = [''x-jumio-signature'' \<mapsto> ''oks'']\<rparr>"

definition sample_doc :: "nat \<Rightarrow> kyc_document" where
  "sample_doc n = \<lparr>kd_id = show_nat n, kd_userId = ''u'', kd_url = ''url'', kd_mimeType = ''text/html'', kd_fileSize = 3, kd_originalName = ''f'',
     kd_uploadedAt = int n, kd_provider = Some ''jumio'', kd_providerCaseId = Some ''c'', kd_providerStatus = Some ''created'',
     kd_status = KYC_PENDING, kd_providerPayload = None, kd_submittedAt = Some 1, kd_lastProviderEventAt = Some 1, kd_caseExpiresAt = Some 100,
     kd_stuckFlaggedAt = None, kd_documentSetHash = Some ''h''\<rparr>"

definition sample_kyc :: kyc_state where
  "sample_kyc = \<lparr>ky_now = 5, ky_ids = 2, kyc_users = [\<lparr>ku_id = ''u'', ku_email = Some ''e'', ku_kycStatus = Some KYC_PENDING\<rparr>],
     kyc_docs = [sample_doc 0, sample_doc 1], kyc_audit = [], kyc_notices = [], kyc_submissions = []\<rparr>"

definition sample_env :: kyc_env where
  "sample_env = \<lparr>ke_config = sample_config, ke_sha = (\<lambda>b. b), ke_submit = sample_submit, ke_macs = sample_macs, ke_json = sample_json\<rparr>"

definition sample_file :: kyc_file where
  "sample_file = \<lparr>kf_buffer = ''%PDF'', kf_size = 4, kf_mimetype = ''text/html'', kf_originalname = ''f''\<rparr>"

definition sample_parsed :: parsed_webhook where
  "sample_parsed = \<lparr>pw_userId = ''u'', pw_providerCaseId = ''c'', pw_status = KYC_APPROVED, pw_raw = sample_body\<rparr>"

lemma sample_wf: "kyc_wf sample_kyc"
proof -
  have "show_nat 0 \<noteq> show_nat 1" by (metis read_show_nat zero_neq_one)
  then show ?thesis by (simp add: kyc_wf_def sample_kyc_def sample_doc_def del: show_nat_small show_nat_big)
qed

lemma sample_guard: "hmac_guard sample_macs sample_config sample_request = Inr (Some ''jumio'', ''ok'')"
  by code_simp

lemma sample_parse: "sample_json ''ok'' = Some sample_body"
    "getParser sample_config (Some ''jumio'') sample_body = Inr sample_parsed"
  by code_simp+

lemma sample_doc_fields [simp]:
  "kd_id (sample_doc n) = show_nat n" "kd_userId (sample_doc n) = ''u''" "kd_uploadedAt (sample_doc n) = int n"
  "kd_providerCaseId (sample_doc n) = Some ''c''" "kd_status (sample_doc n) = KYC_PENDING" "kd_caseExpiresAt (sample_doc n) = Some 100"
  "kd_mimeType (sample_doc n) = ''text/html''" "kd_provider (sample_doc n) = Some ''jumio''"
  by (simp_all add: sample_doc_def)

lemma sample_found: "find_user ''u'' sample_kyc = Some (hd (kyc_users sample_kyc))"
    "callback_doc ''u'' ''c'' sample_kyc = Some (sample_doc 1)"
  by (simp_all add: find_user_def callback_doc_def latest_def sample_kyc_def)

definition sample_after :: kyc_state where
  "sample_after = snd (processWebhook sample_json sample_config ''ok'' (Some ''jumio'') sample_kyc)"

lemma sample_process: "processWebhook sample_json sample_config ''ok'' (Some ''jumio'') sample_kyc = (Inr (), sample_after)"
  by (rule prod_eqI) (simp_all add: sample_after_def processWebhook_def sample_parse sample_found sample_parsed_def Let_def)

lemma sample_handle: "handleWebhook sample_macs sample_json sample_config sample_request sample_kyc = (Inr (), sample_after)"
  by (simp add: handleWebhook_def sample_guard sample_process)

theorem kyc_webhook_authentic_witness:
  "\<exists>body sig. kr_body sample_request = Some body \<and> kc_webhookSecret sample_config \<noteq> [] \<and> sig \<in> presented sample_request \<and> sig \<noteq> [] \<and>
     authentic sample_macs (kc_webhookSecret sample_config) body sig"
  using kyc_webhook_authentic [of sample_macs sample_json sample_config sample_request sample_kyc] sample_handle by simp

theorem kyc_callback_replays_witness:
  "\<exists>i st. (\<exists>u. find_user i sample_after = Some u \<and> ku_kycStatus u = Some st) \<and>
    (\<forall>s. find_user i s \<noteq> None \<and> (\<exists>d \<in> set (kyc_docs s). kd_userId d = i) \<longrightarrow>
      (\<exists>t u. handleWebhook sample_macs sample_json sample_config sample_request s = (Inr (), t) \<and> find_user i t = Some u \<and> ku_kycStatus u = Some st))"
  by (rule kyc_callback_replays [OF sample_handle])

theorem kyc_documents_append_only_witness:
  "distinct (map kd_id (kyc_docs (fold (kyc_exec sample_env)
     [Upload ''u'' (Some sample_file) Clean (Inr ''url''), Callback sample_request, DetectStuck, Later 3] sample_kyc)))"
  by (rule conjunct1 [OF kyc_documents_append_only [OF sample_wf]])

lemma sample_env_fields [simp]:
  "ke_config sample_env = sample_config" "ke_macs sample_env = sample_macs" "ke_json sample_env = sample_json"
  by (simp_all add: sample_env_def)

lemma sample_approved:
  "user_status ''u'' (fold (kyc_exec sample_env) [Callback sample_request] sample_kyc) = Some KYC_APPROVED" "user_status ''u'' sample_kyc = Some KYC_PENDING"
proof -
  from processWebhook_user [OF sample_process sample_parse]
  have "user_status ''u'' sample_after = Some KYC_APPROVED" by (auto simp: user_status_def sample_parsed_def)
  then show "user_status ''u'' (fold (kyc_exec sample_env) [Callback sample_request] sample_kyc) = Some KYC_APPROVED"
    by (simp add: kyc_exec_def sample_handle)
  show "user_status ''u'' sample_kyc = Some KYC_PENDING" by (simp add: user_status_def sample_found) (simp add: sample_kyc_def)
qed

theorem kyc_decided_by_provider_witness:
  "\<exists>r body sig. Callback r \<in> set [Callback sample_request] \<and> reports sample_env r ''u'' KYC_APPROVED \<and> kr_body r = Some body \<and>
     sig \<in> presented r \<and> authentic (ke_macs sample_env) (kc_webhookSecret (ke_config sample_env)) body sig"
  using kyc_decided_by_provider [OF sample_wf sample_approved(1)] sample_approved(2) by auto

theorem kyc_failover_correct_witness:
  "\<exists>d' t. submitFresh sample_submit sample_config ''u'' (sample_doc 1) sample_kyc = (d', t) \<and> kd_provider d' = Some ''jumio'' \<and>
     kyc_submissions t = map (\<lambda>p. (p, kd_id (sample_doc 1))) [''persona'', ''jumio'']"
proof -
  obtain d' t where d: "submitFresh sample_submit sample_config ''u'' (sample_doc 1) sample_kyc = (d', t)" by (meson surj_pair)
  have "chosen sample_submit sample_config (sample_doc 1) = Some ''jumio''" "asked sample_submit sample_config (sample_doc 1) = [''persona'', ''jumio'']"
    by (simp_all add: chosen_def asked_def preference_def answer_def sample_config_def sample_submit_def known_providers_def)
  moreover have "kyc_submissions sample_kyc = []" by (simp add: sample_kyc_def)
  ultimately show ?thesis using d kyc_failover_correct [OF d] by (auto simp: submitted_doc_def)
qed

theorem stuck_detector_correct_witness:
  "fst (detectAndFlagStuckCases sample_config sample_kyc) = 2"
proof -
  have "filter (stuck sample_config sample_kyc) (kyc_docs sample_kyc) = [sample_doc 0, sample_doc 1]"
    by (simp add: stuck_def reference_time_def sample_kyc_def sample_config_def sample_doc_def del: show_nat_small show_nat_big)
  with stuck_detector_correct [OF sample_wf surjective_pairing, of sample_config] show ?thesis by simp
qed

theorem processWebhook_correct_witness:
  "kyc_notices sample_after = [(''u'', KycDecided KYC_APPROVED)]"
proof -
  have "find_user (pw_userId sample_parsed) sample_kyc = Some (hd (kyc_users sample_kyc)) \<and>
      callback_doc (pw_userId sample_parsed) (pw_providerCaseId sample_parsed) sample_kyc = Some (sample_doc 1)"
    by (simp add: sample_found sample_parsed_def)
  with conjunct2 [OF processWebhook_correct [OF sample_parse sample_process]] show ?thesis
    by (auto simp: sample_parsed_def sample_kyc_def)
qed

lemma sample_valid: "validateFile sample_config (Some sample_file) Clean = Inr sample_file"
  by code_simp

theorem upload_check_correct_witness:
  "\<exists>d t. uploadDocument (\<lambda>b. b) sample_submit sample_config ''u'' (Some sample_file) Clean (Inr ''url'') sample_kyc = (Inr d, t) \<and>
     kd_mimeType d = ''text/html'' \<and> detectMimeFromBuffer (kf_buffer sample_file) = Some ''application/pdf''"
proof -
  have "find_user ''u'' sample_kyc \<noteq> None" by (simp add: sample_found)
  moreover have "in_flight ''u'' ''c'' sample_kyc (sample_doc 0)" by (simp add: in_flight_def) (simp add: sample_kyc_def)
  ultimately obtain d t where up: "uploadDocument (\<lambda>b. b) sample_submit sample_config ''u'' (Some sample_file) Clean (Inr ''url'') sample_kyc = (Inr d, t)"
    using upload_reuses [OF _ sample_wf _ sample_valid refl, where sha = "\<lambda>b. b" and submit = sample_submit] by blast
  have "kf_mimetype sample_file = ''text/html''" "detectMimeFromBuffer (kf_buffer sample_file) = Some ''application/pdf''" by code_simp+
  with up conjunct2 [OF upload_check_correct [where C = sample_config and upl = "Some sample_file" and scan = Clean and sha = "\<lambda>b. b" and submit = sample_submit
          and i = "''u''" and stored = "Inr ''url''" and s = sample_kyc]] sample_wf
  show ?thesis by auto
qed

theorem shared_case_left_pending_witness:
  "user_status ''u'' sample_after = Some KYC_APPROVED \<and>
   (\<exists>e t'. uploadDocument (\<lambda>b. b) sample_submit sample_config ''u'' (Some sample_file) Clean (Inr ''url'')
        sample_after = (Inr e, t') \<and> kd_providerCaseId e = Some ''c'' \<and>
      user_status ''u'' t' = Some KYC_PENDING)"
proof -
  have fl: "in_flight ''u'' ''c'' sample_kyc (sample_doc 0)" by (simp add: in_flight_def) (simp add: sample_kyc_def)
  have mem: "sample_doc 1 \<in> set (kyc_docs sample_kyc)" by (simp add: sample_kyc_def)
  have only: "\<forall>d c'. in_flight ''u'' c' sample_kyc d \<longrightarrow> c' = ''c''" by (auto simp: in_flight_def sample_kyc_def)
  have doc: "kd_userId (sample_doc 1) = ''u''" "kd_providerCaseId (sample_doc 1) = Some ''c''"
      "kd_uploadedAt (sample_doc 0) < kd_uploadedAt (sample_doc 1)" by simp_all
  have w: "pw_userId sample_parsed = ''u''" "pw_providerCaseId sample_parsed = ''c''" "pw_status sample_parsed = KYC_APPROVED"
    by (simp_all add: sample_parsed_def)
  from shared_case_left_pending [OF sample_wf fl mem doc only sample_parse w sample_process sample_valid,
      where sha = "\<lambda>b. b" and submit = sample_submit and url = "''url''"]
  show ?thesis by blast
qed

end
