(* ===== verification/Installments.thy ===== *)
theory Installments
  imports Fx
begin

text \<open>
  \<open>PaymentsService\<close> (\<open>payments/payments.service.ts\<close>) with
  \<open>payments/installment-penalty-accrual.ts\<close>: installment plans, their pauses and the clock of
  their penalties. Plans reference nothing else of the system, so the state is the table of plans
  alone. Ledger numbers are arguments of the calls, as in the code; the 32-bit limit of their
  columns is not modelled, and the amounts keep the text they were given, without the check and the
  eighteen decimals of their columns. A fraction is the pair of its numerator and denominator.
\<close>

datatype plan_status = PL_ACTIVE | PL_COMPLETED | PL_EXPIRED | PL_PAUSED

record plan =
  ip_id :: uuid
  ip_customer :: uuid
  ip_merchant :: uuid
  ip_token :: string
  ip_totalAmount :: string
  ip_numInstallments :: int
  ip_intervalLedgers :: int
  ip_currentInstallment :: int
  ip_nextDueLedger :: int
  ip_expiryLedger :: int
  ip_status :: plan_status
  ip_installmentAmounts :: "string list"
  ip_paused :: bool
  ip_pausedAtLedger :: "int option"
  ip_pausedAt :: "time option"
  ip_totalPausedLedgers :: int
  ip_pauseCount :: int
  ip_lastResumedAtLedger :: "int option"

record plan_db =
  plans :: "plan list"
  plan_seq :: nat
  clock :: time

interpretation plan_store: row_store ip_id plans "\<lambda>t s. s\<lparr>plans := t\<rparr>"
  by unfold_locales simp_all

definition MAX_PAUSES_PER_PLAN :: int where "MAX_PAUSES_PER_PLAN = 3"

definition MIN_LEDGERS_BETWEEN_PAUSES :: int where "MIN_LEDGERS_BETWEEN_PAUSES = 100"

text \<open>
  \<open>BigInt(s)\<close> of a string: a decimal literal with an optional sign, or an unsigned literal with
  the prefix of a base. The division of BigInts truncates.
\<close>

definition digit_of :: "char \<Rightarrow> int" where
  "digit_of c =
     (let n = int (of_char c :: nat) in
      if 48 \<le> n \<and> n \<le> 57 then n - 48 else if 97 \<le> n \<and> n \<le> 122 then n - 87
      else if 65 \<le> n \<and> n \<le> 90 then n - 55 else 99)"

fun radix_value :: "int \<Rightarrow> int \<Rightarrow> string \<Rightarrow> int option" where
  "radix_value b acc [] = Some acc"
| "radix_value b acc (c # r) = (if digit_of c < b then radix_value b (acc * b + digit_of c) r else None)"

definition radix_of :: "string \<Rightarrow> int" where
  "radix_of s = (let p = take 2 s in
     if p = ''0x'' \<or> p = ''0X'' then 16 else if p = ''0o'' \<or> p = ''0O'' then 8
     else if p = ''0b'' \<or> p = ''0B'' then 2 else 10)"

definition js_BigInt :: "string \<Rightarrow> int option" where
  "js_BigInt s =
     (case js_trim s of
        [] \<Rightarrow> Some 0
      | c # r \<Rightarrow>
          let sign = c = CHR ''-'' \<or> c = CHR ''+'';
              b = radix_of (c # r);
              digits = (if sign then r else if b = 10 then c # r else drop 2 (c # r))
          in if digits = [] then None
             else map_option (\<lambda>n. if c = CHR ''-'' then - n else n) (radix_value b 0 digits))"

definition trunc_div :: "int \<Rightarrow> int \<Rightarrow> int" where
  "trunc_div a b = sgn a * sgn b * (\<bar>a\<bar> div \<bar>b\<bar>)"

definition find_plan :: "uuid \<Rightarrow> plan_db \<Rightarrow> plan option" where
  "find_plan i s = List.find (\<lambda>p. ip_id p = i) (plans s)"

definition save_plan :: "plan \<Rightarrow> plan_db \<Rightarrow> plan_db" where
  "save_plan p s = s\<lparr>plans := save_row ip_id p (plans s)\<rparr>"

definition new_plan :: "uuid \<Rightarrow> uuid \<Rightarrow> string \<Rightarrow> string \<Rightarrow> int \<Rightarrow> int \<Rightarrow> int \<Rightarrow> string \<Rightarrow> nat \<Rightarrow> plan" where
  "new_plan merchant customer token totalAmount numInstallments intervalLedgers expiryLedger perInstallment k =
     \<lparr>ip_id = show_nat k, ip_customer = customer, ip_merchant = merchant, ip_token = token,
      ip_totalAmount = totalAmount, ip_numInstallments = numInstallments, ip_intervalLedgers = intervalLedgers,
      ip_currentInstallment = 0, ip_nextDueLedger = 0, ip_expiryLedger = expiryLedger, ip_status = PL_ACTIVE,
      ip_installmentAmounts = replicate (nat numInstallments) perInstallment, ip_paused = False,
      ip_pausedAtLedger = None, ip_pausedAt = None, ip_totalPausedLedgers = 0, ip_pauseCount = 0,
      ip_lastResumedAtLedger = None\<rparr>"

type_synonym 'a plan_io = "plan_db \<Rightarrow> 'a outcome \<times> plan_db"

definition createInstallmentPlan ::
  "uuid \<Rightarrow> uuid \<Rightarrow> string \<Rightarrow> string \<Rightarrow> int \<Rightarrow> int \<Rightarrow> int \<Rightarrow> plan plan_io" where
  "createInstallmentPlan merchant customer token totalAmount numInstallments intervalLedgers expiryLedger s =
     (if numInstallments < 1 then (Inl (BadRequestException ''numInstallments must be >= 1''), s)
      else case js_BigInt totalAmount of
             None \<Rightarrow> (Inl (JsError (''Cannot convert '' @ totalAmount @ '' to a BigInt'')), s)
           | Some t \<Rightarrow>
               let p = new_plan merchant customer token totalAmount numInstallments intervalLedgers expiryLedger
                         (show_int (trunc_div t numInstallments)) (plan_seq s)
               in (Inr p, s\<lparr>plans := plans s @ [p], plan_seq := Suc (plan_seq s)\<rparr>))"

definition settleInstallment :: "uuid \<Rightarrow> int \<Rightarrow> plan plan_io" where
  "settleInstallment i currentLedger s =
     (case find_plan i s of
        None \<Rightarrow> (Inl (NotFoundException ''Plan not found''), s)
      | Some p \<Rightarrow>
          if ip_status p \<noteq> PL_ACTIVE then (Inl (BadRequestException ''Plan not active''), s)
          else if ip_paused p then (Inl (BadRequestException ''Plan is paused''), s)
          else if currentLedger < ip_nextDueLedger p then (Inl (BadRequestException ''InstallmentNotDue''), s)
          else if ip_currentInstallment p \<ge> ip_numInstallments p
          then (Inl (BadRequestException ''Plan already completed''), s)
          else if currentLedger > ip_expiryLedger p
          then (Inl (BadRequestException ''PlanExpired''), save_plan (p\<lparr>ip_status := PL_EXPIRED\<rparr>) s)
          else let p1 = p\<lparr>ip_currentInstallment := ip_currentInstallment p + 1\<rparr>;
                   p2 = (if ip_currentInstallment p1 \<ge> ip_numInstallments p1 then p1\<lparr>ip_status := PL_COMPLETED\<rparr>
                         else p1\<lparr>ip_nextDueLedger := ip_nextDueLedger p1 + ip_intervalLedgers p1\<rparr>)
               in (Inr p2, save_plan p2 s))"

definition pausePlan :: "uuid \<Rightarrow> int \<Rightarrow> plan plan_io" where
  "pausePlan i currentLedger s =
     (case find_plan i s of
        None \<Rightarrow> (Inl (NotFoundException ''Plan not found''), s)
      | Some p \<Rightarrow>
          if ip_status p \<noteq> PL_ACTIVE \<or> ip_paused p then (Inl (BadRequestException ''Plan cannot be paused''), s)
          else if ip_pauseCount p \<ge> MAX_PAUSES_PER_PLAN
          then (Inl (BadRequestException (''Pause limit reached (max '' @ show_int MAX_PAUSES_PER_PLAN @ '' pauses per plan)'')), s)
          else if (case ip_lastResumedAtLedger p of None \<Rightarrow> False
                   | Some r \<Rightarrow> currentLedger - r < MIN_LEDGERS_BETWEEN_PAUSES)
          then (Inl (TooManyRequestsException (''Pause cooldown active; wait ''
                 @ show_int (MIN_LEDGERS_BETWEEN_PAUSES - (currentLedger - the (ip_lastResumedAtLedger p))) @ '' more ledger(s)'')), s)
          else let p' = p\<lparr>ip_paused := True, ip_status := PL_PAUSED, ip_pausedAtLedger := Some currentLedger,
                          ip_pausedAt := Some (clock s), ip_pauseCount := ip_pauseCount p + 1\<rparr>
               in (Inr p', save_plan p' s))"

definition computePausedLedgers :: "int \<Rightarrow> int \<Rightarrow> int outcome" where
  "computePausedLedgers pausedAtLedger resumeLedger =
     (if resumeLedger < pausedAtLedger then Inl (JsError ''resumeLedger must be >= pausedAtLedger'')
      else Inr (resumeLedger - pausedAtLedger))"

definition resumePlan :: "uuid \<Rightarrow> int \<Rightarrow> plan plan_io" where
  "resumePlan i currentLedger s =
     (case find_plan i s of
        None \<Rightarrow> (Inl (NotFoundException ''Plan not found''), s)
      | Some p \<Rightarrow>
          if ip_status p \<noteq> PL_PAUSED \<or> \<not> ip_paused p then (Inl (BadRequestException ''Plan is not paused''), s)
          else let pausedAt = (case ip_pausedAtLedger p of None \<Rightarrow> currentLedger | Some l \<Rightarrow> l)
          in if currentLedger < pausedAt
          then (Inl (BadRequestException ''currentLedger must be >= pausedAtLedger''), s)
          else case computePausedLedgers pausedAt currentLedger of
            Inl e \<Rightarrow> (Inl e, s)
          | Inr pausedLedgers \<Rightarrow>
              let p' = p\<lparr>ip_nextDueLedger := ip_nextDueLedger p + pausedLedgers,
                         ip_expiryLedger := ip_expiryLedger p + pausedLedgers,
                         ip_totalPausedLedgers := ip_totalPausedLedgers p + pausedLedgers,
                         ip_paused := False, ip_status := PL_ACTIVE, ip_pausedAtLedger := None,
                         ip_pausedAt := None, ip_lastResumedAtLedger := Some currentLedger\<rparr>
              in (Inr p', save_plan p' s))"

definition getPlan :: "uuid \<Rightarrow> plan plan_io" where
  "getPlan i s = (case find_plan i s of None \<Rightarrow> (Inl (NotFoundException ''Plan not found''), s) | Some p \<Rightarrow> (Inr p, s))"

record accrual_state =
  accruing :: bool
  effectiveDueLedger :: int
  ledgersLate :: int
  completedPenaltyWindows :: int
  midWindowProgress :: "int \<times> int"

definition accrual_state_of :: "plan \<Rightarrow> int \<Rightarrow> accrual_state" where
  "accrual_state_of p currentLedger =
     (let interval = max (ip_intervalLedgers p) 1 in
      if ip_paused p
      then \<lparr>accruing = False, effectiveDueLedger = ip_nextDueLedger p, ledgersLate = 0,
            completedPenaltyWindows = 0, midWindowProgress = (0, 1)\<rparr>
      else let late = max 0 (currentLedger - ip_nextDueLedger p)
           in \<lparr>accruing = (late > 0), effectiveDueLedger = ip_nextDueLedger p, ledgersLate = late,
               completedPenaltyWindows = late div interval, midWindowProgress = (late mod interval, interval)\<rparr>)"

definition getPenaltyAccrualState :: "uuid \<Rightarrow> int \<Rightarrow> accrual_state plan_io" where
  "getPenaltyAccrualState i currentLedger s =
     (case getPlan i s of (Inl e, s1) \<Rightarrow> (Inl e, s1) | (Inr p, s1) \<Rightarrow> (Inr (accrual_state_of p currentLedger), s1))"

lemmas plan_handlers [handler_defs] =
  createInstallmentPlan_def settleInstallment_def pausePlan_def resumePlan_def

subsection \<open>The table of plans\<close>

definition plan_ok :: "plan \<Rightarrow> bool" where
  "plan_ok p \<longleftrightarrow> 1 \<le> ip_numInstallments p \<and> 0 \<le> ip_currentInstallment p \<and> ip_currentInstallment p \<le> ip_numInstallments p \<and>
     (ip_status p = PL_COMPLETED \<longleftrightarrow> ip_currentInstallment p = ip_numInstallments p) \<and>
     (ip_paused p \<longleftrightarrow> ip_status p = PL_PAUSED) \<and> (ip_paused p \<longleftrightarrow> ip_pausedAtLedger p \<noteq> None) \<and>
     0 \<le> ip_pauseCount p \<and> ip_pauseCount p \<le> MAX_PAUSES_PER_PLAN \<and> 0 \<le> ip_totalPausedLedgers p \<and>
     ip_nextDueLedger p = ip_intervalLedgers p * min (ip_currentInstallment p) (ip_numInstallments p - 1) + ip_totalPausedLedgers p"

definition plans_ok :: "plan_db \<Rightarrow> bool" where
  "plans_ok s \<longleftrightarrow> distinct (map ip_id (plans s)) \<and> (\<forall>p \<in> set (plans s). \<exists>k < plan_seq s. ip_id p = show_nat k) \<and>
     (\<forall>p \<in> set (plans s). plan_ok p)"

text \<open>How a plan may develop: its terms stay, progress and pauses only grow, a closed plan is left alone.\<close>

definition plan_le :: "plan \<Rightarrow> plan \<Rightarrow> bool" where
  "plan_le p p' \<longleftrightarrow> ip_id p' = ip_id p \<and> ip_totalAmount p' = ip_totalAmount p \<and>
     ip_numInstallments p' = ip_numInstallments p \<and> ip_intervalLedgers p' = ip_intervalLedgers p \<and>
     ip_installmentAmounts p' = ip_installmentAmounts p \<and>
     ip_currentInstallment p \<le> ip_currentInstallment p' \<and> ip_pauseCount p \<le> ip_pauseCount p' \<and>
     ip_totalPausedLedgers p \<le> ip_totalPausedLedgers p' \<and>
     ip_expiryLedger p' - ip_totalPausedLedgers p' = ip_expiryLedger p - ip_totalPausedLedgers p \<and>
     (ip_status p = PL_COMPLETED \<or> ip_status p = PL_EXPIRED \<longrightarrow> p' = p)"

lemma plan_le_refl [simp]: "plan_le p p"
  by (simp add: plan_le_def)

lemma plan_le_trans: "plan_le p q \<Longrightarrow> plan_le q r \<Longrightarrow> plan_le p r"
  by (auto simp: plan_le_def)

definition plans_le :: "plan_db \<Rightarrow> plan_db \<Rightarrow> bool" where
  "plans_le s s' \<longleftrightarrow> (\<forall>p \<in> set (plans s). \<exists>p' \<in> set (plans s'). plan_le p p')"

lemma find_planD: "find_plan i s = Some p \<Longrightarrow> p \<in> set (plans s) \<and> ip_id p = i"
  by (auto simp: find_plan_def dest: find_Some_mem)

lemma find_plan_saved:
  "plans_ok s \<Longrightarrow> find_plan (ip_id p) (save_plan p s) = Some p"
  using plan_store.saved_row_found [of s p] by (simp add: plans_ok_def find_plan_def save_plan_def)

lemma save_plan_step:
  assumes "plans_ok s" "find_plan i s = Some p" "plan_ok p \<Longrightarrow> plan_ok p'" "plan_le p p'"
  shows "plans_ok (save_plan p' s) \<and> plans_le s (save_plan p' s)"
proof -
  have p: "p \<in> set (plans s)" "ip_id p' = ip_id p" using find_planD [OF assms(2)] assms(4) by (simp_all add: plan_le_def)
  have same: "x = p" if "x \<in> set (plans s)" "ip_id x = ip_id p" for x
    using assms(1) p(1) that by (auto simp: plans_ok_def distinct_map dest: inj_onD)
  have ids: "map ip_id (plans (save_plan p' s)) = map ip_id (plans s)"
    using p by (simp add: save_plan_def)
  have rows: "set (plans (save_plan p' s)) = insert p' {x \<in> set (plans s). ip_id x \<noteq> ip_id p}"
    by (simp add: save_plan_def set_save_row p(2))
  have seq: "plan_seq (save_plan p' s) = plan_seq s" by (simp add: save_plan_def)
  have "plans_ok (save_plan p' s)"
    using assms(1,3) p unfolding plans_ok_def ids rows seq by auto
  moreover have "plans_le s (save_plan p' s)"
    unfolding plans_le_def rows using same assms(4) by (metis (mono_tags, lifting) insert_iff mem_Collect_eq plan_le_refl)
  ultimately show ?thesis by blast
qed

lemma plans_le_refl [simp]: "plans_le s s"
  unfolding plans_le_def using plan_le_refl by blast

lemma createInstallmentPlan_step:
  assumes "plans_ok s"
  shows "plans_ok (snd (createInstallmentPlan me cu t a n k e s)) \<and> plans_le s (snd (createInstallmentPlan me cu t a n k e s))"
proof (cases "n < 1 \<or> js_BigInt a = None")
  case True
  then have "snd (createInstallmentPlan me cu t a n k e s) = s"
    by (auto simp: createInstallmentPlan_def split: option.splits)
  with assms show ?thesis by simp
next
  case False
  then obtain x where x: "js_BigInt a = Some x" by blast
  let ?p = "new_plan me cu t a n k e (show_int (trunc_div x n)) (plan_seq s)"
  have run: "snd (createInstallmentPlan me cu t a n k e s) = s\<lparr>plans := plans s @ [?p], plan_seq := Suc (plan_seq s)\<rparr>"
    using False x by (simp add: createInstallmentPlan_def Let_def)
  have "plan_ok ?p" using False by (simp add: plan_ok_def new_plan_def MAX_PAUSES_PER_PLAN_def)
  moreover have "ip_id ?p = show_nat (plan_seq s)" by (simp add: new_plan_def)
  moreover have "ip_id q \<noteq> show_nat (plan_seq s)" if "q \<in> set (plans s)" for q
    using that assms unfolding plans_ok_def by (metis less_irrefl show_nat_inj)
  ultimately have "plans_ok (s\<lparr>plans := plans s @ [?p], plan_seq := Suc (plan_seq s)\<rparr>)"
    using assms unfolding plans_ok_def by (auto simp: less_Suc_eq)
  moreover have "plans_le s (s\<lparr>plans := plans s @ [?p], plan_seq := Suc (plan_seq s)\<rparr>)"
    unfolding plans_le_def using plan_le_refl by fastforce
  ultimately show ?thesis unfolding run by blast
qed

text \<open>What settling makes of an active plan whose installment is due.\<close>

abbreviation settled :: "plan \<Rightarrow> plan" where
  "settled p \<equiv> (if ip_currentInstallment p + 1 \<ge> ip_numInstallments p
     then p\<lparr>ip_currentInstallment := ip_currentInstallment p + 1, ip_status := PL_COMPLETED\<rparr>
     else p\<lparr>ip_currentInstallment := ip_currentInstallment p + 1,
            ip_nextDueLedger := ip_nextDueLedger p + ip_intervalLedgers p\<rparr>)"

lemma settled_ok:
  assumes "plan_ok p" "ip_status p = PL_ACTIVE" "ip_currentInstallment p < ip_numInstallments p"
  shows "plan_ok (settled p) \<and> plan_le p (settled p)"
proof (cases "ip_currentInstallment p + 1 \<ge> ip_numInstallments p")
  case True
  then have "ip_numInstallments p = ip_currentInstallment p + 1" using assms(3) by simp
  with assms show ?thesis by (auto simp: plan_ok_def plan_le_def)
next
  case False
  with assms show ?thesis by (auto simp: plan_ok_def plan_le_def algebra_simps)
qed

lemma settleInstallment_step:
  assumes "plans_ok s"
  shows "plans_ok (snd (settleInstallment i l s)) \<and> plans_le s (snd (settleInstallment i l s))"
proof (cases "snd (settleInstallment i l s) = s")
  case False
  then obtain p p' where p: "find_plan i s = Some p" and act: "ip_status p = PL_ACTIVE" "\<not> ip_paused p"
    and lt: "ip_currentInstallment p < ip_numInstallments p"
    and run: "snd (settleInstallment i l s) = save_plan p' s"
    and p': "p' = p\<lparr>ip_status := PL_EXPIRED\<rparr> \<or> p' = settled p"
    unfolding settleInstallment_def Let_def by (fastforce split: option.splits if_splits)
  have ok: "plan_ok p" using find_planD [OF p] assms by (simp add: plans_ok_def)
  have "plan_ok p' \<and> plan_le p p'"
    using p'
  proof
    assume "p' = p\<lparr>ip_status := PL_EXPIRED\<rparr>"
    with ok act lt show ?thesis by (simp add: plan_ok_def plan_le_def)
  next
    assume "p' = settled p"
    with settled_ok [OF ok act(1) lt] show ?thesis by blast
  qed
  then show ?thesis using save_plan_step [OF assms p] by (simp add: run)
qed (use assms in simp)

lemma pausePlan_Inr:
  assumes "pausePlan i l s = (Inr p', s')"
  shows "\<exists>p. find_plan i s = Some p \<and> ip_status p = PL_ACTIVE \<and> \<not> ip_paused p \<and> ip_pauseCount p < MAX_PAUSES_PER_PLAN \<and>
    (\<forall>r. ip_lastResumedAtLedger p = Some r \<longrightarrow> MIN_LEDGERS_BETWEEN_PAUSES \<le> l - r) \<and>
    p' = p\<lparr>ip_paused := True, ip_status := PL_PAUSED, ip_pausedAtLedger := Some l,
           ip_pausedAt := Some (clock s), ip_pauseCount := ip_pauseCount p + 1\<rparr> \<and> s' = save_plan p' s"
  using assms by (auto simp: pausePlan_def Let_def split: option.splits if_splits)

lemma resumePlan_Inr:
  assumes "resumePlan i l s = (Inr p', s')"
  shows "\<exists>p a. find_plan i s = Some p \<and> ip_status p = PL_PAUSED \<and> ip_paused p \<and>
    a = (case ip_pausedAtLedger p of None \<Rightarrow> l | Some x \<Rightarrow> x) \<and> a \<le> l \<and>
    p' = p\<lparr>ip_nextDueLedger := ip_nextDueLedger p + (l - a), ip_expiryLedger := ip_expiryLedger p + (l - a),
           ip_totalPausedLedgers := ip_totalPausedLedgers p + (l - a), ip_paused := False, ip_status := PL_ACTIVE,
           ip_pausedAtLedger := None, ip_pausedAt := None, ip_lastResumedAtLedger := Some l\<rparr> \<and> s' = save_plan p' s"
  using assms by (auto simp: resumePlan_def computePausedLedgers_def Let_def split: option.splits if_splits)

lemma pausePlan_step:
  assumes "plans_ok s"
  shows "plans_ok (snd (pausePlan i l s)) \<and> plans_le s (snd (pausePlan i l s))"
proof (cases "pausePlan i l s")
  case (Pair r s')
  show ?thesis
  proof (cases r)
    case (Inl e)
    then have "s' = s" using Pair by (auto simp: pausePlan_def Let_def split: option.splits if_splits)
    with Pair assms show ?thesis by simp
  next
    case (Inr p')
    with Pair obtain p where p: "find_plan i s = Some p" "ip_status p = PL_ACTIVE" "ip_pauseCount p < MAX_PAUSES_PER_PLAN"
      and p': "p' = p\<lparr>ip_paused := True, ip_status := PL_PAUSED, ip_pausedAtLedger := Some l,
           ip_pausedAt := Some (clock s), ip_pauseCount := ip_pauseCount p + 1\<rparr>" "s' = save_plan p' s"
      using pausePlan_Inr by blast
    have "plan_ok p \<Longrightarrow> plan_ok p'" "plan_le p p'" using p by (auto simp: p'(1) plan_ok_def plan_le_def)
    from save_plan_step [OF assms p(1) this] show ?thesis by (simp add: Pair p'(2))
  qed
qed

lemma resumePlan_step:
  assumes "plans_ok s"
  shows "plans_ok (snd (resumePlan i l s)) \<and> plans_le s (snd (resumePlan i l s))"
proof (cases "resumePlan i l s")
  case (Pair r s')
  show ?thesis
  proof (cases r)
    case (Inl e)
    then have "s' = s" using Pair by (auto simp: resumePlan_def computePausedLedgers_def Let_def split: option.splits if_splits)
    with Pair assms show ?thesis by simp
  next
    case (Inr p')
    with Pair obtain p a where p: "find_plan i s = Some p" "ip_status p = PL_PAUSED" "a \<le> l"
      and p': "p' = p\<lparr>ip_nextDueLedger := ip_nextDueLedger p + (l - a), ip_expiryLedger := ip_expiryLedger p + (l - a),
           ip_totalPausedLedgers := ip_totalPausedLedgers p + (l - a), ip_paused := False, ip_status := PL_ACTIVE,
           ip_pausedAtLedger := None, ip_pausedAt := None, ip_lastResumedAtLedger := Some l\<rparr>" "s' = save_plan p' s"
      using resumePlan_Inr by blast
    have "plan_ok p \<Longrightarrow> plan_ok p'" "plan_le p p'" using p by (auto simp: p'(1) plan_ok_def plan_le_def)
    from save_plan_step [OF assms p(1) this] show ?thesis by (simp add: Pair p'(2))
  qed
qed

datatype plan_op =
    CreatePlan uuid uuid string string int int int
  | Settle uuid int
  | Pause uuid int
  | Resume uuid int

fun plan_exec :: "plan_op \<Rightarrow> plan_db \<Rightarrow> plan_db" where
  "plan_exec (CreatePlan me cu t a n k e) s = snd (createInstallmentPlan me cu t a n k e s)"
| "plan_exec (Settle i l) s = snd (settleInstallment i l s)"
| "plan_exec (Pause i l) s = snd (pausePlan i l s)"
| "plan_exec (Resume i l) s = snd (resumePlan i l s)"

lemma plan_exec_step: "plans_ok s \<Longrightarrow> plans_ok (plan_exec op s) \<and> plans_le s (plan_exec op s)"
  by (cases op)
    (simp_all add: createInstallmentPlan_step settleInstallment_step pausePlan_step resumePlan_step)

interpretation installments: monotone_machine plan_exec plans_ok plans_le
proof unfold_locales
  show "plans_le s t \<Longrightarrow> plans_le t u \<Longrightarrow> plans_le s u" for s t u
    unfolding plans_le_def by (meson plan_le_trans)
qed (use plan_exec_step in auto)

text \<open>
  C11: Installment plans are consistent in every run. Whatever calls come in whatever order, a plan
  never has more installments settled than it has, is COMPLETED exactly when all are, is PAUSED
  exactly when its pause flag and pause ledger are set, has been paused at most three times, and
  its next due ledger is the schedule shifted by all the ledgers it was paused; its terms never
  change, its expiry moves with the pauses only, and a completed or expired plan is final.
\<close>

theorem plan_lifecycle:
  assumes "plans_ok s" "p \<in> set (plans s)"
  shows "\<exists>p' \<in> set (plans (fold plan_exec ops s)). plan_ok p' \<and> plan_le p p'"
proof -
  obtain p' where p': "p' \<in> set (plans (fold plan_exec ops s))" "plan_le p p'"
    using installments.run_le [OF assms(1), of ops] assms(2) unfolding plans_le_def by blast
  then have "plan_ok p'" using installments.run_inv [OF assms(1), of ops] by (simp add: plans_ok_def)
  with p' show ?thesis by blast
qed

text \<open>
  C24: The penalty clock stops while a plan is paused. When a plan is paused at ledger a and resumed
  at b, its lateness, its completed penalty windows and the progress in the current window at any
  ledger b + d are those it would have had at a + d without the pause, and in between nothing
  accrues; the due date moves by b - a.
\<close>

theorem pause_stops_clock:
  assumes "plans_ok s" "find_plan i s = Some p" "pausePlan i a s = (Inr q, s1)" "resumePlan i b s1 = (Inr r, s2)"
  shows "a \<le> b \<and> find_plan i s2 = Some r \<and> \<not> ip_paused r \<and>
    ledgersLate (accrual_state_of q l) = 0 \<and> \<not> accruing (accrual_state_of q l) \<and>
    accrual_state_of r (b + d) = (accrual_state_of p (a + d))\<lparr>effectiveDueLedger := ip_nextDueLedger p + (b - a)\<rparr>"
proof -
  have pause: "\<not> ip_paused p" and q: "q = p\<lparr>ip_paused := True, ip_status := PL_PAUSED, ip_pausedAtLedger := Some a,
      ip_pausedAt := Some (clock s), ip_pauseCount := ip_pauseCount p + 1\<rparr>" and s1: "s1 = save_plan q s"
    using pausePlan_Inr [OF assms(3)] assms(2) by auto
  have ok1: "plans_ok s1" using pausePlan_step [OF assms(1), of i a] assms(3) by simp
  have id: "ip_id q = i" using find_planD [OF assms(2)] by (simp add: q)
  have find1: "find_plan i s1 = Some q" using find_plan_saved [OF assms(1), of q] by (simp add: s1 id)
  obtain x where x: "x = a" "x \<le> b"
    and r: "r = q\<lparr>ip_nextDueLedger := ip_nextDueLedger q + (b - x), ip_expiryLedger := ip_expiryLedger q + (b - x),
           ip_totalPausedLedgers := ip_totalPausedLedgers q + (b - x), ip_paused := False, ip_status := PL_ACTIVE,
           ip_pausedAtLedger := None, ip_pausedAt := None, ip_lastResumedAtLedger := Some b\<rparr>"
    and s2: "s2 = save_plan r s1"
    using resumePlan_Inr [OF assms(4)] find1 by (auto simp: q)
  have "find_plan i s2 = Some r" using find_plan_saved [OF ok1, of r] id by (simp add: s2 r)
  moreover have "accrual_state_of r (b + d) = (accrual_state_of p (a + d))\<lparr>effectiveDueLedger := ip_nextDueLedger p + (b - a)\<rparr>"
    using pause by (simp add: accrual_state_of_def r q x Let_def algebra_simps)
  ultimately show ?thesis using x pause by (simp add: r q accrual_state_of_def Let_def)
qed

text \<open>
  Pausing cannot be abused. A plan that has been paused three times is never paused again, and
  a plan that was resumed at ledger r is not paused before ledger r + 100; the refused call
  changes nothing.
\<close>

theorem pause_limits:
  assumes "find_plan i s = Some p"
    and "ip_pauseCount p \<ge> 3 \<or> (\<exists>r. ip_lastResumedAtLedger p = Some r \<and> l < r + 100)"
  shows "\<not> is_ok (fst (pausePlan i l s)) \<and> snd (pausePlan i l s) = s"
proof -
  have "\<not> is_ok (fst (pausePlan i l s))"
  proof
    assume "is_ok (fst (pausePlan i l s))"
    then obtain p' where "pausePlan i l s = (Inr p', snd (pausePlan i l s))" using outcome_run by (metis is_ok_iff)
    from pausePlan_Inr [OF this] assms show False
      by (auto simp: MAX_PAUSES_PER_PLAN_def MIN_LEDGERS_BETWEEN_PAUSES_def)
  qed
  then show ?thesis by (auto simp: pausePlan_def Let_def split: option.splits if_splits)
qed

lemma settle_all:
  assumes "plans_ok s" "find_plan i s = Some p" "ip_status p = PL_ACTIVE" "ip_totalPausedLedgers p = 0"
    and "0 \<le> ip_intervalLedgers p" "ip_intervalLedgers p * (ip_numInstallments p - 1) \<le> l" "l \<le> ip_expiryLedger p"
    and "int n = ip_numInstallments p - ip_currentInstallment p"
  shows "\<exists>p'. find_plan i (((\<lambda>s. snd (settleInstallment i l s)) ^^ n) s) = Some p' \<and> ip_status p' = PL_COMPLETED"
  using assms
proof (induction n arbitrary: s p)
  case 0
  then have "plan_ok p" using find_planD [OF 0(2)] by (simp add: plans_ok_def)
  with 0 show ?case by (simp add: plan_ok_def)
next
  case (Suc n)
  have ok: "plan_ok p" using Suc.prems(1) find_planD [OF Suc.prems(2)] by (simp add: plans_ok_def)
  have more: "ip_currentInstallment p < ip_numInstallments p" using Suc.prems(8) by simp
  have "ip_intervalLedgers p * ip_currentInstallment p \<le> ip_intervalLedgers p * (ip_numInstallments p - 1)"
    using more Suc.prems(5) by (intro mult_left_mono) simp_all
  then have due: "ip_nextDueLedger p \<le> l" using ok more Suc.prems(4,6) by (simp add: plan_ok_def)
  let ?p = "settled p"
  have run: "snd (settleInstallment i l s) = save_plan ?p s"
    using Suc.prems ok more due by (simp add: settleInstallment_def plan_ok_def Let_def)
  have ok1: "plans_ok (save_plan ?p s)" using settleInstallment_step [OF Suc.prems(1), of i l] by (simp add: run)
  have "ip_id ?p = i" using find_planD [OF Suc.prems(2)] by simp
  then have find: "find_plan i (save_plan ?p s) = Some ?p" using find_plan_saved [OF Suc.prems(1), of ?p] by simp
  show ?case
  proof (cases "ip_currentInstallment p + 1 \<ge> ip_numInstallments p")
    case True
    then have "n = 0" using Suc.prems(8) by simp
    with True find run show ?thesis by simp
  next
    case False
    then have "\<exists>p'. find_plan i (((\<lambda>s. snd (settleInstallment i l s)) ^^ n) (save_plan ?p s)) = Some p' \<and> ip_status p' = PL_COMPLETED"
      using Suc.prems(3-8) by (intro Suc.IH [OF ok1 find]) simp_all
    then show ?thesis by (simp add: funpow_Suc_right run del: funpow.simps)
  qed
qed

text \<open>
  A plan can be settled at once. Because a new plan starts with due ledger 0, at any ledger
  that its schedule reaches counted from 0 and its expiry allows, calling settle as often as there
  are installments succeeds every time and completes the plan within one ledger.
\<close>

theorem new_plan_settled_at_once:
  assumes "plans_ok s" "createInstallmentPlan me cu t a (int n) k e s = (Inr p, s')"
    and "0 \<le> k" "k * (int n - 1) \<le> l" "l \<le> e"
  shows "\<exists>p'. find_plan (ip_id p) (((\<lambda>s. snd (settleInstallment (ip_id p) l s)) ^^ n) s') = Some p' \<and> ip_status p' = PL_COMPLETED"
proof -
  have ok: "plans_ok s'" using createInstallmentPlan_step [OF assms(1), of me cu t a "int n" k e] assms(2) by simp
  obtain x where p: "p = new_plan me cu t a (int n) k e x (plan_seq s)" and s': "p \<in> set (plans s')"
    using assms(2) by (auto simp: createInstallmentPlan_def Let_def split: if_splits option.splits)
  have "find_plan (ip_id p) s' = Some p"
    unfolding find_plan_def using ok s' by (intro find_unique) (auto simp: plans_ok_def distinct_map dest: inj_onD)
  from settle_all [OF ok this] assms(3-5) show ?thesis by (simp add: p new_plan_def)
qed

text \<open>
  The installments do not add up to the amount. For a non-negative total the installments sum
  to the total less the remainder of the division, which is lost: up to one unit less than the
  number of installments.
\<close>

theorem installments_lose_remainder:
  assumes "createInstallmentPlan me cu t a n k e s = (Inr p, s')" "js_BigInt a = Some x" "0 \<le> x"
  shows "ip_installmentAmounts p = replicate (nat n) (show_int (x div n)) \<and>
    int (length (ip_installmentAmounts p)) * (x div n) = x - x mod n \<and> 0 \<le> x mod n \<and> x mod n < n"
proof -
  have n: "1 \<le> n" using assms(1) by (auto simp: createInstallmentPlan_def split: if_splits)
  have "trunc_div x n = x div n"
    using n assms(3) by (cases "x = 0") (simp_all add: trunc_div_def)
  then have "ip_installmentAmounts p = replicate (nat n) (show_int (x div n))"
    using assms(1,2) n by (auto simp: createInstallmentPlan_def new_plan_def Let_def)
  moreover have "n * (x div n) = x - x mod n" by (simp add: minus_mod_eq_mult_div)
  ultimately show ?thesis using n by simp
qed

subsection \<open>Concrete runs\<close>

definition demo_plans :: plan_db where
  "demo_plans = \<lparr>plans = [], plan_seq = 0, clock = 7\<rparr>"

definition demo_plan :: plan where
  "demo_plan = new_plan ''m'' ''c'' ''XLM'' ''7'' 2 10 50 ''3'' 0"

definition demo_created :: plan_db where
  "demo_created = demo_plans\<lparr>plans := [demo_plan], plan_seq := 1\<rparr>"

lemma demo_plans_ok: "plans_ok demo_plans"
  by (simp add: plans_ok_def demo_plans_def)

lemma demo_create:
  "createInstallmentPlan ''m'' ''c'' ''XLM'' ''7'' (int 2) 10 50 demo_plans = (Inr demo_plan, demo_created)"
  by code_simp

lemma demo_create_ok: "plans_ok demo_created"
  using createInstallmentPlan_step [OF demo_plans_ok, of "''m''" "''c''" "''XLM''" "''7''" "int 2" 10 50]
  unfolding demo_create by simp

lemma demo_found: "find_plan ''0'' demo_created = Some demo_plan"
  by code_simp

lemma demo_amount: "js_BigInt ''7'' = Some 7"
  by code_simp

theorem plan_lifecycle_witness:
  "\<exists>p' \<in> set (plans (fold plan_exec [Pause ''0'' 1, Settle ''0'' 2, Resume ''0'' 3, Settle ''0'' 4] demo_created)).
     plan_ok p' \<and> plan_le demo_plan p'"
  by (rule plan_lifecycle [OF demo_create_ok]) (simp add: demo_created_def)

theorem pause_stops_clock_witness:
  "\<exists>q r s1 s2. pausePlan ''0'' 15 demo_created = (Inr q, s1) \<and> resumePlan ''0'' 40 s1 = (Inr r, s2) \<and>
     accrual_state_of r (40 + 8) = (accrual_state_of demo_plan (15 + 8))\<lparr>effectiveDueLedger := 25\<rparr>"
proof -
  have "is_ok (fst (pausePlan ''0'' 15 demo_created))" by code_simp
  then obtain q s1 where 1: "pausePlan ''0'' 15 demo_created = (Inr q, s1)" by (metis is_ok_iff prod.collapse)
  have "is_ok (fst (resumePlan ''0'' 40 (snd (pausePlan ''0'' 15 demo_created))))" by code_simp
  then obtain r s2 where 2: "resumePlan ''0'' 40 s1 = (Inr r, s2)" using 1 by (metis is_ok_iff prod.collapse snd_conv)
  from pause_stops_clock [OF demo_create_ok demo_found 1 2, of 0 8] 1 2 show ?thesis
    by (auto simp: demo_plan_def new_plan_def)
qed

theorem pause_limits_witness:
  "\<not> is_ok (fst (pausePlan ''0'' 99 (plan_exec (Resume ''0'' 3) (plan_exec (Pause ''0'' 1) demo_created))))"
proof -
  let ?s = "plan_exec (Resume ''0'' 3) (plan_exec (Pause ''0'' 1) demo_created)"
  have "map_option ip_lastResumedAtLedger (find_plan ''0'' ?s) = Some (Some 3)" by code_simp
  then obtain p where "find_plan ''0'' ?s = Some p" "ip_lastResumedAtLedger p = Some 3" by auto
  from pause_limits [OF this(1), of 99] this(2) show ?thesis by simp
qed

theorem new_plan_settled_at_once_witness:
  "\<exists>p'. find_plan (ip_id demo_plan) (((\<lambda>s. snd (settleInstallment (ip_id demo_plan) 10 s)) ^^ 2) demo_created) = Some p' \<and>
     ip_status p' = PL_COMPLETED"
  by (rule new_plan_settled_at_once [OF demo_plans_ok demo_create]) simp_all

theorem installments_lose_remainder_witness:
  "ip_installmentAmounts demo_plan = replicate 2 (show_int 3)"
  using installments_lose_remainder [OF demo_create, of 7] by (simp add: demo_amount)

end
