(* ===== verification/TrustScore.thy ===== *)
theory TrustScore
  imports Complex_Main Penalties
begin

text \<open>
  \<open>TrustScoreService\<close> (\<open>trust-score/trust-score.service.ts\<close>) and its job
  (\<open>trust-score/trust-score-recalculation.processor.ts\<close>): the score of a user over all groups, the
  signal for repeated cohorts, and the nightly recalculation in batches. The service only reads
  the tables of the other components; its own state is the table of scores and the emitted events.
  Numbers with fractions are rational where the code has doubles, so a value that lies exactly
  between two representable decimals may be rounded the other way by the code. The library keeps
  the creation and update dates of rows; they are not modelled.
\<close>

subsection \<open>The formula\<close>

record trust_components =
  tc_onTime :: int
  tc_late :: int
  tc_missed :: int
  tc_penaltiesIncurred :: int
  tc_penaltiesPaid :: int
  tc_groupsCompleted :: int
  tc_groupsParticipated :: int

definition ON_TIME_WEIGHT :: int where "ON_TIME_WEIGHT = 60"
definition PENALTY_DEDUCTION :: int where "PENALTY_DEDUCTION = 5"
definition COMPLETION_BONUS_PER_GROUP :: int where "COMPLETION_BONUS_PER_GROUP = 4"
definition COMPLETION_BONUS_CAP :: int where "COMPLETION_BONUS_CAP = 20"
definition SCORE_MIN :: rat where "SCORE_MIN = 0"
definition SCORE_MAX :: rat where "SCORE_MAX = 100"
definition TRUST_SCORE_BATCH_SIZE :: nat where "TRUST_SCORE_BATCH_SIZE = 200"

lemmas trust_constants =
  ON_TIME_WEIGHT_def PENALTY_DEDUCTION_def COMPLETION_BONUS_PER_GROUP_def COMPLETION_BONUS_CAP_def
  SCORE_MIN_def SCORE_MAX_def

text \<open>\<open>parseFloat(x.toFixed(d))\<close>, with \<open>p = 10 ^ d\<close>.\<close>

definition to_fixed :: "int \<Rightarrow> rat \<Rightarrow> rat" where
  "to_fixed p x =
     (if x < 0 then - (of_int \<lfloor>- x * of_int p + 1 / 2\<rfloor> / of_int p) else of_int \<lfloor>x * of_int p + 1 / 2\<rfloor> / of_int p)"

definition raw_score :: "trust_components \<Rightarrow> rat" where
  "raw_score c =
     (let contributed = tc_onTime c + tc_late c + tc_missed c;
          base = (if contributed > 0 then of_int (tc_onTime c) / of_int contributed * of_int ON_TIME_WEIGHT else 0);
          outstanding = max 0 (tc_penaltiesIncurred c - tc_penaltiesPaid c);
          completionBonus = min (tc_groupsCompleted c * COMPLETION_BONUS_PER_GROUP) COMPLETION_BONUS_CAP
      in base - of_int (outstanding * PENALTY_DEDUCTION) + of_int completionBonus)"

definition computeTrustScore :: "trust_components \<Rightarrow> rat" where
  "computeTrustScore c = min SCORE_MAX (max SCORE_MIN (to_fixed 100 (raw_score c)))"

subsection \<open>Repeated cohorts\<close>

definition ANTI_GAMING_MIN_GROUPS :: int where "ANTI_GAMING_MIN_GROUPS = 3"
definition ANTI_GAMING_MIN_REPEATED_GROUPS :: int where "ANTI_GAMING_MIN_REPEATED_GROUPS = 3"
definition ANTI_GAMING_FLAG_THRESHOLD :: rat where "ANTI_GAMING_FLAG_THRESHOLD = 3 / 4"

record anti_gaming =
  ag_confidence :: rat
  ag_flagged :: bool

definition groups_of_user :: "uuid \<Rightarrow> membership list \<Rightarrow> uuid list" where
  "groups_of_user uid ms = remdups (map m_groupId (filter (\<lambda>m. m_userId m = uid) ms))"

definition shared_rows :: "uuid \<Rightarrow> membership list \<Rightarrow> membership list" where
  "shared_rows uid ms = filter (\<lambda>m. m_userId m \<noteq> uid \<and> m_groupId m \<in> set (groups_of_user uid ms)) ms"

definition max_repeated :: "uuid \<Rightarrow> membership list \<Rightarrow> int" where
  "max_repeated uid ms =
     (let rows = shared_rows uid ms
      in foldr max (map (\<lambda>v. count_rows (\<lambda>m. m_userId m = v) rows) (remdups (map m_userId rows))) 0)"

definition detectRepeatedCohort :: "uuid \<Rightarrow> membership list \<Rightarrow> anti_gaming" where
  "detectRepeatedCohort uid ms =
     (let size = int (length (groups_of_user uid ms))
      in if size < ANTI_GAMING_MIN_GROUPS then \<lparr>ag_confidence = 0, ag_flagged = False\<rparr>
         else let repeated = max_repeated uid ms; confidence = min 1 (of_int repeated / of_int size)
              in \<lparr>ag_confidence = to_fixed 10000 confidence,
                  ag_flagged = (repeated \<ge> ANTI_GAMING_MIN_REPEATED_GROUPS \<and> confidence \<ge> ANTI_GAMING_FLAG_THRESHOLD)\<rparr>)"

subsection \<open>Recalculation\<close>

record trust_score =
  ts_userId :: uuid
  ts_score :: rat
  ts_antiGamingConfidence :: rat
  ts_antiGamingFlagged :: bool
  ts_components :: trust_components
  ts_lastCalculatedAt :: "time option"

record trust_db =
  scores :: "trust_score list"
  emitted :: "(uuid \<times> rat \<times> time) list"

definition no_components :: trust_components where
  "no_components = \<lparr>tc_onTime = 0, tc_late = 0, tc_missed = 0, tc_penaltiesIncurred = 0, tc_penaltiesPaid = 0,
     tc_groupsCompleted = 0, tc_groupsParticipated = 0\<rparr>"

text \<open>The loops over the rows: a row of a user outside the batch is skipped.\<close>

definition update_entry :: "('r \<Rightarrow> 'k) \<Rightarrow> ('r \<Rightarrow> 'v \<Rightarrow> 'v) \<Rightarrow> 'r \<Rightarrow> ('k \<rightharpoonup> 'v) \<Rightarrow> ('k \<rightharpoonup> 'v)" where
  "update_entry key f r m = (case m (key r) of None \<Rightarrow> m | Some v \<Rightarrow> m(key r \<mapsto> f r v))"

definition add_contribution :: "contribution \<Rightarrow> trust_components \<Rightarrow> trust_components" where
  "add_contribution c tc =
     (case c_status c of
        CS_CONFIRMED \<Rightarrow> tc\<lparr>tc_onTime := tc_onTime tc + 1\<rparr>
      | CS_PENDING \<Rightarrow> tc\<lparr>tc_late := tc_late tc + 1\<rparr>
      | CS_FAILED \<Rightarrow> tc\<lparr>tc_missed := tc_missed tc + 1\<rparr>
      | CS_ON_CHAIN_SUBMITTED \<Rightarrow> tc)"

definition add_penalty :: "penalty \<Rightarrow> trust_components \<Rightarrow> trust_components" where
  "add_penalty p tc =
     (let tc1 = tc\<lparr>tc_penaltiesIncurred := tc_penaltiesIncurred tc + 1\<rparr>
      in if p_status p = PS_PAID then tc1\<lparr>tc_penaltiesPaid := tc_penaltiesPaid tc1 + 1\<rparr> else tc1)"

definition set_groups :: "uuid set \<Rightarrow> uuid \<times> uuid list \<Rightarrow> trust_components \<Rightarrow> trust_components" where
  "set_groups completed e tc =
     tc\<lparr>tc_groupsParticipated := int (length (snd e)),
          tc_groupsCompleted := int (length (filter (\<lambda>g. g \<in> completed) (snd e)))\<rparr>"

definition completed_groups :: "uuid list \<Rightarrow> world \<Rightarrow> uuid set" where
  "completed_groups ids w =
     g_id ` set (filter (\<lambda>g. g_id g \<in> set ids \<and> g_status g = GS_COMPLETED \<and> g_deletedAt g = None) (groups w))"

definition components_by_user :: "uuid list \<Rightarrow> world \<Rightarrow> (uuid \<rightharpoonup> trust_components)" where
  "components_by_user ids w =
     (let cs = filter (\<lambda>c. c_userId c \<in> set ids) (contributions w);
          ps = filter (\<lambda>p. p_userId p \<in> set ids) (penalties w);
          ms = filter (\<lambda>m. m_userId m \<in> set ids) (memberships w);
          completed = completed_groups (remdups (map m_groupId ms)) w;
          byUser = map (\<lambda>u. (u, groups_of_user u ms)) (remdups (map m_userId ms));
          m0 = map_of (map (\<lambda>u. (u, no_components)) ids);
          m1 = fold (update_entry c_userId add_contribution) cs m0;
          m2 = fold (update_entry p_userId add_penalty) ps m1
      in fold (update_entry fst (set_groups completed)) byUser m2)"

definition group_rows :: "uuid list \<Rightarrow> world \<Rightarrow> membership list" where
  "group_rows ids w =
     (let ms = filter (\<lambda>m. m_userId m \<in> set ids) (memberships w); gids = map m_groupId ms
      in filter (\<lambda>m. m_groupId m \<in> set gids) (memberships w))"

definition score_row :: "uuid \<Rightarrow> trust_components \<Rightarrow> anti_gaming \<Rightarrow> time \<Rightarrow> trust_score" where
  "score_row uid tc ag t =
     \<lparr>ts_userId = uid, ts_score = computeTrustScore tc, ts_antiGamingConfidence = ag_confidence ag,
      ts_antiGamingFlagged = ag_flagged ag, ts_components = tc, ts_lastCalculatedAt = Some t\<rparr>"

definition upsert_score :: "trust_score \<Rightarrow> trust_db \<Rightarrow> trust_db" where
  "upsert_score r d =
     d\<lparr>scores := save_row ts_userId r (scores d),
       emitted := emitted d @ [(ts_userId r, ts_score r, the (ts_lastCalculatedAt r))]\<rparr>"

definition recalculateBatch :: "uuid list \<Rightarrow> world \<Rightarrow> trust_db \<Rightarrow> trust_db" where
  "recalculateBatch ids w d =
     (if ids = [] then d
      else let comps = components_by_user ids w; rows = group_rows ids w
           in fold (\<lambda>u. upsert_score (score_row u (the (comps u)) (detectRepeatedCohort u rows) (now w))) ids d)"

text \<open>The loop over the batches; users are in the order of their creation.\<close>

function recalculate_from :: "nat \<Rightarrow> nat \<Rightarrow> world \<Rightarrow> nat \<times> trust_db \<Rightarrow> nat \<times> trust_db" where
  "recalculate_from total_users offset w (processed, d) =
     (if offset < total_users
      then let batch = take TRUST_SCORE_BATCH_SIZE (drop offset (users w))
           in if batch = [] then (processed, d)
              else recalculate_from total_users (offset + TRUST_SCORE_BATCH_SIZE) w
                     (processed + length batch, recalculateBatch (map u_id batch) w d)
      else (processed, d))"
  by pat_completeness auto

termination
  by (relation "measure (\<lambda>(n, offset, w, s). n - offset)") (simp_all add: TRUST_SCORE_BATCH_SIZE_def)

declare recalculate_from.simps [simp del]

definition recalculateAll :: "world \<Rightarrow> trust_db \<Rightarrow> nat \<times> trust_db" where
  "recalculateAll w d = recalculate_from (length (users w)) 0 w (0, d)"

definition handleRecalculate :: "uuid list option \<Rightarrow> world \<Rightarrow> trust_db \<Rightarrow> nat \<times> trust_db" where
  "handleRecalculate ids w d =
     (case ids of
        Some (u # us) \<Rightarrow> (length (u # us), recalculateBatch (u # us) w d)
      | _ \<Rightarrow> recalculateAll w d)"

subsection \<open>Queries\<close>

text \<open>What the response is built from; an empty score stands in for a user without one.\<close>

definition getTrustScore :: "uuid \<Rightarrow> uuid \<Rightarrow> string \<Rightarrow> bool \<Rightarrow> world \<Rightarrow> trust_db \<Rightarrow> trust_score outcome" where
  "getTrustScore targetUserId callerId callerRole isGroupAdmin w d =
     (if callerId \<noteq> targetUserId \<and> callerRole \<noteq> ''admin'' \<and> \<not> isGroupAdmin
      then Inl (ForbiddenException ''Access denied: only the user themselves or a group admin may view this score.'')
      else case List.find (\<lambda>r. ts_userId r = targetUserId) (scores d) of
             Some r \<Rightarrow> Inr r
           | None \<Rightarrow>
               if \<exists>u \<in> set (users w). u_id u = targetUserId
               then Inr \<lparr>ts_userId = targetUserId, ts_score = 0, ts_antiGamingConfidence = 0, ts_antiGamingFlagged = False,
                         ts_components = no_components, ts_lastCalculatedAt = None\<rparr>
               else Inl (NotFoundException ''User not found''))"

definition isCallerGroupAdminOfUser :: "uuid \<Rightarrow> uuid \<Rightarrow> world \<Rightarrow> bool" where
  "isCallerGroupAdminOfUser callerId targetUserId w =
     (let gids = map m_groupId (filter (\<lambda>m. m_userId m = targetUserId) (memberships w))
      in gids \<noteq> [] \<and>
         (case List.find (\<lambda>u. u_id u = callerId) (users w) of
            None \<Rightarrow> False
          | Some u \<Rightarrow> \<exists>g \<in> set (groups w). g_id g \<in> set gids \<and> g_adminWallet g = u_walletAddress u \<and> g_deletedAt g = None))"

text \<open>The order of rows of equal confidence is that of their update dates, given as an argument.\<close>

definition listFlaggedScores :: "(trust_score \<Rightarrow> time) \<Rightarrow> trust_db \<Rightarrow> trust_score list" where
  "listFlaggedScores updatedAt d =
     sort_key (\<lambda>r. - ts_antiGamingConfidence r) (sort_key (\<lambda>r. - updatedAt r) (filter ts_antiGamingFlagged (scores d)))"


subsection \<open>Bounds and monotonicity of the score\<close>

lemma to_fixed_mono:
  assumes "0 < p" "x \<le> y"
  shows "to_fixed p x \<le> to_fixed p y"
proof -
  have p: "0 < (of_int p :: rat)" using assms(1) by simp
  have mono: "\<lfloor>a * of_int p + 1 / 2\<rfloor> \<le> \<lfloor>b * of_int p + 1 / 2\<rfloor>" if "a \<le> b" for a b :: rat
    using that p by (intro floor_mono) simp
  have sign: "0 \<le> (of_int \<lfloor>z * of_int p + 1 / 2\<rfloor> :: rat) / of_int p" if "0 \<le> z" for z :: rat
    using that p by (auto simp: le_floor_iff intro!: divide_nonneg_pos)
  show ?thesis
  proof (cases "x < 0")
    case True
    show ?thesis
    proof (cases "y < 0")
      case y: True
      have "(of_int \<lfloor>- y * of_int p + 1 / 2\<rfloor> :: rat) / of_int p \<le> of_int \<lfloor>- x * of_int p + 1 / 2\<rfloor> / of_int p"
        using mono [of "- y" "- x"] assms(2) p by (intro divide_right_mono) simp_all
      with True y show ?thesis by (simp add: to_fixed_def)
    next
      case False
      with True sign [of "- x"] sign [of y] show ?thesis by (simp add: to_fixed_def)
    qed
  next
    case False
    have "(of_int \<lfloor>x * of_int p + 1 / 2\<rfloor> :: rat) / of_int p \<le> of_int \<lfloor>y * of_int p + 1 / 2\<rfloor> / of_int p"
      using mono [of x y] assms(2) p by (intro divide_right_mono) simp_all
    with False assms(2) show ?thesis by (simp add: to_fixed_def)
  qed
qed

lemma to_fixed_int: "0 < p \<Longrightarrow> to_fixed p (of_int n) = of_int n"
proof -
  assume p: "0 < p"
  have fl: "\<lfloor>(of_int m :: rat) * of_int p + 1 / 2\<rfloor> = m * p" for m :: int
    by (subst of_int_mult [symmetric], subst floor_unique [of "m * p"]) simp_all
  show ?thesis using p fl [of n] fl [of "- n"] by (simp add: to_fixed_def)
qed

definition counts_ok :: "trust_components \<Rightarrow> bool" where
  "counts_ok c \<longleftrightarrow> 0 \<le> tc_onTime c \<and> 0 \<le> tc_late c \<and> 0 \<le> tc_missed c \<and> 0 \<le> tc_groupsCompleted c"

text \<open>A history that is at least as good: more on time and completed, less late, missed and unpaid.\<close>

definition as_good :: "trust_components \<Rightarrow> trust_components \<Rightarrow> bool" where
  "as_good c c' \<longleftrightarrow> tc_onTime c \<le> tc_onTime c' \<and> tc_late c' + tc_missed c' \<le> tc_late c + tc_missed c \<and>
     tc_penaltiesIncurred c' - tc_penaltiesPaid c' \<le> tc_penaltiesIncurred c - tc_penaltiesPaid c \<and>
     tc_groupsCompleted c \<le> tc_groupsCompleted c'"

definition on_time_ratio :: "int \<Rightarrow> int \<Rightarrow> rat" where
  "on_time_ratio a b = (if a + b > 0 then of_int a / of_int (a + b) else 0)"

lemma on_time_ratio_mono:
  assumes "0 \<le> a" "0 \<le> b'" "a \<le> a'" "b' \<le> b"
  shows "on_time_ratio a b \<le> on_time_ratio a' b'"
proof (cases "a + b > 0 \<and> a' + b' > 0")
  case True
  have "a * b' \<le> a' * b" using assms by (intro mult_mono) simp_all
  then have "a * (a' + b') \<le> a' * (a + b)" by (simp add: algebra_simps)
  then have "(of_int (a * (a' + b')) :: rat) \<le> of_int (a' * (a + b))" by (simp only: of_int_le_iff)
  then have "(of_int a :: rat) * of_int (a' + b') \<le> of_int a' * of_int (a + b)" by (simp only: of_int_mult)
  moreover have "0 < (of_int (a + b) :: rat)" "0 < (of_int (a' + b') :: rat)" using True by simp_all
  ultimately have "(of_int a :: rat) / of_int (a + b) \<le> of_int a' / of_int (a' + b')"
    by (simp only: divide_le_eq pos_le_divide_eq) (simp add: field_simps)
  with True show ?thesis by (simp only: on_time_ratio_def if_True)
next
  case False
  have "0 \<le> on_time_ratio a' b'"
    using assms by (auto simp: on_time_ratio_def intro!: divide_nonneg_nonneg)
  moreover have "on_time_ratio a b = 0" if "a' + b' \<le> 0" using that assms by (simp add: on_time_ratio_def)
  ultimately show ?thesis using False by (auto simp: on_time_ratio_def not_less)
qed

lemma on_time_ratio_bounds:
  assumes "0 \<le> a" "0 \<le> b"
  shows "0 \<le> on_time_ratio a b" "on_time_ratio a b \<le> 1"
  using assms on_time_ratio_mono [of a 0 a b]
  by (auto simp: on_time_ratio_def intro!: divide_nonneg_nonneg split: if_splits)

lemma raw_score_eq:
  "raw_score c = on_time_ratio (tc_onTime c) (tc_late c + tc_missed c) * 60
     - of_int (5 * max 0 (tc_penaltiesIncurred c - tc_penaltiesPaid c)) + of_int (min (4 * tc_groupsCompleted c) 20)"
  by (simp add: raw_score_def on_time_ratio_def trust_constants Let_def add.assoc mult.commute)

lemma clamp_mono: "x \<le> y \<Longrightarrow> min (c :: rat) (max d x) \<le> min c (max d y)"
  by auto

text \<open>
  The score lies between 0 and 80. Its parts are worth at most 60 and 20 points, so the upper
  limit of 100 that the formula clamps to is never reached.
\<close>

theorem trust_score_bounds:
  assumes "counts_ok c"
  shows "0 \<le> computeTrustScore c \<and> computeTrustScore c \<le> 80"
proof -
  have "on_time_ratio (tc_onTime c) (tc_late c + tc_missed c) * 60 \<le> 60"
    using assms on_time_ratio_bounds(2) [of "tc_onTime c" "tc_late c + tc_missed c"] by (simp add: counts_ok_def)
  moreover have "0 \<le> (of_int (5 * max 0 (tc_penaltiesIncurred c - tc_penaltiesPaid c)) :: rat)" by simp
  moreover have "(of_int (min (4 * tc_groupsCompleted c) 20) :: rat) \<le> 20"
    using of_int_le_iff [of "min (4 * tc_groupsCompleted c) 20" 20, where 'a = rat] by simp
  ultimately have "raw_score c \<le> of_int 80" unfolding raw_score_eq by linarith
  then have "to_fixed 100 (raw_score c) \<le> 80"
    using to_fixed_mono [of 100 "raw_score c" "of_int 80"] to_fixed_int [of 100 80] by simp
  then show ?thesis by (simp add: computeTrustScore_def trust_constants)
qed

text \<open>
  A better history never has a lower score: more contributions on time, fewer late or missed
  ones, fewer unpaid penalties and more completed groups each keep or raise it.
\<close>

theorem trust_score_monotone:
  assumes "counts_ok c" "counts_ok c'" "as_good c c'"
  shows "computeTrustScore c \<le> computeTrustScore c'"
proof -
  have "on_time_ratio (tc_onTime c) (tc_late c + tc_missed c) \<le> on_time_ratio (tc_onTime c') (tc_late c' + tc_missed c')"
    using assms by (intro on_time_ratio_mono) (simp_all add: counts_ok_def as_good_def)
  moreover have "(of_int (5 * max 0 (tc_penaltiesIncurred c' - tc_penaltiesPaid c')) :: rat)
      \<le> of_int (5 * max 0 (tc_penaltiesIncurred c - tc_penaltiesPaid c))"
    using assms(3) unfolding of_int_le_iff by (auto simp: as_good_def)
  moreover have "(of_int (min (4 * tc_groupsCompleted c) 20) :: rat) \<le> of_int (min (4 * tc_groupsCompleted c') 20)"
    using assms(3) unfolding of_int_le_iff by (auto simp: as_good_def)
  ultimately have "raw_score c \<le> raw_score c'" unfolding raw_score_eq by linarith
  then show ?thesis unfolding computeTrustScore_def by (intro clamp_mono to_fixed_mono) simp_all
qed


subsection \<open>The batch against one user at a time\<close>

text \<open>The components and the score of one user, counted directly in the tables.\<close>

definition groups_joined :: "uuid \<Rightarrow> world \<Rightarrow> uuid set" where
  "groups_joined u w = {m_groupId m |m. m \<in> set (memberships w) \<and> m_userId m = u}"

definition reference_components :: "uuid \<Rightarrow> world \<Rightarrow> trust_components" where
  "reference_components u w =
     \<lparr>tc_onTime = count_rows (\<lambda>c. c_userId c = u \<and> c_status c = CS_CONFIRMED) (contributions w),
      tc_late = count_rows (\<lambda>c. c_userId c = u \<and> c_status c = CS_PENDING) (contributions w),
      tc_missed = count_rows (\<lambda>c. c_userId c = u \<and> c_status c = CS_FAILED) (contributions w),
      tc_penaltiesIncurred = count_rows (\<lambda>p. p_userId p = u) (penalties w),
      tc_penaltiesPaid = count_rows (\<lambda>p. p_userId p = u \<and> p_status p = PS_PAID) (penalties w),
      tc_groupsCompleted = int (card (groups_joined u w \<inter>
         {g_id g |g. g \<in> set (groups w) \<and> g_status g = GS_COMPLETED \<and> g_deletedAt g = None})),
      tc_groupsParticipated = int (card (groups_joined u w))\<rparr>"

definition reference_score :: "uuid \<Rightarrow> world \<Rightarrow> trust_score" where
  "reference_score u w = score_row u (reference_components u w) (detectRepeatedCohort u (memberships w)) (now w)"

lemma fold_update_entry:
  "fold (update_entry key f) rows m u = map_option (fold f (filter (\<lambda>r. key r = u) rows)) (m u)"
proof (induction rows arbitrary: m)
  case (Cons r rows)
  have "update_entry key f r m u = (if key r = u then map_option (f r) (m u) else m u)"
    by (auto simp: update_entry_def split: option.splits)
  with Cons show ?case by (simp add: option.map_comp comp_def)
qed (simp add: option.map_id0)

lemma filter_in_batch:
  "u \<in> A \<Longrightarrow> filter (\<lambda>r. key r = u) (filter (\<lambda>r. key r \<in> A) rows) = filter (\<lambda>r. key r = u) rows"
  by (auto simp: filter_filter intro: filter_cong)

lemma count_rows_filter: "count_rows P (filter Q t) = count_rows (\<lambda>x. Q x \<and> P x) t"
  by (simp add: count_rows_def conj_commute)

lemma fold_add_contribution:
  "fold add_contribution cs tc = tc\<lparr>tc_onTime := tc_onTime tc + count_rows (\<lambda>c. c_status c = CS_CONFIRMED) cs,
     tc_late := tc_late tc + count_rows (\<lambda>c. c_status c = CS_PENDING) cs,
     tc_missed := tc_missed tc + count_rows (\<lambda>c. c_status c = CS_FAILED) cs\<rparr>"
proof (induction cs arbitrary: tc)
  case (Cons c cs)
  then show ?case by (cases "c_status c") (simp_all add: add_contribution_def)
qed simp

lemma fold_add_penalty:
  "fold add_penalty ps tc = tc\<lparr>tc_penaltiesIncurred := tc_penaltiesIncurred tc + count_rows (\<lambda>p. True) ps,
     tc_penaltiesPaid := tc_penaltiesPaid tc + count_rows (\<lambda>p. p_status p = PS_PAID) ps\<rparr>"
proof (induction ps arbitrary: tc)
  case (Cons p ps)
  then show ?case by (cases "p_status p = PS_PAID") (simp_all add: add_penalty_def Let_def)
qed simp

lemma filter_entries:
  "distinct vs \<Longrightarrow> filter (\<lambda>e. fst e = u) (map (\<lambda>v. (v, h v)) vs) = (if u \<in> set vs then [(u, h u)] else [])"
  by (induction vs) auto

lemma groups_of_user_filter:
  "u \<in> A \<Longrightarrow> groups_of_user u (filter (\<lambda>m. m_userId m \<in> A) ms) = groups_of_user u ms"
  unfolding groups_of_user_def by (simp only: filter_in_batch)

lemma set_groups_of_user: "set (groups_of_user u (memberships w)) = groups_joined u w"
  by (auto simp: groups_of_user_def groups_joined_def)

lemma distinct_groups_of_user: "distinct (groups_of_user u ms)"
  by (simp add: groups_of_user_def)

lemma completed_groups_eq:
  "completed_groups ids w =
     {g_id g |g. g \<in> set (groups w) \<and> g_status g = GS_COMPLETED \<and> g_deletedAt g = None} \<inter> set ids"
  by (auto simp: completed_groups_def)

lemma completed_in_groups:
  assumes "u \<in> set ids"
  shows "length (filter (\<lambda>g. g \<in> completed_groups (remdups (map m_groupId (filter (\<lambda>m. m_userId m \<in> set ids) (memberships w)))) w)
      (groups_of_user u (memberships w))) = card (groups_joined u w \<inter>
         {g_id g |g. g \<in> set (groups w) \<and> g_status g = GS_COMPLETED \<and> g_deletedAt g = None})"
    (is "length (filter (\<lambda>g. g \<in> ?A) ?xs) = card (?J \<inter> ?C)")
proof -
  have "?J \<subseteq> set (remdups (map m_groupId (filter (\<lambda>m. m_userId m \<in> set ids) (memberships w))))"
    using assms by (auto simp: groups_joined_def)
  then have "?J \<inter> ?A = ?J \<inter> ?C" unfolding completed_groups_eq by blast
  moreover have "set (filter (\<lambda>g. g \<in> ?A) ?xs) = ?J \<inter> ?A" by (auto simp: set_groups_of_user)
  moreover have "distinct (filter (\<lambda>g. g \<in> ?A) ?xs)" by (simp only: distinct_filter distinct_groups_of_user)
  ultimately show ?thesis by (simp only: distinct_card [symmetric])
qed

lemma components_by_user_reference:
  assumes "u \<in> set ids"
  shows "components_by_user ids w u = Some (reference_components u w)"
proof -
  let ?ms = "filter (\<lambda>m. m_userId m \<in> set ids) (memberships w)"
  have none: "groups_joined u w = {}" if "u \<notin> set (map m_userId ?ms)"
    using that assms by (auto simp: groups_joined_def)
  have start: "map_of (map (\<lambda>u. (u, no_components)) ids) u = Some no_components"
    using assms by (simp add: map_of_map_restrict)
  have size: "length (groups_of_user u (memberships w)) = card (groups_joined u w)"
    by (metis distinct_card distinct_groups_of_user set_groups_of_user)
  show ?thesis
    unfolding components_by_user_def Let_def fold_update_entry start filter_in_batch [OF assms] filter_entries [OF distinct_remdups]
      groups_of_user_filter [OF assms]
    using none completed_in_groups [OF assms, of w] size
    by (simp add: fold_add_contribution fold_add_penalty set_groups_def reference_components_def no_components_def count_rows_filter)
qed

lemma cohort_in_batch:
  assumes "u \<in> set ids"
  shows "detectRepeatedCohort u (group_rows ids w) = detectRepeatedCohort u (memberships w)"
proof -
  have mine: "m_groupId m \<in> m_groupId ` set (filter (\<lambda>m. m_userId m \<in> set ids) (memberships w))"
    if "m \<in> set (memberships w)" "m_userId m = u" for m
    using that assms by auto
  have "filter (\<lambda>m. m_userId m = u) (group_rows ids w) = filter (\<lambda>m. m_userId m = u) (memberships w)"
    using mine unfolding group_rows_def Let_def filter_filter by (intro filter_cong) auto
  then have groups: "groups_of_user u (group_rows ids w) = groups_of_user u (memberships w)"
    by (simp add: groups_of_user_def)
  have "shared_rows u (group_rows ids w) = shared_rows u (memberships w)"
    unfolding shared_rows_def groups set_groups_of_user
    using mine unfolding group_rows_def Let_def filter_filter by (intro filter_cong) (auto simp: groups_joined_def)
  then show ?thesis unfolding detectRepeatedCohort_def max_repeated_def groups by (simp only:)
qed

lemma recalculateBatch_reference:
  "recalculateBatch ids w d = fold (\<lambda>u. upsert_score (reference_score u w)) ids d"
proof (cases "ids = []")
  case False
  have "fold (\<lambda>u. upsert_score (score_row u (the (components_by_user ids w u)) (detectRepeatedCohort u (group_rows ids w)) (now w))) ids d
      = fold (\<lambda>u. upsert_score (reference_score u w)) ids d"
    by (intro fold_cong) (simp_all add: components_by_user_reference cohort_in_batch reference_score_def)
  with False show ?thesis by (simp add: recalculateBatch_def Let_def)
qed (simp add: recalculateBatch_def)

lemma recalculate_from_reference:
  assumes "n = length (users w)"
  shows "recalculate_from n i w (k, d) =
    (k + length (drop i (users w)), fold (\<lambda>u. upsert_score (reference_score u w)) (map u_id (drop i (users w))) d)"
  using assms
proof (induction "n - i" arbitrary: i k d rule: less_induct)
  case less
  show ?case
  proof (cases "i < n")
    case True
    let ?b = "take TRUST_SCORE_BATCH_SIZE (drop i (users w))"
    have pos: "0 < TRUST_SCORE_BATCH_SIZE" by (simp add: TRUST_SCORE_BATCH_SIZE_def)
    have ne: "?b \<noteq> []" using True less.prems pos by simp
    have cut: "drop i (users w) = ?b @ drop (i + TRUST_SCORE_BATCH_SIZE) (users w)"
      by (metis append_take_drop_id drop_drop add.commute)
    have "recalculate_from n i w (k, d) = recalculate_from n (i + TRUST_SCORE_BATCH_SIZE) w
        (k + length ?b, recalculateBatch (map u_id ?b) w d)"
      using True ne by (subst recalculate_from.simps) (simp add: Let_def)
    also have "\<dots> = (k + length ?b + length (drop (i + TRUST_SCORE_BATCH_SIZE) (users w)),
        fold (\<lambda>u. upsert_score (reference_score u w)) (map u_id (drop (i + TRUST_SCORE_BATCH_SIZE) (users w)))
          (recalculateBatch (map u_id ?b) w d))"
      using True pos by (intro less.hyps less.prems) simp
    also have "\<dots> = (k + length (drop i (users w)), fold (\<lambda>u. upsert_score (reference_score u w)) (map u_id (drop i (users w))) d)"
      by (subst (3 4) cut) (simp add: recalculateBatch_reference)
    finally show ?thesis .
  next
    case False
    then show ?thesis using less.prems by (subst recalculate_from.simps) simp
  qed
qed

text \<open>
  C14: The nightly recalculation gives every user the score of that user. Working in batches of 200
  with the rows of a whole batch at once equals taking the users one by one, counting the rows of
  each directly; it ends, and reports as many users as there are.
\<close>

theorem recalculateAll_correct:
  "recalculateAll w d = (length (users w), fold (\<lambda>u. upsert_score (reference_score u w)) (map u_id (users w)) d)"
  by (simp add: recalculateAll_def recalculate_from_reference)


subsection \<open>Cohorts and waivers\<close>

lemma foldr_max: "(\<forall>x \<in> set xs. x \<le> foldr max xs (0 :: int)) \<and> foldr max xs 0 \<in> insert 0 (set xs)"
  by (induction xs) (auto simp: max_def)

lemma distinct_filter_key:
  "distinct (map (\<lambda>r. (f r, g r)) xs) \<Longrightarrow> distinct (map f (filter (\<lambda>r. g r = v) xs))"
  by (induction xs) auto

lemma image_filter_Int: "f ` {x \<in> S. f x \<in> G} = f ` S \<inter> G"
  by auto

lemma groups_joined_image: "groups_joined v w = m_groupId ` {m \<in> set (memberships w). m_userId m = v}"
  by (auto simp: groups_joined_def)

lemma shared_count:
  assumes "keys_ok w" "v \<noteq> u"
  shows "count_rows (\<lambda>m. m_userId m = v) (shared_rows u (memberships w)) = int (card (groups_joined u w \<inter> groups_joined v w))"
proof -
  let ?xs = "filter (\<lambda>m. m_userId m = v) (shared_rows u (memberships w))"
  have d: "distinct (map (\<lambda>m. (m_groupId m, m_userId m)) (memberships w))" using assms(1) by (simp add: keys_ok_def)
  have sub: "?xs = filter (\<lambda>m. m_groupId m \<in> groups_joined u w) (filter (\<lambda>m. m_userId m = v) (memberships w))"
    using assms(2) by (auto simp: shared_rows_def set_groups_of_user filter_filter intro: filter_cong)
  have "distinct (map m_groupId ?xs)"
    using distinct_filter_key [OF d, of v] unfolding sub by (rule distinct_map_filter)
  then have "length ?xs = card (set (map m_groupId ?xs))" using distinct_card [of "map m_groupId ?xs"] by simp
  moreover have "set (map m_groupId ?xs) = groups_joined u w \<inter> groups_joined v w"
    unfolding sub set_map set_filter image_filter_Int groups_joined_image [of v] by (rule Int_commute)
  ultimately show ?thesis by (simp add: count_rows_def)
qed

lemma max_repeated_spec:
  fixes u :: uuid and w :: world
  assumes "keys_ok w"
  defines "n \<equiv> \<lambda>v. int (card (groups_joined u w \<inter> groups_joined v w))" and "r \<equiv> max_repeated u (memberships w)"
  shows "0 \<le> r" "v \<noteq> u \<Longrightarrow> n v \<le> r" "r = 0 \<or> (\<exists>v. v \<noteq> u \<and> r = n v)"
proof -
  let ?rows = "shared_rows u (memberships w)"
  let ?xs = "map (\<lambda>v. count_rows (\<lambda>m. m_userId m = v) ?rows) (remdups (map m_userId ?rows))"
  have others: "v \<noteq> u" if "v \<in> m_userId ` set ?rows" for v using that by (auto simp: shared_rows_def)
  have members: "v \<in> m_userId ` set ?rows" if "v \<noteq> u" "0 < n v" for v
  proof -
    have "count_rows (\<lambda>m. m_userId m = v) ?rows \<noteq> 0" using that shared_count [OF assms(1) that(1)] by (simp add: n_def)
    then show ?thesis by (auto simp: count_rows_0_iff)
  qed
  have xs: "set ?xs = n ` m_userId ` set ?rows" using others shared_count [OF assms(1)] by (auto simp: image_iff n_def)
  have r: "r = foldr max ?xs 0" by (simp add: max_repeated_def Let_def r_def)
  have le: "\<forall>x \<in> n ` m_userId ` set ?rows. x \<le> r" and mem: "r \<in> insert 0 (n ` m_userId ` set ?rows)"
    using foldr_max [of ?xs] unfolding r [symmetric] xs by blast+
  show attained: "r = 0 \<or> (\<exists>v. v \<noteq> u \<and> r = n v)" using mem others by auto
  then show pos: "0 \<le> r" by (auto simp: n_def)
  show "n v \<le> r" if "v \<noteq> u"
    using le members [OF that] pos by (cases "0 < n v") auto
qed

lemma cohort_flag_ratio:
  "ag_flagged (detectRepeatedCohort u (memberships w)) \<longleftrightarrow> 3 \<le> card (groups_joined u w) \<and>
    3 \<le> max_repeated u (memberships w) \<and> 3 * int (card (groups_joined u w)) \<le> 4 * max_repeated u (memberships w)"
proof -
  let ?G = "groups_joined u w" and ?r = "max_repeated u (memberships w)"
  have size: "length (groups_of_user u (memberships w)) = card ?G"
    by (metis distinct_card distinct_groups_of_user set_groups_of_user)
  show ?thesis
  proof (cases "3 \<le> card ?G")
    case True
    then have "0 < (of_nat (card ?G) :: rat)" by simp
    then have "3 / 4 \<le> (of_int ?r :: rat) / of_nat (card ?G) \<longleftrightarrow> 3 * (of_nat (card ?G) :: rat) \<le> 4 * of_int ?r"
      by (simp add: field_simps)
    also have "\<dots> \<longleftrightarrow> (of_int (3 * int (card ?G)) :: rat) \<le> of_int (4 * ?r)" by simp
    finally have "3 / 4 \<le> (of_int ?r :: rat) / of_nat (card ?G) \<longleftrightarrow> 3 * int (card ?G) \<le> 4 * ?r"
      unfolding of_int_le_iff .
    moreover have "3 / 4 \<le> min 1 x \<longleftrightarrow> 3 / 4 \<le> x" for x :: rat by simp
    ultimately show ?thesis using True
      by (simp del: divide_le_eq_numeral1 add: detectRepeatedCohort_def size ANTI_GAMING_MIN_GROUPS_def ANTI_GAMING_MIN_REPEATED_GROUPS_def
          ANTI_GAMING_FLAG_THRESHOLD_def Let_def)
  qed (simp add: detectRepeatedCohort_def size ANTI_GAMING_MIN_GROUPS_def Let_def)
qed

text \<open>
  The signal for a repeated cohort is exact. A user of at least three groups is flagged exactly
  when some other user shares at least three and at least three quarters of them.
\<close>

theorem cohort_flag_correct:
  assumes "keys_ok w"
  shows "ag_flagged (detectRepeatedCohort u (memberships w)) \<longleftrightarrow> 3 \<le> card (groups_joined u w) \<and>
    (\<exists>v. v \<noteq> u \<and> 3 \<le> card (groups_joined u w \<inter> groups_joined v w) \<and>
       3 * card (groups_joined u w) \<le> 4 * card (groups_joined u w \<inter> groups_joined v w))"
    (is "_ \<longleftrightarrow> ?L \<and> (\<exists>v. v \<noteq> u \<and> ?P v)")
proof -
  let ?r = "max_repeated u (memberships w)"
  have "3 \<le> ?r \<and> 3 * int (card (groups_joined u w)) \<le> 4 * ?r \<longleftrightarrow> (\<exists>v. v \<noteq> u \<and> ?P v)"
  proof
    assume l: "3 \<le> ?r \<and> 3 * int (card (groups_joined u w)) \<le> 4 * ?r"
    then obtain v where "v \<noteq> u" "?r = int (card (groups_joined u w \<inter> groups_joined v w))"
      using max_repeated_spec(3) [OF assms, of u] by auto
    with l show "\<exists>v. v \<noteq> u \<and> ?P v" by (intro exI [of _ v]) linarith
  next
    assume "\<exists>v. v \<noteq> u \<and> ?P v"
    then obtain v where "v \<noteq> u" "?P v" by blast
    with max_repeated_spec(2) [OF assms, of v u] show "3 \<le> ?r \<and> 3 * int (card (groups_joined u w)) \<le> 4 * ?r"
      by linarith
  qed
  then show ?thesis unfolding cohort_flag_ratio by blast
qed

text \<open>
  A waived penalty is held against the user for ever. Waiving changes nothing in the components
  of anybody: the penalty stays one that was incurred and not paid, and costs its five points.
\<close>

theorem waived_penalty_keeps_score:
  assumes "penalties_ok w" "find_penalty i w = Some p" "p_status p = PS_PENDING"
  shows "reference_score u (snd (waivePenalty i reason adm w)) = reference_score u w \<and>
    tc_penaltiesPaid (reference_components u (snd (waivePenalty i reason adm w))) = tc_penaltiesPaid (reference_components u w)"
proof -
  let ?p = "p\<lparr>p_status := PS_WAIVED, p_waiverReason := Some reason, p_waivedByUserId := Some adm, p_waivedAt := Some (now w)\<rparr>"
  have run: "snd (waivePenalty i reason adm w) = save_penalty ?p w"
    using assms(2,3) by (simp add: waivePenalty_def)
  have p: "p \<in> set (penalties w)" using find_penaltyD [OF assms(2)] by simp
  have keys: "distinct (map p_id (penalties w))" using assms(1) by (simp add: penalties_ok_def)
  have "count_rows P (penalties (save_penalty ?p w)) = count_rows P (penalties w)" if "P ?p = P p" for P
    unfolding save_penalty_def using count_rows_save_same [OF p keys, of ?p P] that by simp
  then have "reference_components u (save_penalty ?p w) = reference_components u w"
    using assms(3) by (simp add: reference_components_def groups_joined_def save_penalty_def)
  moreover have "memberships (save_penalty ?p w) = memberships w" "now (save_penalty ?p w) = now w"
    by (simp_all add: save_penalty_def)
  ultimately show ?thesis by (simp add: run reference_score_def)
qed


text \<open>
  Only the user, a platform admin and the admin of a group of the user read a score, and a
  user that exists always has one to read.
\<close>

theorem trust_score_access:
  "(\<exists>r. getTrustScore target caller role (isCallerGroupAdminOfUser caller target w) w d = Inr r) \<longleftrightarrow>
    (caller = target \<or> role = ''admin'' \<or> isCallerGroupAdminOfUser caller target w) \<and>
    ((\<exists>r \<in> set (scores d). ts_userId r = target) \<or> (\<exists>u \<in> set (users w). u_id u = target))"
proof (cases "List.find (\<lambda>r. ts_userId r = target) (scores d)")
  case None
  then have "\<not> (\<exists>r \<in> set (scores d). ts_userId r = target)" by (auto simp: find_None_iff)
  with None show ?thesis by (auto simp: getTrustScore_def)
next
  case (Some r)
  then have "r \<in> set (scores d) \<and> ts_userId r = target" by (auto dest: find_Some_mem)
  with Some show ?thesis by (auto simp: getTrustScore_def)
qed

subsection \<open>Concrete runs\<close>

definition demo_history :: trust_components where
  "demo_history = no_components\<lparr>tc_onTime := 2, tc_missed := 1, tc_penaltiesIncurred := 1, tc_groupsCompleted := 2\<rparr>"

lemma demo_history_score: "computeTrustScore demo_history = 43"
  by code_simp

theorem trust_score_bounds_witness:
  "0 \<le> computeTrustScore demo_history \<and> computeTrustScore demo_history \<le> 80"
  by (rule trust_score_bounds) (simp add: demo_history_def no_components_def counts_ok_def)

theorem trust_score_monotone_witness:
  "computeTrustScore demo_history \<le> computeTrustScore (demo_history\<lparr>tc_penaltiesPaid := 1\<rparr>)"
  by (rule trust_score_monotone) (simp_all add: demo_history_def no_components_def counts_ok_def as_good_def)

definition demo_cohort :: world where
  "demo_cohort = demo_active\<lparr>memberships :=
     map (\<lambda>(k, u, g). (demo_member k u u None)\<lparr>m_groupId := g\<rparr>)
       [(0, ''u'', ''a''), (1, ''u'', ''b''), (2, ''u'', ''c''), (3, ''v'', ''a''), (4, ''v'', ''b''), (5, ''v'', ''c'')],
     uuid_count := 6\<rparr>"

theorem cohort_flag_correct_witness:
  "ag_flagged (detectRepeatedCohort ''u'' (memberships demo_cohort)) \<longleftrightarrow>
     3 \<le> card (groups_joined ''u'' demo_cohort) \<and>
     (\<exists>v. v \<noteq> ''u'' \<and> 3 \<le> card (groups_joined ''u'' demo_cohort \<inter> groups_joined v demo_cohort) \<and>
        3 * card (groups_joined ''u'' demo_cohort) \<le> 4 * card (groups_joined ''u'' demo_cohort \<inter> groups_joined v demo_cohort))"
proof -
  have "keys_ok demo_cohort" by code_simp
  from cohort_flag_correct [OF this] show ?thesis .
qed

theorem waived_penalty_keeps_score_witness:
  "reference_score ''u1'' (snd (waivePenalty ''1'' ''late train'' ''u0'' (demo_owed PS_PENDING))) = reference_score ''u1'' (demo_owed PS_PENDING)"
  using waived_penalty_keeps_score [OF demo_owed_ok demo_owed_find [of PS_PENDING]] by simp

end
