(* ===== verification/Spec2Isabelle.thy ===== *)
theory Spec2Isabelle
  imports System Scheduler Auth Throttle Rotation ChainSync Jobs Balance Templates Kyc Installments TrustScore EventListener
begin

text \<open>
  The backend of a rotating savings circle (\<open>ahjoorxmr/src\<close>, a NestJS service over PostgreSQL,
  Redis, BullMQ and the Stellar network). Members of a group contribute once per round, and each
  round one of them, in the payout order, receives what the round collected. This development
  models the services that decide who is a member, who has paid, who is paid, and what the system
  remembers of it.

  \<^bold>\<open>The program and the model.\<close> A handler is a method of a service; here it is a function from
  its arguments and the state to a result and the next state. The state \<open>world\<close> (Entities) is a
  record of the database tables, the Redis keys, the job queues, the notification rows, the log of
  webhooks, the deferred callbacks and a counter for generated keys. A result is \<open>Inl\<close> of the
  exception thrown, with its message, or \<open>Inr\<close> of the value returned. A handler that throws
  returns the state as it was when it threw: what it has written by then stays, unless the code
  runs it in a database transaction (\<open>transaction\<close> in Prelude), which rolls the tables back.
  Integers of the code that only count are \<open>nat\<close> or \<open>int\<close>; a timestamp is the number of
  milliseconds; a \<open>numeric\<close> column read as a string is a string and is parsed where the code
  parses it. The network, the oracles, decimal.js and random codes are arguments of the handlers
  that use them: no theorem assumes how they answer, except where a hypothesis says so.

  \<^item> Prelude: exceptions, transactions, printing of numbers, \<open>null\<close> in arithmetic, and the
    contracts of a state machine as locales. \<open>machine\<close> has runs of operations and an invariant,
    \<open>monotone_machine\<close> a relation that every operation moves along, and \<open>once_machine\<close> an effect
    that leaves a mark and is not repeated once the mark is there.
  \<^item> Entities and Tables: one record per TypeORM entity (\<open>*.entity.ts\<close>) and the repositories. The
    locale \<open>row_store\<close> is the contract of a repository and is interpreted on each table.
  \<^item> Notifications (\<open>notification/notifications.service.ts\<close>): the rows a notification leaves, and
    the batches with their idempotency keys.
  \<^item> Memberships (\<open>memberships/memberships.service.ts\<close>), Waitlist
    (\<open>waitlist/waitlist.service.ts\<close>) and Invites (\<open>groups/invites/group-invite.service.ts\<close>): who
    is in a group, in which payout order, and who is next.
  \<^item> GroupsService (\<open>groups/groups.service.ts\<close>), Rounds (\<open>groups/round.service.ts\<close>) and Templates
    (\<open>groups/group-templates.service.ts\<close>): the life of a group from its creation over its
    activation and its rounds to its completion.
  \<^item> Payouts (\<open>groups/payout.service.ts\<close>, \<open>bullmq/payout-reconciliation.processor.ts\<close>): the
    payout of a round, with its transaction row, its submission and its reconciliation.
  \<^item> Fx (\<open>fx/fx.service.ts\<close>) and Contributions (\<open>contributions/contributions.service.ts\<close>,
    \<open>bullmq/tx-confirmation.processor.ts\<close>): the record of a payment into the round, the lock that
    keeps two requests with one key apart, and the confirmation on chain.
  \<^item> Penalties (\<open>penalties/services/*.ts\<close>), Installments (\<open>payments/*.ts\<close>) and TrustScore
    (\<open>trust-score/*.ts\<close>): what a missed payment costs, how a debt is paid in parts, and the score
    computed from the history of a member.
  \<^item> EventListener (\<open>event-listener/event-listener.service.ts\<close>): the events of the contract that
    are applied to the same tables.
  \<^item> ChainSync (\<open>bullmq/event-sync.processor.ts\<close>, \<open>bullmq/group-sync.processor.ts\<close>): the workers that
    copy the state of the contract and its transfers and approvals into the same tables, under the lock
    of \<open>common/redis/redlock.service.ts\<close>.
  \<^item> Breaker (\<open>stellar/stellar-circuit-breaker.service.ts\<close>, \<open>stellar/congestion-monitor.service.ts\<close>):
    the circuit that stands between the services and the network. Balance
    (\<open>stellar/balance-monitor.service.ts\<close>): the accounts checked through it, and their alerts.

  \<^item> System: which tables each handler writes (the relation \<open>only\<close>), and the handlers of memberships,
    waitlist, invites, groups, contributions, payouts, rounds and penalties, with the jobs of their
    workers, as one machine with one invariant. EventListener, ChainSync and Scheduler write the same tables
    but are no steps of it: what follows the chain or the clock may move a group back.
  \<^item> Scheduler (\<open>scheduler/scheduler.service.ts\<close>, \<open>scheduler/services/*.ts\<close>): the timed jobs, their
    lock and their retries.

  \<^item> Auth (\<open>auth/auth.service.ts\<close>, \<open>auth/two-factor.service.ts\<close>, \<open>auth/strategies/jwt.strategy.ts\<close>,
    \<open>users/users.service.ts\<close>): sessions, rotating refresh tokens and their families, access tokens with
    the version of the user and its cache, which Redis may fail to update, the second factor. Random tokens
    are the counter of generated keys, hashes and signatures are arguments.
  \<^item> Throttle (\<open>throttler/*.ts\<close>): the counters in Redis with their Lua scripts, trusted and blocked
    addresses, and the guard in front of every route.
  \<^item> Base64 and Encryption (\<open>common/encryption/field-encryption.transformer.ts\<close>): the key registry built
    from the environment, and the columns stored encrypted. AES-256-GCM is an argument with the laws
    \<open>gcm_laws\<close>.
  \<^item> Rotation (\<open>common/encryption/key-rotation.ts\<close>): the re-encryption of those columns after a switch of
    keys. The locale \<open>rotation_store\<close> is the interface \<open>RotationStore\<close> of the code, interpreted on the
    PostgreSQL store.
  \<^item> Json and Webhooks (\<open>webhooks/webhook.service.ts\<close>, \<open>webhooks/webhook-delivery.processor.ts\<close>,
    \<open>bullmq/dead-letter.service.ts\<close>): JavaScript values and their texts that ignore the order of keys, the
    deliveries of events to webhooks with their ids, replays and dead letters. The endpoint is an
    argument of every call, and so is whether the queue runs a job again: BullMQ's retries are its own. A
    delivery is split where it waits for the endpoint.
  \<^item> Jobs (\<open>bullmq/poison-message-detector.service.ts\<close>, \<open>bullmq/job-failure.service.ts\<close>, the dead letters of
    \<open>bullmq/queue.service.ts\<close>): the count of equal failures of a job, the records of failed jobs and their retries.
  \<^item> Kyc (\<open>kyc/*.service.ts\<close>, \<open>kyc/providers/*.ts\<close>, \<open>kyc/guards/*.ts\<close>): the documents of an identity check,
    their submission to a provider or the next one, the signed callbacks that decide, and the cases that fall
    silent. Providers, scanner and storage are arguments.

  \<^bold>\<open>How the parts meet.\<close> Contributions calls Rounds after it has stored a row; Rounds moves the
  group on and calls Payouts; Payouts asks Penalties' table whether the recipient owes something
  and sums the CONFIRMED rows of Contributions. A membership that ends makes Memberships call
  Waitlist, whose admission runs later, as a deferred callback that is a step of its own.
  EventListener writes what Contributions, Rounds and Penalties also write. Several of the theorems
  are about these meetings, and several of them show a defect: the last round that closes before it is
  paid (\<open>last_round_left_unpaid\<close>), the contribution that is not yet confirmed when its round is
  summed, the round that is counted once by the service and once by the chain
  (\<open>completed_round_counted_twice\<close>).

  \<^bold>\<open>What the lemmas show.\<close> Each theory first states what its operations leave alone (frames),
  then its invariant and that each operation keeps it, then the behaviour of each operation on
  every branch, then, where the component is a machine, the interpretation of the contract and the
  property of all its runs, and at the end concrete runs. The main results are: a round is submitted
  to the chain at most once, whatever the network answers (Payouts); contributions are append only
  and unique (Contributions); an advance changes exactly the group, the flags and the log
  (GroupsService, Rounds); the payout orders stay a permutation (Memberships) and the admissions are
  first come, first served within the capacity (Waitlist); a penalty and an installment plan follow
  their life cycles (Penalties, Installments); an event is applied at most once (EventListener);
  the circuit refines the history of its calls (Breaker); the batch of scores equals the score of
  every user on its own (TrustScore);
  a refresh token is exchanged once and its second use ends every session (Auth); a key is admitted at
  most as often per window as its limit says (Throttle); what is encrypted reads back, before and
  after a switch of keys, and an interrupted rotation resumes (Encryption, Rotation);
  an event is accepted by a webhook at most once as long as its deliveries do not overlap and the answers can
  be stored (Webhooks); the incremental count of a job's failures is that of its
  history (Jobs); nobody is approved but by an authentic callback (Kyc).

  \<^bold>\<open>Bounds and termination.\<close> All functions are total but the loop of the rotation, which is a partial
  function over any store and is proved to end on every store that keeps the contract. Recursion is on lists of rows or on a
  counter; the wait for a request in flight is at most 110 polls of 500 ms
  (\<open>waitForInFlight_bounded\<close>), because its loop compares a clock that each poll advances with a
  fixed deadline; the poll of a transaction decreases the time left until the deadline of its job.
  Pages of the chain hold at most 200 transactions, as in the code. Printing of a number recurses
  on its quotient by ten. There is no fuel.

  \<^bold>\<open>Interleaving.\<close> A handler runs to its end in one step, except where the code itself waits
  for others: \<open>createContribution\<close> takes the requests that run while it waits as an argument. The
  locks that PostgreSQL takes inside a transaction make the other handlers atomic where they use
  one; where they do not, two calls that overlap are outside the model, but for the deliveries of Webhooks,
  whose two halves are steps of their own (\<open>concurrent_workers_deliver_twice\<close>). Redis may be down between
  any two calls of Auth, at a lock of ChainSync and in Scheduler; elsewhere its commands succeed.

  \<^bold>\<open>Not modelled.\<close> Controllers, the other guards and DTO validation (\<open>*.controller.ts\<close>); the client of the
  Soroban RPC (\<open>stellar/stellar.service.ts\<close>), which only builds and sends requests; pagination and
  search, mail, push and WebSocket delivery; the timers themselves; caching; the
  example projects that lie in directories of their own under \<open>src\<close> and that the backend does not
  import; the audit log, of which the theories only record that an entry is made; profiles, announcements and mail. \<open>PROJECT.json\<close>
  lists these parts with the reasons.
\<close>

end
